(* ===== verification/Prelude.thy ===== *)
theory Prelude
  imports Main "HOL-Library.Word" "HOL-Library.While_Combinator"
begin

text \<open>
  Vocabulary shared by the component theories: byte strings and machine words, the
  big-endian codings that Qt's \<open>qToBigEndian\<close> and \<open>qFromBigEndian\<close> compute, the
  \<open>memcpy\<close> of a block into an array, and the collections of simplification rules
  that the component proofs draw on.
\<close>

unbundle bit_operations_syntax

type_synonym byte = "8 word"
type_synonym bytes = "byte list"
type_synonym u16 = "16 word"
type_synonym u32 = "32 word"
type_synonym u64 = "64 word"

named_theorems wire_simps \<open>lengths and values of byte-level codings\<close>
named_theorems buffer_simps \<open>the algebra of the byte buffers\<close>
named_theorems session_simps \<open>frame facts of the session operations\<close>

section \<open>Big-endian codings\<close>

fun be_bytes :: "nat \<Rightarrow> nat \<Rightarrow> bytes" where
  "be_bytes 0 n = []"
| "be_bytes (Suc k) n = of_nat (n div 256 ^ k) # be_bytes k n"

definition be_val :: "bytes \<Rightarrow> nat" where
  "be_val bs = foldl (\<lambda>n b. n * 256 + unat b) 0 bs"

lemma length_be_bytes [simp, wire_simps]: "length (be_bytes k n) = k"
  by (induction k) auto

lemma be_val_Nil [simp]: "be_val [] = 0"
  by (simp add: be_val_def)

lemma foldl_be_acc:
  "foldl (\<lambda>n b. n * 256 + unat (b :: byte)) a bs = a * 256 ^ length bs + be_val bs"
proof (induction bs arbitrary: a)
  case Nil
  then show ?case by simp
next
  case (Cons b bs)
  have "foldl (\<lambda>n b. n * 256 + unat b) (unat b) bs = unat b * 256 ^ length bs + be_val bs"
    by (rule Cons.IH)
  moreover have "be_val (b # bs) = foldl (\<lambda>n b. n * 256 + unat b) (unat b) bs"
    by (simp add: be_val_def)
  ultimately have hd: "be_val (b # bs) = unat b * 256 ^ length bs + be_val bs" by simp
  show ?case
    using Cons.IH [of "a * 256 + unat b"] by (simp add: hd algebra_simps)
qed

lemma be_val_Cons: "be_val (b # bs) = unat b * 256 ^ length bs + be_val bs"
  using foldl_be_acc [of "unat b" bs] by (simp add: be_val_def)

lemma unat_of_nat_byte: "unat (of_nat n :: byte) = n mod 256"
  by (simp add: unat_of_nat)

lemma be_val_be_bytes [wire_simps]: "be_val (be_bytes k n) = n mod 256 ^ k"
proof (induction k)
  case 0
  then show ?case by simp
next
  case (Suc k)
  have "n mod (256 ^ k * 256) = 256 ^ k * (n div 256 ^ k mod 256) + n mod 256 ^ k"
    by (rule mod_mult2_eq)
  then have "n mod 256 ^ Suc k = (n div 256 ^ k mod 256) * 256 ^ k + n mod 256 ^ k"
    by (simp add: mult.commute)
  then show ?case
    by (simp add: be_val_Cons Suc.IH unat_of_nat_byte)
qed

lemma be_val_bound: "be_val bs < 256 ^ length bs"
proof (induction bs)
  case Nil
  then show ?case by simp
next
  case (Cons b bs)
  have "unat b < 256" using unsigned_less [of b] by simp
  then have "Suc (unat b) * 256 ^ length bs \<le> 256 * 256 ^ length bs"
    by (intro mult_le_mono1) simp
  moreover have "unat b * 256 ^ length bs + be_val bs < Suc (unat b) * 256 ^ length bs"
    using Cons.IH by simp
  ultimately have "unat b * 256 ^ length bs + be_val bs < 256 * 256 ^ length bs"
    by (rule less_le_trans [rotated])
  then show ?case by (simp only: be_val_Cons list.size power_add) simp
qed

section \<open>Block copies\<close>

text \<open>\<open>memcpy(dst + off, src, n)\<close> with \<open>n\<close> the length of the source block.\<close>

definition memcpy_at :: "'a list \<Rightarrow> nat \<Rightarrow> 'a list \<Rightarrow> 'a list" where
  "memcpy_at dst off src = take off dst @ src @ drop (off + length src) dst"

lemma length_memcpy_at [simp]:
  "off + length src \<le> length dst \<Longrightarrow> length (memcpy_at dst off src) = length dst"
  by (simp add: memcpy_at_def)

lemma nth_memcpy_at:
  assumes "off + length src \<le> length dst" and "i < length dst"
  shows "memcpy_at dst off src ! i =
    (if off \<le> i \<and> i < off + length src then src ! (i - off) else dst ! i)"
  using assms by (auto simp: memcpy_at_def nth_append min_def)

section \<open>Case folding\<close>

text \<open>\<open>QString::toLower\<close> on the Latin letters the configuration keywords consist of.\<close>

definition toLower_char :: "char \<Rightarrow> char" where
  "toLower_char c = (let n = of_char c :: nat in if 65 \<le> n \<and> n \<le> 90 then char_of (n + 32) else c)"

section \<open>Decimal numerals\<close>

text \<open>What \<open>QString::arg\<close> writes for a non-negative number.\<close>

fun dec_string :: "nat \<Rightarrow> string" where
  "dec_string n = (if n < 10 then [char_of (48 + n)]
     else dec_string (n div 10) @ [char_of (48 + n mod 10)])"

declare dec_string.simps [simp del]

lemma dec_digit: "n < 10 \<Longrightarrow> dec_string n = [char_of (48 + n)]"
  by (simp add: dec_string.simps)

section \<open>Runs of a component\<close>

text \<open>
  A component's step takes an operation and a state and gives the next state with what it
  emitted; a run chains the steps and collects the emissions.
\<close>

fun run :: "('o \<Rightarrow> 's \<Rightarrow> 's \<times> 'e list) \<Rightarrow> 'o list \<Rightarrow> 's \<Rightarrow> 's \<times> 'e list" where
  "run step [] s = (s, [])"
| "run step (x # xs) s = (case step x s of (s', es) \<Rightarrow> case run step xs s' of (s'', es') \<Rightarrow> (s'', es @ es'))"

lemma run_Cons:
  "fst (run step (x # xs) s) = fst (run step xs (fst (step x s)))"
  "snd (run step (x # xs) s) = snd (step x s) @ snd (run step xs (fst (step x s)))"
  by (simp_all split: prod.splits)

lemma run_invariant:
  assumes "I s" and "\<And>x s. I s \<Longrightarrow> I (fst (step x s))"
  shows "I (fst (run step xs s))"
  using assms(1) by (induction xs arbitrary: s) (simp_all add: run_Cons assms(2) del: run.simps(2))

declare run.simps(2) [simp del]

lemma run_snoc:
  "fst (run st (xs @ [x]) s) = fst (st x (fst (run st xs s)))"
  "snd (run st (xs @ [x]) s) = snd (run st xs s) @ snd (st x (fst (run st xs s)))"
  by (induction xs arbitrary: s) (simp_all add: run_Cons)

text \<open>An invariant of the state together with everything emitted so far.\<close>

lemma run_history_invariant:
  assumes "I s []" and "\<And>x s h. I s h \<Longrightarrow> I (fst (st x s)) (h @ snd (st x s))"
  shows "I (fst (run st xs s)) (snd (run st xs s))"
proof (induction xs rule: rev_induct)
  case Nil then show ?case using assms(1) by simp
next
  case (snoc x xs)
  from assms(2) [OF snoc, of x] show ?case by (simp only: run_snoc)
qed

text \<open>One operation after another, with what both emit.\<close>

definition chain :: "'s \<times> 'e list \<Rightarrow> ('s \<Rightarrow> 's \<times> 'e list) \<Rightarrow> 's \<times> 'e list" where
  "chain r f = (let (s, es) = r; (s', es') = f s in (s', es @ es'))"

lemma chain_fst: "fst (chain r f) = fst (f (fst r))"
  by (simp add: chain_def split: prod.splits)

lemma chain_snd: "snd (chain r f) = snd r @ snd (f (fst r))"
  by (simp add: chain_def split: prod.splits)

lemma map_of_filter_key: "map_of (filter (\<lambda>(k, _). P k) al) k = (if P k then map_of al k else None)"
  by (induction al) auto

end
