(* ===== verification/Frame_Header.thy ===== *)
theory Frame_Header
  imports Prelude
begin

text \<open>
  The two-byte frame header of the Android Auto wire protocol: the enumerations of
  \<open>oaa/Messenger/FrameType.hpp\<close> and the record, \<open>parse\<close>, \<open>serialize\<close> and
  \<open>sizeFieldLength\<close> of \<open>FrameHeader\<close>.
\<close>

datatype frame_type = Middle | First | Last | Bulk

datatype encryption_type = Plain | Encrypted

datatype message_type = Specific | Control

text \<open>The enumerators' underlying \<open>uint8_t\<close> values.\<close>

primrec frame_type_code :: "frame_type \<Rightarrow> byte" where
  "frame_type_code Middle = 0x00"
| "frame_type_code First = 0x01"
| "frame_type_code Last = 0x02"
| "frame_type_code Bulk = 0x03"

primrec encryption_type_code :: "encryption_type \<Rightarrow> byte" where
  "encryption_type_code Plain = 0x00"
| "encryption_type_code Encrypted = 0x08"

primrec message_type_code :: "message_type \<Rightarrow> byte" where
  "message_type_code Specific = 0x00"
| "message_type_code Control = 0x04"

record frame_header =
  channelId :: byte
  frameType :: frame_type
  encryptionType :: encryption_type
  messageType :: message_type
  totalMessageSize :: u32

text \<open>
  The casts of \<open>FrameHeader::parse\<close>: masking leaves one of the enumerators' values, so
  the cast back from the masked byte is total.
\<close>

definition frame_type_of :: "byte \<Rightarrow> frame_type" where
  "frame_type_of b = (let m = b AND 0x03 in
     if m = 0x00 then Middle else if m = 0x01 then First
     else if m = 0x02 then Last else Bulk)"

definition encryption_type_of :: "byte \<Rightarrow> encryption_type" where
  "encryption_type_of b = (if b AND 0x08 = 0x00 then Plain else Encrypted)"

definition message_type_of :: "byte \<Rightarrow> message_type" where
  "message_type_of b = (if b AND 0x04 = 0x00 then Specific else Control)"

text \<open>
  \<open>parse\<close> reads the first two bytes; fewer than two is an index assertion of
  \<open>QByteArray\<close>, the value \<open>None\<close>.
\<close>

fun header_parse :: "bytes \<Rightarrow> frame_header option" where
  "header_parse (byte0 # byte1 # _) = Some
     \<lparr>channelId = byte0, frameType = frame_type_of byte1,
      encryptionType = encryption_type_of byte1,
      messageType = message_type_of byte1, totalMessageSize = 0\<rparr>"
| "header_parse _ = None"

definition header_serialize :: "frame_header \<Rightarrow> bytes" where
  "header_serialize h =
     [channelId h,
      frame_type_code (frameType h) OR encryption_type_code (encryptionType h)
        OR message_type_code (messageType h)]"

definition sizeFieldLength :: "frame_type \<Rightarrow> nat" where
  "sizeFieldLength t = (if t = First then 6 else 2)"

section \<open>Parsing a serialized header\<close>

lemma length_header_serialize [simp, wire_simps]: "length (header_serialize h) = 2"
  by (simp add: header_serialize_def)

lemma flags_roundtrip:
  "frame_type_of (frame_type_code t OR encryption_type_code e OR message_type_code m) = t"
  "encryption_type_of (frame_type_code t OR encryption_type_code e OR message_type_code m) = e"
  "message_type_of (frame_type_code t OR encryption_type_code e OR message_type_code m) = m"
  by (cases t; cases e; cases m; simp add: frame_type_of_def encryption_type_of_def
      message_type_of_def)+

lemma header_parse_serialize [wire_simps]:
  "header_parse (header_serialize h @ bs) = Some (h\<lparr>totalMessageSize := 0\<rparr>)"
  by (simp add: header_serialize_def flags_roundtrip)

lemma header_parse_Some_iff: "(\<exists>h. header_parse bs = Some h) \<longleftrightarrow> 2 \<le> length bs"
  by (cases bs rule: header_parse.cases) auto

lemma header_parse_take2: "header_parse (take 2 bs) = header_parse bs"
  by (cases bs rule: header_parse.cases) auto

lemma sizeFieldLength_pos [simp]: "0 < sizeFieldLength t"
  by (simp add: sizeFieldLength_def)

end
