(* ===== verification/Circular_Buffer.thy ===== *)
theory Circular_Buffer
  imports Prelude
begin

text \<open>
  The growable ring buffer \<open>oaa::CircularBuffer\<close> that holds the bytes received from the
  transport and not yet parsed. Its contract as a queue of bytes is the locale
  \<open>byte_fifo\<close>; the interpretation at the end shows that the ring, with its wrap-around and
  its re-linearising growth, implements it.
\<close>

section \<open>The ring buffer\<close>

text \<open>
  The fields of the class; \<open>size_t\<close> values are natural numbers, since every one of them
  counts bytes of allocated memory.
\<close>

record circular_buffer =
  m_data :: bytes
  m_capacity :: nat
  m_readPos :: nat
  m_writePos :: nat
  m_size :: nat

definition cb_new :: "nat \<Rightarrow> circular_buffer" where
  "cb_new initialCapacity =
     \<lparr>m_data = replicate initialCapacity 0, m_capacity = initialCapacity,
      m_readPos = 0, m_writePos = 0, m_size = 0\<rparr>"

text \<open>
  The doubling loop of \<open>grow\<close>. It does not end on a capacity of zero, so its result is
  an option; \<open>grow_capacity_total\<close> shows that it ends on every other.
\<close>

definition grow_capacity :: "nat \<Rightarrow> nat \<Rightarrow> nat option" where
  "grow_capacity capacity minCapacity =
     while_option (\<lambda>newCapacity. newCapacity < minCapacity) (\<lambda>newCapacity. newCapacity * 2)
       capacity"

definition cb_linearize :: "circular_buffer \<Rightarrow> bytes \<Rightarrow> bytes" where
  "cb_linearize b newData =
     (if m_size b > 0 then
        let firstChunk = min (m_size b) (m_capacity b - m_readPos b);
            newData = memcpy_at newData 0 (take firstChunk (drop (m_readPos b) (m_data b)))
        in if firstChunk < m_size b
           then memcpy_at newData firstChunk (take (m_size b - firstChunk) (m_data b))
           else newData
      else newData)"

definition cb_grow :: "circular_buffer \<Rightarrow> nat \<Rightarrow> circular_buffer option" where
  "cb_grow b minCapacity =
     (case grow_capacity (m_capacity b) minCapacity of
        None \<Rightarrow> None
      | Some newCapacity \<Rightarrow>
          Some (b\<lparr>m_data := cb_linearize b (replicate newCapacity 0),
                  m_capacity := newCapacity, m_readPos := 0, m_writePos := m_size b\<rparr>))"

definition cb_write :: "circular_buffer \<Rightarrow> bytes \<Rightarrow> circular_buffer" where
  "cb_write b src =
     (let len = length src;
          firstChunk = min len (m_capacity b - m_writePos b);
          data = memcpy_at (m_data b) (m_writePos b) (take firstChunk src);
          data = (if firstChunk < len then memcpy_at data 0 (drop firstChunk src) else data)
      in b\<lparr>m_data := data, m_writePos := (m_writePos b + len) mod m_capacity b,
           m_size := m_size b + len\<rparr>)"

definition cb_append :: "circular_buffer \<Rightarrow> bytes \<Rightarrow> circular_buffer option" where
  "cb_append b src =
     (if length src = 0 then Some b
      else case (if m_size b + length src > m_capacity b
                 then cb_grow b (m_size b + length src) else Some b) of
             None \<Rightarrow> None
           | Some b' \<Rightarrow> Some (cb_write b' src))"

definition cb_available :: "circular_buffer \<Rightarrow> nat" where
  "cb_available b = m_size b"

definition cb_clear :: "circular_buffer \<Rightarrow> circular_buffer" where
  "cb_clear b = b\<lparr>m_readPos := 0, m_writePos := 0, m_size := 0\<rparr>"

definition cb_peek :: "circular_buffer \<Rightarrow> nat \<Rightarrow> bytes" where
  "cb_peek b n =
     (let len = min n (m_size b);
          result = replicate len 0;
          firstChunk = min len (m_capacity b - m_readPos b);
          result = memcpy_at result 0 (take firstChunk (drop (m_readPos b) (m_data b)))
      in if firstChunk < len
         then memcpy_at result firstChunk (take (len - firstChunk) (m_data b))
         else result)"

text \<open>\<open>readPtr\<close>: the contiguous readable run, \<open>None\<close> for the null pointer.\<close>

definition cb_readPtr :: "circular_buffer \<Rightarrow> bytes option" where
  "cb_readPtr b =
     (if m_size b = 0 then None
      else Some (take (min (m_size b) (m_capacity b - m_readPos b))
                   (drop (m_readPos b) (m_data b))))"

definition cb_consume :: "circular_buffer \<Rightarrow> nat \<Rightarrow> circular_buffer" where
  "cb_consume b n =
     (let len = min n (m_size b);
          b = b\<lparr>m_readPos := (m_readPos b + len) mod m_capacity b, m_size := m_size b - len\<rparr>
      in if m_size b = 0 then b\<lparr>m_readPos := 0, m_writePos := 0\<rparr> else b)"

section \<open>Invariant and contents\<close>

definition cb_inv :: "circular_buffer \<Rightarrow> bool" where
  "cb_inv b \<longleftrightarrow> 0 < m_capacity b \<and> length (m_data b) = m_capacity b
     \<and> m_readPos b < m_capacity b \<and> m_size b \<le> m_capacity b
     \<and> m_writePos b = (m_readPos b + m_size b) mod m_capacity b"

definition cb_list :: "circular_buffer \<Rightarrow> bytes" where
  "cb_list b = map (\<lambda>i. m_data b ! ((m_readPos b + i) mod m_capacity b)) [0..<m_size b]"

lemma length_cb_list [simp]: "length (cb_list b) = m_size b"
  by (simp add: cb_list_def)

lemma nth_cb_list:
  "i < m_size b \<Longrightarrow> cb_list b ! i = m_data b ! ((m_readPos b + i) mod m_capacity b)"
  by (simp add: cb_list_def)

lemma mod_wrap:
  fixes r i c :: nat
  assumes "r < c" and "i < c"
  shows "(r + i) mod c = (if i < c - r then r + i else i - (c - r))"
  using assms by (auto simp: mod_if)

text \<open>
  The two-block copy that both \<open>peek\<close> and \<open>grow\<close> perform writes the first \<open>len\<close>
  bytes of the contents.
\<close>

lemma two_block_copy:
  assumes inv: "cb_inv b" and len: "len \<le> m_size b" and dst: "len \<le> length dst"
  defines "fst_chunk \<equiv> min len (m_capacity b - m_readPos b)"
  defines "d1 \<equiv> memcpy_at dst 0 (take fst_chunk (drop (m_readPos b) (m_data b)))"
  defines "d2 \<equiv> (if fst_chunk < len
                  then memcpy_at d1 fst_chunk (take (len - fst_chunk) (m_data b)) else d1)"
  shows "length d2 = length dst" and "i < len \<Longrightarrow> d2 ! i = cb_list b ! i"
proof -
  from inv have b: "length (m_data b) = m_capacity b" "m_readPos b < m_capacity b"
      "m_size b \<le> m_capacity b"
    by (simp_all add: cb_inv_def)
  have f: "fst_chunk \<le> len" "fst_chunk \<le> m_capacity b - m_readPos b"
    by (simp_all add: fst_chunk_def)
  have l1: "length (take fst_chunk (drop (m_readPos b) (m_data b))) = fst_chunk"
    using b f by simp
  have d1: "length d1 = length dst"
    unfolding d1_def using f dst l1 by (subst length_memcpy_at) auto
  have l2: "length (take (len - fst_chunk) (m_data b)) = len - fst_chunk"
    using b len by simp
  show "length d2 = length dst"
    using d1 l2 f dst by (simp add: d2_def)
  assume i: "i < len"
  show "d2 ! i = cb_list b ! i"
  proof (cases "i < fst_chunk")
    case True
    have "d2 ! i = d1 ! i"
      unfolding d2_def using True d1 l2 f dst i by (auto simp: nth_memcpy_at)
    also have "\<dots> = m_data b ! (m_readPos b + i)"
      unfolding d1_def using True b l1 f dst i by (subst nth_memcpy_at) auto
    also have "\<dots> = cb_list b ! i"
      using True b f i len mod_wrap [of "m_readPos b" "m_capacity b" i]
      by (simp add: nth_cb_list)
    finally show ?thesis .
  next
    case False
    then have wrapped: "fst_chunk = m_capacity b - m_readPos b"
      using i by (simp add: fst_chunk_def min_def split: if_splits)
    have "d2 ! i = m_data b ! (i - fst_chunk)"
      unfolding d2_def using False d1 l2 f dst i b len by (auto simp: nth_memcpy_at)
    also have "\<dots> = cb_list b ! i"
      using False wrapped b i len mod_wrap [of "m_readPos b" "m_capacity b" i]
      by (simp add: nth_cb_list)
    finally show ?thesis .
  qed
qed

lemma cb_peek_eq: "cb_inv b \<Longrightarrow> cb_peek b n = take n (cb_list b)"
  using two_block_copy [of b "min n (m_size b)" "replicate (min n (m_size b)) 0"]
  by (intro nth_equalityI) (simp_all add: cb_peek_def Let_def min.commute)

lemma cb_consume_inv: "cb_inv b \<Longrightarrow> cb_inv (cb_consume b n)"
proof -
  assume inv: "cb_inv b"
  have "((m_readPos b + k) mod m_capacity b + (m_size b - k)) mod m_capacity b =
      (m_readPos b + m_size b) mod m_capacity b" if "k \<le> m_size b" for k
    using that by (subst mod_add_left_eq) simp
  from this [of n] inv show ?thesis
    by (cases "n \<le> m_size b") (auto simp: cb_inv_def cb_consume_def Let_def)
qed

lemma cb_list_consume: "cb_inv b \<Longrightarrow> cb_list (cb_consume b n) = drop n (cb_list b)"
  by (intro nth_equalityI)
     (auto simp: cb_consume_def Let_def nth_cb_list min_def mod_simps add.assoc cb_list_def)

lemma cb_inv_new: "0 < c \<Longrightarrow> cb_inv (cb_new c)"
  by (simp add: cb_inv_def cb_new_def)

lemma cb_list_new: "cb_list (cb_new c) = []"
  by (simp add: cb_list_def cb_new_def)

lemma cb_clear_inv: "cb_inv b \<Longrightarrow> cb_inv (cb_clear b)"
  by (simp add: cb_inv_def cb_clear_def)

lemma cb_list_clear: "cb_list (cb_clear b) = []"
  by (simp add: cb_list_def cb_clear_def)

section \<open>Growth and append\<close>

text \<open>The doubling loop ends on every positive capacity, at a capacity that is large enough.\<close>

lemma grow_capacity_total:
  assumes "0 < c"
  shows "\<exists>n. grow_capacity c m = Some n \<and> m \<le> n \<and> c \<le> n"
proof -
  obtain n where n: "grow_capacity c m = Some n"
    unfolding grow_capacity_def
    using measure_while_option_Some
      [where P = "\<lambda>n. 0 < n" and b = "\<lambda>n. n < m" and c = "\<lambda>n. n * 2" and f = "\<lambda>n. m - n"
        and s = c] assms
    by fastforce
  have "\<not> n < m"
    using while_option_stop [OF n [unfolded grow_capacity_def]] .
  moreover have "c \<le> n"
    by (rule while_option_rule [OF _ n [unfolded grow_capacity_def], where P = "\<lambda>n. c \<le> n"]) auto
  ultimately show ?thesis using n by auto
qed

lemma cb_linearize_spec:
  assumes "cb_inv b" and "m_size b \<le> length dst"
  shows "length (cb_linearize b dst) = length dst"
    and "i < m_size b \<Longrightarrow> cb_linearize b dst ! i = cb_list b ! i"
  using two_block_copy [OF assms(1) order_refl assms(2)]
  by (auto simp: cb_linearize_def Let_def)

lemma cb_grow_spec:
  assumes inv: "cb_inv b" and m: "m_size b < m"
  shows "\<exists>b'. cb_grow b m = Some b' \<and> cb_inv b' \<and> cb_list b' = cb_list b \<and> m \<le> m_capacity b'
    \<and> m_size b' = m_size b"
proof -
  from inv have "0 < m_capacity b" by (simp add: cb_inv_def)
  then obtain n where n: "grow_capacity (m_capacity b) m = Some n" "m \<le> n" "m_capacity b \<le> n"
    using grow_capacity_total by blast
  let ?d = "cb_linearize b (replicate n 0)"
  let ?b = "b\<lparr>m_data := ?d, m_capacity := n, m_readPos := 0, m_writePos := m_size b\<rparr>"
  have sz: "m_size b \<le> length (replicate n (0::byte))" using m n by simp
  have inv': "cb_inv ?b"
    using cb_linearize_spec(1) [OF inv sz] n m inv by (auto simp: cb_inv_def)
  have "cb_list ?b = cb_list b"
    using cb_linearize_spec(2) [OF inv sz] n m
    by (intro nth_equalityI) (auto simp: nth_cb_list cb_list_def)
  with inv' n show ?thesis by (simp add: cb_grow_def)
qed

text \<open>Writing a block that fits appends it to the contents.\<close>

lemma cb_write_spec:
  assumes inv: "cb_inv b" and fits: "m_size b + length src \<le> m_capacity b"
  shows "cb_inv (cb_write b src)" and "cb_list (cb_write b src) = cb_list b @ src"
proof -
  let ?c = "m_capacity b" and ?w = "m_writePos b" and ?f = "min (length src) (m_capacity b - m_writePos b)"
  let ?d1 = "memcpy_at (m_data b) ?w (take ?f src)"
  let ?d = "if ?f < length src then memcpy_at ?d1 0 (drop ?f src) else ?d1"
  from inv have b: "length (m_data b) = ?c" "m_readPos b < ?c" "m_size b \<le> ?c" "0 < ?c"
      and w: "?w = (m_readPos b + m_size b) mod ?c"
    by (simp_all add: cb_inv_def)
  have wc: "?w < ?c" using w b by simp
  have len1: "length ?d1 = ?c" using wc b by simp
  have len: "length ?d = ?c" using len1 wc b fits by auto
  have eq: "m_data (cb_write b src) = ?d"
    by (simp add: cb_write_def Let_def)
  show "cb_inv (cb_write b src)"
    using b w len eq fits by (auto simp: cb_inv_def cb_write_def Let_def mod_simps add.assoc)
  show "cb_list (cb_write b src) = cb_list b @ src"
  proof (intro nth_equalityI)
    show "length (cb_list (cb_write b src)) = length (cb_list b @ src)"
      by (simp add: cb_write_def Let_def)
    fix i assume "i < length (cb_list (cb_write b src))"
    then have i: "i < m_size b + length src" by (simp add: cb_write_def Let_def)
    let ?p = "(m_readPos b + i) mod ?c"
    have p: "?p < ?c" using b by simp
    have lhs: "cb_list (cb_write b src) ! i = ?d ! ?p"
      using i eq by (simp add: nth_cb_list cb_write_def Let_def)
    have "?d ! q = (if ?w \<le> q \<and> q < ?w + ?f then src ! (q - ?w)
        else if q < length src - ?f then src ! (?f + q) else m_data b ! q)" if "q < ?c" for q
      using that len1 wc b fits by (auto simp: nth_memcpy_at)
    then have val: "?d ! ?p = (if ?w \<le> ?p \<and> ?p < ?w + ?f then src ! (?p - ?w)
        else if ?p < length src - ?f then src ! (?f + ?p) else m_data b ! ?p)"
      using p by blast
    have wrap: "?w = (if m_readPos b + m_size b < ?c then m_readPos b + m_size b
        else m_readPos b + m_size b - ?c)"
      using w b by (auto simp: mod_if)
    have pwrap: "?p = (if m_readPos b + i < ?c then m_readPos b + i else m_readPos b + i - ?c)"
      using b i fits by (auto simp: mod_if)
    show "cb_list (cb_write b src) ! i = (cb_list b @ src) ! i"
    proof (cases "i < m_size b")
      case True
      have "\<not> (?w \<le> ?p \<and> ?p < ?w + ?f)" and "\<not> ?p < length src - ?f"
        using True wrap pwrap fits b by (auto split: if_splits)
      with True lhs val show ?thesis by (simp add: nth_append nth_cb_list)
    next
      case False
      have "(?w \<le> ?p \<and> ?p < ?w + ?f \<and> ?p - ?w = i - m_size b) \<or>
          (\<not> (?w \<le> ?p \<and> ?p < ?w + ?f) \<and> ?p < length src - ?f \<and> ?f + ?p = i - m_size b)"
        using False i wrap pwrap fits b by (auto split: if_splits)
      then have "?d ! ?p = src ! (i - m_size b)"
        using val by (elim disjE conjE) (simp_all only: if_True if_False simp_thms)
      with False lhs show ?thesis by (simp add: nth_append)
    qed
  qed
qed

lemma cb_append_spec:
  assumes "cb_inv b"
  shows "\<exists>b'. cb_append b src = Some b' \<and> cb_inv b' \<and> cb_list b' = cb_list b @ src"
proof (cases "m_size b + length src > m_capacity b")
  case True
  with assms have nz: "length src \<noteq> 0" by (auto simp: cb_inv_def)
  then have "m_size b < m_size b + length src" by simp
  from cb_grow_spec [OF assms this] obtain b' where
    b': "cb_grow b (m_size b + length src) = Some b'" "cb_inv b'" "cb_list b' = cb_list b"
      "m_size b + length src \<le> m_capacity b'" "m_size b' = m_size b"
    by blast
  with True nz cb_write_spec [of b' src] show ?thesis by (simp add: cb_append_def)
next
  case False
  with assms cb_write_spec [of b src] show ?thesis by (auto simp: cb_append_def)
qed

section \<open>The contract of a byte queue\<close>

text \<open>
  What the frame parsers rely on: bytes come out in the order they went in, reading does not
  change the contents and an append never fails.
\<close>

locale byte_fifo =
  fixes invar :: "'b \<Rightarrow> bool"
    and contents :: "'b \<Rightarrow> bytes"
    and append :: "'b \<Rightarrow> bytes \<Rightarrow> 'b option"
    and peek :: "'b \<Rightarrow> nat \<Rightarrow> bytes"
    and consume :: "'b \<Rightarrow> nat \<Rightarrow> 'b"
    and available :: "'b \<Rightarrow> nat"
  assumes append_law: "invar b \<Longrightarrow> \<exists>b'. append b src = Some b' \<and> invar b' \<and> contents b' = contents b @ src"
    and peek_law: "invar b \<Longrightarrow> peek b n = take n (contents b)"
    and consume_invar: "invar b \<Longrightarrow> invar (consume b n)"
    and consume_law: "invar b \<Longrightarrow> contents (consume b n) = drop n (contents b)"
    and available_law: "invar b \<Longrightarrow> available b = length (contents b)"
begin

lemma peek_consume_split: "invar b \<Longrightarrow> peek b n @ contents (consume b n) = contents b"
  by (simp add: peek_law consume_law)

lemma available_consume:
  "invar b \<Longrightarrow> available (consume b n) = available b - n"
  by (simp add: available_law consume_law consume_invar)

lemma append_then_peek:
  assumes "invar b" and "append b src = Some b'"
  shows "peek b' (available b + length src) = contents b @ src"
  using append_law [OF assms(1), of src] assms by (auto simp: peek_law available_law)

fun append_all :: "'b \<Rightarrow> bytes list \<Rightarrow> 'b option" where
  "append_all b [] = Some b"
| "append_all b (c # cs) = (case append b c of None \<Rightarrow> None | Some b' \<Rightarrow> append_all b' cs)"

lemma append_all_contents:
  "invar b \<Longrightarrow> \<exists>b'. append_all b cs = Some b' \<and> invar b' \<and> contents b' = contents b @ concat cs"
proof (induction cs arbitrary: b)
  case Nil
  then show ?case by simp
next
  case (Cons c cs)
  from append_law [OF Cons.prems, of c] obtain b' where
    b': "append b c = Some b'" "invar b'" "contents b' = contents b @ c" by blast
  from Cons.IH [OF b'(2)] b' show ?case by auto
qed

end

interpretation ring: byte_fifo cb_inv cb_list cb_append cb_peek cb_consume cb_available
  by unfold_locales
    (simp_all add: cb_append_spec cb_peek_eq cb_consume_inv cb_list_consume cb_available_def)

lemmas ring_simps [buffer_simps] =
  ring.peek_law ring.consume_invar ring.consume_law ring.available_law

end
