(* ===== verification/Frame_Parser.thy ===== *)
theory Frame_Parser
  imports Frame_Header Circular_Buffer
begin

text \<open>
  \<open>oaa::FrameParser\<close>: the state machine that cuts the received byte stream into frames. Its
  specification is the machine \<open>wire_step\<close> over plain byte lists; the parser over the ring
  buffer refines it, always returns from \<open>process\<close>, and produces the same frames however
  the transport cuts the stream into reads.
\<close>

type_synonym frame = "frame_header \<times> bytes"

section \<open>The parser\<close>

datatype parser_state = ReadHeader | ReadSize | ReadPayload

record frame_parser =
  m_state :: parser_state
  m_buffer :: circular_buffer
  m_currentHeader :: frame_header
  m_sizeFieldLength :: nat
  m_framePayloadSize :: u16

definition header_zero :: frame_header where
  "header_zero = \<lparr>channelId = 0, frameType = Middle, encryptionType = Plain,
     messageType = Specific, totalMessageSize = 0\<rparr>"

definition parser_new :: frame_parser where
  "parser_new = \<lparr>m_state = ReadHeader, m_buffer = cb_new 65536, m_currentHeader = header_zero,
     m_sizeFieldLength = 0, m_framePayloadSize = 0\<rparr>"

definition parser_reset :: "frame_parser \<Rightarrow> frame_parser" where
  "parser_reset p = p\<lparr>m_state := ReadHeader, m_buffer := cb_clear (m_buffer p),
     m_currentHeader := header_zero, m_sizeFieldLength := 0, m_framePayloadSize := 0\<rparr>"

text \<open>
  One iteration of the loop of \<open>process\<close>: \<open>None\<close> where the code returns to wait for
  more data, and the frame where it emits \<open>frameParsed\<close>.
\<close>

definition parser_step :: "frame_parser \<Rightarrow> (frame_parser \<times> frame option) option" where
  "parser_step p = (case m_state p of
     ReadHeader \<Rightarrow>
       if cb_available (m_buffer p) < 2 then None
       else (case header_parse (cb_peek (m_buffer p) 2) of
               None \<Rightarrow> None
             | Some h \<Rightarrow>
                 Some (p\<lparr>m_currentHeader := h, m_sizeFieldLength := sizeFieldLength (frameType h),
                         m_buffer := cb_consume (m_buffer p) 2, m_state := ReadSize\<rparr>, None))
   | ReadSize \<Rightarrow>
       if cb_available (m_buffer p) < m_sizeFieldLength p then None
       else (let sizeData = cb_peek (m_buffer p) (m_sizeFieldLength p);
                 h = m_currentHeader p
             in Some (p\<lparr>m_framePayloadSize := of_nat (be_val (take 2 sizeData)),
                        m_currentHeader := h\<lparr>totalMessageSize :=
                          (if frameType h = First then of_nat (be_val (take 4 (drop 2 sizeData)))
                           else 0)\<rparr>,
                        m_buffer := cb_consume (m_buffer p) (m_sizeFieldLength p),
                        m_state := ReadPayload\<rparr>, None))
   | ReadPayload \<Rightarrow>
       if cb_available (m_buffer p) < unat (m_framePayloadSize p) then None
       else (let payload = cb_peek (m_buffer p) (unat (m_framePayloadSize p))
             in Some (p\<lparr>m_buffer := cb_consume (m_buffer p) (unat (m_framePayloadSize p)),
                        m_state := ReadHeader\<rparr>, Some (m_currentHeader p, payload))))"

definition parser_rank :: "frame_parser \<Rightarrow> nat" where
  "parser_rank p = 2 * m_size (m_buffer p) +
     (case m_state p of ReadHeader \<Rightarrow> 0 | ReadSize \<Rightarrow> 2 | ReadPayload \<Rightarrow> 1)"

lemma m_size_cb_consume: "m_size (cb_consume b n) = m_size b - n"
  by (simp add: cb_consume_def Let_def)

lemma parser_step_rank:
  "parser_step p = Some (p', fr) \<Longrightarrow> parser_rank p' < parser_rank p"
  by (auto simp: parser_step_def parser_rank_def Let_def cb_available_def m_size_cb_consume
      split: parser_state.splits if_splits option.splits)

text \<open>
  The loop of \<open>process\<close>, with the emitted frames in order. Each iteration lowers
  \<open>parser_rank\<close>, so the loop always returns.
\<close>

function parser_process :: "frame_parser \<Rightarrow> frame_parser \<times> frame list" where
  "parser_process p = (case parser_step p of
     None \<Rightarrow> (p, [])
   | Some (p', None) \<Rightarrow> parser_process p'
   | Some (p', Some fr) \<Rightarrow> (let (q, frs) = parser_process p' in (q, fr # frs)))"
  by pat_completeness auto
termination
  by (relation "measure parser_rank") (auto dest: parser_step_rank)

declare parser_process.simps [simp del]

definition parser_onData :: "frame_parser \<Rightarrow> bytes \<Rightarrow> (frame_parser \<times> frame list) option" where
  "parser_onData p data = (case cb_append (m_buffer p) data of
     None \<Rightarrow> None
   | Some b \<Rightarrow> Some (parser_process (p\<lparr>m_buffer := b\<rparr>)))"

text \<open>A sequence of reads from the transport.\<close>

fun parser_feed :: "frame_parser \<Rightarrow> bytes list \<Rightarrow> (frame_parser \<times> frame list) option" where
  "parser_feed p [] = Some (p, [])"
| "parser_feed p (d # ds) = (case parser_onData p d of
     None \<Rightarrow> None
   | Some (p', frs) \<Rightarrow> (case parser_feed p' ds of
       None \<Rightarrow> None
     | Some (q, frs') \<Rightarrow> Some (q, frs @ frs')))"

section \<open>The specification: a machine over byte lists\<close>

datatype wire_state = AtHeader | AtSize frame_header | AtPayload frame_header nat

fun wire_step :: "wire_state \<times> bytes \<Rightarrow> ((wire_state \<times> bytes) \<times> frame option) option" where
  "wire_step (AtHeader, bs) = (case header_parse bs of
     None \<Rightarrow> None
   | Some h \<Rightarrow> Some ((AtSize h, drop 2 bs), None))"
| "wire_step (AtSize h, bs) = (
     if length bs < sizeFieldLength (frameType h) then None
     else Some ((AtPayload (h\<lparr>totalMessageSize :=
                   (if frameType h = First then of_nat (be_val (take 4 (drop 2 bs))) else 0)\<rparr>)
                   (be_val (take 2 bs)),
                 drop (sizeFieldLength (frameType h)) bs), None))"
| "wire_step (AtPayload h n, bs) = (
     if length bs < n then None else Some ((AtHeader, drop n bs), Some (h, take n bs)))"

fun wire_rank :: "wire_state \<times> bytes \<Rightarrow> nat" where
  "wire_rank (s, bs) = 2 * length bs + (case s of AtHeader \<Rightarrow> 0 | AtSize _ \<Rightarrow> 2 | AtPayload _ _ \<Rightarrow> 1)"

lemma wire_step_rank: "wire_step s = Some (s', fr) \<Longrightarrow> wire_rank s' < wire_rank s"
proof (cases s rule: wire_step.cases)
  case (1 bs)
  moreover assume "wire_step s = Some (s', fr)"
  ultimately show ?thesis using header_parse_Some_iff [of bs] by (auto split: option.splits)
qed (auto split: if_splits simp: sizeFieldLength_def)

function wire_run :: "wire_state \<times> bytes \<Rightarrow> (wire_state \<times> bytes) \<times> frame list" where
  "wire_run s = (case wire_step s of
     None \<Rightarrow> (s, [])
   | Some (s', None) \<Rightarrow> wire_run s'
   | Some (s', Some fr) \<Rightarrow> (let (q, frs) = wire_run s' in (q, fr # frs)))"
  by pat_completeness auto
termination
  by (relation "measure wire_rank") (auto dest: wire_step_rank)

declare wire_run.simps [simp del]

lemma wire_step_append:
  assumes "wire_step (s, bs) = Some ((s', bs'), fr)"
  shows "wire_step (s, bs @ xs) = Some ((s', bs' @ xs), fr)"
proof (cases s)
  case AtHeader
  with assms obtain h where h: "header_parse bs = Some h" "s' = AtSize h" "bs' = drop 2 bs" "fr = None"
    by (auto split: option.splits)
  then have len: "2 \<le> length bs" using header_parse_Some_iff by blast
  have "header_parse (bs @ xs) = header_parse bs"
    using len by (metis header_parse_take2 take_append append_Nil2 diff_is_0_eq take_0)
  with AtHeader h len show ?thesis by simp
next
  case (AtSize h)
  with assms show ?thesis
    by (auto simp: sizeFieldLength_def split: if_splits)
next
  case (AtPayload h n)
  with assms show ?thesis by (auto split: if_splits)
qed

text \<open>
  More input after a run: the run continues from where it stopped. This is what makes the
  result independent of how the stream is cut.
\<close>

lemma wire_run_append:
  assumes "wire_run (s, bs) = ((s', bs'), frs)" and "wire_run (s', bs' @ xs) = (q, frs')"
  shows "wire_run (s, bs @ xs) = (q, frs @ frs')"
  using assms
proof (induction "(s, bs)" arbitrary: s bs frs rule: wire_run.induct)
  case (1 s bs)
  show ?case
  proof (cases "wire_step (s, bs)")
    case None
    with "1.prems" show ?thesis by (simp add: wire_run.simps [of "(s, bs)"])
  next
    case (Some r)
    obtain s1 bs1 fr where r: "r = ((s1, bs1), fr)" by (metis surj_pair)
    have step: "wire_step (s, bs @ xs) = Some ((s1, bs1 @ xs), fr)"
      using Some r by (simp add: wire_step_append)
    show ?thesis
    proof (cases fr)
      case None
      with Some r "1.prems" have "wire_run (s1, bs1) = ((s', bs'), frs)"
        by (simp add: wire_run.simps [of "(s, bs)"])
      with "1.hyps"(1) [OF _ refl None] Some r "1.prems" None
      have "wire_run (s1, bs1 @ xs) = (q, frs @ frs')" by simp
      with step None show ?thesis by (simp add: wire_run.simps [of "(s, bs @ xs)"])
    next
      case (Some f)
      obtain frs1 where run: "wire_run (s1, bs1) = ((s', bs'), frs1)" and frs: "frs = f # frs1"
        using \<open>wire_step (s, bs) = Some r\<close> r Some "1.prems"
        by (auto simp: wire_run.simps [of "(s, bs)"] split: prod.splits)
      from "1.hyps"(2) [OF _ refl Some] \<open>wire_step (s, bs) = Some r\<close> r run "1.prems" Some
      have "wire_run (s1, bs1 @ xs) = (q, frs1 @ frs')" by simp
      with step Some frs show ?thesis by (simp add: wire_run.simps [of "(s, bs @ xs)"])
    qed
  qed
qed

lemma wire_run_stuck: "wire_run s = (q, frs) \<Longrightarrow> wire_step q = None"
proof (induction s arbitrary: frs rule: wire_run.induct)
  case (1 s)
  then show ?case
    by (cases "wire_step s") (auto simp: wire_run.simps [of s] split: option.splits prod.splits)
qed

lemma wire_run_None: "wire_step s = None \<Longrightarrow> wire_run s = (s, [])"
  by (simp add: wire_run.simps)

section \<open>The parser refines its specification\<close>

definition parser_inv :: "frame_parser \<Rightarrow> bool" where
  "parser_inv p \<longleftrightarrow> cb_inv (m_buffer p) \<and>
     (m_state p = ReadSize \<longrightarrow> m_sizeFieldLength p = sizeFieldLength (frameType (m_currentHeader p)))"

definition parser_abs :: "frame_parser \<Rightarrow> wire_state \<times> bytes" where
  "parser_abs p = (case m_state p of
       ReadHeader \<Rightarrow> AtHeader
     | ReadSize \<Rightarrow> AtSize (m_currentHeader p)
     | ReadPayload \<Rightarrow> AtPayload (m_currentHeader p) (unat (m_framePayloadSize p)),
     cb_list (m_buffer p))"

lemma be_val_take2: "unat (of_nat (be_val (take 2 bs)) :: u16) = be_val (take 2 bs)"
proof -
  have "be_val (take 2 bs) < 256 ^ length (take 2 bs)" by (rule be_val_bound)
  also have "\<dots> \<le> 256 ^ 2" by (rule power_increasing) auto
  finally show ?thesis by (simp add: unat_of_nat)
qed

lemma parser_step_None:
  "parser_inv p \<Longrightarrow> parser_step p = None \<longleftrightarrow> wire_step (parser_abs p) = None"
  using header_parse_Some_iff [of "cb_list (m_buffer p)"]
  by (auto simp: parser_step_def parser_abs_def parser_inv_def buffer_simps header_parse_take2
      Let_def split: parser_state.splits option.splits)

lemma parser_step_Some:
  assumes "parser_inv p" and "parser_step p = Some (p', fr)"
  shows "parser_inv p'" and "wire_step (parser_abs p) = Some (parser_abs p', fr)"
proof -
  show "parser_inv p'"
    using assms by (auto simp: parser_step_def parser_inv_def buffer_simps Let_def
        split: parser_state.splits option.splits if_splits)
  show "wire_step (parser_abs p) = Some (parser_abs p', fr)"
    using assms by (auto simp: parser_step_def parser_abs_def parser_inv_def buffer_simps
        header_parse_take2 be_val_take2 sizeFieldLength_def min_def take_drop Let_def
        split: parser_state.splits option.splits if_splits)
qed

lemma parser_process_refines:
  assumes "parser_inv p" and "parser_process p = (q, frs)"
  shows "parser_inv q \<and> wire_run (parser_abs p) = (parser_abs q, frs)"
  using assms
proof (induction p arbitrary: frs rule: parser_process.induct)
  case (1 p)
  show ?case
  proof (cases "parser_step p")
    case None
    with "1.prems" show ?thesis
      by (simp add: parser_process.simps [of p] parser_step_None wire_run_None)
  next
    case (Some r)
    obtain p1 fr where r: "r = (p1, fr)" by (metis surj_pair)
    note step = parser_step_Some [OF "1.prems"(1) Some [unfolded r]]
    show ?thesis
    proof (cases fr)
      case None
      with Some r "1.prems" have "parser_process p1 = (q, frs)"
        by (simp add: parser_process.simps [of p])
      with "1.IH"(1) [OF Some r [symmetric] None step(1)] step(2) None show ?thesis
        by (simp add: wire_run.simps [of "parser_abs p"])
    next
      case F: (Some f)
      with Some r "1.prems" obtain frs1 where "parser_process p1 = (q, frs1)" "frs = f # frs1"
        by (auto simp: parser_process.simps [of p] split: prod.splits)
      with "1.IH"(2) [OF Some r [symmetric] F step(1)] step(2) F show ?thesis
        by (simp add: wire_run.simps [of "parser_abs p"])
    qed
  qed
qed

text \<open>
  Between reads the parser is idle: it has consumed everything it can. A new or reset parser
  is idle, and every \<open>onData\<close> returns to an idle parser.
\<close>

definition parser_idle :: "frame_parser \<Rightarrow> bool" where
  "parser_idle p \<longleftrightarrow> parser_inv p \<and> wire_step (parser_abs p) = None"

lemma parser_idle_new: "parser_idle parser_new"
  by (simp add: parser_idle_def parser_inv_def parser_new_def cb_inv_new parser_abs_def cb_list_new)

lemma parser_idle_reset: "parser_inv p \<Longrightarrow> parser_idle (parser_reset p)"
  by (simp add: parser_idle_def parser_inv_def parser_reset_def parser_abs_def
      cb_clear_inv cb_list_clear)

lemma parser_onData_spec:
  assumes "parser_inv p"
  shows "\<exists>q frs. parser_onData p d = Some (q, frs) \<and> parser_idle q
    \<and> wire_run (fst (parser_abs p), snd (parser_abs p) @ d) = (parser_abs q, frs)"
proof -
  from assms have "cb_inv (m_buffer p)" by (simp add: parser_inv_def)
  from ring.append_law [OF this, of d] obtain b where
    b: "cb_append (m_buffer p) d = Some b" "cb_inv b" "cb_list b = cb_list (m_buffer p) @ d"
    by blast
  obtain q frs where run: "parser_process (p\<lparr>m_buffer := b\<rparr>) = (q, frs)" by (metis surj_pair)
  have inv: "parser_inv (p\<lparr>m_buffer := b\<rparr>)" using assms b by (simp add: parser_inv_def)
  have abs: "parser_abs (p\<lparr>m_buffer := b\<rparr>) = (fst (parser_abs p), snd (parser_abs p) @ d)"
    using b by (simp add: parser_abs_def split: parser_state.split)
  from parser_process_refines [OF inv run] abs have
    "parser_inv q" "wire_run (fst (parser_abs p), snd (parser_abs p) @ d) = (parser_abs q, frs)"
    by simp_all
  with wire_run_stuck show ?thesis
    by (auto simp: parser_onData_def b run parser_idle_def)
qed

lemma parser_feed_spec:
  assumes "parser_idle p"
  shows "\<exists>q frs. parser_feed p ds = Some (q, frs) \<and> parser_idle q
    \<and> wire_run (fst (parser_abs p), snd (parser_abs p) @ concat ds) = (parser_abs q, frs)"
  using assms
proof (induction ds arbitrary: p)
  case Nil
  then show ?case by (simp add: parser_idle_def wire_run_None)
next
  case (Cons d ds)
  then have "parser_inv p" by (simp add: parser_idle_def)
  from parser_onData_spec [OF this, of d] obtain p1 frs1 where
    p1: "parser_onData p d = Some (p1, frs1)" "parser_idle p1"
      "wire_run (fst (parser_abs p), snd (parser_abs p) @ d) = (parser_abs p1, frs1)"
    by blast
  from Cons.IH [OF p1(2)] obtain q frs2 where
    q: "parser_feed p1 ds = Some (q, frs2)" "parser_idle q"
      "wire_run (fst (parser_abs p1), snd (parser_abs p1) @ concat ds) = (parser_abs q, frs2)"
    by blast
  have "wire_run (fst (parser_abs p), (snd (parser_abs p) @ d) @ concat ds)
      = (parser_abs q, frs1 @ frs2)"
    by (rule wire_run_append [where s' = "fst (parser_abs p1)" and bs' = "snd (parser_abs p1)"])
      (use p1(3) q(3) in simp_all)
  with p1 q show ?case by simp
qed

text \<open>
  C1. The frames a parser emits and the state it is left in, seen as a position in the stream,
  depend only on the bytes received and not on how the transport cut them into reads; and
  every read returns.
\<close>

theorem parser_chunking_irrelevant:
  assumes "parser_idle p" and "concat ds = concat es"
  shows "\<exists>q r frs. parser_feed p ds = Some (q, frs) \<and> parser_feed p es = Some (r, frs)
    \<and> parser_abs q = parser_abs r"
proof -
  from parser_feed_spec [OF assms(1), of ds] parser_feed_spec [OF assms(1), of es] assms(2)
  show ?thesis by auto
qed

theorem parser_chunking_irrelevant_witness:
  "\<exists>q r frs. parser_feed parser_new [[3, 11], [0, 1, 42]] = Some (q, frs)
    \<and> parser_feed parser_new [[3], [11, 0], [1], [42]] = Some (r, frs)
    \<and> parser_abs q = parser_abs r"
  using parser_chunking_irrelevant
    [OF parser_idle_new, of "[[3, 11], [0, 1, 42]]" "[[3], [11, 0], [1], [42]]"] by simp

end
