(* ===== verification/Frame_Serializer.thy ===== *)
theory Frame_Serializer
  imports Frame_Parser
begin

text \<open>
  \<open>oaa::FrameSerializer\<close>: a message becomes one BULK frame, or a FIRST frame, MIDDLE frames
  and a LAST frame of at most \<open>FRAME_MAX_PAYLOAD\<close> payload bytes each. The byte strings it
  builds are parsed back to the frames \<open>message_frames\<close> by the machine of the frame parser.
\<close>

definition FRAME_MAX_PAYLOAD :: nat where
  "FRAME_MAX_PAYLOAD = 16384"

text \<open>\<open>totalSize\<close> is the \<open>qint32\<close> argument of the C++, \<open>-1\<close> when it is not given.\<close>

definition buildFrame :: "frame_header \<Rightarrow> bytes \<Rightarrow> int \<Rightarrow> bytes" where
  "buildFrame h payload totalSize =
     header_serialize h @
     (if frameType h = First
      then be_bytes 2 (unat (of_nat (length payload) :: u16)) @
           be_bytes 4 (unat (of_int totalSize :: u32))
      else be_bytes 2 (unat (of_nat (length payload) :: u16))) @
     payload"

definition frame_hdr ::
  "byte \<Rightarrow> frame_type \<Rightarrow> encryption_type \<Rightarrow> message_type \<Rightarrow> u32 \<Rightarrow> frame_header" where
  "frame_hdr ch t enc msg tot = \<lparr>channelId = ch, frameType = t, encryptionType = enc,
     messageType = msg, totalMessageSize = tot\<rparr>"

text \<open>The MIDDLE loop and the LAST frame, from \<open>offset\<close> on.\<close>

function serialize_rest ::
  "byte \<Rightarrow> message_type \<Rightarrow> encryption_type \<Rightarrow> bytes \<Rightarrow> nat \<Rightarrow> bytes list" where
  "serialize_rest ch msg enc payload offset = (
     if length payload - offset > FRAME_MAX_PAYLOAD
     then buildFrame (frame_hdr ch Middle enc msg 0)
            (take FRAME_MAX_PAYLOAD (drop offset payload)) (-1)
          # serialize_rest ch msg enc payload (offset + FRAME_MAX_PAYLOAD)
     else [buildFrame (frame_hdr ch Last enc msg 0) (drop offset payload) (-1)])"
  by pat_completeness auto
termination
  by (relation "measure (\<lambda>(ch, msg, enc, payload, offset). length payload - offset)")
     (auto simp: FRAME_MAX_PAYLOAD_def)

declare serialize_rest.simps [simp del]

definition frame_serialize ::
  "byte \<Rightarrow> message_type \<Rightarrow> encryption_type \<Rightarrow> bytes \<Rightarrow> bytes list" where
  "frame_serialize ch msg enc payload = (
     if length payload \<le> FRAME_MAX_PAYLOAD
     then [buildFrame (frame_hdr ch Bulk enc msg 0) payload (-1)]
     else buildFrame (frame_hdr ch First enc msg 0) (take FRAME_MAX_PAYLOAD payload)
            (int (length payload))
          # serialize_rest ch msg enc payload FRAME_MAX_PAYLOAD)"

section \<open>The frames of a message\<close>

text \<open>
  The specification of the fragmentation, over the rest of the payload instead of an offset.
\<close>

function rest_frames ::
  "byte \<Rightarrow> message_type \<Rightarrow> encryption_type \<Rightarrow> bytes \<Rightarrow> frame list" where
  "rest_frames ch msg enc payload = (
     if length payload > FRAME_MAX_PAYLOAD
     then (frame_hdr ch Middle enc msg 0, take FRAME_MAX_PAYLOAD payload)
          # rest_frames ch msg enc (drop FRAME_MAX_PAYLOAD payload)
     else [(frame_hdr ch Last enc msg 0, payload)])"
  by pat_completeness auto
termination
  by (relation "measure (\<lambda>(ch, msg, enc, payload). length payload)")
     (auto simp: FRAME_MAX_PAYLOAD_def)

declare rest_frames.simps [simp del]

definition message_frames ::
  "byte \<Rightarrow> message_type \<Rightarrow> encryption_type \<Rightarrow> bytes \<Rightarrow> frame list" where
  "message_frames ch msg enc payload = (
     if length payload \<le> FRAME_MAX_PAYLOAD
     then [(frame_hdr ch Bulk enc msg 0, payload)]
     else (frame_hdr ch First enc msg (of_nat (length payload)), take FRAME_MAX_PAYLOAD payload)
          # rest_frames ch msg enc (drop FRAME_MAX_PAYLOAD payload))"

definition frame_bytes :: "frame \<Rightarrow> bytes" where
  "frame_bytes f = buildFrame (fst f) (snd f)
     (if frameType (fst f) = First then uint (totalMessageSize (fst f)) else - 1)"

lemma serialize_rest_frames:
  "serialize_rest ch msg enc payload offset =
     map frame_bytes (rest_frames ch msg enc (drop offset payload))"
proof (induction ch msg enc payload offset rule: serialize_rest.induct)
  case (1 ch msg enc payload offset)
  then show ?case
    by (simp add: serialize_rest.simps [of ch msg enc payload offset]
        rest_frames.simps [of ch msg enc "drop offset payload"] frame_bytes_def frame_hdr_def
        add.commute)
qed

lemma frame_serialize_frames:
  assumes "length payload < 2 ^ 32"
  shows "frame_serialize ch msg enc payload = map frame_bytes (message_frames ch msg enc payload)"
  using assms
  by (simp add: frame_serialize_def message_frames_def serialize_rest_frames frame_bytes_def
      frame_hdr_def unsigned_of_nat take_bit_nat_eq_self buildFrame_def header_serialize_def)

section \<open>Parsing built frames\<close>

text \<open>
  A frame is well formed when its payload length fits the 16-bit size field and only a FIRST
  frame announces a total.
\<close>

definition frame_ok :: "frame \<Rightarrow> bool" where
  "frame_ok f \<longleftrightarrow> length (snd f) < 65536 \<and>
     (frameType (fst f) \<noteq> First \<longrightarrow> totalMessageSize (fst f) = 0)"

lemma be_val_size_field: "n < 65536 \<Longrightarrow> be_val (be_bytes 2 (unat (of_nat n :: u16))) = n"
  by (simp add: be_val_be_bytes unsigned_of_nat take_bit_nat_eq_self del: be_bytes.simps)

lemma be_val_total_field:
  "of_nat (be_val (be_bytes 4 (unat (w :: u32)))) = w"
proof -
  have "unat w < 256 ^ 4" using unsigned_less [of w] by simp
  then show ?thesis by (simp add: be_val_be_bytes del: be_bytes.simps)
qed

lemma wire_run_frame:
  assumes "frame_ok f" and "wire_run (AtHeader, rest) = (q, frs)"
  shows "wire_run (AtHeader, frame_bytes f @ rest) = (q, f # frs)"
proof -
  obtain h pl where f: "f = (h, pl)" by (cases f)
  let ?len = "be_bytes 2 (unat (of_nat (length pl) :: u16))"
  let ?sz = "if frameType h = First then ?len @ be_bytes 4 (unat (totalMessageSize h)) else ?len"
  have bytes: "frame_bytes f = header_serialize h @ ?sz @ pl"
    by (simp add: f frame_bytes_def buildFrame_def)
  have szlen: "length ?sz = sizeFieldLength (frameType h)"
    by (simp add: sizeFieldLength_def)
  let ?h0 = "h\<lparr>totalMessageSize := 0\<rparr>"
  have 1: "wire_step (AtHeader, frame_bytes f @ rest) = Some ((AtSize ?h0, ?sz @ pl @ rest), None)"
    by (simp add: bytes header_parse_serialize)
  have len: "length pl < 65536" using assms(1) by (simp add: f frame_ok_def)
  have hdr: "?h0\<lparr>totalMessageSize := (if frameType ?h0 = First
      then of_nat (be_val (take 4 (drop 2 (?sz @ pl @ rest)))) else 0)\<rparr> = h"
    using assms(1) by (simp add: f frame_ok_def be_val_total_field del: be_bytes.simps)
  have siz: "be_val (take 2 (?sz @ pl @ rest)) = length pl"
    using len by (simp add: be_val_size_field del: be_bytes.simps)
  have 2: "wire_step (AtSize ?h0, ?sz @ pl @ rest)
      = Some ((AtPayload h (length pl), pl @ rest), None)"
    using szlen hdr siz
    by (simp only: wire_step.simps) (simp del: be_bytes.simps)
  have 3: "wire_step (AtPayload h (length pl), pl @ rest) = Some ((AtHeader, rest), Some f)"
    by (simp add: f)
  show ?thesis
    using 1 2 3 assms(2) by (simp add: wire_run.simps [of "(AtHeader, frame_bytes f @ rest)"]
        wire_run.simps [of "(AtSize ?h0, ?sz @ pl @ rest)"]
        wire_run.simps [of "(AtPayload h (length pl), pl @ rest)"] del: be_bytes.simps wire_step.simps)
qed

lemma wire_run_frames:
  "list_all frame_ok fs \<Longrightarrow>
    wire_run (AtHeader, concat (map frame_bytes fs)) = ((AtHeader, []), fs)"
proof (induction fs)
  case Nil
  then show ?case by (simp add: wire_run_None)
next
  case (Cons f fs)
  then show ?case using wire_run_frame [of f "concat (map frame_bytes fs)"] by simp
qed

lemma rest_frames_ok: "list_all frame_ok (rest_frames ch msg enc payload)"
proof (induction ch msg enc payload rule: rest_frames.induct)
  case (1 ch msg enc payload)
  then show ?case
    by (simp add: rest_frames.simps [of ch msg enc payload] frame_ok_def frame_hdr_def
        FRAME_MAX_PAYLOAD_def)
qed

lemma message_frames_ok: "list_all frame_ok (message_frames ch msg enc payload)"
  by (simp add: message_frames_def rest_frames_ok)
     (simp add: frame_ok_def frame_hdr_def FRAME_MAX_PAYLOAD_def)

end
