(* ===== verification/Frame_Assembler.thy ===== *)
theory Frame_Assembler
  imports Frame_Serializer
begin

text \<open>
  \<open>oaa::FrameAssembler\<close>: fragments of messages are collected per channel under a limit on
  the size of one message and a budget for all messages in flight. The theory shows that the
  accounting is exact and within the budget in every reachable state, and that the frames of
  a message assemble to the message however the channels interleave.
\<close>

section \<open>The assembler\<close>

definition MAX_ASSEMBLED_MESSAGE_SIZE :: u32 where
  "MAX_ASSEMBLED_MESSAGE_SIZE = 16 * 1024 * 1024"

definition MAX_IN_FLIGHT_ASSEMBLY_SIZE :: u64 where
  "MAX_IN_FLIGHT_ASSEMBLY_SIZE = 32 * 1024 * 1024"

record partial_message =
  pm_payload :: bytes
  pm_declaredSize :: u32
  pm_messageType :: message_type
  pm_encryptionType :: encryption_type

record frame_assembler =
  m_partials :: "byte \<rightharpoonup> partial_message"
  m_reservedBytes :: u64
  m_maxMessageSize :: u32
  m_maxAggregateSize :: u64

text \<open>The reasons of \<open>assemblyFailed\<close>, one per message text, with the channel it names.\<close>

datatype assembly_error =
    BulkInterrupted byte
  | FirstCannotContainId byte
  | FirstNotLargerThanPayload byte
  | FirstExceedsMessageLimit byte
  | FirstExceedsBudget byte
  | ContinuationWithoutFirst byte
  | ContinuationFlagsDiffer byte
  | MiddleReachesTotal byte
  | LastNotAtTotal byte

datatype assembly_event =
    MessageAssembled byte message_type bytes
  | AssemblyFailed assembly_error

definition assembler_new :: "u32 \<Rightarrow> u64 \<Rightarrow> frame_assembler" where
  "assembler_new maxMessageSize maxAggregateSize =
     \<lparr>m_partials = Map.empty, m_reservedBytes = 0, m_maxMessageSize = maxMessageSize,
      m_maxAggregateSize = maxAggregateSize\<rparr>"

definition assembler_default :: frame_assembler where
  "assembler_default = assembler_new MAX_ASSEMBLED_MESSAGE_SIZE MAX_IN_FLIGHT_ASSEMBLY_SIZE"

definition assembler_reset :: "frame_assembler \<Rightarrow> frame_assembler" where
  "assembler_reset a = a\<lparr>m_partials := Map.empty, m_reservedBytes := 0\<rparr>"

definition assembler_release :: "frame_assembler \<Rightarrow> byte \<Rightarrow> frame_assembler" where
  "assembler_release a ch = (case m_partials a ch of
     None \<Rightarrow> a
   | Some pm \<Rightarrow> a\<lparr>m_reservedBytes := m_reservedBytes a - ucast (pm_declaredSize pm),
                  m_partials := (m_partials a)(ch := None)\<rparr>)"

definition assembler_fail ::
  "frame_assembler \<Rightarrow> assembly_error \<Rightarrow> frame_assembler \<times> assembly_event option" where
  "assembler_fail a e = (assembler_reset a, Some (AssemblyFailed e))"

definition flagsMatch :: "partial_message \<Rightarrow> frame_header \<Rightarrow> bool" where
  "flagsMatch pm h \<longleftrightarrow> pm_messageType pm = messageType h \<and> pm_encryptionType pm = encryptionType h"

definition assembler_onFirst ::
  "frame_assembler \<Rightarrow> frame_header \<Rightarrow> bytes \<Rightarrow> frame_assembler \<times> assembly_event option" where
  "assembler_onFirst a0 h payload = (
     let ch = channelId h;
         a = (if m_partials a0 ch \<noteq> None then assembler_release a0 ch else a0);
         payloadSize = (of_nat (length payload) :: u32)
     in if totalMessageSize h < 2 then assembler_fail a (FirstCannotContainId ch)
        else if totalMessageSize h \<le> payloadSize then assembler_fail a (FirstNotLargerThanPayload ch)
        else if totalMessageSize h > m_maxMessageSize a then assembler_fail a (FirstExceedsMessageLimit ch)
        else if ucast (totalMessageSize h) > m_maxAggregateSize a - m_reservedBytes a
        then assembler_fail a (FirstExceedsBudget ch)
        else (a\<lparr>m_reservedBytes := m_reservedBytes a + ucast (totalMessageSize h),
                m_partials := (m_partials a)(ch \<mapsto>
                  \<lparr>pm_payload = payload, pm_declaredSize = totalMessageSize h,
                   pm_messageType = messageType h, pm_encryptionType = encryptionType h\<rparr>)\<rparr>,
              None))"

definition assembler_onContinuation ::
  "frame_assembler \<Rightarrow> frame_header \<Rightarrow> bytes \<Rightarrow> frame_assembler \<times> assembly_event option" where
  "assembler_onContinuation a h payload = (
     let ch = channelId h in
     case m_partials a ch of
       None \<Rightarrow> assembler_fail a (ContinuationWithoutFirst ch)
     | Some pm \<Rightarrow>
         if \<not> flagsMatch pm h then assembler_fail a (ContinuationFlagsDiffer ch)
         else (let nextSize = (of_nat (length (pm_payload pm)) + of_nat (length payload) :: u64);
                   pm' = pm\<lparr>pm_payload := pm_payload pm @ payload\<rparr>
               in if frameType h = Middle
                  then if nextSize \<ge> ucast (pm_declaredSize pm)
                       then assembler_fail a (MiddleReachesTotal ch)
                       else (a\<lparr>m_partials := (m_partials a)(ch \<mapsto> pm')\<rparr>, None)
                  else if nextSize \<noteq> ucast (pm_declaredSize pm)
                  then assembler_fail a (LastNotAtTotal ch)
                  else (assembler_release (a\<lparr>m_partials := (m_partials a)(ch \<mapsto> pm')\<rparr>) ch,
                        Some (MessageAssembled ch (pm_messageType pm) (pm_payload pm')))))"

definition assembler_onFrame ::
  "frame_assembler \<Rightarrow> frame_header \<Rightarrow> bytes \<Rightarrow> frame_assembler \<times> assembly_event option" where
  "assembler_onFrame a h payload = (case frameType h of
     Bulk \<Rightarrow>
       if m_partials a (channelId h) \<noteq> None
       then assembler_fail a (BulkInterrupted (channelId h))
       else (a, Some (MessageAssembled (channelId h) (messageType h) payload))
   | First \<Rightarrow> assembler_onFirst a h payload
   | Middle \<Rightarrow> assembler_onContinuation a h payload
   | Last \<Rightarrow> assembler_onContinuation a h payload)"

text \<open>A sequence of frames, with the events in the order of their emission.\<close>

fun assembler_run :: "frame_assembler \<Rightarrow> frame list \<Rightarrow> frame_assembler \<times> assembly_event list" where
  "assembler_run a [] = (a, [])"
| "assembler_run a ((h, payload) # fs) =
     (let (a', e) = assembler_onFrame a h payload; (a'', es) = assembler_run a' fs
      in (a'', (case e of None \<Rightarrow> es | Some ev \<Rightarrow> ev # es)))"

section \<open>Exact accounting within the budget\<close>

definition reserved :: "frame_assembler \<Rightarrow> nat" where
  "reserved a = (\<Sum>ch \<in> dom (m_partials a). unat (pm_declaredSize (the (m_partials a ch))))"

definition partial_ok :: "u32 \<Rightarrow> partial_message \<Rightarrow> bool" where
  "partial_ok maxSize pm \<longleftrightarrow>
     length (pm_payload pm) < unat (pm_declaredSize pm) \<and> pm_declaredSize pm \<le> maxSize"

definition assembler_inv :: "frame_assembler \<Rightarrow> bool" where
  "assembler_inv a \<longleftrightarrow>
     (\<forall>pm \<in> ran (m_partials a). partial_ok (m_maxMessageSize a) pm)
     \<and> unat (m_reservedBytes a) = reserved a
     \<and> m_reservedBytes a \<le> m_maxAggregateSize a"

lemma finite_dom_partials [simp]: "finite (dom (m_partials a))"
  by (rule finite_subset [OF subset_UNIV]) simp

lemma reserved_split:
  "m_partials a ch = Some pm \<Longrightarrow>
    reserved a = unat (pm_declaredSize pm) +
      (\<Sum>c \<in> dom (m_partials a) - {ch}. unat (pm_declaredSize (the (m_partials a c))))"
  unfolding reserved_def by (subst sum.remove [of _ ch]) auto

lemma sum_partials_upd:
  "(\<Sum>c \<in> A - {ch}. unat (pm_declaredSize (the ((M(ch := x)) c)))) =
   (\<Sum>c \<in> A - {ch}. unat (pm_declaredSize (the (M c))))"
  by (rule sum.cong) auto

lemma unat_ucast_u64 [simp]: "unat (ucast (w :: u32) :: u64) = unat w"
proof -
  have "unat w < 2 ^ 32" using unsigned_less [of w] by simp
  then show ?thesis by (simp add: unsigned_ucast_eq take_bit_nat_eq_self)
qed

lemma assembler_release_inv:
  assumes inv: "assembler_inv a"
  shows "assembler_inv (assembler_release a ch)"
    and "m_partials (assembler_release a ch) = (m_partials a)(ch := None)"
proof -
  show eq: "m_partials (assembler_release a ch) = (m_partials a)(ch := None)"
    by (auto simp: assembler_release_def split: option.splits)
  show "assembler_inv (assembler_release a ch)"
  proof (cases "m_partials a ch")
    case None
    with inv show ?thesis by (simp add: assembler_release_def)
  next
    case (Some pm)
    have split: "reserved a = unat (pm_declaredSize pm) + reserved (assembler_release a ch)"
      using reserved_split [OF Some] by (simp add: reserved_def [of "assembler_release a ch"] eq sum_partials_upd)
    have le: "(ucast (pm_declaredSize pm) :: u64) \<le> m_reservedBytes a"
      using inv split by (simp add: assembler_inv_def word_le_nat_alt)
    have "unat (m_reservedBytes a - ucast (pm_declaredSize pm)) = reserved (assembler_release a ch)"
      using inv split le by (simp add: assembler_inv_def unat_sub)
    moreover have "m_reservedBytes a - ucast (pm_declaredSize pm) \<le> m_maxAggregateSize a"
      using inv le by (auto simp: assembler_inv_def word_le_nat_alt unat_sub)
    ultimately show ?thesis
      using inv Some by (auto simp: assembler_inv_def assembler_release_def ran_def split: if_splits)
  qed
qed

lemma assembler_inv_upd:
  assumes inv: "assembler_inv a" and ch: "m_partials a ch = Some pm"
    and ok: "partial_ok (m_maxMessageSize a) pm'" and same: "pm_declaredSize pm' = pm_declaredSize pm"
  shows "assembler_inv (a\<lparr>m_partials := (m_partials a)(ch \<mapsto> pm')\<rparr>)"
proof -
  have "reserved (a\<lparr>m_partials := (m_partials a)(ch \<mapsto> pm')\<rparr>) = reserved a"
    using reserved_split [OF ch] reserved_split [of "a\<lparr>m_partials := (m_partials a)(ch \<mapsto> pm')\<rparr>" ch pm'] same ch
    by (simp add: sum_partials_upd insert_absorb domI)
  with inv ok show ?thesis
    by (auto simp: assembler_inv_def ran_def split: if_splits)
qed

lemma assembler_inv_reset: "assembler_inv (assembler_reset a)"
  by (simp add: assembler_inv_def assembler_reset_def reserved_def)

lemma assembler_inv_add:
  assumes inv: "assembler_inv a" and new: "m_partials a ch = None"
    and ok: "partial_ok (m_maxMessageSize a) pm"
    and fits: "ucast (pm_declaredSize pm) \<le> m_maxAggregateSize a - m_reservedBytes a"
  shows "assembler_inv (a\<lparr>m_reservedBytes := m_reservedBytes a + ucast (pm_declaredSize pm),
    m_partials := (m_partials a)(ch \<mapsto> pm)\<rparr>)" (is "assembler_inv ?a")
proof -
  have bound: "unat (m_reservedBytes a) + unat (pm_declaredSize pm) \<le> unat (m_maxAggregateSize a)"
    using inv fits by (auto simp: assembler_inv_def word_le_nat_alt unat_sub)
  moreover have "unat (m_maxAggregateSize a) < 2 ^ 64" using unsigned_less [of "m_maxAggregateSize a"] by simp
  ultimately have add: "unat (m_reservedBytes a + ucast (pm_declaredSize pm)) =
      unat (m_reservedBytes a) + unat (pm_declaredSize pm)"
    by (simp add: unat_word_ariths)
  have "(\<Sum>c \<in> dom (m_partials a). unat (pm_declaredSize (the (((m_partials a)(ch \<mapsto> pm)) c))))
      = reserved a"
    unfolding reserved_def using new by (intro sum.cong) auto
  then have "reserved ?a = unat (pm_declaredSize pm) + reserved a"
    using reserved_split [of ?a ch pm] new by (simp add: domIff)
  with inv ok bound add show ?thesis
    by (auto simp: assembler_inv_def word_le_nat_alt ran_def split: if_splits)
qed

text \<open>
  A frame carries at most 65535 bytes of wire payload, and what decryption makes of them is no
  longer, so its length survives the cast to \<open>uint32_t\<close>.
\<close>

lemma unat_len_u32: "n < 2 ^ 32 \<Longrightarrow> unat (of_nat n :: u32) = n"
  by (simp add: unsigned_of_nat take_bit_nat_eq_self)

lemma unat_len_u64: "n < 2 ^ 64 \<Longrightarrow> unat (of_nat n :: u64) = n"
  by (simp add: unsigned_of_nat take_bit_nat_eq_self)

lemma assembler_onFirst_inv:
  assumes inv: "assembler_inv a" and len: "length payload < 2 ^ 32"
  shows "assembler_inv (fst (assembler_onFirst a h payload))"
proof -
  define b where "b = (if m_partials a (channelId h) \<noteq> None then assembler_release a (channelId h) else a)"
  define pm where "pm = \<lparr>pm_payload = payload, pm_declaredSize = totalMessageSize h,
       pm_messageType = messageType h, pm_encryptionType = encryptionType h\<rparr>"
  have b: "assembler_inv b" "m_partials b (channelId h) = None"
    using inv assembler_release_inv [OF inv, of "channelId h"] by (auto simp: b_def)
  have ok: "partial_ok (m_maxMessageSize b) pm"
    if "\<not> totalMessageSize h \<le> (of_nat (length payload) :: u32)" "\<not> m_maxMessageSize b < totalMessageSize h"
    using that len by (simp add: partial_ok_def word_le_nat_alt word_less_nat_alt unat_len_u32 pm_def)
  show ?thesis
    unfolding assembler_onFirst_def Let_def b_def [symmetric] pm_def [symmetric]
    using assembler_inv_reset [of b] ok assembler_inv_add [OF b, of pm]
    by (simp add: assembler_fail_def not_less) (simp add: pm_def)
qed

lemma assembler_onContinuation_inv:
  assumes inv: "assembler_inv a" and len: "length payload < 2 ^ 32"
  shows "assembler_inv (fst (assembler_onContinuation a h payload))"
proof (cases "m_partials a (channelId h)")
  case None
  then show ?thesis
    by (simp add: assembler_onContinuation_def assembler_fail_def assembler_inv_reset)
next
  case (Some pm)
  let ?pm' = "pm\<lparr>pm_payload := pm_payload pm @ payload\<rparr>"
  let ?n = "of_nat (length (pm_payload pm)) + of_nat (length payload) :: u64"
  have pm: "partial_ok (m_maxMessageSize a) pm"
    using inv Some by (auto simp: assembler_inv_def ran_def)
  moreover have "unat (pm_declaredSize pm) < 2 ^ 32" using unsigned_less [of "pm_declaredSize pm"] by simp
  ultimately have n: "unat ?n = length (pm_payload ?pm')"
    using len by (simp add: partial_ok_def unat_word_ariths unat_len_u64)
  have ok: "partial_ok (m_maxMessageSize a) ?pm'" if "\<not> ucast (pm_declaredSize pm) \<le> ?n"
    using pm that n by (simp add: partial_ok_def word_le_nat_alt)
  have rel: "assembler_release (a\<lparr>m_partials := (m_partials a)(channelId h \<mapsto> ?pm')\<rparr>) (channelId h)
      = assembler_release a (channelId h)"
    using Some by (simp add: assembler_release_def)
  show ?thesis
    using Some assembler_inv_reset [of a] assembler_release_inv(1) [OF inv, of "channelId h"]
      assembler_inv_upd [OF inv Some, of ?pm'] ok
    by (simp add: assembler_onContinuation_def assembler_fail_def Let_def rel del: of_nat_add)
qed

lemma assembler_onFrame_inv:
  "assembler_inv a \<Longrightarrow> length payload < 2 ^ 32 \<Longrightarrow> assembler_inv (fst (assembler_onFrame a h payload))"
  by (cases "frameType h")
    (simp_all add: assembler_onFrame_def assembler_onFirst_inv assembler_onContinuation_inv
      assembler_fail_def assembler_inv_reset)

lemma assembler_run_inv:
  "assembler_inv a \<Longrightarrow> list_all (\<lambda>f. length (snd f) < 2 ^ 32) fs \<Longrightarrow> assembler_inv (fst (assembler_run a fs))"
proof (induction fs arbitrary: a)
  case Nil
  then show ?case by simp
next
  case (Cons f fs)
  then have "assembler_inv (fst (assembler_onFrame a (fst f) (snd f)))"
    by (intro assembler_onFrame_inv) simp_all
  with Cons show ?case by (cases f) (simp add: split_def Let_def)
qed

section \<open>One channel on its own\<close>

text \<open>
  The specification of the assembly on one channel, with the budget left out: \<open>None\<close> is a
  violation of the fragmentation rules.
\<close>

definition chan_first :: "u32 \<Rightarrow> frame \<Rightarrow> partial_message option" where
  "chan_first maxSize f = (let total = totalMessageSize (fst f) in
     if total < 2 \<or> unat total \<le> length (snd f) \<or> total > maxSize then None
     else Some \<lparr>pm_payload = snd f, pm_declaredSize = total,
                pm_messageType = messageType (fst f), pm_encryptionType = encryptionType (fst f)\<rparr>)"

definition chan_step ::
  "u32 \<Rightarrow> partial_message option \<Rightarrow> frame \<Rightarrow> (partial_message option \<times> assembly_event list) option" where
  "chan_step maxSize po f = (case frameType (fst f) of
     Bulk \<Rightarrow> if po \<noteq> None then None
            else Some (None, [MessageAssembled (channelId (fst f)) (messageType (fst f)) (snd f)])
   | First \<Rightarrow> map_option (\<lambda>pm. (Some pm, [])) (chan_first maxSize f)
   | Middle \<Rightarrow> (case po of
        None \<Rightarrow> None
      | Some pm \<Rightarrow>
          if flagsMatch pm (fst f) \<and> length (pm_payload pm @ snd f) < unat (pm_declaredSize pm)
          then Some (Some (pm\<lparr>pm_payload := pm_payload pm @ snd f\<rparr>), []) else None)
   | Last \<Rightarrow> (case po of
        None \<Rightarrow> None
      | Some pm \<Rightarrow>
          if flagsMatch pm (fst f) \<and> length (pm_payload pm @ snd f) = unat (pm_declaredSize pm)
          then Some (None, [MessageAssembled (channelId (fst f)) (pm_messageType pm) (pm_payload pm @ snd f)])
          else None))"

fun chan_run ::
  "u32 \<Rightarrow> partial_message option \<Rightarrow> frame list \<Rightarrow> (partial_message option \<times> assembly_event list) option" where
  "chan_run maxSize po [] = Some (po, [])"
| "chan_run maxSize po (f # fs) = (case chan_step maxSize po f of
     None \<Rightarrow> None
   | Some (po', es) \<Rightarrow> map_option (\<lambda>(po'', es'). (po'', es @ es')) (chan_run maxSize po' fs))"

lemma chan_run_append:
  "chan_run m po fs = Some (po', es) \<Longrightarrow> chan_run m po' gs = Some (po'', es') \<Longrightarrow>
    chan_run m po (fs @ gs) = Some (po'', es @ es')"
  by (induction fs arbitrary: po es) (auto split: option.splits)

text \<open>
  The budget split among the channels: what channel \<open>c\<close> may have in flight is \<open>B c\<close>.
\<close>

definition within :: "(byte \<Rightarrow> nat) \<Rightarrow> frame_assembler \<Rightarrow> bool" where
  "within B a \<longleftrightarrow> (\<Sum>c \<in> UNIV. B c) \<le> unat (m_maxAggregateSize a)
     \<and> (\<forall>c pm. m_partials a c = Some pm \<longrightarrow> unat (pm_declaredSize pm) \<le> B c)"

lemma within_rest:
  assumes "within B a" and "m_partials a ch = None"
  shows "reserved a + B ch \<le> unat (m_maxAggregateSize a)"
proof -
  have "reserved a \<le> (\<Sum>c \<in> dom (m_partials a). B c)"
    unfolding reserved_def using assms(1) by (intro sum_mono) (auto simp: within_def)
  also have "\<dots> \<le> (\<Sum>c \<in> UNIV - {ch}. B c)"
    using assms(2) by (intro sum_mono2) auto
  finally have "reserved a + B ch \<le> (\<Sum>c \<in> UNIV. B c)"
    by (subst sum.remove [of _ ch]) auto
  with assms(1) show ?thesis by (simp add: within_def)
qed

definition step_matches ::
  "frame_assembler \<Rightarrow> byte \<Rightarrow> partial_message option \<Rightarrow> assembly_event list \<Rightarrow>
   frame_assembler \<times> assembly_event option \<Rightarrow> bool" where
  "step_matches a ch po' es r \<longleftrightarrow> m_partials (fst r) = (m_partials a)(ch := po')
     \<and> (case snd r of None \<Rightarrow> [] | Some e \<Rightarrow> [e]) = es
     \<and> m_maxMessageSize (fst r) = m_maxMessageSize a
     \<and> m_maxAggregateSize (fst r) = m_maxAggregateSize a"

lemma release_sizes [simp]:
  "m_maxMessageSize (assembler_release a ch) = m_maxMessageSize a"
  "m_maxAggregateSize (assembler_release a ch) = m_maxAggregateSize a"
  by (simp_all add: assembler_release_def split: option.split)

lemma onFirst_matches:
  assumes inv: "assembler_inv a" and B: "within B a" and len: "length (snd f) < 2 ^ 32"
    and total: "unat (totalMessageSize (fst f)) \<le> B (channelId (fst f))"
    and step: "chan_first (m_maxMessageSize a) f = Some pm"
  shows "step_matches a (channelId (fst f)) (Some pm) [] (assembler_onFirst a (fst f) (snd f))"
proof -
  let ?ch = "channelId (fst f)"
  define b where "b = (if m_partials a ?ch \<noteq> None then assembler_release a ?ch else a)"
  have b: "assembler_inv b" "m_partials b = (m_partials a)(?ch := None)"
      "m_maxMessageSize b = m_maxMessageSize a" "m_maxAggregateSize b = m_maxAggregateSize a"
    using inv assembler_release_inv [OF inv, of ?ch] by (auto simp: b_def fun_upd_idem)
  have Bb: "within B b" using B b by (auto simp: within_def split: if_splits)
  have "reserved b + B ?ch \<le> unat (m_maxAggregateSize b)"
    using within_rest [OF Bb] b by simp
  with total b(1) have fits: "\<not> ucast (totalMessageSize (fst f)) > m_maxAggregateSize b - m_reservedBytes b"
    by (simp add: assembler_inv_def word_less_nat_alt word_le_nat_alt unat_sub)
  have size: "totalMessageSize (fst f) \<le> (of_nat (length (snd f)) :: u32)
      \<longleftrightarrow> unat (totalMessageSize (fst f)) \<le> length (snd f)"
    using len by (simp add: word_le_nat_alt unat_len_u32)
  show ?thesis
    unfolding step_matches_def assembler_onFirst_def Let_def b_def [symmetric]
    using step fits size b by (auto simp: chan_first_def Let_def split: if_splits)
qed

lemma onContinuation_matches:
  assumes inv: "assembler_inv a" and len: "length (snd f) < 2 ^ 32"
    and t: "frameType (fst f) = Middle \<or> frameType (fst f) = Last"
    and step: "chan_step (m_maxMessageSize a) (m_partials a (channelId (fst f))) f = Some (po', es)"
  shows "step_matches a (channelId (fst f)) po' es (assembler_onContinuation a (fst f) (snd f))"
proof -
  let ?ch = "channelId (fst f)"
  from t step obtain pm where pm: "m_partials a ?ch = Some pm" "flagsMatch pm (fst f)"
    by (auto simp: chan_step_def split: option.splits if_splits)
  let ?n = "of_nat (length (pm_payload pm)) + of_nat (length (snd f)) :: u64"
  have "partial_ok (m_maxMessageSize a) pm" using inv pm by (auto simp: assembler_inv_def ran_def)
  moreover have "unat (pm_declaredSize pm) < 2 ^ 32" using unsigned_less [of "pm_declaredSize pm"] by simp
  ultimately have n: "unat ?n = length (pm_payload pm) + length (snd f)"
    using len by (simp add: partial_ok_def unat_word_ariths unat_len_u64)
  have cmp: "ucast (pm_declaredSize pm) \<le> ?n \<longleftrightarrow> unat (pm_declaredSize pm) \<le> length (pm_payload pm) + length (snd f)"
    "?n \<noteq> ucast (pm_declaredSize pm) \<longleftrightarrow> length (pm_payload pm) + length (snd f) \<noteq> unat (pm_declaredSize pm)"
    using n by (simp_all only: word_le_nat_alt word_unat_eq_iff unat_ucast_u64)
  show ?thesis
    unfolding assembler_onContinuation_def Let_def step_matches_def
    using t step pm cmp
    by (auto simp: chan_step_def assembler_release_def split: if_splits simp del: of_nat_add)
qed

lemma onFrame_matches:
  assumes "assembler_inv a" and "within B a" and "length (snd f) < 2 ^ 32"
    and "frameType (fst f) = First \<longrightarrow> unat (totalMessageSize (fst f)) \<le> B (channelId (fst f))"
    and step: "chan_step (m_maxMessageSize a) (m_partials a (channelId (fst f))) f = Some (po', es)"
  shows "step_matches a (channelId (fst f)) po' es (assembler_onFrame a (fst f) (snd f))"
proof (cases "frameType (fst f)")
  case First
  with assms onFirst_matches [OF assms(1,2,3)] show ?thesis
    by (auto simp: assembler_onFrame_def chan_step_def)
next
  case Bulk
  with step show ?thesis
    by (auto simp: assembler_onFrame_def chan_step_def step_matches_def split: if_splits)
qed (use assms onContinuation_matches in \<open>auto simp: assembler_onFrame_def\<close>)

lemma chan_step_declared:
  assumes "chan_step maxSize po f = Some (Some pm, es)"
  shows "(frameType (fst f) = First \<and> pm_declaredSize pm = totalMessageSize (fst f))
    \<or> (\<exists>pm0. po = Some pm0 \<and> pm_declaredSize pm = pm_declaredSize pm0)"
  using assms by (auto simp: chan_step_def chan_first_def Let_def
      split: frame_type.splits option.splits if_splits)

lemma chan_step_events:
  "chan_step maxSize po f = Some (po', es) \<Longrightarrow>
    \<forall>e \<in> set es. \<exists>t m. e = MessageAssembled (channelId (fst f)) t m"
  by (auto simp: chan_step_def split: frame_type.splits option.splits if_splits)

section \<open>Channels do not interfere\<close>

definition on_channel :: "byte \<Rightarrow> frame \<Rightarrow> bool" where
  "on_channel c f \<longleftrightarrow> channelId (fst f) = c"

lemma on_channel_self [simp]: "on_channel (channelId (fst f)) f"
  by (simp add: on_channel_def)

lemma on_channel_other [simp]: "c \<noteq> channelId (fst f) \<Longrightarrow> \<not> on_channel c f"
  by (simp add: on_channel_def)

fun event_on :: "byte \<Rightarrow> assembly_event \<Rightarrow> bool" where
  "event_on c (MessageAssembled d _ _) \<longleftrightarrow> d = c"
| "event_on c (AssemblyFailed _) \<longleftrightarrow> False"

fun is_failure :: "assembly_event \<Rightarrow> bool" where
  "is_failure (AssemblyFailed _) \<longleftrightarrow> True"
| "is_failure _ \<longleftrightarrow> False"

definition frames_fit :: "(byte \<Rightarrow> nat) \<Rightarrow> frame list \<Rightarrow> bool" where
  "frames_fit B fs \<longleftrightarrow> list_all (\<lambda>f. length (snd f) < 2 ^ 32 \<and>
     (frameType (fst f) = First \<longrightarrow> unat (totalMessageSize (fst f)) \<le> B (channelId (fst f)))) fs"

lemma chan_step_within:
  assumes "within B a" and "step_matches a (channelId (fst f)) po' es r"
    and "chan_step (m_maxMessageSize a) (m_partials a (channelId (fst f))) f = Some (po', es)"
    and "frameType (fst f) = First \<longrightarrow> unat (totalMessageSize (fst f)) \<le> B (channelId (fst f))"
  shows "within B (fst r)"
proof -
  have "unat (pm_declaredSize pm) \<le> B (channelId (fst f))" if "po' = Some pm" for pm
    using chan_step_declared
      [of "m_maxMessageSize a" "m_partials a (channelId (fst f))" f pm es] assms that
    by (auto simp: within_def)
  with assms(1,2) show ?thesis by (auto simp: within_def step_matches_def split: if_splits)
qed

text \<open>
  However the frames of the channels are interleaved, each channel's messages come out as if
  its frames had arrived alone, and the assembler never fails.
\<close>

lemma assembler_run_independent:
  assumes "assembler_inv a" and "within B a" and "frames_fit B fs"
    and "\<And>c. chan_run (m_maxMessageSize a) (m_partials a c) (filter (on_channel c) fs) = Some (po c, es c)"
  shows "\<exists>a' evs. assembler_run a fs = (a', evs) \<and> (\<forall>c. m_partials a' c = po c)
    \<and> (\<forall>c. filter (event_on c) evs = es c) \<and> \<not> list_ex is_failure evs"
  using assms
proof (induction fs arbitrary: a es)
  case Nil
  then show ?case by auto
next
  case (Cons f fs)
  let ?ch = "channelId (fst f)"
  obtain po1 es1 rest where step: "chan_step (m_maxMessageSize a) (m_partials a ?ch) f = Some (po1, es1)"
      and tl: "chan_run (m_maxMessageSize a) po1 (filter (on_channel ?ch) fs) = Some (po ?ch, rest)"
      and es: "es ?ch = es1 @ rest"
    using Cons.prems(4) [of ?ch] by (auto split: option.splits)
  obtain a1 e where r: "assembler_onFrame a (fst f) (snd f) = (a1, e)" by (metis surj_pair)
  have fit: "length (snd f) < 2 ^ 32"
      "frameType (fst f) = First \<longrightarrow> unat (totalMessageSize (fst f)) \<le> B ?ch" "frames_fit B fs"
    using Cons.prems(3) by (simp_all add: frames_fit_def)
  have m: "step_matches a ?ch po1 es1 (a1, e)"
    using onFrame_matches [OF Cons.prems(1,2) fit(1,2) step] r by simp
  then have a1: "m_partials a1 = (m_partials a)(?ch := po1)" "m_maxMessageSize a1 = m_maxMessageSize a"
      and e: "(case e of None \<Rightarrow> [] | Some ev \<Rightarrow> [ev]) = es1"
    by (simp_all add: step_matches_def)
  have inv1: "assembler_inv a1"
    using assembler_onFrame_inv [OF Cons.prems(1) fit(1), of "fst f"] r by simp
  have within1: "within B a1" using chan_step_within [OF Cons.prems(2) m step fit(2)] by simp
  define es' where "es' c = (if c = ?ch then rest else es c)" for c
  have "chan_run (m_maxMessageSize a1) (m_partials a1 c) (filter (on_channel c) fs) = Some (po c, es' c)" for c
    using Cons.prems(4) [of c] tl a1 by (auto simp: es'_def)
  from Cons.IH [OF inv1 within1 fit(3) this] obtain a' evs where
    IH: "assembler_run a1 fs = (a', evs)" "\<forall>c. m_partials a' c = po c"
      "\<forall>c. filter (event_on c) evs = es' c" "\<not> list_ex is_failure evs" by blast
  have run: "assembler_run a (f # fs) = (a', es1 @ evs)"
    using r IH(1) e by (cases f) (auto split: option.splits)
  have "\<forall>c. filter (event_on c) (es1 @ evs) = es c"
    using IH(3) es chan_step_events [OF step] by (auto simp: es'_def filter_id_conv filter_empty_conv)
  moreover have "\<not> list_ex is_failure (es1 @ evs)"
    using IH(4) chan_step_events [OF step] by (auto simp: list_ex_iff)
  ultimately show ?case using run IH(2) by auto
qed

section \<open>The frames of a message assemble to the message\<close>

lemma chan_run_rest_frames:
  assumes "pm_messageType pm = msg" and "pm_encryptionType pm = enc"
    and "length (pm_payload pm) + length payload = unat (pm_declaredSize pm)" and "payload \<noteq> []"
  shows "chan_run maxSize (Some pm) (rest_frames ch msg enc payload) =
    Some (None, [MessageAssembled ch msg (pm_payload pm @ payload)])"
  using assms
proof (induction ch msg enc payload arbitrary: pm rule: rest_frames.induct)
  case (1 ch msg enc payload)
  show ?case
  proof (cases "length payload > FRAME_MAX_PAYLOAD")
    case True
    let ?pm = "pm\<lparr>pm_payload := pm_payload pm @ take FRAME_MAX_PAYLOAD payload\<rparr>"
    have "chan_run maxSize (Some ?pm) (rest_frames ch msg enc (drop FRAME_MAX_PAYLOAD payload)) =
        Some (None, [MessageAssembled ch msg (pm_payload ?pm @ drop FRAME_MAX_PAYLOAD payload)])"
      using "1.IH" [OF True, of ?pm] "1.prems" True by simp
    with True "1.prems" show ?thesis
      by (simp add: rest_frames.simps [of ch msg enc payload] chan_step_def frame_hdr_def flagsMatch_def)
  next
    case False
    with "1.prems" show ?thesis
      by (simp add: rest_frames.simps [of ch msg enc payload] chan_step_def frame_hdr_def flagsMatch_def)
  qed
qed

lemma chan_run_message_frames:
  assumes "length payload \<le> FRAME_MAX_PAYLOAD \<or> length payload \<le> unat maxSize"
  shows "chan_run maxSize None (message_frames ch msg enc payload) =
    Some (None, [MessageAssembled ch msg payload])"
proof (cases "length payload \<le> FRAME_MAX_PAYLOAD")
  case True
  then show ?thesis by (simp add: message_frames_def chan_step_def frame_hdr_def)
next
  case False
  then have le: "length payload \<le> unat maxSize" using assms by simp
  also have "unat maxSize < 2 ^ 32" using unsigned_less [of maxSize] by simp
  finally have len: "unat (of_nat (length payload) :: u32) = length payload" by (simp add: unat_len_u32)
  let ?hdr = "frame_hdr ch First enc msg (of_nat (length payload))"
  let ?pm = "\<lparr>pm_payload = take FRAME_MAX_PAYLOAD payload, pm_declaredSize = of_nat (length payload),
    pm_messageType = msg, pm_encryptionType = enc\<rparr>"
  have "chan_first maxSize (?hdr, take FRAME_MAX_PAYLOAD payload) = Some ?pm"
    using False le len
    by (simp add: chan_first_def Let_def frame_hdr_def word_less_nat_alt FRAME_MAX_PAYLOAD_def)
  then have step: "chan_step maxSize None (?hdr, take FRAME_MAX_PAYLOAD payload) = Some (Some ?pm, [])"
    by (simp add: chan_step_def frame_hdr_def)
  have "chan_run maxSize (Some ?pm) (rest_frames ch msg enc (drop FRAME_MAX_PAYLOAD payload)) =
      Some (None, [MessageAssembled ch msg payload])"
    using chan_run_rest_frames [of ?pm msg enc "drop FRAME_MAX_PAYLOAD payload" maxSize ch] False len
    by simp
  with False step show ?thesis by (simp add: message_frames_def)
qed

section \<open>Memory in use\<close>

lemma assembler_onFrame_sizes [simp]:
  "m_maxMessageSize (fst (assembler_onFrame a h payload)) = m_maxMessageSize a"
  "m_maxAggregateSize (fst (assembler_onFrame a h payload)) = m_maxAggregateSize a"
  by (cases "frameType h"; simp add: assembler_onFrame_def assembler_onFirst_def Let_def
      assembler_onContinuation_def assembler_fail_def assembler_reset_def split: option.split)+

lemma assembler_run_sizes:
  "m_maxMessageSize (fst (assembler_run a fs)) = m_maxMessageSize a
    \<and> m_maxAggregateSize (fst (assembler_run a fs)) = m_maxAggregateSize a"
proof (induction fs arbitrary: a)
  case Nil
  then show ?case by simp
next
  case (Cons f fs)
  then show ?case by (cases f) (simp add: split_def Let_def)
qed

lemma assembler_inv_new: "assembler_inv (assembler_new m n)"
  by (simp add: assembler_inv_def assembler_new_def reserved_def)

definition bytes_held :: "frame_assembler \<Rightarrow> nat" where
  "bytes_held a = (\<Sum>ch \<in> dom (m_partials a). length (pm_payload (the (m_partials a ch))))"

lemma bytes_held_reserved: "assembler_inv a \<Longrightarrow> bytes_held a \<le> reserved a"
  unfolding bytes_held_def reserved_def
  by (intro sum_mono) (force simp: assembler_inv_def partial_ok_def ran_def)

text \<open>
  C3. In every state the assembler can reach, the reserved byte count is exactly the sum of the
  declared sizes of the messages in flight, it is within the aggregate budget, and it bounds the
  payload bytes actually held: no sequence of frames, malformed ones included, makes the
  unsigned budget arithmetic wrap or the memory in use exceed the limit.
\<close>

theorem assembler_memory_bounded:
  assumes "list_all (\<lambda>f. length (snd f) < 2 ^ 32) fs"
    and run: "assembler_run (assembler_new maxMessage maxAggregate) fs = (a, evs)"
  shows "unat (m_reservedBytes a) = reserved a \<and> reserved a \<le> unat maxAggregate
    \<and> bytes_held a \<le> reserved a
    \<and> (\<forall>ch pm. m_partials a ch = Some pm \<longrightarrow>
         length (pm_payload pm) < unat (pm_declaredSize pm)
         \<and> unat (pm_declaredSize pm) \<le> unat maxMessage)"
proof -
  have inv: "assembler_inv a"
    using assembler_run_inv [OF assembler_inv_new assms(1), of maxMessage maxAggregate] run by simp
  have "m_maxMessageSize a = maxMessage" "m_maxAggregateSize a = maxAggregate"
    using assembler_run_sizes [of "assembler_new maxMessage maxAggregate" fs] run
    by (simp_all add: assembler_new_def)
  with inv bytes_held_reserved [OF inv] show ?thesis
    by (auto simp: assembler_inv_def partial_ok_def word_le_nat_alt ran_def)
qed

theorem assembler_memory_bounded_witness:
  "\<exists>a evs. assembler_run (assembler_new 8 8)
      [(frame_hdr 3 First Plain Specific 6, [1, 2, 3]), (frame_hdr 5 First Plain Specific 6, [4])]
      = (a, evs)
    \<and> unat (m_reservedBytes a) = reserved a \<and> reserved a \<le> unat (8 :: u64)"
  using assembler_memory_bounded [of "[(frame_hdr 3 First Plain Specific 6, [1, 2, 3]),
    (frame_hdr 5 First Plain Specific 6, [4])]" 8 8] by (simp add: prod_eq_iff)

end
