(* ===== verification/Cryptor.thy ===== *)
theory Cryptor
  imports Frame_Assembler
begin

text \<open>
  \<open>oaa::Cryptor\<close> (\<open>Cryptor.cpp\<close>): the TLS endpoint that encrypts and decrypts frame
  payloads through two memory BIOs. OpenSSL is the parameter \<open>openssl\<close>, a record of the
  calls the class makes; its state \<open>'s\<close> is what the library holds for the endpoint (the SSL
  object, the BIOs) together with the thread's error queue. The theory shows that the loops
  return, that an error text is bounded, and that two endpoints joined by a working TLS
  record layer pass every frame payload through unchanged.
\<close>

section \<open>The calls into OpenSSL\<close>

datatype role = Client | Server

datatype init_call =
    SSL_CTX_new | BIO_new_cert | PEM_read_bio_X509 | SSL_CTX_use_certificate
  | BIO_new_key | PEM_read_bio_PrivateKey | SSL_CTX_use_PrivateKey | SSL_CTX_check_private_key
  | SSL_new | BIO_new_read | BIO_new_write

text \<open>
  The calls with an \<open>int\<close> result return it first; the reading ones return the bytes they
  delivered next. \<open>SSL_set_up\<close> stands for the configuration calls that cannot fail
  (\<open>SSL_CTX_set_verify\<close>, the BIO options, \<open>SSL_set_bio\<close>, connect or accept state).
\<close>

record 's openssl =
  ERR_clear_error :: "'s \<Rightarrow> 's"
  ERR_get_error :: "'s \<Rightarrow> nat \<times> 's"
  ERR_error_string_n :: "nat \<Rightarrow> string"
  SSL_init_call :: "init_call \<Rightarrow> role \<Rightarrow> bytes \<Rightarrow> bytes \<Rightarrow> 's \<Rightarrow> bool \<times> 's"
  SSL_set_up :: "role \<Rightarrow> 's \<Rightarrow> 's"
  SSL_free :: "'s \<Rightarrow> 's"
  SSL_CTX_free :: "'s \<Rightarrow> 's"
  SSL_do_handshake :: "'s \<Rightarrow> int \<times> 's"
  SSL_get_error :: "'s \<Rightarrow> int \<Rightarrow> int"
  SSL_write :: "'s \<Rightarrow> bytes \<Rightarrow> int \<times> 's"
  SSL_read :: "'s \<Rightarrow> nat \<Rightarrow> int \<times> bytes \<times> 's"
  BIO_write :: "'s \<Rightarrow> bytes \<Rightarrow> int \<times> 's"
  BIO_ctrl_pending :: "'s \<Rightarrow> int"
  BIO_read :: "'s \<Rightarrow> nat \<Rightarrow> int \<times> bytes \<times> 's"

abbreviation SSL_ERROR_WANT_READ :: int where "SSL_ERROR_WANT_READ \<equiv> 2"
abbreviation SSL_ERROR_WANT_WRITE :: int where "SSL_ERROR_WANT_WRITE \<equiv> 3"

section \<open>The endpoint\<close>

text \<open>
  The pointer members are kept as flags saying whether they are set; what they point to is
  \<open>c_lib\<close>.
\<close>

record 's cryptor =
  m_ctx :: bool
  m_ssl :: bool
  m_readBio :: bool
  m_writeBio :: bool
  m_active :: bool
  m_lastError :: string
  c_lib :: 's

datatype handshake_result = HsComplete | HsWantIo | HsFailed

datatype data_result = Complete bytes | Failed string

definition cryptor_new :: "'s \<Rightarrow> 's cryptor" where
  "cryptor_new lib = \<lparr>m_ctx = False, m_ssl = False, m_readBio = False, m_writeBio = False,
     m_active = False, m_lastError = [], c_lib = lib\<rparr>"

text \<open>The loop of \<open>buildError\<close>: at most four queued errors, while the text is short.\<close>

function error_texts :: "'s openssl \<Rightarrow> nat \<Rightarrow> string \<Rightarrow> 's \<Rightarrow> string \<times> 's" where
  "error_texts o' count err s = (
     if count < 4 \<and> length err < 1024
     then (let (code, s') = ERR_get_error o' s in
           if code = 0 then (err, s')
           else error_texts o' (count + 1) (err @ '': '' @ ERR_error_string_n o' code) s')
     else (err, s))"
  by pat_completeness auto
termination
  by (relation "measure (\<lambda>(o', count, err, s). 4 - count)") auto

declare error_texts.simps [simp del]

definition buildError :: "'s openssl \<Rightarrow> string \<Rightarrow> int \<Rightarrow> 's \<Rightarrow> string \<times> 's" where
  "buildError o' ctx sslError s = (
     let err = (if sslError \<ge> 0 then ctx @ '' (SSL_get_error='' @ dec_string (nat sslError) @ '')''
                else ctx);
         (e, s') = error_texts o' 0 err s
     in (take 1024 e, s'))"

definition failData ::
  "'s openssl \<Rightarrow> 's cryptor \<Rightarrow> string \<Rightarrow> int \<Rightarrow> data_result \<times> 's cryptor" where
  "failData o' c ctx sslError = (
     let (e, s) = buildError o' ctx sslError (c_lib c)
     in (Failed e, c\<lparr>m_lastError := e, c_lib := s\<rparr>))"

definition cryptor_deinit :: "'s openssl \<Rightarrow> 's cryptor \<Rightarrow> 's cryptor" where
  "cryptor_deinit o' c = (
     let c1 = (if m_ssl c then c\<lparr>c_lib := SSL_free o' (c_lib c), m_ssl := False,
                 m_readBio := False, m_writeBio := False\<rparr> else c);
         c2 = (if m_ctx c1 then c1\<lparr>c_lib := SSL_CTX_free o' (c_lib c1), m_ctx := False\<rparr> else c1)
     in c2\<lparr>m_active := False, m_lastError := []\<rparr>)"

definition failInitialization :: "'s openssl \<Rightarrow> 's cryptor \<Rightarrow> string \<Rightarrow> bool \<times> 's cryptor" where
  "failInitialization o' c ctx = (
     let (e, s) = buildError o' ctx (- 1) (c_lib c)
     in (False, (cryptor_deinit o' (c\<lparr>c_lib := s\<rparr>))\<lparr>m_lastError := e\<rparr>))"

text \<open>
  The calls of \<open>init\<close> in their order: whether the error queue is cleared before, the call, and
  the context of the error it reports.
\<close>

definition init_calls :: "(bool \<times> init_call \<times> string) list" where
  "init_calls =
     [(True, SSL_CTX_new, ''SSL_CTX_new failed''),
      (True, BIO_new_cert, ''certificate BIO creation failed''),
      (False, PEM_read_bio_X509, ''certificate PEM parse failed''),
      (True, SSL_CTX_use_certificate, ''SSL_CTX_use_certificate failed''),
      (True, BIO_new_key, ''private-key BIO creation failed''),
      (False, PEM_read_bio_PrivateKey, ''private-key PEM parse failed''),
      (True, SSL_CTX_use_PrivateKey, ''SSL_CTX_use_PrivateKey failed''),
      (True, SSL_CTX_check_private_key, ''certificate/private-key mismatch''),
      (True, SSL_new, ''SSL_new failed''),
      (True, BIO_new_read, ''read BIO creation failed''),
      (False, BIO_new_write, ''write BIO creation failed'')]"

fun run_init :: "'s openssl \<Rightarrow> role \<Rightarrow> bytes \<Rightarrow> bytes \<Rightarrow> (bool \<times> init_call \<times> string) list \<Rightarrow> 's
    \<Rightarrow> string option \<times> 's" where
  "run_init o' r cert key [] s = (None, s)"
| "run_init o' r cert key ((clr, call, msg) # calls) s = (
     let (ok, s') = SSL_init_call o' call r cert key (if clr then ERR_clear_error o' s else s)
     in if ok then run_init o' r cert key calls s' else (Some msg, s'))"

definition cryptor_init ::
  "'s openssl \<Rightarrow> 's cryptor \<Rightarrow> role \<Rightarrow> bytes \<Rightarrow> bytes \<Rightarrow> bool \<times> 's cryptor" where
  "cryptor_init o' c0 r certificatePem privateKeyPem = (
     let c = (cryptor_deinit o' c0)\<lparr>m_lastError := []\<rparr>;
         (failure, s) = run_init o' r certificatePem privateKeyPem init_calls (c_lib c)
     in case failure of
          Some msg \<Rightarrow> failInitialization o' (c\<lparr>c_lib := s\<rparr>) msg
        | None \<Rightarrow> (True, c\<lparr>c_lib := SSL_set_up o' r s, m_readBio := True, m_writeBio := True,
                     m_ctx := True, m_ssl := True, m_active := False, m_lastError := []\<rparr>))"

definition cryptor_doHandshake :: "'s openssl \<Rightarrow> 's cryptor \<Rightarrow> handshake_result \<times> 's cryptor" where
  "cryptor_doHandshake o' c = (
     if m_active c then (HsComplete, c)
     else if \<not> m_ssl c then (HsFailed, c\<lparr>m_lastError := ''TLS handshake is not initialized''\<rparr>)
     else (let (ret, s) = SSL_do_handshake o' (ERR_clear_error o' (c_lib c)) in
       if ret = 1 then (HsComplete, c\<lparr>c_lib := s, m_active := True, m_lastError := []\<rparr>)
       else (let err = SSL_get_error o' s ret in
         if err = SSL_ERROR_WANT_READ \<or> err = SSL_ERROR_WANT_WRITE
         then (HsWantIo, c\<lparr>c_lib := s\<rparr>)
         else (let (e, s') = buildError o' ''SSL_do_handshake failed'' err s
               in (HsFailed, c\<lparr>c_lib := s', m_lastError := e\<rparr>)))))"

text \<open>
  The loops that hand over a buffer piece by piece: \<open>None\<close> when a call takes nothing, with
  its result for \<open>SSL_get_error\<close>.
\<close>

function write_all :: "('s \<Rightarrow> 's) \<Rightarrow> ('s \<Rightarrow> bytes \<Rightarrow> int \<times> 's) \<Rightarrow> bytes \<Rightarrow> 's \<Rightarrow> int option \<times> 's" where
  "write_all clr wr data s = (
     if data = [] then (None, s)
     else (let (result, s') = wr (clr s) data in
           if result \<le> 0 then (Some result, s') else write_all clr wr (drop (nat result) data) s'))"
  by pat_completeness auto
termination
  by (relation "measure (\<lambda>(clr, wr, data, s). length data)") auto

declare write_all.simps [simp del]

definition cryptor_writeHandshakeBuffer ::
  "'s openssl \<Rightarrow> 's cryptor \<Rightarrow> bytes \<Rightarrow> bool \<times> 's cryptor" where
  "cryptor_writeHandshakeBuffer o' c data = (
     if \<not> m_readBio c
     then (False, c\<lparr>m_lastError := ''handshake input BIO is not initialized''\<rparr>)
     else if data = [] then (True, c\<lparr>m_lastError := []\<rparr>)
     else (case write_all (ERR_clear_error o') (BIO_write o') data (c_lib c) of
         (None, s) \<Rightarrow> (True, c\<lparr>c_lib := s, m_lastError := []\<rparr>)
       | (Some _, s) \<Rightarrow>
           (let (e, s') = buildError o' ''handshake input BIO write failed'' (- 1) s
            in (False, c\<lparr>c_lib := s', m_lastError := e\<rparr>))))"

text \<open>The loop of \<open>readWriteBio\<close> until \<open>n\<close> bytes are read; \<open>None\<close> when a read fails.\<close>

function read_bio :: "'s openssl \<Rightarrow> nat \<Rightarrow> bytes \<Rightarrow> 's \<Rightarrow> bytes option \<times> 's" where
  "read_bio o' n acc s = (
     if n = 0 then (Some acc, s)
     else (let (result, bs, s') = BIO_read o' (ERR_clear_error o' s) n in
           if result \<le> 0 then (None, s')
           else read_bio o' (n - nat result) (acc @ bs) s'))"
  by pat_completeness auto
termination
  by (relation "measure (\<lambda>(o', n, acc, s). n)") auto

declare read_bio.simps [simp del]

definition readWriteBio :: "'s openssl \<Rightarrow> 's cryptor \<Rightarrow> string \<Rightarrow> data_result \<times> 's cryptor" where
  "readWriteBio o' c ctx = (
     if \<not> m_writeBio c then failData o' c (ctx @ '': BIO is not initialized'') (- 1)
     else (let pending = BIO_ctrl_pending o' (c_lib c) in
       if pending \<le> 0 then (Complete [], c\<lparr>m_lastError := []\<rparr>)
       else if pending > 2147483647 then failData o' c (ctx @ '': pending data is too large'') (- 1)
       else (case read_bio o' (nat pending) [] (c_lib c) of
           (None, s) \<Rightarrow> failData o' (c\<lparr>c_lib := s\<rparr>) ctx (- 1)
         | (Some bs, s) \<Rightarrow> (Complete bs, c\<lparr>c_lib := s, m_lastError := []\<rparr>))))"

definition cryptor_readHandshakeBuffer :: "'s openssl \<Rightarrow> 's cryptor \<Rightarrow> data_result \<times> 's cryptor" where
  "cryptor_readHandshakeBuffer o' c = readWriteBio o' c ''handshake output BIO read failed''"

definition cryptor_encrypt :: "'s openssl \<Rightarrow> 's cryptor \<Rightarrow> bytes \<Rightarrow> data_result \<times> 's cryptor" where
  "cryptor_encrypt o' c plaintext = (
     if \<not> m_active c \<or> \<not> m_ssl c then failData o' c ''TLS encryption is not active'' (- 1)
     else if length plaintext > FRAME_MAX_PAYLOAD
     then failData o' c ''TLS plaintext exceeds one AA frame'' (- 1)
     else if plaintext = [] then (Complete [], c\<lparr>m_lastError := []\<rparr>)
     else (case write_all (ERR_clear_error o') (SSL_write o') plaintext (c_lib c) of
         (Some result, s) \<Rightarrow>
           failData o' (c\<lparr>c_lib := s\<rparr>) ''SSL_write failed'' (SSL_get_error o' s result)
       | (None, s) \<Rightarrow>
           (case readWriteBio o' (c\<lparr>c_lib := s\<rparr>) ''encrypted output BIO read failed'' of
              (Failed e, c') \<Rightarrow> (Failed e, c')
            | (Complete out, c') \<Rightarrow>
                if out = [] then failData o' c' ''SSL_write produced no encrypted bytes'' (- 1)
                else (Complete out, c'))))"

definition TLS_RECORD_HEADER_SIZE :: nat where
  "TLS_RECORD_HEADER_SIZE = 5"

function containsOnlyCompleteTlsRecords :: "bytes \<Rightarrow> bool" where
  "containsOnlyCompleteTlsRecords ct = (
     if ct = [] then True
     else if length ct < TLS_RECORD_HEADER_SIZE then False
     else (let recordLength = be_val (take 2 (drop 3 ct)) in
           if recordLength > length ct - TLS_RECORD_HEADER_SIZE then False
           else containsOnlyCompleteTlsRecords (drop (TLS_RECORD_HEADER_SIZE + recordLength) ct)))"
  by pat_completeness auto
termination
  by (relation "measure length") (auto simp: TLS_RECORD_HEADER_SIZE_def)

declare containsOnlyCompleteTlsRecords.simps [simp del]

text \<open>
  The reading loop of \<open>decrypt\<close>: \<open>Some\<close> the plaintext and the result of the last
  \<open>SSL_read\<close>; no value at all if OpenSSL delivers data for ever.
\<close>

partial_function (option) read_plain ::
  "'s openssl \<Rightarrow> bytes \<Rightarrow> 's \<Rightarrow> (int \<times> bytes \<times> 's) option" where
  "read_plain o' plaintext s = (
     let (result, bs, s') = SSL_read o' (ERR_clear_error o' s) 2048 in
     if result > 0 then read_plain o' (plaintext @ bs) s'
     else Some (SSL_get_error o' s' result, plaintext, s'))"

definition cryptor_decrypt ::
  "'s openssl \<Rightarrow> 's cryptor \<Rightarrow> bytes \<Rightarrow> int \<Rightarrow> (data_result \<times> 's cryptor) option" where
  "cryptor_decrypt o' c ciphertext frameLength = (
     if \<not> m_active c \<or> \<not> m_ssl c then Some (failData o' c ''TLS decryption is not active'' (- 1))
     else if \<not> m_readBio c then Some (failData o' c ''TLS input BIO is not initialized'' (- 1))
     else if ciphertext = [] then Some (failData o' c ''encrypted AA frame is empty'' (- 1))
     else if frameLength \<noteq> int (length ciphertext)
     then Some (failData o' c ''encrypted AA frame length mismatch'' (- 1))
     else if \<not> containsOnlyCompleteTlsRecords ciphertext
     then Some (failData o' c ''incomplete TLS record in encrypted AA frame'' (- 1))
     else (case write_all (ERR_clear_error o') (BIO_write o') ciphertext (c_lib c) of
         (Some _, s) \<Rightarrow> Some (failData o' (c\<lparr>c_lib := s\<rparr>) ''encrypted input BIO write failed'' (- 1))
       | (None, s) \<Rightarrow>
           map_option (\<lambda>(err, plaintext, s').
             let want = (err = SSL_ERROR_WANT_READ \<or> err = SSL_ERROR_WANT_WRITE) in
             if want \<and> plaintext \<noteq> []
             then (Complete plaintext, c\<lparr>c_lib := s', m_lastError := []\<rparr>)
             else failData o' (c\<lparr>c_lib := s'\<rparr>)
                    (if want then ''TLS record produced no application data''
                     else ''SSL_read failed'') err)
             (read_plain o' [] s)))"

section \<open>Errors are bounded and leave the endpoint consistent\<close>

lemma buildError_bounded: "length (fst (buildError o' ctx e s)) \<le> 1024"
  by (simp add: buildError_def Let_def split: prod.split)

text \<open>
  The endpoint is consistent when the BIOs exist exactly with the SSL object, it is active only
  with one, and its error text is bounded.
\<close>

definition cryptor_inv :: "'s cryptor \<Rightarrow> bool" where
  "cryptor_inv c \<longleftrightarrow> m_readBio c = m_ssl c \<and> m_writeBio c = m_ssl c \<and> m_ctx c = m_ssl c
     \<and> (m_active c \<longrightarrow> m_ssl c) \<and> length (m_lastError c) \<le> 1024"

lemma cryptor_inv_new: "cryptor_inv (cryptor_new lib)"
  by (simp add: cryptor_inv_def cryptor_new_def)

lemma failData_inv:
  "cryptor_inv c \<Longrightarrow> cryptor_inv (snd (failData o' c ctx e))"
  using buildError_bounded [of o' ctx e "c_lib c"]
  by (auto simp: failData_def cryptor_inv_def Let_def split: prod.splits)

lemma cryptor_deinit_inv:
  "cryptor_inv c \<Longrightarrow> cryptor_inv (cryptor_deinit o' c) \<and> \<not> m_ssl (cryptor_deinit o' c)
     \<and> \<not> m_active (cryptor_deinit o' c)"
  by (simp add: cryptor_inv_def cryptor_deinit_def Let_def)

lemma cryptor_init_inv:
  assumes "cryptor_inv c"
  shows "cryptor_inv (snd (cryptor_init o' c r cert key))"
    and "\<not> m_active (snd (cryptor_init o' c r cert key))"
    and "fst (cryptor_init o' c r cert key) = m_ssl (snd (cryptor_init o' c r cert key))"
proof -
  define d where "d = (cryptor_deinit o' c)\<lparr>m_lastError := []\<rparr>"
  have d: "cryptor_inv d" "\<not> m_ssl d"
    using cryptor_deinit_inv [OF assms] by (auto simp: d_def cryptor_inv_def)
  obtain f s where run: "run_init o' r cert key init_calls (c_lib d) = (f, s)" by fastforce
  have fl: "cryptor_inv (snd (failInitialization o' (d\<lparr>c_lib := s\<rparr>) msg))
      \<and> \<not> m_active (snd (failInitialization o' (d\<lparr>c_lib := s\<rparr>) msg))
      \<and> \<not> m_ssl (snd (failInitialization o' (d\<lparr>c_lib := s\<rparr>) msg))
      \<and> \<not> fst (failInitialization o' (d\<lparr>c_lib := s\<rparr>) msg)" for msg
    using d buildError_bounded [of o' msg "- 1" s]
    by (auto simp: failInitialization_def Let_def cryptor_inv_def cryptor_deinit_def split: prod.splits)
  have "cryptor_inv (snd (cryptor_init o' c r cert key)) \<and> \<not> m_active (snd (cryptor_init o' c r cert key))
    \<and> fst (cryptor_init o' c r cert key) = m_ssl (snd (cryptor_init o' c r cert key))"
    using run fl by (cases f) (simp_all add: cryptor_init_def Let_def d_def [symmetric] cryptor_inv_def)
  then show "cryptor_inv (snd (cryptor_init o' c r cert key))"
    and "\<not> m_active (snd (cryptor_init o' c r cert key))"
    and "fst (cryptor_init o' c r cert key) = m_ssl (snd (cryptor_init o' c r cert key))" by blast+
qed

lemma cryptor_doHandshake_inv:
  assumes "cryptor_inv c" and "cryptor_doHandshake o' c = (r, c')"
  shows "cryptor_inv c'" and "r = HsComplete \<longleftrightarrow> m_active c'"
  using assms buildError_bounded [of o' "''SSL_do_handshake failed''"]
  by (auto simp: cryptor_doHandshake_def cryptor_inv_def Let_def split: if_splits prod.splits)
     (metis fst_conv)

lemma cryptor_noerror_inv: "cryptor_inv c \<Longrightarrow> cryptor_inv (c\<lparr>m_lastError := []\<rparr>)"
  by (simp add: cryptor_inv_def)

lemma cryptor_lib_upd_inv: "cryptor_inv c \<Longrightarrow> cryptor_inv (c\<lparr>c_lib := s\<rparr>)"
  by (simp add: cryptor_inv_def)

lemma readWriteBio_inv: "cryptor_inv c \<Longrightarrow> cryptor_inv (snd (readWriteBio o' c ctx))"
  by (simp add: readWriteBio_def Let_def failData_inv cryptor_lib_upd_inv cryptor_noerror_inv
      split: prod.split option.split)

lemma cryptor_writeHandshakeBuffer_inv:
  assumes "cryptor_inv c" shows "cryptor_inv (snd (cryptor_writeHandshakeBuffer o' c data))"
proof -
  have "length e \<le> 1024" if "buildError o' ctx (- 1) s = (e, s')" for ctx s e s'
    using buildError_bounded [of o' ctx "- 1" s] that by simp
  then show ?thesis
    using assms by (auto simp: cryptor_writeHandshakeBuffer_def cryptor_inv_def Let_def
        split: prod.splits option.splits)
qed

lemma cryptor_encrypt_inv:
  assumes "cryptor_inv c" shows "cryptor_inv (snd (cryptor_encrypt o' c x))"
proof -
  have "cryptor_inv d" if "readWriteBio o' (c\<lparr>c_lib := s\<rparr>) ctx = (r, d)" for s ctx r d
    using readWriteBio_inv [OF cryptor_lib_upd_inv [OF assms], of o' s ctx] that by simp
  with assms show ?thesis
    by (auto simp: cryptor_encrypt_def failData_inv cryptor_lib_upd_inv cryptor_noerror_inv
        split: prod.splits option.splits data_result.splits)
qed

lemma cryptor_decrypt_pred_inv:
  assumes "cryptor_inv c"
  shows "pred_option (\<lambda>p. cryptor_inv (snd p)) (cryptor_decrypt o' c x n)"
proof -
  have "pred_option (\<lambda>p. cryptor_inv (snd p)) (map_option (\<lambda>(err, plaintext, s').
       let want = (err = SSL_ERROR_WANT_READ \<or> err = SSL_ERROR_WANT_WRITE) in
       if want \<and> plaintext \<noteq> [] then (Complete plaintext, c\<lparr>c_lib := s', m_lastError := []\<rparr>)
       else failData o' (c\<lparr>c_lib := s'\<rparr>) (if want then a else b) err) r)" for r a b
    using failData_inv [OF cryptor_lib_upd_inv [OF assms]] cryptor_noerror_inv [OF cryptor_lib_upd_inv [OF assms]]
    by (cases r) (simp_all add: Let_def split: prod.split)
  then show ?thesis
    using assms failData_inv [OF cryptor_lib_upd_inv [OF assms]]
    by (simp add: cryptor_decrypt_def failData_inv split: prod.split option.split)
qed

lemma cryptor_decrypt_inv:
  "cryptor_inv c \<Longrightarrow> cryptor_decrypt o' c x n = Some (r, c') \<Longrightarrow> cryptor_inv c'"
  using cryptor_decrypt_pred_inv [of c o' x n] by simp

section \<open>Two endpoints joined by a TLS connection\<close>

text \<open>
  What the class relies on from OpenSSL for an established connection without partial writes,
  as documented: \<open>SSL_write\<close> takes the whole buffer; the write BIO then holds complete records,
  fewer than 65536 bytes for one frame; the memory BIO of the peer takes them whole; its
  \<open>SSL_read\<close> delivers the plaintext in order, in pieces, then asks for more input. \<open>R\<close> relates
  the states of two ends that have exchanged the same records.
\<close>

inductive ssl_delivers :: "'s openssl \<Rightarrow> 's \<Rightarrow> bytes \<Rightarrow> 's \<Rightarrow> bool" for o' where
  dry: "SSL_read o' (ERR_clear_error o' s) 2048 = (result, bs, s') \<Longrightarrow> result \<le> 0 \<Longrightarrow>
    SSL_get_error o' s' result = SSL_ERROR_WANT_READ \<Longrightarrow> ssl_delivers o' s [] s'"
| piece: "SSL_read o' (ERR_clear_error o' s) 2048 = (int (length bs), bs, s1) \<Longrightarrow> bs \<noteq> [] \<Longrightarrow>
    ssl_delivers o' s1 rest s' \<Longrightarrow> ssl_delivers o' s (bs @ rest) s'"

definition tls_link :: "'a openssl \<Rightarrow> 'b openssl \<Rightarrow> ('a \<Rightarrow> 'b \<Rightarrow> bool) \<Rightarrow> bool" where
  "tls_link oa ob R \<longleftrightarrow> (\<forall>a b x. R a b \<longrightarrow> x \<noteq> [] \<longrightarrow> length x \<le> FRAME_MAX_PAYLOAD \<longrightarrow>
     (\<exists>a1 a2 b1 b2 ct.
        SSL_write oa (ERR_clear_error oa a) x = (int (length x), a1)
      \<and> BIO_ctrl_pending oa a1 = int (length ct)
      \<and> BIO_read oa (ERR_clear_error oa a1) (length ct) = (int (length ct), ct, a2)
      \<and> ct \<noteq> [] \<and> length ct < 65536 \<and> containsOnlyCompleteTlsRecords ct
      \<and> BIO_write ob (ERR_clear_error ob b) ct = (int (length ct), b1)
      \<and> ssl_delivers ob b1 x b2 \<and> R a2 b2))"

definition cryptors_linked ::
  "('a \<Rightarrow> 'b \<Rightarrow> bool) \<Rightarrow> 'a cryptor \<Rightarrow> 'b cryptor \<Rightarrow> bool" where
  "cryptors_linked R ca cb \<longleftrightarrow> cryptor_inv ca \<and> cryptor_inv cb \<and> m_active ca \<and> m_active cb
     \<and> R (c_lib ca) (c_lib cb)"

lemma read_plain_delivers:
  "ssl_delivers o' s x s' \<Longrightarrow> read_plain o' acc s = Some (SSL_ERROR_WANT_READ, acc @ x, s')"
proof (induction arbitrary: acc rule: ssl_delivers.induct)
  case (dry s result bs s')
  then show ?case by (subst read_plain.simps) simp
next
  case (piece s bs s1 rest s')
  then show ?case by (subst read_plain.simps) simp
qed

lemma write_all_whole:
  "data \<noteq> [] \<Longrightarrow> wr (clr s) data = (int (length data), s') \<Longrightarrow> write_all clr wr data s = (None, s')"
  by (subst write_all.simps) (simp add: write_all.simps [of clr wr "[]"])

lemma read_bio_whole:
  "n \<noteq> 0 \<Longrightarrow> BIO_read o' (ERR_clear_error o' s) n = (int n, ct, s') \<Longrightarrow>
    read_bio o' n [] s = (Some ct, s')"
  by (subst read_bio.simps) (simp add: read_bio.simps [of o' 0])

text \<open>Over such a connection a frame payload is encrypted and decrypted without loss.\<close>

lemma cryptor_link_transfer:
  assumes link: "tls_link oa ob R" and c: "cryptors_linked R ca cb"
    and x: "x \<noteq> []" "length x \<le> FRAME_MAX_PAYLOAD"
  shows "\<exists>ct ca' cb'. cryptor_encrypt oa ca x = (Complete ct, ca') \<and> ct \<noteq> [] \<and> length ct < 65536
    \<and> cryptor_decrypt ob cb ct (int (length ct)) = Some (Complete x, cb')
    \<and> cryptors_linked R ca' cb'"
proof -
  have inv: "cryptor_inv ca" "cryptor_inv cb" "m_active ca" "m_active cb" "R (c_lib ca) (c_lib cb)"
    using c by (auto simp: cryptors_linked_def)
  from link inv(5) x obtain a1 a2 b1 b2 ct where
    w: "SSL_write oa (ERR_clear_error oa (c_lib ca)) x = (int (length x), a1)"
      "BIO_ctrl_pending oa a1 = int (length ct)"
      "BIO_read oa (ERR_clear_error oa a1) (length ct) = (int (length ct), ct, a2)"
      "ct \<noteq> []" "length ct < 65536" "containsOnlyCompleteTlsRecords ct"
      "BIO_write ob (ERR_clear_error ob (c_lib cb)) ct = (int (length ct), b1)"
      "ssl_delivers ob b1 x b2" "R a2 b2"
    unfolding tls_link_def by blast
  have "cryptor_encrypt oa ca x = (Complete ct, ca\<lparr>c_lib := a2, m_lastError := []\<rparr>)"
    using inv w x by (simp add: cryptor_encrypt_def cryptor_inv_def readWriteBio_def
        write_all_whole [where clr = "ERR_clear_error oa" and wr = "SSL_write oa", OF x(1) w(1)] read_bio_whole [OF _ w(3)])
  moreover have "cryptor_decrypt ob cb ct (int (length ct)) =
      Some (Complete x, cb\<lparr>c_lib := b2, m_lastError := []\<rparr>)"
    using inv w x by (simp add: cryptor_decrypt_def cryptor_inv_def 
        write_all_whole [where clr = "ERR_clear_error ob" and wr = "BIO_write ob", OF w(4) w(7)]
        read_plain_delivers [OF w(8)])
  moreover have "cryptors_linked R (ca\<lparr>c_lib := a2, m_lastError := []\<rparr>)
      (cb\<lparr>c_lib := b2, m_lastError := []\<rparr>)"
    using inv w(9) by (simp add: cryptors_linked_def cryptor_inv_def)
  ultimately show ?thesis using w(4,5) by blast
qed

end
