(* ===== verification/Wire_Path.thy ===== *)
theory Wire_Path
  imports Frame_Assembler
begin

text \<open>
  From messages to bytes and back: the frames that the serializer builds for the messages of
  several channels, interleaved in any order, cut into reads in any way, come out of the
  parser and the assembler as the messages that went in.
\<close>

type_synonym message = "message_type \<times> encryption_type \<times> bytes"

definition channel_frames :: "byte \<Rightarrow> message list \<Rightarrow> frame list" where
  "channel_frames ch ms = concat (map (\<lambda>(msg, enc, payload). message_frames ch msg enc payload) ms)"

definition channel_bytes :: "byte \<Rightarrow> message list \<Rightarrow> bytes list" where
  "channel_bytes ch ms = concat (map (\<lambda>(msg, enc, payload). frame_serialize ch msg enc payload) ms)"

definition channel_events :: "byte \<Rightarrow> message list \<Rightarrow> assembly_event list" where
  "channel_events ch ms = map (\<lambda>(msg, enc, payload). MessageAssembled ch msg payload) ms"

text \<open>Messages that one channel may send when its share of the budget is \<open>b\<close> bytes.\<close>

definition messages_fit :: "nat \<Rightarrow> message list \<Rightarrow> bool" where
  "messages_fit b ms \<longleftrightarrow> list_all (\<lambda>(msg, enc, payload).
     length payload \<le> unat MAX_ASSEMBLED_MESSAGE_SIZE \<and>
     (length payload \<le> FRAME_MAX_PAYLOAD \<or> length payload \<le> b)) ms"

lemma max_size_u32: "unat MAX_ASSEMBLED_MESSAGE_SIZE = 16777216"
  by (simp add: MAX_ASSEMBLED_MESSAGE_SIZE_def)

lemma channel_bytes_frames:
  "messages_fit b ms \<Longrightarrow> channel_bytes ch ms = map frame_bytes (channel_frames ch ms)"
  by (induction ms)
    (auto simp: channel_bytes_def channel_frames_def messages_fit_def max_size_u32 frame_serialize_frames)

lemma rest_frames_props:
  "\<forall>f \<in> set (rest_frames ch msg enc payload).
     channelId (fst f) = ch \<and> frameType (fst f) \<noteq> First"
proof (induction ch msg enc payload rule: rest_frames.induct)
  case (1 ch msg enc payload)
  then show ?case by (auto simp: rest_frames.simps [of ch msg enc payload] frame_hdr_def)
qed

lemma message_frames_props:
  assumes "length payload \<le> FRAME_MAX_PAYLOAD \<or> length payload \<le> b" and "length payload < 2 ^ 32"
    and "f \<in> set (message_frames ch msg enc payload)"
  shows "channelId (fst f) = ch" and "frame_ok f"
    and "frameType (fst f) = First \<longrightarrow> unat (totalMessageSize (fst f)) \<le> b"
proof -
  show "frame_ok f" using assms(3) message_frames_ok by (auto simp: list_all_iff)
  show "channelId (fst f) = ch"
    using assms(3) rest_frames_props
    by (auto simp: message_frames_def frame_hdr_def split: if_splits)
  show "frameType (fst f) = First \<longrightarrow> unat (totalMessageSize (fst f)) \<le> b"
    using assms rest_frames_props
    by (fastforce simp: message_frames_def frame_hdr_def unat_len_u32 split: if_splits)
qed

lemma channel_frames_props:
  assumes "messages_fit b ms" and "f \<in> set (channel_frames ch ms)"
  shows "channelId (fst f) = ch \<and> frame_ok f \<and>
    (frameType (fst f) = First \<longrightarrow> unat (totalMessageSize (fst f)) \<le> b)"
proof -
  from assms(2) obtain msg enc payload where
    m: "(msg, enc, payload) \<in> set ms" "f \<in> set (message_frames ch msg enc payload)"
    by (auto simp: channel_frames_def)
  with assms(1) have "length payload \<le> FRAME_MAX_PAYLOAD \<or> length payload \<le> b" "length payload < 2 ^ 32"
    by (auto simp: messages_fit_def list_all_iff max_size_u32)
  from message_frames_props [OF this m(2)] show ?thesis by simp
qed

lemma chan_run_channel_frames:
  assumes "messages_fit b ms"
  shows "chan_run MAX_ASSEMBLED_MESSAGE_SIZE None (channel_frames ch ms) =
    Some (None, channel_events ch ms)"
  using assms
proof (induction ms)
  case Nil
  then show ?case by (simp add: channel_frames_def channel_events_def)
next
  case (Cons m ms)
  obtain msg enc payload where m: "m = (msg, enc, payload)" by (cases m)
  have "chan_run MAX_ASSEMBLED_MESSAGE_SIZE None (message_frames ch msg enc payload) =
      Some (None, [MessageAssembled ch msg payload])"
    using Cons.prems m by (intro chan_run_message_frames) (simp add: messages_fit_def)
  moreover have "chan_run MAX_ASSEMBLED_MESSAGE_SIZE None (channel_frames ch ms) =
      Some (None, channel_events ch ms)"
    using Cons by (simp add: messages_fit_def)
  ultimately have "chan_run MAX_ASSEMBLED_MESSAGE_SIZE None (message_frames ch msg enc payload @ channel_frames ch ms)
      = Some (None, [MessageAssembled ch msg payload] @ channel_events ch ms)"
    by (rule chan_run_append)
  then show ?case by (simp add: m channel_frames_def channel_events_def)
qed

text \<open>The byte strings tagged with their channels determine an interleaving of frames.\<close>

lemma interleaving_frames:
  assumes "\<And>c. map snd (filter (\<lambda>w. fst w = c) ws) = map frame_bytes (F c)"
    and "\<And>c f. f \<in> set (F c) \<Longrightarrow> channelId (fst f) = c"
  shows "\<exists>fs. map frame_bytes fs = map snd ws \<and> (\<forall>c. filter (on_channel c) fs = F c)"
  using assms
proof (induction ws arbitrary: F)
  case Nil
  then show ?case by simp
next
  case (Cons w ws)
  obtain c0 bs where w: "w = (c0, bs)" by (cases w)
  from Cons.prems(1) [of c0] obtain f rest where f: "F c0 = f # rest" "frame_bytes f = bs"
      "map snd (filter (\<lambda>w. fst w = c0) ws) = map frame_bytes rest"
    by (cases "F c0") (auto simp: w)
  have ch: "channelId (fst f) = c0" using Cons.prems(2) f by simp
  define G where "G = F(c0 := rest)"
  have g1: "map snd (filter (\<lambda>w. fst w = c) ws) = map frame_bytes (G c)" for c
    using Cons.prems(1) [of c] f by (auto simp: G_def w)
  have g2: "g \<in> set (G c) \<Longrightarrow> channelId (fst g) = c" for c g
    using Cons.prems(2) [of g c] f Cons.prems(2) [of g c0] by (auto simp: G_def split: if_splits)
  from Cons.IH [OF g1 g2] obtain fs where
    fs: "map frame_bytes fs = map snd ws" "\<forall>c. filter (on_channel c) fs = G c" by blast
  have "\<forall>c. filter (on_channel c) (f # fs) = F c"
    using fs(2) f ch by (auto simp: G_def on_channel_def)
  with fs(1) f w show ?case by (intro exI [of _ "f # fs"]) simp
qed

lemma interleaving_props:
  assumes "\<forall>c. filter (on_channel c) fs = channel_frames c (msgs c)"
    and "\<forall>c. messages_fit (B c) (msgs c)"
  shows "list_all frame_ok fs" and "frames_fit B fs"
proof -
  have mem: "f \<in> set (channel_frames (channelId (fst f)) (msgs (channelId (fst f))))"
    if "f \<in> set fs" for f
  proof -
    from that have "f \<in> set (filter (on_channel (channelId (fst f))) fs)" by simp
    with assms(1) show ?thesis by simp
  qed
  have "frame_ok f \<and> (frameType (fst f) = First \<longrightarrow>
      unat (totalMessageSize (fst f)) \<le> B (channelId (fst f)))" if "f \<in> set fs" for f
    using channel_frames_props [OF _ mem [OF that], of "B (channelId (fst f))"] assms(2) by auto
  then show "list_all frame_ok fs" and "frames_fit B fs"
    by (fastforce simp: list_all_iff frames_fit_def frame_ok_def)+
qed

text \<open>
  C2. Messages sent on any number of channels, each serialized by \<open>FrameSerializer\<close>, the
  frames of different channels interleaved in any order and the byte stream cut into reads in
  any way, are delivered by \<open>FrameParser\<close> and \<open>FrameAssembler\<close> exactly once, unchanged and in
  their channel's order, without an assembly failure and with nothing left over, when no
  message is over the message limit and the fragmented ones fit the aggregate budget.
\<close>

theorem wire_path_delivers:
  assumes share: "\<And>c. messages_fit (B c) (msgs c)"
    and budget: "(\<Sum>c \<in> UNIV. B c) \<le> unat MAX_IN_FLIGHT_ASSEMBLY_SIZE"
    and sent: "\<And>c. map snd (filter (\<lambda>w. fst w = c) ws) = channel_bytes c (msgs c)"
    and reads: "concat ds = concat (map snd ws)"
  shows "\<exists>p fs a evs. parser_feed parser_new ds = Some (p, fs)
    \<and> assembler_run assembler_default fs = (a, evs)
    \<and> (\<forall>c. filter (event_on c) evs = channel_events c (msgs c))
    \<and> \<not> list_ex is_failure evs
    \<and> m_partials a = Map.empty \<and> parser_abs p = (AtHeader, [])"
proof -
  have "map snd (filter (\<lambda>w. fst w = c) ws) = map frame_bytes (channel_frames c (msgs c))" for c
    using sent [of c] channel_bytes_frames [OF share] by simp
  then obtain fs where fs: "map frame_bytes fs = map snd ws"
      and per: "\<forall>c. filter (on_channel c) fs = channel_frames c (msgs c)"
    using interleaving_frames [of ws "\<lambda>c. channel_frames c (msgs c)"] channel_frames_props [OF share]
    by blast
  have ok: "list_all frame_ok fs" and fit: "frames_fit B fs"
    using interleaving_props [OF per] share by blast+
  have "parser_abs parser_new = (AtHeader, [])"
    by (simp add: parser_abs_def parser_new_def cb_list_new)
  then obtain p where p: "parser_feed parser_new ds = Some (p, fs)" "parser_abs p = (AtHeader, [])"
    using parser_feed_spec [OF parser_idle_new, of ds] wire_run_frames [OF ok] reads fs by auto
  have inv: "assembler_inv assembler_default"
    by (simp add: assembler_inv_def assembler_default_def assembler_new_def reserved_def)
  have within: "within B assembler_default"
    using budget by (simp add: within_def assembler_default_def assembler_new_def)
  have "chan_run (m_maxMessageSize assembler_default) (m_partials assembler_default c)
      (filter (on_channel c) fs) = Some (None, channel_events c (msgs c))" for c
    using per chan_run_channel_frames [OF share]
    by (simp add: assembler_default_def assembler_new_def)
  from assembler_run_independent [OF inv within fit this] obtain a evs where
    "assembler_run assembler_default fs = (a, evs)" "\<forall>c. m_partials a c = None"
    "\<forall>c. filter (event_on c) evs = channel_events c (msgs c)" "\<not> list_ex is_failure evs" by blast
  with p show ?thesis by (auto intro!: exI)
qed

text \<open>
  A video message of 20000 bytes in two frames, with a touch message between them.
\<close>

definition demo_messages :: "byte \<Rightarrow> message list" where
  "demo_messages c = (if c = 3 then [(Specific, Plain, replicate 20000 0)]
     else if c = 1 then [(Specific, Plain, [128, 1])] else [])"

lemma demo_video:
  "frame_serialize 3 Specific Plain (replicate 20000 0) =
     [hd (frame_serialize 3 Specific Plain (replicate 20000 0)),
      last (frame_serialize 3 Specific Plain (replicate 20000 0))]"
  by (simp add: frame_serialize_def FRAME_MAX_PAYLOAD_def serialize_rest.simps)

theorem wire_path_delivers_witness:
  "\<exists>p fs a evs. parser_feed parser_new
      [hd (frame_serialize 3 Specific Plain (replicate 20000 0))
         @ hd (frame_serialize 1 Specific Plain [128, 1]),
       last (frame_serialize 3 Specific Plain (replicate 20000 0))] = Some (p, fs)
    \<and> assembler_run assembler_default fs = (a, evs)
    \<and> (\<forall>c. filter (event_on c) evs = channel_events c (demo_messages c))
    \<and> \<not> list_ex is_failure evs
    \<and> m_partials a = Map.empty \<and> parser_abs p = (AtHeader, [])"
proof (rule wire_path_delivers [where B = "\<lambda>c. if c = 3 then 20000 else 0"
    and ws = "[(3, hd (frame_serialize 3 Specific Plain (replicate 20000 0))),
      (1, hd (frame_serialize 1 Specific Plain [128, 1])),
      (3, last (frame_serialize 3 Specific Plain (replicate 20000 0)))]"])
  show "messages_fit (if c = 3 then 20000 else 0) (demo_messages c)" for c
    by (simp add: messages_fit_def demo_messages_def max_size_u32 FRAME_MAX_PAYLOAD_def)
  show "(\<Sum>c \<in> UNIV. if (c :: byte) = 3 then 20000 else 0) \<le> unat MAX_IN_FLIGHT_ASSEMBLY_SIZE"
    by (simp add: MAX_IN_FLIGHT_ASSEMBLY_SIZE_def)
  show "map snd (filter (\<lambda>w. fst w = c)
      [(3, hd (frame_serialize 3 Specific Plain (replicate 20000 0))),
       (1, hd (frame_serialize 1 Specific Plain [128, 1])),
       (3, last (frame_serialize 3 Specific Plain (replicate 20000 0)))]) =
      channel_bytes c (demo_messages c)" for c
    using demo_video
    by (simp add: channel_bytes_def demo_messages_def) (simp add: frame_serialize_def FRAME_MAX_PAYLOAD_def)
qed simp

end
