(* ===== verification/Messenger.thy ===== *)
theory Messenger
  imports Cryptor Wire_Path "HOL-Library.Monad_Syntax"
begin

text \<open>
  \<open>oaa::Messenger\<close> (\<open>Messenger.cpp\<close>) with \<open>EncryptionPolicy\<close>: the component that joins
  transport, frame parser, assembler and TLS endpoint into a message service.

  Signals are direct connections, so an \<open>emit\<close> runs the connected slots before it returns,
  and they may call back into the messenger. \<open>env_obs\<close> is what they do to the state, an
  arbitrary function; \<open>None\<close> stands for a slot, or a call, that does not return. The field
  \<open>mg_log\<close> records the emitted signals and the frames handed to the transport, in order.
\<close>

section \<open>State and environment\<close>

datatype protocol_error =
    AssemblyError assembly_error
  | NoMessageId byte

datatype messenger_event =
    MessageReceived byte u16 bytes nat message_type
  | MessageSent byte u16 bytes
  | HandshakeComplete
  | HandshakeFailed string
  | TlsFailed string
  | ProtocolFailed protocol_error
  | TransportError string
  | TransportWrite bytes

record 's messenger =
  mg_parser :: frame_parser
  mg_assembler :: frame_assembler
  mg_cryptor :: "'s cryptor"
  mg_sendQueue :: "bytes list list"
  mg_sending :: bool
  mg_started :: bool
  mg_handshakeFailureEmitted :: bool
  mg_tlsFailureEmitted :: bool
  mg_protocolFailureEmitted :: bool
  mg_lifecycleGeneration :: u64
  mg_log :: "messenger_event list"

record 's messenger_env =
  env_ssl :: "'s openssl"
  env_certificate :: bytes
  env_privateKey :: bytes
  env_obs :: "messenger_event \<Rightarrow> 's messenger \<Rightarrow> 's messenger option"

definition mg_emit :: "'s messenger_env \<Rightarrow> messenger_event \<Rightarrow> 's messenger \<Rightarrow> 's messenger option" where
  "mg_emit env e m = env_obs env e (m\<lparr>mg_log := mg_log m @ [e]\<rparr>)"

definition messenger_new :: "'s \<Rightarrow> 's messenger" where
  "messenger_new lib = \<lparr>mg_parser = parser_new, mg_assembler = assembler_default,
     mg_cryptor = cryptor_new lib, mg_sendQueue = [], mg_sending = False, mg_started = False,
     mg_handshakeFailureEmitted = False, mg_tlsFailureEmitted = False,
     mg_protocolFailureEmitted = False, mg_lifecycleGeneration = 0, mg_log = []\<rparr>"

text \<open>
  The connections made by \<open>start\<close> and removed by \<open>stop\<close> exist exactly while \<open>mg_started\<close>.
\<close>

definition mg_start :: "'s messenger \<Rightarrow> 's messenger" where
  "mg_start m = (if mg_started m then m
     else m\<lparr>mg_parser := parser_reset (mg_parser m), mg_assembler := assembler_reset (mg_assembler m),
            mg_sendQueue := [], mg_sending := False, mg_handshakeFailureEmitted := False,
            mg_tlsFailureEmitted := False, mg_protocolFailureEmitted := False, mg_started := True\<rparr>)"

definition mg_stop :: "'s messenger_env \<Rightarrow> 's messenger \<Rightarrow> 's messenger" where
  "mg_stop env m = m\<lparr>mg_lifecycleGeneration := mg_lifecycleGeneration m + 1, mg_started := False,
     mg_parser := parser_reset (mg_parser m), mg_assembler := assembler_reset (mg_assembler m),
     mg_cryptor := cryptor_deinit (env_ssl env) (mg_cryptor m),
     mg_handshakeFailureEmitted := False, mg_tlsFailureEmitted := False,
     mg_protocolFailureEmitted := False, mg_sendQueue := [], mg_sending := False\<rparr>"

definition mg_isEncrypted :: "'s messenger \<Rightarrow> bool" where
  "mg_isEncrypted m = m_active (mg_cryptor m)"

section \<open>Failures\<close>

definition failHandshake :: "'s messenger_env \<Rightarrow> string \<Rightarrow> 's messenger \<Rightarrow> 's messenger option" where
  "failHandshake env msg m = (if mg_handshakeFailureEmitted m then Some m
     else mg_emit env (HandshakeFailed (take 1024 msg)) (m\<lparr>mg_handshakeFailureEmitted := True\<rparr>))"

definition failTls :: "'s messenger_env \<Rightarrow> string \<Rightarrow> 's messenger \<Rightarrow> 's messenger option" where
  "failTls env msg m = (if mg_tlsFailureEmitted m then Some m
     else mg_emit env (TlsFailed (take 1024 msg))
            (m\<lparr>mg_tlsFailureEmitted := True, mg_sendQueue := []\<rparr>))"

text \<open>The texts of the protocol errors are short, so \<open>left(1024)\<close> keeps them.\<close>

definition failProtocol :: "'s messenger_env \<Rightarrow> protocol_error \<Rightarrow> 's messenger \<Rightarrow> 's messenger option" where
  "failProtocol env e m = (if mg_protocolFailureEmitted m then Some m
     else mg_emit env (ProtocolFailed e)
            (m\<lparr>mg_protocolFailureEmitted := True, mg_sendQueue := [],
               mg_assembler := assembler_reset (mg_assembler m)\<rparr>))"

section \<open>Sending\<close>

definition shouldEncrypt :: "byte \<Rightarrow> u16 \<Rightarrow> bool \<Rightarrow> bool" where
  "shouldEncrypt ch mid sslActive =
     (if \<not> sslActive then False
      else if ch = 0 \<and> mid \<in> set [0x0001, 0x0002, 0x0003, 0x0004, 0x000b, 0x000c] then False
      else True)"

definition ChannelId_Input :: byte where "ChannelId_Input = 1"

text \<open>
  The frames of one queue item, with the checks before and after each write; the flag says
  that the code returned from inside the loop.
\<close>

fun write_frames :: "'s messenger_env \<Rightarrow> u64 \<Rightarrow> bytes list \<Rightarrow> 's messenger \<Rightarrow> (bool \<times> 's messenger) option"
where
  "write_frames env generation [] m = Some (False, m)"
| "write_frames env generation (frame # frames) m = (
     if \<not> mg_started m \<or> generation \<noteq> mg_lifecycleGeneration m then Some (True, m)
     else do {
       m' \<leftarrow> mg_emit env (TransportWrite frame) m;
       if \<not> mg_started m' \<or> generation \<noteq> mg_lifecycleGeneration m' then Some (True, m')
       else write_frames env generation frames m'
     })"

partial_function (option) drain_queue ::
  "'s messenger_env \<Rightarrow> u64 \<Rightarrow> 's messenger \<Rightarrow> (bool \<times> 's messenger) option" where
  "drain_queue env generation m = (
     if mg_started m \<and> generation = mg_lifecycleGeneration m \<and> mg_sendQueue m \<noteq> []
     then do {
       r \<leftarrow> write_frames env generation (hd (mg_sendQueue m)) (m\<lparr>mg_sendQueue := tl (mg_sendQueue m)\<rparr>);
       if fst r then Some r else drain_queue env generation (snd r)
     }
     else Some (False, m))"

definition processSendQueue :: "'s messenger_env \<Rightarrow> 's messenger \<Rightarrow> 's messenger option" where
  "processSendQueue env m = (
     if mg_sending m then Some m
     else do {
       r \<leftarrow> drain_queue env (mg_lifecycleGeneration m) (m\<lparr>mg_sending := True\<rparr>);
       Some (if fst r then snd r
             else if mg_lifecycleGeneration m = mg_lifecycleGeneration (snd r)
             then (snd r)\<lparr>mg_sending := False\<rparr> else snd r)
     })"

text \<open>The encryption of one frame: the payload is replaced, the size field rewritten.\<close>

definition encrypt_frame ::
  "'s openssl \<Rightarrow> 's cryptor \<Rightarrow> bytes \<Rightarrow> ((string + bytes) \<times> 's cryptor) option" where
  "encrypt_frame o' c frame = do {
     hdr \<leftarrow> header_parse (take 2 frame);
     let headerLen = 2 + sizeFieldLength (frameType hdr);
     Some (case cryptor_encrypt o' c (drop headerLen frame) of
         (Failed e, c') \<Rightarrow> (Inl e, c')
       | (Complete ct, c') \<Rightarrow>
           (Inr (take 2 frame
             @ be_bytes 2 (unat (of_nat (length ct) :: u16))
             @ (if frameType hdr = First then take 4 (drop 4 (take headerLen frame)) else [])
             @ ct), c'))
   }"

fun encrypt_frames ::
  "'s openssl \<Rightarrow> 's cryptor \<Rightarrow> bytes list \<Rightarrow> ((string + bytes list) \<times> 's cryptor) option" where
  "encrypt_frames o' c [] = Some (Inr [], c)"
| "encrypt_frames o' c (f # fs) = do {
     (r, c') \<leftarrow> encrypt_frame o' c f;
     (case r of
        Inl e \<Rightarrow> Some (Inl e, c')
      | Inr f' \<Rightarrow> do {
          (rs, c'') \<leftarrow> encrypt_frames o' c' fs;
          Some (case rs of Inl e \<Rightarrow> Inl e | Inr fs' \<Rightarrow> Inr (f' # fs'), c'')
        })
   }"

definition msgType_of :: "byte \<Rightarrow> u16 \<Rightarrow> message_type" where
  "msgType_of ch mid = (if ch = 0 then Specific else if mid = 0x0008 then Control else Specific)"

definition fullPayload :: "u16 \<Rightarrow> bytes \<Rightarrow> bytes" where
  "fullPayload mid payload = be_bytes 2 (unat mid) @ payload"

definition enqueue_frames :: "byte \<Rightarrow> bytes list \<Rightarrow> 's messenger \<Rightarrow> 's messenger" where
  "enqueue_frames ch frames m = m\<lparr>mg_sendQueue :=
     (if ch = ChannelId_Input then frames # mg_sendQueue m else mg_sendQueue m @ [frames])\<rparr>"

definition mg_sendMessage ::
  "'s messenger_env \<Rightarrow> byte \<Rightarrow> u16 \<Rightarrow> bytes \<Rightarrow> 's messenger \<Rightarrow> 's messenger option" where
  "mg_sendMessage env ch mid payload m = (
     if \<not> mg_started m then Some m
     else if mg_tlsFailureEmitted m \<or> mg_protocolFailureEmitted m then Some m
     else do {
       m1 \<leftarrow> mg_emit env (MessageSent ch mid payload) m;
       if \<not> mg_started m1 \<or> mg_lifecycleGeneration m \<noteq> mg_lifecycleGeneration m1 then Some m1
       else let encType = (if shouldEncrypt ch mid (m_active (mg_cryptor m1)) then Encrypted else Plain);
                frames = frame_serialize ch (msgType_of ch mid) encType (fullPayload mid payload)
            in if encType = Encrypted
               then do {
                 (r, c) \<leftarrow> encrypt_frames (env_ssl env) (mg_cryptor m1) frames;
                 (case r of
                    Inl e \<Rightarrow> failTls env e (m1\<lparr>mg_cryptor := c\<rparr>)
                  | Inr frames' \<Rightarrow>
                      processSendQueue env (enqueue_frames ch frames' (m1\<lparr>mg_cryptor := c\<rparr>)))
               }
               else processSendQueue env (enqueue_frames ch frames m1)
     })"

definition mg_sendRaw ::
  "'s messenger_env \<Rightarrow> byte \<Rightarrow> bytes \<Rightarrow> frame_type \<Rightarrow> message_type \<Rightarrow> encryption_type \<Rightarrow> u32
     \<Rightarrow> 's messenger \<Rightarrow> 's messenger option" where
  "mg_sendRaw env ch data frmType msgType encType totalSize m = (
     if \<not> mg_started m then Some m
     else if length data > 65535 then Some m
     else if frmType = First
          \<and> (totalSize < 2 \<or> totalSize \<le> of_nat (length data) \<or> totalSize > MAX_ASSEMBLED_MESSAGE_SIZE)
     then Some m
     else if frmType \<noteq> First \<and> totalSize \<noteq> 0 then Some m
     else if mg_tlsFailureEmitted m \<or> mg_protocolFailureEmitted m then Some m
     else let header = \<lparr>channelId = ch, frameType = frmType, encryptionType = encType,
                 messageType = msgType, totalMessageSize = 0\<rparr>;
              frame = header_serialize header
                @ be_bytes 2 (unat (of_nat (length data) :: u16))
                @ (if frmType = First then be_bytes 4 (unat totalSize) else [])
                @ data
          in processSendQueue env (m\<lparr>mg_sendQueue := mg_sendQueue m @ [[frame]]\<rparr>))"

section \<open>The handshake\<close>

definition driveHandshake :: "'s messenger_env \<Rightarrow> 's messenger \<Rightarrow> 's messenger option" where
  "driveHandshake env m = (
     let (result, c) = cryptor_doHandshake (env_ssl env) (mg_cryptor m);
         handshakeError = (if result = HsFailed then m_lastError c else []);
         (outgoing, c') = cryptor_readHandshakeBuffer (env_ssl env) c;
         m1 = m\<lparr>mg_cryptor := c'\<rparr>
     in case outgoing of
          Failed e \<Rightarrow> failHandshake env e m1
        | Complete data \<Rightarrow> do {
            m2 \<leftarrow> (if data \<noteq> [] then mg_sendMessage env 0 0x0003 data m1 else Some m1);
            (case result of
               HsComplete \<Rightarrow> mg_emit env HandshakeComplete m2
             | HsFailed \<Rightarrow> failHandshake env handshakeError m2
             | HsWantIo \<Rightarrow> Some m2)
          })"

definition handleHandshakeData :: "'s messenger_env \<Rightarrow> bytes \<Rightarrow> 's messenger \<Rightarrow> 's messenger option" where
  "handleHandshakeData env data m = (
     let (ok, c) = cryptor_writeHandshakeBuffer (env_ssl env) (mg_cryptor m) data;
         m1 = m\<lparr>mg_cryptor := c\<rparr>
     in if \<not> ok then failHandshake env (m_lastError c) m1 else driveHandshake env m1)"

definition mg_startHandshake :: "'s messenger_env \<Rightarrow> 's messenger \<Rightarrow> 's messenger option" where
  "mg_startHandshake env m = (
     let (ok, c) = cryptor_init (env_ssl env) (mg_cryptor m) Client
                     (env_certificate env) (env_privateKey env);
         m1 = m\<lparr>mg_handshakeFailureEmitted := False, mg_cryptor := c\<rparr>
     in if \<not> ok then failHandshake env (m_lastError c) m1 else driveHandshake env m1)"

section \<open>Receiving\<close>

definition onMessageAssembled ::
  "'s messenger_env \<Rightarrow> byte \<Rightarrow> message_type \<Rightarrow> bytes \<Rightarrow> 's messenger \<Rightarrow> 's messenger option" where
  "onMessageAssembled env ch mt payload m = (
     if length payload < 2 then failProtocol env (NoMessageId ch) m
     else let mid = of_nat (be_val (take 2 payload)) :: u16 in
       if ch = 0 \<and> mid = 0x0003 \<and> \<not> m_active (mg_cryptor m)
       then handleHandshakeData env (drop 2 payload) m
       else mg_emit env (MessageReceived ch mid payload 2 mt) m)"

definition mg_assemble ::
  "'s messenger_env \<Rightarrow> frame_header \<Rightarrow> bytes \<Rightarrow> 's messenger \<Rightarrow> 's messenger option" where
  "mg_assemble env header payload m = (
     let (a, ev) = assembler_onFrame (mg_assembler m) header payload;
         m1 = m\<lparr>mg_assembler := a\<rparr>
     in case ev of
          None \<Rightarrow> Some m1
        | Some (MessageAssembled ch mt full) \<Rightarrow> onMessageAssembled env ch mt full m1
        | Some (AssemblyFailed e) \<Rightarrow> failProtocol env (AssemblyError e) m1)"

definition onFrameParsed ::
  "'s messenger_env \<Rightarrow> frame_header \<Rightarrow> bytes \<Rightarrow> 's messenger \<Rightarrow> 's messenger option" where
  "onFrameParsed env header framePayload m = (
     if mg_tlsFailureEmitted m \<or> mg_protocolFailureEmitted m then Some m
     else if encryptionType header = Encrypted
     then do {
       (r, c) \<leftarrow> cryptor_decrypt (env_ssl env) (mg_cryptor m) framePayload (int (length framePayload));
       (case r of
          Failed e \<Rightarrow> failTls env e (m\<lparr>mg_cryptor := c\<rparr>)
        | Complete payload \<Rightarrow> mg_assemble env header payload (m\<lparr>mg_cryptor := c\<rparr>))
     }
     else mg_assemble env header framePayload m)"

text \<open>
  The loop of the parser with \<open>frameParsed\<close> connected: a slot may stop or restart the
  messenger, which resets the parser under the loop.
\<close>

partial_function (option) mg_pump :: "'s messenger_env \<Rightarrow> 's messenger \<Rightarrow> 's messenger option" where
  "mg_pump env m = (case parser_step (mg_parser m) of
     None \<Rightarrow> Some m
   | Some r \<Rightarrow> (case snd r of
       None \<Rightarrow> mg_pump env (m\<lparr>mg_parser := fst r\<rparr>)
     | Some fr \<Rightarrow> do {
         m' \<leftarrow> (if mg_started m then onFrameParsed env (fst fr) (snd fr) (m\<lparr>mg_parser := fst r\<rparr>)
                else Some (m\<lparr>mg_parser := fst r\<rparr>));
         mg_pump env m'
       }))"

definition mg_onData :: "'s messenger_env \<Rightarrow> bytes \<Rightarrow> 's messenger \<Rightarrow> 's messenger option" where
  "mg_onData env data m = (if \<not> mg_started m then Some m
     else do {
       b \<leftarrow> cb_append (m_buffer (mg_parser m)) data;
       mg_pump env (m\<lparr>mg_parser := (mg_parser m)\<lparr>m_buffer := b\<rparr>\<rparr>)
     })"

definition mg_onTransportError :: "'s messenger_env \<Rightarrow> string \<Rightarrow> 's messenger \<Rightarrow> 's messenger option" where
  "mg_onTransportError env msg m =
     (if mg_started m then mg_emit env (TransportError msg) m else Some m)"

end
