(* ===== verification/Secure_Link.thy ===== *)
theory Secure_Link
  imports Messenger
begin

text \<open>
  Two messengers joined by a byte stream and a TLS connection: what one sends, the other
  receives, once, unchanged and in order, whether a message travels in the clear or encrypted.
\<close>

section \<open>Assembling one message\<close>

lemma assembler_run_message:
  assumes inv: "assembler_inv a" and empty: "m_partials a = Map.empty"
    and lim: "m_maxMessageSize a = MAX_ASSEMBLED_MESSAGE_SIZE" "m_maxAggregateSize a = MAX_IN_FLIGHT_ASSEMBLY_SIZE"
    and len: "length payload \<le> unat MAX_ASSEMBLED_MESSAGE_SIZE"
  shows "\<exists>a'. assembler_run a (message_frames ch msg enc payload) = (a', [MessageAssembled ch msg payload])
    \<and> assembler_inv a' \<and> m_partials a' = Map.empty \<and> m_maxMessageSize a' = MAX_ASSEMBLED_MESSAGE_SIZE
    \<and> m_maxAggregateSize a' = MAX_IN_FLIGHT_ASSEMBLY_SIZE"
proof -
  let ?fs = "message_frames ch msg enc payload"
  let ?B = "\<lambda>c. if c = ch then unat MAX_ASSEMBLED_MESSAGE_SIZE else 0"
  have fs: "channelId (fst f) = ch \<and> frame_ok f \<and>
      (frameType (fst f) = First \<longrightarrow> unat (totalMessageSize (fst f)) \<le> unat MAX_ASSEMBLED_MESSAGE_SIZE)"
    if "f \<in> set ?fs" for f
    using message_frames_props [OF _ _ that, of "unat MAX_ASSEMBLED_MESSAGE_SIZE"] len by (simp add: max_size_u32)
  have fil: "filter (on_channel c) ?fs = (if c = ch then ?fs else [])" for c
    using fs by (auto simp: on_channel_def filter_empty_conv filter_id_conv)
  have w: "within ?B a"
    using empty lim by (simp add: within_def max_size_u32 MAX_IN_FLIGHT_ASSEMBLY_SIZE_def)
  have fit: "frames_fit ?B ?fs"
    unfolding frames_fit_def list_all_iff
  proof
    fix f assume "f \<in> set ?fs"
    from fs [OF this] show "length (snd f) < 2 ^ 32 \<and> (frameType (fst f) = First \<longrightarrow>
        unat (totalMessageSize (fst f)) \<le> ?B (channelId (fst f)))"
      by (simp add: frame_ok_def)
  qed
  have chan: "chan_run (m_maxMessageSize a) (m_partials a c) (filter (on_channel c) ?fs) =
      Some (None, if c = ch then [MessageAssembled ch msg payload] else [])" for c
    using chan_run_message_frames [of payload MAX_ASSEMBLED_MESSAGE_SIZE ch msg enc] len
    by (simp add: fil lim empty)
  obtain a' evs where run: "assembler_run a ?fs = (a', evs)" "\<forall>c. m_partials a' c = None"
      and evs: "\<forall>c. filter (event_on c) evs = (if c = ch then [MessageAssembled ch msg payload] else [])"
        "\<not> list_ex is_failure evs"
    using assembler_run_independent [OF inv w fit chan] by blast
  have all: "event_on ch e" if "e \<in> set evs" for e
  proof (cases e)
    case (MessageAssembled c mt pl)
    then have "e \<in> set (filter (event_on c) evs)" using that by simp
    with evs(1) show ?thesis by (auto split: if_splits)
  next
    case (AssemblyFailed x)
    with evs(2) that show ?thesis by (auto simp: list_ex_iff)
  qed
  then have "filter (event_on ch) evs = evs" by (simp add: filter_id_conv)
  with evs(1) have "evs = [MessageAssembled ch msg payload]" by metis
  moreover have "list_all (\<lambda>f. length (snd f) < 2 ^ 32) ?fs"
    using fs by (fastforce simp: list_all_iff frame_ok_def)
  then have "assembler_inv a'" using assembler_run_inv [OF inv] run(1) by (metis fst_conv)
  ultimately show ?thesis
    using run assembler_run_sizes [of a ?fs] lim by (auto simp: fun_eq_iff)
qed

lemma assembler_run_append:
  "assembler_run a (fs @ gs) = (let (a', es) = assembler_run a fs; (a'', es') = assembler_run a' gs
     in (a'', es @ es'))"
  by (induction a fs rule: assembler_run.induct) (auto simp: Let_def split: prod.splits option.splits)

section \<open>Sealing and opening frames\<close>

text \<open>
  \<open>opens o' c ws fs c'\<close>: the receiving endpoint turns the frames \<open>ws\<close> of the wire, in order, into
  the plaintext frames \<open>fs\<close>.
\<close>

inductive opens :: "'s openssl \<Rightarrow> 's cryptor \<Rightarrow> frame list \<Rightarrow> frame list \<Rightarrow> 's cryptor \<Rightarrow> bool" for o' where
  opens_Nil: "opens o' c [] [] c"
| opens_Plain: "encryptionType h = Plain \<Longrightarrow> opens o' c ws fs c' \<Longrightarrow>
    opens o' c ((h, x) # ws) ((h, x) # fs) c'"
| opens_Encrypted: "encryptionType h = Encrypted \<Longrightarrow>
    cryptor_decrypt o' c ct (int (length ct)) = Some (Complete x, c1) \<Longrightarrow>
    m_active c1 \<Longrightarrow> opens o' c1 ws fs c' \<Longrightarrow>
    opens o' c ((h, ct) # ws) ((h, x) # fs) c'"

inductive_cases opens_NilE: "opens o' c [] fs c'"
inductive_cases opens_ConsE: "opens o' c ((h, x) # ws) fs c'"

lemma opens_append:
  "opens o' c ws fs c1 \<Longrightarrow> opens o' c1 ws' fs' c2 \<Longrightarrow> opens o' c (ws @ ws') (fs @ fs') c2"
  by (induction rule: opens.induct) (auto intro: opens.intros)

lemma opens_appendD:
  assumes "opens o' c vs gs c2" and "vs = ws @ ws'" and "m_active c"
  shows "\<exists>fs fs' c1. gs = fs @ fs' \<and> opens o' c ws fs c1 \<and> opens o' c1 ws' fs' c2 \<and> m_active c1"
  using assms
proof (induction arbitrary: ws rule: opens.induct)
  case (opens_Nil c)
  then show ?case by (auto intro: opens.intros)
next
  case (opens_Plain h c vs fs c' x)
  then show ?case
  proof (cases ws)
    case Nil
    with opens_Plain show ?thesis using opens.opens_Nil opens.opens_Plain [OF opens_Plain.hyps] by fastforce
  next
    case (Cons w us)
    with opens_Plain.prems have w: "w = (h, x)" "vs = us @ ws'" by auto
    from opens_Plain.IH [OF w(2) opens_Plain.prems(2)] obtain f1 f2 c1 where
      "fs = f1 @ f2" "opens o' c us f1 c1" "opens o' c1 ws' f2 c'" "m_active c1" by blast
    then show ?thesis
      unfolding Cons w by (intro exI [of _ "(h, x) # f1"] exI [of _ f2] exI [of _ c1])
        (simp add: opens.opens_Plain opens_Plain.hyps(1))
  qed
next
  case (opens_Encrypted h c ct x c1 vs fs c')
  then show ?case
  proof (cases ws)
    case Nil
    with opens_Encrypted show ?thesis
      using opens.opens_Nil opens.opens_Encrypted [OF opens_Encrypted.hyps] by fastforce
  next
    case (Cons w us)
    with opens_Encrypted.prems have w: "w = (h, ct)" "vs = us @ ws'" by auto
    from opens_Encrypted.IH [OF w(2) opens_Encrypted.hyps(3)] obtain f1 f2 c3 where
      "fs = f1 @ f2" "opens o' c1 us f1 c3" "opens o' c3 ws' f2 c'" "m_active c3" by blast
    then show ?thesis
      unfolding Cons w by (intro exI [of _ "(h, x) # f1"] exI [of _ f2] exI [of _ c3])
        (simp add: opens.opens_Encrypted [OF opens_Encrypted.hyps(1-3)])
  qed
qed

lemma opens_plain_frames:
  "list_all (\<lambda>f. encryptionType (fst f) = Plain) fs \<Longrightarrow> opens o' c fs fs c"
  by (induction fs) (auto intro: opens.intros)

text \<open>The frame that \<open>sendMessage\<close> rebuilds around the ciphertext is the frame of its parts.\<close>

lemma encrypt_frame_bytes:
  assumes ok: "frameType h \<noteq> First \<longrightarrow> totalMessageSize h = 0"
    and enc: "cryptor_encrypt o' c x = (Complete ct, c')"
  shows "encrypt_frame o' c (frame_bytes (h, x)) = Some (Inr (frame_bytes (h, ct)), c')"
  using enc header_parse_serialize [of h "[]"]
  by (cases "frameType h = First")
    (simp_all add: encrypt_frame_def frame_bytes_def buildFrame_def sizeFieldLength_def
      del: be_bytes.simps)

definition sealable :: "frame \<Rightarrow> bool" where
  "sealable f \<longleftrightarrow> encryptionType (fst f) = Encrypted \<and> snd f \<noteq> [] \<and> length (snd f) \<le> FRAME_MAX_PAYLOAD
     \<and> (frameType (fst f) \<noteq> First \<longrightarrow> totalMessageSize (fst f) = 0)"

lemma encrypt_frames_opens:
  assumes "tls_link oa ob R" and "cryptors_linked R ca cb" and "list_all sealable fs"
  shows "\<exists>ws ca' cb'. encrypt_frames oa ca (map frame_bytes fs) = Some (Inr (map frame_bytes ws), ca')
    \<and> opens ob cb ws fs cb' \<and> cryptors_linked R ca' cb' \<and> list_all frame_ok ws"
  using assms(2,3)
proof (induction fs arbitrary: ca cb)
  case Nil
  then show ?case by (auto intro!: exI opens_Nil)
next
  case (Cons f fs)
  obtain h x where f: "f = (h, x)" by (cases f)
  have s: "encryptionType h = Encrypted" "x \<noteq> []" "length x \<le> FRAME_MAX_PAYLOAD"
      "frameType h \<noteq> First \<longrightarrow> totalMessageSize h = 0"
    using Cons.prems(2) f by (simp_all add: sealable_def)
  from cryptor_link_transfer [OF assms(1) Cons.prems(1) s(2,3)] obtain ct ca1 cb1 where
    t: "cryptor_encrypt oa ca x = (Complete ct, ca1)" "length ct < 65536"
      "cryptor_decrypt ob cb ct (int (length ct)) = Some (Complete x, cb1)" "cryptors_linked R ca1 cb1"
    by blast
  from Cons.IH [OF t(4)] Cons.prems(2) obtain ws ca2 cb2 where
    ws: "encrypt_frames oa ca1 (map frame_bytes fs) = Some (Inr (map frame_bytes ws), ca2)"
      "opens ob cb1 ws fs cb2" "cryptors_linked R ca2 cb2" "list_all frame_ok ws" by auto
  have "encrypt_frames oa ca (map frame_bytes (f # fs)) = Some (Inr (map frame_bytes ((h, ct) # ws)), ca2)"
    using encrypt_frame_bytes [OF s(4) t(1)] ws(1) f by simp
  moreover have "opens ob cb ((h, ct) # ws) (f # fs) cb2"
    unfolding f using s(1) t(3,4) ws(2) by (intro opens_Encrypted) (auto simp: cryptors_linked_def)
  moreover have "frame_ok (h, ct)" using s(4) t(2) by (simp add: frame_ok_def)
  ultimately show ?case
    using ws(3,4) by (intro exI [of _ "(h, ct) # ws"] exI [of _ ca2] exI [of _ cb2]) auto
qed

lemma rest_frames_sealable:
  "payload \<noteq> [] \<Longrightarrow> list_all sealable (rest_frames ch msg Encrypted payload)"
proof (induction ch msg "Encrypted" payload rule: rest_frames.induct)
  case (1 ch msg payload)
  then show ?case
    by (simp add: rest_frames.simps [of ch msg Encrypted payload] sealable_def frame_hdr_def FRAME_MAX_PAYLOAD_def)
qed

lemma message_frames_sealable:
  "payload \<noteq> [] \<Longrightarrow> list_all sealable (message_frames ch msg Encrypted payload)"
  by (simp add: message_frames_def rest_frames_sealable)
     (simp add: sealable_def frame_hdr_def FRAME_MAX_PAYLOAD_def)

lemma rest_frames_enc: "list_all (\<lambda>f. encryptionType (fst f) = enc) (rest_frames ch msg enc payload)"
proof (induction ch msg enc payload rule: rest_frames.induct)
  case (1 ch msg enc payload)
  then show ?case by (simp add: rest_frames.simps [of ch msg enc payload] frame_hdr_def)
qed

lemma message_frames_enc: "list_all (\<lambda>f. encryptionType (fst f) = enc) (message_frames ch msg enc payload)"
  by (simp add: message_frames_def rest_frames_enc) (simp add: frame_hdr_def)

section \<open>A messenger whose slots do not call back\<close>

definition quiet :: "'s messenger_env \<Rightarrow> bool" where
  "quiet env \<longleftrightarrow> env_obs env = (\<lambda>e m. Some m)"

lemma mg_emit_quiet: "quiet env \<Longrightarrow> mg_emit env e m = Some (m\<lparr>mg_log := mg_log m @ [e]\<rparr>)"
  by (simp add: quiet_def mg_emit_def)

lemma write_frames_quiet:
  "quiet env \<Longrightarrow> mg_started m \<Longrightarrow> write_frames env (mg_lifecycleGeneration m) fs m =
     Some (False, m\<lparr>mg_log := mg_log m @ map TransportWrite fs\<rparr>)"
proof (induction fs arbitrary: m)
  case Nil
  then show ?case by simp
next
  case (Cons f fs)
  from Cons.IH [of "m\<lparr>mg_log := mg_log m @ [TransportWrite f]\<rparr>"] Cons.prems
  show ?case by (simp add: mg_emit_quiet)
qed

lemma drain_queue_quiet:
  "quiet env \<Longrightarrow> mg_started m \<Longrightarrow> drain_queue env (mg_lifecycleGeneration m) m =
     Some (False, m\<lparr>mg_sendQueue := [], mg_log := mg_log m @ map TransportWrite (concat (mg_sendQueue m))\<rparr>)"
proof (induction "mg_sendQueue m" arbitrary: m)
  case Nil
  then show ?case by (subst drain_queue.simps) simp
next
  case (Cons q qs)
  let ?m = "m\<lparr>mg_sendQueue := qs, mg_log := mg_log m @ map TransportWrite q\<rparr>"
  have "write_frames env (mg_lifecycleGeneration m) (hd (mg_sendQueue m)) (m\<lparr>mg_sendQueue := tl (mg_sendQueue m)\<rparr>)
      = Some (False, ?m)"
    using write_frames_quiet [OF Cons.prems(1), of "m\<lparr>mg_sendQueue := qs\<rparr>" q] Cons.prems(2)
    by (simp flip: Cons.hyps(2))
  moreover have "drain_queue env (mg_lifecycleGeneration m) ?m = Some (False, m\<lparr>mg_sendQueue := [],
      mg_log := mg_log m @ map TransportWrite (concat (mg_sendQueue m))\<rparr>)"
    using Cons.hyps(1) [of ?m] Cons.prems by (simp flip: Cons.hyps(2))
  ultimately show ?case
    using Cons.prems by (subst drain_queue.simps) (simp flip: Cons.hyps(2))
qed

text \<open>An idle messenger: started, not failed, nothing queued.\<close>

definition mg_idle :: "'s messenger \<Rightarrow> bool" where
  "mg_idle m \<longleftrightarrow> mg_started m \<and> \<not> mg_tlsFailureEmitted m \<and> \<not> mg_protocolFailureEmitted m
     \<and> \<not> mg_sending m \<and> mg_sendQueue m = []"

lemma processSendQueue_quiet:
  assumes "quiet env" and "mg_idle m"
  shows "processSendQueue env (enqueue_frames ch fs m) =
    Some (m\<lparr>mg_log := mg_log m @ map TransportWrite fs\<rparr>)"
  using drain_queue_quiet [OF assms(1), of "m\<lparr>mg_sendQueue := [fs], mg_sending := True\<rparr>"] assms(2)
  by (simp add: processSendQueue_def enqueue_frames_def mg_idle_def)

section \<open>Sending over the link\<close>

type_synonym app_message = "byte \<times> u16 \<times> bytes"

fun mg_send_all :: "'s messenger_env \<Rightarrow> app_message list \<Rightarrow> 's messenger \<Rightarrow> 's messenger option" where
  "mg_send_all env [] m = Some m"
| "mg_send_all env ((ch, mid, payload) # ms) m =
     do { m' \<leftarrow> mg_sendMessage env ch mid payload m; mg_send_all env ms m' }"

fun wire_of :: "messenger_event \<Rightarrow> bytes" where
  "wire_of (TransportWrite bs) = bs"
| "wire_of _ = []"

definition wire_bytes :: "messenger_event list \<Rightarrow> bytes" where
  "wire_bytes es = concat (map wire_of es)"

lemma wire_bytes_simps [simp]:
  "wire_bytes [] = []" "wire_bytes (es @ fs) = wire_bytes es @ wire_bytes fs"
  "wire_bytes (e # es) = wire_of e @ wire_bytes es"
  "wire_bytes (map (TransportWrite \<circ> g) xs) = concat (map g xs)"
  by (simp_all add: wire_bytes_def comp_def)

definition fits :: "app_message \<Rightarrow> bool" where
  "fits = (\<lambda>(ch, mid, payload). length payload + 2 \<le> unat MAX_ASSEMBLED_MESSAGE_SIZE)"

definition assembled_of :: "app_message \<Rightarrow> assembly_event" where
  "assembled_of = (\<lambda>(ch, mid, payload). MessageAssembled ch (msgType_of ch mid) (fullPayload mid payload))"

lemma length_fullPayload [simp]: "length (fullPayload mid payload) = length payload + 2"
  by (simp add: fullPayload_def del: be_bytes.simps)

lemma fullPayload_nonempty [simp]: "fullPayload mid payload \<noteq> []"
  by (metis length_fullPayload list.size(3) add_is_0 zero_neq_numeral)

lemma mg_sendMessage_sealed:
  assumes link: "tls_link (env_ssl env) ob R" and quiet: "quiet env" and idle: "mg_idle m"
    and c: "cryptors_linked R (mg_cryptor m) cb" and fit: "fits (ch, mid, payload)"
  shows "\<exists>m' enc ws cb' es. mg_sendMessage env ch mid payload m = Some m' \<and> mg_idle m'
    \<and> cryptors_linked R (mg_cryptor m') cb' \<and> mg_log m' = mg_log m @ es
    \<and> wire_bytes es = concat (map frame_bytes ws) \<and> list_all frame_ok ws
    \<and> opens ob cb ws (message_frames ch (msgType_of ch mid) enc (fullPayload mid payload)) cb'"
proof -
  let ?m1 = "m\<lparr>mg_log := mg_log m @ [MessageSent ch mid payload]\<rparr>"
  let ?fs = "\<lambda>enc. message_frames ch (msgType_of ch mid) enc (fullPayload mid payload)"
  have ser: "frame_serialize ch (msgType_of ch mid) enc (fullPayload mid payload) = map frame_bytes (?fs enc)" for enc
    using fit by (intro frame_serialize_frames) (simp add: fits_def max_size_u32)
  have idle1: "mg_idle (?m1\<lparr>mg_cryptor := c\<rparr>)" for c using idle by (simp add: mg_idle_def)
  have idle2: "mg_idle ?m1" using idle by (simp add: mg_idle_def)
  show ?thesis
  proof (cases "shouldEncrypt ch mid (m_active (mg_cryptor m))")
    case True
    have "list_all sealable (?fs Encrypted)" by (rule message_frames_sealable) simp
    from encrypt_frames_opens [OF link c this] obtain ws ca' cb' where
      ws: "encrypt_frames (env_ssl env) (mg_cryptor m) (map frame_bytes (?fs Encrypted)) = Some (Inr (map frame_bytes ws), ca')"
        "opens ob cb ws (?fs Encrypted) cb'" "cryptors_linked R ca' cb'" "list_all frame_ok ws" by blast
    have "mg_sendMessage env ch mid payload m = Some (?m1\<lparr>mg_cryptor := ca',
        mg_log := mg_log ?m1 @ map TransportWrite (map frame_bytes ws)\<rparr>)"
      using idle True ws(1) processSendQueue_quiet [OF quiet idle1 [of ca']]
      by (simp add: mg_sendMessage_def mg_idle_def mg_emit_quiet [OF quiet] ser)
    with ws idle1 [of ca'] show ?thesis
      by (intro exI [of _ "?m1\<lparr>mg_cryptor := ca', mg_log := mg_log ?m1 @ map TransportWrite (map frame_bytes ws)\<rparr>"]
          exI [of _ Encrypted] exI [of _ ws] exI [of _ cb']
          exI [of _ "MessageSent ch mid payload # map TransportWrite (map frame_bytes ws)"])
        (simp add: mg_idle_def)
  next
    case False
    have "mg_sendMessage env ch mid payload m = Some (?m1\<lparr>
        mg_log := mg_log ?m1 @ map TransportWrite (map frame_bytes (?fs Plain))\<rparr>)"
      using idle False processSendQueue_quiet [OF quiet idle2]
      by (simp add: mg_sendMessage_def mg_idle_def mg_emit_quiet [OF quiet] ser)
    with c idle2 opens_plain_frames [OF message_frames_enc] message_frames_ok show ?thesis
      by (intro exI [of _ "?m1\<lparr>mg_log := mg_log ?m1 @ map TransportWrite (map frame_bytes (?fs Plain))\<rparr>"]
          exI [of _ Plain] exI [of _ "?fs Plain"] exI [of _ cb]
          exI [of _ "MessageSent ch mid payload # map TransportWrite (map frame_bytes (?fs Plain))"])
        (simp add: mg_idle_def)
  qed
qed

definition assembler_clear :: "frame_assembler \<Rightarrow> bool" where
  "assembler_clear a \<longleftrightarrow> assembler_inv a \<and> m_partials a = Map.empty
     \<and> m_maxMessageSize a = MAX_ASSEMBLED_MESSAGE_SIZE \<and> m_maxAggregateSize a = MAX_IN_FLIGHT_ASSEMBLY_SIZE"

lemma mg_send_all_sealed:
  assumes link: "tls_link (env_ssl env) ob R" and quiet: "quiet env"
    and "mg_idle m" and "cryptors_linked R (mg_cryptor m) cb" and "list_all fits ms"
    and "assembler_clear a"
  shows "\<exists>m' ws fs cb' a' es. mg_send_all env ms m = Some m' \<and> mg_idle m' \<and> mg_log m' = mg_log m @ es
    \<and> cryptors_linked R (mg_cryptor m') cb' \<and> wire_bytes es = concat (map frame_bytes ws)
    \<and> list_all frame_ok ws \<and> opens ob cb ws fs cb'
    \<and> assembler_run a fs = (a', map assembled_of ms) \<and> assembler_clear a'"
  using assms(3-)
proof (induction ms arbitrary: m cb a)
  case Nil
  then show ?case by (auto intro!: exI [of _ cb] exI [of _ "[]"] opens_Nil)
next
  case (Cons msg ms)
  obtain ch mid payload where msg: "msg = (ch, mid, payload)" by (cases msg)
  let ?full = "fullPayload mid payload"
  from Cons.prems(3) have fit: "fits (ch, mid, payload)" "list_all fits ms" by (simp_all add: msg)
  from mg_sendMessage_sealed [OF link quiet Cons.prems(1,2) fit(1)] obtain m1 enc ws1 cb1 es1 where
    1: "mg_sendMessage env ch mid payload m = Some m1" "mg_idle m1" "cryptors_linked R (mg_cryptor m1) cb1"
      "mg_log m1 = mg_log m @ es1" "wire_bytes es1 = concat (map frame_bytes ws1)" "list_all frame_ok ws1"
      "opens ob cb ws1 (message_frames ch (msgType_of ch mid) enc ?full) cb1" by blast
  have "length ?full \<le> unat MAX_ASSEMBLED_MESSAGE_SIZE"
    using fit(1) by (simp add: fits_def)
  with assembler_run_message [of a ?full ch "msgType_of ch mid" enc] Cons.prems(4) obtain a1 where
    a1: "assembler_run a (message_frames ch (msgType_of ch mid) enc ?full) = (a1, [assembled_of msg])"
      "assembler_clear a1"
    by (auto simp: assembler_clear_def assembled_of_def msg)
  from Cons.IH [OF 1(2,3) fit(2) a1(2)] obtain m2 ws2 fs2 cb2 a2 es2 where
    2: "mg_send_all env ms m1 = Some m2" "mg_idle m2" "mg_log m2 = mg_log m1 @ es2"
      "cryptors_linked R (mg_cryptor m2) cb2" "wire_bytes es2 = concat (map frame_bytes ws2)"
      "list_all frame_ok ws2" "opens ob cb1 ws2 fs2 cb2" "assembler_run a1 fs2 = (a2, map assembled_of ms)"
      "assembler_clear a2" by blast
  show ?case
    using 1 2 a1 opens_append [OF 1(7) 2(7)]
    by (intro exI [of _ m2] exI [of _ "ws1 @ ws2"]
        exI [of _ "message_frames ch (msgType_of ch mid) enc ?full @ fs2"] exI [of _ cb2]
        exI [of _ a2] exI [of _ "es1 @ es2"]) (simp add: msg assembler_run_append)
qed

section \<open>Receiving over the link\<close>

fun mg_feed :: "'s messenger_env \<Rightarrow> bytes list \<Rightarrow> 's messenger \<Rightarrow> 's messenger option" where
  "mg_feed env [] m = Some m"
| "mg_feed env (d # ds) m = do { m' \<leftarrow> mg_onData env d m; mg_feed env ds m' }"

fun received_of :: "assembly_event \<Rightarrow> messenger_event" where
  "received_of (MessageAssembled ch mt full) =
     MessageReceived ch (of_nat (be_val (take 2 full))) full 2 mt"
| "received_of (AssemblyFailed e) = ProtocolFailed (AssemblyError e)"

fun deliverable :: "assembly_event \<Rightarrow> bool" where
  "deliverable (MessageAssembled ch mt full) = (2 \<le> length full)"
| "deliverable (AssemblyFailed e) = False"

text \<open>The state after frames that opened to \<open>evs\<close>.\<close>

definition mg_after ::
  "frame_parser \<Rightarrow> 's cryptor \<Rightarrow> frame_assembler \<Rightarrow> assembly_event list \<Rightarrow> 's messenger \<Rightarrow> 's messenger" where
  "mg_after p c a evs m = m\<lparr>mg_parser := p, mg_cryptor := c, mg_assembler := a,
     mg_log := mg_log m @ map received_of evs\<rparr>"

definition mg_healthy :: "'s messenger \<Rightarrow> bool" where
  "mg_healthy m \<longleftrightarrow> mg_started m \<and> \<not> mg_tlsFailureEmitted m \<and> \<not> mg_protocolFailureEmitted m
     \<and> m_active (mg_cryptor m)"

lemma mg_assemble_quiet:
  assumes "quiet env" and "m_active (mg_cryptor m)"
    and "assembler_onFrame (mg_assembler m) h x = (a, ev)" and "pred_option deliverable ev"
  shows "mg_assemble env h x m = Some (mg_after (mg_parser m) (mg_cryptor m) a
    (case ev of None \<Rightarrow> [] | Some e \<Rightarrow> [e]) m)"
proof (cases ev)
  case None
  with assms show ?thesis by (simp add: mg_assemble_def mg_after_def)
next
  case (Some e)
  with assms(4) obtain ch mt full where "e = MessageAssembled ch mt full" "2 \<le> length full"
    by (cases e) auto
  with Some assms(1-3) show ?thesis
    by (simp add: mg_assemble_def mg_after_def onMessageAssembled_def mg_emit_quiet Let_def)
qed

lemma onFrameParsed_opens:
  assumes q: "quiet env" and ok: "mg_healthy m"
    and o: "opens (env_ssl env) (mg_cryptor m) [(h, w)] [(h, x)] c'"
    and a: "assembler_onFrame (mg_assembler m) h x = (a, ev)" "pred_option deliverable ev"
  shows "onFrameParsed env h w m = Some (mg_after (mg_parser m) c' a
    (case ev of None \<Rightarrow> [] | Some e \<Rightarrow> [e]) m)" and "m_active c'"
proof -
  have st: "m_active (mg_cryptor m)" "\<not> mg_tlsFailureEmitted m" "\<not> mg_protocolFailureEmitted m"
    using ok by (simp_all add: mg_healthy_def)
  have "m_active c' \<and> onFrameParsed env h w m = Some (mg_after (mg_parser m) c' a
    (case ev of None \<Rightarrow> [] | Some e \<Rightarrow> [e]) m)"
  proof (cases "encryptionType h")
    case Plain
    then have "c' = mg_cryptor m" "w = x" using o by (auto elim!: opens_ConsE opens_NilE)
    with Plain st mg_assemble_quiet [OF q st(1) a] show ?thesis by (simp add: onFrameParsed_def)
  next
    case Encrypted
    then have "cryptor_decrypt (env_ssl env) (mg_cryptor m) w (int (length w)) = Some (Complete x, c')"
      "m_active c'" using o by (auto elim!: opens_ConsE opens_NilE)
    with Encrypted st mg_assemble_quiet [OF q, of "m\<lparr>mg_cryptor := c'\<rparr>" h x a ev] a
    show ?thesis by (simp add: onFrameParsed_def mg_after_def)
  qed
  then show "onFrameParsed env h w m = Some (mg_after (mg_parser m) c' a
    (case ev of None \<Rightarrow> [] | Some e \<Rightarrow> [e]) m)" and "m_active c'" by simp_all
qed

lemma assembler_run_Cons:
  "assembler_run a (f # fs) = (let (a1, e) = assembler_onFrame a (fst f) (snd f);
     (a2, es) = assembler_run a1 fs in (a2, (case e of None \<Rightarrow> [] | Some x \<Rightarrow> [x]) @ es))"
  by (cases f) (simp add: Let_def split: prod.split option.split)

lemma mg_pump_opens:
  assumes q: "quiet env" and "parser_process p = (q', ws)" and "mg_parser m = p" and "mg_healthy m"
    and "opens (env_ssl env) (mg_cryptor m) ws fs c'"
    and "assembler_run (mg_assembler m) fs = (a, evs)" and "list_all deliverable evs"
  shows "mg_pump env m = Some (mg_after q' c' a evs m) \<and> mg_healthy (mg_after q' c' a evs m)"
  using assms(2-)
proof (induction p arbitrary: m ws fs evs rule: parser_process.induct)
  case (1 p)
  show ?case
  proof (cases "parser_step p")
    case None
    with "1.prems"(1) have "ws = []" "q' = p" by (simp_all add: parser_process.simps [of p])
    moreover from this "1.prems"(4) have "fs = []" "c' = mg_cryptor m" by (auto elim: opens_NilE)
    moreover from this "1.prems"(5) have "evs = []" "a = mg_assembler m" by simp_all
    ultimately show ?thesis
      using None "1.prems"(2,3) by (subst mg_pump.simps) (simp add: mg_after_def mg_healthy_def)
  next
    case (Some r)
    obtain p1 fr where r: "r = (p1, fr)" by (metis surj_pair)
    let ?m = "m\<lparr>mg_parser := p1\<rparr>"
    show ?thesis
    proof (cases fr)
      case None
      with Some r "1.prems"(1) have "parser_process p1 = (q', ws)" by (simp add: parser_process.simps [of p])
      with "1.IH"(1) [OF Some r [symmetric] None, of ws ?m fs evs] "1.prems"
      have "mg_pump env ?m = Some (mg_after q' c' a evs ?m) \<and> mg_healthy (mg_after q' c' a evs ?m)"
        by (simp add: mg_healthy_def)
      with Some r None "1.prems"(2) show ?thesis by (subst mg_pump.simps) (simp add: mg_after_def)
    next
      case F: (Some w)
      then obtain ws1 where ws: "parser_process p1 = (q', ws1)" "ws = w # ws1"
        using Some r "1.prems"(1) by (auto simp: parser_process.simps [of p] split: prod.splits)
      have act: "m_active (mg_cryptor m)" using "1.prems"(3) by (simp add: mg_healthy_def)
      from opens_appendD [OF "1.prems"(4), of "[w]" ws1] ws(2) act obtain f1 f2 c1 where
        o: "fs = f1 @ f2" "opens (env_ssl env) (mg_cryptor m) [w] f1 c1" "opens (env_ssl env) c1 ws1 f2 c'" by auto
      from o(2) obtain x where x: "f1 = [(fst w, x)]"
        by (cases w) (auto elim!: opens_ConsE opens_NilE)
      obtain a1 e where a1: "assembler_onFrame (mg_assembler m) (fst w) x = (a1, e)" by fastforce
      obtain a2 es2 where a2: "assembler_run a1 f2 = (a2, es2)" by fastforce
      have evs: "a = a2" "evs = (case e of None \<Rightarrow> [] | Some x \<Rightarrow> [x]) @ es2"
        using "1.prems"(5) a1 a2 by (simp_all add: o x assembler_run_Cons)
      have dl: "pred_option deliverable e" "list_all deliverable es2"
        using "1.prems"(6) evs by (auto split: option.splits)
      let ?m1 = "mg_after p1 c1 a1 (case e of None \<Rightarrow> [] | Some x \<Rightarrow> [x]) ?m"
      have step: "onFrameParsed env (fst w) (snd w) ?m = Some ?m1" "m_active c1"
        using onFrameParsed_opens [OF q, of ?m "fst w" "snd w" x c1 a1 e] "1.prems"(3) o(2) a1 dl(1)
        by (simp_all add: x mg_healthy_def)
      have "mg_pump env ?m1 = Some (mg_after q' c' a es2 ?m1) \<and> mg_healthy (mg_after q' c' a es2 ?m1)"
        using "1.IH"(2) [OF Some r [symmetric] F, of ws1 ?m1 f2 es2] "1.prems"(3) o(3) a2 dl(2) ws(1) step(2)
        by (simp add: mg_after_def mg_healthy_def evs(1))
      moreover have "mg_after q' c' a es2 ?m1 = mg_after q' c' a evs m"
        by (simp add: mg_after_def evs(2))
      moreover have "mg_started m" using "1.prems"(3) by (simp add: mg_healthy_def)
      ultimately show ?thesis
        using Some r F "1.prems"(2) step(1) by (subst mg_pump.simps) simp
    qed
  qed
qed

lemma mg_feed_opens:
  assumes q: "quiet env" and "parser_feed (mg_parser m) ds = Some (p', ws)" and "mg_healthy m"
    and "opens (env_ssl env) (mg_cryptor m) ws fs c'"
    and "assembler_run (mg_assembler m) fs = (a, evs)" and "list_all deliverable evs"
  shows "mg_feed env ds m = Some (mg_after p' c' a evs m)"
  using assms(2-)
proof (induction ds arbitrary: m ws fs evs)
  case Nil
  then show ?case by (auto simp: mg_after_def elim!: opens_NilE)
next
  case (Cons d ds)
  from Cons.prems(1) obtain b where b: "cb_append (m_buffer (mg_parser m)) d = Some b"
    by (auto simp: parser_onData_def split: option.splits)
  obtain p1 ws1 where p1: "parser_process ((mg_parser m)\<lparr>m_buffer := b\<rparr>) = (p1, ws1)" by fastforce
  from Cons.prems(1) b p1 obtain ws2 where ws: "parser_feed p1 ds = Some (p', ws2)" "ws = ws1 @ ws2"
    by (auto simp: parser_onData_def split: option.splits)
  have act: "m_active (mg_cryptor m)" and st: "mg_started m" using Cons.prems(2) by (simp_all add: mg_healthy_def)
  from opens_appendD [OF Cons.prems(3) ws(2) act] obtain f1 f2 c1 where
    o: "fs = f1 @ f2" "opens (env_ssl env) (mg_cryptor m) ws1 f1 c1" "opens (env_ssl env) c1 ws2 f2 c'" by blast
  obtain a1 es1 a2 es2 where a: "assembler_run (mg_assembler m) f1 = (a1, es1)" "assembler_run a1 f2 = (a2, es2)"
    by fastforce
  then have evs: "a = a2" "evs = es1 @ es2" using Cons.prems(4) by (simp_all add: o(1) assembler_run_append)
  let ?m = "m\<lparr>mg_parser := (mg_parser m)\<lparr>m_buffer := b\<rparr>\<rparr>"
  have "mg_pump env ?m = Some (mg_after p1 c1 a1 es1 ?m) \<and> mg_healthy (mg_after p1 c1 a1 es1 ?m)"
    using mg_pump_opens [OF q p1, of ?m f1 c1 a1 es1] Cons.prems(2,5) o(2) a(1) evs(2) by (simp add: mg_healthy_def)
  moreover from this have "mg_feed env ds (mg_after p1 c1 a1 es1 ?m) =
      Some (mg_after p' c' a es2 (mg_after p1 c1 a1 es1 ?m))"
    using Cons.IH [of "mg_after p1 c1 a1 es1 ?m" ws2 f2 es2] ws(1) o(3) a(2) evs Cons.prems(5)
    by (simp add: mg_after_def)
  ultimately show ?case using st b by (simp add: mg_onData_def mg_after_def evs(2))
qed

section \<open>End to end\<close>

definition delivered_of :: "app_message \<Rightarrow> messenger_event" where
  "delivered_of = (\<lambda>(ch, mid, payload). MessageReceived ch mid (fullPayload mid payload) 2 (msgType_of ch mid))"

lemma be_val_message_id: "of_nat (be_val (take 2 (fullPayload mid payload))) = mid"
proof -
  have "unat mid < 256 ^ 2" using unsigned_less [of mid] by simp
  then show ?thesis by (simp add: fullPayload_def be_val_be_bytes del: be_bytes.simps)
qed

lemma received_assembled: "received_of (assembled_of msg) = delivered_of msg"
  by (cases msg) (simp add: assembled_of_def delivered_of_def be_val_message_id)

lemma deliverable_assembled: "deliverable (assembled_of msg)"
  by (cases msg) (simp add: assembled_of_def)

text \<open>A receiver between messages.\<close>

definition mg_listening :: "'s messenger \<Rightarrow> bool" where
  "mg_listening m \<longleftrightarrow> mg_healthy m \<and> parser_idle (mg_parser m)
     \<and> parser_abs (mg_parser m) = (AtHeader, []) \<and> assembler_clear (mg_assembler m)"


text \<open>
  An instance of the TLS parameter: records with a header and no cipher. Its state holds the
  bytes written and not yet fetched, the bytes received, and the plaintext not yet read.
\<close>

type_synonym null_tls = "bytes \<times> bytes \<times> bytes"

definition null_record :: "bytes \<Rightarrow> bytes" where
  "null_record x = [23, 3, 3] @ be_bytes 2 (length x) @ x"

fun null_read :: "null_tls \<Rightarrow> nat \<Rightarrow> int \<times> bytes \<times> null_tls" where
  "null_read (out, raw, pl) n = (
     if pl \<noteq> [] then (int (length (take n pl)), take n pl, (out, raw, drop n pl))
     else if length raw < 5 then (- 1, [], (out, raw, pl))
     else (let k = be_val (take 2 (drop 3 raw)); x = take k (drop 5 raw)
           in (int (length (take n x)), take n x, (out, drop (5 + k) raw, drop n x))))"

definition null_openssl :: "null_tls openssl" where
  "null_openssl = \<lparr>ERR_clear_error = (\<lambda>s. s), ERR_get_error = (\<lambda>s. (0, s)),
     ERR_error_string_n = (\<lambda>n. []), SSL_init_call = (\<lambda>c r x y s. (True, s)),
     SSL_set_up = (\<lambda>r s. s), SSL_free = (\<lambda>s. ([], [], [])), SSL_CTX_free = (\<lambda>s. s),
     SSL_do_handshake = (\<lambda>s. (1, s)), SSL_get_error = (\<lambda>s r. SSL_ERROR_WANT_READ),
     SSL_write = (\<lambda>(out, raw, pl) x. (int (length x), (out @ null_record x, raw, pl))),
     SSL_read = null_read,
     BIO_write = (\<lambda>(out, raw, pl) x. (int (length x), (out, raw @ x, pl))),
     BIO_ctrl_pending = (\<lambda>(out, raw, pl). int (length out)),
     BIO_read = (\<lambda>(out, raw, pl) n. (int (length (take n out)), take n out, (drop n out, raw, pl)))\<rparr>"

definition null_synced :: "null_tls \<Rightarrow> null_tls \<Rightarrow> bool" where
  "null_synced a b \<longleftrightarrow> fst a = [] \<and> snd b = ([], [])"

lemma null_delivers_pending:
  "ssl_delivers null_openssl (out, [], x) x (out, [], [])"
proof (induction "length x" arbitrary: x rule: less_induct)
  case less
  show ?case
  proof (cases "x = []")
    case True
    then show ?thesis by (auto simp: null_openssl_def intro!: dry)
  next
    case False
    then have "ssl_delivers null_openssl (out, [], drop 2048 x) (drop 2048 x) (out, [], [])"
      by (intro less) simp
    from piece [OF _ _ this, of "(out, [], x)" "take 2048 x"] False show ?thesis
      by (simp add: null_openssl_def)
  qed
qed

lemma null_record_fields:
  "length (null_record x) = 5 + length x" "take 2 (drop 3 (null_record x)) = be_bytes 2 (length x)"
  "drop 5 (null_record x) = x" "drop (5 + length x) (null_record x) = []"
  by (simp_all add: null_record_def del: be_bytes.simps)

lemma null_delivers_record:
  assumes "x \<noteq> []" and "length x < 65536"
  shows "ssl_delivers null_openssl (out, null_record x, []) x (out, [], [])"
proof -
  have len: "be_val (be_bytes 2 (length x)) = length x"
    using assms(2) by (simp add: be_val_be_bytes del: be_bytes.simps)
  have "null_read (out, null_record x, []) 2048 = (int (length (take 2048 x)), take 2048 x, (out, [], drop 2048 x))"
    by (simp only: null_read.simps null_record_fields len Let_def) simp
  then have "SSL_read null_openssl (ERR_clear_error null_openssl (out, null_record x, [])) 2048
      = (int (length (take 2048 x)), take 2048 x, (out, [], drop 2048 x))"
    by (simp add: null_openssl_def)
  from piece [OF this _ null_delivers_pending] assms(1) show ?thesis by simp
qed

lemma null_record_complete:
  assumes "length x < 65536" shows "containsOnlyCompleteTlsRecords (null_record x)"
proof -
  have len: "be_val (be_bytes 2 (length x)) = length x"
    using assms by (simp add: be_val_be_bytes del: be_bytes.simps)
  show ?thesis
    using len null_record_fields [of x] by (subst containsOnlyCompleteTlsRecords.simps)
      (auto simp: TLS_RECORD_HEADER_SIZE_def containsOnlyCompleteTlsRecords.simps [of "[]"])
qed

lemma null_tls_link: "tls_link null_openssl null_openssl null_synced"
  unfolding tls_link_def
proof (intro allI impI)
  fix a b :: null_tls and x :: bytes
  assume s: "null_synced a b" and x: "x \<noteq> []" "length x \<le> FRAME_MAX_PAYLOAD"
  obtain raw pl where a: "a = ([], raw, pl)" using s by (cases a) (simp add: null_synced_def)
  obtain out where b: "b = (out, [], [])" using s by (cases b) (simp add: null_synced_def)
  have len: "length x < 65536" using x(2) by (simp add: FRAME_MAX_PAYLOAD_def)
  have rec: "null_record x \<noteq> []" "length (null_record x) < 65536"
    using x(2) by (simp_all add: null_record_def FRAME_MAX_PAYLOAD_def del: be_bytes.simps)
  show "\<exists>a1 a2 b1 b2 ct.
        SSL_write null_openssl (ERR_clear_error null_openssl a) x = (int (length x), a1)
      \<and> BIO_ctrl_pending null_openssl a1 = int (length ct)
      \<and> BIO_read null_openssl (ERR_clear_error null_openssl a1) (length ct) = (int (length ct), ct, a2)
      \<and> ct \<noteq> [] \<and> length ct < 65536 \<and> containsOnlyCompleteTlsRecords ct
      \<and> BIO_write null_openssl (ERR_clear_error null_openssl b) ct = (int (length ct), b1)
      \<and> ssl_delivers null_openssl b1 x b2 \<and> null_synced a2 b2"
    using rec null_record_complete [OF len] null_delivers_record [OF x(1) len, of out]
    by (intro exI [of _ "(null_record x, raw, pl)"] exI [of _ "([], raw, pl)"]
        exI [of _ "(out, null_record x, [])"] exI [of _ "(out, [], [])"] exI [of _ "null_record x"])
      (simp add: a b null_openssl_def null_synced_def)
qed

definition null_env :: "null_tls messenger_env" where
  "null_env = \<lparr>env_ssl = null_openssl, env_certificate = [], env_privateKey = [],
     env_obs = (\<lambda>e m. Some m)\<rparr>"

text \<open>A messenger after \<open>start\<close> and the handshake.\<close>

definition null_messenger :: "null_tls messenger" where
  "null_messenger = (let m = mg_start (messenger_new ([], [], [])) in
     m\<lparr>mg_cryptor := snd (cryptor_doHandshake null_openssl
         (snd (cryptor_init null_openssl (mg_cryptor m) Client [] [])))\<rparr>)"

lemma null_cryptor: "mg_cryptor null_messenger = \<lparr>m_ctx = True, m_ssl = True, m_readBio = True,
   m_writeBio = True, m_active = True, m_lastError = [], c_lib = ([], [], [])\<rparr>"
  by (simp add: null_messenger_def cryptor_init_def init_calls_def cryptor_deinit_def messenger_new_def
      mg_start_def cryptor_new_def null_openssl_def cryptor_doHandshake_def Let_def)

lemma null_messenger_ready: "mg_idle null_messenger" "mg_listening null_messenger"
proof -
  have c: "m_active (mg_cryptor null_messenger)" by (simp add: null_cryptor)
  show "mg_idle null_messenger"
    by (simp add: mg_idle_def null_messenger_def mg_start_def messenger_new_def)
  have inv: "assembler_inv assembler_default"
    by (simp add: assembler_default_def assembler_inv_new)
  have "parser_inv parser_new" using parser_idle_new by (simp add: parser_idle_def)
  from parser_idle_reset [OF this] inv assembler_inv_reset [of assembler_default] c
  show "mg_listening null_messenger"
    by (simp add: mg_listening_def mg_healthy_def null_messenger_def mg_start_def messenger_new_def Let_def
        assembler_clear_def assembler_reset_def parser_abs_def parser_reset_def cb_list_clear)
       (simp add: assembler_default_def assembler_new_def)
qed


end
