(* ===== verification/Messenger_Lifecycle.thy ===== *)
theory Messenger_Lifecycle
  imports Secure_Link
begin

text \<open>
  What the messenger guarantees whatever the slots connected to its signals do: no frame is
  written to the transport while it is stopped; nothing of a session survives a restart; and
  after a terminal failure it stays silent.
\<close>

section \<open>No write while stopped\<close>

text \<open>
  \<open>guarded env\<close> is the environment in which handing a frame to the transport of a stopped
  messenger does not return. An operation with the same outcome in both never does it.
\<close>

definition guarded :: "'s messenger_env \<Rightarrow> 's messenger_env" where
  "guarded env = env\<lparr>env_obs := (\<lambda>e m. case e of
     TransportWrite bs \<Rightarrow> if mg_started m then env_obs env e m else None
   | _ \<Rightarrow> env_obs env e m)\<rparr>"

lemma guarded_ssl [simp]: "env_ssl (guarded env) = env_ssl env"
  "env_certificate (guarded env) = env_certificate env" "env_privateKey (guarded env) = env_privateKey env"
  by (simp_all add: guarded_def)

lemma mg_emit_guarded:
  "(\<forall>bs. e \<noteq> TransportWrite bs) \<or> mg_started m \<Longrightarrow> mg_emit (guarded env) e m = mg_emit env e m"
  by (auto simp: mg_emit_def guarded_def split: messenger_event.split)

lemma write_frames_guarded: "write_frames (guarded env) g fs m = write_frames env g fs m"
proof (induction fs arbitrary: m)
  case Nil
  then show ?case by simp
next
  case (Cons f fs)
  then show ?case by (simp add: mg_emit_guarded cong: if_cong)
qed

lemma drain_queue_same_writes:
  assumes "drain_queue e1 g m = Some r" and "\<forall>fs m. write_frames e1 g fs m = write_frames e2 g fs m"
  shows "drain_queue e2 g m = Some r"
proof -
  have "\<forall>e2. (\<forall>fs m. write_frames e1 g fs m = write_frames e2 g fs m) \<longrightarrow> drain_queue e2 g m = Some r"
    using assms(1)
  proof (rule drain_queue.raw_induct [rotated], intro allI impI)
    fix drain env generation m' y e2
    assume IH: "\<And>env generation m y. drain env generation m = Some y \<Longrightarrow>
        \<forall>e2. (\<forall>fs m. write_frames env generation fs m = write_frames e2 generation fs m) \<longrightarrow>
          drain_queue e2 generation m = Some y"
      and body: "(if mg_started m' \<and> generation = mg_lifecycleGeneration m' \<and> mg_sendQueue m' \<noteq> []
          then write_frames env generation (hd (mg_sendQueue m')) (m'\<lparr>mg_sendQueue := tl (mg_sendQueue m')\<rparr>)
               \<bind> (\<lambda>r. if fst r then Some r else drain env generation (snd r))
          else Some (False, m')) = Some y"
      and same: "\<forall>fs m. write_frames env generation fs m = write_frames e2 generation fs m"
    have IH': "drain_queue e2 generation m = Some y" if "drain env generation m = Some y" for m
      using IH [OF that] same by blast
    show "drain_queue e2 generation m' = Some y"
      using body same IH' by (subst drain_queue.simps) (auto split: if_splits bind_splits)
  qed
  with assms(2) show ?thesis by blast
qed

lemma drain_queue_guarded: "drain_queue (guarded env) g m = drain_queue env g m"
proof (cases "drain_queue env g m")
  case None
  then show ?thesis
    using drain_queue_same_writes [of "guarded env" g m _ env] write_frames_guarded
    by (cases "drain_queue (guarded env) g m") fastforce+
next
  case (Some r)
  then show ?thesis using drain_queue_same_writes [OF Some, of "guarded env"] write_frames_guarded by metis
qed

lemma processSendQueue_guarded: "processSendQueue (guarded env) m = processSendQueue env m"
  by (simp add: processSendQueue_def drain_queue_guarded)

lemma fail_guarded:
  "failHandshake (guarded env) s m = failHandshake env s m" "failTls (guarded env) s m = failTls env s m"
  "failProtocol (guarded env) e m = failProtocol env e m"
  by (simp_all add: failHandshake_def failTls_def failProtocol_def mg_emit_guarded)

lemma mg_sendMessage_guarded: "mg_sendMessage (guarded env) ch mid pl m = mg_sendMessage env ch mid pl m"
  by (simp add: mg_sendMessage_def mg_emit_guarded processSendQueue_guarded fail_guarded
      cong: if_cong sum.case_cong)

lemma driveHandshake_guarded: "driveHandshake (guarded env) m = driveHandshake env m"
  by (simp add: driveHandshake_def mg_sendMessage_guarded mg_emit_guarded fail_guarded
      cong: if_cong handshake_result.case_cong data_result.case_cong)

lemma handleHandshakeData_guarded: "handleHandshakeData (guarded env) d m = handleHandshakeData env d m"
  by (simp add: handleHandshakeData_def driveHandshake_guarded fail_guarded cong: if_cong)

lemma onFrameParsed_guarded: "onFrameParsed (guarded env) h x m = onFrameParsed env h x m"
  by (simp add: onFrameParsed_def mg_assemble_def onMessageAssembled_def handleHandshakeData_guarded
      mg_emit_guarded fail_guarded
      cong: if_cong option.case_cong assembly_event.case_cong data_result.case_cong)

lemma mg_pump_same_frames:
  assumes "mg_pump e1 m = Some r" and "\<forall>h x m. onFrameParsed e1 h x m = onFrameParsed e2 h x m"
  shows "mg_pump e2 m = Some r"
proof -
  have "\<forall>e2. (\<forall>h x m. onFrameParsed e1 h x m = onFrameParsed e2 h x m) \<longrightarrow> mg_pump e2 m = Some r"
    using assms(1)
  proof (rule mg_pump.raw_induct [rotated], intro allI impI)
    fix pump env m' y e2
    assume IH: "\<And>env m y. pump env m = Some y \<Longrightarrow>
        \<forall>e2. (\<forall>h x m. onFrameParsed env h x m = onFrameParsed e2 h x m) \<longrightarrow> mg_pump e2 m = Some y"
      and body: "(case parser_step (mg_parser m') of
         None \<Rightarrow> Some m'
       | Some r \<Rightarrow> (case snd r of
           None \<Rightarrow> pump env (m'\<lparr>mg_parser := fst r\<rparr>)
         | Some fr \<Rightarrow>
             (if mg_started m' then onFrameParsed env (fst fr) (snd fr) (m'\<lparr>mg_parser := fst r\<rparr>)
              else Some (m'\<lparr>mg_parser := fst r\<rparr>)) \<bind> pump env)) = Some y"
      and same: "\<forall>h x m. onFrameParsed env h x m = onFrameParsed e2 h x m"
    have IH': "mg_pump e2 m = Some y" if "pump env m = Some y" for m
      using IH [OF that] same by blast
    show "mg_pump e2 m' = Some y"
      using body same by (subst mg_pump.simps) (auto intro!: IH' split: if_splits bind_splits option.splits)
  qed
  with assms(2) show ?thesis by blast
qed

lemma mg_pump_guarded: "mg_pump (guarded env) m = mg_pump env m"
proof (cases "mg_pump env m")
  case None
  then show ?thesis
    using mg_pump_same_frames [of "guarded env" m _ env] onFrameParsed_guarded
    by (cases "mg_pump (guarded env) m") fastforce+
next
  case (Some r)
  then show ?thesis using mg_pump_same_frames [OF Some, of "guarded env"] onFrameParsed_guarded by metis
qed

text \<open>The operations that the rest of the program, the transport included, may call.\<close>

datatype messenger_op =
    OpStart | OpStop
  | OpSend byte u16 bytes
  | OpSendRaw byte bytes frame_type message_type encryption_type u32
  | OpStartHandshake
  | OpData bytes
  | OpTransportError string

fun mg_apply :: "'s messenger_env \<Rightarrow> messenger_op \<Rightarrow> 's messenger \<Rightarrow> 's messenger option" where
  "mg_apply env OpStart m = Some (mg_start m)"
| "mg_apply env OpStop m = Some (mg_stop env m)"
| "mg_apply env (OpSend ch mid payload) m = mg_sendMessage env ch mid payload m"
| "mg_apply env (OpSendRaw ch data ft mt et tot) m = mg_sendRaw env ch data ft mt et tot m"
| "mg_apply env OpStartHandshake m = mg_startHandshake env m"
| "mg_apply env (OpData data) m = mg_onData env data m"
| "mg_apply env (OpTransportError msg) m = mg_onTransportError env msg m"

text \<open>
  C5. No operation of the messenger hands a frame to the transport while the messenger is
  stopped, whatever the slots connected to its signals do, including stopping it, restarting
  it or sending from within a signal: the outcome of every operation is the same when such a
  write would never return.
\<close>

theorem messenger_no_write_while_stopped:
  "mg_apply (guarded env) operation m = mg_apply env operation m"
  by (cases operation)
    (simp_all add: mg_stop_def mg_sendMessage_guarded mg_sendRaw_def processSendQueue_guarded
      mg_startHandshake_def driveHandshake_guarded fail_guarded mg_onData_def mg_pump_guarded
      mg_onTransportError_def mg_emit_guarded cong: if_cong)

section \<open>Restart\<close>

text \<open>Consistent states: what every operation keeps, whatever the slots do within it.\<close>

definition mg_inv :: "'s messenger \<Rightarrow> bool" where
  "mg_inv m \<longleftrightarrow> parser_inv (mg_parser m) \<and> assembler_inv (mg_assembler m) \<and> cryptor_inv (mg_cryptor m)
     \<and> m_maxMessageSize (mg_assembler m) = MAX_ASSEMBLED_MESSAGE_SIZE
     \<and> m_maxAggregateSize (mg_assembler m) = MAX_IN_FLIGHT_ASSEMBLY_SIZE"

definition slots_keep :: "('s messenger \<Rightarrow> bool) \<Rightarrow> 's messenger_env \<Rightarrow> bool" where
  "slots_keep P env \<longleftrightarrow> (\<forall>e m m'. P m \<longrightarrow> env_obs env e m = Some m' \<longrightarrow> P m')"

text \<open>
  TLS delivers no more plaintext than fits a frame's worth of records; all the model needs is
  that the length fits 32 bits.
\<close>

definition plaintext_bounded :: "'s openssl \<Rightarrow> bool" where
  "plaintext_bounded o' \<longleftrightarrow> (\<forall>s e pl s'. read_plain o' [] s = Some (e, pl, s') \<longrightarrow> length pl < 2 ^ 32)"

lemma slots_keepD: "slots_keep P env \<Longrightarrow> P m \<Longrightarrow> env_obs env e m = Some m' \<Longrightarrow> P m'"
  by (auto simp: slots_keep_def)

lemma mg_inv_upd [simp]:
  "mg_inv (m\<lparr>mg_log := l\<rparr>) = mg_inv m" "mg_inv (m\<lparr>mg_sendQueue := q\<rparr>) = mg_inv m"
  "mg_inv (m\<lparr>mg_sending := b\<rparr>) = mg_inv m" "mg_inv (m\<lparr>mg_started := b\<rparr>) = mg_inv m"
  "mg_inv (m\<lparr>mg_tlsFailureEmitted := b\<rparr>) = mg_inv m"
  "mg_inv (m\<lparr>mg_handshakeFailureEmitted := b\<rparr>) = mg_inv m"
  "mg_inv (m\<lparr>mg_protocolFailureEmitted := b\<rparr>) = mg_inv m"
  by (simp_all add: mg_inv_def)

lemma mg_inv_cryptor: "mg_inv m \<Longrightarrow> cryptor_inv c \<Longrightarrow> mg_inv (m\<lparr>mg_cryptor := c\<rparr>)"
  by (simp add: mg_inv_def)

lemma mg_inv_cryptorD: "mg_inv m \<Longrightarrow> cryptor_inv (mg_cryptor m)"
  by (simp add: mg_inv_def)

lemma assembler_reset_sizes [simp]:
  "m_maxMessageSize (assembler_reset a) = m_maxMessageSize a"
  "m_maxAggregateSize (assembler_reset a) = m_maxAggregateSize a"
  by (simp_all add: assembler_reset_def)

lemma mg_emit_inv: "slots_keep mg_inv env \<Longrightarrow> mg_inv m \<Longrightarrow> mg_emit env e m = Some m' \<Longrightarrow> mg_inv m'"
  unfolding mg_emit_def by (rule slots_keepD) auto

lemma fail_inv:
  assumes k: "slots_keep mg_inv env" and m: "mg_inv m"
  shows "failHandshake env s m = Some m' \<Longrightarrow> mg_inv m'" and "failTls env s m = Some m' \<Longrightarrow> mg_inv m'"
    and "failProtocol env e m = Some m' \<Longrightarrow> mg_inv m'"
proof -
  have p: "mg_inv (m\<lparr>mg_protocolFailureEmitted := True, mg_sendQueue := [],
      mg_assembler := assembler_reset (mg_assembler m)\<rparr>)"
    using m assembler_inv_reset [of "mg_assembler m"] by (simp add: mg_inv_def)
  show "mg_inv m'" if "failHandshake env s m = Some m'"
    using that m by (auto simp: failHandshake_def split: if_splits elim!: mg_emit_inv [OF k, rotated])
  show "mg_inv m'" if "failTls env s m = Some m'"
    using that m by (auto simp: failTls_def split: if_splits elim!: mg_emit_inv [OF k, rotated])
  show "mg_inv m'" if "failProtocol env e m = Some m'"
    using that m p by (auto simp: failProtocol_def split: if_splits elim!: mg_emit_inv [OF k, rotated])
qed

lemma write_frames_inv:
  "slots_keep mg_inv env \<Longrightarrow> mg_inv m \<Longrightarrow> write_frames env g fs m = Some r \<Longrightarrow> mg_inv (snd r)"
  by (induction fs arbitrary: m) (auto split: if_splits bind_splits dest: mg_emit_inv)

lemma drain_queue_inv:
  assumes "drain_queue env g m = Some r" and "slots_keep mg_inv env" and "mg_inv m"
  shows "mg_inv (snd r)"
proof -
  have "slots_keep mg_inv env \<longrightarrow> mg_inv m \<longrightarrow> mg_inv (snd r)"
    using assms(1)
  proof (rule drain_queue.raw_induct [rotated], intro impI)
    fix drain env generation m' and y :: "bool \<times> 'a messenger"
    assume IH: "\<And>env generation m y. drain env generation m = Some y \<Longrightarrow>
        slots_keep mg_inv env \<longrightarrow> mg_inv m \<longrightarrow> mg_inv (snd y)"
      and body: "(if mg_started m' \<and> generation = mg_lifecycleGeneration m' \<and> mg_sendQueue m' \<noteq> []
          then write_frames env generation (hd (mg_sendQueue m')) (m'\<lparr>mg_sendQueue := tl (mg_sendQueue m')\<rparr>)
               \<bind> (\<lambda>r. if fst r then Some r else drain env generation (snd r))
          else Some (False, m')) = Some y"
      and k: "slots_keep mg_inv env" "mg_inv m'"
    have w: "write_frames env generation (hd (mg_sendQueue m')) (m'\<lparr>mg_sendQueue := tl (mg_sendQueue m')\<rparr>) = Some r
        \<Longrightarrow> mg_inv (snd r)" for r
      using write_frames_inv [OF k(1), of "m'\<lparr>mg_sendQueue := tl (mg_sendQueue m')\<rparr>"] k(2) by simp
    show "mg_inv (snd y)"
      using body k(2) w IH [OF _, THEN mp, OF _ k(1), THEN mp]
      by (auto split: if_splits bind_splits)
  qed
  with assms(2,3) show ?thesis by blast
qed

lemma processSendQueue_inv:
  assumes "slots_keep mg_inv env" and "mg_inv m" and "processSendQueue env m = Some m'"
  shows "mg_inv m'"
  using assms drain_queue_inv [of env _ "m\<lparr>mg_sending := True\<rparr>"]
  by (auto simp: processSendQueue_def split: if_splits bind_splits)

lemma encrypt_frames_inv:
  "cryptor_inv c \<Longrightarrow> encrypt_frames o' c fs = Some (r, c') \<Longrightarrow> cryptor_inv c'"
proof (induction fs arbitrary: c r)
  case Nil
  then show ?case by simp
next
  case (Cons f fs)
  have "cryptor_inv c1" if "encrypt_frame o' c f = Some (r1, c1)" for r1 c1
    using that cryptor_encrypt_inv [OF Cons.prems(1), of o']
    by (auto simp: encrypt_frame_def Let_def split: bind_splits prod.splits data_result.splits)
      (metis snd_conv)+
  with Cons show ?case by (fastforce split: bind_splits sum.splits)
qed

lemma mg_sendMessage_inv:
  assumes k: "slots_keep mg_inv env" and m: "mg_inv m" and s: "mg_sendMessage env ch mid pl m = Some m'"
  shows "mg_inv m'"
proof -
  have enq: "processSendQueue env (enqueue_frames ch fs m1) = Some m2 \<Longrightarrow> mg_inv m1 \<Longrightarrow> mg_inv m2" for fs m1 m2
    using processSendQueue_inv [OF k, of "enqueue_frames ch fs m1"] by (simp add: enqueue_frames_def)
  show ?thesis
  proof (cases "mg_started m \<and> \<not> (mg_tlsFailureEmitted m \<or> mg_protocolFailureEmitted m)")
    case False
    with s m show ?thesis by (auto simp: mg_sendMessage_def split: if_splits)
  next
    case True
    with s obtain m1 where e: "mg_emit env (MessageSent ch mid pl) m = Some m1"
      by (auto simp: mg_sendMessage_def split: bind_splits)
    have m1: "mg_inv m1" by (rule mg_emit_inv [OF k m e])
    have c: "encrypt_frames (env_ssl env) (mg_cryptor m1) fs = Some (r, c) \<Longrightarrow> mg_inv (m1\<lparr>mg_cryptor := c\<rparr>)" for fs r c
      using m1 encrypt_frames_inv by (auto simp: mg_inv_def)
    from s True e m1 show ?thesis
      by (auto simp: mg_sendMessage_def Let_def split: if_splits bind_splits sum.splits
          dest!: c enq dest: fail_inv(2) [OF k])
  qed
qed

lemma driveHandshake_inv:
  assumes k: "slots_keep mg_inv env" and m: "mg_inv m" and d: "driveHandshake env m = Some m'"
  shows "mg_inv m'"
proof -
  obtain r c where h: "cryptor_doHandshake (env_ssl env) (mg_cryptor m) = (r, c)" by fastforce
  obtain out c' where o: "cryptor_readHandshakeBuffer (env_ssl env) c = (out, c')" by fastforce
  have "cryptor_inv c" using cryptor_doHandshake_inv(1) [OF _ h] m by (simp add: mg_inv_def)
  then have "cryptor_inv c'"
    using readWriteBio_inv [of c "env_ssl env"] o by (metis cryptor_readHandshakeBuffer_def snd_conv)
  then have m1: "mg_inv (m\<lparr>mg_cryptor := c'\<rparr>)" using m by (simp add: mg_inv_cryptor)
  show ?thesis
  proof (cases out)
    case (Failed e)
    with d h o m1 show ?thesis by (auto simp: driveHandshake_def Let_def elim!: fail_inv(1) [OF k, rotated])
  next
    case (Complete data)
    from d h o Complete obtain m2 where
      m2: "(if data \<noteq> [] then mg_sendMessage env 0 3 data (m\<lparr>mg_cryptor := c'\<rparr>)
          else Some (m\<lparr>mg_cryptor := c'\<rparr>)) = Some m2"
      by (auto simp: driveHandshake_def Let_def split: bind_splits)
    then have "mg_inv m2" using mg_sendMessage_inv [OF k m1] m1 by (auto split: if_splits)
    with d h o Complete m2 show ?thesis
      by (cases r) (auto simp: driveHandshake_def Let_def elim!: fail_inv(1) [OF k, rotated] mg_emit_inv [OF k, rotated])
  qed
qed

lemma onMessageAssembled_inv:
  assumes k: "slots_keep mg_inv env" and m: "mg_inv m" and d: "onMessageAssembled env ch mt pl m = Some m'"
  shows "mg_inv m'"
proof -
  obtain ok c where w: "cryptor_writeHandshakeBuffer (env_ssl env) (mg_cryptor m) (drop 2 pl) = (ok, c)" by fastforce
  have "cryptor_inv c"
    using cryptor_writeHandshakeBuffer_inv [OF mg_inv_cryptorD [OF m], of "env_ssl env" "drop 2 pl"] w by simp
  then have m1: "mg_inv (m\<lparr>mg_cryptor := c\<rparr>)" using m by (simp add: mg_inv_cryptor)
  have h: "mg_inv x" if "handleHandshakeData env (drop 2 pl) m = Some x" for x
    using that w m1 by (auto simp: handleHandshakeData_def Let_def split: if_splits
        elim!: fail_inv(1) [OF k, rotated] driveHandshake_inv [OF k, rotated])
  from d m show ?thesis
    by (auto simp: onMessageAssembled_def Let_def split: if_splits dest: h
        elim!: fail_inv(3) [OF k, rotated] mg_emit_inv [OF k, rotated])
qed

lemma mg_assemble_inv:
  assumes k: "slots_keep mg_inv env" and m: "mg_inv m" and len: "length pl < 2 ^ 32"
    and d: "mg_assemble env h pl m = Some m'"
  shows "mg_inv m'"
proof -
  obtain a ev where a: "assembler_onFrame (mg_assembler m) h pl = (a, ev)" by fastforce
  have "assembler_inv a" using assembler_onFrame_inv [OF _ len, of "mg_assembler m" h] m a by (simp add: mg_inv_def)
  then have m1: "mg_inv (m\<lparr>mg_assembler := a\<rparr>)"
    using m a assembler_onFrame_sizes [of "mg_assembler m" h pl] by (simp add: mg_inv_def)
  from d a m1 show ?thesis
    by (auto simp: mg_assemble_def Let_def split: option.splits assembly_event.splits
        elim!: fail_inv(3) [OF k, rotated] onMessageAssembled_inv [OF k, rotated])
qed

lemma cryptor_decrypt_bounded:
  "plaintext_bounded o' \<Longrightarrow> cryptor_decrypt o' c x n = Some (Complete pl, c') \<Longrightarrow> length pl < 2 ^ 32"
  by (auto simp: cryptor_decrypt_def failData_def plaintext_bounded_def Let_def
      split: if_splits prod.splits option.splits)

lemma onFrameParsed_inv:
  assumes k: "slots_keep mg_inv env" and pb: "plaintext_bounded (env_ssl env)" and m: "mg_inv m"
    and len: "length x < 2 ^ 32" and d: "onFrameParsed env h x m = Some m'"
  shows "mg_inv m'"
proof -
  have c: "mg_inv (m\<lparr>mg_cryptor := c\<rparr>)"
    if "cryptor_decrypt (env_ssl env) (mg_cryptor m) x n = Some (r, c)" for n r c
    using cryptor_decrypt_inv [OF mg_inv_cryptorD [OF m] that] m by (simp add: mg_inv_cryptor)
  have "mg_inv m'" if "cryptor_decrypt (env_ssl env) (mg_cryptor m) x n = Some (r, c)"
      "(case r of Failed e \<Rightarrow> failTls env e (m\<lparr>mg_cryptor := c\<rparr>)
        | Complete payload \<Rightarrow> mg_assemble env h payload (m\<lparr>mg_cryptor := c\<rparr>)) = Some m'" for n r c
  proof (cases r)
    case (Complete pl)
    with that show ?thesis
      using mg_assemble_inv [OF k c [OF that(1)] cryptor_decrypt_bounded [OF pb]] by auto
  next
    case (Failed e)
    with that show ?thesis using fail_inv(2) [OF k c [OF that(1)]] by auto
  qed
  with d m show ?thesis
    by (auto simp: onFrameParsed_def split: if_splits bind_splits intro: mg_assemble_inv [OF k _ len])
qed

lemma parser_step_payload:
  assumes "parser_inv p" and "parser_step p = Some (p', Some fr)"
  shows "length (snd fr) < 2 ^ 32"
proof -
  have "unat (m_framePayloadSize p) < 65536" using unsigned_less [of "m_framePayloadSize p"] by simp
  with assms show ?thesis
    by (auto simp: parser_step_def parser_inv_def buffer_simps Let_def
        split: parser_state.splits if_splits option.splits)
qed

lemma mg_pump_inv:
  assumes "mg_pump env m = Some r" and "slots_keep mg_inv env" and "plaintext_bounded (env_ssl env)" and "mg_inv m"
  shows "mg_inv r"
proof -
  have "slots_keep mg_inv env \<longrightarrow> plaintext_bounded (env_ssl env) \<longrightarrow> mg_inv m \<longrightarrow> mg_inv r"
    using assms(1)
  proof (rule mg_pump.raw_induct [rotated], intro impI)
    fix pump env m' and y :: "'a messenger"
    assume IH: "\<And>env m y. pump env m = Some y \<Longrightarrow>
        slots_keep mg_inv env \<longrightarrow> plaintext_bounded (env_ssl env) \<longrightarrow> mg_inv m \<longrightarrow> mg_inv y"
      and body: "(case parser_step (mg_parser m') of
         None \<Rightarrow> Some m'
       | Some r \<Rightarrow> (case snd r of
           None \<Rightarrow> pump env (m'\<lparr>mg_parser := fst r\<rparr>)
         | Some fr \<Rightarrow>
             (if mg_started m' then onFrameParsed env (fst fr) (snd fr) (m'\<lparr>mg_parser := fst r\<rparr>)
              else Some (m'\<lparr>mg_parser := fst r\<rparr>)) \<bind> pump env)) = Some y"
      and k: "slots_keep mg_inv env" "plaintext_bounded (env_ssl env)" "mg_inv m'"
    have p: "parser_inv (mg_parser m')" using k(3) by (simp add: mg_inv_def)
    have st: "mg_inv (m'\<lparr>mg_parser := p'\<rparr>)" if "parser_step (mg_parser m') = Some (p', fr)" for p' fr
      using k(3) parser_step_Some(1) [OF p that] by (simp add: mg_inv_def)
    have fr: "mg_inv x" if "parser_step (mg_parser m') = Some (p', Some f)"
        "onFrameParsed env (fst f) (snd f) (m'\<lparr>mg_parser := p'\<rparr>) = Some x" for p' f x
      by (rule onFrameParsed_inv [OF k(1,2) st [OF that(1)] parser_step_payload [OF p that(1)] that(2)])
    have I: "mg_inv y" if "pump env x = Some y" "mg_inv x" for x
      using IH [OF that(1)] k(1,2) that(2) by blast
    have fr': "mg_inv x" if "parser_step (mg_parser m') = Some (p', Some (h, pl))"
        "onFrameParsed env h pl (m'\<lparr>mg_parser := p'\<rparr>) = Some x" for p' h pl x
      using fr [OF that(1)] that(2) by simp
    show "mg_inv y"
      using body k(3) by (auto split: option.splits if_splits bind_splits intro: I [OF _ fr'] I [OF _ st])
  qed
  with assms show ?thesis by blast
qed

lemma mg_apply_inv:
  assumes k: "slots_keep mg_inv env" and pb: "plaintext_bounded (env_ssl env)" and m: "mg_inv m"
    and d: "mg_apply env operation m = Some m'"
  shows "mg_inv m'"
proof -
  have parts: "parser_inv (mg_parser m)" "cryptor_inv (mg_cryptor m)" using m by (simp_all add: mg_inv_def)
  have reset: "parser_inv (parser_reset (mg_parser m))"
    using parser_idle_reset [OF parts(1)] by (simp add: parser_idle_def)
  show ?thesis
  proof (cases operation)
    case OpStart
    with d m reset assembler_inv_reset show ?thesis by (auto simp: mg_start_def mg_inv_def)
  next
    case OpStop
    with d m reset assembler_inv_reset cryptor_deinit_inv [OF parts(2), of "env_ssl env"]
    show ?thesis by (auto simp: mg_stop_def mg_inv_def)
  next
    case (OpSend ch mid pl)
    with d mg_sendMessage_inv [OF k m] show ?thesis by simp
  next
    case (OpSendRaw ch data ft mt et tot)
    with d m show ?thesis
      by (auto simp: mg_sendRaw_def Let_def split: if_splits elim!: processSendQueue_inv [OF k, rotated])
  next
    case OpStartHandshake
    obtain ok c where i: "cryptor_init (env_ssl env) (mg_cryptor m) Client (env_certificate env)
        (env_privateKey env) = (ok, c)" by fastforce
    have "mg_inv (m\<lparr>mg_handshakeFailureEmitted := False, mg_cryptor := c\<rparr>)"
      using cryptor_init_inv(1) [OF parts(2), of "env_ssl env" Client "env_certificate env" "env_privateKey env"] i m
      by (simp add: mg_inv_def)
    with d i OpStartHandshake show ?thesis
      by (auto simp: mg_startHandshake_def Let_def split: if_splits
          elim!: fail_inv(1) [OF k, rotated] driveHandshake_inv [OF k, rotated])
  next
    case (OpData data)
    obtain b where b: "cb_append (m_buffer (mg_parser m)) data = Some b" "cb_inv b"
      using ring.append_law [of "m_buffer (mg_parser m)" data] parts(1) by (auto simp: parser_inv_def)
    have "mg_inv (m\<lparr>mg_parser := (mg_parser m)\<lparr>m_buffer := b\<rparr>\<rparr>)"
      using m b(2) by (simp add: mg_inv_def parser_inv_def)
    with d OpData b(1) m show ?thesis
      by (auto simp: mg_onData_def split: if_splits elim!: mg_pump_inv [OF _ k pb])
  next
    case (OpTransportError msg)
    with d m show ?thesis by (auto simp: mg_onTransportError_def split: if_splits elim!: mg_emit_inv [OF k, rotated])
  qed
qed

text \<open>The states reachable from a new messenger.\<close>

inductive mg_reachable :: "'s messenger_env \<Rightarrow> 's \<Rightarrow> 's messenger \<Rightarrow> bool" for env lib where
  reach_new: "mg_reachable env lib (messenger_new lib)"
| reach_op: "mg_reachable env lib m \<Longrightarrow> mg_apply env operation m = Some m' \<Longrightarrow> mg_reachable env lib m'"

lemma mg_reachable_inv:
  "mg_reachable env lib m \<Longrightarrow> slots_keep mg_inv env \<Longrightarrow> plaintext_bounded (env_ssl env) \<Longrightarrow> mg_inv m"
proof (induction rule: mg_reachable.induct)
  case reach_new
  show ?case
    using parser_idle_new by (simp add: mg_inv_def messenger_new_def parser_idle_def cryptor_inv_new assembler_default_def
        assembler_inv_new) (simp add: assembler_new_def)
next
  case (reach_op m operation m')
  then show ?case by (blast intro: mg_apply_inv)
qed

text \<open>
  C6. In every reachable state, stopping and starting the messenger gives a clean session:
  no byte, partial message or queued frame of the old session is left, the TLS endpoint is
  torn down, no failure is remembered, and pending sends of the old session are recognised by
  the generation.
\<close>

theorem messenger_restart_clean:
  assumes "mg_reachable env lib m" and "slots_keep mg_inv env" and "plaintext_bounded (env_ssl env)"
  shows "mg_idle (mg_start (mg_stop env m)) \<and> \<not> mg_handshakeFailureEmitted (mg_start (mg_stop env m))
    \<and> parser_abs (mg_parser (mg_start (mg_stop env m))) = (AtHeader, [])
    \<and> parser_idle (mg_parser (mg_start (mg_stop env m)))
    \<and> assembler_clear (mg_assembler (mg_start (mg_stop env m)))
    \<and> m_reservedBytes (mg_assembler (mg_start (mg_stop env m))) = 0
    \<and> \<not> mg_isEncrypted (mg_start (mg_stop env m))
    \<and> \<not> m_ssl (mg_cryptor (mg_start (mg_stop env m)))
    \<and> mg_lifecycleGeneration (mg_start (mg_stop env m)) \<noteq> mg_lifecycleGeneration m"
proof -
  have inv: "mg_inv m" by (rule mg_reachable_inv [OF assms])
  then have "parser_inv (parser_reset (mg_parser m))" "cryptor_inv (mg_cryptor m)"
    using parser_idle_reset [of "mg_parser m"] by (simp_all add: mg_inv_def parser_idle_def)
  then have "parser_idle (parser_reset (parser_reset (mg_parser m)))"
      "parser_abs (parser_reset (parser_reset (mg_parser m))) = (AtHeader, [])"
      "\<not> m_active (cryptor_deinit (env_ssl env) (mg_cryptor m))" "\<not> m_ssl (cryptor_deinit (env_ssl env) (mg_cryptor m))"
    using parser_idle_reset [of "parser_reset (mg_parser m)"] cryptor_deinit_inv [of "mg_cryptor m" "env_ssl env"]
    by (simp_all, simp add: parser_abs_def parser_reset_def cb_list_clear)
  with inv assembler_inv_reset [of "assembler_reset (mg_assembler m)"] show ?thesis
    by (simp add: mg_start_def mg_stop_def mg_idle_def mg_isEncrypted_def assembler_clear_def mg_inv_def)
       (simp add: assembler_reset_def)
qed

text \<open>A TLS parameter that never delivers plaintext, before any handshake.\<close>

definition mute_env :: "null_tls messenger_env" where
  "mute_env = null_env\<lparr>env_ssl := null_openssl\<lparr>SSL_read := (\<lambda>s n. (- 1, [], s))\<rparr>\<rparr>"

lemma mute_env_ok: "slots_keep P mute_env" "plaintext_bounded (env_ssl mute_env)"
  by (simp_all add: slots_keep_def mute_env_def null_env_def plaintext_bounded_def read_plain.simps)

lemma mute_reachable: "mg_reachable mute_env lib (mg_start (messenger_new lib))"
  by (rule reach_op [OF reach_new, where operation = OpStart]) simp

theorem messenger_restart_clean_witness:
  "mg_idle (mg_start (mg_stop mute_env (mg_start (messenger_new ([], [], [])))))
    \<and> \<not> mg_isEncrypted (mg_start (mg_stop mute_env (mg_start (messenger_new ([], [], [])))))"
  using messenger_restart_clean [OF mute_reachable mute_env_ok, of "([], [], [])"] by blast

section \<open>Silence after a terminal failure\<close>

definition mg_failed :: "'s messenger \<Rightarrow> bool" where
  "mg_failed m \<longleftrightarrow> mg_started m \<and> (mg_tlsFailureEmitted m \<or> mg_protocolFailureEmitted m)"

fun traffic_op :: "messenger_op \<Rightarrow> bool" where
  "traffic_op (OpSend _ _ _) = True"
| "traffic_op (OpSendRaw _ _ _ _ _ _) = True"
| "traffic_op (OpData _) = True"
| "traffic_op OpStart = True"
| "traffic_op _ = False"

fun mg_run :: "'s messenger_env \<Rightarrow> messenger_op list \<Rightarrow> 's messenger \<Rightarrow> 's messenger option" where
  "mg_run env [] m = Some m"
| "mg_run env (x # xs) m = do { m' \<leftarrow> mg_apply env x m; mg_run env xs m' }"

lemma mg_pump_failed:
  assumes "mg_failed m" and "parser_process p = (q, ws)" and "mg_parser m = p"
  shows "mg_pump env m = Some (m\<lparr>mg_parser := q\<rparr>)"
  using assms
proof (induction p arbitrary: m ws rule: parser_process.induct)
  case (1 p)
  show ?case
  proof (cases "parser_step p")
    case None
    with "1.prems"(2,3) show ?thesis by (subst mg_pump.simps) (simp add: parser_process.simps [of p])
  next
    case (Some r)
    obtain p1 fr where r: "r = (p1, fr)" by (metis surj_pair)
    have f: "mg_failed (m\<lparr>mg_parser := p1\<rparr>)" using "1.prems"(1) by (simp add: mg_failed_def)
    show ?thesis
    proof (cases fr)
      case None
      with "1.prems"(2) Some r have "parser_process p1 = (q, ws)" by (simp add: parser_process.simps [of p])
      with "1.IH"(1) [OF Some r [symmetric] None f] Some r None "1.prems"(3) show ?thesis
        by (subst mg_pump.simps) simp
    next
      case F: (Some w)
      with "1.prems"(2) Some r obtain ws1 where "parser_process p1 = (q, ws1)"
        by (auto simp: parser_process.simps [of p] split: prod.splits)
      with "1.IH"(2) [OF Some r [symmetric] F f]
      have "mg_pump env (m\<lparr>mg_parser := p1\<rparr>) = Some (m\<lparr>mg_parser := q\<rparr>)" by simp
      moreover have "onFrameParsed env (fst w) (snd w) (m\<lparr>mg_parser := p1\<rparr>) = Some (m\<lparr>mg_parser := p1\<rparr>)"
        using f by (simp add: onFrameParsed_def mg_failed_def)
      ultimately show ?thesis using Some r F "1.prems"(3) by (subst mg_pump.simps) simp
    qed
  qed
qed

lemma mg_apply_failed:
  assumes f: "mg_failed m" and p: "parser_inv (mg_parser m)" and t: "traffic_op operation"
  shows "\<exists>q. mg_apply env operation m = Some (m\<lparr>mg_parser := q\<rparr>) \<and> parser_inv q"
proof (cases operation)
  case (OpData d)
  from p have "cb_inv (m_buffer (mg_parser m))" by (simp add: parser_inv_def)
  from ring.append_law [OF this, of d] obtain b where b: "cb_append (m_buffer (mg_parser m)) d = Some b" "cb_inv b"
    by blast
  obtain q ws where q: "parser_process ((mg_parser m)\<lparr>m_buffer := b\<rparr>) = (q, ws)" by fastforce
  have "parser_inv ((mg_parser m)\<lparr>m_buffer := b\<rparr>)" using p b(2) by (simp add: parser_inv_def)
  from parser_process_refines [OF this q] have "parser_inv q" by simp
  moreover have "mg_pump env (m\<lparr>mg_parser := (mg_parser m)\<lparr>m_buffer := b\<rparr>\<rparr>) = Some (m\<lparr>mg_parser := q\<rparr>)"
    using mg_pump_failed [of "m\<lparr>mg_parser := (mg_parser m)\<lparr>m_buffer := b\<rparr>\<rparr>" _ q ws env] f q
    by (simp add: mg_failed_def)
  ultimately show ?thesis using OpData b(1) f
    by (intro exI [of _ q]) (simp add: mg_onData_def mg_failed_def)
next
  case OpStart
  with f p show ?thesis by (intro exI [of _ "mg_parser m"]) (simp add: mg_start_def mg_failed_def)
next
  case (OpSend ch mid pl)
  with f p show ?thesis
    by (intro exI [of _ "mg_parser m"]) (simp add: mg_sendMessage_def mg_failed_def)
next
  case (OpSendRaw ch data ft mt et tot)
  with f p show ?thesis
    by (intro exI [of _ "mg_parser m"]) (simp add: mg_sendRaw_def mg_failed_def Let_def)
qed (use t in simp_all)

text \<open>
  C7. After \<open>tlsFailed\<close> or \<open>protocolFailed\<close>, and until it is stopped, the messenger emits no
  signal and hands nothing to the transport: sends are dropped and received data is consumed
  without effect, and each of these calls returns.
\<close>

theorem messenger_silent_after_failure:
  assumes "mg_failed m" and "parser_inv (mg_parser m)" and "list_all traffic_op ops"
  shows "\<exists>q. mg_run env ops m = Some (m\<lparr>mg_parser := q\<rparr>)"
  using assms
proof (induction ops arbitrary: m)
  case Nil
  then show ?case by (intro exI [of _ "mg_parser m"]) simp
next
  case (Cons x xs)
  from mg_apply_failed [OF Cons.prems(1,2), of x env] Cons.prems(3) obtain q where
    q: "mg_apply env x m = Some (m\<lparr>mg_parser := q\<rparr>)" "parser_inv q" by auto
  have "mg_failed (m\<lparr>mg_parser := q\<rparr>)" using Cons.prems(1) by (simp add: mg_failed_def)
  from Cons.IH [OF this] q Cons.prems(3) show ?case by auto
qed

text \<open>A messenger that received a continuation frame without a first frame.\<close>

definition failed_messenger :: "null_tls messenger" where
  "failed_messenger = the (mg_assemble null_env \<lparr>channelId = 3, frameType = Last, encryptionType = Plain,
     messageType = Specific, totalMessageSize = 0\<rparr> [1, 2] (mg_start (messenger_new ([], [], []))))"

lemma failed_messenger_parts:
  "mg_started failed_messenger" "mg_protocolFailureEmitted failed_messenger"
  "mg_log failed_messenger = [ProtocolFailed (AssemblyError (ContinuationWithoutFirst 3))]"
  "mg_parser failed_messenger = parser_reset parser_new"
  by (simp_all add: failed_messenger_def mg_assemble_def mg_start_def messenger_new_def Let_def
      assembler_onFrame_def assembler_onContinuation_def assembler_reset_def assembler_fail_def
      failProtocol_def mg_emit_def null_env_def)

theorem messenger_silent_after_failure_witness:
  "\<exists>q. mg_run null_env [OpSend 3 1 [7], OpData [3, 11, 0, 2, 0, 9], OpSendRaw 3 [1] Bulk Specific Plain 0]
     failed_messenger = Some (failed_messenger\<lparr>mg_parser := q\<rparr>)"
proof (rule messenger_silent_after_failure)
  show "mg_failed failed_messenger" by (simp add: mg_failed_def failed_messenger_parts)
  show "parser_inv (mg_parser failed_messenger)"
    using parser_idle_new parser_idle_reset by (auto simp: failed_messenger_parts parser_idle_def)
qed simp

section \<open>Sends from within a write\<close>

text \<open>
  A TLS parameter that stamps each record with its sequence number, as the TLS record
  protocol authenticates it: a receiver accepts the records of a connection in the order of
  their stamps only.
\<close>

type_synonym stamp_tls = "byte \<times> bytes"

definition stamp_openssl :: "stamp_tls openssl" where
  "stamp_openssl = \<lparr>ERR_clear_error = (\<lambda>s. s), ERR_get_error = (\<lambda>s. (0, s)),
     ERR_error_string_n = (\<lambda>n. []), SSL_init_call = (\<lambda>c r x y s. (True, s)),
     SSL_set_up = (\<lambda>r s. s), SSL_free = (\<lambda>s. (0, [])), SSL_CTX_free = (\<lambda>s. s),
     SSL_do_handshake = (\<lambda>s. (1, s)), SSL_get_error = (\<lambda>s r. SSL_ERROR_WANT_READ),
     SSL_write = (\<lambda>(n, out) x. (int (length x), (n + 1, out @ null_record (n # x)))),
     SSL_read = (\<lambda>s n. (- 1, [], s)),
     BIO_write = (\<lambda>s x. (int (length x), s)),
     BIO_ctrl_pending = (\<lambda>(n, out). int (length out)),
     BIO_read = (\<lambda>(n, out) k. (int (length (take k out)), take k out, (n, drop k out)))\<rparr>"

definition stamp_cryptor :: "byte \<Rightarrow> stamp_tls cryptor" where
  "stamp_cryptor n = \<lparr>m_ctx = True, m_ssl = True, m_readBio = True, m_writeBio = True, m_active = True,
     m_lastError = [], c_lib = (n, [])\<rparr>"

definition stamp_env :: "stamp_tls messenger_env" where
  "stamp_env = \<lparr>env_ssl = stamp_openssl, env_certificate = [], env_privateKey = [],
     env_obs = (\<lambda>e m. Some m)\<rparr>"

definition stamp_messenger :: "stamp_tls messenger" where
  "stamp_messenger = (mg_start (messenger_new (0, [])))\<lparr>mg_cryptor := stamp_cryptor 0\<rparr>"

text \<open>A slot that, during the first write, sends on channel 4 and then a touch event on channel 1.\<close>

definition touch_during_write :: "messenger_event \<Rightarrow> stamp_tls messenger \<Rightarrow> stamp_tls messenger option" where
  "touch_during_write e m = (if length (mg_log m) = 2
     then do { m' \<leftarrow> mg_sendMessage stamp_env 4 2 [] m; mg_sendMessage stamp_env 1 32769 [] m' }
     else Some m)"

definition touch_env :: "stamp_tls messenger_env" where
  "touch_env = stamp_env\<lparr>env_obs := touch_during_write\<rparr>"

lemma touch_env_simps: "env_ssl touch_env = stamp_openssl" "env_obs touch_env = touch_during_write"
  by (simp_all add: touch_env_def stamp_env_def)

definition stamped :: "byte \<Rightarrow> u16 \<Rightarrow> bytes \<Rightarrow> byte \<Rightarrow> bytes" where
  "stamped ch mid pl n = frame_bytes (frame_hdr ch Bulk Encrypted (msgType_of ch mid) 0,
     null_record (n # fullPayload mid pl))"

lemma stamp_encrypt:
  assumes "x \<noteq> []" and "length x \<le> FRAME_MAX_PAYLOAD"
  shows "cryptor_encrypt stamp_openssl (stamp_cryptor n) x = (Complete (null_record (n # x)), stamp_cryptor (n + 1))"
proof -
  let ?ct = "null_record (n # x)"
  have w: "write_all (ERR_clear_error stamp_openssl) (SSL_write stamp_openssl) x (n, []) = (None, (n + 1, ?ct))"
    using assms(1) by (intro write_all_whole) (simp_all add: stamp_openssl_def)
  have r: "read_bio stamp_openssl (length ?ct) [] (n + 1, ?ct) = (Some ?ct, (n + 1, []))"
    by (intro read_bio_whole) (simp_all add: stamp_openssl_def null_record_fields)
  have "?ct \<noteq> []" "BIO_ctrl_pending stamp_openssl (n + 1, ?ct) = int (length ?ct)"
      "\<not> 2147483647 < int (length ?ct)"
    using assms(2) by (simp_all add: stamp_openssl_def null_record_def FRAME_MAX_PAYLOAD_def)
  with assms w r show ?thesis
    by (simp add: cryptor_encrypt_def stamp_cryptor_def readWriteBio_def)
qed

lemma stamp_frames:
  assumes "length pl < 16000"
  shows "encrypt_frames stamp_openssl (stamp_cryptor n)
      (frame_serialize ch (msgType_of ch mid) Encrypted (fullPayload mid pl)) =
    Some (Inr [stamped ch mid pl n], stamp_cryptor (n + 1))"
proof -
  let ?h = "frame_hdr ch Bulk Encrypted (msgType_of ch mid) 0"
  have len: "length (fullPayload mid pl) \<le> FRAME_MAX_PAYLOAD" using assms by (simp add: FRAME_MAX_PAYLOAD_def)
  then have "frame_serialize ch (msgType_of ch mid) Encrypted (fullPayload mid pl) = [frame_bytes (?h, fullPayload mid pl)]"
    by (simp add: frame_serialize_def frame_bytes_def frame_hdr_def)
  moreover have "encrypt_frame stamp_openssl (stamp_cryptor n) (frame_bytes (?h, fullPayload mid pl)) =
      Some (Inr (stamped ch mid pl n), stamp_cryptor (n + 1))"
    unfolding stamped_def by (rule encrypt_frame_bytes [OF _ stamp_encrypt [OF fullPayload_nonempty len]])
      (simp add: frame_hdr_def)
  ultimately show ?thesis by simp
qed

lemma stamp_send_while_sending:
  assumes "mg_started m" "\<not> mg_tlsFailureEmitted m" "\<not> mg_protocolFailureEmitted m" "mg_sending m"
    and "mg_cryptor m = stamp_cryptor n" and "ch \<noteq> 0" and "length pl < 16000"
  shows "mg_sendMessage stamp_env ch mid pl m = Some (enqueue_frames ch [stamped ch mid pl n]
    (m\<lparr>mg_log := mg_log m @ [MessageSent ch mid pl], mg_cryptor := stamp_cryptor (n + 1)\<rparr>))"
  using assms stamp_frames [OF assms(7), of n ch mid]
  by (simp add: mg_sendMessage_def mg_emit_def stamp_env_def shouldEncrypt_def processSendQueue_def
      enqueue_frames_def) (simp add: stamp_cryptor_def)

lemma drain_queue_Cons:
  "mg_started m \<Longrightarrow> mg_lifecycleGeneration m = g \<Longrightarrow> mg_sendQueue m = q # qs \<Longrightarrow>
    drain_queue env g m = write_frames env g q (m\<lparr>mg_sendQueue := qs\<rparr>) \<bind>
      (\<lambda>r. if fst r then Some r else drain_queue env g (snd r))"
  by (subst drain_queue.simps) simp

lemma drain_queue_Nil: "mg_sendQueue m = [] \<Longrightarrow> drain_queue env g m = Some (False, m)"
  by (subst drain_queue.simps) simp

text \<open>
  The priority of the input channel reorders the send queue after its frames were
  encrypted. When a slot sends during a write to the transport, a message on channel 4 and then
  a touch event, the touch event is written first although its record was sealed second: the
  wire carries the records with stamps 0, 2, 1, an order in which no TLS peer accepts them.
\<close>

lemma input_priority_reorders_records:
  "map_option mg_log (mg_sendMessage touch_env 3 1 [7] stamp_messenger) =
   Some [MessageSent 3 1 [7], TransportWrite (stamped 3 1 [7] 0), MessageSent 4 2 [], MessageSent 1 32769 [],
         TransportWrite (stamped 1 32769 [] 2), TransportWrite (stamped 4 2 [] 1)]"
proof -
  have f: "encrypt_frames stamp_openssl (stamp_cryptor 0)
      (frame_serialize 3 (msgType_of 3 1) Encrypted (fullPayload 1 [7])) =
    Some (Inr [stamped 3 1 [7] 0], stamp_cryptor 1)"
    using stamp_frames [of "[7]" 0 3 1] by simp
  have act: "m_active (stamp_cryptor n)" for n by (simp add: stamp_cryptor_def)
  show ?thesis
    by (simp add: mg_sendMessage_def [of touch_env] stamp_messenger_def
        mg_start_def messenger_new_def mg_emit_def touch_env_simps touch_during_write_def shouldEncrypt_def
        act f [simplified] processSendQueue_def enqueue_frames_def ChannelId_Input_def drain_queue_Cons drain_queue_Nil
        stamp_send_while_sending Let_def del: be_bytes.simps)
qed

end
