(* ===== verification/Protocol_Policy.thy ===== *)
theory Protocol_Policy
  imports Prelude
begin

text \<open>
  The protocol version policy of a session: \<open>ProtocolVersion\<close> and
  \<open>SessionProtocolPolicy\<close> (\<open>oaa/Session/SessionProtocolPolicy.hpp\<close>), and the versions the
  head unit accepts from its configuration (\<open>GalVersionPolicy.cpp\<close>).
\<close>

record protocol_version =
  pv_major :: u16
  pv_minor :: u16

abbreviation version :: "u16 \<Rightarrow> u16 \<Rightarrow> protocol_version" where
  "version a b \<equiv> \<lparr>pv_major = a, pv_minor = b\<rparr>"

definition version_less :: "protocol_version \<Rightarrow> protocol_version \<Rightarrow> bool" where
  "version_less v w \<longleftrightarrow> pv_major v < pv_major w \<or> (pv_major v = pv_major w \<and> pv_minor v < pv_minor w)"

definition version_ge :: "protocol_version \<Rightarrow> protocol_version \<Rightarrow> bool" where
  "version_ge v w \<longleftrightarrow> \<not> version_less v w"

definition kGalVersion1_7 :: protocol_version where "kGalVersion1_7 = version 1 7"
definition kGalVersion4_3 :: protocol_version where "kGalVersion4_3 = version 4 3"
definition kGalVersion5_0 :: protocol_version where "kGalVersion5_0 = version 5 0"
definition kGalVersion5_1 :: protocol_version where "kGalVersion5_1 = version 5 1"
definition kGalVersion6_0 :: protocol_version where "kGalVersion6_0 = version 6 0"

text \<open>A policy is the requested version; the predicates compare it with a threshold.\<close>

definition atLeast_version :: "protocol_version \<Rightarrow> protocol_version \<Rightarrow> bool" where
  "atLeast_version requested threshold = version_ge requested threshold"

definition requiresMinimumCompatibleResponse :: "protocol_version \<Rightarrow> bool" where
  "requiresMinimumCompatibleResponse p = atLeast_version p kGalVersion4_3"

definition usesModernDisplayPolicy :: "protocol_version \<Rightarrow> bool" where
  "usesModernDisplayPolicy p = atLeast_version p kGalVersion4_3"

definition usesAcklessAudio :: "protocol_version \<Rightarrow> bool" where
  "usesAcklessAudio p = atLeast_version p kGalVersion5_0"

definition requiresSingleVideoCodecPerDisplay :: "protocol_version \<Rightarrow> bool" where
  "requiresSingleVideoCodecPerDisplay p = atLeast_version p kGalVersion5_0"

definition acceptsAudioMediaOptions :: "protocol_version \<Rightarrow> bool" where
  "acceptsAudioMediaOptions p = atLeast_version p kGalVersion5_1"

definition acceptsVehicleEnergyForecast :: "protocol_version \<Rightarrow> bool" where
  "acceptsVehicleEnergyForecast p = atLeast_version p kGalVersion5_1"

definition acceptsVideoMediaOptions :: "protocol_version \<Rightarrow> bool" where
  "acceptsVideoMediaOptions p = atLeast_version p kGalVersion6_0"

section \<open>Configured versions\<close>

definition kHighestAcceptedGalVersion :: protocol_version where
  "kHighestAcceptedGalVersion = kGalVersion6_0"

definition galVersionToString :: "protocol_version \<Rightarrow> string" where
  "galVersionToString v = dec_string (unat (pv_major v)) @ ''.'' @ dec_string (unat (pv_minor v))"

definition parseSupportedGalVersion :: "string \<Rightarrow> protocol_version option" where
  "parseSupportedGalVersion text =
     (if text = ''1.7'' then Some kGalVersion1_7
      else if text = ''4.3'' then Some kGalVersion4_3
      else if text = ''5.0'' then Some kGalVersion5_0
      else if text = ''5.1'' then Some kGalVersion5_1
      else if text = ''6.0'' then Some kGalVersion6_0
      else None)"

text \<open>The argument is the string configured under \<open>connection.gal_version\<close>.\<close>

definition resolveConfiguredGalVersion :: "string \<Rightarrow> protocol_version" where
  "resolveConfiguredGalVersion configured = (case parseSupportedGalVersion configured of
     Some v \<Rightarrow> v
   | None \<Rightarrow> kHighestAcceptedGalVersion)"

definition supportedGalVersionStrings :: "string list" where
  "supportedGalVersionStrings = [''1.7'', ''4.3'', ''5.0'', ''5.1'', ''6.0'']"

section \<open>The comparison is a linear order\<close>

lemma version_ge_iff:
  "version_ge v w \<longleftrightarrow> pv_major w < pv_major v \<or> (pv_major v = pv_major w \<and> pv_minor w \<le> pv_minor v)"
  by (auto simp: version_ge_def version_less_def not_less)

lemma version_ge_refl [simp]: "version_ge v v"
  by (simp add: version_ge_iff)

lemma version_ge_trans: "version_ge u v \<Longrightarrow> version_ge v w \<Longrightarrow> version_ge u w"
  by (auto simp: version_ge_iff)

lemma version_ge_antisym: "version_ge u v \<Longrightarrow> version_ge v u \<Longrightarrow> u = v"
  by (cases u; cases v) (auto simp: version_ge_iff)

lemma version_ge_total: "version_ge u v \<or> version_ge v u"
  by (auto simp: version_ge_iff)

lemmas gal_versions =
  kGalVersion1_7_def kGalVersion4_3_def kGalVersion5_0_def kGalVersion5_1_def kGalVersion6_0_def

text \<open>The features form a chain: a later one is on only if the earlier ones are.\<close>

lemma policy_chain:
  "acceptsVideoMediaOptions p \<Longrightarrow> acceptsAudioMediaOptions p"
  "acceptsAudioMediaOptions p \<Longrightarrow> usesAcklessAudio p"
  "usesAcklessAudio p \<Longrightarrow> requiresMinimumCompatibleResponse p"
  unfolding acceptsVideoMediaOptions_def acceptsAudioMediaOptions_def usesAcklessAudio_def
    requiresMinimumCompatibleResponse_def atLeast_version_def
  by (erule version_ge_trans; simp add: version_ge_iff gal_versions)+

lemma parseSupported_toString:
  "(\<exists>v. parseSupportedGalVersion s = Some v) \<longleftrightarrow> s \<in> set supportedGalVersionStrings"
  "parseSupportedGalVersion s = Some v \<Longrightarrow> galVersionToString v = s"
proof -
  show "(\<exists>v. parseSupportedGalVersion s = Some v) \<longleftrightarrow> s \<in> set supportedGalVersionStrings"
    by (auto simp: parseSupportedGalVersion_def supportedGalVersionStrings_def)
  assume "parseSupportedGalVersion s = Some v"
  then consider "s = ''1.7''" "v = kGalVersion1_7" | "s = ''4.3''" "v = kGalVersion4_3"
    | "s = ''5.0''" "v = kGalVersion5_0" | "s = ''5.1''" "v = kGalVersion5_1"
    | "s = ''6.0''" "v = kGalVersion6_0"
    by (auto simp: parseSupportedGalVersion_def split: if_splits)
  then show "galVersionToString v = s"
    by cases (simp_all add: galVersionToString_def gal_versions dec_digit char_of_def bit_Suc_0_iff)
qed

end
