(* ===== verification/Control_Channel.thy ===== *)
theory Control_Channel
  imports Protocol_Policy Frame_Header
begin

text \<open>
  \<open>oaa::ControlChannel\<close>: the handler of channel 0. It keeps no state: an incoming message
  becomes the signals it emits, in order, and each \<open>send\<dots>\<close> function one
  \<open>sendRequested\<close>. The protobuf code is a parameter: parsers that may fail, with the field the
  code reads, and the serialisation of the messages it builds.
\<close>

datatype status_code = StatusOK | AuthenticationFailure | InvalidChannel

text \<open>The audio focus enumerations that the session maps into each other.\<close>

datatype audio_focus_type =
    FocusGain | FocusGainTransient | FocusGainTransientMayDuck | FocusRelease | FocusOther int

datatype audio_focus_state =
    StateGain | StateGainTransient | StateGainTransientGuidanceOnly | StateLoss | StateInvalid

datatype driver_position = DriverLeft | DriverRight

datatype proto_message =
    AuthCompleteIndication status_code
  | ChannelOpenResponse status_code
  | PingRequest int
  | PingResponse int
  | ShutdownRequest int
  | ByeByeResponse
  | CallAvailabilityStatus bool
  | VoiceSessionRequest int
  | AudioFocusResponse audio_focus_state
  | ServiceDiscoveryResponse "(string \<times> string) list" driver_position bool "int option" "bytes list"

record control_protos =
  parse_ChannelOpenRequest :: "bytes \<Rightarrow> int option"
  parse_PingRequest :: "bytes \<Rightarrow> int option"
  parse_PingResponse :: "bytes \<Rightarrow> int option"
  parse_ShutdownRequest :: "bytes \<Rightarrow> int option"
  parse_AudioFocusRequest :: "bytes \<Rightarrow> audio_focus_type option"
  serialize_proto :: "proto_message \<Rightarrow> bytes"

datatype control_signal =
    SendRequested byte u16 bytes
  | UnknownMessage u16 bytes
  | VersionReceived u16 u16 u16 bytes
  | VersionResponseMalformed int
  | SslHandshakeData bytes
  | ServiceDiscoveryRequested bytes
  | ChannelOpenRequested int bytes
  | PingReceived int
  | PongReceived int
  | NavigationFocusRequested bytes
  | ShutdownRequested int
  | ShutdownAcknowledged
  | VoiceSessionRequested bytes
  | AudioFocusRequested bytes
  | VoiceSessionSent int

section \<open>Outgoing messages\<close>

definition sendVersionRequest :: "u16 \<Rightarrow> u16 \<Rightarrow> control_signal list" where
  "sendVersionRequest major minor =
     [SendRequested 0 0x0001 (be_bytes 2 (unat major) @ be_bytes 2 (unat minor))]"

definition sendAuthComplete :: "control_protos \<Rightarrow> bool \<Rightarrow> control_signal list" where
  "sendAuthComplete p success = [SendRequested 0 0x0004 (serialize_proto p
     (AuthCompleteIndication (if success then StatusOK else AuthenticationFailure)))]"

definition sendChannelOpenResponse :: "control_protos \<Rightarrow> byte \<Rightarrow> bool \<Rightarrow> control_signal list" where
  "sendChannelOpenResponse p target accepted = [SendRequested target 0x0008 (serialize_proto p
     (ChannelOpenResponse (if accepted then StatusOK else InvalidChannel)))]"

definition sendPingRequest :: "control_protos \<Rightarrow> int \<Rightarrow> control_signal list" where
  "sendPingRequest p ts = [SendRequested 0 0x000b (serialize_proto p (PingRequest ts))]"

definition sendPingResponse :: "control_protos \<Rightarrow> int \<Rightarrow> control_signal list" where
  "sendPingResponse p ts = [SendRequested 0 0x000c (serialize_proto p (PingResponse ts))]"

definition sendShutdownRequest :: "control_protos \<Rightarrow> int \<Rightarrow> control_signal list" where
  "sendShutdownRequest p reason = [SendRequested 0 0x000f (serialize_proto p (ShutdownRequest reason))]"

definition sendShutdownResponse :: "control_protos \<Rightarrow> control_signal list" where
  "sendShutdownResponse p = [SendRequested 0 0x0010 (serialize_proto p ByeByeResponse)]"

definition sendAudioFocusResponse :: "bytes \<Rightarrow> control_signal list" where
  "sendAudioFocusResponse payload = [SendRequested 0 0x0013 payload]"

definition sendNavigationFocusResponse :: "bytes \<Rightarrow> control_signal list" where
  "sendNavigationFocusResponse payload = [SendRequested 0 0x000e payload]"

definition sendCallAvailability :: "control_protos \<Rightarrow> bool \<Rightarrow> control_signal list" where
  "sendCallAvailability p available =
     [SendRequested 0 0x0018 (serialize_proto p (CallAvailabilityStatus available))]"

definition sendVoiceSessionRequest :: "control_protos \<Rightarrow> int \<Rightarrow> control_signal list" where
  "sendVoiceSessionRequest p sessionType =
     [SendRequested 0 0x0011 (serialize_proto p (VoiceSessionRequest sessionType)),
      VoiceSessionSent sessionType]"

section \<open>Incoming messages\<close>

definition be_u16 :: "bytes \<Rightarrow> u16" where
  "be_u16 bs = of_nat (be_val (take 2 bs))"

definition control_onMessage :: "control_protos \<Rightarrow> u16 \<Rightarrow> bytes \<Rightarrow> nat \<Rightarrow> control_signal list" where
  "control_onMessage p mid payload dataOffset = (
     let data = drop dataOffset payload in
     if mid = 0x0002 then
       if length data < 6 then [VersionResponseMalformed (int (length data))]
       else [VersionReceived (be_u16 data) (be_u16 (drop 2 data)) (be_u16 (drop 4 data)) (drop 6 data)]
     else if mid = 0x0003 then [SslHandshakeData data]
     else if mid = 0x0005 then [ServiceDiscoveryRequested data]
     else if mid = 0x0007 then
       (case parse_ChannelOpenRequest p data of
          Some ch \<Rightarrow> [ChannelOpenRequested ch data]
        | None \<Rightarrow> [])
     else if mid = 0x000b then
       (case parse_PingRequest p data of
          Some ts \<Rightarrow> sendPingResponse p ts @ [PingReceived ts]
        | None \<Rightarrow> [])
     else if mid = 0x000c then
       (case parse_PingResponse p data of
          Some ts \<Rightarrow> [PongReceived ts]
        | None \<Rightarrow> [])
     else if mid = 0x000d then [NavigationFocusRequested data]
     else if mid = 0x000f then
       (case parse_ShutdownRequest p data of
          Some reason \<Rightarrow> [ShutdownRequested reason]
        | None \<Rightarrow> [ShutdownRequested 0])
     else if mid = 0x0010 then [ShutdownAcknowledged]
     else if mid = 0x0011 then [VoiceSessionRequested data]
     else if mid = 0x0012 then [AudioFocusRequested data]
     else if mid = 0x0009 \<or> mid = 0x0018 \<or> mid = 0x001a then []
     else [UnknownMessage mid data])"

section \<open>The version exchange on the wire\<close>

text \<open>
  The version response carries three big-endian words; what a peer writes is what the signal
  reports.
\<close>

lemma be_u16_be_bytes: "be_u16 (be_bytes 2 (unat w) @ bs) = w"
proof -
  have "unat w < 256 ^ 2" using unsigned_less [of w] by simp
  then show ?thesis by (simp add: be_u16_def be_val_be_bytes del: be_bytes.simps)
qed

lemma version_response_roundtrip:
  assumes "length hdr = dataOffset"
  shows "control_onMessage p 0x0002 (hdr @ be_bytes 2 (unat major) @ be_bytes 2 (unat minor)
      @ be_bytes 2 (unat status) @ trailing) dataOffset =
    [VersionReceived major minor status trailing]"
proof -
  have "drop 2 (be_bytes 2 a @ xs) = xs" "drop 4 (be_bytes 2 a @ be_bytes 2 b @ xs) = xs"
      "drop 6 (be_bytes 2 a @ be_bytes 2 b @ be_bytes 2 c @ xs) = xs" for a b c xs
    by (simp_all del: be_bytes.simps)
  with assms show ?thesis
    by (simp add: control_onMessage_def Let_def be_u16_be_bytes del: be_bytes.simps)
qed

lemma control_sends_at_most_pong:
  "SendRequested ch mid' pl \<in> set (control_onMessage p mid payload off) \<Longrightarrow> ch = 0 \<and> mid' = 0x000c \<and> mid = 0x000b"
  by (auto simp: control_onMessage_def Let_def sendPingResponse_def split: if_splits option.splits)

end
