(* ===== verification/Session.thy ===== *)
theory Session
  imports Control_Channel
begin

text \<open>
  \<open>oaa::AASession\<close> (\<open>AASession.cpp\<close>): the session state machine from connecting to the
  phone to the active session and its end, with the registry of service channels, the
  timers and the liveness check.

  The session calls into the messenger and the channel handlers and emits signals; whatever
  these do to the session before they return is \<open>se_obs\<close>, an arbitrary function. Channel
  handlers are values of a type \<open>'h\<close>; \<open>ss_connected\<close> holds those whose \<open>sendRequested\<close> is
  connected to the messenger. A timer is \<open>Some\<close> its interval while it is active.
  \<open>ss_log\<close> records the calls and signals in order.
\<close>

section \<open>State\<close>

datatype session_state =
  Idle | Connecting | VersionExchange | TLSHandshake | ServiceDiscovery | Active | ShuttingDown
  | Disconnected

datatype disconnect_reason =
  Normal | PingTimeout | TransportErrorReason | VersionMismatch | Timeout | UserRequested
  | HandshakeError | TlsError | ProtocolError

record session_config =
  protocolMajor :: u16
  protocolMinor :: u16
  headUnitName :: string
  carModel :: string
  carYear :: string
  carSerial :: string
  leftHandDrive :: bool
  manufacturer :: string
  hu_model :: string
  swBuild :: string
  swVersion :: string
  canPlayNativeMediaDuringVr :: bool
  sessionConfiguration :: int
  versionTimeout :: int
  handshakeTimeout :: int
  discoveryTimeout :: int
  pingInterval :: int
  pingTimeout :: int
  cfg_channels :: "(byte \<times> bytes) list"

definition protocolPolicy :: "session_config \<Rightarrow> protocol_version" where
  "protocolPolicy c = version (protocolMajor c) (protocolMinor c)"

datatype 'h session_event =
    StateChanged session_state
  | ChannelOpened byte
  | ChannelClosed byte
  | ChannelOpenRejected int
  | DisconnectedBy disconnect_reason
  | AudioFocusChanged int
  | MessengerStart
  | MessengerStop
  | MessengerStartHandshake
  | SendMessage byte u16 bytes
  | HandlerConfigured 'h protocol_version
  | HandlerOpened 'h
  | HandlerClosed 'h
  | HandlerMessage 'h u16 bytes nat
  | HandlerMedia 'h bytes u64
  | ControlSignalled control_signal

record 'h session =
  ss_config :: session_config
  ss_channels :: "(byte \<times> 'h) list"
  ss_openChannels :: "byte set"
  ss_state :: session_state
  ss_stateTimer :: "int option"
  ss_pingTimer :: "int option"
  ss_pongDeadlineTimer :: "int option"
  ss_lastPingTimestamp :: int
  ss_outstandingPings :: "int set"
  ss_warnedNonControlOpen :: "byte set"
  ss_warnedLegacyClose :: "byte set"
  ss_channelsClosed :: bool
  ss_finalized :: bool
  ss_messengerStarted :: bool
  ss_connected :: "'h set"
  ss_log :: "'h session_event list"

record 'h session_env =
  se_protos :: control_protos
  se_obs :: "'h session_event \<Rightarrow> 'h session \<Rightarrow> 'h session"
  se_isConnected :: "'h session \<Rightarrow> bool"
  se_now :: "'h session \<Rightarrow> int"
  se_isAV :: "'h \<Rightarrow> bool"

definition ss_emit :: "'h session_env \<Rightarrow> 'h session_event \<Rightarrow> 'h session \<Rightarrow> 'h session" where
  "ss_emit env e s = se_obs env e (s\<lparr>ss_log := ss_log s @ [e]\<rparr>)"

text \<open>
  \<open>Messenger::start\<close> and \<open>stop\<close> emit no signal, so nothing runs on their way.
\<close>

definition ss_messenger_start :: "'h session \<Rightarrow> 'h session" where
  "ss_messenger_start s = s\<lparr>ss_messengerStarted := True, ss_log := ss_log s @ [MessengerStart]\<rparr>"

definition ss_messenger_stop :: "'h session \<Rightarrow> 'h session" where
  "ss_messenger_stop s = s\<lparr>ss_messengerStarted := False, ss_log := ss_log s @ [MessengerStop]\<rparr>"

section \<open>Construction\<close>

definition default_pingInterval :: int where "default_pingInterval = 5000"
definition default_pingTimeout :: int where "default_pingTimeout = 15000"

definition session_new :: "session_config \<Rightarrow> 'h session" where
  "session_new cfg = \<lparr>ss_config = cfg\<lparr>
       pingInterval := (if pingInterval cfg \<le> 0 then default_pingInterval else pingInterval cfg),
       pingTimeout := (if pingTimeout cfg \<le> 0 then default_pingTimeout else pingTimeout cfg)\<rparr>,
     ss_channels = [], ss_openChannels = {}, ss_state = Idle, ss_stateTimer = None,
     ss_pingTimer = None, ss_pongDeadlineTimer = None, ss_lastPingTimestamp = 0,
     ss_outstandingPings = {}, ss_warnedNonControlOpen = {}, ss_warnedLegacyClose = {},
     ss_channelsClosed = True, ss_finalized = False, ss_messengerStarted = False,
     ss_connected = {}, ss_log = []\<rparr>"

section \<open>Timers and channel registry\<close>

definition startStateTimer :: "int \<Rightarrow> 'h session \<Rightarrow> 'h session" where
  "startStateTimer timeoutMs s = s\<lparr>ss_stateTimer := Some timeoutMs\<rparr>"

definition stopStateTimer :: "'h session \<Rightarrow> 'h session" where
  "stopStateTimer s = s\<lparr>ss_stateTimer := None\<rparr>"

definition stopLivenessTimers :: "'h session \<Rightarrow> 'h session" where
  "stopLivenessTimers s = s\<lparr>ss_pingTimer := None, ss_pongDeadlineTimer := None,
     ss_outstandingPings := {}\<rparr>"

definition connectHandler :: "'h \<Rightarrow> 'h session \<Rightarrow> 'h session" where
  "connectHandler h s = s\<lparr>ss_connected := insert h (ss_connected s)\<rparr>"

definition disconnectHandler :: "'h \<Rightarrow> 'h session \<Rightarrow> 'h session" where
  "disconnectHandler h s = s\<lparr>ss_connected := ss_connected s - {h}\<rparr>"

definition supportsExplicitReopenLifecycle :: "byte \<Rightarrow> bool" where
  "supportsExplicitReopenLifecycle ch \<longleftrightarrow> ch = 12 \<or> ch = 13"

abbreviation handler_of :: "'h session \<Rightarrow> byte \<Rightarrow> 'h option" where
  "handler_of s ch \<equiv> map_of (ss_channels s) ch"

fun set_handler :: "byte \<Rightarrow> 'h \<Rightarrow> (byte \<times> 'h) list \<Rightarrow> (byte \<times> 'h) list" where
  "set_handler ch h [] = [(ch, h)]"
| "set_handler ch h ((c, x) # cs) = (if c = ch then (ch, h) # cs else (c, x) # set_handler ch h cs)"

definition close_handlers :: "'h session_env \<Rightarrow> 'h list \<Rightarrow> 'h session \<Rightarrow> 'h session" where
  "close_handlers env hs s =
     fold (\<lambda>h s. ss_emit env (HandlerClosed h) (disconnectHandler h s)) hs s"

definition closeChannels :: "'h session_env \<Rightarrow> 'h session \<Rightarrow> 'h session" where
  "closeChannels env s0 = (
     let s = ss_messenger_stop (stopLivenessTimers (stopStateTimer s0)) in
     if ss_channelsClosed s then s
     else (close_handlers env (map snd (ss_channels s)) (s\<lparr>ss_channelsClosed := True\<rparr>))
            \<lparr>ss_openChannels := {}\<rparr>)"

definition setState :: "'h session_env \<Rightarrow> session_state \<Rightarrow> 'h session \<Rightarrow> 'h session" where
  "setState env newState s = (
     if ss_state s = newState then s
     else let s1 = s\<lparr>ss_state := newState\<rparr>;
              s2 = (if newState = Disconnected then closeChannels env s1 else s1)
          in ss_emit env (StateChanged newState) s2)"

definition disconnect_with :: "'h session_env \<Rightarrow> disconnect_reason \<Rightarrow> 'h session \<Rightarrow> 'h session" where
  "disconnect_with env reason s = ss_emit env (DisconnectedBy reason) (setState env Disconnected s)"

definition closeServiceChannel :: "'h session_env \<Rightarrow> byte \<Rightarrow> 'h session \<Rightarrow> 'h session" where
  "closeServiceChannel env ch s = (
     if ch \<notin> ss_openChannels s then s
     else case handler_of s ch of
       None \<Rightarrow> s\<lparr>ss_openChannels := ss_openChannels s - {ch}\<rparr>
     | Some h \<Rightarrow>
         let s1 = ss_emit env (HandlerClosed h)
                    (disconnectHandler h (s\<lparr>ss_openChannels := ss_openChannels s - {ch}\<rparr>))
         in if ss_finalized s1 then s1 else ss_emit env (ChannelClosed ch) s1)"

text \<open>A list of signals of the control channel that are all sends, routed to the messenger.\<close>

fun send_control :: "'h session_env \<Rightarrow> control_signal list \<Rightarrow> 'h session \<Rightarrow> 'h session" where
  "send_control env [] s = s"
| "send_control env (SendRequested ch mid payload # xs) s =
     send_control env xs (ss_emit env (SendMessage ch mid payload) s)"
| "send_control env (x # xs) s = send_control env xs (ss_emit env (ControlSignalled x) s)"

section \<open>Public operations\<close>

definition onTransportConnected :: "'h session_env \<Rightarrow> 'h session \<Rightarrow> 'h session" where
  "onTransportConnected env s = (
     if ss_state s \<noteq> Connecting then s
     else let s1 = setState env VersionExchange s in
       if ss_finalized s1 \<or> ss_state s1 \<noteq> VersionExchange then s1
       else send_control env (sendVersionRequest (protocolMajor (ss_config s1)) (protocolMinor (ss_config s1)))
              (startStateTimer (versionTimeout (ss_config s1)) s1))"

definition session_start :: "'h session_env \<Rightarrow> 'h session \<Rightarrow> 'h session" where
  "session_start env s = (
     if ss_finalized s then s
     else if ss_state s \<noteq> Idle \<and> ss_state s \<noteq> Disconnected then s
     else let s1 = setState env Connecting ((ss_messenger_start s)\<lparr>ss_channelsClosed := False,
                     ss_warnedNonControlOpen := {}, ss_warnedLegacyClose := {}\<rparr>)
          in if se_isConnected env s1 then onTransportConnected env s1 else s1)"

definition session_stop :: "'h session_env \<Rightarrow> int \<Rightarrow> 'h session \<Rightarrow> 'h session" where
  "session_stop env reason s = (
     if ss_state s = Disconnected \<or> ss_state s = Idle then s
     else if ss_state s = Active
     then let s1 = setState env ShuttingDown (stopLivenessTimers s) in
       if ss_finalized s1 \<or> ss_state s1 \<noteq> ShuttingDown then s1
       else send_control env (sendShutdownRequest (se_protos env) reason) (startStateTimer 5000 s1)
     else disconnect_with env UserRequested (stopLivenessTimers (stopStateTimer s)))"

definition session_finalize :: "'h session_env \<Rightarrow> 'h session \<Rightarrow> 'h session" where
  "session_finalize env s = (
     if ss_finalized s then s
     else let publishStateChange = (ss_state s \<noteq> Idle \<and> ss_state s \<noteq> Disconnected);
              s1 = s\<lparr>ss_finalized := True, ss_state := (if publishStateChange then Disconnected else ss_state s)\<rparr>;
              s2 = closeChannels env (ss_messenger_stop (stopLivenessTimers (stopStateTimer s1)));
              s3 = (fold disconnectHandler (map snd (ss_channels s2)) s2)\<lparr>ss_channels := []\<rparr>
          in if publishStateChange then ss_emit env (StateChanged (ss_state s3)) s3 else s3)"

definition registerChannel :: "'h session_env \<Rightarrow> byte \<Rightarrow> 'h \<Rightarrow> 'h session \<Rightarrow> 'h session" where
  "registerChannel env ch h s0 = (
     if ss_finalized s0 then s0
     else let s = ss_emit env (HandlerConfigured h (protocolPolicy (ss_config s0))) s0 in
       case handler_of s ch of
         Some old \<Rightarrow>
           if old \<noteq> h
           then let wasOpen = (ch \<in> ss_openChannels s);
                    s1 = disconnectHandler old s;
                    s2 = (if wasOpen then ss_emit env (HandlerClosed old) s1 else s1);
                    s3 = s2\<lparr>ss_openChannels := ss_openChannels s2 - {ch},
                            ss_channels := set_handler ch h (ss_channels s2)\<rparr>
                in if wasOpen \<and> \<not> ss_finalized s3 \<and> ss_state s3 = Active
                   then ss_emit env (HandlerOpened h)
                     ((connectHandler h s3)\<lparr>ss_openChannels := insert ch (ss_openChannels s3)\<rparr>)
                   else s3
           else s\<lparr>ss_channels := set_handler ch h (ss_channels s)\<rparr>
       | None \<Rightarrow> s\<lparr>ss_channels := set_handler ch h (ss_channels s)\<rparr>)"

section \<open>Transport, version exchange and handshake\<close>

definition onTransportDisconnected :: "'h session_env \<Rightarrow> 'h session \<Rightarrow> 'h session" where
  "onTransportDisconnected env s =
     (if ss_state s = Disconnected then s else disconnect_with env TransportErrorReason s)"

definition onTransportError :: "'h session_env \<Rightarrow> 'h session \<Rightarrow> 'h session" where
  "onTransportError env s =
     (if ss_state s = Disconnected then s else disconnect_with env TransportErrorReason s)"

definition version_acceptable :: "session_config \<Rightarrow> u16 \<Rightarrow> u16 \<Rightarrow> u16 \<Rightarrow> bool" where
  "version_acceptable cfg major minor rawStatus = (
     let statusMatches = (rawStatus = 0x0000);
         reportedVersionIsCompatible = (major > protocolMajor cfg
           \<or> (major = protocolMajor cfg \<and> minor \<ge> protocolMinor cfg))
     in \<not> (\<not> statusMatches \<or> (requiresMinimumCompatibleResponse (protocolPolicy cfg)
              \<and> \<not> reportedVersionIsCompatible)))"

definition onVersionReceived :: "'h session_env \<Rightarrow> u16 \<Rightarrow> u16 \<Rightarrow> u16 \<Rightarrow> 'h session \<Rightarrow> 'h session" where
  "onVersionReceived env major minor rawStatus s0 = (
     if ss_state s0 \<noteq> VersionExchange then s0
     else let s = stopStateTimer s0 in
       if \<not> version_acceptable (ss_config s) major minor rawStatus
       then disconnect_with env VersionMismatch s
       else let s1 = setState env TLSHandshake s in
         if ss_finalized s1 \<or> ss_state s1 \<noteq> TLSHandshake then s1
         else ss_emit env MessengerStartHandshake (startStateTimer (handshakeTimeout (ss_config s1)) s1))"

definition onVersionResponseMalformed :: "'h session_env \<Rightarrow> 'h session \<Rightarrow> 'h session" where
  "onVersionResponseMalformed env s =
     (if ss_state s \<noteq> VersionExchange then s
      else disconnect_with env VersionMismatch (stopStateTimer s))"

definition onHandshakeComplete :: "'h session_env \<Rightarrow> 'h session \<Rightarrow> 'h session" where
  "onHandshakeComplete env s = (
     if ss_state s \<noteq> TLSHandshake then s
     else let s1 = setState env ServiceDiscovery (stopStateTimer s) in
       if ss_finalized s1 \<or> ss_state s1 \<noteq> ServiceDiscovery then s1
       else send_control env (sendAuthComplete (se_protos env) True)
              (startStateTimer (discoveryTimeout (ss_config s1)) s1))"

definition onHandshakeFailed :: "'h session_env \<Rightarrow> 'h session \<Rightarrow> 'h session" where
  "onHandshakeFailed env s =
     (if ss_state s \<noteq> TLSHandshake then s
      else disconnect_with env HandshakeError (stopStateTimer s))"

definition onTlsFailed :: "'h session_env \<Rightarrow> 'h session \<Rightarrow> 'h session" where
  "onTlsFailed env s =
     (if ss_state s = Idle \<or> ss_state s = Disconnected then s
      else if ss_state s = TLSHandshake then onHandshakeFailed env s
      else disconnect_with env TlsError (stopLivenessTimers (stopStateTimer s)))"

definition onProtocolFailed :: "'h session_env \<Rightarrow> 'h session \<Rightarrow> 'h session" where
  "onProtocolFailed env s =
     (if ss_state s = Idle \<or> ss_state s = Disconnected then s
      else disconnect_with env ProtocolError (stopLivenessTimers (stopStateTimer s)))"

section \<open>Liveness\<close>

definition onPingTick :: "'h session_env \<Rightarrow> 'h session \<Rightarrow> 'h session" where
  "onPingTick env s = (
     if ss_state s \<noteq> Active then s
     else let now = se_now env s;
              s1 = send_control env (sendPingRequest (se_protos env) now)
                     (s\<lparr>ss_lastPingTimestamp := now, ss_outstandingPings := insert now (ss_outstandingPings s)\<rparr>)
          in if ss_state s1 = Active \<and> ss_lastPingTimestamp s1 \<in> ss_outstandingPings s1
                \<and> ss_pongDeadlineTimer s1 = None
             then s1\<lparr>ss_pongDeadlineTimer := Some (pingTimeout (ss_config s1))\<rparr> else s1)"

definition onPongReceived :: "'h session_env \<Rightarrow> int \<Rightarrow> 'h session \<Rightarrow> 'h session" where
  "onPongReceived env ts s =
     (if ss_state s \<noteq> Active \<or> ts \<notin> ss_outstandingPings s then s
      else s\<lparr>ss_outstandingPings := {}, ss_pongDeadlineTimer := None\<rparr>)"

text \<open>The deadline timer is single-shot: it is inactive when its slot runs.\<close>

definition onPongDeadline :: "'h session_env \<Rightarrow> 'h session \<Rightarrow> 'h session" where
  "onPongDeadline env s =
     (if ss_state s \<noteq> Active then s
      else disconnect_with env PingTimeout (stopLivenessTimers s))"

section \<open>Service discovery and channels\<close>

text \<open>Each pre-built channel descriptor is parsed into an entry of the message.\<close>

definition buildServiceDiscoveryResponse :: "session_config \<Rightarrow> proto_message" where
  "buildServiceDiscoveryResponse cfg = ServiceDiscoveryResponse
     [(''head_unit_name'', headUnitName cfg), (''car_model'', carModel cfg), (''car_year'', carYear cfg),
      (''car_serial'', carSerial cfg), (''headunit_manufacturer'', manufacturer cfg),
      (''headunit_model'', hu_model cfg), (''sw_build'', swBuild cfg), (''sw_version'', swVersion cfg)]
     (if leftHandDrive cfg then DriverLeft else DriverRight)
     (canPlayNativeMediaDuringVr cfg)
     (if sessionConfiguration cfg \<noteq> 0 then Some (sessionConfiguration cfg) else None)
     (map snd (cfg_channels cfg))"

definition onServiceDiscoveryRequested :: "'h session_env \<Rightarrow> 'h session \<Rightarrow> 'h session" where
  "onServiceDiscoveryRequested env s0 = (
     if ss_state s0 \<noteq> ServiceDiscovery then s0
     else let s = stopStateTimer s0;
              s1 = ss_emit env (SendMessage 0 0x0006 (serialize_proto (se_protos env)
                     (buildServiceDiscoveryResponse (ss_config s)))) s
          in if ss_finalized s1 \<or> ss_state s1 \<noteq> ServiceDiscovery then s1
             else let s2 = setState env Active s1 in
               if ss_finalized s2 \<or> ss_state s2 \<noteq> Active then s2
               else onPingTick env (s2\<lparr>ss_pingTimer := Some (pingInterval (ss_config s2))\<rparr>))"

text \<open>
  Opening a registered channel: the replacement open of a cluster channel, the response, and
  the checks that the session and the handler are still the same after each call out.
\<close>

definition still_serving :: "byte \<Rightarrow> 'h \<Rightarrow> 'h session \<Rightarrow> bool" where
  "still_serving ch h s \<longleftrightarrow> \<not> ss_finalized s \<and> ss_state s = Active \<and> handler_of s ch = Some h"

definition open_registered :: "'h session_env \<Rightarrow> byte \<Rightarrow> 'h \<Rightarrow> 'h session \<Rightarrow> 'h session" where
  "open_registered env ch h s = (
     let reopen = (ch \<in> ss_openChannels s \<and> supportsExplicitReopenLifecycle ch);
         s1 = (if reopen then closeServiceChannel env ch s else s)
     in if reopen \<and> \<not> still_serving ch h s1 then s1
        else let s2 = send_control env (sendChannelOpenResponse (se_protos env) ch True) s1 in
          if \<not> still_serving ch h s2 then s2
          else let s3 = ss_emit env (HandlerOpened h)
                          ((connectHandler h s2)\<lparr>ss_openChannels := insert ch (ss_openChannels s2)\<rparr>) in
            if \<not> still_serving ch h s3 then s3
            else ss_emit env (ChannelOpened ch) s3)"

definition open_target :: "'h session_env \<Rightarrow> byte \<Rightarrow> 'h session \<Rightarrow> 'h session" where
  "open_target env ch s = (case handler_of s ch of
     Some h \<Rightarrow> open_registered env ch h s
   | None \<Rightarrow> ss_emit env (ChannelOpenRejected (uint ch))
               (send_control env (sendChannelOpenResponse (se_protos env) ch False) s))"

definition onChannelOpenRequested :: "'h session_env \<Rightarrow> int \<Rightarrow> 'h session \<Rightarrow> 'h session" where
  "onChannelOpenRequested env ch s = (
     if ss_state s \<noteq> Active then s
     else if ch \<le> 0 \<or> ch > 255 then ss_emit env (ChannelOpenRejected ch) s
     else open_target env (of_int ch) s)"

section \<open>Shutdown\<close>

definition onShutdownRequested :: "'h session_env \<Rightarrow> 'h session \<Rightarrow> 'h session" where
  "onShutdownRequested env s = (
     let s1 = send_control env (sendShutdownResponse (se_protos env)) s in
     if ss_finalized s1 \<or> ss_state s1 = Disconnected then s1 else disconnect_with env Normal s1)"

definition onShutdownAcknowledged :: "'h session_env \<Rightarrow> 'h session \<Rightarrow> 'h session" where
  "onShutdownAcknowledged env s =
     (if ss_state s \<noteq> ShuttingDown then s else disconnect_with env Normal s)"

definition onStateTimeout :: "'h session_env \<Rightarrow> 'h session \<Rightarrow> 'h session" where
  "onStateTimeout env s = disconnect_with env Timeout s"

section \<open>Message dispatch\<close>

primrec focus_code :: "audio_focus_type \<Rightarrow> int" where
  "focus_code FocusGain = 1"
| "focus_code FocusGainTransient = 2"
| "focus_code FocusGainTransientMayDuck = 3"
| "focus_code FocusRelease = 4"
| "focus_code (FocusOther n) = n"

primrec focus_state :: "audio_focus_type \<Rightarrow> audio_focus_state" where
  "focus_state FocusGain = StateGain"
| "focus_state FocusGainTransient = StateGainTransient"
| "focus_state FocusGainTransientMayDuck = StateGainTransientGuidanceOnly"
| "focus_state FocusRelease = StateLoss"
| "focus_state (FocusOther n) = StateInvalid"

definition onAudioFocusRequested :: "'h session_env \<Rightarrow> bytes \<Rightarrow> 'h session \<Rightarrow> 'h session" where
  "onAudioFocusRequested env payload s = (case parse_AudioFocusRequest (se_protos env) payload of
     None \<Rightarrow> s
   | Some t \<Rightarrow> ss_emit env (AudioFocusChanged (focus_code t))
       (send_control env (sendAudioFocusResponse (serialize_proto (se_protos env)
          (AudioFocusResponse (focus_state t)))) s))"

text \<open>The slots the constructor connects to the signals of the control channel.\<close>

fun onControlSignal :: "'h session_env \<Rightarrow> control_signal \<Rightarrow> 'h session \<Rightarrow> 'h session" where
  "onControlSignal env (SendRequested ch mid payload) s = ss_emit env (SendMessage ch mid payload) s"
| "onControlSignal env (VersionReceived major minor status trailing) s = onVersionReceived env major minor status s"
| "onControlSignal env (VersionResponseMalformed n) s = onVersionResponseMalformed env s"
| "onControlSignal env (ServiceDiscoveryRequested payload) s = onServiceDiscoveryRequested env s"
| "onControlSignal env (ChannelOpenRequested ch payload) s = onChannelOpenRequested env ch s"
| "onControlSignal env (PongReceived ts) s = onPongReceived env ts s"
| "onControlSignal env (ShutdownRequested reason) s = onShutdownRequested env s"
| "onControlSignal env ShutdownAcknowledged s = onShutdownAcknowledged env s"
| "onControlSignal env (AudioFocusRequested payload) s = onAudioFocusRequested env payload s"
| "onControlSignal env (NavigationFocusRequested payload) s =
     send_control env (sendNavigationFocusResponse payload) s"
| "onControlSignal env x s = ss_emit env (ControlSignalled x) s"

definition media_timestamp :: "bytes \<Rightarrow> u64" where
  "media_timestamp data = foldl (\<lambda>t b. push_bit 8 t OR ucast b) 0 (take 8 data)"

definition dispatch_handler ::
  "'h session_env \<Rightarrow> 'h \<Rightarrow> u16 \<Rightarrow> bytes \<Rightarrow> nat \<Rightarrow> 'h session \<Rightarrow> 'h session" where
  "dispatch_handler env h mid payload dataOffset s = (
     if (mid = 0x0000 \<or> mid = 0x0001) \<and> se_isAV env h
     then if mid = 0x0000 \<and> length (drop dataOffset payload) \<ge> 8
          then ss_emit env (HandlerMedia h (drop (dataOffset + 8) payload)
                 (media_timestamp (drop dataOffset payload))) s
          else ss_emit env (HandlerMedia h (drop dataOffset payload) 0) s
     else ss_emit env (HandlerMessage h mid payload dataOffset) s)"

text \<open>A CONTROL-typed open request on a service channel.\<close>

definition onServiceOpen :: "'h session_env \<Rightarrow> byte \<Rightarrow> bytes \<Rightarrow> 'h session \<Rightarrow> 'h session" where
  "onServiceOpen env ch data s = (
     if ss_state s \<noteq> Active then s
     else case parse_ChannelOpenRequest (se_protos env) data of
       None \<Rightarrow> s
     | Some requested \<Rightarrow>
         if requested \<le> 0 \<or> requested > 255 \<or> requested \<noteq> uint ch
         then ss_emit env (ChannelOpenRejected requested) s
         else open_target env (of_int requested) s)"

definition session_onMessage ::
  "'h session_env \<Rightarrow> byte \<Rightarrow> u16 \<Rightarrow> bytes \<Rightarrow> nat \<Rightarrow> message_type \<Rightarrow> 'h session \<Rightarrow> 'h session" where
  "session_onMessage env ch mid payload dataOffset mt s0 = (
     if ch = 0
     then fold (onControlSignal env) (control_onMessage (se_protos env) mid payload dataOffset) s0
     else if mid = 0x0009 \<and> mt = Control \<and> supportsExplicitReopenLifecycle ch
     then if ss_state s0 = Active then closeServiceChannel env ch s0 else s0
     else let s = (if mid = 0x0009 \<and> mt = Control \<and> handler_of s0 ch \<noteq> None
                   then s0\<lparr>ss_warnedLegacyClose := insert ch (ss_warnedLegacyClose s0)\<rparr> else s0)
          in if mid = 0x0007 \<and> mt = Control
             then onServiceOpen env ch (drop dataOffset payload) s
             else if ch \<notin> ss_openChannels s \<and> supportsExplicitReopenLifecycle ch
             then if handler_of s ch \<noteq> None \<and> mid = 0x0007
                     \<and> parse_ChannelOpenRequest (se_protos env) (drop dataOffset payload) = Some (uint ch)
                  then s\<lparr>ss_warnedNonControlOpen := insert ch (ss_warnedNonControlOpen s)\<rparr> else s
             else case handler_of s ch of
               None \<Rightarrow> s
             | Some h \<Rightarrow> dispatch_handler env h mid payload dataOffset s)"

text \<open>A send of a channel handler reaches the messenger only while it is connected.\<close>

definition onHandlerSend :: "'h session_env \<Rightarrow> 'h \<Rightarrow> byte \<Rightarrow> u16 \<Rightarrow> bytes \<Rightarrow> 'h session \<Rightarrow> 'h session" where
  "onHandlerSend env h ch mid payload s =
     (if h \<in> ss_connected s then ss_emit env (SendMessage ch mid payload) s else s)"

end
