(* ===== verification/Session_Invariants.thy ===== *)
theory Session_Invariants
  imports Session
begin

text \<open>
  Invariants of the session. The first part holds whatever the slots connected to the session
  do, as long as they themselves act through its operations: a session that is idle or
  disconnected has stopped its messenger and every timer. The second part is about the
  session's own behaviour between the calls of its environment.
\<close>

section \<open>The operations of the environment\<close>

datatype 'h session_op =
    DoStart | DoStop int | DoFinalize | DoRegister byte 'h
  | SigTransportConnected | SigTransportDisconnected | SigTransportError
  | SigHandshakeComplete | SigHandshakeFailed | SigTlsFailed | SigProtocolFailed
  | SigMessage byte u16 bytes nat message_type
  | TimerPing | TimerPongDeadline | TimerState
  | SigHandlerSend 'h byte u16 bytes

text \<open>A timer's slot runs only when the timer is active; single-shot timers are off by then.\<close>

fun session_apply :: "'h session_env \<Rightarrow> 'h session_op \<Rightarrow> 'h session \<Rightarrow> 'h session" where
  "session_apply env DoStart s = session_start env s"
| "session_apply env (DoStop reason) s = session_stop env reason s"
| "session_apply env DoFinalize s = session_finalize env s"
| "session_apply env (DoRegister ch h) s = registerChannel env ch h s"
| "session_apply env SigTransportConnected s = onTransportConnected env s"
| "session_apply env SigTransportDisconnected s = onTransportDisconnected env s"
| "session_apply env SigTransportError s = onTransportError env s"
| "session_apply env SigHandshakeComplete s = onHandshakeComplete env s"
| "session_apply env SigHandshakeFailed s = onHandshakeFailed env s"
| "session_apply env SigTlsFailed s = onTlsFailed env s"
| "session_apply env SigProtocolFailed s = onProtocolFailed env s"
| "session_apply env (SigMessage ch mid payload off mt) s = session_onMessage env ch mid payload off mt s"
| "session_apply env TimerPing s = (if ss_pingTimer s = None then s else onPingTick env s)"
| "session_apply env TimerPongDeadline s =
     (if ss_pongDeadlineTimer s = None then s else onPongDeadline env (s\<lparr>ss_pongDeadlineTimer := None\<rparr>))"
| "session_apply env TimerState s =
     (if ss_stateTimer s = None then s else onStateTimeout env (s\<lparr>ss_stateTimer := None\<rparr>))"
| "session_apply env (SigHandlerSend h ch mid payload) s = onHandlerSend env h ch mid payload s"

inductive session_reachable :: "'h session_env \<Rightarrow> session_config \<Rightarrow> 'h session \<Rightarrow> bool" for env cfg where
  sess_new: "session_reachable env cfg (session_new cfg)"
| sess_op: "session_reachable env cfg s \<Longrightarrow> session_reachable env cfg (session_apply env operation s)"

section \<open>Quiescence\<close>

definition ended :: "session_state \<Rightarrow> bool" where
  "ended st \<longleftrightarrow> st = Idle \<or> st = Disconnected"

definition quiescent_inv :: "'h session \<Rightarrow> bool" where
  "quiescent_inv s \<longleftrightarrow>
     (ended (ss_state s) \<longrightarrow> ss_stateTimer s = None \<and> \<not> ss_messengerStarted s)
   \<and> (ss_state s \<noteq> Active \<longrightarrow>
        ss_pingTimer s = None \<and> ss_pongDeadlineTimer s = None \<and> ss_outstandingPings s = {})
   \<and> (ss_finalized s \<longrightarrow> ended (ss_state s))
   \<and> pingInterval (ss_config s) > 0 \<and> pingTimeout (ss_config s) > 0"

definition obs_keep :: "('h session \<Rightarrow> bool) \<Rightarrow> 'h session_env \<Rightarrow> bool" where
  "obs_keep P env \<longleftrightarrow> (\<forall>e s. P s \<longrightarrow> P (se_obs env e s))"

lemma quiescent_upd [simp]:
  "quiescent_inv (s\<lparr>ss_log := l\<rparr>) = quiescent_inv s"
  "quiescent_inv (s\<lparr>ss_openChannels := oc\<rparr>) = quiescent_inv s"
  "quiescent_inv (s\<lparr>ss_channels := cs\<rparr>) = quiescent_inv s"
  "quiescent_inv (s\<lparr>ss_connected := cn\<rparr>) = quiescent_inv s"
  "quiescent_inv (s\<lparr>ss_channelsClosed := cc\<rparr>) = quiescent_inv s"
  "quiescent_inv (s\<lparr>ss_warnedNonControlOpen := w1\<rparr>) = quiescent_inv s"
  "quiescent_inv (s\<lparr>ss_warnedLegacyClose := w2\<rparr>) = quiescent_inv s"
  "quiescent_inv (s\<lparr>ss_lastPingTimestamp := t\<rparr>) = quiescent_inv s"
  "quiescent_inv (connectHandler h s) = quiescent_inv s"
  "quiescent_inv (disconnectHandler h s) = quiescent_inv s"
  by (simp_all add: quiescent_inv_def connectHandler_def disconnectHandler_def)

lemma quiescent_stop:
  "quiescent_inv s \<Longrightarrow> quiescent_inv (stopStateTimer s)"
  "quiescent_inv s \<Longrightarrow> quiescent_inv (stopLivenessTimers s)"
  "quiescent_inv s \<Longrightarrow> quiescent_inv (ss_messenger_stop s)"
  "quiescent_inv s \<Longrightarrow> quiescent_inv (s\<lparr>ss_stateTimer := None\<rparr>)"
  "quiescent_inv s \<Longrightarrow> quiescent_inv (s\<lparr>ss_pongDeadlineTimer := None\<rparr>)"
  by (simp_all add: quiescent_inv_def stopStateTimer_def stopLivenessTimers_def ss_messenger_stop_def)

lemma emit_quiescent [intro]:
  "obs_keep quiescent_inv env \<Longrightarrow> quiescent_inv s \<Longrightarrow> quiescent_inv (ss_emit env e s)"
  by (simp add: obs_keep_def ss_emit_def)

lemma close_handlers_quiescent:
  "obs_keep quiescent_inv env \<Longrightarrow> quiescent_inv s \<Longrightarrow> quiescent_inv (close_handlers env hs s)"
  unfolding close_handlers_def
  by (induction hs arbitrary: s) (simp_all add: emit_quiescent)

text \<open>
  Entering \<open>Disconnected\<close>: the timers and the messenger are stopped before any slot runs.
\<close>

definition stopped_all :: "'h session \<Rightarrow> 'h session" where
  "stopped_all s = ss_messenger_stop (stopLivenessTimers (stopStateTimer s))"

lemma quiescent_stopped_all:
  "pingInterval (ss_config s) > 0 \<Longrightarrow> pingTimeout (ss_config s) > 0 \<Longrightarrow>
    (ss_finalized s \<longrightarrow> ended (ss_state s)) \<Longrightarrow> quiescent_inv (stopped_all s)"
  by (simp add: quiescent_inv_def stopped_all_def stopStateTimer_def stopLivenessTimers_def ss_messenger_stop_def)

lemma closeChannels_quiescent:
  assumes "obs_keep quiescent_inv env" and "quiescent_inv (stopped_all s)"
  shows "quiescent_inv (closeChannels env s)"
  using assms by (simp add: closeChannels_def Let_def stopped_all_def close_handlers_quiescent)

lemma setState_quiescent:
  assumes k: "obs_keep quiescent_inv env" and s: "quiescent_inv s"
    and to: "newState = Disconnected \<or> (\<not> ended newState \<and> \<not> ss_finalized s
      \<and> (newState \<noteq> Active \<longrightarrow> ss_pingTimer s = None \<and> ss_pongDeadlineTimer s = None \<and> ss_outstandingPings s = {}))"
  shows "quiescent_inv (setState env newState s)"
proof (cases "newState = Disconnected")
  case True
  have "quiescent_inv (stopped_all (s\<lparr>ss_state := Disconnected\<rparr>))"
    using s by (intro quiescent_stopped_all) (simp_all add: quiescent_inv_def ended_def)
  with True k s show ?thesis
    by (auto simp: setState_def Let_def intro!: emit_quiescent closeChannels_quiescent)
next
  case False
  with to have "quiescent_inv (s\<lparr>ss_state := newState\<rparr>)"
    using s by (auto simp: quiescent_inv_def)
  with False k s show ?thesis by (auto simp: setState_def Let_def)
qed

lemma disconnect_quiescent:
  "obs_keep quiescent_inv env \<Longrightarrow> quiescent_inv s \<Longrightarrow> quiescent_inv (disconnect_with env r s)"
  by (auto simp: disconnect_with_def intro!: emit_quiescent setState_quiescent)

lemma send_control_quiescent:
  "obs_keep quiescent_inv env \<Longrightarrow> quiescent_inv s \<Longrightarrow> quiescent_inv (send_control env xs s)"
  by (induction env xs s rule: send_control.induct) (auto simp: emit_quiescent)

lemma closeServiceChannel_quiescent:
  "obs_keep quiescent_inv env \<Longrightarrow> quiescent_inv s \<Longrightarrow> quiescent_inv (closeServiceChannel env ch s)"
  by (auto simp: closeServiceChannel_def Let_def emit_quiescent split: option.split)

lemma startStateTimer_quiescent:
  "quiescent_inv s \<Longrightarrow> \<not> ended (ss_state s) \<Longrightarrow> quiescent_inv (startStateTimer t s)"
  by (simp add: quiescent_inv_def startStateTimer_def)

lemma fold_disconnect_quiescent [simp]:
  "quiescent_inv (fold disconnectHandler hs s) = quiescent_inv s"
  by (induction hs arbitrary: s) simp_all

lemmas quiescent_intros = emit_quiescent close_handlers_quiescent closeChannels_quiescent
  setState_quiescent disconnect_quiescent send_control_quiescent closeServiceChannel_quiescent
  startStateTimer_quiescent quiescent_stop

lemma quiescent_liveness_off:
  "quiescent_inv s \<Longrightarrow> ss_state s \<noteq> Active \<Longrightarrow>
    ss_pingTimer s = None \<and> ss_pongDeadlineTimer s = None \<and> ss_outstandingPings s = {}"
  by (simp add: quiescent_inv_def)

lemma quiescent_not_final: "quiescent_inv s \<Longrightarrow> \<not> ended (ss_state s) \<Longrightarrow> \<not> ss_finalized s"
  by (auto simp: quiescent_inv_def)

lemma timer_fields [simp]:
  "ss_state (stopStateTimer s) = ss_state s" "ss_finalized (stopStateTimer s) = ss_finalized s"
  "ss_config (stopStateTimer s) = ss_config s"
  "ss_state (startStateTimer t s) = ss_state s" "ss_finalized (startStateTimer t s) = ss_finalized s"
  "ss_state (stopLivenessTimers s) = ss_state s" "ss_finalized (stopLivenessTimers s) = ss_finalized s"
  by (simp_all add: stopStateTimer_def startStateTimer_def stopLivenessTimers_def)

text \<open>Steps forward from a state that is neither ended nor active.\<close>

lemma setState_forward_quiescent:
  assumes "obs_keep quiescent_inv env" and "quiescent_inv s"
    and "\<not> ended (ss_state s)" and "ss_state s \<noteq> Active" and "\<not> ended newState"
  shows "quiescent_inv (setState env newState s)"
  using assms quiescent_liveness_off [OF assms(2,4)] quiescent_not_final [OF assms(2,3)]
  by (intro setState_quiescent) simp_all

lemma onTransportConnected_quiescent:
  assumes "obs_keep quiescent_inv env" and "quiescent_inv s"
  shows "quiescent_inv (onTransportConnected env s)"
proof (cases "ss_state s = Connecting")
  case True
  then have "quiescent_inv (setState env VersionExchange s)"
    using assms by (intro setState_forward_quiescent) (simp_all add: ended_def)
  with True assms(1) show ?thesis
    by (auto simp: onTransportConnected_def Let_def ended_def intro!: quiescent_intros)
qed (simp add: onTransportConnected_def assms)

lemma session_start_quiescent:
  assumes "obs_keep quiescent_inv env" and "quiescent_inv s"
  shows "quiescent_inv (session_start env s)"
proof (cases "\<not> ss_finalized s \<and> ended (ss_state s)")
  case True
  let ?s = "(ss_messenger_start s)\<lparr>ss_channelsClosed := False, ss_warnedNonControlOpen := {},
    ss_warnedLegacyClose := {}\<rparr>"
  have "quiescent_inv (?s\<lparr>ss_state := Connecting\<rparr>)"
    using assms(2) True by (auto simp: quiescent_inv_def ss_messenger_start_def ended_def)
  then have "quiescent_inv (setState env Connecting ?s)"
    using True assms(1) by (auto simp: setState_def Let_def ss_messenger_start_def ended_def)
  with True assms(1) onTransportConnected_quiescent show ?thesis
    by (auto simp: session_start_def Let_def ended_def)
qed (use assms in \<open>auto simp: session_start_def ended_def\<close>)

lemma session_stop_quiescent:
  assumes "obs_keep quiescent_inv env" and "quiescent_inv s"
  shows "quiescent_inv (session_stop env r s)"
proof (cases "ss_state s = Active")
  case True
  have "quiescent_inv (setState env ShuttingDown (stopLivenessTimers s))"
    using assms True quiescent_not_final [of s]
    by (intro setState_quiescent) (auto simp: ended_def stopLivenessTimers_def quiescent_inv_def)
  with True assms show ?thesis
    by (auto simp: session_stop_def Let_def ended_def intro!: quiescent_intros)
qed (use assms in \<open>auto simp: session_stop_def intro!: quiescent_intros\<close>)

lemma session_finalize_quiescent:
  assumes "obs_keep quiescent_inv env" and "quiescent_inv s"
  shows "quiescent_inv (session_finalize env s)"
proof (cases "ss_finalized s")
  case False
  define s1 where "s1 = s\<lparr>ss_finalized := True,
    ss_state := (if ss_state s \<noteq> Idle \<and> ss_state s \<noteq> Disconnected then Disconnected else ss_state s)\<rparr>"
  have "quiescent_inv (stopped_all s1)"
    using assms(2) by (intro quiescent_stopped_all) (auto simp: s1_def quiescent_inv_def ended_def)
  then have "quiescent_inv (stopped_all (ss_messenger_stop (stopLivenessTimers (stopStateTimer s1))))"
    by (simp add: stopped_all_def quiescent_stop)
  then have "quiescent_inv (closeChannels env (ss_messenger_stop (stopLivenessTimers (stopStateTimer s1))))"
    using assms(1) by (intro closeChannels_quiescent)
  with False assms(1) show ?thesis
    unfolding session_finalize_def Let_def s1_def by (cases "ended (ss_state s)") (auto simp: ended_def)
qed (simp add: session_finalize_def assms)

lemma registerChannel_quiescent:
  assumes k: "obs_keep quiescent_inv env" and s: "quiescent_inv s"
  shows "quiescent_inv (registerChannel env ch h s)"
  using assms emit_quiescent [OF k s]
  by (auto simp: registerChannel_def Let_def emit_quiescent split: option.split)

lemma onVersionReceived_quiescent:
  assumes "obs_keep quiescent_inv env" and "quiescent_inv s"
  shows "quiescent_inv (onVersionReceived env a b c s)"
proof (cases "ss_state s = VersionExchange")
  case True
  then have "quiescent_inv (setState env TLSHandshake (stopStateTimer s))"
    using assms by (intro setState_forward_quiescent quiescent_stop) (simp_all add: ended_def)
  with True assms show ?thesis
    by (auto simp: onVersionReceived_def Let_def ended_def intro!: quiescent_intros)
qed (simp add: onVersionReceived_def assms)

lemma onHandshakeComplete_quiescent:
  assumes "obs_keep quiescent_inv env" and "quiescent_inv s"
  shows "quiescent_inv (onHandshakeComplete env s)"
proof (cases "ss_state s = TLSHandshake")
  case True
  then have "quiescent_inv (setState env ServiceDiscovery (stopStateTimer s))"
    using assms by (intro setState_forward_quiescent quiescent_stop) (simp_all add: ended_def)
  with True assms show ?thesis
    by (auto simp: onHandshakeComplete_def Let_def ended_def intro!: quiescent_intros)
qed (simp add: onHandshakeComplete_def assms)

lemma onPingTick_quiescent:
  assumes "obs_keep quiescent_inv env" and "quiescent_inv s"
  shows "quiescent_inv (onPingTick env s)"
proof (cases "ss_state s = Active")
  case True
  let ?s1 = "send_control env (sendPingRequest (se_protos env) (se_now env s)) (s\<lparr>ss_lastPingTimestamp := se_now env s,
      ss_outstandingPings := insert (se_now env s) (ss_outstandingPings s)\<rparr>)"
  have "quiescent_inv (s\<lparr>ss_lastPingTimestamp := se_now env s,
      ss_outstandingPings := insert (se_now env s) (ss_outstandingPings s)\<rparr>)"
    using True assms(2) by (simp add: quiescent_inv_def ended_def)
  then have q: "quiescent_inv ?s1" using assms(1) by (rule send_control_quiescent [rotated])
  then have "ss_state ?s1 = Active \<Longrightarrow> quiescent_inv (?s1\<lparr>ss_pongDeadlineTimer := t\<rparr>)" for t
    by (simp add: quiescent_inv_def)
  with True q show ?thesis by (simp add: onPingTick_def Let_def)
qed (simp add: onPingTick_def assms)

lemma onServiceDiscoveryRequested_quiescent:
  assumes "obs_keep quiescent_inv env" and "quiescent_inv s"
  shows "quiescent_inv (onServiceDiscoveryRequested env s)"
proof (cases "ss_state s = ServiceDiscovery")
  case True
  define s1 where "s1 = ss_emit env (SendMessage 0 0x0006 (serialize_proto (se_protos env)
      (buildServiceDiscoveryResponse (ss_config s)))) (stopStateTimer s)"
  have q1: "quiescent_inv s1" using assms by (auto simp: s1_def intro!: quiescent_intros)
  define s2 where "s2 = setState env Active s1"
  have q2: "\<not> ss_finalized s1 \<Longrightarrow> quiescent_inv s2"
    using q1 assms(1) by (auto simp: s2_def ended_def intro!: setState_quiescent)
  have "quiescent_inv s2 \<Longrightarrow> ss_state s2 = Active \<Longrightarrow> quiescent_inv (s2\<lparr>ss_pingTimer := t\<rparr>)" for t
    by (simp add: quiescent_inv_def)
  with True q1 q2 onPingTick_quiescent [OF assms(1)] show ?thesis
    by (simp add: onServiceDiscoveryRequested_def Let_def flip: s1_def s2_def)
qed (simp add: onServiceDiscoveryRequested_def assms)

lemma open_target_quiescent:
  assumes k: "obs_keep quiescent_inv env" and s: "quiescent_inv s"
  shows "quiescent_inv (open_target env ch s)"
  using assms
  by (auto simp: open_target_def open_registered_def Let_def intro!: quiescent_intros split: option.split)

lemma onControlSignal_quiescent:
  assumes k: "obs_keep quiescent_inv env" and s: "quiescent_inv s"
  shows "quiescent_inv (onControlSignal env x s)"
proof -
  have "quiescent_inv (onShutdownRequested env s)"
    using assms by (auto simp: onShutdownRequested_def Let_def intro!: quiescent_intros)
  moreover have "quiescent_inv (onAudioFocusRequested env pl s)" for pl
    using assms by (auto simp: onAudioFocusRequested_def intro!: quiescent_intros split: option.split)
  moreover have "quiescent_inv (onPongReceived env t s)" for t
    using s by (auto simp: onPongReceived_def quiescent_inv_def)
  ultimately show ?thesis
    using assms
    by (cases x) (auto simp: onVersionReceived_quiescent onServiceDiscoveryRequested_quiescent
        onVersionResponseMalformed_def onChannelOpenRequested_def open_target_quiescent
        onShutdownAcknowledged_def intro!: quiescent_intros)
qed

lemma session_onMessage_quiescent:
  assumes k: "obs_keep quiescent_inv env" and s: "quiescent_inv s"
  shows "quiescent_inv (session_onMessage env ch mid payload off mt s)"
proof -
  have "quiescent_inv (fold (onControlSignal env) xs s)" for xs
    using s by (induction xs arbitrary: s) (simp_all add: onControlSignal_quiescent k)
  moreover have "quiescent_inv t \<Longrightarrow> quiescent_inv (onServiceOpen env ch d t)" for d t
    using k by (auto simp: onServiceOpen_def open_target_quiescent intro!: quiescent_intros split: option.split)
  moreover have "quiescent_inv t \<Longrightarrow> quiescent_inv (dispatch_handler env h m payload off t)" for h t m
    using k by (auto simp: dispatch_handler_def)
  ultimately show ?thesis
    using assms by (simp add: session_onMessage_def Let_def closeServiceChannel_quiescent split: option.split)
qed

lemma session_apply_quiescent:
  assumes k: "obs_keep quiescent_inv env" and s: "quiescent_inv s"
  shows "quiescent_inv (session_apply env operation s)"
  using assms
  by (cases operation) (auto simp: session_start_quiescent session_stop_quiescent session_finalize_quiescent
      registerChannel_quiescent onTransportConnected_quiescent onTransportDisconnected_def onTransportError_def
      onHandshakeComplete_quiescent onHandshakeFailed_def onTlsFailed_def onProtocolFailed_def
      session_onMessage_quiescent onPingTick_quiescent onPongDeadline_def onStateTimeout_def onHandlerSend_def
      intro!: quiescent_intros)

lemma session_new_quiescent: "quiescent_inv (session_new cfg)"
  by (simp add: session_new_def quiescent_inv_def ended_def default_pingInterval_def default_pingTimeout_def)

text \<open>
  Slots that answer every signal by operations of the session keep the invariant if the slots
  that run within those operations do; so it holds for any depth of re-entrant calls.
\<close>

definition scripted :: "('h session_event \<Rightarrow> 'h session_op list) \<Rightarrow> 'h session_env \<Rightarrow> 'h session_env" where
  "scripted script env = env\<lparr>se_obs := (\<lambda>e s. fold (session_apply env) (script e) s)\<rparr>"

lemma scripted_keeps:
  assumes "obs_keep quiescent_inv env" shows "obs_keep quiescent_inv (scripted script env)"
proof -
  have "quiescent_inv s \<Longrightarrow> quiescent_inv (fold (session_apply env) xs s)" for xs and s :: "'a session"
    by (induction xs arbitrary: s) (simp_all add: session_apply_quiescent assms)
  then show ?thesis by (simp add: obs_keep_def scripted_def)
qed

definition session_quiet :: "'h session_env \<Rightarrow> bool" where
  "session_quiet env \<longleftrightarrow> se_obs env = (\<lambda>e s. s)"

text \<open>\<open>nested scripts env\<close>: slots answer by operations, whose slots answer by operations, and so on.\<close>

fun nested :: "('h session_event \<Rightarrow> 'h session_op list) list \<Rightarrow> 'h session_env \<Rightarrow> 'h session_env" where
  "nested [] env = env"
| "nested (x # xs) env = scripted x (nested xs env)"

lemma nested_keeps: "session_quiet env \<Longrightarrow> obs_keep quiescent_inv (nested scripts env)"
  by (induction scripts) (simp_all add: scripted_keeps, simp add: obs_keep_def session_quiet_def)

lemma session_reachable_quiescent:
  assumes "session_reachable env cfg s" and "obs_keep quiescent_inv env"
  shows "quiescent_inv s"
  using assms by (induction rule: session_reachable.induct) (simp_all add: session_new_quiescent session_apply_quiescent)

text \<open>
  C9. In every reachable state of a session, with slots that call back into it to any depth:
  an idle or disconnected session has stopped its messenger and its state timer; pings are
  sent and awaited only in the active state; a finalized session is never restarted; and the
  liveness intervals are positive whatever was configured.
\<close>

theorem session_quiescent_when_ended:
  assumes "session_quiet env" and "session_reachable (nested scripts env) cfg s"
  shows "(ss_state s = Idle \<or> ss_state s = Disconnected \<longrightarrow>
            \<not> ss_messengerStarted s \<and> ss_stateTimer s = None)
    \<and> (ss_state s \<noteq> Active \<longrightarrow>
         ss_pingTimer s = None \<and> ss_pongDeadlineTimer s = None \<and> ss_outstandingPings s = {})
    \<and> (ss_finalized s \<longrightarrow> ss_state s = Idle \<or> ss_state s = Disconnected)
    \<and> pingInterval (ss_config s) > 0 \<and> pingTimeout (ss_config s) > 0"
  using session_reachable_quiescent [OF assms(2) nested_keeps [OF assms(1)]]
  by (simp add: quiescent_inv_def ended_def)

text \<open>A session whose owner finalizes it as soon as it leaves \<open>Idle\<close>.\<close>

definition demo_protos :: control_protos where
  "demo_protos = \<lparr>parse_ChannelOpenRequest = (\<lambda>bs. case bs of [b] \<Rightarrow> Some (uint b) | _ \<Rightarrow> None),
     parse_PingRequest = (\<lambda>bs. None), parse_PingResponse = (\<lambda>bs. None),
     parse_ShutdownRequest = (\<lambda>bs. None), parse_AudioFocusRequest = (\<lambda>bs. None),
     serialize_proto = (\<lambda>m. [])\<rparr>"

definition demo_session_env :: "nat session_env" where
  "demo_session_env = \<lparr>se_protos = demo_protos, se_obs = (\<lambda>e s. s), se_isConnected = (\<lambda>s. True),
     se_now = (\<lambda>s. int (length (ss_log s))), se_isAV = (\<lambda>h. False)\<rparr>"

definition demo_config :: session_config where
  "demo_config = \<lparr>protocolMajor = 6, protocolMinor = 0, headUnitName = [], carModel = [], carYear = [],
     carSerial = [], leftHandDrive = True, manufacturer = [], hu_model = [], swBuild = [], swVersion = [],
     canPlayNativeMediaDuringVr = True, sessionConfiguration = 0, versionTimeout = 5000,
     handshakeTimeout = 10000, discoveryTimeout = 10000, pingInterval = 0, pingTimeout = 15000,
     cfg_channels = []\<rparr>"

fun finalize_on_connecting :: "nat session_event \<Rightarrow> nat session_op list" where
  "finalize_on_connecting (StateChanged Connecting) = [DoFinalize]"
| "finalize_on_connecting _ = []"

lemma demo_quiet: "session_quiet demo_session_env"
  by (simp add: session_quiet_def demo_session_env_def)

theorem session_quiescent_when_ended_witness:
  "\<not> ss_messengerStarted (session_apply (nested [finalize_on_connecting] demo_session_env) DoStart
      (session_new demo_config))
    \<and> ss_state (session_apply (nested [finalize_on_connecting] demo_session_env) DoStart
      (session_new demo_config)) = Disconnected"
proof -
  let ?s = "session_apply (nested [finalize_on_connecting] demo_session_env) DoStart (session_new demo_config)"
  have st: "ss_state ?s = Disconnected"
    by (simp add: scripted_def demo_session_env_def session_start_def session_new_def demo_config_def setState_def
        ss_emit_def ss_messenger_start_def session_finalize_def closeChannels_def Let_def stopStateTimer_def
        stopLivenessTimers_def ss_messenger_stop_def close_handlers_def onTransportConnected_def)
  have "session_reachable (nested [finalize_on_connecting] demo_session_env) demo_config ?s"
    by (rule sess_op [OF sess_new])
  from session_quiescent_when_ended [OF demo_quiet this] st show ?thesis by blast
qed

end
