(* ===== verification/Session_Behaviour.thy ===== *)
theory Session_Behaviour
  imports Session_Invariants
begin

text \<open>
  The session's own behaviour, with slots that do not call back: it moves only along the
  edges of its state machine, it never waits without a running timer, and exactly the
  handlers of open channels are connected to the messenger.
\<close>

section \<open>The state machine\<close>

fun edge :: "session_state \<Rightarrow> session_state \<Rightarrow> bool" where
  "edge a Connecting = (a = Idle \<or> a = Disconnected)"
| "edge a VersionExchange = (a = Connecting)"
| "edge a TLSHandshake = (a = VersionExchange)"
| "edge a ServiceDiscovery = (a = TLSHandshake)"
| "edge a Active = (a = ServiceDiscovery)"
| "edge a ShuttingDown = (a = Active)"
| "edge a Disconnected = (a \<noteq> Disconnected)"
| "edge a Idle = False"

fun path :: "session_state \<Rightarrow> session_state list \<Rightarrow> session_state \<Rightarrow> bool" where
  "path a [] b = (a = b)"
| "path a (x # xs) b = (edge a x \<and> path x xs b)"

fun state_of_event :: "'h session_event \<Rightarrow> session_state option" where
  "state_of_event (StateChanged st) = Some st"
| "state_of_event _ = None"

definition states_of :: "'h session_event list \<Rightarrow> session_state list" where
  "states_of es = List.map_filter state_of_event es"

lemma states_of_simps [simp]:
  "states_of [] = []" "states_of (es @ fs) = states_of es @ states_of fs"
  "states_of (e # es) = (case state_of_event e of None \<Rightarrow> states_of es | Some st \<Rightarrow> st # states_of es)"
  by (simp_all add: states_of_def List.map_filter_def split: option.split)

lemma path_append: "path a (xs @ ys) c \<longleftrightarrow> (\<exists>b. path a xs b \<and> path b ys c)"
  by (induction xs arbitrary: a) auto

definition moves :: "'h session \<Rightarrow> 'h session \<Rightarrow> bool" where
  "moves s s' \<longleftrightarrow> (\<exists>es. ss_log s' = ss_log s @ es \<and> path (ss_state s) (states_of es) (ss_state s'))"

lemma moves_refl [simp]: "moves s s"
  by (auto simp: moves_def)

lemma moves_trans: "moves s t \<Longrightarrow> moves t u \<Longrightarrow> moves s u"
  by (auto simp: moves_def path_append)

lemma moves_same: "ss_log s' = ss_log s \<Longrightarrow> ss_state s' = ss_state s \<Longrightarrow> moves s s'"
  by (auto simp: moves_def)

lemma ss_emit_quiet: "session_quiet env \<Longrightarrow> ss_emit env e s = s\<lparr>ss_log := ss_log s @ [e]\<rparr>"
  by (simp add: session_quiet_def ss_emit_def)

lemma moves_event:
  "state_of_event e = None \<Longrightarrow> ss_log s' = ss_log s @ [e] \<Longrightarrow> ss_state s' = ss_state s \<Longrightarrow> moves s s'"
  by (auto simp: moves_def)

lemma moves_emit: "session_quiet env \<Longrightarrow> state_of_event e = None \<Longrightarrow> moves s (ss_emit env e s)"
  by (rule moves_event) (simp_all add: ss_emit_quiet)

lemma send_control_quiet:
  assumes "session_quiet env"
  shows "\<exists>es. send_control env xs s = s\<lparr>ss_log := ss_log s @ es\<rparr> \<and> states_of es = []
    \<and> length es = length xs"
proof (induction xs arbitrary: s)
  case Nil
  then show ?case by simp
next
  case (Cons x xs)
  obtain e where e: "send_control env (x # xs) s = send_control env xs (s\<lparr>ss_log := ss_log s @ [e]\<rparr>)"
      "state_of_event e = None"
    by (cases x) (use assms in \<open>auto simp: ss_emit_quiet\<close>)
  from Cons [of "s\<lparr>ss_log := ss_log s @ [e]\<rparr>"] obtain es where
    "send_control env xs (s\<lparr>ss_log := ss_log s @ [e]\<rparr>) = s\<lparr>ss_log := ss_log s @ e # es\<rparr>"
      "states_of es = []" "length es = length xs" by auto
  with e show ?case by (intro exI [of _ "e # es"]) simp
qed

lemma send_control_fields:
  assumes "session_quiet env"
  shows "ss_state (send_control env xs s) = ss_state s" "ss_finalized (send_control env xs s) = ss_finalized s"
    "ss_channels (send_control env xs s) = ss_channels s" "ss_config (send_control env xs s) = ss_config s"
    "ss_openChannels (send_control env xs s) = ss_openChannels s" "ss_connected (send_control env xs s) = ss_connected s"
    "ss_stateTimer (send_control env xs s) = ss_stateTimer s" "ss_pingTimer (send_control env xs s) = ss_pingTimer s"
    "ss_pongDeadlineTimer (send_control env xs s) = ss_pongDeadlineTimer s"
    "ss_outstandingPings (send_control env xs s) = ss_outstandingPings s"
    "ss_lastPingTimestamp (send_control env xs s) = ss_lastPingTimestamp s"
    "ss_channelsClosed (send_control env xs s) = ss_channelsClosed s"
    "ss_messengerStarted (send_control env xs s) = ss_messengerStarted s"
  using send_control_quiet [OF assms, of xs s] by auto

lemma moves_send: "session_quiet env \<Longrightarrow> moves s (send_control env xs s)"
  using send_control_quiet [of env xs s] by (auto simp: moves_def)

lemma Diff_Diff_insert: "A - {a} - B = A - insert a B"
  by auto

lemma close_handlers_quiet:
  assumes "session_quiet env"
  shows "close_handlers env hs s = s\<lparr>ss_connected := ss_connected s - set hs,
    ss_log := ss_log s @ map HandlerClosed hs\<rparr>"
  unfolding close_handlers_def
  by (induction hs arbitrary: s)
    (simp_all add: ss_emit_quiet [OF assms] disconnectHandler_def Diff_Diff_insert)

lemma states_of_closed [simp]: "states_of (map HandlerClosed hs) = []" "states_of (map (HandlerClosed \<circ> f) xs) = []"
  by (induction hs, simp_all) (induction xs, simp_all)

text \<open>What entering \<open>Disconnected\<close> leaves behind.\<close>

definition torn_down :: "'h session \<Rightarrow> 'h session" where
  "torn_down s = s\<lparr>ss_stateTimer := None, ss_pingTimer := None, ss_pongDeadlineTimer := None,
     ss_outstandingPings := {}, ss_messengerStarted := False,
     ss_channelsClosed := True,
     ss_openChannels := (if ss_channelsClosed s then ss_openChannels s else {}),
     ss_connected := (if ss_channelsClosed s then ss_connected s
                      else ss_connected s - set (map snd (ss_channels s))),
     ss_log := ss_log s @ [MessengerStop]
       @ (if ss_channelsClosed s then [] else map HandlerClosed (map snd (ss_channels s)))\<rparr>"

lemma closeChannels_quiet: "session_quiet env \<Longrightarrow> closeChannels env s = torn_down s"
  by (simp add: closeChannels_def Let_def close_handlers_quiet torn_down_def stopStateTimer_def
      stopLivenessTimers_def ss_messenger_stop_def)

lemma setState_quiet:
  assumes "session_quiet env"
  shows "setState env st s = (if ss_state s = st then s
    else let t = (if st = Disconnected then torn_down (s\<lparr>ss_state := st\<rparr>) else s\<lparr>ss_state := st\<rparr>)
         in t\<lparr>ss_log := ss_log t @ [StateChanged st]\<rparr>)"
  by (simp add: setState_def Let_def ss_emit_quiet [OF assms] closeChannels_quiet [OF assms])

lemma moves_setState:
  assumes "session_quiet env" and "ss_state s = st \<or> edge (ss_state s) st"
  shows "moves s (setState env st s)" and "ss_state (setState env st s) = st"
proof -
  show "ss_state (setState env st s) = st"
    by (simp add: setState_quiet [OF assms(1)] Let_def torn_down_def)
  show "moves s (setState env st s)"
    using assms(2) by (auto simp: setState_quiet [OF assms(1)] Let_def torn_down_def moves_def)
qed

lemma moves_disconnect:
  assumes "session_quiet env" shows "moves s (disconnect_with env r s)"
proof -
  have "moves s (setState env Disconnected s)"
    by (rule moves_setState(1) [OF assms]) simp
  then show ?thesis
    unfolding disconnect_with_def by (rule moves_trans) (simp add: moves_emit assms)
qed

lemma closeServiceChannel_quiet:
  assumes "session_quiet env"
  shows "closeServiceChannel env ch s = (if ch \<notin> ss_openChannels s then s
    else case handler_of s ch of
      None \<Rightarrow> s\<lparr>ss_openChannels := ss_openChannels s - {ch}\<rparr>
    | Some h \<Rightarrow> s\<lparr>ss_openChannels := ss_openChannels s - {ch}, ss_connected := ss_connected s - {h},
        ss_log := ss_log s @ HandlerClosed h # (if ss_finalized s then [] else [ChannelClosed ch])\<rparr>)"
  by (auto simp: closeServiceChannel_def Let_def ss_emit_quiet [OF assms] disconnectHandler_def split: option.split)

lemma moves_closeService: "session_quiet env \<Longrightarrow> moves s (closeServiceChannel env ch s)"
  by (auto simp: closeServiceChannel_quiet moves_def split: option.split)

lemma moves_start_timer: "moves s t \<Longrightarrow> moves s (startStateTimer n t)"
  by (simp add: moves_def startStateTimer_def)

lemma moves_stops:
  "moves (stopStateTimer s) t \<Longrightarrow> moves s t" "moves (stopLivenessTimers s) t \<Longrightarrow> moves s t"
  by (auto simp: moves_def stopStateTimer_def stopLivenessTimers_def)

lemma moves_emit_after:
  "session_quiet env \<Longrightarrow> moves s t \<Longrightarrow> state_of_event e = None \<Longrightarrow> moves s (ss_emit env e t)"
  by (blast intro: moves_trans moves_emit)

lemma moves_send_after: "session_quiet env \<Longrightarrow> moves s t \<Longrightarrow> moves s (send_control env xs t)"
  by (blast intro: moves_trans moves_send)

lemma onTransportConnected_moves: "session_quiet env \<Longrightarrow> moves s (onTransportConnected env s)"
  by (auto simp: onTransportConnected_def Let_def moves_setState intro!: moves_send_after moves_start_timer)

lemma session_start_moves:
  assumes "session_quiet env" shows "moves s (session_start env s)"
proof (cases "\<not> ss_finalized s \<and> (ss_state s = Idle \<or> ss_state s = Disconnected)")
  case True
  let ?s = "(ss_messenger_start s)\<lparr>ss_channelsClosed := False, ss_warnedNonControlOpen := {},
    ss_warnedLegacyClose := {}\<rparr>"
  have "moves s ?s" by (rule moves_event [where e = MessengerStart]) (simp_all add: ss_messenger_start_def)
  moreover have "moves ?s (setState env Connecting ?s)"
    using True by (intro moves_setState assms) (auto simp: ss_messenger_start_def)
  ultimately have "moves s (setState env Connecting ?s)" by (rule moves_trans)
  with True onTransportConnected_moves [OF assms] show ?thesis
    by (auto simp: session_start_def Let_def intro: moves_trans)
qed (auto simp: session_start_def)

lemma session_stop_moves:
  assumes "session_quiet env" shows "moves s (session_stop env r s)"
proof -
  have "moves s (disconnect_with env UserRequested (stopLivenessTimers (stopStateTimer s)))"
    by (rule moves_stops(1) [OF moves_stops(2) [OF moves_disconnect [OF assms]]])
  moreover have "moves s (setState env ShuttingDown (stopLivenessTimers s))" if "ss_state s = Active"
    using that by (intro moves_stops(2) [OF moves_setState(1) [OF assms]]) simp
  ultimately show ?thesis
    using assms by (auto simp: session_stop_def Let_def intro!: moves_send_after moves_start_timer)
qed

lemma fold_disconnect: "fold disconnectHandler hs s = s\<lparr>ss_connected := ss_connected s - set hs\<rparr>"
  by (induction hs arbitrary: s) (simp_all add: disconnectHandler_def Diff_Diff_insert)

lemma session_finalize_moves:
  assumes "session_quiet env" shows "moves s (session_finalize env s)"
  by (auto simp: session_finalize_def Let_def closeChannels_quiet [OF assms] ss_emit_quiet [OF assms]
      fold_disconnect torn_down_def stopStateTimer_def stopLivenessTimers_def ss_messenger_stop_def moves_def)

lemma moves_fields:
  "moves s t \<Longrightarrow> moves s (t\<lparr>ss_openChannels := x\<rparr>)" "moves s t \<Longrightarrow> moves s (t\<lparr>ss_channels := cs\<rparr>)"
  "moves s t \<Longrightarrow> moves s (t\<lparr>ss_connected := cn\<rparr>)" "moves s t \<Longrightarrow> moves s (t\<lparr>ss_pingTimer := p\<rparr>)"
  "moves s t \<Longrightarrow> moves s (t\<lparr>ss_pongDeadlineTimer := p\<rparr>)" "moves s t \<Longrightarrow> moves s (t\<lparr>ss_stateTimer := p\<rparr>)"
  "moves s t \<Longrightarrow> moves s (t\<lparr>ss_outstandingPings := op\<rparr>)" "moves s t \<Longrightarrow> moves s (t\<lparr>ss_lastPingTimestamp := ts\<rparr>)"
  "moves s t \<Longrightarrow> moves s (t\<lparr>ss_warnedNonControlOpen := w\<rparr>)" "moves s t \<Longrightarrow> moves s (t\<lparr>ss_warnedLegacyClose := w\<rparr>)"
  "moves s t \<Longrightarrow> moves s (connectHandler h t)" "moves s t \<Longrightarrow> moves s (disconnectHandler h t)"
  by (simp_all add: moves_def connectHandler_def disconnectHandler_def)

lemma registerChannel_moves:
  assumes "session_quiet env" shows "moves s (registerChannel env ch h s)"
  using assms
  by (auto simp: registerChannel_def Let_def split: option.split
      intro!: moves_emit_after moves_fields moves_refl)

lemma onPingTick_moves: "session_quiet env \<Longrightarrow> moves s (onPingTick env s)"
  by (auto simp: onPingTick_def Let_def intro!: moves_send_after moves_fields)

lemma open_target_moves: "session_quiet env \<Longrightarrow> moves s (open_target env ch s)"
  by (auto simp: open_target_def open_registered_def Let_def split: option.split
      intro!: moves_emit_after moves_send_after moves_fields moves_closeService)

lemma onVersionReceived_moves:
  assumes "session_quiet env" shows "moves s (onVersionReceived env a b c s)"
  using assms by (auto simp: onVersionReceived_def Let_def moves_setState moves_disconnect
      intro!: moves_emit_after moves_start_timer intro: moves_stops)

lemma onHandshakeComplete_moves:
  assumes "session_quiet env" shows "moves s (onHandshakeComplete env s)"
  using assms by (auto simp: onHandshakeComplete_def Let_def moves_setState
      intro!: moves_send_after moves_start_timer intro: moves_stops)

lemma onServiceDiscoveryRequested_moves:
  assumes q: "session_quiet env" shows "moves s (onServiceDiscoveryRequested env s)"
proof (cases "ss_state s = ServiceDiscovery")
  case True
  define s1 where "s1 = ss_emit env (SendMessage 0 0x0006 (serialize_proto (se_protos env)
      (buildServiceDiscoveryResponse (ss_config s)))) (stopStateTimer s)"
  have m1: "moves s s1" unfolding s1_def by (rule moves_stops(1) [OF moves_emit [OF q]]) simp
  have st: "ss_state s1 = ServiceDiscovery" using True by (simp add: s1_def ss_emit_quiet [OF q])
  then have m2: "moves s1 (setState env Active s1)" by (intro moves_setState q) simp
  have "moves s (setState env Active s1)" by (rule moves_trans [OF m1 m2])
  moreover from this have "moves s (onPingTick env ((setState env Active s1)\<lparr>ss_pingTimer := p\<rparr>))" for p
    by (rule moves_trans [OF moves_fields(4) onPingTick_moves [OF q]])
  ultimately show ?thesis
    using True m1 by (simp add: onServiceDiscoveryRequested_def Let_def flip: s1_def)
qed (simp add: onServiceDiscoveryRequested_def)

lemma onControlSignal_moves:
  assumes q: "session_quiet env" shows "moves s (onControlSignal env x s)"
proof -
  have a: "moves s (onShutdownRequested env s)"
    using q by (auto simp: onShutdownRequested_def Let_def moves_send intro: moves_trans moves_send moves_disconnect)
  have b: "moves s (onAudioFocusRequested env pl s)" for pl
    using q by (auto simp: onAudioFocusRequested_def split: option.split intro!: moves_emit_after moves_send_after)
  have c: "moves s (onPongReceived env t s)" for t
    by (simp add: onPongReceived_def moves_same)
  show ?thesis
    using q a b c onVersionReceived_moves [OF q] onServiceDiscoveryRequested_moves [OF q] open_target_moves [OF q]
      moves_disconnect [OF q]
    by (cases x) (auto simp: onVersionResponseMalformed_def onChannelOpenRequested_def onShutdownAcknowledged_def
        intro!: moves_emit moves_send intro: moves_stops)
qed

lemma session_onMessage_moves:
  assumes q: "session_quiet env" shows "moves s (session_onMessage env ch mid payload off mt s)"
proof -
  have "moves s (fold (onControlSignal env) xs s)" for xs
    by (induction xs arbitrary: s) (auto intro: moves_trans onControlSignal_moves [OF q])
  moreover have "moves s t \<Longrightarrow> moves s (onServiceOpen env ch d t)" for d t
    using q by (auto simp: onServiceOpen_def split: option.split intro: moves_emit_after moves_trans open_target_moves)
  moreover have "moves s t \<Longrightarrow> moves s (dispatch_handler env h m payload off t)" for h t m
    using q by (auto simp: dispatch_handler_def intro!: moves_emit_after)
  moreover have "moves s (closeServiceChannel env ch s)" by (rule moves_closeService [OF q])
  ultimately show ?thesis
    by (simp add: session_onMessage_def Let_def moves_fields split: option.split)
qed

lemma session_apply_moves:
  assumes q: "session_quiet env" shows "moves s (session_apply env operation s)"
proof -
  have timers: "moves (s\<lparr>ss_pongDeadlineTimer := None\<rparr>) t \<Longrightarrow> moves s t"
    "moves (s\<lparr>ss_stateTimer := None\<rparr>) t \<Longrightarrow> moves s t" for t by (simp_all add: moves_def)
  have d: "moves s (disconnect_with env r s)" "moves s (disconnect_with env r (stopStateTimer s))"
    "moves s (disconnect_with env r (stopLivenessTimers (stopStateTimer s)))"
    "moves s (disconnect_with env r (stopLivenessTimers (s\<lparr>ss_pongDeadlineTimer := None\<rparr>)))"
    "moves s (disconnect_with env r (s\<lparr>ss_stateTimer := None\<rparr>))" for r
    using moves_disconnect [OF q] by (blast intro: moves_stops timers)+
  show ?thesis
    using q d by (cases operation) (auto simp: session_start_moves session_stop_moves session_finalize_moves
      registerChannel_moves onTransportConnected_moves onTransportDisconnected_def onTransportError_def
      onHandshakeComplete_moves onHandshakeFailed_def onTlsFailed_def onProtocolFailed_def session_onMessage_moves
      onPingTick_moves onPongDeadline_def onStateTimeout_def onHandlerSend_def
      intro: moves_emit moves_fields)
qed

text \<open>
  C10. The states a session reports are always a path of its state machine that starts in
  \<open>Idle\<close> and ends in its present state; in particular it is active only after a
  version exchange, a TLS handshake and a service discovery since it last began to connect.
\<close>

theorem session_follows_protocol:
  assumes "session_quiet env" and "session_reachable env cfg s"
  shows "path Idle (states_of (ss_log s)) (ss_state s)"
  using assms(2)
proof (induction rule: session_reachable.induct)
  case sess_new
  then show ?case by (simp add: session_new_def)
next
  case (sess_op s operation)
  from session_apply_moves [OF assms(1), of s operation] sess_op.IH show ?case
    by (auto simp: moves_def path_append)
qed

definition demo_active_ops :: "nat session_op list" where
  "demo_active_ops = [DoRegister 12 7, DoStart,
     SigMessage 0 0x0002 [0, 6, 0, 0, 0, 0] 0 Specific, SigHandshakeComplete,
     SigMessage 0 0x0005 [] 0 Specific]"

definition demo_active :: "nat session" where
  "demo_active = fold (session_apply demo_session_env) demo_active_ops (session_new demo_config)"

lemma reachable_fold:
  "session_reachable env cfg s \<Longrightarrow> session_reachable env cfg (fold (session_apply env) xs s)"
  by (induction xs arbitrary: s) (simp_all add: sess_op)

lemma demo_active_reachable: "session_reachable demo_session_env demo_config demo_active"
  unfolding demo_active_def by (rule reachable_fold [OF sess_new])

theorem session_follows_protocol_witness:
  "path Idle (states_of (ss_log demo_active)) (ss_state demo_active)"
  by (rule session_follows_protocol [OF demo_quiet demo_active_reachable])

section \<open>Registry and timers\<close>

text \<open>
  The registry: channels are open only in an active or closing session and only when a
  handler is registered, every connected handler serves an open channel, and a finalized
  session has no handlers.
\<close>

definition registry_inv :: "'h session \<Rightarrow> bool" where
  "registry_inv s \<longleftrightarrow>
     (ss_channelsClosed s \<longleftrightarrow> ended (ss_state s))
   \<and> (ss_messengerStarted s \<longleftrightarrow> \<not> ended (ss_state s))
   \<and> (ss_finalized s \<longrightarrow> ended (ss_state s) \<and> ss_channels s = [])
   \<and> ss_openChannels s \<subseteq> dom (map_of (ss_channels s))
   \<and> (ss_openChannels s \<noteq> {} \<longrightarrow> ss_state s = Active \<or> ss_state s = ShuttingDown)
   \<and> (\<forall>h \<in> ss_connected s. \<exists>ch \<in> ss_openChannels s. handler_of s ch = Some h)"

definition waiting :: "session_state \<Rightarrow> bool" where
  "waiting st \<longleftrightarrow> st = VersionExchange \<or> st = TLSHandshake \<or> st = ServiceDiscovery \<or> st = ShuttingDown"

definition timers_inv :: "'h session \<Rightarrow> bool" where
  "timers_inv s \<longleftrightarrow>
     (waiting (ss_state s) \<longleftrightarrow> ss_stateTimer s \<noteq> None)
   \<and> (ss_state s = Active \<longleftrightarrow> ss_pingTimer s \<noteq> None)
   \<and> (ss_outstandingPings s \<noteq> {} \<longleftrightarrow> ss_pongDeadlineTimer s \<noteq> None)
   \<and> (ss_outstandingPings s \<noteq> {} \<longrightarrow> ss_state s = Active)"

definition live_inv :: "'h session \<Rightarrow> bool" where
  "live_inv s \<longleftrightarrow> registry_inv s \<and> timers_inv s"

lemma live_inv_log [simp]: "live_inv (s\<lparr>ss_log := l\<rparr>) = live_inv s"
  by (simp add: live_inv_def registry_inv_def timers_inv_def)

lemma live_inv_warned [simp]:
  "live_inv (s\<lparr>ss_warnedLegacyClose := w\<rparr>) = live_inv s" "live_inv (s\<lparr>ss_warnedNonControlOpen := w\<rparr>) = live_inv s"
  by (simp_all add: live_inv_def registry_inv_def timers_inv_def)

lemma registry_inv_timers [simp]:
  "registry_inv (s\<lparr>ss_log := l\<rparr>) = registry_inv s" "registry_inv (s\<lparr>ss_stateTimer := t\<rparr>) = registry_inv s"
  "registry_inv (s\<lparr>ss_pingTimer := t\<rparr>) = registry_inv s"
  "registry_inv (s\<lparr>ss_pongDeadlineTimer := t\<rparr>) = registry_inv s"
  "registry_inv (s\<lparr>ss_outstandingPings := p\<rparr>) = registry_inv s"
  "registry_inv (stopStateTimer s) = registry_inv s" "registry_inv (stopLivenessTimers s) = registry_inv s"
  by (simp_all add: registry_inv_def stopStateTimer_def stopLivenessTimers_def)

lemma live_disconnect:
  assumes q: "session_quiet env" and r: "registry_inv s" and st: "ss_state s \<noteq> Disconnected"
  shows "live_inv (disconnect_with env reason s)" and "ss_state (disconnect_with env reason s) = Disconnected"
proof -
  have "registry_inv (torn_down (s\<lparr>ss_state := Disconnected\<rparr>))"
    using r st by (auto simp: registry_inv_def torn_down_def ended_def dest: map_of_SomeD)
      (metis map_of_SomeD snd_conv image_iff)+
  moreover have "timers_inv (torn_down (s\<lparr>ss_state := Disconnected\<rparr>))"
    by (simp add: timers_inv_def torn_down_def waiting_def)
  ultimately show "live_inv (disconnect_with env reason s)"
    using st by (simp add: disconnect_with_def setState_quiet [OF q] ss_emit_quiet [OF q] live_inv_def Let_def)
      (simp add: timers_inv_def registry_inv_def)
  show "ss_state (disconnect_with env reason s) = Disconnected"
    using st by (simp add: disconnect_with_def setState_quiet [OF q] ss_emit_quiet [OF q] Let_def torn_down_def)
qed

lemma live_inv_registry: "live_inv s \<Longrightarrow> registry_inv s"
  by (simp add: live_inv_def)

lemma live_new: "live_inv (session_new cfg)"
  by (simp add: live_inv_def session_new_def registry_inv_def timers_inv_def waiting_def ended_def)

lemma registry_ended:
  assumes "registry_inv s" and "ended (ss_state s)"
  shows "ss_openChannels s = {}" "ss_connected s = {}" "ss_channelsClosed s" "\<not> ss_messengerStarted s"
  using assms by (auto simp: registry_inv_def ended_def)

lemma registry_connected: "registry_inv s \<Longrightarrow> ss_connected s \<subseteq> set (map snd (ss_channels s))"
  by (fastforce simp: registry_inv_def dest: map_of_SomeD intro: rev_image_eqI)

lemma registry_not_final: "registry_inv s \<Longrightarrow> \<not> ended (ss_state s) \<Longrightarrow> \<not> ss_finalized s"
  by (auto simp: registry_inv_def)

text \<open>A step forward: the new state, its timer, and what is sent.\<close>

lemma live_forward:
  assumes "live_inv s" and "\<not> ended (ss_state s)" and "ss_state s \<noteq> Active" "ss_state s \<noteq> ShuttingDown"
    and "waiting st" and "st \<noteq> ShuttingDown"
  shows "live_inv (s\<lparr>ss_state := st, ss_log := l, ss_stateTimer := Some n\<rparr>)"
    and "live_inv (s\<lparr>ss_state := st, ss_stateTimer := Some n\<rparr>)"
  using assms by (auto simp: live_inv_def registry_inv_def timers_inv_def waiting_def ended_def)

lemma send_control_live: "session_quiet env \<Longrightarrow> live_inv (send_control env xs s) = live_inv s"
  using send_control_quiet [of env xs s] by auto

lemma onTransportConnected_live:
  assumes q: "session_quiet env" and l: "live_inv s" shows "live_inv (onTransportConnected env s)"
proof (cases "ss_state s = Connecting")
  case True
  have "\<not> ss_finalized s" using l True registry_not_final [of s] by (simp add: live_inv_def ended_def)
  with True live_forward(1) [OF l, of VersionExchange] q show ?thesis
    by (simp add: onTransportConnected_def Let_def send_control_live setState_quiet startStateTimer_def
        ended_def waiting_def)
qed (simp add: onTransportConnected_def l)

lemma session_start_live:
  assumes q: "session_quiet env" and l: "live_inv s" shows "live_inv (session_start env s)"
proof (cases "\<not> ss_finalized s \<and> ended (ss_state s)")
  case True
  let ?s = "(ss_messenger_start s)\<lparr>ss_channelsClosed := False, ss_warnedNonControlOpen := {}, ss_warnedLegacyClose := {}\<rparr>"
  note e = registry_ended [OF live_inv_registry [OF l]]
  have "ss_state s \<noteq> Connecting" using True by (auto simp: ended_def)
  moreover have "timers_inv s" using l by (simp add: live_inv_def)
  ultimately have "live_inv (setState env Connecting ?s)"
    using True e by (simp add: setState_quiet [OF q] Let_def ss_messenger_start_def live_inv_def registry_inv_def
        timers_inv_def) (auto simp: ended_def waiting_def)
  with True onTransportConnected_live [OF q] show ?thesis
    by (auto simp: session_start_def Let_def ended_def)
qed (use l in \<open>auto simp: session_start_def ended_def\<close>)

lemma live_shutting_down:
  assumes "live_inv s" and "ss_state s = Active"
  shows "live_inv (s\<lparr>ss_pingTimer := None, ss_pongDeadlineTimer := None, ss_outstandingPings := {},
      ss_state := ShuttingDown, ss_log := x, ss_stateTimer := Some n\<rparr>)"
  using assms by (auto simp: live_inv_def registry_inv_def timers_inv_def waiting_def ended_def)

lemma session_stop_live:
  assumes q: "session_quiet env" and l: "live_inv s" shows "live_inv (session_stop env r s)"
proof (cases "ss_state s = Active")
  case True
  then have "\<not> ss_finalized s" using l registry_not_final [of s] by (simp add: live_inv_def ended_def)
  with True live_shutting_down [OF l] show ?thesis
    by (simp add: session_stop_def Let_def send_control_live q setState_quiet startStateTimer_def stopLivenessTimers_def)
next
  case False
  with l live_disconnect(1) [OF q, of "stopLivenessTimers (stopStateTimer s)"] show ?thesis
    by (simp add: session_stop_def live_inv_registry)
qed

lemma session_finalize_live:
  assumes q: "session_quiet env" and l: "live_inv s" shows "live_inv (session_finalize env s)"
proof (cases "ss_finalized s")
  case False
  have c: "ss_connected s - set (map snd (ss_channels s)) = {}"
    using registry_connected [OF live_inv_registry [OF l]] by blast
  have t: "timers_inv s" and r: "registry_inv s" using l by (simp_all add: live_inv_def)
  show ?thesis
  proof (cases "ended (ss_state s)")
    case True
    then show ?thesis
      using False t registry_ended [OF r]
      by (simp add: session_finalize_def Let_def closeChannels_quiet [OF q] fold_disconnect torn_down_def
          stopStateTimer_def stopLivenessTimers_def ss_messenger_stop_def live_inv_def registry_inv_def timers_inv_def)
        (auto simp: ended_def waiting_def)
  next
    case F: False
    then have "\<not> ss_channelsClosed s" using r by (simp add: registry_inv_def)
    with F False c show ?thesis
      by (simp add: session_finalize_def Let_def closeChannels_quiet [OF q] ss_emit_quiet [OF q] fold_disconnect
          torn_down_def stopStateTimer_def stopLivenessTimers_def ss_messenger_stop_def live_inv_def registry_inv_def
          timers_inv_def ended_def waiting_def) blast
  qed
qed (simp add: session_finalize_def l)

lemma map_of_set_handler: "map_of (set_handler ch h cs) = (map_of cs)(ch \<mapsto> h)"
  by (induction ch h cs rule: set_handler.induct) auto

lemma registry_cong:
  "registry_inv s \<Longrightarrow> ss_channelsClosed t = ss_channelsClosed s \<Longrightarrow> ss_messengerStarted t = ss_messengerStarted s \<Longrightarrow>
    ss_finalized t = ss_finalized s \<Longrightarrow> ss_state t = ss_state s \<Longrightarrow> ss_channels t = ss_channels s \<Longrightarrow>
    ss_openChannels t = ss_openChannels s \<Longrightarrow> ss_connected t = ss_connected s \<Longrightarrow> registry_inv t"
  by (simp add: registry_inv_def)

lemma registerChannel_live:
  assumes q: "session_quiet env" and l: "live_inv s" shows "live_inv (registerChannel env ch h s)"
proof -
  have t: "timers_inv s" and r: "registry_inv s" using l by (simp_all add: live_inv_def)
  have keep: "\<forall>x \<in> ss_connected s - {old}. \<exists>c \<in> ss_openChannels s - {ch}. handler_of s c = Some x"
    if "handler_of s ch = Some old" for old
  proof
    fix x assume x: "x \<in> ss_connected s - {old}"
    with r obtain c where c: "c \<in> ss_openChannels s" "handler_of s c = Some x"
      unfolding registry_inv_def by blast
    with x that have "c \<noteq> ch" by auto
    with c show "\<exists>c \<in> ss_openChannels s - {ch}. handler_of s c = Some x" by blast
  qed
  have new: "\<forall>x \<in> ss_connected s. \<exists>c \<in> ss_openChannels s. c \<noteq> ch \<and> handler_of s c = Some x"
    if "handler_of s ch = None"
  proof
    fix x assume "x \<in> ss_connected s"
    with r obtain c where "c \<in> ss_openChannels s" "handler_of s c = Some x"
      unfolding registry_inv_def by blast
    moreover from this that have "c \<noteq> ch" by auto
    ultimately show "\<exists>c \<in> ss_openChannels s. c \<noteq> ch \<and> handler_of s c = Some x" by blast
  qed
  show ?thesis
  proof (cases "ss_finalized s")
    case True
    then show ?thesis by (simp add: registerChannel_def l)
  next
    case F: False
    show ?thesis
    proof (cases "handler_of s ch")
      case None
      have "registry_inv (s\<lparr>ss_log := x, ss_channels := set_handler ch h (ss_channels s)\<rparr>)" for x
        using r F None new [OF None] by (fastforce simp: registry_inv_def map_of_set_handler)
      with F None t show ?thesis
        by (simp add: registerChannel_def Let_def ss_emit_quiet [OF q] live_inv_def timers_inv_def)
    next
      case (Some old)
      let ?s3 = "\<lambda>x. s\<lparr>ss_log := x, ss_connected := ss_connected s - {old}, ss_openChannels := ss_openChannels s - {ch},
        ss_channels := set_handler ch h (ss_channels s)\<rparr>"
      have r3: "registry_inv (?s3 x)" for x
        using r F keep [OF Some] by (fastforce simp: registry_inv_def map_of_set_handler)
      have same: "registry_inv (s\<lparr>ss_log := x, ss_channels := set_handler ch h (ss_channels s)\<rparr>)" if "old = h" for x
      proof -
        have "map_of (set_handler ch h (ss_channels s)) = map_of (ss_channels s)"
          using Some that by (auto simp: map_of_set_handler)
        then show ?thesis using r F by (simp add: registry_inv_def)
      qed
      have r4: "registry_inv (s\<lparr>ss_log := x, ss_openChannels := insert ch (ss_openChannels s - {ch}),
          ss_channels := set_handler ch h (ss_channels s), ss_connected := insert h (ss_connected s - {old})\<rparr>)"
        if "ss_state s = Active" for x
        using r3 [of x] that by (fastforce simp: registry_inv_def map_of_set_handler)
      have "registry_inv (registerChannel env ch h s)"
      proof (cases "old = h")
        case True
        with F Some same show ?thesis by (simp add: registerChannel_def Let_def ss_emit_quiet [OF q])
      next
        case ne: False
        show ?thesis
        proof (cases "ch \<in> ss_openChannels s")
          case True
          with F Some ne registry_cong [OF r3] registry_cong [OF r4] show ?thesis
            by (simp add: registerChannel_def Let_def ss_emit_quiet [OF q] disconnectHandler_def connectHandler_def)
        next
          case False
          with F Some ne registry_cong [OF r3] show ?thesis
            by (simp add: registerChannel_def Let_def ss_emit_quiet [OF q] disconnectHandler_def)
        qed
      qed
      moreover have "timers_inv (registerChannel env ch h s)"
        using F Some t
        by (simp add: registerChannel_def Let_def ss_emit_quiet [OF q] disconnectHandler_def connectHandler_def
            timers_inv_def)
      ultimately show ?thesis by (simp add: live_inv_def)
    qed
  qed
qed

lemma onVersionReceived_live:
  assumes q: "session_quiet env" and l: "live_inv s" shows "live_inv (onVersionReceived env a b c s)"
proof (cases "ss_state s = VersionExchange")
  case True
  have "\<not> ss_finalized s" using l True registry_not_final [of s] by (simp add: live_inv_def ended_def)
  moreover have "live_inv (s\<lparr>ss_stateTimer := None, ss_state := TLSHandshake, ss_log := x, ss_stateTimer := Some n\<rparr>)" for x n
    using live_forward(1) [OF l, of TLSHandshake n x] True by (simp add: ended_def waiting_def)
  ultimately show ?thesis
    using True live_disconnect(1) [OF q, of "stopStateTimer s"] live_inv_registry [OF l] q
      live_forward(2) [OF l, of TLSHandshake]
    by (simp add: onVersionReceived_def Let_def setState_quiet startStateTimer_def ss_emit_quiet)
      (simp add: stopStateTimer_def ended_def waiting_def)
qed (simp add: onVersionReceived_def l)

lemma onHandshakeComplete_live:
  assumes q: "session_quiet env" and l: "live_inv s" shows "live_inv (onHandshakeComplete env s)"
proof (cases "ss_state s = TLSHandshake")
  case True
  have "\<not> ss_finalized s" using l True registry_not_final [of s] by (simp add: live_inv_def ended_def)
  moreover have "live_inv (s\<lparr>ss_stateTimer := None, ss_state := ServiceDiscovery, ss_log := x, ss_stateTimer := Some n\<rparr>)" for x n
    using live_forward(1) [OF l, of ServiceDiscovery n x] True by (simp add: ended_def waiting_def)
  ultimately show ?thesis
    using True q
    by (simp add: onHandshakeComplete_def Let_def setState_quiet startStateTimer_def send_control_live)
      (simp add: stopStateTimer_def)
qed (simp add: onHandshakeComplete_def l)

text \<open>A tick sends one ping and leaves the deadline running.\<close>

lemma onPingTick_quiet:
  assumes q: "session_quiet env" and st: "ss_state s = Active"
  shows "\<exists>x. onPingTick env s = s\<lparr>ss_lastPingTimestamp := se_now env s,
    ss_outstandingPings := insert (se_now env s) (ss_outstandingPings s), ss_log := x,
    ss_pongDeadlineTimer := (case ss_pongDeadlineTimer s of None \<Rightarrow> Some (pingTimeout (ss_config s)) | Some d \<Rightarrow> Some d)\<rparr>"
proof -
  define t where "t = s\<lparr>ss_lastPingTimestamp := se_now env s,
      ss_outstandingPings := insert (se_now env s) (ss_outstandingPings s)\<rparr>"
  obtain es where es: "send_control env (sendPingRequest (se_protos env) (se_now env s)) t = t\<lparr>ss_log := ss_log t @ es\<rparr>"
    using send_control_quiet [OF q] by blast
  have "onPingTick env s = (t\<lparr>ss_log := ss_log t @ es\<rparr>)\<lparr>ss_pongDeadlineTimer :=
      (case ss_pongDeadlineTimer s of None \<Rightarrow> Some (pingTimeout (ss_config s)) | Some d \<Rightarrow> Some d)\<rparr>"
    unfolding onPingTick_def Let_def t_def [symmetric] es
    using st by (simp add: t_def split: option.split)
  then show ?thesis unfolding t_def by auto
qed

lemma onPingTick_live:
  assumes q: "session_quiet env" and r: "registry_inv s" and st: "ss_state s = Active"
    and t: "ss_stateTimer s = None" "ss_pingTimer s \<noteq> None"
  shows "live_inv (onPingTick env s)"
proof -
  from onPingTick_quiet [OF q st] obtain x where
    x: "onPingTick env s = s\<lparr>ss_lastPingTimestamp := se_now env s,
    ss_outstandingPings := insert (se_now env s) (ss_outstandingPings s), ss_log := x,
    ss_pongDeadlineTimer := (case ss_pongDeadlineTimer s of None \<Rightarrow> Some (pingTimeout (ss_config s)) | Some d \<Rightarrow> Some d)\<rparr>"
    by blast
  have "registry_inv (onPingTick env s)" by (rule registry_cong [OF r]) (simp_all add: x)
  moreover have "timers_inv (onPingTick env s)"
    using st t by (auto simp: x timers_inv_def waiting_def split: option.split)
  ultimately show ?thesis by (simp add: live_inv_def)
qed

lemma onServiceDiscoveryRequested_live:
  assumes q: "session_quiet env" and l: "live_inv s" shows "live_inv (onServiceDiscoveryRequested env s)"
proof (cases "ss_state s = ServiceDiscovery")
  case True
  have nf: "\<not> ss_finalized s" using l True registry_not_final [of s] by (simp add: live_inv_def ended_def)
  have "registry_inv (s\<lparr>ss_stateTimer := None, ss_log := x, ss_state := Active, ss_log := y, ss_pingTimer := p\<rparr>)" for x y p
    using live_inv_registry [OF l] True by (auto simp: registry_inv_def ended_def)
  then show ?thesis
    using True nf q onPingTick_live [OF q]
    by (simp add: onServiceDiscoveryRequested_def Let_def setState_quiet ss_emit_quiet stopStateTimer_def)
qed (simp add: onServiceDiscoveryRequested_def l)

lemma closeServiceChannel_live:
  assumes q: "session_quiet env" and l: "live_inv s" shows "live_inv (closeServiceChannel env ch s)"
proof (cases "ch \<in> ss_openChannels s")
  case True
  have r: "registry_inv s" using l by (simp add: live_inv_def)
  then obtain h where h: "handler_of s ch = Some h" using True by (auto simp: registry_inv_def)
  have "\<forall>x \<in> ss_connected s - {h}. \<exists>c \<in> ss_openChannels s - {ch}. handler_of s c = Some x"
  proof
    fix x assume x: "x \<in> ss_connected s - {h}"
    with r obtain c where c: "c \<in> ss_openChannels s" "handler_of s c = Some x" unfolding registry_inv_def by blast
    with x h have "c \<noteq> ch" by auto
    with c show "\<exists>c \<in> ss_openChannels s - {ch}. handler_of s c = Some x" by blast
  qed
  with r True h l show ?thesis
    by (auto simp: closeServiceChannel_quiet [OF q] live_inv_def registry_inv_def timers_inv_def)
qed (simp add: closeServiceChannel_def l)

lemma connect_open_live:
  assumes l: "live_inv s" and st: "ss_state s = Active" and h: "handler_of s ch = Some h"
  shows "live_inv ((connectHandler h s)\<lparr>ss_openChannels := insert ch (ss_openChannels s)\<rparr>)"
  using assms by (auto simp: live_inv_def registry_inv_def timers_inv_def connectHandler_def)

lemma open_registered_live:
  assumes q: "session_quiet env" and l: "live_inv s" and st: "ss_state s = Active" and h: "handler_of s ch = Some h"
  shows "live_inv (open_registered env ch h s)"
proof -
  define s1 where "s1 = (if ch \<in> ss_openChannels s \<and> supportsExplicitReopenLifecycle ch
    then closeServiceChannel env ch s else s)"
  have nf: "\<not> ss_finalized s" using l st registry_not_final [of s] by (simp add: live_inv_def ended_def)
  have "live_inv s1" using l closeServiceChannel_live [OF q l] by (simp add: s1_def)
  moreover have "ss_state s1 = Active" "handler_of s1 ch = Some h" "\<not> ss_finalized s1"
    using st h nf by (simp_all add: s1_def closeServiceChannel_quiet [OF q])
  ultimately have 1: "live_inv s1" "ss_state s1 = Active" "handler_of s1 ch = Some h" "\<not> ss_finalized s1"
    by simp_all
  define s2 where "s2 = send_control env (sendChannelOpenResponse (se_protos env) ch True) s1"
  have 2: "live_inv s2" "ss_state s2 = Active" "handler_of s2 ch = Some h" "\<not> ss_finalized s2"
    using 1 q by (simp_all add: s2_def send_control_live send_control_fields)
  have "live_inv ((connectHandler h s2)\<lparr>ss_openChannels := insert ch (ss_openChannels s2)\<rparr>)"
    by (rule connect_open_live [OF 2(1-3)])
  with 1 2 show ?thesis
    by (simp add: open_registered_def Let_def ss_emit_quiet [OF q] still_serving_def flip: s1_def s2_def)
qed

lemma open_target_live:
  assumes q: "session_quiet env" and l: "live_inv s" and st: "ss_state s = Active"
  shows "live_inv (open_target env ch s)"
  using assms open_registered_live [OF q l st]
  by (simp add: open_target_def ss_emit_quiet send_control_live split: option.split)

lemma onControlSignal_live:
  assumes q: "session_quiet env" and l: "live_inv s" shows "live_inv (onControlSignal env x s)"
proof -
  note d = live_disconnect(1) [OF q]
  have r: "registry_inv s" "registry_inv (stopStateTimer s)" using l by (simp_all add: live_inv_def)
  have "registry_inv (send_control env xs s)" for xs
    using l send_control_live [OF q, of xs s] by (simp add: live_inv_def)
  then have a: "live_inv (onShutdownRequested env s)"
    using q l by (auto simp: onShutdownRequested_def Let_def send_control_live intro: d)
  have b: "live_inv (onAudioFocusRequested env pl s)" for pl
    using q l by (simp add: onAudioFocusRequested_def ss_emit_quiet send_control_live split: option.split)
  have c: "live_inv (onPongReceived env t s)" for t
    using l by (auto simp: onPongReceived_def live_inv_def timers_inv_def)
  show ?thesis
    using q l a b c r d
    by (cases x) (simp_all add: onVersionReceived_live onServiceDiscoveryRequested_live open_target_live
        onVersionResponseMalformed_def onChannelOpenRequested_def onShutdownAcknowledged_def ss_emit_quiet
        send_control_live)
qed

lemma session_onMessage_live:
  assumes q: "session_quiet env" and l: "live_inv s"
  shows "live_inv (session_onMessage env ch mid payload off mt s)"
proof -
  have "live_inv (fold (onControlSignal env) xs s)" for xs
    using l by (induction xs arbitrary: s) (simp_all add: onControlSignal_live q)
  moreover have "live_inv t \<Longrightarrow> live_inv (onServiceOpen env ch d t)" for d t
    using q by (simp add: onServiceOpen_def open_target_live ss_emit_quiet split: option.split)
  moreover have "live_inv t \<Longrightarrow> live_inv (dispatch_handler env h m payload off t)" for h t m
    using q by (simp add: dispatch_handler_def ss_emit_quiet)
  ultimately show ?thesis
    using l closeServiceChannel_live [OF q l] by (simp add: session_onMessage_def Let_def split: option.split)
qed

lemma session_apply_live:
  assumes q: "session_quiet env" and l: "live_inv s" shows "live_inv (session_apply env operation s)"
proof -
  note d = live_disconnect(1) [OF q]
  have r: "registry_inv s" "timers_inv s" using l by (simp_all add: live_inv_def)
  have p: "live_inv (onPingTick env s)" if "ss_pingTimer s \<noteq> None"
    using that r onPingTick_live [OF q r(1)] by (auto simp: timers_inv_def waiting_def)
  have "ss_stateTimer s \<noteq> None \<Longrightarrow> ss_state s \<noteq> Disconnected" using r(2) by (auto simp: timers_inv_def waiting_def)
  then have e: "live_inv (session_apply env TimerState s)" using l r(1) by (simp add: onStateTimeout_def d)
  have f: "live_inv (session_apply env TimerPongDeadline s)"
    using l r by (auto simp: onPongDeadline_def timers_inv_def intro!: d)
  show ?thesis
    using q l d r p e f
    by (cases operation) (simp_all add: session_start_live session_stop_live session_finalize_live registerChannel_live
      onTransportConnected_live onTransportDisconnected_def onTransportError_def onHandshakeComplete_live
      onHandshakeFailed_def onTlsFailed_def onProtocolFailed_def session_onMessage_live onHandlerSend_def ss_emit_quiet)
qed

lemma session_reachable_live:
  "session_reachable env cfg s \<Longrightarrow> session_quiet env \<Longrightarrow> live_inv s"
  by (induction rule: session_reachable.induct) (simp_all add: live_new session_apply_live)

section \<open>The guarantees\<close>

text \<open>
  C11. A session never waits for the phone without a running timer: in each state of the
  handshake and while shutting down the state timer runs, and if it fires the session
  disconnects with \<open>Timeout\<close>; an active session pings, and after each ping the deadline runs
  until a matching pong, and if it fires the session disconnects with \<open>PingTimeout\<close>.
\<close>

theorem session_never_waits_unguarded:
  assumes q: "session_quiet env" and "session_reachable env cfg s"
  shows "(waiting (ss_state s) \<longrightarrow> ss_stateTimer s \<noteq> None
      \<and> ss_state (session_apply env TimerState s) = Disconnected
      \<and> last (ss_log (session_apply env TimerState s)) = DisconnectedBy Timeout)
    \<and> (ss_state s = Active \<longrightarrow> ss_pingTimer s \<noteq> None
      \<and> ss_pongDeadlineTimer (session_apply env TimerPing s) \<noteq> None
      \<and> ss_state (session_apply env TimerPongDeadline (session_apply env TimerPing s)) = Disconnected
      \<and> last (ss_log (session_apply env TimerPongDeadline (session_apply env TimerPing s)))
          = DisconnectedBy PingTimeout)"
proof -
  have l: "live_inv s" by (rule session_reachable_live [OF assms(2) q])
  have last: "last (ss_log (disconnect_with env r t)) = DisconnectedBy r" for r t
    by (simp add: disconnect_with_def ss_emit_quiet [OF q])
  have d: "ss_state t \<noteq> Disconnected \<Longrightarrow> ss_state (disconnect_with env r t) = Disconnected" for r t
    by (simp add: disconnect_with_def setState_quiet [OF q] ss_emit_quiet [OF q] Let_def torn_down_def)
  have t: "ss_stateTimer s \<noteq> None" if "waiting (ss_state s)"
    using l that by (simp add: live_inv_def timers_inv_def)
  have p: "ss_pingTimer s \<noteq> None" if "ss_state s = Active"
    using l that by (simp add: live_inv_def timers_inv_def)
  have tick: "ss_state (onPingTick env s) = Active \<and> ss_pongDeadlineTimer (onPingTick env s) \<noteq> None"
    if "ss_state s = Active"
    using onPingTick_quiet [OF q that] that by (auto split: option.split)
  show ?thesis
    using t p tick last d by (auto simp: onStateTimeout_def onPongDeadline_def waiting_def)
qed

lemma demo_active_state: "ss_state demo_active = Active"
  by (simp add: demo_active_def demo_active_ops_def session_onMessage_def control_onMessage_def be_u16_def
      be_val_def session_start_def session_new_def demo_config_def demo_session_env_def onTransportConnected_def
      setState_def ss_emit_def ss_messenger_start_def registerChannel_def onVersionReceived_def version_acceptable_def
      protocolPolicy_def requiresMinimumCompatibleResponse_def atLeast_version_def version_ge_iff gal_versions
      onHandshakeComplete_def onServiceDiscoveryRequested_def onPingTick_def sendVersionRequest_def sendAuthComplete_def
      sendPingRequest_def startStateTimer_def stopStateTimer_def Let_def)

theorem session_never_waits_unguarded_witness:
  "ss_pingTimer demo_active \<noteq> None
    \<and> ss_state (session_apply demo_session_env TimerPongDeadline
        (session_apply demo_session_env TimerPing demo_active)) = Disconnected"
  using session_never_waits_unguarded [OF demo_quiet demo_active_reachable] demo_active_state by blast

text \<open>
  C12. In every reachable state: channels are open only while the session is active or
  shutting down, each open channel has a registered handler, and a handler whose sends reach
  the messenger serves an open channel; when the session has ended, no channel is open and no
  handler is connected; a finalized session has let go of its handlers.
\<close>

theorem session_channels_served:
  assumes q: "session_quiet env" and "session_reachable env cfg s"
  shows "ss_openChannels s \<subseteq> dom (map_of (ss_channels s))
    \<and> (\<forall>h ch mid pl. onHandlerSend env h ch mid pl s \<noteq> s \<longrightarrow>
         (\<exists>c \<in> ss_openChannels s. map_of (ss_channels s) c = Some h))
    \<and> (ss_openChannels s \<noteq> {} \<longrightarrow> ss_state s = Active \<or> ss_state s = ShuttingDown)
    \<and> (ss_state s = Idle \<or> ss_state s = Disconnected \<longrightarrow> ss_openChannels s = {} \<and> ss_connected s = {})
    \<and> (ss_finalized s \<longrightarrow> ss_channels s = [])"
proof -
  have r: "registry_inv s" using session_reachable_live [OF assms(2) q] by (simp add: live_inv_def)
  then have "onHandlerSend env h ch mid pl s \<noteq> s \<Longrightarrow>
      \<exists>c \<in> ss_openChannels s. map_of (ss_channels s) c = Some h" for h ch mid pl
    by (auto simp: onHandlerSend_def registry_inv_def split: if_splits)
  with r registry_ended [OF r] show ?thesis by (auto simp: registry_inv_def ended_def)
qed

theorem session_channels_served_witness:
  "ss_openChannels demo_active \<subseteq> dom (map_of (ss_channels demo_active))"
  using session_channels_served [OF demo_quiet demo_active_reachable] by blast

text \<open>
  C13. Version negotiation: a version response moves the session on to the TLS handshake
  exactly when its status is zero and, if version 4.3 or later was requested, the reported
  version is not below the requested one; any other response disconnects with
  \<open>VersionMismatch\<close>.
\<close>

theorem version_negotiation:
  assumes q: "session_quiet env" and st: "ss_state s = VersionExchange" and nf: "\<not> ss_finalized s"
  shows "(if status = 0 \<and> (version_ge (protocolPolicy (ss_config s)) kGalVersion4_3 \<longrightarrow>
            version_ge (version major minor) (protocolPolicy (ss_config s)))
     then ss_state (onVersionReceived env major minor status s) = TLSHandshake
       \<and> last (ss_log (onVersionReceived env major minor status s)) = MessengerStartHandshake
     else ss_state (onVersionReceived env major minor status s) = Disconnected
       \<and> last (ss_log (onVersionReceived env major minor status s)) = DisconnectedBy VersionMismatch)"
proof -
  have acc: "version_acceptable (ss_config s) major minor status \<longleftrightarrow>
      status = 0 \<and> (version_ge (protocolPolicy (ss_config s)) kGalVersion4_3 \<longrightarrow>
        version_ge (version major minor) (protocolPolicy (ss_config s)))"
    by (auto simp: version_acceptable_def Let_def requiresMinimumCompatibleResponse_def atLeast_version_def
        version_ge_iff protocolPolicy_def)
  show ?thesis
    using st nf unfolding acc [symmetric]
    by (simp add: onVersionReceived_def Let_def setState_quiet [OF q] ss_emit_quiet [OF q] startStateTimer_def
        disconnect_with_def torn_down_def)
qed

definition demo_exchanging :: "nat session" where
  "demo_exchanging = session_apply demo_session_env DoStart (session_new demo_config)"

lemma demo_exchanging_state: "ss_state demo_exchanging = VersionExchange" "\<not> ss_finalized demo_exchanging"
  "protocolPolicy (ss_config demo_exchanging) = version 6 0"
  by (simp_all add: demo_exchanging_def session_start_def session_new_def demo_config_def demo_session_env_def
      onTransportConnected_def setState_def ss_emit_def ss_messenger_start_def sendVersionRequest_def startStateTimer_def
      protocolPolicy_def Let_def)

theorem version_negotiation_witness:
  "ss_state (onVersionReceived demo_session_env 6 0 0 demo_exchanging) = TLSHandshake
    \<and> ss_state (onVersionReceived demo_session_env 5 1 0 demo_exchanging) = Disconnected"
  using version_negotiation [OF demo_quiet demo_exchanging_state(1,2), of 0 6 0]
    version_negotiation [OF demo_quiet demo_exchanging_state(1,2), of 0 5 1] demo_exchanging_state(3)
  by (simp add: version_ge_iff gal_versions)

text \<open>Events by which a handler receives traffic.\<close>

fun is_delivery :: "'h session_event \<Rightarrow> bool" where
  "is_delivery (HandlerMessage _ _ _ _) = True"
| "is_delivery (HandlerMedia _ _ _) = True"
| "is_delivery _ = False"

lemma send_control_events:
  assumes "session_quiet env"
  shows "\<exists>es. ss_log (send_control env xs s) = ss_log s @ es \<and> list_all (\<lambda>e. \<not> is_delivery e) es"
proof (induction xs arbitrary: s)
  case Nil
  then show ?case by simp
next
  case (Cons x xs)
  obtain e where e: "send_control env (x # xs) s = send_control env xs (s\<lparr>ss_log := ss_log s @ [e]\<rparr>)"
      "\<not> is_delivery e"
    by (cases x) (use assms in \<open>auto simp: ss_emit_quiet\<close>)
  from Cons [of "s\<lparr>ss_log := ss_log s @ [e]\<rparr>"] e show ?case by auto
qed

lemma open_target_events:
  assumes q: "session_quiet env"
  shows "\<exists>es. ss_log (open_target env ch s) = ss_log s @ es \<and> list_all (\<lambda>e. \<not> is_delivery e) es"
proof (cases "handler_of s ch")
  case None
  from send_control_events [OF q] obtain es where
    "ss_log (send_control env (sendChannelOpenResponse (se_protos env) ch False) s) = ss_log s @ es"
    "list_all (\<lambda>e. \<not> is_delivery e) es" by blast
  with None show ?thesis by (simp add: open_target_def ss_emit_quiet [OF q])
next
  case (Some h)
  define s1 where "s1 = (if ch \<in> ss_openChannels s \<and> supportsExplicitReopenLifecycle ch
    then closeServiceChannel env ch s else s)"
  obtain es1 where es1: "ss_log s1 = ss_log s @ es1" "list_all (\<lambda>e. \<not> is_delivery e) es1"
    using Some by (cases "ch \<in> ss_openChannels s \<and> supportsExplicitReopenLifecycle ch")
      (auto simp: s1_def closeServiceChannel_quiet [OF q])
  from send_control_events [OF q, of "sendChannelOpenResponse (se_protos env) ch True" s1] obtain es2 where
    es2: "ss_log (send_control env (sendChannelOpenResponse (se_protos env) ch True) s1) = ss_log s1 @ es2"
    "list_all (\<lambda>e. \<not> is_delivery e) es2" by blast
  have "closeServiceChannel env ch s = s1" if "ch \<in> ss_openChannels s" "supportsExplicitReopenLifecycle ch"
    using that by (simp add: s1_def)
  with Some es1 es2 show ?thesis
    by (simp add: open_target_def open_registered_def Let_def ss_emit_quiet [OF q] connectHandler_def flip: s1_def)
qed

text \<open>
  A cluster channel (12 or 13) that is not open gets no traffic: whatever message arrives
  on it, the session passes nothing to its handler.
\<close>

lemma cluster_traffic_gated:
  assumes q: "session_quiet env" and c: "supportsExplicitReopenLifecycle ch" and closed: "ch \<notin> ss_openChannels s"
  shows "\<exists>es. ss_log (session_onMessage env ch mid payload off mt s) = ss_log s @ es
    \<and> list_all (\<lambda>e. \<not> is_delivery e) es"
proof -
  have ch: "ch \<noteq> 0" using c by (auto simp: supportsExplicitReopenLifecycle_def)
  have o: "\<exists>es. ss_log (onServiceOpen env ch d s) = ss_log s @ es \<and> list_all (\<lambda>e. \<not> is_delivery e) es" for d
    using open_target_events [OF q] by (auto simp: onServiceOpen_def ss_emit_quiet [OF q] split: option.split)
  show ?thesis
    using ch c closed o
    by (auto simp: session_onMessage_def Let_def closeServiceChannel_quiet [OF q])
qed

section \<open>A finalized session\<close>

fun harmless :: "'h session_event \<Rightarrow> bool" where
  "harmless (SendMessage _ _ _) = True"
| "harmless (ControlSignalled _) = True"
| "harmless (AudioFocusChanged _) = True"
| "harmless _ = False"

definition only_logs :: "'h session \<Rightarrow> 'h session \<Rightarrow> bool" where
  "only_logs s s' \<longleftrightarrow> (\<exists>es. s' = s\<lparr>ss_log := ss_log s @ es\<rparr> \<and> list_all harmless es)"

lemma only_logs_refl [simp]: "only_logs s s"
  by (auto simp: only_logs_def intro!: exI [of _ "[]"])

lemma only_logs_trans: "only_logs s t \<Longrightarrow> only_logs t u \<Longrightarrow> only_logs s u"
  by (auto simp: only_logs_def)

lemma only_logs_emit: "session_quiet env \<Longrightarrow> harmless e \<Longrightarrow> only_logs s (ss_emit env e s)"
  by (auto simp: only_logs_def ss_emit_quiet)

lemma only_logs_send:
  assumes "session_quiet env" shows "only_logs s (send_control env xs s)"
proof (induction xs arbitrary: s)
  case (Cons x xs)
  have "\<exists>e. harmless e \<and> send_control env (x # xs) s = send_control env xs (ss_emit env e s)"
    by (cases x) (auto intro: exI [of _ "SendMessage _ _ _"] exI [of _ "ControlSignalled _"])
  then show ?case using Cons only_logs_trans only_logs_emit [OF assms] by metis
qed simp

lemma finalized_control:
  assumes q: "session_quiet env" and f: "ss_finalized s" "ss_state s = Disconnected"
  shows "only_logs s (onControlSignal env x s)"
proof -
  have a: "only_logs s (onAudioFocusRequested env pl s)" for pl
    using only_logs_trans [OF only_logs_send [OF q] only_logs_emit [OF q]]
    by (simp add: onAudioFocusRequested_def split: option.split)
  show ?thesis
    using f a only_logs_send [OF q, of s] only_logs_emit [OF q, of _ s]
    by (cases x) (simp_all add: onVersionReceived_def onVersionResponseMalformed_def onServiceDiscoveryRequested_def
      onChannelOpenRequested_def onPongReceived_def onShutdownRequested_def onShutdownAcknowledged_def Let_def
      send_control_fields [OF q])
qed

text \<open>
  A finalized session that has disconnected is inert: whatever the environment does, no
  operation changes its state, opens or closes a channel, calls a handler or reports a state;
  at most a reply to a late control message is handed to the messenger, which is stopped.
\<close>

lemma finalized_session_inert:
  assumes q: "session_quiet env" and r: "session_reachable env cfg s"
    and f: "ss_finalized s" and d: "ss_state s = Disconnected"
  shows "\<not> ss_messengerStarted s
    \<and> (\<exists>es. session_apply env operation s = s\<lparr>ss_log := ss_log s @ es\<rparr> \<and> list_all harmless es)"
proof -
  have l: "live_inv s" by (rule session_reachable_live [OF r q])
  then have reg: "registry_inv s" and t: "timers_inv s" by (simp_all add: live_inv_def)
  have ch: "ss_channels s = []" using reg f by (simp add: registry_inv_def)
  have "ss_stateTimer s = None" "ss_pingTimer s = None" "ss_pongDeadlineTimer s = None"
    using t d by (auto simp: timers_inv_def waiting_def)
  then have e: "ss_channels s = []" "ss_openChannels s = {}" "ss_connected s = {}" "\<not> ss_messengerStarted s"
      "ss_stateTimer s = None" "ss_pingTimer s = None" "ss_pongDeadlineTimer s = None"
    using ch registry_ended [OF reg] d by (simp_all add: ended_def)
  have "only_logs s (fold (onControlSignal env) xs s)" for xs
    using f d
  proof (induction xs arbitrary: s)
    case (Cons x xs)
    have o: "only_logs s (onControlSignal env x s)" using finalized_control [OF q] Cons.prems by blast
    then have "ss_finalized (onControlSignal env x s)" "ss_state (onControlSignal env x s) = Disconnected"
      using Cons.prems by (auto simp: only_logs_def)
    from Cons.IH [OF this] o show ?case by (auto intro: only_logs_trans)
  qed simp
  then have "only_logs s (session_apply env operation s)"
    using e f d by (cases operation) (simp_all add: session_start_def session_stop_def session_finalize_def registerChannel_def
        onTransportConnected_def onTransportDisconnected_def onTransportError_def onHandshakeComplete_def
        onHandshakeFailed_def onTlsFailed_def onProtocolFailed_def onHandlerSend_def session_onMessage_def
        onServiceOpen_def Let_def)
  with e(4) show ?thesis by (simp add: only_logs_def)
qed

end
