(* ===== verification/Service_Handlers.thy ===== *)
theory Service_Handlers
  imports Prelude
begin

text \<open>
  The service channel handlers of \<open>oaa/HU/Handlers\<close> that carry no media: sensors, input,
  Bluetooth, WiFi, phone status, media status and navigation. An operation takes the handler's
  state and returns it with the signals it emits, in order; protobuf parsing and serialisation
  are the parameter \<open>service_protos\<close>, whose parsers give the fields the code reads.

  What the handlers share, that certain messages leave only while the channel is open, is the
  locale \<open>gated_channel\<close>, interpreted for the four handlers that guard their sends.
\<close>

section \<open>Messages\<close>

record touch_pointer =
  pt_x :: int
  pt_y :: int
  pt_id :: int

datatype service_message =
    SensorStartOk
  | NightModeEvent bool
  | DrivingStatusEvent int
  | ParkingBrakeEvent bool
  | BindingOk
  | TouchEvent u64 int int "touch_pointer list"
  | ButtonEvent u64 u32 bool
  | PairingAlreadyPaired
  | WifiCredentials string string

record call_info =
  call_state :: int
  call_number :: string
  call_name :: string
  call_photo :: "bytes option"

record phone_status =
  ps_signal :: "int option"
  ps_calls :: "call_info list"

record media_metadata =
  md_title :: string
  md_artist :: string
  md_album :: string
  md_art :: "bytes option"

record turn_event =
  te_road :: "string option"
  te_maneuver :: "int option"
  te_direction :: "int option"
  te_icon :: "bytes option"
  te_distance :: "int option"
  te_unit :: "int option"

record turn_distance =
  td_value :: "int option"
  td_text :: "string option"
  td_unit :: "int option"

text \<open>A step's maneuver and instruction are optional messages with optional fields.\<close>

record nav_step =
  st_maneuver :: "int option option"
  st_instruction :: "string option option"
  st_roads :: "string list option"
  st_lanes :: "(int \<times> bool) list list"

record nav_notification =
  nn_steps :: "nav_step list"
  nn_destinations :: "string list"

record step_distance =
  sd_distance :: "turn_distance option"
  sd_time :: "int option"

record dest_distance =
  dd_distance :: "turn_distance option"
  dd_eta :: "string option"
  dd_time :: "int option"

record next_turn_event =
  nt_step :: "step_distance option"
  nt_destinations :: "dest_distance list"
  nt_road :: "string option option"

text \<open>The raw values of the phone's navigation state.\<close>

datatype nav_raw_state = RawUnavailable | RawActive | RawInactive | RawRerouting | RawOther int

record service_protos =
  parse_SensorStart :: "bytes \<Rightarrow> int option"
  sensor_NIGHT_DATA :: int
  sensor_DRIVING_STATUS :: int
  sensor_PARKING_BRAKE :: int
  parse_BindingRequest :: "bytes \<Rightarrow> unit option"
  parse_BindingNotification :: "bytes \<Rightarrow> int option"
  parse_PairingRequest :: "bytes \<Rightarrow> string option"
  parse_PhoneStatus :: "bytes \<Rightarrow> phone_status option"
  parse_PlaybackStatus :: "bytes \<Rightarrow> (int \<times> string) option"
  parse_PlaybackMetadata :: "bytes \<Rightarrow> media_metadata option"
  parse_NavState :: "bytes \<Rightarrow> nav_raw_state option"
  parse_TurnEvent :: "bytes \<Rightarrow> turn_event option"
  parse_NavNotification :: "bytes \<Rightarrow> nav_notification option"
  parse_NextTurn :: "bytes \<Rightarrow> next_turn_event option"
  parse_EnergyForecastOuter :: "bytes \<Rightarrow> (string \<times> bytes option) option"
  parse_EnergyForecastInner :: "bytes \<Rightarrow> string option"
  serialize_service :: "service_message \<Rightarrow> bytes"

datatype nav_state = NavUnavailable | NavActive | NavInactive | NavRerouting

record distance_data =
  nd_hasValue :: bool
  nd_value :: int
  nd_hasDisplayText :: bool
  nd_displayText :: string
  nd_hasUnit :: bool
  nd_unit :: int

record notification_snapshot =
  ns_stepCount :: nat
  ns_hasManeuver :: bool
  ns_maneuverType :: int
  ns_hasUpcomingRoad :: bool
  ns_upcomingRoad :: string
  ns_actionCues :: "string list"
  ns_lanes :: "(int \<times> bool) list list"
  ns_destinations :: "string list"

record destination_data =
  dn_hasDistance :: bool
  dn_distance :: distance_data
  dn_hasEta :: bool
  dn_eta :: string
  dn_hasTime :: bool
  dn_time :: int

record position_snapshot =
  po_hasStepDistance :: bool
  po_stepDistance :: distance_data
  po_hasTimeToStep :: bool
  po_timeToStep :: int
  po_destinations :: "destination_data list"
  po_hasCurrentRoad :: bool
  po_currentRoad :: string

datatype service_signal =
    SvSend byte u16 bytes
  | SvUnknown u16 bytes
  | SvHandlerError string
  | SvHaptic int
  | SvPairingRequested string
  | SvAuthData bytes
  | SvAuthResult bytes
  | SvSignalStrength int
  | SvCallsIdle
  | SvCallState int string string bytes
  | SvPlaybackState int string
  | SvMetadata string string string bytes
  | SvNavState nav_state
  | SvTurnEvent string int int bytes int int
  | SvNavNotification notification_snapshot
  | SvNavPosition position_snapshot
  | SvEnergyForecast bool string

section \<open>Sensors\<close>

abbreviation ChannelId_Sensor :: byte where "ChannelId_Sensor \<equiv> 2"
abbreviation SENSOR_START_REQUEST :: u16 where "SENSOR_START_REQUEST \<equiv> 0x8001"
abbreviation SENSOR_START_RESPONSE :: u16 where "SENSOR_START_RESPONSE \<equiv> 0x8002"
abbreviation SENSOR_EVENT_INDICATION :: u16 where "SENSOR_EVENT_INDICATION \<equiv> 0x8003"

record sensor =
  sn_channelOpen :: bool
  sn_nightMode :: bool
  sn_activeSensors :: "int set"

definition sensor_new :: sensor where
  "sensor_new = \<lparr>sn_channelOpen = False, sn_nightMode = False, sn_activeSensors = {}\<rparr>"

definition sensor_onChannelOpened :: "sensor \<Rightarrow> sensor" where
  "sensor_onChannelOpened s = s\<lparr>sn_channelOpen := True, sn_activeSensors := {}\<rparr>"

definition sensor_onChannelClosed :: "sensor \<Rightarrow> sensor" where
  "sensor_onChannelClosed s = s\<lparr>sn_channelOpen := False, sn_activeSensors := {}\<rparr>"

definition sensor_event :: "service_protos \<Rightarrow> int \<Rightarrow> service_message \<Rightarrow> sensor \<Rightarrow> service_signal list" where
  "sensor_event p sensorType msg s = (
     if \<not> sn_channelOpen s \<or> sensorType \<notin> sn_activeSensors s then []
     else [SvSend ChannelId_Sensor SENSOR_EVENT_INDICATION (serialize_service p msg)])"

definition pushNightMode :: "service_protos \<Rightarrow> bool \<Rightarrow> sensor \<Rightarrow> sensor \<times> service_signal list" where
  "pushNightMode p isNight s = (let s = s\<lparr>sn_nightMode := isNight\<rparr>
     in (s, sensor_event p (sensor_NIGHT_DATA p) (NightModeEvent isNight) s))"

definition pushDrivingStatus :: "service_protos \<Rightarrow> int \<Rightarrow> sensor \<Rightarrow> sensor \<times> service_signal list" where
  "pushDrivingStatus p status s = (s, sensor_event p (sensor_DRIVING_STATUS p) (DrivingStatusEvent status) s)"

definition pushParkingBrake :: "service_protos \<Rightarrow> bool \<Rightarrow> sensor \<Rightarrow> sensor \<times> service_signal list" where
  "pushParkingBrake p engaged s = (s, sensor_event p (sensor_PARKING_BRAKE p) (ParkingBrakeEvent engaged) s)"

definition handleSensorStartRequest :: "service_protos \<Rightarrow> bytes \<Rightarrow> sensor \<Rightarrow> sensor \<times> service_signal list" where
  "handleSensorStartRequest p payload s = (case parse_SensorStart p payload of
     None \<Rightarrow> (s, [])
   | Some sensorType \<Rightarrow>
       (let s = s\<lparr>sn_activeSensors := insert sensorType (sn_activeSensors s)\<rparr>;
            resp = SvSend ChannelId_Sensor SENSOR_START_RESPONSE (serialize_service p SensorStartOk);
            (s, initial) =
              (if sensorType = sensor_NIGHT_DATA p then pushNightMode p (sn_nightMode s) s
               else if sensorType = sensor_DRIVING_STATUS p then pushDrivingStatus p 0 s
               else if sensorType = sensor_PARKING_BRAKE p then pushParkingBrake p True s
               else (s, []))
        in (s, resp # initial)))"

definition sensor_onMessage :: "service_protos \<Rightarrow> u16 \<Rightarrow> bytes \<Rightarrow> nat \<Rightarrow> sensor \<Rightarrow> sensor \<times> service_signal list" where
  "sensor_onMessage p mid payload off s = (let data = drop off payload in
     if mid = SENSOR_START_REQUEST then handleSensorStartRequest p data s
     else (s, [SvUnknown mid data]))"

section \<open>Input\<close>

abbreviation INPUT_EVENT_INDICATION :: u16 where "INPUT_EVENT_INDICATION \<equiv> 0x8001"
abbreviation BINDING_REQUEST :: u16 where "BINDING_REQUEST \<equiv> 0x8002"
abbreviation BINDING_RESPONSE :: u16 where "BINDING_RESPONSE \<equiv> 0x8003"
abbreviation BINDING_NOTIFICATION :: u16 where "BINDING_NOTIFICATION \<equiv> 0x8004"

record input_handler =
  in_channelId :: byte
  in_channelOpen :: bool

definition input_new :: "byte \<Rightarrow> input_handler" where
  "input_new ch = \<lparr>in_channelId = ch, in_channelOpen = False\<rparr>"

definition input_onChannelOpened :: "input_handler \<Rightarrow> input_handler" where
  "input_onChannelOpened h = h\<lparr>in_channelOpen := True\<rparr>"

definition input_onChannelClosed :: "input_handler \<Rightarrow> input_handler" where
  "input_onChannelClosed h = h\<lparr>in_channelOpen := False\<rparr>"

definition handleBindingRequest :: "service_protos \<Rightarrow> bytes \<Rightarrow> input_handler \<Rightarrow> service_signal list" where
  "handleBindingRequest p payload h = (case parse_BindingRequest p payload of
     None \<Rightarrow> [SvHandlerError ''failed to parse binding request'']
   | Some _ \<Rightarrow> [SvSend (in_channelId h) BINDING_RESPONSE (serialize_service p BindingOk)])"

definition handleBindingNotification :: "service_protos \<Rightarrow> bytes \<Rightarrow> service_signal list" where
  "handleBindingNotification p payload = (case parse_BindingNotification p payload of
     None \<Rightarrow> [SvHandlerError ''failed to parse binding notification'']
   | Some feedbackType \<Rightarrow> [SvHaptic feedbackType])"

definition input_onMessage :: "service_protos \<Rightarrow> u16 \<Rightarrow> bytes \<Rightarrow> nat \<Rightarrow> input_handler \<Rightarrow> service_signal list" where
  "input_onMessage p mid payload off h = (let data = drop off payload in
     if mid = BINDING_REQUEST then handleBindingRequest p data h
     else if mid = BINDING_NOTIFICATION then handleBindingNotification p data
     else [SvUnknown mid data])"

definition sendTouchIndication :: "service_protos \<Rightarrow> touch_pointer list \<Rightarrow> int \<Rightarrow> int \<Rightarrow> u64 \<Rightarrow> input_handler \<Rightarrow> service_signal list" where
  "sendTouchIndication p pointers actionIndex action timestamp h = (
     if \<not> in_channelOpen h then []
     else [SvSend (in_channelId h) INPUT_EVENT_INDICATION
       (serialize_service p (TouchEvent timestamp action actionIndex pointers))])"

definition sendButtonEvent :: "service_protos \<Rightarrow> u32 \<Rightarrow> bool \<Rightarrow> u64 \<Rightarrow> input_handler \<Rightarrow> service_signal list" where
  "sendButtonEvent p scanCode pressed timestamp h = (
     if \<not> in_channelOpen h then []
     else [SvSend (in_channelId h) INPUT_EVENT_INDICATION
       (serialize_service p (ButtonEvent timestamp scanCode pressed))])"

section \<open>Bluetooth and WiFi\<close>

abbreviation ChannelId_Bluetooth :: byte where "ChannelId_Bluetooth \<equiv> 8"
abbreviation ChannelId_WiFi :: byte where "ChannelId_WiFi \<equiv> 14"
abbreviation PAIRING_REQUEST :: u16 where "PAIRING_REQUEST \<equiv> 0x8001"
abbreviation PAIRING_RESPONSE :: u16 where "PAIRING_RESPONSE \<equiv> 0x8002"
abbreviation AUTH_DATA :: u16 where "AUTH_DATA \<equiv> 0x8003"
abbreviation AUTH_RESULT :: u16 where "AUTH_RESULT \<equiv> 0x8004"
abbreviation CREDENTIALS_REQUEST :: u16 where "CREDENTIALS_REQUEST \<equiv> 0x8001"
abbreviation CREDENTIALS_RESPONSE :: u16 where "CREDENTIALS_RESPONSE \<equiv> 0x8002"

record bluetooth_handler =
  bt_channelOpen :: bool

definition bluetooth_onChannelOpened :: "bluetooth_handler \<Rightarrow> bluetooth_handler" where
  "bluetooth_onChannelOpened h = h\<lparr>bt_channelOpen := True\<rparr>"

definition bluetooth_onChannelClosed :: "bluetooth_handler \<Rightarrow> bluetooth_handler" where
  "bluetooth_onChannelClosed h = h\<lparr>bt_channelOpen := False\<rparr>"

definition handlePairingRequest :: "service_protos \<Rightarrow> bytes \<Rightarrow> bluetooth_handler \<Rightarrow> service_signal list" where
  "handlePairingRequest p payload h = (
     if \<not> bt_channelOpen h then []
     else case parse_PairingRequest p payload of
       None \<Rightarrow> []
     | Some phoneAddr \<Rightarrow> [SvPairingRequested phoneAddr,
         SvSend ChannelId_Bluetooth PAIRING_RESPONSE (serialize_service p PairingAlreadyPaired)])"

definition bluetooth_onMessage :: "service_protos \<Rightarrow> u16 \<Rightarrow> bytes \<Rightarrow> nat \<Rightarrow> bluetooth_handler \<Rightarrow> service_signal list" where
  "bluetooth_onMessage p mid payload off h = (let data = drop off payload in
     if mid = PAIRING_REQUEST then handlePairingRequest p data h
     else if mid = AUTH_DATA then [SvAuthData data]
     else if mid = AUTH_RESULT then [SvAuthResult data]
     else [SvUnknown mid data])"

record wifi_handler =
  wf_ssid :: string
  wf_password :: string
  wf_channelOpen :: bool

definition wifi_new :: "string \<Rightarrow> string \<Rightarrow> wifi_handler" where
  "wifi_new ssid password = \<lparr>wf_ssid = ssid, wf_password = password, wf_channelOpen = False\<rparr>"

definition wifi_onChannelOpened :: "wifi_handler \<Rightarrow> wifi_handler" where
  "wifi_onChannelOpened h = h\<lparr>wf_channelOpen := True\<rparr>"

definition wifi_onChannelClosed :: "wifi_handler \<Rightarrow> wifi_handler" where
  "wifi_onChannelClosed h = h\<lparr>wf_channelOpen := False\<rparr>"

definition handleSecurityRequest :: "service_protos \<Rightarrow> wifi_handler \<Rightarrow> service_signal list" where
  "handleSecurityRequest p h = (
     if \<not> wf_channelOpen h then []
     else [SvSend ChannelId_WiFi CREDENTIALS_RESPONSE
       (serialize_service p (WifiCredentials (wf_ssid h) (wf_password h)))])"

definition wifi_onMessage :: "service_protos \<Rightarrow> u16 \<Rightarrow> bytes \<Rightarrow> nat \<Rightarrow> wifi_handler \<Rightarrow> service_signal list" where
  "wifi_onMessage p mid payload off h = (let data = drop off payload in
     if mid = CREDENTIALS_REQUEST then handleSecurityRequest p h
     else [SvUnknown mid data])"

section \<open>Phone and media status\<close>

abbreviation PHONE_STATUS :: u16 where "PHONE_STATUS \<equiv> 0x8001"
abbreviation PLAYBACK_STATUS :: u16 where "PLAYBACK_STATUS \<equiv> 0x8001"
abbreviation PLAYBACK_METADATA :: u16 where "PLAYBACK_METADATA \<equiv> 0x8003"

definition call_signal :: "call_info \<Rightarrow> service_signal" where
  "call_signal c = SvCallState (call_state c) (call_number c) (call_name c)
     (case call_photo c of Some photo \<Rightarrow> photo | None \<Rightarrow> [])"

definition handlePhoneStatus :: "service_protos \<Rightarrow> bytes \<Rightarrow> service_signal list" where
  "handlePhoneStatus p payload = (case parse_PhoneStatus p payload of
     None \<Rightarrow> []
   | Some msg \<Rightarrow>
       (case ps_signal msg of Some n \<Rightarrow> [SvSignalStrength n] | None \<Rightarrow> []) @
       (if ps_calls msg = [] then [SvCallsIdle] else map call_signal (ps_calls msg)))"

definition phone_onMessage :: "service_protos \<Rightarrow> u16 \<Rightarrow> bytes \<Rightarrow> nat \<Rightarrow> service_signal list" where
  "phone_onMessage p mid payload off =
     (if mid = PHONE_STATUS then handlePhoneStatus p (drop off payload) else [])"

record media_status =
  ms_currentPlaybackState :: int

definition handlePlaybackStatus :: "service_protos \<Rightarrow> bytes \<Rightarrow> media_status \<Rightarrow> media_status \<times> service_signal list" where
  "handlePlaybackStatus p payload h = (case parse_PlaybackStatus p payload of
     None \<Rightarrow> (h, [])
   | Some (state, sourceApp) \<Rightarrow> (h\<lparr>ms_currentPlaybackState := state\<rparr>, [SvPlaybackState state sourceApp]))"

definition handlePlaybackMetadata :: "service_protos \<Rightarrow> bytes \<Rightarrow> service_signal list" where
  "handlePlaybackMetadata p payload = (case parse_PlaybackMetadata p payload of
     None \<Rightarrow> []
   | Some msg \<Rightarrow> [SvMetadata (md_title msg) (md_artist msg) (md_album msg)
       (case md_art msg of Some art \<Rightarrow> art | None \<Rightarrow> [])])"

definition media_onMessage :: "service_protos \<Rightarrow> u16 \<Rightarrow> bytes \<Rightarrow> nat \<Rightarrow> media_status \<Rightarrow> media_status \<times> service_signal list" where
  "media_onMessage p mid payload off h = (let data = drop off payload in
     if mid = PLAYBACK_STATUS then handlePlaybackStatus p data h
     else if mid = PLAYBACK_METADATA then (h, handlePlaybackMetadata p data)
     else (h, []))"

section \<open>Navigation\<close>

abbreviation NAV_STATE :: u16 where "NAV_STATE \<equiv> 0x8003"
abbreviation NAV_TURN_EVENT :: u16 where "NAV_TURN_EVENT \<equiv> 0x8004"
abbreviation NAV_STEP :: u16 where "NAV_STEP \<equiv> 0x8006"
abbreviation NAV_DISTANCE :: u16 where "NAV_DISTANCE \<equiv> 0x8007"
abbreviation VEHICLE_ENERGY_FORECAST :: u16 where "VEHICLE_ENERGY_FORECAST \<equiv> 0x8008"

text \<open>An optional field as a flag and a value with its default.\<close>

definition has_field :: "'a option \<Rightarrow> bool" where
  "has_field x \<longleftrightarrow> x \<noteq> None"

definition field_or :: "'a \<Rightarrow> 'a option \<Rightarrow> 'a" where
  "field_or d x = (case x of Some v \<Rightarrow> v | None \<Rightarrow> d)"

definition copyDistance :: "turn_distance \<Rightarrow> distance_data" where
  "copyDistance d = \<lparr>nd_hasValue = has_field (td_value d), nd_value = field_or 0 (td_value d),
     nd_hasDisplayText = has_field (td_text d), nd_displayText = field_or [] (td_text d),
     nd_hasUnit = has_field (td_unit d), nd_unit = field_or 0 (td_unit d)\<rparr>"

definition no_distance :: distance_data where
  "no_distance = \<lparr>nd_hasValue = False, nd_value = 0, nd_hasDisplayText = False, nd_displayText = [],
     nd_hasUnit = False, nd_unit = 0\<rparr>"

record navigation =
  nv_state :: nav_state

definition navigation_onChannelOpened :: "navigation \<Rightarrow> navigation" where
  "navigation_onChannelOpened n = n\<lparr>nv_state := NavUnavailable\<rparr>"

definition navigation_onChannelClosed :: "navigation \<Rightarrow> navigation \<times> service_signal list" where
  "navigation_onChannelClosed n = (
     if nv_state n \<noteq> NavUnavailable then (n\<lparr>nv_state := NavUnavailable\<rparr>, [SvNavState NavUnavailable])
     else (n, []))"

definition nextNavState :: "nav_raw_state \<Rightarrow> nav_state" where
  "nextNavState raw = (case raw of
     RawActive \<Rightarrow> NavActive | RawInactive \<Rightarrow> NavInactive | RawRerouting \<Rightarrow> NavRerouting
   | RawUnavailable \<Rightarrow> NavUnavailable | RawOther _ \<Rightarrow> NavUnavailable)"

definition handleNavState :: "service_protos \<Rightarrow> bytes \<Rightarrow> navigation \<Rightarrow> navigation \<times> service_signal list" where
  "handleNavState p payload n = (case parse_NavState p payload of
     None \<Rightarrow> (n, [])
   | Some raw \<Rightarrow> (let nextState = nextNavState raw in
       if nv_state n \<noteq> nextState then (n\<lparr>nv_state := nextState\<rparr>, [SvNavState nextState]) else (n, [])))"

definition handleTurnEvent :: "service_protos \<Rightarrow> bytes \<Rightarrow> service_signal list" where
  "handleTurnEvent p payload = (case parse_TurnEvent p payload of
     None \<Rightarrow> []
   | Some msg \<Rightarrow> [SvTurnEvent (field_or [] (te_road msg)) (field_or 0 (te_maneuver msg))
       (field_or 0 (te_direction msg)) (field_or [] (te_icon msg)) (field_or (- 1) (te_distance msg))
       (field_or 0 (te_unit msg))])"

text \<open>An optional message's optional field.\<close>

definition inner_field :: "'a option option \<Rightarrow> 'a option" where
  "inner_field x = (case x of Some y \<Rightarrow> y | None \<Rightarrow> None)"

definition notificationSnapshot :: "nav_notification \<Rightarrow> notification_snapshot" where
  "notificationSnapshot msg = (case nn_steps msg of
     [] \<Rightarrow> \<lparr>ns_stepCount = 0, ns_hasManeuver = False, ns_maneuverType = 0, ns_hasUpcomingRoad = False,
       ns_upcomingRoad = [], ns_actionCues = [], ns_lanes = [], ns_destinations = nn_destinations msg\<rparr>
   | cur # _ \<Rightarrow> \<lparr>ns_stepCount = length (nn_steps msg),
       ns_hasManeuver = has_field (inner_field (st_maneuver cur)),
       ns_maneuverType = field_or 0 (inner_field (st_maneuver cur)),
       ns_hasUpcomingRoad = has_field (inner_field (st_instruction cur)),
       ns_upcomingRoad = field_or [] (inner_field (st_instruction cur)),
       ns_actionCues = field_or [] (st_roads cur), ns_lanes = st_lanes cur,
       ns_destinations = nn_destinations msg\<rparr>)"

definition handleNavStep :: "service_protos \<Rightarrow> bytes \<Rightarrow> service_signal list" where
  "handleNavStep p payload = (case parse_NavNotification p payload of
     None \<Rightarrow> [] | Some msg \<Rightarrow> [SvNavNotification (notificationSnapshot msg)])"

definition destinationData :: "dest_distance \<Rightarrow> destination_data" where
  "destinationData d = \<lparr>dn_hasDistance = has_field (dd_distance d),
     dn_distance = (case dd_distance d of Some x \<Rightarrow> copyDistance x | None \<Rightarrow> no_distance),
     dn_hasEta = has_field (dd_eta d), dn_eta = field_or [] (dd_eta d),
     dn_hasTime = has_field (dd_time d), dn_time = field_or 0 (dd_time d)\<rparr>"

definition positionSnapshot :: "next_turn_event \<Rightarrow> position_snapshot" where
  "positionSnapshot msg = \<lparr>po_hasStepDistance = has_field (nt_step msg),
     po_stepDistance = (case nt_step msg of
        Some sd \<Rightarrow> (case sd_distance sd of Some x \<Rightarrow> copyDistance x | None \<Rightarrow> no_distance)
      | None \<Rightarrow> no_distance),
     po_hasTimeToStep = (case nt_step msg of Some sd \<Rightarrow> has_field (sd_time sd) | None \<Rightarrow> False),
     po_timeToStep = (case nt_step msg of Some sd \<Rightarrow> field_or 0 (sd_time sd) | None \<Rightarrow> 0),
     po_destinations = map destinationData (nt_destinations msg),
     po_hasCurrentRoad = has_field (inner_field (nt_road msg)),
     po_currentRoad = field_or [] (inner_field (nt_road msg))\<rparr>"

definition handleNavDistance :: "service_protos \<Rightarrow> bytes \<Rightarrow> service_signal list" where
  "handleNavDistance p payload = (case parse_NextTurn p payload of
     None \<Rightarrow> [] | Some msg \<Rightarrow> [SvNavPosition (positionSnapshot msg)])"

definition handleVehicleEnergyForecast :: "service_protos \<Rightarrow> bytes \<Rightarrow> service_signal list" where
  "handleVehicleEnergyForecast p payload = (case parse_EnergyForecastOuter p payload of
     None \<Rightarrow> []
   | Some (outerSummary, inner) \<Rightarrow>
       (case inner of
          None \<Rightarrow> [SvEnergyForecast False (take 512 outerSummary)]
        | Some bs \<Rightarrow> (case parse_EnergyForecastInner p bs of
            Some summary \<Rightarrow> [SvEnergyForecast True (take 512 summary)]
          | None \<Rightarrow> [SvEnergyForecast False (take 512 outerSummary)])))"

definition navigation_onMessage :: "service_protos \<Rightarrow> u16 \<Rightarrow> bytes \<Rightarrow> nat \<Rightarrow> navigation \<Rightarrow> navigation \<times> service_signal list" where
  "navigation_onMessage p mid payload off n = (let data = drop off payload in
     if mid = NAV_STATE then handleNavState p data n
     else if mid = NAV_TURN_EVENT then (n, handleTurnEvent p data)
     else if mid = NAV_STEP then (n, handleNavStep p data)
     else if mid = NAV_DISTANCE then (n, handleNavDistance p data)
     else if mid = VEHICLE_ENERGY_FORECAST then (n, handleVehicleEnergyForecast p data)
     else (n, []))"

section \<open>The handlers as transition systems\<close>

text \<open>The calls of the session, and those of the application.\<close>

datatype 'a channel_op =
    ChOpened
  | ChClosed
  | ChMessage u16 bytes nat
  | ChCall 'a

datatype sensor_call = NightMode bool | DrivingStatus int | ParkingBrake bool

datatype input_call = Touch "touch_pointer list" int int u64 | Button u32 bool u64

fun sensor_step :: "service_protos \<Rightarrow> sensor_call channel_op \<Rightarrow> sensor \<Rightarrow> sensor \<times> service_signal list" where
  "sensor_step p ChOpened s = (sensor_onChannelOpened s, [])"
| "sensor_step p ChClosed s = (sensor_onChannelClosed s, [])"
| "sensor_step p (ChMessage mid payload off) s = sensor_onMessage p mid payload off s"
| "sensor_step p (ChCall (NightMode b)) s = pushNightMode p b s"
| "sensor_step p (ChCall (DrivingStatus i)) s = pushDrivingStatus p i s"
| "sensor_step p (ChCall (ParkingBrake b)) s = pushParkingBrake p b s"

fun input_step :: "service_protos \<Rightarrow> input_call channel_op \<Rightarrow> input_handler \<Rightarrow> input_handler \<times> service_signal list" where
  "input_step p ChOpened h = (input_onChannelOpened h, [])"
| "input_step p ChClosed h = (input_onChannelClosed h, [])"
| "input_step p (ChMessage mid payload off) h = (h, input_onMessage p mid payload off h)"
| "input_step p (ChCall (Touch ps i a ts)) h = (h, sendTouchIndication p ps i a ts h)"
| "input_step p (ChCall (Button code pressed ts)) h = (h, sendButtonEvent p code pressed ts h)"

fun bluetooth_step :: "service_protos \<Rightarrow> unit channel_op \<Rightarrow> bluetooth_handler \<Rightarrow> bluetooth_handler \<times> service_signal list" where
  "bluetooth_step p ChOpened h = (bluetooth_onChannelOpened h, [])"
| "bluetooth_step p ChClosed h = (bluetooth_onChannelClosed h, [])"
| "bluetooth_step p (ChMessage mid payload off) h = (h, bluetooth_onMessage p mid payload off h)"
| "bluetooth_step p (ChCall u) h = (h, [])"

fun wifi_step :: "service_protos \<Rightarrow> unit channel_op \<Rightarrow> wifi_handler \<Rightarrow> wifi_handler \<times> service_signal list" where
  "wifi_step p ChOpened h = (wifi_onChannelOpened h, [])"
| "wifi_step p ChClosed h = (wifi_onChannelClosed h, [])"
| "wifi_step p (ChMessage mid payload off) h = (h, wifi_onMessage p mid payload off h)"
| "wifi_step p (ChCall u) h = (h, [])"

fun navigation_step :: "service_protos \<Rightarrow> unit channel_op \<Rightarrow> navigation \<Rightarrow> navigation \<times> service_signal list" where
  "navigation_step p ChOpened n = (navigation_onChannelOpened n, [])"
| "navigation_step p ChClosed n = navigation_onChannelClosed n"
| "navigation_step p (ChMessage mid payload off) n = navigation_onMessage p mid payload off n"
| "navigation_step p (ChCall u) n = (n, [])"

section \<open>Sends guarded by the channel\<close>

locale gated_channel =
  fixes step :: "'a channel_op \<Rightarrow> 's \<Rightarrow> 's \<times> service_signal list"
    and is_open :: "'s \<Rightarrow> bool"
    and guarded :: "service_signal \<Rightarrow> bool"
  assumes closed_step: "\<not> is_open s \<Longrightarrow> filter guarded (snd (step op s)) = []"
    and stays_closed: "\<not> is_open s \<Longrightarrow> op \<noteq> ChOpened \<Longrightarrow> \<not> is_open (fst (step op s))"
    and closing: "\<not> is_open (fst (step ChClosed s)) \<and> snd (step ChClosed s) = []"
begin

lemma closed_run: "\<not> is_open s \<Longrightarrow> ChOpened \<notin> set ops \<Longrightarrow> filter guarded (snd (run step ops s)) = []"
  by (induction ops arbitrary: s) (auto simp: run_Cons closed_step stays_closed simp del: filter_empty_conv)

lemma closed_until_opened:
  "ChOpened \<notin> set ops \<Longrightarrow> filter guarded (snd (run step (ChClosed # ops) s)) = []"
  using closed_run [of "fst (step ChClosed s)" ops] closing [of s] by (simp add: run_Cons)

end

fun is_send :: "service_signal \<Rightarrow> bool" where
  "is_send (SvSend ch mid payload) = True"
| "is_send s = False"

fun is_event :: "u16 \<Rightarrow> service_signal \<Rightarrow> bool" where
  "is_event eid (SvSend ch mid payload) \<longleftrightarrow> mid = eid"
| "is_event eid s \<longleftrightarrow> False"

lemmas sensor_defs = sensor_onChannelOpened_def sensor_onChannelClosed_def sensor_onMessage_def
  handleSensorStartRequest_def pushNightMode_def pushDrivingStatus_def pushParkingBrake_def sensor_event_def

interpretation sensor_gate: gated_channel "sensor_step p" sn_channelOpen "is_event SENSOR_EVENT_INDICATION" for p
  by unfold_locales
    (rename_tac [1-2] s op, case_tac [1-2] "(p, op, s)" rule: sensor_step.cases,
     auto simp: sensor_defs Let_def split: option.splits)

interpretation input_gate: gated_channel "input_step p" in_channelOpen "is_event INPUT_EVENT_INDICATION" for p
  by unfold_locales
    (rename_tac [1-2] s op, case_tac [1-2] "(p, op, s)" rule: input_step.cases,
     auto simp: input_onMessage_def handleBindingRequest_def handleBindingNotification_def
       sendTouchIndication_def sendButtonEvent_def input_onChannelClosed_def Let_def split: option.splits)

interpretation bluetooth_gate: gated_channel "bluetooth_step p" bt_channelOpen is_send for p
  by unfold_locales
    (rename_tac [1-2] s op, case_tac [1-2] op,
     auto simp: bluetooth_onMessage_def handlePairingRequest_def bluetooth_onChannelClosed_def Let_def)

interpretation wifi_gate: gated_channel "wifi_step p" wf_channelOpen is_send for p
  by unfold_locales
    (rename_tac [1-2] s op, case_tac [1-2] op,
     auto simp: wifi_onMessage_def handleSecurityRequest_def wifi_onChannelClosed_def Let_def)

text \<open>
  C21: from the moment its channel is closed until it is opened again, a sensor handler sends
  no sensor event, an input handler no touch or button event, a Bluetooth handler no pairing
  response and a WiFi handler nothing, in particular not the network's credentials, whatever
  messages and application calls arrive meanwhile.
\<close>

theorem closed_channels_silent:
  assumes "ChOpened \<notin> set ops1" "ChOpened \<notin> set ops2" "ChOpened \<notin> set ops3" "ChOpened \<notin> set ops4"
  shows "filter (is_event SENSOR_EVENT_INDICATION) (snd (run (sensor_step p) (ChClosed # ops1) s)) = [] \<and>
    filter (is_event INPUT_EVENT_INDICATION) (snd (run (input_step p) (ChClosed # ops2) i)) = [] \<and>
    filter is_send (snd (run (bluetooth_step p) (ChClosed # ops3) b)) = [] \<and>
    filter is_send (snd (run (wifi_step p) (ChClosed # ops4) w)) = []"
  using assms sensor_gate.closed_until_opened input_gate.closed_until_opened
    bluetooth_gate.closed_until_opened wifi_gate.closed_until_opened by blast

definition demo_service_protos :: service_protos where
  "demo_service_protos = \<lparr>parse_SensorStart = (\<lambda>_. Some 10), sensor_NIGHT_DATA = 10,
     sensor_DRIVING_STATUS = 13, sensor_PARKING_BRAKE = 7, parse_BindingRequest = (\<lambda>_. Some ()),
     parse_BindingNotification = (\<lambda>_. None), parse_PairingRequest = (\<lambda>_. Some ''phone''),
     parse_PhoneStatus = (\<lambda>_. None), parse_PlaybackStatus = (\<lambda>_. None), parse_PlaybackMetadata = (\<lambda>_. None),
     parse_NavState = (\<lambda>bs. Some (if bs = [1] then RawActive else RawUnavailable)),
     parse_TurnEvent = (\<lambda>_. None), parse_NavNotification = (\<lambda>_. None), parse_NextTurn = (\<lambda>_. None),
     parse_EnergyForecastOuter = (\<lambda>_. None), parse_EnergyForecastInner = (\<lambda>_. None),
     serialize_service = (\<lambda>m. case m of NightModeEvent b \<Rightarrow> [1, if b then 1 else 0]
       | DrivingStatusEvent _ \<Rightarrow> [2] | ParkingBrakeEvent _ \<Rightarrow> [3] | _ \<Rightarrow> [])\<rparr>"

theorem closed_channels_silent_witness:
  "filter is_send (snd (run (wifi_step demo_service_protos) [ChClosed, ChMessage CREDENTIALS_REQUEST [] 0]
     \<lparr>wf_ssid = ''car'', wf_password = ''secret'', wf_channelOpen = True\<rparr>)) = []"
proof -
  have "ChOpened \<notin> set ([] :: sensor_call channel_op list)" "ChOpened \<notin> set ([] :: input_call channel_op list)"
    "ChOpened \<notin> set ([] :: unit channel_op list)" "ChOpened \<notin> set [ChMessage CREDENTIALS_REQUEST [] 0 :: unit channel_op]"
    by simp_all
  from closed_channels_silent [OF this, of demo_service_protos undefined undefined undefined
      "\<lparr>wf_ssid = ''car'', wf_password = ''secret'', wf_channelOpen = True\<rparr>"]
  show ?thesis by blast
qed

section \<open>The phone knows the night mode\<close>

text \<open>The night-mode events among the signals; the events of the other sensors differ from them.\<close>

fun night_event :: "service_protos \<Rightarrow> service_signal \<Rightarrow> bool list" where
  "night_event p (SvSend ch mid payload) =
     (if ch = ChannelId_Sensor \<and> mid = SENSOR_EVENT_INDICATION then
        (if payload = serialize_service p (NightModeEvent True) then [True]
         else if payload = serialize_service p (NightModeEvent False) then [False] else [])
      else [])"
| "night_event p s = []"

definition night_events :: "service_protos \<Rightarrow> service_signal list \<Rightarrow> bool list" where
  "night_events p sigs = concat (map (night_event p) sigs)"

definition night_distinct :: "service_protos \<Rightarrow> bool" where
  "night_distinct p \<longleftrightarrow> serialize_service p (NightModeEvent True) \<noteq> serialize_service p (NightModeEvent False) \<and>
     (\<forall>b i. serialize_service p (DrivingStatusEvent i) \<noteq> serialize_service p (NightModeEvent b)) \<and>
     (\<forall>b e. serialize_service p (ParkingBrakeEvent e) \<noteq> serialize_service p (NightModeEvent b))"

lemma night_events_simps [simp]:
  "night_events p [] = []" "night_events p (s # ss) = night_event p s @ night_events p ss"
  "night_events p (xs @ ys) = night_events p xs @ night_events p ys"
  by (simp_all add: night_events_def)

definition night_told :: "service_protos \<Rightarrow> sensor \<Rightarrow> service_signal list \<Rightarrow> bool" where
  "night_told p s h \<longleftrightarrow> (sn_channelOpen s \<and> sensor_NIGHT_DATA p \<in> sn_activeSensors s \<longrightarrow>
     night_events p h \<noteq> [] \<and> last (night_events p h) = sn_nightMode s)"

lemma night_event_messages:
  assumes "night_distinct p"
  shows "night_event p (SvSend ChannelId_Sensor SENSOR_EVENT_INDICATION (serialize_service p (NightModeEvent b))) = [b]"
    and "night_event p (SvSend ChannelId_Sensor SENSOR_EVENT_INDICATION (serialize_service p (DrivingStatusEvent i))) = []"
    and "night_event p (SvSend ChannelId_Sensor SENSOR_EVENT_INDICATION (serialize_service p (ParkingBrakeEvent e))) = []"
    and "night_event p (SvSend ChannelId_Sensor SENSOR_START_RESPONSE bs) = []"
  using assms by (cases b; auto simp: night_distinct_def)+

lemma night_told_step:
  assumes "night_distinct p" "night_told p s h"
  shows "night_told p (fst (sensor_step p op s)) (h @ snd (sensor_step p op s))"
proof (cases "(p, op, s)" rule: sensor_step.cases)
  case (3 p mid payload off s)
  then show ?thesis using assms
    by (auto simp: night_told_def sensor_defs Let_def night_event_messages simp del: night_event.simps(1)
        split: option.splits)
qed (use assms in \<open>auto simp: night_told_def sensor_defs Let_def night_event_messages simp del: night_event.simps(1)\<close>)

text \<open>
  Once the phone has subscribed to the night sensor on the open channel, the last
  night-mode event it was sent carries the head unit's current night mode, however mode
  changes, other sensors, reopenings and unknown messages were interleaved.
\<close>

lemma phone_knows_night_mode:
  assumes "night_distinct p"
    and "run (sensor_step p) ops sensor_new = (s, sigs)"
    and "sn_channelOpen s" and "sensor_NIGHT_DATA p \<in> sn_activeSensors s"
  shows "night_events p sigs \<noteq> [] \<and> last (night_events p sigs) = sn_nightMode s"
proof -
  have "night_told p sensor_new []" by (simp add: night_told_def sensor_new_def)
  then have "night_told p (fst (run (sensor_step p) ops sensor_new)) (snd (run (sensor_step p) ops sensor_new))"
    by (rule run_history_invariant) (rule night_told_step [OF assms(1)])
  then show ?thesis using assms(2-4) by (simp add: night_told_def)
qed

section \<open>Navigation state reports\<close>

fun nav_report :: "service_signal \<Rightarrow> nav_state list" where
  "nav_report (SvNavState n) = [n]"
| "nav_report s = []"

definition nav_reports :: "service_signal list \<Rightarrow> nav_state list" where
  "nav_reports sigs = concat (map nav_report sigs)"

lemma nav_reports_simps [simp]:
  "nav_reports [] = []" "nav_reports (s # ss) = nav_report s @ nav_reports ss"
  "nav_reports (xs @ ys) = nav_reports xs @ nav_reports ys"
  by (simp_all add: nav_reports_def)

text \<open>Opens happen only on a handler whose navigation is unavailable: a new or closed channel.\<close>

fun opens_closed :: "service_protos \<Rightarrow> unit channel_op list \<Rightarrow> navigation \<Rightarrow> bool" where
  "opens_closed p [] n = True"
| "opens_closed p (op # ops) n \<longleftrightarrow> (op = ChOpened \<longrightarrow> nv_state n = NavUnavailable) \<and>
     opens_closed p ops (fst (navigation_step p op n))"

lemma nav_other_reports [simp]:
  "nav_reports (handleTurnEvent p d) = []" "nav_reports (handleNavStep p d) = []"
  "nav_reports (handleNavDistance p d) = []" "nav_reports (handleVehicleEnergyForecast p d) = []"
  by (simp_all add: handleTurnEvent_def handleNavStep_def handleNavDistance_def
      handleVehicleEnergyForecast_def split: option.splits)

lemma nav_step_reports:
  "op = ChOpened \<longrightarrow> nv_state n = NavUnavailable \<Longrightarrow>
   (nav_reports (snd (navigation_step p op n)) = [] \<and> nv_state (fst (navigation_step p op n)) = nv_state n) \<or>
   (nav_reports (snd (navigation_step p op n)) = [nv_state (fst (navigation_step p op n))] \<and>
    nv_state (fst (navigation_step p op n)) \<noteq> nv_state n)"
  by (cases op) (auto simp: navigation_onChannelOpened_def navigation_onChannelClosed_def
      navigation_onMessage_def handleNavState_def Let_def split: option.splits)

text \<open>
  The navigation states reported by a handler, after the unavailable state it starts
  with, never repeat one another and end in the handler's state, provided the channel is
  opened only while navigation is unavailable.
\<close>

lemma navigation_reports_changes:
  assumes "opens_closed p ops n"
  shows "successively (\<noteq>) (nv_state n # nav_reports (snd (run (navigation_step p) ops n))) \<and>
    last (nv_state n # nav_reports (snd (run (navigation_step p) ops n)))
      = nv_state (fst (run (navigation_step p) ops n))"
  using assms
proof (induction ops arbitrary: n)
  case Nil then show ?case by simp
next
  case (Cons op ops)
  from nav_step_reports [of op n p] Cons.prems
  consider "nav_reports (snd (navigation_step p op n)) = []" "nv_state (fst (navigation_step p op n)) = nv_state n"
    | "nav_reports (snd (navigation_step p op n)) = [nv_state (fst (navigation_step p op n))]"
      "nv_state (fst (navigation_step p op n)) \<noteq> nv_state n" by auto
  then show ?case using Cons.IH [of "fst (navigation_step p op n)"] Cons.prems
    by cases (simp_all add: run_Cons)
qed

text \<open>
  The provision of the last lemma is needed. When the phone opens the navigation channel again without
  closing it, which the session passes on to the handler, the handler forgets the reported
  state without a report: a later message that navigation is unavailable is then not reported,
  and the last state observers have seen stays active.
\<close>

lemma navigation_reopen_hides_end:
  "nav_reports (snd (run (navigation_step demo_service_protos)
     [ChOpened, ChMessage NAV_STATE [1] 0, ChOpened, ChMessage NAV_STATE [0] 0] \<lparr>nv_state = NavUnavailable\<rparr>))
   = [NavActive] \<and>
   nv_state (fst (run (navigation_step demo_service_protos)
     [ChOpened, ChMessage NAV_STATE [1] 0, ChOpened, ChMessage NAV_STATE [0] 0] \<lparr>nv_state = NavUnavailable\<rparr>))
   = NavUnavailable"
  by (simp add: run_Cons navigation_onChannelOpened_def navigation_onMessage_def handleNavState_def
      demo_service_protos_def nextNavState_def Let_def)

end
