(* ===== verification/Api_Framer.thy ===== *)
theory Api_Framer
  imports Prelude
begin

text \<open>
  \<open>core/api/ApiFramer.cpp\<close>: length-prefixed framing of the external API on a TCP stream. A frame
  is a four-byte big-endian length and that many bytes; an empty or oversized length closes the
  stream for good. \<open>split_frames\<close> is the wire format as a function of the whole stream; the
  framer, fed chunk by chunk with 32-bit arithmetic, computes it.
\<close>

record framer =
  fr_maxFrameBytes :: u32
  fr_buffer :: bytes
  fr_violated :: bool

definition framer_new :: "u32 \<Rightarrow> framer" where
  "framer_new mx = \<lparr>fr_maxFrameBytes = mx, fr_buffer = [], fr_violated = False\<rparr>"

definition api_encode :: "bytes \<Rightarrow> bytes" where
  "api_encode payload = (let n = of_nat (length payload) :: u32
     in [ucast (drop_bit 24 n), ucast (drop_bit 16 n), ucast (drop_bit 8 n), ucast n] @ payload)"

definition frame_length :: "bytes \<Rightarrow> u32" where
  "frame_length buf = of_nat (be_val (take 4 buf))"

text \<open>The loop of \<open>feed\<close> over the buffer: the frames, the bytes left, and whether it hit a violation.\<close>

function framer_loop :: "u32 \<Rightarrow> bytes \<Rightarrow> bytes list \<times> bytes \<times> bool" where
  "framer_loop mx buf = (
     if length buf < 4 then ([], buf, False)
     else let len = frame_length buf in
       if len = 0 \<or> len > mx then ([], [], True)
       else if (of_nat (length buf) :: u32) < 4 + len then ([], buf, False)
       else case framer_loop mx (drop (4 + unat len) buf) of (fs, rest, v) \<Rightarrow>
         (take (unat len) (drop 4 buf) # fs, rest, v))"
  by pat_completeness auto
termination by (relation "measure (\<lambda>(mx, buf). length buf)") auto

declare framer_loop.simps [simp del]

definition framer_feed :: "bytes \<Rightarrow> framer \<Rightarrow> framer \<times> bytes list" where
  "framer_feed chunk fr = (
     if fr_violated fr then (fr, [])
     else case framer_loop (fr_maxFrameBytes fr) (fr_buffer fr @ chunk) of (fs, rest, v) \<Rightarrow>
       (fr\<lparr>fr_buffer := rest, fr_violated := v\<rparr>, fs))"

section \<open>The wire format\<close>

function split_frames :: "u32 \<Rightarrow> bytes \<Rightarrow> bytes list \<times> bytes \<times> bool" where
  "split_frames mx buf = (
     if length buf < 4 then ([], buf, False)
     else let n = be_val (take 4 buf) in
       if n = 0 \<or> unat mx < n then ([], [], True)
       else if length buf < 4 + n then ([], buf, False)
       else case split_frames mx (drop (4 + n) buf) of (fs, rest, v) \<Rightarrow> (take n (drop 4 buf) # fs, rest, v))"
  by pat_completeness auto
termination by (relation "measure (\<lambda>(mx, buf). length buf)") auto

declare split_frames.simps [simp del]

lemma be_val_take4: "be_val (take 4 buf) < 2 ^ 32"
proof -
  have "be_val (take 4 buf) < 256 ^ length (take 4 buf)" by (rule be_val_bound)
  also have "\<dots> \<le> (256 :: nat) ^ 4" by (intro power_increasing) auto
  finally show ?thesis by simp
qed

lemma unat_frame_length: "unat (frame_length buf) = be_val (take 4 buf)"
  using be_val_take4 [of buf] by (simp add: frame_length_def unat_of_nat)

lemma framer_loop_split:
  assumes "unat mx \<le> 2 ^ 30" and "length buf < 2 ^ 32"
  shows "framer_loop mx buf = split_frames mx buf"
  using assms
proof (induction mx buf rule: split_frames.induct)
  case (1 mx buf)
  let ?n = "be_val (take 4 buf)"
  have bad: "frame_length buf = 0 \<or> frame_length buf > mx \<longleftrightarrow> ?n = 0 \<or> unat mx < ?n"
    using unat_frame_length [of buf] by (auto simp: word_less_nat_alt unat_eq_0 [symmetric])
  have short: "(of_nat (length buf) :: u32) < 4 + frame_length buf \<longleftrightarrow> length buf < 4 + ?n"
    if "?n \<le> unat mx"
  proof -
    have n: "4 + ?n < 2 ^ 32" using that "1.prems"(1) by simp
    have "unat (4 + frame_length buf) = 4 + ?n"
      using n unat_frame_length [of buf] by (simp add: unat_word_ariths)
    then show ?thesis using "1.prems"(2) by (simp add: word_less_nat_alt unat_of_nat)
  qed
  show ?case
  proof (cases "length buf < 4 \<or> ?n = 0 \<or> unat mx < ?n \<or> length buf < 4 + ?n")
    case True
    then show ?thesis
      using bad short by (subst framer_loop.simps, subst split_frames.simps) (auto simp: Let_def)
  next
    case False
    then have "framer_loop mx (drop (4 + ?n) buf) = split_frames mx (drop (4 + ?n) buf)"
      using "1.IH" [OF _ refl] "1.prems" by simp
    with False bad short show ?thesis
      by (subst framer_loop.simps, subst split_frames.simps) (simp add: Let_def unat_frame_length)
  qed
qed

lemma split_frames_append:
  assumes "split_frames mx buf = (fs, rest, False)"
  shows "split_frames mx (buf @ extra) = (case split_frames mx (rest @ extra) of (gs, r, v) \<Rightarrow> (fs @ gs, r, v))"
  using assms
proof (induction mx buf arbitrary: fs rest rule: split_frames.induct)
  case (1 mx buf)
  let ?n = "be_val (take 4 buf)"
  show ?case
  proof (cases "length buf < 4 \<or> \<not> (?n = 0 \<or> unat mx < ?n) \<and> length buf < 4 + ?n")
    case True
    then have "fs = []" "rest = buf" using "1.prems"
      by (subst (asm) split_frames.simps; auto simp: Let_def split: if_splits)+
    then show ?thesis by (simp split: prod.split)
  next
    case False
    have ok: "\<not> (?n = 0 \<or> unat mx < ?n)" "4 + ?n \<le> length buf"
      using False "1.prems" by (subst (asm) split_frames.simps; auto simp: Let_def split: if_splits)+
    obtain fs' where rec: "split_frames mx (drop (4 + ?n) buf) = (fs', rest, False)"
      and fs: "fs = take ?n (drop 4 buf) # fs'"
      using False "1.prems" ok by (subst (asm) split_frames.simps) (auto simp: Let_def split: if_splits prod.splits)
    have "split_frames mx (drop (4 + ?n) buf @ extra) =
        (case split_frames mx (rest @ extra) of (gs, r, v) \<Rightarrow> (fs' @ gs, r, v))"
      using "1.IH" [OF _ refl _ _ rec] ok by simp
    moreover have "split_frames mx (buf @ extra) = (case split_frames mx (drop (4 + ?n) buf @ extra) of
        (gs, r, v) \<Rightarrow> (take ?n (drop 4 buf) # gs, r, v))"
      using ok by (subst split_frames.simps) (simp add: Let_def)
    ultimately show ?thesis by (simp add: fs split: prod.split)
  qed
qed

lemma split_frames_rest:
  "split_frames mx buf = (fs, rest, v) \<Longrightarrow> length rest < 4 + unat mx \<and> (v \<longrightarrow> rest = [])"
proof (induction mx buf arbitrary: fs rule: split_frames.induct)
  case (1 mx buf)
  from "1.prems" "1.IH" [OF _ refl] show ?case
    by (subst (asm) split_frames.simps) (auto simp: Let_def split: if_splits prod.splits)
qed

lemma split_frames_violated:
  "snd (snd (split_frames mx buf)) \<Longrightarrow> split_frames mx (buf @ extra) = (fst (split_frames mx buf), [], True)"
proof (induction mx buf rule: split_frames.induct)
  case (1 mx buf)
  let ?n = "be_val (take 4 buf)"
  show ?case
  proof (cases "length buf < 4 \<or> ?n = 0 \<or> unat mx < ?n \<or> length buf < 4 + ?n")
    case True
    then have bad: "4 \<le> length buf" "?n = 0 \<or> unat mx < ?n" using "1.prems"
      by (subst (asm) split_frames.simps; auto simp: Let_def split: if_splits)+
    then show ?thesis by (subst (1 2) split_frames.simps) (simp add: Let_def)
  next
    case False
    then have "snd (snd (split_frames mx (drop (4 + ?n) buf)))" using "1.prems"
      by (subst (asm) split_frames.simps) (auto simp: Let_def split: prod.splits)
    with "1.IH" [OF _ refl] False
    have "split_frames mx (drop (4 + ?n) buf @ extra) = (fst (split_frames mx (drop (4 + ?n) buf)), [], True)"
      by auto
    with False show ?thesis by (subst (1 2) split_frames.simps) (simp add: Let_def split: prod.splits)
  qed
qed

text \<open>Feeding chunk by chunk.\<close>

definition framer_inv :: "framer \<Rightarrow> bool" where
  "framer_inv fr \<longleftrightarrow> unat (fr_maxFrameBytes fr) \<le> 2 ^ 30 \<and>
     length (fr_buffer fr) < 4 + unat (fr_maxFrameBytes fr) \<and>
     (\<not> fr_violated fr \<longrightarrow> split_frames (fr_maxFrameBytes fr) (fr_buffer fr) = ([], fr_buffer fr, False))"

lemma split_frames_fix:
  "split_frames mx buf = (fs, rest, False) \<Longrightarrow> split_frames mx rest = ([], rest, False)"
proof (induction mx buf arbitrary: fs rule: split_frames.induct)
  case (1 mx buf)
  let ?n = "be_val (take 4 buf)"
  show ?case
  proof (cases "length buf < 4 \<or> ?n = 0 \<or> unat mx < ?n \<or> length buf < 4 + ?n")
    case True
    then have "fs = [] \<and> rest = buf" using "1.prems"
      by (subst (asm) split_frames.simps) (auto simp: Let_def split: if_splits)
    then show ?thesis using "1.prems" by simp
  next
    case False
    then obtain fs' where "split_frames mx (drop (4 + ?n) buf) = (fs', rest, False)"
      using "1.prems" by (subst (asm) split_frames.simps) (auto simp: Let_def split: if_splits prod.splits)
    then show ?thesis using "1.IH" [OF _ refl] False by auto
  qed
qed

lemma framer_run_split:
  assumes "framer_inv fr" "\<not> fr_violated fr" "list_all (\<lambda>d. length d < 2 ^ 31) ds"
    and "run framer_feed ds fr = (fr', fs)"
  shows "framer_inv fr' \<and> fs = fst (split_frames (fr_maxFrameBytes fr) (fr_buffer fr @ concat ds)) \<and>
    fr_violated fr' = snd (snd (split_frames (fr_maxFrameBytes fr) (fr_buffer fr @ concat ds)))"
  using assms
proof (induction ds arbitrary: fr fs)
  case Nil
  then show ?case by (auto simp: framer_inv_def)
next
  case (Cons d ds)
  let ?mx = "fr_maxFrameBytes fr"
  obtain gs rest v where sp: "split_frames ?mx (fr_buffer fr @ d) = (gs, rest, v)" using prod_cases3 by blast
  have len: "length (fr_buffer fr @ d) < 2 ^ 32" and mx: "unat ?mx \<le> 2 ^ 30"
    using Cons.prems(1,3) by (auto simp: framer_inv_def)
  let ?f1 = "fr\<lparr>fr_buffer := rest, fr_violated := v\<rparr>"
  have feed: "framer_feed d fr = (?f1, gs)"
    using Cons.prems(2) sp framer_loop_split [OF mx len] by (simp add: framer_feed_def)
  obtain hs where r: "run framer_feed ds ?f1 = (fr', hs)" and fs: "fs = gs @ hs"
    using Cons.prems(4) by (auto simp: run.simps feed split: prod.splits)
  note rest = split_frames_rest [OF sp]
  show ?case
  proof (cases v)
    case True
    have vs: "run framer_feed xs f = (f, [])" if "fr_violated f" for xs f
      using that by (induction xs) (simp_all add: run.simps framer_feed_def)
    have "fr' = ?f1" "hs = []" using r vs [of ?f1 ds] True by auto
    moreover have "split_frames ?mx (buf @ extra) = (fst (split_frames ?mx buf), [], True)"
      if "snd (snd (split_frames ?mx buf))" for buf extra using that by (rule split_frames_violated)
    ultimately show ?thesis using sp True mx rest fs by (simp add: framer_inv_def flip: append_assoc)
  next
    case False
    have inv: "framer_inv ?f1" using mx rest split_frames_fix sp False by (simp add: framer_inv_def)
    have ih: "framer_inv fr' \<and> hs = fst (split_frames ?mx (rest @ concat ds)) \<and>
        fr_violated fr' = snd (snd (split_frames ?mx (rest @ concat ds)))"
      using Cons.IH [OF inv _ _ r] Cons.prems(3) False by simp
    have "split_frames ?mx (fr_buffer fr @ concat (d # ds)) =
        (case split_frames ?mx (rest @ concat ds) of (gs', r', v') \<Rightarrow> (gs @ gs', r', v'))"
      using split_frames_append [of ?mx "fr_buffer fr @ d" gs rest "concat ds"] sp False by simp
    then show ?thesis using ih fs by (auto split: prod.splits)
  qed
qed

text \<open>Encoding.\<close>

lemma api_encode_bytes: "length payload < 2 ^ 32 \<Longrightarrow> api_encode payload = be_bytes 4 (length payload) @ payload"
proof -
  assume len: "length payload < 2 ^ 32"
  let ?n = "of_nat (length payload) :: u32"
  have b: "ucast (drop_bit k ?n) = (of_nat (length payload div 2 ^ k) :: byte)" for k
  proof -
    have "unat (drop_bit k ?n) = drop_bit k (unat ?n)" by (rule unat_drop_bit_eq)
    also have "\<dots> = length payload div 2 ^ k" using len by (simp add: drop_bit_eq_div unat_of_nat)
    finally show ?thesis by (metis of_nat_unat)
  qed
  have four: "be_bytes 4 n = [of_nat (n div 2 ^ 24), of_nat (n div 2 ^ 16), of_nat (n div 2 ^ 8), of_nat n]" for n
  proof -
    have "be_bytes (Suc (Suc (Suc (Suc 0)))) n = [of_nat (n div 2 ^ 24), of_nat (n div 2 ^ 16), of_nat (n div 2 ^ 8), of_nat n]"
      by simp
    moreover have "Suc (Suc (Suc (Suc 0))) = 4" by simp
    ultimately show ?thesis by (simp only:)
  qed
  show ?thesis unfolding api_encode_def four using b [of 24] b [of 16] b [of 8] b [of 0] by simp
qed

lemma split_frames_encode:
  assumes "0 < length payload" "length payload \<le> unat mx"
  shows "split_frames mx (api_encode payload @ extra) =
    (case split_frames mx extra of (fs, rest, v) \<Rightarrow> (payload # fs, rest, v))"
proof -
  have "unat mx < 2 ^ 32" using unsigned_less [of mx] by simp
  with assms(2) have len: "length payload < 2 ^ 32" by simp
  note e = api_encode_bytes [OF len]
  have "be_val (take 4 (api_encode payload @ extra)) = length payload"
    using len by (simp add: e be_val_be_bytes del: be_bytes.simps)
  with assms show ?thesis
    by (subst split_frames.simps) (simp add: Let_def e del: be_bytes.simps)
qed

lemma split_frames_stream:
  "list_all (\<lambda>p. 0 < length p \<and> length p \<le> unat mx) ps \<Longrightarrow> split_frames mx (concat (map api_encode ps)) = (ps, [], False)"
  by (induction ps) (simp_all add: split_frames_encode, simp add: split_frames.simps)

text \<open>
  C25: the frames the API framer delivers, and whether it declares the stream broken, are a
  function of the received bytes alone, whatever way they were cut into reads; in particular
  a stream of encoded messages, each not empty and within the size limit, comes out as those
  messages. Between reads it never holds as much as one largest frame with its prefix.
\<close>

theorem api_framer_roundtrip:
  assumes "unat mx \<le> 2 ^ 30" and "list_all (\<lambda>d. length d < 2 ^ 31) ds"
    and "run framer_feed ds (framer_new mx) = (fr, fs)"
  shows "(fs, fr_violated fr) = (fst (split_frames mx (concat ds)), snd (snd (split_frames mx (concat ds)))) \<and>
    length (fr_buffer fr) < 4 + unat mx \<and>
    (\<forall>ps. list_all (\<lambda>p. 0 < length p \<and> length p \<le> unat mx) ps \<longrightarrow> concat ds = concat (map api_encode ps) \<longrightarrow>
       fs = ps \<and> \<not> fr_violated fr)"
proof -
  have inv: "framer_inv (framer_new mx)"
    using assms(1) by (simp add: framer_inv_def framer_new_def, subst split_frames.simps, simp)
  have mx: "fr_maxFrameBytes fr = mx"
    using assms(3) run_invariant [of "\<lambda>f. fr_maxFrameBytes f = mx" "framer_new mx" framer_feed ds]
    by (auto simp: framer_new_def framer_feed_def split: prod.splits)
  from framer_run_split [OF inv _ assms(2,3)] mx show ?thesis
    by (auto simp: framer_new_def framer_inv_def split_frames_stream)
qed

theorem api_framer_roundtrip_witness:
  "snd (run framer_feed [[0, 0], [0, 2, 7, 8, 0, 0, 0], [1, 9]] (framer_new 262144)) = [[7, 8], [9]]"
proof -
  let ?ds = "[[0, 0], [0, 2, 7, 8, 0, 0, 0], [1, 9]] :: bytes list"
  let ?r = "run framer_feed ?ds (framer_new 262144)"
  have e: "concat ?ds = concat (map api_encode [[7, 8], [9]])" by (simp add: api_encode_def)
  have "list_all (\<lambda>p. 0 < length p \<and> length p \<le> unat (262144 :: u32)) [[7, 8 :: byte], [9]]" by simp
  with api_framer_roundtrip [of 262144 ?ds "fst ?r" "snd ?r", THEN conjunct2, THEN conjunct2, rule_format,
      of "[[7, 8], [9]]", OF _ _ _ _ e] show ?thesis by simp
qed

end
