(* ===== verification/Api_Auth.thy ===== *)
theory Api_Auth
  imports Prelude "HOL-Library.Char_ord"
begin

unbundle bit_operations_syntax

text \<open>
  Authentication of the external API: \<open>core/api/ApiAuth.cpp\<close>, the comparison of proofs and the
  persisted store of paired clients, and \<open>core/api/PairingManager.cpp\<close>, the pairing window.

  SHA-256, the HMAC, the random generator, the UUID generator and the clock are the parameter
  \<open>crypto\<close>. The YAML file is a value of \<open>yaml_doc\<close>: what the YAML library gives for it, node by
  node; whether writing the file succeeds is an argument of the operations that save.
\<close>

section \<open>Primitives\<close>

record crypto =
  sha256 :: "bytes \<Rightarrow> bytes"
  hmac_sha256 :: "bytes \<Rightarrow> bytes \<Rightarrow> bytes"
  utf8 :: "string \<Rightarrow> bytes"

definition deriveSecret :: "crypto \<Rightarrow> string \<Rightarrow> bytes \<Rightarrow> bytes" where
  "deriveSecret c pairingCode salt = sha256 c (utf8 c pairingCode @ salt)"

definition hmacProof :: "crypto \<Rightarrow> bytes \<Rightarrow> bytes \<Rightarrow> bytes" where
  "hmacProof c secret nonce = hmac_sha256 c nonce secret"

definition diff_bits :: "bytes \<Rightarrow> bytes \<Rightarrow> byte" where
  "diff_bits a b = foldl (\<lambda>d (x, y). d OR (x XOR y)) 0 (zip a b)"

definition constantTimeEquals :: "bytes \<Rightarrow> bytes \<Rightarrow> bool" where
  "constantTimeEquals a b \<longleftrightarrow> (if length a \<noteq> length b then False else diff_bits a b = 0)"

lemma xor_zero_iff: "(x XOR y = 0) = (x = (y :: byte))"
proof
  assume "x XOR y = 0"
  then have "(x XOR y) XOR y = 0 XOR y" by simp
  then show "x = y" by (simp add: xor.assoc)
qed simp

lemma foldl_diff_zero:
  "foldl (\<lambda>d (x, y). d OR (x XOR y)) d ps = 0 \<longleftrightarrow> d = (0 :: byte) \<and> (\<forall>(x, y) \<in> set ps. x = y)"
  by (induction ps arbitrary: d) (auto simp: or_eq_0_iff xor_zero_iff)

lemma constantTimeEquals_eq: "constantTimeEquals a b \<longleftrightarrow> a = b"
proof (cases "length a = length b")
  case True
  then show ?thesis
    by (induction a b rule: list_induct2)
      (simp_all add: constantTimeEquals_def diff_bits_def foldl_diff_zero xor_zero_iff)
qed (auto simp: constantTimeEquals_def)

section \<open>The store of paired clients\<close>

definition kLegacyCredentialGeneration :: int where "kLegacyCredentialGeneration = 1"
definition kSecureCodeCredentialGeneration :: int where "kSecureCodeCredentialGeneration = 2"

record paired_client =
  pc_clientId :: string
  pc_secret :: bytes
  pc_name :: string
  pc_kind :: int
  pc_pairedAtIso :: string
  pc_credentialGeneration :: int

text \<open>
  One client in the file. A field is \<open>None\<close> when it is absent, not a scalar, or does not convert
  to the type the code asks for, which throws.
\<close>

datatype yaml_generation = GenAbsent | GenInvalid | Gen int

record yaml_client =
  yc_isMap :: bool
  yc_id :: "string option"
  yc_secret_hex :: "string option"
  yc_name :: "string option"
  yc_kind :: "int option"
  yc_paired_at :: "string option"
  yc_generation :: yaml_generation

datatype yaml_doc = NoFile | Unreadable | NullClients | Clients "yaml_client list"

record client_store =
  cs_clients :: "paired_client list"
  cs_loadedSuccessfully :: bool

definition store_new :: client_store where
  "store_new = \<lparr>cs_clients = [], cs_loadedSuccessfully = False\<rparr>"

definition is_hex :: "char \<Rightarrow> bool" where
  "is_hex c \<longleftrightarrow> (CHR ''0'' \<le> c \<and> c \<le> CHR ''9'') \<or> (CHR ''a'' \<le> c \<and> c \<le> CHR ''f'') \<or> (CHR ''A'' \<le> c \<and> c \<le> CHR ''F'')"

definition isValidSecretHex :: "string \<Rightarrow> bool" where
  "isValidSecretHex v \<longleftrightarrow> length v = 64 \<and> list_all is_hex v"

definition isKnownCredentialGeneration :: "int \<Rightarrow> bool" where
  "isKnownCredentialGeneration g \<longleftrightarrow> g = kLegacyCredentialGeneration \<or> g = kSecureCodeCredentialGeneration"

definition hex_value :: "char \<Rightarrow> nat" where
  "hex_value c = (let n = of_char c :: nat in
     if n \<le> 57 then n - 48 else if n \<le> 70 then n - 55 else n - 87)"

fun fromHex :: "string \<Rightarrow> bytes" where
  "fromHex (a # b # cs) = of_nat (16 * hex_value a + hex_value b) # fromHex cs"
| "fromHex cs = []"

definition hex_digit :: "nat \<Rightarrow> char" where
  "hex_digit n = (if n < 10 then char_of (48 + n) else char_of (87 + n))"

definition toHex :: "bytes \<Rightarrow> string" where
  "toHex bs = concat (map (\<lambda>b. [hex_digit (unat b div 16), hex_digit (unat b mod 16)]) bs)"

text \<open>\<open>QString::trimmed\<close> removes white space at both ends; it leaves nothing of a blank string.\<close>

definition is_space :: "char \<Rightarrow> bool" where
  "is_space c \<longleftrightarrow> (let n = of_char c :: nat in n = 32 \<or> 9 \<le> n \<and> n \<le> 13)"

definition trimmed_isEmpty :: "string \<Rightarrow> bool" where
  "trimmed_isEmpty s \<longleftrightarrow> list_all is_space s"

definition load_generation :: "yaml_generation \<Rightarrow> int option" where
  "load_generation g = (case g of
     GenAbsent \<Rightarrow> Some kLegacyCredentialGeneration
   | GenInvalid \<Rightarrow> None
   | Gen n \<Rightarrow> if isKnownCredentialGeneration n then Some n else None)"

definition load_client :: "string set \<Rightarrow> yaml_client \<Rightarrow> paired_client option" where
  "load_client seen y = (if \<not> yc_isMap y then None else
     case (yc_id y, yc_secret_hex y, yc_name y, yc_kind y, yc_paired_at y, load_generation (yc_generation y)) of
       (Some i, Some hex, Some name, Some kind, Some pairedAt, Some generation) \<Rightarrow>
         if trimmed_isEmpty i \<or> i \<in> seen then None
         else if \<not> isValidSecretHex hex then None
         else if length (fromHex hex) \<noteq> 32 then None
         else Some \<lparr>pc_clientId = i, pc_secret = fromHex hex, pc_name = name, pc_kind = kind,
           pc_pairedAtIso = pairedAt, pc_credentialGeneration = generation\<rparr>
     | _ \<Rightarrow> None)"

fun load_clients :: "string set \<Rightarrow> yaml_client list \<Rightarrow> paired_client list option" where
  "load_clients seen [] = Some []"
| "load_clients seen (y # ys) = (case load_client seen y of
     None \<Rightarrow> None
   | Some c \<Rightarrow> (case load_clients (insert (pc_clientId c) seen) ys of
       None \<Rightarrow> None | Some cs \<Rightarrow> Some (c # cs)))"

definition store_load :: "yaml_doc \<Rightarrow> client_store \<Rightarrow> bool \<times> client_store" where
  "store_load doc s = (case doc of
     NoFile \<Rightarrow> (True, \<lparr>cs_clients = [], cs_loadedSuccessfully = True\<rparr>)
   | Unreadable \<Rightarrow> (False, s\<lparr>cs_loadedSuccessfully := False\<rparr>)
   | NullClients \<Rightarrow> (True, \<lparr>cs_clients = [], cs_loadedSuccessfully = True\<rparr>)
   | Clients ys \<Rightarrow> (case load_clients {} ys of
       Some cs \<Rightarrow> (True, \<lparr>cs_clients = cs, cs_loadedSuccessfully = True\<rparr>)
     | None \<Rightarrow> (False, s\<lparr>cs_loadedSuccessfully := False\<rparr>)))"

definition save_client :: "paired_client \<Rightarrow> yaml_client" where
  "save_client c = \<lparr>yc_isMap = True, yc_id = Some (pc_clientId c), yc_secret_hex = Some (toHex (pc_secret c)),
     yc_name = Some (pc_name c), yc_kind = Some (pc_kind c), yc_paired_at = Some (pc_pairedAtIso c),
     yc_generation = Gen (pc_credentialGeneration c)\<rparr>"

text \<open>
  \<open>writes\<close>: whether opening, writing, securing and committing the file all succeed. The file is
  replaced as a whole or not at all (\<open>QSaveFile\<close>).
\<close>

definition store_save :: "bool \<Rightarrow> client_store \<Rightarrow> yaml_doc \<Rightarrow> bool \<times> yaml_doc" where
  "store_save writes s file = (if \<not> cs_loadedSuccessfully s then (False, file)
     else if \<not> writes then (False, file)
     else (True, Clients (map save_client (cs_clients s))))"

definition store_find :: "string \<Rightarrow> client_store \<Rightarrow> paired_client option" where
  "store_find i s = find (\<lambda>c. pc_clientId c = i) (cs_clients s)"

fun remove_client :: "string \<Rightarrow> paired_client list \<Rightarrow> paired_client list" where
  "remove_client i [] = []"
| "remove_client i (c # cs) = (if pc_clientId c = i then cs else c # remove_client i cs)"

definition store_upsert :: "paired_client \<Rightarrow> client_store \<Rightarrow> client_store" where
  "store_upsert c s = s\<lparr>cs_clients := remove_client (pc_clientId c) (cs_clients s) @ [c]\<rparr>"

definition store_remove :: "string \<Rightarrow> client_store \<Rightarrow> bool \<times> client_store" where
  "store_remove i s = (if \<exists>c \<in> set (cs_clients s). pc_clientId c = i
     then (True, s\<lparr>cs_clients := remove_client i (cs_clients s)\<rparr>) else (False, s))"

section \<open>The pairing window\<close>

record pairing =
  pm_store :: client_store
  pm_file :: yaml_doc
  pm_timer :: "int option"
  pm_windowOpen :: bool
  pm_code :: string
  pm_salt :: bytes

definition pairing_new :: "client_store \<Rightarrow> yaml_doc \<Rightarrow> pairing" where
  "pairing_new s file = \<lparr>pm_store = s, pm_file = file, pm_timer = None, pm_windowOpen = False,
     pm_code = [], pm_salt = []\<rparr>"

definition is_base32 :: "char \<Rightarrow> bool" where
  "is_base32 c \<longleftrightarrow> (CHR ''A'' \<le> c \<and> c \<le> CHR ''Z'') \<or> (CHR ''2'' \<le> c \<and> c \<le> CHR ''7'')"

definition isValidCode :: "string \<Rightarrow> bool" where
  "isValidCode code \<longleftrightarrow> length code = 24 \<and> list_all is_base32 code"

fun group_code :: "nat \<Rightarrow> string \<Rightarrow> string" where
  "group_code i [] = []"
| "group_code i (c # cs) = (if 0 < i \<and> i mod 4 = 0 then CHR ''-'' # c # group_code (Suc i) cs
     else c # group_code (Suc i) cs)"

definition formatCode :: "string \<Rightarrow> string" where
  "formatCode code = (if code = [] then [] else group_code 0 code)"

definition startWindow :: "string \<Rightarrow> bytes \<Rightarrow> int \<Rightarrow> pairing \<Rightarrow> bool \<times> pairing" where
  "startWindow generated randomSalt timeoutSeconds m = (
     if \<not> cs_loadedSuccessfully (pm_store m) then (False, m)
     else if \<not> isValidCode generated then (False, m)
     else (True, m\<lparr>pm_code := generated, pm_salt := randomSalt, pm_windowOpen := True,
            pm_timer := Some (timeoutSeconds * 1000)\<rparr>))"

definition cancelWindow :: "pairing \<Rightarrow> pairing" where
  "cancelWindow m = m\<lparr>pm_timer := None, pm_windowOpen := False, pm_code := [], pm_salt := []\<rparr>"

definition displayCode :: "pairing \<Rightarrow> string" where
  "displayCode m = formatCode (pm_code m)"

text \<open>\<open>uuid\<close> and \<open>now\<close> are what the generator and the clock give; \<open>writes\<close> whether saving succeeds.\<close>

definition completePairing :: "crypto \<Rightarrow> string \<Rightarrow> string \<Rightarrow> bool \<Rightarrow> bytes \<Rightarrow> bytes \<Rightarrow> string \<Rightarrow> int \<Rightarrow>
    pairing \<Rightarrow> string option \<times> pairing" where
  "completePairing c uuid now writes nonce proof clientName clientKind m = (
     if \<not> pm_windowOpen m then (None, m)
     else
       let secret = deriveSecret c (pm_code m) (pm_salt m); expected = hmacProof c secret nonce
       in if \<not> constantTimeEquals expected proof then (None, m)
          else
            let client = \<lparr>pc_clientId = uuid, pc_secret = secret, pc_name = clientName, pc_kind = clientKind,
                  pc_pairedAtIso = now @ ''Z'', pc_credentialGeneration = kSecureCodeCredentialGeneration\<rparr>;
                s = store_upsert client (pm_store m);
                (saved, file) = store_save writes s (pm_file m)
            in if \<not> saved then (None, m\<lparr>pm_store := snd (store_remove uuid s)\<rparr>)
               else (Some uuid, cancelWindow (m\<lparr>pm_store := s, pm_file := file\<rparr>)))"

section \<open>The store survives on disk\<close>

definition client_ok :: "paired_client \<Rightarrow> bool" where
  "client_ok c \<longleftrightarrow> \<not> trimmed_isEmpty (pc_clientId c) \<and> length (pc_secret c) = 32 \<and>
     isKnownCredentialGeneration (pc_credentialGeneration c)"

definition clients_ok :: "paired_client list \<Rightarrow> bool" where
  "clients_ok cs \<longleftrightarrow> distinct (map pc_clientId cs) \<and> list_all client_ok cs"

lemma hex_digit_value: "n < 16 \<Longrightarrow> hex_value (hex_digit n) = n \<and> is_hex (hex_digit n)"
  by (auto simp: hex_value_def hex_digit_def is_hex_def less_eq_char_def Let_def)

lemma byte_nibbles: "unat (b :: byte) div 16 < 16" "unat b mod 16 < 16"
proof -
  have "unat b < 16 * 16" using unsigned_less [of b] by simp
  then show "unat b div 16 < 16" by (simp only: less_mult_imp_div_less)
qed simp

lemma fromHex_toHex: "fromHex (toHex bs) = bs"
proof (induction bs)
  case (Cons b bs)
  have "16 * (unat b div 16) + unat b mod 16 = unat b" by (rule mult_div_mod_eq)
  with Cons show ?case
    using hex_digit_value [OF byte_nibbles(1), of b] hex_digit_value [OF byte_nibbles(2), of b]
    by (simp add: toHex_def)
qed (simp add: toHex_def)

lemma toHex_valid: "isValidSecretHex (toHex bs) \<longleftrightarrow> length bs = 32"
proof -
  have "length (toHex bs) = 2 * length bs \<and> list_all is_hex (toHex bs)"
    using hex_digit_value byte_nibbles by (induction bs) (simp_all add: toHex_def)
  then show ?thesis by (auto simp: isValidSecretHex_def)
qed

lemma load_save_client:
  "client_ok c \<Longrightarrow> pc_clientId c \<notin> seen \<Longrightarrow> load_client seen (save_client c) = Some c"
  by (simp add: load_client_def save_client_def client_ok_def load_generation_def fromHex_toHex toHex_valid)

lemma load_save_clients:
  "clients_ok cs \<Longrightarrow> pc_clientId ` set cs \<inter> seen = {} \<Longrightarrow> load_clients seen (map save_client cs) = Some cs"
proof (induction cs arbitrary: seen)
  case (Cons c cs)
  then have "load_clients (insert (pc_clientId c) seen) (map save_client cs) = Some cs"
    by (intro Cons.IH) (auto simp: clients_ok_def)
  then show ?case using Cons.prems load_save_client [of c seen] by (simp add: clients_ok_def)
qed simp

lemma load_client_ok: "load_client seen y = Some c \<Longrightarrow> client_ok c \<and> pc_clientId c \<notin> seen"
  by (auto simp: load_client_def client_ok_def load_generation_def isKnownCredentialGeneration_def
      split: if_splits option.splits yaml_generation.splits)

lemma load_clients_ok:
  "load_clients seen ys = Some cs \<Longrightarrow> clients_ok cs \<and> pc_clientId ` set cs \<inter> seen = {}"
proof (induction ys arbitrary: seen cs)
  case (Cons y ys)
  then obtain c cs' where c: "load_client seen y = Some c" and cs: "cs = c # cs'"
    and rest: "load_clients (insert (pc_clientId c) seen) ys = Some cs'"
    by (auto split: option.splits)
  from Cons.IH [OF rest] load_client_ok [OF c] show ?case by (auto simp: cs clients_ok_def)
qed (simp add: clients_ok_def)

lemma store_load_ok:
  "store_load doc s = (r, s') \<Longrightarrow> clients_ok (cs_clients s) \<Longrightarrow> clients_ok (cs_clients s') \<and> cs_loadedSuccessfully s' = r"
  by (auto simp: store_load_def clients_ok_def [of "[]"] dest: load_clients_ok split: yaml_doc.splits option.splits)

lemma store_load_state: "store_load doc s = (True, s') \<Longrightarrow> store_load doc t = (True, s')"
  by (auto simp: store_load_def split: yaml_doc.splits option.splits)

lemma remove_client_fresh: "i \<notin> pc_clientId ` set cs \<Longrightarrow> remove_client i cs = cs"
  by (induction cs) auto

lemma remove_client_append: "i \<notin> pc_clientId ` set cs \<Longrightarrow> pc_clientId c = i \<Longrightarrow> remove_client i (cs @ [c]) = cs"
  by (induction cs) auto

lemma store_find_none: "store_find i s = None \<longleftrightarrow> i \<notin> pc_clientId ` set (cs_clients s)"
  by (auto simp: store_find_def find_None_iff)

lemma store_upsert_fresh:
  "store_find (pc_clientId c) s = None \<Longrightarrow> store_upsert c s = s\<lparr>cs_clients := cs_clients s @ [c]\<rparr>"
  by (simp add: store_find_none store_upsert_def remove_client_fresh)

lemma store_remove_upserted:
  "store_find (pc_clientId c) s = None \<Longrightarrow> snd (store_remove (pc_clientId c) (store_upsert c s)) = s"
  by (simp add: store_upsert_fresh store_find_none store_remove_def remove_client_append)

text \<open>The client a successful pairing creates.\<close>

definition new_client :: "crypto \<Rightarrow> string \<Rightarrow> string \<Rightarrow> string \<Rightarrow> int \<Rightarrow> pairing \<Rightarrow> paired_client" where
  "new_client c uuid now name kind m = \<lparr>pc_clientId = uuid, pc_secret = deriveSecret c (pm_code m) (pm_salt m),
     pc_name = name, pc_kind = kind, pc_pairedAtIso = now @ ''Z'',
     pc_credentialGeneration = kSecureCodeCredentialGeneration\<rparr>"

lemma completePairing_cases:
  assumes "store_find uuid (pm_store m) = None"
  shows "completePairing c uuid now writes nonce pf name kind m =
    (if pm_windowOpen m \<and> pf = hmacProof c (deriveSecret c (pm_code m) (pm_salt m)) nonce \<and>
        cs_loadedSuccessfully (pm_store m) \<and> writes
     then (Some uuid, cancelWindow (m\<lparr>
       pm_store := (pm_store m)\<lparr>cs_clients := cs_clients (pm_store m) @ [new_client c uuid now name kind m]\<rparr>,
       pm_file := Clients (map save_client (cs_clients (pm_store m) @ [new_client c uuid now name kind m]))\<rparr>))
     else (None, m))"
proof -
  let ?n = "new_client c uuid now name kind m"
  have i: "pc_clientId ?n = uuid" by (simp add: new_client_def)
  have up: "store_upsert ?n (pm_store m) = (pm_store m)\<lparr>cs_clients := cs_clients (pm_store m) @ [?n]\<rparr>"
    using store_upsert_fresh [of ?n "pm_store m"] assms i by simp
  have rm: "snd (store_remove uuid (store_upsert ?n (pm_store m))) = pm_store m"
    using store_remove_upserted [of ?n "pm_store m"] assms i by simp
  show ?thesis using up rm
    by (auto simp: completePairing_def constantTimeEquals_eq Let_def store_save_def new_client_def [symmetric])
qed

text \<open>
  C26: a pairing attempt succeeds exactly when the window is open, the proof is the HMAC of the
  challenge under the secret derived from the displayed code and the window's salt, and the
  client could be saved. Then the client is added to the store and to the file, with that
  secret and the current credential generation, and the window is closed with its code and
  salt erased; otherwise nothing changes at all.
\<close>

theorem pairing_attempt:
  assumes "store_find uuid (pm_store m) = None"
    and "completePairing c uuid now writes nonce pf name kind m = (r, m')"
  shows "if pm_windowOpen m \<and> pf = hmacProof c (deriveSecret c (pm_code m) (pm_salt m)) nonce \<and>
      cs_loadedSuccessfully (pm_store m) \<and> writes
    then r = Some uuid \<and> \<not> pm_windowOpen m' \<and> pm_code m' = [] \<and> pm_salt m' = [] \<and>
      cs_clients (pm_store m') = cs_clients (pm_store m) @ [new_client c uuid now name kind m] \<and>
      pm_file m' = Clients (map save_client (cs_clients (pm_store m')))
    else r = None \<and> m' = m"
  using assms(2) unfolding completePairing_cases [OF assms(1)] by (auto simp: cancelWindow_def)

definition demo_crypto :: crypto where
  "demo_crypto = \<lparr>sha256 = (\<lambda>bs. take 32 (bs @ replicate 32 0)), hmac_sha256 = (\<lambda>nonce key. key @ nonce),
     utf8 = map of_char\<rparr>"

definition demo_window :: pairing where
  "demo_window = snd (startWindow ''ABCDEFGHIJKLMNOPQRSTUVWX'' [1, 2] 120
     (pairing_new \<lparr>cs_clients = [], cs_loadedSuccessfully = True\<rparr> NoFile))"

lemma demo_window_state:
  "demo_window = \<lparr>pm_store = \<lparr>cs_clients = [], cs_loadedSuccessfully = True\<rparr>, pm_file = NoFile, pm_timer = Some 120000,
     pm_windowOpen = True, pm_code = ''ABCDEFGHIJKLMNOPQRSTUVWX'', pm_salt = [1, 2]\<rparr>"
proof -
  have "isValidCode ''ABCDEFGHIJKLMNOPQRSTUVWX''" by code_simp
  then show ?thesis by (simp add: demo_window_def startWindow_def pairing_new_def)
qed

theorem pairing_attempt_witness:
  "fst (completePairing demo_crypto ''u1'' ''t'' True [5]
      (hmacProof demo_crypto (deriveSecret demo_crypto ''ABCDEFGHIJKLMNOPQRSTUVWX'' [1, 2]) [5]) ''n'' 0 demo_window) = Some ''u1''"
proof -
  have "store_find ''u1'' (pm_store demo_window) = None" by (simp add: demo_window_state store_find_def)
  let ?r = "completePairing demo_crypto ''u1'' ''t'' True [5]
      (hmacProof demo_crypto (deriveSecret demo_crypto ''ABCDEFGHIJKLMNOPQRSTUVWX'' [1, 2]) [5]) ''n'' 0 demo_window"
  from pairing_attempt [OF \<open>store_find _ _ = _\<close> prod.collapse [symmetric, of ?r]]
  show ?thesis by (simp add: demo_window_state)
qed

section \<open>Pairing as a transition system\<close>

datatype pairing_op =
    PairStart string bytes int
  | PairCancel
  | PairComplete string string bool bytes bytes string int

fun pairing_step :: "crypto \<Rightarrow> pairing_op \<Rightarrow> pairing \<Rightarrow> pairing \<times> string list" where
  "pairing_step c (PairStart generated salt secs) m = (snd (startWindow generated salt secs m), [])"
| "pairing_step c PairCancel m = (cancelWindow m, [])"
| "pairing_step c (PairComplete uuid now writes nonce pf name kind) m =
     (case completePairing c uuid now writes nonce pf name kind m of
        (Some i, m') \<Rightarrow> (m', [i]) | (None, m') \<Rightarrow> (m', []))"

text \<open>Generated identifiers are not blank and not in use.\<close>

fun uuid_fresh :: "pairing_op \<Rightarrow> pairing \<Rightarrow> bool" where
  "uuid_fresh (PairComplete uuid now writes nonce pf name kind) m \<longleftrightarrow>
     \<not> trimmed_isEmpty uuid \<and> store_find uuid (pm_store m) = None"
| "uuid_fresh op m \<longleftrightarrow> True"

fun uuids_fresh :: "crypto \<Rightarrow> pairing_op list \<Rightarrow> pairing \<Rightarrow> bool" where
  "uuids_fresh c [] m = True"
| "uuids_fresh c (op # ops) m \<longleftrightarrow> uuid_fresh op m \<and> uuids_fresh c ops (fst (pairing_step c op m))"

definition pairing_inv :: "pairing \<Rightarrow> bool" where
  "pairing_inv m \<longleftrightarrow> clients_ok (cs_clients (pm_store m)) \<and>
     (cs_loadedSuccessfully (pm_store m) \<longrightarrow> store_load (pm_file m) store_new = (True, pm_store m)) \<and>
     (if pm_windowOpen m then isValidCode (pm_code m) \<and> pm_timer m \<noteq> None \<and> cs_loadedSuccessfully (pm_store m)
      else pm_code m = [] \<and> pm_salt m = [] \<and> pm_timer m = None)"

lemma pairing_step_loaded:
  "cs_loadedSuccessfully (pm_store m) \<Longrightarrow> cs_loadedSuccessfully (pm_store (fst (pairing_step c op m)))"
  by (cases op) (auto simp: startWindow_def cancelWindow_def completePairing_def Let_def store_upsert_def
      store_remove_def split: option.splits prod.splits)

lemma pairing_inv_step:
  assumes sha: "\<And>x. length (sha256 c x) = 32" and inv: "pairing_inv m" and fresh: "uuid_fresh op m"
  shows "pairing_inv (fst (pairing_step c op m))"
proof (cases op)
  case (PairStart generated salt secs)
  then show ?thesis using inv by (auto simp: startWindow_def pairing_inv_def)
next
  case PairCancel
  then show ?thesis using inv by (auto simp: cancelWindow_def pairing_inv_def)
next
  case (PairComplete uuid now wr nonce pf name kind)
  let ?n = "new_client c uuid now name kind m"
  let ?cs = "cs_clients (pm_store m) @ [?n]"
  have none: "store_find uuid (pm_store m) = None" and id: "\<not> trimmed_isEmpty uuid" using fresh PairComplete by simp_all
  have "client_ok ?n" using id sha
    by (simp add: client_ok_def new_client_def deriveSecret_def isKnownCredentialGeneration_def)
  then have ok: "clients_ok ?cs" using inv none
    by (auto simp: pairing_inv_def clients_ok_def store_find_none new_client_def)
  then have "load_clients {} (map save_client ?cs) = Some ?cs" by (rule load_save_clients) simp
  then have "store_load (Clients (map save_client ?cs)) store_new = (True, \<lparr>cs_clients = ?cs, cs_loadedSuccessfully = True\<rparr>)"
    by (simp add: store_load_def)
  then show ?thesis using inv ok none PairComplete
    by (cases "pm_store m") (auto simp: completePairing_cases pairing_inv_def cancelWindow_def)
qed

lemma pairing_inv_run:
  assumes "\<And>x. length (sha256 c x) = 32"
  shows "pairing_inv m \<Longrightarrow> uuids_fresh c ops m \<Longrightarrow> pairing_inv (fst (run (pairing_step c) ops m))"
  by (induction ops arbitrary: m) (simp_all add: run_Cons pairing_inv_step [OF assms])

text \<open>
  C27: starting from whatever the client file holds, after any sequence of pairing windows and
  attempts, successful or not, reading the file back gives exactly the clients held in memory,
  so that a restart neither loses nor gains a credential; client identifiers are distinct, every secret
  has 32 bytes, and a code exists exactly while a window is open, when its expiry timer runs.
\<close>

theorem paired_clients_durable:
  assumes "\<forall>x. length (sha256 c x) = 32"
    and "store_load doc store_new = (True, s)"
    and "uuids_fresh c ops (pairing_new s doc)"
    and "run (pairing_step c) ops (pairing_new s doc) = (m, ids)"
  shows "snd (store_load (pm_file m) store_new) = pm_store m \<and>
    distinct (map pc_clientId (cs_clients (pm_store m))) \<and>
    list_all (\<lambda>x. length (pc_secret x) = 32) (cs_clients (pm_store m)) \<and>
    (pm_windowOpen m \<longleftrightarrow> pm_code m \<noteq> []) \<and> (pm_windowOpen m \<longleftrightarrow> pm_timer m \<noteq> None)"
proof -
  have "clients_ok (cs_clients s)" "cs_loadedSuccessfully s"
    using store_load_ok [OF assms(2)] by (simp_all add: store_new_def clients_ok_def)
  then have "pairing_inv (pairing_new s doc)" using assms(2) by (simp add: pairing_inv_def pairing_new_def)
  from pairing_inv_run [OF _ this assms(3)] assms(1,4) have inv: "pairing_inv m" by simp
  have "cs_loadedSuccessfully (pm_store (fst (run (pairing_step c) ops (pairing_new s doc))))"
  proof (rule run_invariant)
    show "cs_loadedSuccessfully (pm_store (pairing_new s doc))"
      using \<open>cs_loadedSuccessfully s\<close> by (simp add: pairing_new_def)
  qed (rule pairing_step_loaded)
  with inv assms(4) show ?thesis
    by (auto simp: pairing_inv_def clients_ok_def client_ok_def list_all_iff isValidCode_def split: if_splits)
qed

definition demo_pairing_ops :: "pairing_op list" where
  "demo_pairing_ops = [PairStart ''ABCDEFGHIJKLMNOPQRSTUVWX'' [1, 2] 120,
     PairComplete ''u1'' ''t'' True [5]
       (hmacProof demo_crypto (deriveSecret demo_crypto ''ABCDEFGHIJKLMNOPQRSTUVWX'' [1, 2]) [5]) ''n'' 0]"

definition demo_paired :: "pairing \<times> string list" where
  "demo_paired = run (pairing_step demo_crypto) demo_pairing_ops
     (pairing_new \<lparr>cs_clients = [], cs_loadedSuccessfully = True\<rparr> NoFile)"

theorem paired_clients_durable_witness:
  "snd (store_load (pm_file (fst demo_paired)) store_new) = pm_store (fst demo_paired)"
proof -
  have sha: "\<forall>x. length (sha256 demo_crypto x) = 32" by (auto simp: demo_crypto_def min_def)
  have load: "store_load NoFile store_new = (True, \<lparr>cs_clients = [], cs_loadedSuccessfully = True\<rparr>)"
    by (simp add: store_load_def)
  have "\<not> trimmed_isEmpty ''u1''" by code_simp
  then have "uuids_fresh demo_crypto demo_pairing_ops (pairing_new \<lparr>cs_clients = [], cs_loadedSuccessfully = True\<rparr> NoFile)"
    using demo_window_state by (simp add: demo_pairing_ops_def demo_window_def store_find_def)
  from paired_clients_durable [OF sha load this, of "fst demo_paired" "snd demo_paired"]
  show ?thesis by (simp add: demo_paired_def)
qed

end
