(* ===== verification/Api_Session.thy ===== *)
theory Api_Session
  imports Api_Auth
begin

text \<open>
  \<open>core/api/ApiSession.cpp\<close>: one connection of the external API, from the client's hello through
  authentication or pairing to the ready state, with subscriptions, the routing of requests
  and the limit on queued output.

  The state of a step is the session together with the pairing manager and client store it
  shares with the server. The transport, the request handler behind \<open>IApiRequestSink\<close>, random
  numbers and protobuf are the parameter \<open>api_env\<close>: the transport may report its own closing in
  the middle of any write, and the request handler may send, close, or open and cancel pairing
  windows. \<open>as_log\<close> records, in order, what the session does to the outside.
\<close>

section \<open>Messages and state\<close>

datatype status_kind = MediaStatus | NavigationStatus | ProjectionStatus | PhoneStatus | SystemStatus

datatype in_payload =
    ClientHello u32 string int string bool
  | AuthResponse bytes
  | PairingResponse bytes
  | SubscribeRequest "int list"
  | UnsubscribeRequest "int list"
  | GetCapabilitiesRequest
  | Ping
  | Status status_kind
  | OtherPayload nat

datatype error_code = InvalidRequest | UnsupportedVersion | PairingWindowClosed | Internal

datatype out_msg =
    ServerHello string
  | AuthRequired bytes
  | PairingChallenge bytes bytes
  | SubscribeResponse "(int \<times> bool) list"
  | Ack
  | CapabilitiesResponse
  | Pong
  | Error error_code string
  | AuthReject string bool
  | SinkResponse nat

datatype sink_action =
    SinkSend u64 out_msg
  | SinkClose u64 error_code string
  | SinkPairStart string bytes int
  | SinkPairCancel

datatype api_state = ExpectHello | AuthPending | PairingPending | Ready | ClosedState

text \<open>
  A capped write carries what was queued when it was made; a terminal write is not capped.
\<close>

datatype api_event =
    AWrite "(u64 \<times> out_msg) option" bytes int
  | ARaw u64 out_msg
  | ASinkRequest u64 in_payload
  | ASinkClosed
  | ATransportClose
  | ATransportAbort
  | ABecameReady
  | ATerminated

record api_session =
  as_state :: api_state
  as_handshakeTimer :: bool
  as_tornDown :: bool
  as_nonce :: bytes
  as_authClientId :: string
  as_helloName :: string
  as_helloKind :: int
  as_clientId :: string
  as_clientName :: string
  as_subscriptions :: "int set"
  as_log :: "api_event list"

type_synonym api = "api_session \<times> pairing"

record api_env =
  ae_crypto :: crypto
  ae_trusted :: bool
  ae_parse :: "bytes \<Rightarrow> (u64 \<times> in_payload) option"
  ae_serialize :: "u64 \<Rightarrow> out_msg \<Rightarrow> bytes"
  ae_bytesToWrite :: "api_session \<Rightarrow> int"
  ae_closes :: "api_session \<Rightarrow> bool"
  ae_maxQueueBytes :: int
  ae_random :: "api \<Rightarrow> bytes"
  ae_uuid :: "pairing \<Rightarrow> string"
  ae_now :: "pairing \<Rightarrow> string"
  ae_saves :: "pairing \<Rightarrow> bool"
  ae_snapshotFor :: "int \<Rightarrow> bytes"
  ae_requests :: "(api \<Rightarrow> u64 \<Rightarrow> in_payload \<Rightarrow> sink_action list) option"

definition api_new :: api_session where
  "api_new = \<lparr>as_state = ExpectHello, as_handshakeTimer = True, as_tornDown = False, as_nonce = [],
     as_authClientId = [], as_helloName = [], as_helloKind = 0, as_clientId = [], as_clientName = [],
     as_subscriptions = {}, as_log = []\<rparr>"

definition alog :: "api_event \<Rightarrow> api_session \<Rightarrow> api_session" where
  "alog e s = s\<lparr>as_log := as_log s @ [e]\<rparr>"

text \<open>The wire values of the topics.\<close>

definition topicForPayload :: "in_payload \<Rightarrow> int" where
  "topicForPayload p = (case p of
     Status MediaStatus \<Rightarrow> 1 | Status NavigationStatus \<Rightarrow> 2 | Status ProjectionStatus \<Rightarrow> 3
   | Status PhoneStatus \<Rightarrow> 4 | Status SystemStatus \<Rightarrow> 5 | _ \<Rightarrow> 0)"

definition subscribedTo :: "int \<Rightarrow> api_session \<Rightarrow> bool" where
  "subscribedTo t s \<longleftrightarrow> t \<in> as_subscriptions s"

section \<open>Teardown and writes\<close>

datatype close_mode = Graceful | Discard

definition teardown :: "api_env \<Rightarrow> close_mode \<Rightarrow> api_session \<Rightarrow> api_session" where
  "teardown env mode s = (if as_tornDown s then s
     else let s = s\<lparr>as_tornDown := True, as_state := ClosedState, as_handshakeTimer := False\<rparr>;
              s = (if ae_requests env = None then s else alog ASinkClosed s);
              s = alog (case mode of Discard \<Rightarrow> ATransportAbort | Graceful \<Rightarrow> ATransportClose) s
          in alog ATerminated s)"

text \<open>The transport's own \<open>closed\<close> signal, when it comes within a call.\<close>

definition onTransportClosed :: "api_env \<Rightarrow> api_session \<Rightarrow> api_session" where
  "onTransportClosed env s = teardown env Graceful s"

definition transport_send :: "api_env \<Rightarrow> api_event \<Rightarrow> api_session \<Rightarrow> api_session" where
  "transport_send env e s = (let s = alog e s in if ae_closes env s then onTransportClosed env s else s)"

definition writeOrTeardown :: "api_env \<Rightarrow> (u64 \<times> out_msg) option \<Rightarrow> bytes \<Rightarrow> api_session \<Rightarrow> api_session" where
  "writeOrTeardown env m bs s = (if as_tornDown s then s
     else if ae_bytesToWrite env s + int (length bs) > ae_maxQueueBytes env then teardown env Discard s
     else transport_send env (AWrite m bs (ae_bytesToWrite env s)) s)"

definition api_sendMessage :: "api_env \<Rightarrow> u64 \<Rightarrow> out_msg \<Rightarrow> api_session \<Rightarrow> api_session" where
  "api_sendMessage env requestId msg s = writeOrTeardown env (Some (requestId, msg)) (ae_serialize env requestId msg) s"

definition sendRaw :: "api_env \<Rightarrow> u64 \<Rightarrow> out_msg \<Rightarrow> api_session \<Rightarrow> api_session" where
  "sendRaw env requestId msg s = (if as_tornDown s then s else transport_send env (ARaw requestId msg) s)"

definition closeWithError :: "api_env \<Rightarrow> u64 \<Rightarrow> error_code \<Rightarrow> string \<Rightarrow> api_session \<Rightarrow> api_session" where
  "closeWithError env requestId code txt s = teardown env Graceful (sendRaw env requestId (Error code txt) s)"

definition sendAuthReject :: "api_env \<Rightarrow> u64 \<Rightarrow> string \<Rightarrow> bool \<Rightarrow> api_session \<Rightarrow> api_session" where
  "sendAuthReject env requestId reason upgradeRequired s =
     teardown env Graceful (sendRaw env requestId (AuthReject reason upgradeRequired) s)"

section \<open>Handshake\<close>

definition goReady :: "api_env \<Rightarrow> u64 \<Rightarrow> string \<Rightarrow> api_session \<Rightarrow> api_session" where
  "goReady env requestId grantedClientId s = (
     let s = api_sendMessage env requestId (ServerHello grantedClientId)
               (s\<lparr>as_state := Ready, as_handshakeTimer := False\<rparr>)
     in if as_state s = Ready then alog ABecameReady s else s)"

text \<open>The challenge, and the state that waits for its answer unless the write ended the session.\<close>

definition challenge :: "api_env \<Rightarrow> u64 \<Rightarrow> out_msg \<Rightarrow> api_state \<Rightarrow> api_session \<Rightarrow> api_session" where
  "challenge env requestId msg pending s = (let s = api_sendMessage env requestId msg s in
     if as_state s = ExpectHello then s\<lparr>as_state := pending, as_handshakeTimer := True\<rparr> else s)"

definition handleExpectHello :: "api_env \<Rightarrow> u64 \<Rightarrow> in_payload \<Rightarrow> api \<Rightarrow> api" where
  "handleExpectHello env requestId p = (\<lambda>(s, pm). case p of
     ClientHello major name kind clientId pairingRequest \<Rightarrow>
       if major \<noteq> 1 then (closeWithError env requestId UnsupportedVersion ''unsupported api version'' s, pm)
       else
         let s = s\<lparr>as_helloName := name, as_helloKind := kind\<rparr> in
         if ae_trusted env then
           (goReady env requestId [] (s\<lparr>as_clientId := [], as_clientName := name\<rparr>), pm)
         else if clientId \<noteq> [] then
           (case store_find clientId (pm_store pm) of
              None \<Rightarrow> (sendAuthReject env requestId ''unknown client'' False s, pm)
            | Some client \<Rightarrow>
                if pc_credentialGeneration client < kSecureCodeCredentialGeneration
                then (sendAuthReject env requestId ''credential upgrade required'' True s, pm)
                else let nonce = ae_random env (s, pm)
                  in (challenge env requestId (AuthRequired nonce) AuthPending
                        (s\<lparr>as_authClientId := clientId, as_nonce := nonce\<rparr>), pm))
         else if pairingRequest then
           (if \<not> pm_windowOpen pm
            then (closeWithError env requestId PairingWindowClosed ''Pairing window closed'' s, pm)
            else let nonce = ae_random env (s, pm)
              in (challenge env requestId (PairingChallenge nonce (pm_salt pm)) PairingPending
                    (s\<lparr>as_nonce := nonce\<rparr>), pm))
         else (sendAuthReject env requestId ''authentication required'' False s, pm)
   | _ \<Rightarrow> (closeWithError env 0 InvalidRequest ''expected client_hello'' s, pm))"

definition handleAuthPending :: "api_env \<Rightarrow> u64 \<Rightarrow> in_payload \<Rightarrow> api \<Rightarrow> api" where
  "handleAuthPending env requestId p = (\<lambda>(s, pm). case p of
     AuthResponse proof \<Rightarrow>
       (case store_find (as_authClientId s) (pm_store pm) of
          None \<Rightarrow> (sendAuthReject env requestId ''unknown client'' False s, pm)
        | Some client \<Rightarrow>
            if pc_credentialGeneration client < kSecureCodeCredentialGeneration
            then (sendAuthReject env requestId ''credential upgrade required'' True s, pm)
            else if constantTimeEquals (hmacProof (ae_crypto env) (pc_secret client) (as_nonce s)) proof
            then (goReady env requestId [] (s\<lparr>as_clientId := as_authClientId s, as_clientName := pc_name client\<rparr>), pm)
            else (sendAuthReject env requestId ''authentication failed'' False s, pm))
   | _ \<Rightarrow> (closeWithError env 0 InvalidRequest ''expected auth_response'' s, pm))"

definition handlePairingPending :: "api_env \<Rightarrow> u64 \<Rightarrow> in_payload \<Rightarrow> api \<Rightarrow> api" where
  "handlePairingPending env requestId p = (\<lambda>(s, pm). case p of
     PairingResponse proof \<Rightarrow>
       (case completePairing (ae_crypto env) (ae_uuid env pm) (ae_now env pm) (ae_saves env pm)
               (as_nonce s) proof (as_helloName s) (as_helloKind s) pm of
          (Some granted, pm) \<Rightarrow>
            (goReady env requestId granted (s\<lparr>as_clientId := granted, as_clientName := as_helloName s\<rparr>), pm)
        | (None, pm) \<Rightarrow> (sendAuthReject env requestId ''pairing failed'' False s, pm))
   | _ \<Rightarrow> (closeWithError env 0 InvalidRequest ''expected pairing_response'' s, pm))"

section \<open>Requests of a ready session\<close>

fun subscribe_topics :: "api_env \<Rightarrow> int list \<Rightarrow> api_session \<Rightarrow> api_session \<times> (int \<times> bool) list \<times> bytes list" where
  "subscribe_topics env [] s = (s, [], [])"
| "subscribe_topics env (t # ts) s = (
     let snap = ae_snapshotFor env t; accepted = (snap \<noteq> []);
         s = (if accepted then s\<lparr>as_subscriptions := insert t (as_subscriptions s)\<rparr> else s);
         (s, results, snaps) = subscribe_topics env ts s
     in (s, (t, accepted) # results, if accepted then snap # snaps else snaps))"

fun write_snapshots :: "api_env \<Rightarrow> bytes list \<Rightarrow> api_session \<Rightarrow> api_session" where
  "write_snapshots env [] s = s"
| "write_snapshots env (b # bs) s = (if as_tornDown s then s
     else write_snapshots env bs (writeOrTeardown env None b s))"

definition handleSubscribe :: "api_env \<Rightarrow> u64 \<Rightarrow> int list \<Rightarrow> api_session \<Rightarrow> api_session" where
  "handleSubscribe env requestId topics s = (
     let (s, results, snaps) = subscribe_topics env topics s
     in write_snapshots env snaps (api_sendMessage env requestId (SubscribeResponse results) s))"

definition handleUnsubscribe :: "api_env \<Rightarrow> u64 \<Rightarrow> int list \<Rightarrow> api_session \<Rightarrow> api_session" where
  "handleUnsubscribe env requestId topics s =
     api_sendMessage env requestId Ack (s\<lparr>as_subscriptions := as_subscriptions s - set topics\<rparr>)"

fun sink_act :: "api_env \<Rightarrow> sink_action \<Rightarrow> api \<Rightarrow> api" where
  "sink_act env (SinkSend rid msg) (s, pm) = (api_sendMessage env rid msg s, pm)"
| "sink_act env (SinkClose rid code txt) (s, pm) = (closeWithError env rid code txt s, pm)"
| "sink_act env (SinkPairStart code salt secs) (s, pm) = (s, snd (startWindow code salt secs pm))"
| "sink_act env SinkPairCancel (s, pm) = (s, cancelWindow pm)"

definition forwardToSink :: "api_env \<Rightarrow> u64 \<Rightarrow> in_payload \<Rightarrow> api \<Rightarrow> api" where
  "forwardToSink env requestId p = (\<lambda>(s, pm). case ae_requests env of
     None \<Rightarrow> (closeWithError env requestId Internal ''no handler'' s, pm)
   | Some sink \<Rightarrow> fold (sink_act env) (sink (s, pm) requestId p) (alog (ASinkRequest requestId p) s, pm))"

definition handleReady :: "api_env \<Rightarrow> u64 \<Rightarrow> in_payload \<Rightarrow> api \<Rightarrow> api" where
  "handleReady env requestId p = (\<lambda>(s, pm). case p of
     SubscribeRequest topics \<Rightarrow> (handleSubscribe env requestId topics s, pm)
   | UnsubscribeRequest topics \<Rightarrow> (handleUnsubscribe env requestId topics s, pm)
   | GetCapabilitiesRequest \<Rightarrow> (api_sendMessage env requestId CapabilitiesResponse s, pm)
   | Ping \<Rightarrow> (api_sendMessage env requestId Pong s, pm)
   | _ \<Rightarrow> forwardToSink env requestId p (s, pm))"

section \<open>Entry points\<close>

definition onMessageReceived :: "api_env \<Rightarrow> bytes \<Rightarrow> api \<Rightarrow> api" where
  "onMessageReceived env serialized = (\<lambda>(s, pm).
     if as_state s = ClosedState then (s, pm)
     else case ae_parse env serialized of
       None \<Rightarrow> (closeWithError env 0 InvalidRequest ''parse failure'' s, pm)
     | Some (requestId, p) \<Rightarrow> (case as_state s of
         ExpectHello \<Rightarrow> handleExpectHello env requestId p (s, pm)
       | AuthPending \<Rightarrow> handleAuthPending env requestId p (s, pm)
       | PairingPending \<Rightarrow> handlePairingPending env requestId p (s, pm)
       | Ready \<Rightarrow> handleReady env requestId p (s, pm)
       | ClosedState \<Rightarrow> (s, pm)))"

definition onHandshakeTimeout :: "api_env \<Rightarrow> api_session \<Rightarrow> api_session" where
  "onHandshakeTimeout env s = closeWithError env 0 InvalidRequest ''handshake timeout'' s"

definition deliver :: "api_env \<Rightarrow> bytes \<Rightarrow> api_session \<Rightarrow> api_session" where
  "deliver env envelopeBytes s = (if as_state s \<noteq> Ready then s
     else case ae_parse env envelopeBytes of
       None \<Rightarrow> s
     | Some (requestId, p) \<Rightarrow>
         (let t = topicForPayload p in
          if t = 0 \<or> \<not> subscribedTo t s then s else writeOrTeardown env None envelopeBytes s))"

datatype api_op =
    ApiReceive bytes
  | ApiTransportClosed
  | ApiTimeout
  | ApiDeliver bytes
  | ApiPairing pairing_op

text \<open>The handshake timer fires only while it runs. Other sessions and the user also pair.\<close>

fun api_step :: "api_env \<Rightarrow> api_op \<Rightarrow> api \<Rightarrow> api" where
  "api_step env (ApiReceive bs) (s, pm) = onMessageReceived env bs (s, pm)"
| "api_step env ApiTransportClosed (s, pm) = (onTransportClosed env s, pm)"
| "api_step env ApiTimeout (s, pm) = (if as_handshakeTimer s then (onHandshakeTimeout env s, pm) else (s, pm))"
| "api_step env (ApiDeliver bs) (s, pm) = (deliver env bs s, pm)"
| "api_step env (ApiPairing op) (s, pm) = (s, fst (pairing_step (ae_crypto env) op pm))"

definition api_run :: "api_env \<Rightarrow> api_op list \<Rightarrow> api \<Rightarrow> api" where
  "api_run env ops x = fold (api_step env) ops x"

section \<open>Invariant\<close>

definition event_ok :: "api_env \<Rightarrow> api_event \<Rightarrow> bool" where
  "event_ok env e \<longleftrightarrow> (case e of AWrite m bs q \<Rightarrow> q + int (length bs) \<le> ae_maxQueueBytes env | _ \<Rightarrow> True)"

definition challenged :: "api_session \<Rightarrow> bool" where
  "challenged s \<longleftrightarrow>
     (as_state s = AuthPending \<longrightarrow> (\<exists>rid bs q. AWrite (Some (rid, AuthRequired (as_nonce s))) bs q \<in> set (as_log s))) \<and>
     (as_state s = PairingPending \<longrightarrow>
        (\<exists>rid salt bs q. AWrite (Some (rid, PairingChallenge (as_nonce s) salt)) bs q \<in> set (as_log s)))"

definition ended_once :: "api_session \<Rightarrow> bool" where
  "ended_once s \<longleftrightarrow> (if as_tornDown s then (\<exists>l. as_log s = l @ [ATerminated] \<and> ATerminated \<notin> set l)
     else ATerminated \<notin> set (as_log s))"

definition api_inv :: "api_env \<Rightarrow> api_session \<Rightarrow> bool" where
  "api_inv env s \<longleftrightarrow> (as_tornDown s \<longleftrightarrow> as_state s = ClosedState) \<and> ended_once s \<and> challenged s \<and>
     list_all (event_ok env) (as_log s) \<and>
     (as_handshakeTimer s \<longleftrightarrow> as_state s = ExpectHello \<or> as_state s = AuthPending \<or> as_state s = PairingPending)"

lemma alog_simps [simp]:
  "as_state (alog e s) = as_state s" "as_tornDown (alog e s) = as_tornDown s" "as_log (alog e s) = as_log s @ [e]"
  "as_nonce (alog e s) = as_nonce s" "as_authClientId (alog e s) = as_authClientId s" "as_handshakeTimer (alog e s) = as_handshakeTimer s"
  by (simp_all add: alog_def)

lemma alog_inv:
  assumes "api_inv env s" "\<not> as_tornDown s" "e \<noteq> ATerminated" "event_ok env e"
  shows "api_inv env (alog e s)"
  using assms by (auto simp: api_inv_def ended_once_def challenged_def)

lemma teardown_inv:
  assumes "api_inv env s"
  shows "api_inv env (teardown env mode s) \<and> as_state (teardown env mode s) = ClosedState"
  using assms
  by (cases mode) (auto simp: teardown_def Let_def api_inv_def ended_once_def challenged_def event_ok_def)

lemma transport_send_inv:
  assumes "api_inv env s" "\<not> as_tornDown s" "e \<noteq> ATerminated" "event_ok env e"
  shows "api_inv env (transport_send env e s) \<and>
    (as_state (transport_send env e s) = ClosedState \<or> transport_send env e s = alog e s)"
  using alog_inv [OF assms] teardown_inv [of env "alog e s"]
  by (simp add: transport_send_def Let_def onTransportClosed_def)

lemma writeOrTeardown_inv:
  assumes "api_inv env s"
  shows "api_inv env (writeOrTeardown env m bs s) \<and> (as_state (writeOrTeardown env m bs s) = ClosedState \<or>
    (\<exists>q. writeOrTeardown env m bs s = alog (AWrite m bs q) s))"
proof (cases "as_tornDown s \<or> ae_bytesToWrite env s + int (length bs) > ae_maxQueueBytes env")
  case True
  then show ?thesis using assms teardown_inv [OF assms] by (auto simp: writeOrTeardown_def api_inv_def)
next
  case False
  then show ?thesis
    using transport_send_inv [OF assms, of "AWrite m bs (ae_bytesToWrite env s)"]
    by (auto simp: writeOrTeardown_def event_ok_def)
qed

lemma api_sendMessage_inv:
  assumes "api_inv env s"
  shows "api_inv env (api_sendMessage env rid msg s) \<and> (as_state (api_sendMessage env rid msg s) = ClosedState \<or>
    (\<exists>bs q. api_sendMessage env rid msg s = alog (AWrite (Some (rid, msg)) bs q) s))"
  using writeOrTeardown_inv [OF assms] unfolding api_sendMessage_def by blast

lemma sendRaw_inv: "api_inv env s \<Longrightarrow> api_inv env (sendRaw env rid msg s)"
  using transport_send_inv [of env s "ARaw rid msg"] by (simp add: sendRaw_def event_ok_def)

lemma close_inv:
  assumes "api_inv env s"
  shows "api_inv env (closeWithError env rid code txt s) \<and> as_state (closeWithError env rid code txt s) = ClosedState"
    and "api_inv env (sendAuthReject env rid txt up s) \<and> as_state (sendAuthReject env rid txt up s) = ClosedState"
  using teardown_inv [OF sendRaw_inv [OF assms]] by (simp_all add: closeWithError_def sendAuthReject_def)

lemma goReady_inv:
  assumes "api_inv env s" "\<not> as_tornDown s"
  shows "api_inv env (goReady env rid granted s)"
proof -
  let ?s = "s\<lparr>as_state := Ready, as_handshakeTimer := False\<rparr>"
  have inv: "api_inv env ?s" using assms by (auto simp: api_inv_def ended_once_def challenged_def)
  note w = api_sendMessage_inv [OF inv, of rid "ServerHello granted"]
  show ?thesis
    using w alog_inv [of env "api_sendMessage env rid (ServerHello granted) ?s" ABecameReady]
    by (auto simp: goReady_def Let_def event_ok_def api_inv_def [of env "api_sendMessage _ _ _ _"])
qed

lemma challenge_inv:
  assumes inv: "api_inv env s" and st: "as_state s = ExpectHello"
    and pend: "pending = AuthPending \<and> msg = AuthRequired (as_nonce s) \<or>
      pending = PairingPending \<and> (\<exists>salt. msg = PairingChallenge (as_nonce s) salt)"
  shows "api_inv env (challenge env rid msg pending s) \<and> as_state (challenge env rid msg pending s) \<noteq> Ready"
proof -
  from api_sendMessage_inv [OF inv, of rid msg]
  consider "as_state (api_sendMessage env rid msg s) = ClosedState" "api_inv env (api_sendMessage env rid msg s)"
    | bs q where "api_sendMessage env rid msg s = alog (AWrite (Some (rid, msg)) bs q) s"
      "api_inv env (alog (AWrite (Some (rid, msg)) bs q) s)" by auto
  then show ?thesis
  proof cases
    case 1
    then show ?thesis by (simp add: challenge_def)
  next
    case 2
    then show ?thesis using st pend
      by (auto simp: challenge_def Let_def api_inv_def ended_once_def challenged_def alog_def)
  qed
qed

lemma api_inv_hello:
  "api_inv env s \<Longrightarrow> as_state s = ExpectHello \<Longrightarrow> api_inv env (s\<lparr>as_helloName := n, as_helloKind := k,
     as_clientId := c, as_clientName := cn, as_authClientId := ac, as_nonce := no\<rparr>)"
  by (simp add: api_inv_def ended_once_def challenged_def)

lemma api_inv_names: "api_inv env (s\<lparr>as_clientId := c, as_clientName := n\<rparr>) = api_inv env s"
  by (simp add: api_inv_def ended_once_def challenged_def)

text \<open>What leads to the ready state.\<close>

definition authenticated :: "api_env \<Rightarrow> in_payload \<Rightarrow> api \<Rightarrow> bool" where
  "authenticated env p = (\<lambda>(s, pm).
     (as_state s = ExpectHello \<and> ae_trusted env) \<or>
     (\<exists>proof client rid bs q. as_state s = AuthPending \<and> p = AuthResponse proof \<and>
        store_find (as_authClientId s) (pm_store pm) = Some client \<and>
        pc_credentialGeneration client \<ge> kSecureCodeCredentialGeneration \<and>
        AWrite (Some (rid, AuthRequired (as_nonce s))) bs q \<in> set (as_log s) \<and>
        proof = hmacProof (ae_crypto env) (pc_secret client) (as_nonce s)) \<or>
     (\<exists>proof rid salt bs q. as_state s = PairingPending \<and> p = PairingResponse proof \<and> pm_windowOpen pm \<and>
        AWrite (Some (rid, PairingChallenge (as_nonce s) salt)) bs q \<in> set (as_log s) \<and>
        proof = hmacProof (ae_crypto env) (deriveSecret (ae_crypto env) (pm_code pm) (pm_salt pm)) (as_nonce s)))"

lemma handleExpectHello_inv:
  assumes inv: "api_inv env s" and st: "as_state s = ExpectHello"
    and r: "handleExpectHello env rid p (s, pm) = (s', pm')"
  shows "api_inv env s' \<and> (as_state s' = Ready \<longrightarrow> authenticated env p (s, pm))"
proof (cases p)
  case (ClientHello major name kind clientId pairingRequest)
  let ?s = "s\<lparr>as_helloName := name, as_helloKind := kind\<rparr>"
  have i1: "api_inv env ?s" using api_inv_hello [OF inv st, where n = name and k = kind and c = "as_clientId s" and cn = "as_clientName s" and ac = "as_authClientId s" and no = "as_nonce s"] by simp
  have nt: "\<not> as_tornDown s" using inv st by (simp add: api_inv_def)
  have i2: "api_inv env (?s\<lparr>as_authClientId := a, as_nonce := n\<rparr>)" for a n
    using api_inv_hello [OF i1, where n = name and k = kind and c = "as_clientId s" and cn = "as_clientName s" and ac = a and no = n] st by simp
  have i3: "api_inv env (?s\<lparr>as_nonce := n\<rparr>)" for n
    using i2 [where a = "as_authClientId s" and n = n] by simp
  have ready: "api_inv env (goReady env rid [] (?s\<lparr>as_clientId := [], as_clientName := name\<rparr>))"
    using goReady_inv [of env "?s\<lparr>as_clientId := [], as_clientName := name\<rparr>"] i1 nt api_inv_names by simp
  have auth: "api_inv env (challenge env rid (AuthRequired n) AuthPending (?s\<lparr>as_authClientId := a, as_nonce := n\<rparr>)) \<and>
      as_state (challenge env rid (AuthRequired n) AuthPending (?s\<lparr>as_authClientId := a, as_nonce := n\<rparr>)) \<noteq> Ready" for a n
    using challenge_inv [OF i2] st by simp
  have pair: "api_inv env (challenge env rid (PairingChallenge n sa) PairingPending (?s\<lparr>as_nonce := n\<rparr>)) \<and>
      as_state (challenge env rid (PairingChallenge n sa) PairingPending (?s\<lparr>as_nonce := n\<rparr>)) \<noteq> Ready" for n sa
    using challenge_inv [OF i3] st by simp
  show ?thesis
    using r close_inv [OF inv] close_inv [OF i1] ready auth pair st
    by (auto simp: handleExpectHello_def ClientHello Let_def authenticated_def split: if_splits option.splits)
qed (use r close_inv [OF inv] in \<open>auto simp: handleExpectHello_def\<close>)

lemma handleAuthPending_inv:
  assumes inv: "api_inv env s" and st: "as_state s = AuthPending"
    and r: "handleAuthPending env rid p (s, pm) = (s', pm')"
  shows "api_inv env s' \<and> (as_state s' = Ready \<longrightarrow> authenticated env p (s, pm))"
proof -
  have nt: "\<not> as_tornDown s" using inv st by (simp add: api_inv_def)
  have ch: "\<exists>rid bs q. AWrite (Some (rid, AuthRequired (as_nonce s))) bs q \<in> set (as_log s)"
    using inv st by (simp add: api_inv_def challenged_def)
  have ready: "api_inv env (goReady env rid [] (s\<lparr>as_clientId := a, as_clientName := b\<rparr>))" for a b
    using goReady_inv [of env "s\<lparr>as_clientId := a, as_clientName := b\<rparr>"] inv nt api_inv_names by simp
  show ?thesis
    using r close_inv [OF inv] ready ch st
    by (auto simp: handleAuthPending_def authenticated_def constantTimeEquals_eq split: in_payload.splits if_splits option.splits)
qed

lemma completePairing_some:
  "completePairing c uuid now saves nonce pf name kind pm = (Some g, pm') \<Longrightarrow>
     pm_windowOpen pm \<and> pf = hmacProof c (deriveSecret c (pm_code pm) (pm_salt pm)) nonce"
  by (auto simp: completePairing_def constantTimeEquals_eq Let_def split: if_splits prod.splits)

lemma handlePairingPending_inv:
  assumes inv: "api_inv env s" and st: "as_state s = PairingPending"
    and r: "handlePairingPending env rid p (s, pm) = (s', pm')"
  shows "api_inv env s' \<and> (as_state s' = Ready \<longrightarrow> authenticated env p (s, pm))"
proof -
  have nt: "\<not> as_tornDown s" using inv st by (simp add: api_inv_def)
  have ch: "\<exists>rid salt bs q. AWrite (Some (rid, PairingChallenge (as_nonce s) salt)) bs q \<in> set (as_log s)"
    using inv st by (simp add: api_inv_def challenged_def)
  have ready: "api_inv env (goReady env rid g (s\<lparr>as_clientId := a, as_clientName := b\<rparr>))" for a b g
    using goReady_inv [of env "s\<lparr>as_clientId := a, as_clientName := b\<rparr>"] inv nt api_inv_names by simp
  show ?thesis
  proof (cases "\<exists>proof. p = PairingResponse proof")
    case True
    then obtain pf where p: "p = PairingResponse pf" ..
    show ?thesis
      using r close_inv [OF inv] ready ch st
      by (auto simp: handlePairingPending_def p authenticated_def dest!: completePairing_some
          split: prod.splits option.splits)
  next
    case False
    then show ?thesis using r close_inv [OF inv]
      by (auto simp: handlePairingPending_def split: in_payload.splits)
  qed
qed

text \<open>A ready session stays ready or closes.\<close>

definition live :: "api_env \<Rightarrow> api_session \<Rightarrow> bool" where
  "live env s \<longleftrightarrow> api_inv env s \<and> (as_state s = Ready \<or> as_state s = ClosedState)"

lemma live_subscriptions: "live env (s\<lparr>as_subscriptions := x\<rparr>) = live env s"
  by (simp add: live_def api_inv_def ended_once_def challenged_def)

lemma live_write: "live env s \<Longrightarrow> live env (writeOrTeardown env m bs s)"
  using writeOrTeardown_inv [of env s m bs] by (auto simp: live_def)

lemma live_send: "live env s \<Longrightarrow> live env (api_sendMessage env rid msg s)"
  by (simp add: api_sendMessage_def live_write)

lemma live_close: "live env s \<Longrightarrow> live env (closeWithError env rid code txt s)"
  using close_inv(1) [of env s] by (auto simp: live_def)

lemma live_subscribe_topics: "live env s \<Longrightarrow> live env (fst (subscribe_topics env ts s))"
proof (induction ts arbitrary: s)
  case (Cons t ts)
  let ?s = "if ae_snapshotFor env t \<noteq> [] then s\<lparr>as_subscriptions := insert t (as_subscriptions s)\<rparr> else s"
  have "live env ?s" using Cons.prems by (simp add: live_subscriptions)
  from Cons.IH [OF this] show ?case
    by (cases "ae_snapshotFor env t = []") (auto simp: Let_def split: prod.splits)
qed simp

lemma live_write_snapshots: "live env s \<Longrightarrow> live env (write_snapshots env bs s)"
  by (induction bs arbitrary: s) (simp_all add: live_write)

lemma live_sink_act: "live env (fst x) \<Longrightarrow> live env (fst (sink_act env a x))"
  by (cases x; cases a) (simp_all add: live_send live_close)

lemma live_sink: "live env (fst x) \<Longrightarrow> live env (fst (fold (sink_act env) as x))"
  by (induction as arbitrary: x) (simp_all add: live_sink_act)

lemma live_handleReady:
  assumes "live env s" "as_state s = Ready"
  shows "live env (fst (handleReady env rid p (s, pm)))"
proof -
  have "\<not> as_tornDown s" using assms by (simp add: live_def api_inv_def)
  then have req: "live env (alog (ASinkRequest rid p) s)"
    using assms alog_inv [of env s "ASinkRequest rid p"] by (auto simp: live_def event_ok_def)
  have sub: "live env (handleSubscribe env rid ts s)" for ts
    using live_subscribe_topics [OF assms(1), of ts]
    by (auto simp: handleSubscribe_def Let_def split: prod.splits intro!: live_write_snapshots live_send)
  show ?thesis
    using sub live_sink [of env "(alog (ASinkRequest rid p) s, pm)"] req live_send live_close assms(1)
    by (cases p) (simp_all add: handleReady_def handleUnsubscribe_def forwardToSink_def live_subscriptions split: option.splits)
qed

lemma api_step_ok:
  assumes inv: "api_inv env s" and r: "api_step env op (s, pm) = (s', pm')"
  shows "api_inv env s' \<and> (as_state s = ClosedState \<longrightarrow> s' = s) \<and>
    (as_state s' = Ready \<and> as_state s \<noteq> Ready \<longrightarrow>
       (\<exists>bs rid p. op = ApiReceive bs \<and> ae_parse env bs = Some (rid, p) \<and> authenticated env p (s, pm)))"
proof (cases op)
  case (ApiReceive bs)
  show ?thesis
  proof (cases "ae_parse env bs")
    case None
    then show ?thesis using r inv close_inv(1) [OF inv, of 0 InvalidRequest "''parse failure''"] ApiReceive
      by (auto simp: onMessageReceived_def split: if_splits)
  next
    case (Some x)
    then obtain rid p where x: "ae_parse env bs = Some (rid, p)" by (cases x) auto
    have live: "api_inv env (fst (handleReady env rid p (s, pm)))" if "as_state s = Ready"
      using live_handleReady [of env s rid p pm] that inv by (simp add: live_def)
    show ?thesis
      using r ApiReceive x inv live handleExpectHello_inv [OF inv, of rid p pm s' pm']
        handleAuthPending_inv [OF inv, of rid p pm s' pm'] handlePairingPending_inv [OF inv, of rid p pm s' pm']
      by (cases "as_state s") (auto simp: onMessageReceived_def)
  qed
next
  case ApiTransportClosed
  then show ?thesis using r teardown_inv [OF inv, of Graceful] inv
    by (auto simp: onTransportClosed_def teardown_def api_inv_def)
next
  case ApiTimeout
  then show ?thesis using r inv close_inv(1) [OF inv, of 0 InvalidRequest "''handshake timeout''"]
    by (auto simp: onHandshakeTimeout_def api_inv_def split: if_splits)
next
  case (ApiDeliver bs)
  then show ?thesis using r inv writeOrTeardown_inv [OF inv, of None bs]
    by (auto simp: deliver_def Let_def split: if_splits option.splits)
next
  case (ApiPairing op)
  then show ?thesis using r inv by auto
qed

lemma api_inv_new: "api_inv env api_new"
  by (simp add: api_inv_def api_new_def ended_once_def challenged_def)

lemma api_run_inv: "api_inv env (fst x) \<Longrightarrow> api_inv env (fst (api_run env ops x))"
  unfolding api_run_def
proof (induction ops arbitrary: x)
  case (Cons op ops)
  obtain s pm s' pm' where x: "x = (s, pm)" and r: "api_step env op (s, pm) = (s', pm')" by (metis surj_pair)
  have "api_inv env (fst (fold (api_step env) ops (s', pm')))"
    using api_step_ok [OF _ r] Cons.prems x by (intro Cons.IH) simp
  then show ?case by (simp add: x r)
qed simp

text \<open>
  C28: a session of the external API becomes ready only by a message received on it, and only
  when the peer is trusted, or the session had sent a challenge and the message answers it with
  the HMAC, under the stored secret of a paired client of the current credential generation,
  of exactly the challenge the session issued, or with the HMAC under the secret of the open
  pairing window.
\<close>

theorem api_ready_only_authenticated:
  assumes "api_run env ops (api_new, pm0) = (s, pm)"
    and "as_state s \<noteq> Ready"
    and "as_state (fst (api_step env op (s, pm))) = Ready"
  shows "\<exists>bs rid p. op = ApiReceive bs \<and> ae_parse env bs = Some (rid, p) \<and> authenticated env p (s, pm)"
proof -
  have inv: "api_inv env s" using api_run_inv [of env "(api_new, pm0)" ops] api_inv_new assms(1) by simp
  obtain s' pm' where r: "api_step env op (s, pm) = (s', pm')" by fastforce
  with api_step_ok [OF inv r] assms(2,3) show ?thesis by simp
qed

text \<open>
  C29: in every run a session ends at most once: it is closed exactly when it has announced its
  termination, which is then the last thing it did; a closed session neither writes nor
  changes again. Every write other than a terminal error kept the queue within its limit, and
  the handshake timer runs exactly until the session is ready or closed.
\<close>

theorem api_session_ends_once:
  assumes "api_run env ops (api_new, pm0) = (s, pm)"
  shows "(as_state s = ClosedState \<longleftrightarrow> ATerminated \<in> set (as_log s)) \<and>
    count_list (as_log s) ATerminated \<le> 1 \<and>
    (as_state s = ClosedState \<longrightarrow> last (as_log s) = ATerminated \<and> (\<forall>op. fst (api_step env op (s, pm)) = s)) \<and>
    (\<forall>m bs q. AWrite m bs q \<in> set (as_log s) \<longrightarrow> q + int (length bs) \<le> ae_maxQueueBytes env) \<and>
    (as_handshakeTimer s \<longleftrightarrow> as_state s \<noteq> Ready \<and> as_state s \<noteq> ClosedState)"
proof -
  have inv: "api_inv env s" using api_run_inv [of env "(api_new, pm0)" ops] api_inv_new assms(1) by simp
  then have e: "ended_once s" "as_tornDown s \<longleftrightarrow> as_state s = ClosedState" by (simp_all add: api_inv_def)
  have c0: "count_list l ATerminated = 0" if "ATerminated \<notin> set l" for l
    using that by (simp add: count_list_0_iff)
  have "q + int (length bs) \<le> ae_maxQueueBytes env" if "AWrite m bs q \<in> set (as_log s)" for m bs q
    using inv that by (fastforce simp: api_inv_def list_all_iff event_ok_def)
  moreover have "fst (api_step env op (s, pm)) = s" if "as_state s = ClosedState" for op
    using api_step_ok [OF inv, of op pm] that by (metis fst_conv surj_pair)
  moreover have "as_handshakeTimer s \<longleftrightarrow> as_state s \<noteq> Ready \<and> as_state s \<noteq> ClosedState"
    using inv by (cases "as_state s") (auto simp: api_inv_def)
  ultimately show ?thesis using e c0 by (auto simp: ended_once_def split: if_splits)
qed

text \<open>A paired client that answers its challenge: with a window of one kilobyte, over an idle transport.\<close>

definition demo_client :: paired_client where
  "demo_client = \<lparr>pc_clientId = ''u1'', pc_secret = replicate 32 7, pc_name = ''phone'', pc_kind = 1,
     pc_pairedAtIso = ''t'', pc_credentialGeneration = 2\<rparr>"

definition demo_env :: api_env where
  "demo_env = \<lparr>ae_crypto = demo_crypto, ae_trusted = False,
     ae_parse = (\<lambda>bs. if bs = [1] then Some (1, ClientHello 1 ''phone'' 1 ''u1'' False)
       else if bs = [2] then Some (2, AuthResponse (replicate 32 7 @ [9])) else None),
     ae_serialize = (\<lambda>rid msg. [0]), ae_bytesToWrite = (\<lambda>s. 0), ae_closes = (\<lambda>s. False), ae_maxQueueBytes = 1024,
     ae_random = (\<lambda>x. [9]), ae_uuid = (\<lambda>pm. ''u2''), ae_now = (\<lambda>pm. ''t''), ae_saves = (\<lambda>pm. True),
     ae_snapshotFor = (\<lambda>t. []), ae_requests = None\<rparr>"

definition demo_pm :: pairing where
  "demo_pm = pairing_new \<lparr>cs_clients = [demo_client], cs_loadedSuccessfully = True\<rparr> NoFile"

definition demo_challenged :: api where
  "demo_challenged = api_run demo_env [ApiReceive [1]] (api_new, demo_pm)"

lemma demo_challenged_state:
  "as_state (fst demo_challenged) = AuthPending \<and> as_nonce (fst demo_challenged) = [9] \<and>
   as_authClientId (fst demo_challenged) = ''u1'' \<and> snd demo_challenged = demo_pm \<and>
   \<not> as_tornDown (fst demo_challenged)"
  by (simp add: demo_challenged_def api_run_def onMessageReceived_def handleExpectHello_def challenge_def
      api_sendMessage_def writeOrTeardown_def transport_send_def demo_env_def demo_pm_def api_new_def
      pairing_new_def store_find_def demo_client_def kSecureCodeCredentialGeneration_def Let_def)

lemma demo_challenged_run:
  "api_run demo_env [ApiReceive [1]] (api_new, demo_pm) = (fst demo_challenged, snd demo_challenged)"
  by (simp add: demo_challenged_def)

lemma demo_answer_ready: "as_state (fst (api_step demo_env (ApiReceive [2]) demo_challenged)) = Ready"
proof -
  obtain s pm where d: "demo_challenged = (s, pm)" by fastforce
  have st: "as_state s = AuthPending" "as_nonce s = [9]" "as_authClientId s = ''u1''" "pm = demo_pm" "\<not> as_tornDown s"
    using demo_challenged_state by (simp_all add: d)
  have f: "store_find ''u1'' (pm_store demo_pm) = Some demo_client"
    by (simp add: demo_pm_def pairing_new_def store_find_def demo_client_def)
  have "hmacProof demo_crypto (pc_secret demo_client) [9] = replicate 32 7 @ [9]"
    by (simp add: hmacProof_def demo_crypto_def demo_client_def)
  then show ?thesis using st f
    by (simp add: d onMessageReceived_def handleAuthPending_def demo_env_def constantTimeEquals_eq
        goReady_def api_sendMessage_def writeOrTeardown_def transport_send_def Let_def demo_client_def
        kSecureCodeCredentialGeneration_def)
qed

theorem api_ready_only_authenticated_witness:
  "\<exists>bs rid p. ApiReceive [2] = ApiReceive bs \<and> ae_parse demo_env bs = Some (rid, p) \<and>
     authenticated demo_env p demo_challenged"
proof -
  have "as_state (fst demo_challenged) \<noteq> Ready" using demo_challenged_state by simp
  from api_ready_only_authenticated [OF demo_challenged_run this, of "ApiReceive [2]"] demo_answer_ready
  show ?thesis by (simp only: prod.collapse simp_thms)
qed

theorem api_session_ends_once_witness:
  "count_list (as_log (fst demo_challenged)) ATerminated \<le> 1 \<and> as_handshakeTimer (fst demo_challenged)"
  using api_session_ends_once [OF demo_challenged_run] demo_challenged_state
  by simp

end
