(* ===== verification/Widget_Grid.thy ===== *)
theory Widget_Grid
  imports Prelude Complex_Main
begin

text \<open>
  The home-screen widget grid: \<open>src/src/core/widget/WidgetTypes.hpp\<close> (the descriptor and
  placement types) and \<open>src/src/ui/WidgetGridModel.cpp\<close> (every operation that changes the
  layout).  A placement is a rectangle of cells on a page; the model keeps the live placements
  shown at the current grid dimensions beside the base placements they are derived from, and
  derives the former from the latter by a proportional remap when the dimensions change.

  The operations return the new state, with the truth value the C++ function returns where it
  returns one.  Qt's model-change and property-change signals, which only refresh the view, are
  left out; \<open>baselineChanged\<close>, which the dashboard manager listens to, is emitted by exactly
  the operations that end in \<open>promoteToBase\<close>; \<open>widgetConfigChanged\<close> is the second result of
  \<open>setWidgetConfig\<close>.  The flat vector \<open>occupancy_\<close> only feeds the
  unused accessor \<open>cellOwner\<close> and is left out too.  Coordinates are unbounded integers: the
  dimensions of a display are far from the limits of an \<open>int\<close>.  Qt's conversion of a variant
  to an integer and its comparison of variants are parameters.
\<close>

section \<open>Types\<close>

datatype qvariant = VBool bool | VInt int | VString string | VOther nat

record variant_ops =
  toInt :: "qvariant \<Rightarrow> int option"
  variantEq :: "qvariant \<Rightarrow> qvariant \<Rightarrow> bool"

type_synonym variant_map = "(string \<times> qvariant) list"

datatype config_field_type = FieldEnum | FieldBool | FieldIntRange

record schema_field =
  key :: string
  ftype :: config_field_type
  fvalues :: "qvariant list"
  rangeMin :: int
  rangeMax :: int

record widget_descriptor =
  defaultConfig :: variant_map
  configSchema :: "schema_field list"
  minCols :: int
  minRows :: int
  maxCols :: int
  maxRows :: int
  singleton :: bool

type_synonym registry = "string \<rightharpoonup> widget_descriptor"

record placement =
  instanceId :: string
  widgetId :: string
  col :: int
  row :: int
  colSpan :: int
  rowSpan :: int
  opacity :: rat
  page :: int
  visible :: bool
  config :: variant_map

record grid =
  registry :: "registry option"
  live :: "placement list"
  base :: "placement list"
  cols :: int
  rows :: int
  savedCols :: int
  savedRows :: int
  nextInstanceId :: nat
  activePage :: int
  pageCount :: int
  basePageCount :: int
  widgetSelected :: bool
  remapPending :: bool
  pendingCols :: int
  pendingRows :: int

definition grid_new :: "registry option \<Rightarrow> grid" where
  "grid_new reg = \<lparr> registry = reg, live = [], base = [], cols = 0, rows = 0, savedCols = 0,
     savedRows = 0, nextInstanceId = 0, activePage = 0, pageCount = 2, basePageCount = 2,
     widgetSelected = False, remapPending = False, pendingCols = 0, pendingRows = 0 \<rparr>"

definition lookup :: "registry option \<Rightarrow> string \<Rightarrow> widget_descriptor option" where
  "lookup reg w = (case reg of None \<Rightarrow> None | Some r \<Rightarrow> r w)"

definition is_singleton :: "registry option \<Rightarrow> string \<Rightarrow> bool" where
  "is_singleton reg w = (case lookup reg w of None \<Rightarrow> False | Some d \<Rightarrow> singleton d)"

definition qBound :: "'a::linorder \<Rightarrow> 'a \<Rightarrow> 'a \<Rightarrow> 'a" where
  "qBound lo x hi = max lo (min hi x)"

section \<open>Pages\<close>

fun findPlacement :: "placement list \<Rightarrow> string \<Rightarrow> nat option" where
  "findPlacement [] i = None"
| "findPlacement (p # ps) i =
     (if instanceId p = i then Some 0 else map_option Suc (findPlacement ps i))"

definition requiredPageCount :: "placement list \<Rightarrow> int" where
  "requiredPageCount ps = fold (\<lambda>p n. max n (page p + 1)) ps 1"

definition setCurrentPageCount :: "int \<Rightarrow> grid \<Rightarrow> grid" where
  "setCurrentPageCount n g = (let n = max 1 n in
     g \<lparr> pageCount := n, activePage := qBound 0 (activePage g) (n - 1) \<rparr>)"

definition reservedPages :: "registry option \<Rightarrow> placement list \<Rightarrow> int set" where
  "reservedPages reg ps = set (map page (filter (\<lambda>p. is_singleton reg (widgetId p)) ps))"

definition orderedPages :: "int set \<Rightarrow> int \<Rightarrow> int list" where
  "orderedPages R n = filter (\<lambda>q. q \<notin> R) [0..n - 1] @ filter (\<lambda>q. q \<in> R) [0..n - 1]"

definition remappedPage :: "int list \<Rightarrow> int \<Rightarrow> int" where
  "remappedPage order q = (case map_of (zip order [0..int (length order) - 1]) q of
     None \<Rightarrow> q | Some q' \<Rightarrow> q')"

definition moveReservedPagesToTail ::
  "registry option \<Rightarrow> int \<Rightarrow> placement list \<Rightarrow> placement list" where
  "moveReservedPagesToTail reg n ps =
     (if Option.is_none reg \<or> ps = [] \<or> n < 2 then ps
      else let R = reservedPages reg ps in
        if R = {} then ps
        else map (\<lambda>p. p \<lparr> page := remappedPage (orderedPages R n) (page p) \<rparr>) ps)"

definition pageHasSingleton :: "grid \<Rightarrow> int \<Rightarrow> bool" where
  "pageHasSingleton g q =
     list_ex (\<lambda>p. page p = q \<and> is_singleton (registry g) (widgetId p)) (live g)"

section \<open>Proportional remap\<close>

text \<open>
  \<open>qRound\<close> of a quotient: nearest integer, halves away from zero.  The occupancy of a page is
  the flat vector \<open>cols * rows\<close> of instance names.
\<close>

definition qRound_div :: "int \<Rightarrow> int \<Rightarrow> int" where
  "qRound_div a b = (if 0 \<le> a then (2 * a + b) div (2 * b) else - ((2 * (- a) + b) div (2 * b)))"

type_synonym occupancy = "string list"
type_synonym page_occupancy = "int \<rightharpoonup> occupancy"

definition cell_index :: "int \<Rightarrow> int \<Rightarrow> int \<Rightarrow> nat" where
  "cell_index cs c r = nat (r * cs + c)"

definition new_occupancy :: "int \<Rightarrow> int \<Rightarrow> occupancy" where
  "new_occupancy cs rs = replicate (nat (cs * rs)) ''''"

definition page_occ :: "int \<Rightarrow> int \<Rightarrow> int \<Rightarrow> page_occupancy \<Rightarrow> occupancy" where
  "page_occ cs rs q occs = (case occs q of None \<Rightarrow> new_occupancy cs rs | Some occ \<Rightarrow> occ)"

definition ensure_page :: "int \<Rightarrow> int \<Rightarrow> int \<Rightarrow> page_occupancy \<Rightarrow> page_occupancy" where
  "ensure_page cs rs q occs = occs(q \<mapsto> page_occ cs rs q occs)"

text \<open>The cells of a rectangle, column by column.\<close>

definition rect_cells :: "int \<Rightarrow> int \<Rightarrow> int \<Rightarrow> int \<Rightarrow> (int \<times> int) list" where
  "rect_cells c0 r0 w h = concat (map (\<lambda>c. map (\<lambda>r. (c, r)) [r0..r0 + h - 1]) [c0..c0 + w - 1])"

definition cells_taken :: "int \<Rightarrow> int \<Rightarrow> occupancy \<Rightarrow> (int \<times> int) list \<Rightarrow> bool" where
  "cells_taken cs rs occ ps =
     list_ex (\<lambda>(c, r). c < cs \<and> r < rs \<and> occ ! cell_index cs c r \<noteq> '''') ps"

definition mark_cells :: "int \<Rightarrow> int \<Rightarrow> string \<Rightarrow> (int \<times> int) list \<Rightarrow> occupancy \<Rightarrow> occupancy" where
  "mark_cells cs rs i ps occ =
     fold (\<lambda>(c, r) occ. if c < cs \<and> r < rs then occ[cell_index cs c r := i] else occ) ps occ"

definition ring :: "int \<Rightarrow> (int \<times> int) list" where
  "ring radius = filter (\<lambda>(dc, dr). \<not> (\<bar>dc\<bar> \<noteq> radius \<and> \<bar>dr\<bar> \<noteq> radius))
     (rect_cells (- radius) (- radius) (2 * radius + 1) (2 * radius + 1))"

definition nudge_fits :: "occupancy \<Rightarrow> int \<Rightarrow> int \<Rightarrow> placement \<Rightarrow> int \<times> int \<Rightarrow> bool" where
  "nudge_fits occ cs rs p d = (let nc = col p + fst d; nr = row p + snd d in
     \<not> (nc < 0 \<or> nr < 0) \<and> \<not> (nc + colSpan p > cs \<or> nr + rowSpan p > rs)
     \<and> list_all (\<lambda>(c, r). occ ! cell_index cs c r = '''')
         (rect_cells nc nr (colSpan p) (rowSpan p)))"

definition spiralNudge :: "occupancy \<Rightarrow> int \<Rightarrow> int \<Rightarrow> placement \<Rightarrow> placement option" where
  "spiralNudge occ cs rs p =
     map_option (\<lambda>d. p \<lparr> col := col p + fst d, row := row p + snd d \<rparr>)
       (List.find (nudge_fits occ cs rs p) (concat (map ring [1..max cs rs])))"

fun spill_attempts ::
  "nat \<Rightarrow> int \<Rightarrow> int \<Rightarrow> placement \<Rightarrow> page_occupancy \<Rightarrow> placement \<times> page_occupancy" where
  "spill_attempts 0 cs rs p occs = (p, occs)"
| "spill_attempts (Suc n) cs rs p occs =
     (let occs' = ensure_page cs rs (page p + 1) occs;
          occ = page_occ cs rs (page p + 1) occs;
          p' = p \<lparr> page := page p + 1, col := 0, row := 0 \<rparr> in
      if \<not> cells_taken cs rs occ (rect_cells 0 0 (colSpan p) (rowSpan p)) then (p', occs')
      else case spiralNudge occ cs rs p' of
        Some p'' \<Rightarrow> (p'', occs')
      | None \<Rightarrow> spill_attempts n cs rs p' occs')"

definition spillToNextPage ::
  "int \<Rightarrow> int \<Rightarrow> placement \<Rightarrow> page_occupancy \<Rightarrow> placement \<times> page_occupancy" where
  "spillToNextPage cs rs p occs = spill_attempts 100 cs rs p occs"

text \<open>
  One widget of the remap: hidden when its minimal span exceeds the grid; otherwise its span is
  clamped, its position scaled and clamped, and then kept, nudged on the page, or spilled.
\<close>

definition clampSpan :: "int \<Rightarrow> int option \<Rightarrow> int \<Rightarrow> int" where
  "clampSpan n least s = (if s > n then (case least of None \<Rightarrow> n | Some m \<Rightarrow> max n m) else s)"

definition scaled ::
  "registry option \<Rightarrow> int \<times> int \<Rightarrow> int \<Rightarrow> int \<Rightarrow> placement \<Rightarrow> int \<Rightarrow> placement" where
  "scaled reg saved cs rs b target =
     (let d = lookup reg (widgetId b);
          w = clampSpan cs (map_option minCols d) (colSpan b);
          h = clampSpan rs (map_option minRows d) (rowSpan b) in
      b \<lparr> page := target, colSpan := w, rowSpan := h,
          col := min (qRound_div (col b * cs) (fst saved)) (max 0 (cs - w)),
          row := min (qRound_div (row b * rs) (snd saved)) (max 0 (rs - h)) \<rparr>)"

definition place_scaled ::
  "int \<Rightarrow> int \<Rightarrow> placement \<Rightarrow> page_occupancy \<Rightarrow> placement \<times> page_occupancy" where
  "place_scaled cs rs p occs =
     (let occ = page_occ cs rs (page p) occs;
          occs' = ensure_page cs rs (page p) occs in
      if \<not> cells_taken cs rs occ (rect_cells (col p) (row p) (colSpan p) (rowSpan p)) then (p, occs')
      else case spiralNudge occ cs rs p of
        Some p' \<Rightarrow> (p', occs')
      | None \<Rightarrow> spillToNextPage cs rs p occs')"

definition exceedsGrid :: "registry option \<Rightarrow> int \<Rightarrow> int \<Rightarrow> string \<Rightarrow> bool" where
  "exceedsGrid reg cs rs w = (case lookup reg w of None \<Rightarrow> False
     | Some d \<Rightarrow> minCols d > cs \<or> minRows d > rs)"

definition remapOne ::
  "registry option \<Rightarrow> int \<times> int \<Rightarrow> int \<Rightarrow> int \<Rightarrow> placement \<Rightarrow> int \<Rightarrow> page_occupancy
     \<Rightarrow> placement \<times> page_occupancy" where
  "remapOne reg saved cs rs b target occs =
     (if exceedsGrid reg cs rs (widgetId b) then (b \<lparr> page := target, visible := False \<rparr>, occs)
      else case place_scaled cs rs (scaled reg saved cs rs b target) occs of (p, occs') \<Rightarrow>
        (p \<lparr> visible := True \<rparr>,
         occs'(page p \<mapsto> mark_cells cs rs (instanceId p)
                  (rect_cells (col p) (row p) (colSpan p) (rowSpan p)) (page_occ cs rs (page p) occs'))))"

text \<open>
  A pass over the base placements: the entries of \<open>result\<close> whose base page is selected are
  replaced by the remapped base placement.  The first pass takes the pages without a singleton
  widget, the second the others, moved behind every page in use.
\<close>

fun remap_pass ::
  "(placement \<Rightarrow> int \<Rightarrow> page_occupancy \<Rightarrow> placement \<times> page_occupancy) \<Rightarrow> (int \<Rightarrow> bool) \<Rightarrow> (int \<Rightarrow> int)
     \<Rightarrow> placement list \<Rightarrow> placement list \<Rightarrow> page_occupancy \<Rightarrow> placement list \<times> page_occupancy" where
  "remap_pass one sel target (b # bs) (p # ps) occs =
     (if sel (page b)
      then case one b (target (page b)) occs of (p', occs') \<Rightarrow>
        (case remap_pass one sel target bs ps occs' of (ps', occs'') \<Rightarrow> (p' # ps', occs''))
      else case remap_pass one sel target bs ps occs of (ps', occs') \<Rightarrow> (p # ps', occs'))"
| "remap_pass one sel target bs ps occs = (ps, occs)"

definition selected :: "(int \<Rightarrow> bool) \<Rightarrow> placement list \<Rightarrow> placement list \<Rightarrow> placement list" where
  "selected sel bs ps = map snd (filter (\<lambda>(b, p). sel (page b)) (zip bs ps))"

definition highestNormalPage :: "placement list \<Rightarrow> int" where
  "highestNormalPage ps = fold (\<lambda>p n. max n (page p)) ps (- 1)"

definition reservedTarget :: "int list \<Rightarrow> int \<Rightarrow> int \<Rightarrow> int" where
  "reservedTarget order start q =
     (case map_of (zip order [start..start + int (length order) - 1]) q of None \<Rightarrow> 0 | Some t \<Rightarrow> t)"

definition remap_layout ::
  "registry option \<Rightarrow> int \<times> int \<Rightarrow> int \<Rightarrow> int \<Rightarrow> int \<Rightarrow> placement list \<Rightarrow> placement list" where
  "remap_layout reg saved n cs rs bs =
     (let R = reservedPages reg bs;
          one = remapOne reg saved cs rs;
          (ps, occs) = remap_pass one (\<lambda>q. q \<notin> R) (\<lambda>q. q) bs bs Map.empty;
          order = sorted_list_of_set R;
          start = max (highestNormalPage (selected (\<lambda>q. q \<notin> R) bs ps) + 1) (n - int (length order))
      in fst (remap_pass one (\<lambda>q. q \<in> R) (reservedTarget order start) bs ps occs))"

definition remapPlacements :: "int \<Rightarrow> int \<Rightarrow> grid \<Rightarrow> grid" where
  "remapPlacements cs rs g =
     (let ps = remap_layout (registry g) (savedCols g, savedRows g) (basePageCount g) cs rs (base g) in
      setCurrentPageCount (max (basePageCount g) (requiredPageCount ps)) (g \<lparr> live := ps \<rparr>))"

section \<open>Baselines and deferred remaps\<close>

definition adoptLiveAsBaseline :: "grid \<Rightarrow> grid" where
  "adoptLiveAsBaseline g = g \<lparr> base := live g, basePageCount := pageCount g,
     savedCols := cols g, savedRows := rows g \<rparr>"

definition promoteToBase :: "grid \<Rightarrow> grid" where
  "promoteToBase g = adoptLiveAsBaseline g"

definition copyBase :: "grid \<Rightarrow> grid" where
  "copyBase g = setCurrentPageCount (basePageCount g) (g \<lparr> live := base g \<rparr>)"

definition applyPendingRemap :: "grid \<Rightarrow> grid" where
  "applyPendingRemap g =
     (if \<not> remapPending g then g
      else let g = g \<lparr> remapPending := False \<rparr> in
        if base g = [] \<and> savedCols g = 0 then g
        else if savedCols g = 0 then copyBase (g \<lparr> savedCols := cols g, savedRows := rows g \<rparr>)
        else if cols g = savedCols g \<and> rows g = savedRows g then copyBase g
        else remapPlacements (cols g) (rows g) g)"

definition setGridDimensions :: "int \<Rightarrow> int \<Rightarrow> grid \<Rightarrow> grid" where
  "setGridDimensions cs rs g =
     (if cs = cols g \<and> rs = rows g then g
      else if widgetSelected g
      then g \<lparr> pendingCols := cs, pendingRows := rs, remapPending := True, cols := cs, rows := rs \<rparr>
      else let g = g \<lparr> cols := cs, rows := rs \<rparr> in
        if base g = [] \<and> savedCols g = 0 then g
        else if savedCols g = 0 then copyBase (g \<lparr> savedCols := cs, savedRows := rs \<rparr>)
        else if cs = savedCols g \<and> rs = savedRows g then copyBase g
        else remapPlacements cs rs g)"

definition setSavedDimensions :: "int \<Rightarrow> int \<Rightarrow> grid \<Rightarrow> grid" where
  "setSavedDimensions cs rs g = g \<lparr> savedCols := cs, savedRows := rs \<rparr>"

definition setNextInstanceId :: "nat \<Rightarrow> grid \<Rightarrow> grid" where
  "setNextInstanceId n g = g \<lparr> nextInstanceId := n \<rparr>"

definition setWidgetSelected :: "bool \<Rightarrow> grid \<Rightarrow> grid" where
  "setWidgetSelected sel g =
     (if widgetSelected g = sel then g
      else let g = g \<lparr> widgetSelected := sel \<rparr> in if sel then g else applyPendingRemap g)"

section \<open>Placing, moving and resizing\<close>

definition overlapsRect :: "int \<Rightarrow> int \<Rightarrow> int \<Rightarrow> int \<Rightarrow> placement \<Rightarrow> bool" where
  "overlapsRect c r w h p \<longleftrightarrow> c < col p + colSpan p \<and> c + w > col p
     \<and> r < row p + rowSpan p \<and> r + h > row p"

definition canPlaceOnPage :: "grid \<Rightarrow> int \<Rightarrow> int \<Rightarrow> int \<Rightarrow> int \<Rightarrow> int \<Rightarrow> string \<Rightarrow> bool" where
  "canPlaceOnPage g c r w h q excl \<longleftrightarrow>
     \<not> (c < 0 \<or> r < 0) \<and> \<not> (c + w > cols g \<or> r + h > rows g)
     \<and> list_all (\<lambda>p. page p \<noteq> q \<or> \<not> visible p \<or> (excl \<noteq> '''' \<and> instanceId p = excl)
           \<or> \<not> overlapsRect c r w h p) (live g)"

definition canPlace :: "grid \<Rightarrow> int \<Rightarrow> int \<Rightarrow> int \<Rightarrow> int \<Rightarrow> string \<Rightarrow> bool" where
  "canPlace g c r w h excl = canPlaceOnPage g c r w h (activePage g) excl"

definition findFirstAvailableCell :: "int \<Rightarrow> int \<Rightarrow> grid \<Rightarrow> int \<times> int" where
  "findFirstAvailableCell w h g =
     (case List.find (\<lambda>(r, c). canPlace g c r w h '''')
         (concat (map (\<lambda>r. map (Pair r) [0..cols g - w]) [0..rows g - h])) of
       Some (r, c) \<Rightarrow> (c, r)
     | None \<Rightarrow> (- 1, - 1))"

definition new_placement :: "string \<Rightarrow> string \<Rightarrow> int \<Rightarrow> int \<Rightarrow> int \<Rightarrow> int \<Rightarrow> int \<Rightarrow> placement" where
  "new_placement i w c r cspan rspan q = \<lparr> instanceId = i, widgetId = w, col = c, row = r,
     colSpan = cspan, rowSpan = rspan, opacity = 1 / 4, page = q, visible = True, config = [] \<rparr>"

definition placeWidget :: "string \<Rightarrow> int \<Rightarrow> int \<Rightarrow> int \<Rightarrow> int \<Rightarrow> grid \<Rightarrow> grid \<times> bool" where
  "placeWidget w c r cspan rspan g0 =
     (let g = applyPendingRemap g0 in
      if w = '''' then (g, False)
      else if \<not> canPlace g c r cspan rspan '''' then (g, False)
      else let i = w @ ''-'' @ dec_string (nextInstanceId g);
               g1 = g \<lparr> nextInstanceId := nextInstanceId g + 1,
                        live := live g @ [new_placement i w c r cspan rspan (activePage g)] \<rparr>;
               g2 = (if requiredPageCount (live g1) > pageCount g1
                     then setCurrentPageCount (requiredPageCount (live g1)) g1 else g1)
           in (promoteToBase g2, True))"

definition updatePlacement :: "nat \<Rightarrow> (placement \<Rightarrow> placement) \<Rightarrow> grid \<Rightarrow> grid" where
  "updatePlacement k f g = g \<lparr> live := (live g)[k := f (live g ! k)] \<rparr>"

definition moveWidget :: "string \<Rightarrow> int \<Rightarrow> int \<Rightarrow> grid \<Rightarrow> grid \<times> bool" where
  "moveWidget i c r g0 =
     (let g = applyPendingRemap g0 in
      case findPlacement (live g) i of
        None \<Rightarrow> (g, False)
      | Some k \<Rightarrow> let p = live g ! k in
          if \<not> canPlaceOnPage g c r (colSpan p) (rowSpan p) (page p) i then (g, False)
          else (promoteToBase (updatePlacement k (\<lambda>p. p \<lparr> col := c, row := r \<rparr>) g), True))"

definition spanAllowed :: "registry option \<Rightarrow> string \<Rightarrow> int \<Rightarrow> int \<Rightarrow> bool" where
  "spanAllowed reg w cspan rspan = (case lookup reg w of None \<Rightarrow> True
     | Some d \<Rightarrow> \<not> (cspan < minCols d \<or> cspan > maxCols d) \<and> \<not> (rspan < minRows d \<or> rspan > maxRows d))"

definition resizeWidget :: "string \<Rightarrow> int \<Rightarrow> int \<Rightarrow> grid \<Rightarrow> grid \<times> bool" where
  "resizeWidget i w h g0 =
     (let g = applyPendingRemap g0 in
      case findPlacement (live g) i of
        None \<Rightarrow> (g, False)
      | Some k \<Rightarrow> let p = live g ! k in
          if \<not> spanAllowed (registry g) (widgetId p) w h then (g, False)
          else if \<not> canPlaceOnPage g (col p) (row p) w h (page p) i then (g, False)
          else (promoteToBase (updatePlacement k (\<lambda>p. p \<lparr> colSpan := w, rowSpan := h \<rparr>) g), True))"

definition resizeWidgetFromEdge :: "string \<Rightarrow> int \<Rightarrow> int \<Rightarrow> int \<Rightarrow> int \<Rightarrow> grid \<Rightarrow> grid \<times> bool" where
  "resizeWidgetFromEdge i c r w h g0 =
     (let g = applyPendingRemap g0 in
      case findPlacement (live g) i of
        None \<Rightarrow> (g, False)
      | Some k \<Rightarrow> let p = live g ! k in
          if c < 0 \<or> r < 0 then (g, False)
          else if c + w > cols g \<or> r + h > rows g then (g, False)
          else if w < 1 \<or> h < 1 then (g, False)
          else if \<not> spanAllowed (registry g) (widgetId p) w h then (g, False)
          else if \<not> canPlaceOnPage g c r w h (page p) i then (g, False)
          else (promoteToBase (updatePlacement k
                  (\<lambda>p. p \<lparr> col := c, row := r, colSpan := w, rowSpan := h \<rparr>) g), True))"

definition removeWidget :: "string \<Rightarrow> grid \<Rightarrow> grid" where
  "removeWidget i g0 =
     (let g = applyPendingRemap g0 in
      case findPlacement (live g) i of
        None \<Rightarrow> g
      | Some k \<Rightarrow>
          if is_singleton (registry g) (widgetId (live g ! k)) then g
          else promoteToBase (g \<lparr> live := take k (live g) @ drop (Suc k) (live g) \<rparr>))"

definition setWidgetOpacity :: "string \<Rightarrow> rat \<Rightarrow> grid \<Rightarrow> grid" where
  "setWidgetOpacity i x g0 =
     (let g = applyPendingRemap g0 in
      case findPlacement (live g) i of
        None \<Rightarrow> g
      | Some k \<Rightarrow> promoteToBase (updatePlacement k (\<lambda>p. p \<lparr> opacity := qBound 0 x 1 \<rparr>) g))"

section \<open>Per-widget configuration\<close>

definition schemaMap :: "schema_field list \<Rightarrow> string \<rightharpoonup> schema_field" where
  "schemaMap fs = map_of (rev (map (\<lambda>f. (key f, f)) fs))"

definition validateField :: "variant_ops \<Rightarrow> schema_field \<Rightarrow> qvariant \<Rightarrow> qvariant option" where
  "validateField ops f v =
     (case ftype f of
        FieldBool \<Rightarrow>
          (case v of
             VBool b \<Rightarrow> Some (VBool b)
           | VString s \<Rightarrow> (let s = map toLower_char s in
               if s = ''true'' then Some (VBool True)
               else if s = ''false'' then Some (VBool False) else None)
           | _ \<Rightarrow> None)
      | FieldIntRange \<Rightarrow>
          map_option (\<lambda>n. VInt (qBound (rangeMin f) n (rangeMax f))) (toInt ops v)
      | FieldEnum \<Rightarrow> if list_ex (\<lambda>x. variantEq ops x v) (fvalues f) then Some v else None)"

definition validateConfig ::
  "variant_ops \<Rightarrow> registry option \<Rightarrow> string \<Rightarrow> variant_map \<Rightarrow> variant_map" where
  "validateConfig ops reg w raw =
     (case lookup reg w of
        None \<Rightarrow> []
      | Some d \<Rightarrow> if configSchema d = [] then []
          else List.map_filter (\<lambda>(k, v). case schemaMap (configSchema d) k of
                   None \<Rightarrow> None
                 | Some f \<Rightarrow> map_option (Pair k) (validateField ops f v)) raw)"

definition effective :: "registry option \<Rightarrow> string \<Rightarrow> variant_map \<Rightarrow> string \<rightharpoonup> qvariant" where
  "effective reg w overrides =
     (case lookup reg w of None \<Rightarrow> Map.empty | Some d \<Rightarrow> map_of (defaultConfig d)) ++ map_of overrides"

definition setWidgetConfig ::
  "variant_ops \<Rightarrow> string \<Rightarrow> variant_map \<Rightarrow> grid \<Rightarrow> grid \<times> (string \<times> (string \<rightharpoonup> qvariant)) option" where
  "setWidgetConfig ops i raw g0 =
     (let g = applyPendingRemap g0 in
      case findPlacement (live g) i of
        None \<Rightarrow> (g, None)
      | Some k \<Rightarrow> let w = widgetId (live g ! k); validated = validateConfig ops (registry g) w raw in
          (promoteToBase (updatePlacement k (\<lambda>p. p \<lparr> config := validated \<rparr>) g),
           Some (i, effective (registry g) w validated)))"

definition widgetConfig :: "grid \<Rightarrow> string \<Rightarrow> variant_map" where
  "widgetConfig g i =
     (case findPlacement (live g) i of None \<Rightarrow> [] | Some k \<Rightarrow> config (live g ! k))"

definition effectiveWidgetConfig :: "grid \<Rightarrow> string \<Rightarrow> string \<rightharpoonup> qvariant" where
  "effectiveWidgetConfig g i =
     (case findPlacement (live g) i of
        None \<Rightarrow> Map.empty
      | Some k \<Rightarrow> effective (registry g) (widgetId (live g ! k)) (config (live g ! k)))"

section \<open>Page management\<close>

definition setActivePage :: "int \<Rightarrow> grid \<Rightarrow> grid" where
  "setActivePage q g = g \<lparr> activePage := qBound 0 q (pageCount g - 1) \<rparr>"

definition setPageCount :: "int \<Rightarrow> grid \<Rightarrow> grid" where
  "setPageCount n g =
     (if n < 1 then g
      else let n = max n (requiredPageCount (live g)) in
        setCurrentPageCount n
          (g \<lparr> live := moveReservedPagesToTail (registry g) n (live g),
               base := moveReservedPagesToTail (registry g) n (base g), basePageCount := n \<rparr>))"

definition addPage :: "grid \<Rightarrow> grid" where
  "addPage g0 =
     (let g = applyPendingRemap g0;
          insertAt = (case List.find (pageHasSingleton g) [0..pageCount g - 1] of
                  None \<Rightarrow> pageCount g | Some q \<Rightarrow> q) in
      promoteToBase (g \<lparr> live := map (\<lambda>p. if page p \<ge> insertAt then p \<lparr> page := page p + 1 \<rparr> else p) (live g),
                         pageCount := pageCount g + 1 \<rparr>))"

definition removePage :: "int \<Rightarrow> grid \<Rightarrow> grid \<times> bool" where
  "removePage q g0 =
     (let g = applyPendingRemap g0 in
      if q \<le> 0 \<or> q \<ge> pageCount g then (g, False)
      else if pageHasSingleton g q then (g, False)
      else let n = pageCount g - 1 in
        (promoteToBase (g \<lparr>
           live := map (\<lambda>p. if page p > q then p \<lparr> page := page p - 1 \<rparr> else p)
                     (filter (\<lambda>p. page p \<noteq> q) (live g)),
           pageCount := n,
           activePage := (if activePage g \<ge> n then n - 1 else activePage g) \<rparr>), True))"

definition removeAllWidgetsOnPage :: "int \<Rightarrow> grid \<Rightarrow> grid" where
  "removeAllWidgetsOnPage q g0 =
     (let g = applyPendingRemap g0 in
      promoteToBase (g \<lparr> live := filter (\<lambda>p. page p \<noteq> q) (live g) \<rparr>))"

definition widgetCountOnPage :: "int \<Rightarrow> grid \<Rightarrow> nat" where
  "widgetCountOnPage q g = length (filter (\<lambda>p. page p = q \<and> visible p) (live g))"

definition totalWidgetCountOnPage :: "int \<Rightarrow> grid \<Rightarrow> nat" where
  "totalWidgetCountOnPage q g = length (filter (\<lambda>p. page p = q) (live g))"

section \<open>Loading\<close>

definition setPlacements ::
  "variant_ops \<Rightarrow> placement list \<Rightarrow> registry option \<Rightarrow> grid \<Rightarrow> grid" where
  "setPlacements ops ps reg g =
     (let reg' = (if Option.is_none reg then registry g else reg);
          ps1 = map (\<lambda>p. p \<lparr> page := max 0 (page p) \<rparr>) ps;
          ps2 = (if Option.is_none reg' then ps1
                 else map (\<lambda>p. if config p = [] then p
                             else p \<lparr> config := validateConfig ops reg' (widgetId p) (config p) \<rparr>) ps1);
          n = max (pageCount g) (requiredPageCount ps2);
          ps3 = moveReservedPagesToTail reg' n ps2
      in setCurrentPageCount n
           (g \<lparr> registry := reg', live := ps3, base := ps3, basePageCount := n \<rparr>))"

end
