(* ===== verification/Widget_Layout.thy ===== *)
theory Widget_Layout
  imports Widget_Grid "HOL-Library.Multiset"
begin

text \<open>
  Correctness of the proportional remap of \<open>Widget_Grid\<close>: whatever the old and the new grid
  dimensions, the remapped widgets lie inside the new grid and no two of them share a cell.  The
  loop invariant ties the occupancy vectors of the pages to the widgets placed so far; the spill
  over at most 100 further pages always finds room, because every page that refuses a widget
  holds one of the others.
\<close>

section \<open>Cells\<close>

definition cells :: "placement \<Rightarrow> (int \<times> int) set" where
  "cells p = set (rect_cells (col p) (row p) (colSpan p) (rowSpan p))"

definition apart :: "placement \<Rightarrow> placement \<Rightarrow> bool" where
  "apart p q \<longleftrightarrow> \<not> (visible p \<and> visible q \<and> page p = page q \<and> cells p \<inter> cells q \<noteq> {})"

definition inside :: "int \<Rightarrow> int \<Rightarrow> placement \<Rightarrow> bool" where
  "inside cs rs p \<longleftrightarrow> 0 \<le> col p \<and> 0 \<le> row p \<and> col p + colSpan p \<le> cs \<and> row p + rowSpan p \<le> rs"

lemma set_rect_cells: "set (rect_cells c r w h) = {c..c + w - 1} \<times> {r..r + h - 1}"
  by (auto simp: rect_cells_def)

lemma in_cells:
  "(c, r) \<in> cells p \<longleftrightarrow> col p \<le> c \<and> c < col p + colSpan p \<and> row p \<le> r \<and> r < row p + rowSpan p"
  by (auto simp: cells_def set_rect_cells)

lemma apart_sym: "apart p q \<longleftrightarrow> apart q p"
  by (auto simp: apart_def Int_commute)

lemma inside_cells:
  "inside cs rs p \<Longrightarrow> (c, r) \<in> cells p \<Longrightarrow> 0 \<le> c \<and> c < cs \<and> 0 \<le> r \<and> r < rs"
  by (auto simp: inside_def in_cells)

lemma sorted_wrt_perm:
  assumes "mset xs = mset ys" and "sorted_wrt apart xs"
  shows "sorted_wrt apart ys"
  using assms
proof (induction ys arbitrary: xs)
  case Nil
  then show ?case by simp
next
  case (Cons y ys)
  then have "y \<in> set xs" by (metis list.set_intros(1) set_mset_mset)
  then obtain us vs where xs: "xs = us @ y # vs" by (meson split_list)
  have "mset (us @ vs) = mset ys" using Cons.prems(1) by (simp add: xs)
  moreover have "sorted_wrt apart (us @ vs)"
    using Cons.prems(2) by (auto simp: xs sorted_wrt_append)
  moreover have "\<forall>z\<in>set (us @ vs). apart y z"
    using Cons.prems(2) by (auto simp: xs sorted_wrt_append apart_sym)
  ultimately show ?case
    using Cons.IH [of "us @ vs"] by (metis mset_eq_setD sorted_wrt.simps(2))
qed

section \<open>Occupancy vectors\<close>

lemma cell_index_less:
  assumes "0 \<le> c" "c < cs" "0 \<le> r" "r < rs"
  shows "cell_index cs c r < nat (cs * rs)"
proof -
  have "r * cs + c < (r + 1) * cs" using assms by (simp add: algebra_simps)
  also have "\<dots> \<le> rs * cs" using assms by (intro mult_right_mono) auto
  finally show ?thesis using assms by (simp add: cell_index_def mult.commute)
qed

lemma cell_index_inj:
  assumes "0 \<le> c" "c < cs" "0 \<le> r" "0 \<le> c'" "c' < cs" "0 \<le> r'"
    and "cell_index cs c r = cell_index cs c' r'"
  shows "c = c' \<and> r = r'"
proof -
  have eq: "r * cs + c = r' * cs + c'" using assms by (simp add: cell_index_def nat_eq_iff)
  then have "(r * cs + c) div cs = (r' * cs + c') div cs"
    and "(r * cs + c) mod cs = (r' * cs + c') mod cs" by simp_all
  then show ?thesis using assms by simp
qed

lemma length_mark_cells [simp]: "length (mark_cells cs rs i ps occ) = length occ"
  by (induction ps arbitrary: occ) (auto simp: mark_cells_def)

lemma nth_mark_cells:
  assumes "\<forall>(c, r)\<in>set ps. 0 \<le> c \<and> c < cs \<and> 0 \<le> r \<and> r < rs"
    and "0 \<le> c" "c < cs" "0 \<le> r" "r < rs" and "length occ = nat (cs * rs)"
  shows "mark_cells cs rs i ps occ ! cell_index cs c r =
    (if (c, r) \<in> set ps then i else occ ! cell_index cs c r)"
  using assms(1,6)
proof (induction ps arbitrary: occ)
  case Nil
  then show ?case by (simp add: mark_cells_def)
next
  case (Cons x ps)
  obtain c' r' where x: "x = (c', r')" by (cases x)
  have b: "0 \<le> c'" "c' < cs" "0 \<le> r'" "r' < rs" using Cons.prems by (auto simp: x)
  have upd: "mark_cells cs rs i (x # ps) occ = mark_cells cs rs i ps (occ[cell_index cs c' r' := i])"
    using b by (simp add: mark_cells_def x)
  have "occ[cell_index cs c' r' := i] ! cell_index cs c r =
    (if (c, r) = x then i else occ ! cell_index cs c r)"
    using cell_index_inj [of c' cs r' c r] cell_index_less [of c' cs r' rs] b assms Cons.prems
    by (auto simp: x nth_list_update)
  then show ?case
    using Cons.IH [of "occ[cell_index cs c' r' := i]"] Cons.prems by (auto simp: upd)
qed

lemma page_occ_ensure [simp]: "page_occ cs rs q (ensure_page cs rs q' occs) = page_occ cs rs q occs"
  by (simp add: ensure_page_def page_occ_def)

lemma page_occ_upd [simp]:
  "page_occ cs rs q (occs(q' \<mapsto> occ)) = (if q = q' then occ else page_occ cs rs q occs)"
  by (simp add: page_occ_def)

text \<open>The occupancies record exactly the visible widgets placed so far.\<close>

definition occ_inv :: "int \<Rightarrow> int \<Rightarrow> page_occupancy \<Rightarrow> placement list \<Rightarrow> bool" where
  "occ_inv cs rs occs ps \<longleftrightarrow> (\<forall>q. length (page_occ cs rs q occs) = nat (cs * rs)
     \<and> (\<forall>c r. 0 \<le> c \<and> c < cs \<and> 0 \<le> r \<and> r < rs \<longrightarrow>
          (page_occ cs rs q occs ! cell_index cs c r \<noteq> ''''
             \<longleftrightarrow> (\<exists>p\<in>set ps. visible p \<and> page p = q \<and> (c, r) \<in> cells p))))"

definition free :: "int \<Rightarrow> int \<Rightarrow> page_occupancy \<Rightarrow> placement \<Rightarrow> bool" where
  "free cs rs occs p \<longleftrightarrow>
     (\<forall>(c, r)\<in>cells p. page_occ cs rs (page p) occs ! cell_index cs c r = '''')"

definition taken :: "int \<Rightarrow> int \<Rightarrow> page_occupancy \<Rightarrow> int \<Rightarrow> bool" where
  "taken cs rs occs q \<longleftrightarrow> (\<exists>c r. 0 \<le> c \<and> c < cs \<and> 0 \<le> r \<and> r < rs
     \<and> page_occ cs rs q occs ! cell_index cs c r \<noteq> '''')"

lemma occ_inv_Nil: "occ_inv cs rs Map.empty []"
  using cell_index_less by (auto simp: occ_inv_def page_occ_def new_occupancy_def)

lemma occ_inv_hidden: "occ_inv cs rs occs ps \<Longrightarrow> \<not> visible p \<Longrightarrow> occ_inv cs rs occs (ps @ [p])"
  by (auto simp: occ_inv_def)

lemma occ_inv_place:
  assumes inv: "occ_inv cs rs occs ps" and p: "inside cs rs p" "visible p" "instanceId p \<noteq> ''''"
  shows "occ_inv cs rs (occs(page p \<mapsto> mark_cells cs rs (instanceId p)
    (rect_cells (col p) (row p) (colSpan p) (rowSpan p)) (page_occ cs rs (page p) occs))) (ps @ [p])"
proof -
  have rng: "\<forall>(c, r)\<in>set (rect_cells (col p) (row p) (colSpan p) (rowSpan p)).
    0 \<le> c \<and> c < cs \<and> 0 \<le> r \<and> r < rs"
    using inside_cells [OF p(1)] by (auto simp: cells_def)
  have "mark_cells cs rs (instanceId p) (rect_cells (col p) (row p) (colSpan p) (rowSpan p))
      (page_occ cs rs (page p) occs) ! cell_index cs c r =
    (if (c, r) \<in> cells p then instanceId p else page_occ cs rs (page p) occs ! cell_index cs c r)"
    if "0 \<le> c" "c < cs" "0 \<le> r" "r < rs" for c r
    using nth_mark_cells [OF rng that] inv by (simp add: cells_def occ_inv_def)
  then show ?thesis using inv p(2,3) by (auto simp: occ_inv_def)
qed

lemma free_apart:
  assumes "occ_inv cs rs occs ps" "inside cs rs p" "free cs rs occs p" "q \<in> set ps"
  shows "apart q p"
proof (rule ccontr)
  assume "\<not> apart q p"
  then obtain c r where q: "visible q" "page q = page p" "(c, r) \<in> cells q" "(c, r) \<in> cells p"
    by (auto simp: apart_def)
  then have "page_occ cs rs (page p) occs ! cell_index cs c r \<noteq> ''''"
    using assms(1,4) inside_cells [OF assms(2) q(4)] by (auto simp: occ_inv_def)
  then show False using assms(3) q(4) by (auto simp: free_def)
qed

lemma taken_pages: "occ_inv cs rs occs ps \<Longrightarrow> taken cs rs occs q \<Longrightarrow> q \<in> page ` set ps"
  by (auto simp: occ_inv_def taken_def)

section \<open>Finding room\<close>

lemma spiralNudge_sound:
  assumes "spiralNudge (page_occ cs rs (page p) occs) cs rs p = Some p'"
  shows "\<exists>c r. p' = p \<lparr> col := c, row := r \<rparr> \<and> inside cs rs p' \<and> free cs rs occs p'"
proof -
  obtain d where d: "List.find (nudge_fits (page_occ cs rs (page p) occs) cs rs p)
        (concat (map ring [1..max cs rs])) = Some d"
      "p' = p \<lparr> col := col p + fst d, row := row p + snd d \<rparr>"
    using assms by (auto simp: spiralNudge_def)
  then have "nudge_fits (page_occ cs rs (page p) occs) cs rs p d" by (auto simp: find_Some_iff)
  then show ?thesis using d(2)
    by (auto simp: nudge_fits_def Let_def inside_def free_def cells_def list_all_iff)
qed

lemma cells_taken_iff:
  "cells_taken cs rs occ (rect_cells c r w h) \<longleftrightarrow>
     (\<exists>(c, r)\<in>set (rect_cells c r w h). c < cs \<and> r < rs \<and> occ ! cell_index cs c r \<noteq> '''')"
  by (auto simp: cells_taken_def list_ex_iff)

lemma not_taken_free:
  assumes "inside cs rs p"
    and "\<not> cells_taken cs rs (page_occ cs rs (page p) occs) (rect_cells (col p) (row p) (colSpan p) (rowSpan p))"
  shows "free cs rs occs p"
  using assms inside_cells [OF assms(1)] by (auto simp: cells_taken_iff free_def cells_def)

lemma cells_taken_taken:
  assumes "inside cs rs p"
    and "cells_taken cs rs (page_occ cs rs (page p) occs) (rect_cells (col p) (row p) (colSpan p) (rowSpan p))"
  shows "taken cs rs occs (page p)"
  using assms inside_cells [OF assms(1)] by (force simp: cells_taken_iff taken_def cells_def)

text \<open>What the search for room keeps of the widget and of the occupancies.\<close>

definition relocated :: "int \<Rightarrow> int \<Rightarrow> placement \<Rightarrow> placement \<Rightarrow> bool" where
  "relocated cs rs p p' \<longleftrightarrow> (\<exists>c r q. p' = p \<lparr> page := q, col := c, row := r \<rparr> \<and> page p \<le> q) \<and> inside cs rs p'"

lemma relocatedI:
  "p' = p \<lparr> page := q, col := c, row := r \<rparr> \<Longrightarrow> page p \<le> q \<Longrightarrow> inside cs rs p' \<Longrightarrow> relocated cs rs p p'"
  by (auto simp: relocated_def)

lemma relocated_refl: "inside cs rs p \<Longrightarrow> relocated cs rs p p"
  by (rule relocatedI [where q = "page p" and c = "col p" and r = "row p"]) simp_all

definition same_occ :: "int \<Rightarrow> int \<Rightarrow> page_occupancy \<Rightarrow> page_occupancy \<Rightarrow> bool" where
  "same_occ cs rs occs occs' \<longleftrightarrow> (\<forall>q. page_occ cs rs q occs' = page_occ cs rs q occs)"

lemma same_occ_cong:
  assumes "same_occ cs rs occs occs'"
  shows "free cs rs occs' p = free cs rs occs p" "taken cs rs occs' q = taken cs rs occs q"
    "occ_inv cs rs occs' ps = occ_inv cs rs occs ps"
  using assms by (simp_all add: same_occ_def free_def taken_def occ_inv_def)

lemma same_occ_ensure: "same_occ cs rs occs (ensure_page cs rs q occs)"
  by (simp add: same_occ_def)

lemma spill_attempts_ok:
  assumes "inside cs rs p" and "0 \<le> cs" "0 \<le> rs"
    and "spill_attempts n cs rs p occs = (p', occs')"
  shows "same_occ cs rs occs occs' \<and> relocated cs rs p p'
    \<and> (free cs rs occs p' \<or> (\<forall>q. page p < q \<and> q \<le> page p + int n \<longrightarrow> taken cs rs occs q))"
  using assms(1,4)
proof (induction n arbitrary: p occs)
  case 0
  then show ?case by (auto simp: same_occ_def relocated_refl)
next
  case (Suc n)
  define p1 where "p1 = p \<lparr> page := page p + 1, col := 0, row := 0 \<rparr>"
  define occs1 where "occs1 = ensure_page cs rs (page p1) occs"
  let ?occ = "page_occ cs rs (page p1) occs"
  let ?taken = "cells_taken cs rs ?occ (rect_cells (col p1) (row p1) (colSpan p1) (rowSpan p1))"
  have p1: "inside cs rs p1" using Suc.prems(1) assms(2,3) by (auto simp: inside_def p1_def)
  have eq: "(p', occs') = (if \<not> ?taken then (p1, occs1) else case spiralNudge ?occ cs rs p1 of
      Some p2 \<Rightarrow> (p2, occs1) | None \<Rightarrow> spill_attempts n cs rs p1 occs1)"
    using Suc.prems(2) [symmetric] by (simp add: p1_def occs1_def Let_def cong: if_cong option.case_cong)
  have s1: "same_occ cs rs occs occs1" by (simp add: occs1_def same_occ_ensure)
  have reloc: "relocated cs rs p p1" using p1
    by (intro relocatedI [where q = "page p + 1" and c = 0 and r = 0]) (simp_all add: p1_def)
  show ?case
  proof (cases ?taken)
    case False
    then show ?thesis using eq s1 reloc not_taken_free [OF p1] by simp
  next
    case True
    note tk = cells_taken_taken [OF p1 True]
    show ?thesis
    proof (cases "spiralNudge ?occ cs rs p1")
      case (Some p2)
      obtain c r where "p2 = p1 \<lparr> col := c, row := r \<rparr>" "inside cs rs p2" "free cs rs occs p2"
        using spiralNudge_sound [OF Some] by blast
      moreover then have "relocated cs rs p p2"
        by (intro relocatedI [where q = "page p + 1" and c = c and r = r]) (simp_all add: p1_def)
      ultimately show ?thesis using eq True Some s1 by simp
    next
      case None
      then have "spill_attempts n cs rs p1 occs1 = (p', occs')" using eq True by simp
      from Suc.IH [OF p1 this] have IH: "same_occ cs rs occs1 occs'" "relocated cs rs p1 p'"
        "free cs rs occs1 p' \<or> (\<forall>q. page p1 < q \<and> q \<le> page p1 + int n \<longrightarrow> taken cs rs occs1 q)" by blast+
      have "taken cs rs occs q" if "page p < q" "q \<le> page p + int (Suc n)"
        "\<forall>q. page p1 < q \<and> q \<le> page p1 + int n \<longrightarrow> taken cs rs occs1 q" for q
        using that tk same_occ_cong(2) [OF s1] by (cases "q = page p1") (auto simp: p1_def)
      moreover obtain c r q where "p' = p1 \<lparr> page := q, col := c, row := r \<rparr>" "page p1 \<le> q" "inside cs rs p'"
        using IH(2) by (auto simp: relocated_def)
      then have "relocated cs rs p p'"
        by (intro relocatedI [where q = q and c = c and r = r]) (simp_all add: p1_def)
      moreover have "same_occ cs rs occs occs'" using s1 IH(1) by (simp add: same_occ_def)
      ultimately show ?thesis using IH(3) same_occ_cong(1) [OF s1] by blast
    qed
  qed
qed

lemma place_scaled_ok:
  assumes p: "inside cs rs p" and "0 \<le> cs" "0 \<le> rs"
    and inv: "occ_inv cs rs occs ps" "length ps \<le> 100"
    and res: "place_scaled cs rs p occs = (p', occs')"
  shows "same_occ cs rs occs occs' \<and> relocated cs rs p p' \<and> free cs rs occs p'"
proof -
  let ?occ = "page_occ cs rs (page p) occs"
  let ?occs1 = "ensure_page cs rs (page p) occs"
  let ?taken = "cells_taken cs rs ?occ (rect_cells (col p) (row p) (colSpan p) (rowSpan p))"
  have self: "relocated cs rs p p"
    using p by (rule relocated_refl)
  show ?thesis
  proof (cases ?taken)
    case False
    then show ?thesis using res self not_taken_free [OF p] same_occ_ensure
      by (auto simp: place_scaled_def Let_def)
  next
    case True
    note tk = cells_taken_taken [OF p True]
    show ?thesis
    proof (cases "spiralNudge ?occ cs rs p")
      case (Some p2)
      obtain c r where "p2 = p \<lparr> col := c, row := r \<rparr>" "inside cs rs p2" "free cs rs occs p2"
        using spiralNudge_sound [OF Some] by blast
      moreover then have "relocated cs rs p p2" by (intro relocatedI [where q = "page p" and c = c and r = r]) simp_all
      ultimately show ?thesis using res True Some same_occ_ensure by (auto simp: place_scaled_def Let_def)
    next
      case None
      then have "spill_attempts 100 cs rs p ?occs1 = (p', occs')"
        using res True by (simp add: place_scaled_def spillToNextPage_def Let_def)
      from spill_attempts_ok [OF p assms(2,3) this]
      have ok: "same_occ cs rs occs occs'" "relocated cs rs p p'"
        "free cs rs occs p' \<or> (\<forall>q. page p < q \<and> q \<le> page p + 100 \<longrightarrow> taken cs rs occs q)"
        using same_occ_cong [OF same_occ_ensure, of cs rs "page p" occs] by (auto simp: same_occ_def)
      have "free cs rs occs p'"
      proof (rule ccontr)
        assume "\<not> free cs rs occs p'"
        then have "\<forall>q\<in>{page p..page p + 100}. taken cs rs occs q" using ok(3) tk
          by (metis atLeastAtMost_iff order_le_less)
        then have "{page p..page p + 100} \<subseteq> page ` set ps" using taken_pages [OF inv(1)] by blast
        then have "card {page p..page p + 100} \<le> card (page ` set ps)" by (rule card_mono [rotated]) simp
        also have "\<dots> \<le> length ps" by (meson card_image_le card_length finite_set le_trans)
        finally show False using inv(2) by simp
      qed
      then show ?thesis using ok by blast
    qed
  qed
qed

section \<open>One widget\<close>

lemma qRound_div_nonneg: "0 \<le> a \<Longrightarrow> 0 < b \<Longrightarrow> 0 \<le> qRound_div a b"
  by (simp add: qRound_div_def pos_imp_zdiv_nonneg_iff)

lemma clampSpan_le: "(\<And>m. least = Some m \<Longrightarrow> m \<le> n) \<Longrightarrow> clampSpan n least s \<le> n"
  by (auto simp: clampSpan_def split: option.split)

text \<open>A base placement that a remap can start from.\<close>

definition well_placed :: "placement \<Rightarrow> bool" where
  "well_placed b \<longleftrightarrow> 0 \<le> col b \<and> 0 \<le> row b \<and> instanceId b \<noteq> ''''"

lemma scaled_inside:
  assumes "well_placed b" "\<not> exceedsGrid reg cs rs (widgetId b)" "0 < cs" "0 < rs"
    "0 < fst saved" "0 < snd saved"
  shows "inside cs rs (scaled reg saved cs rs b t)"
proof -
  have "clampSpan cs (map_option minCols (lookup reg (widgetId b))) (colSpan b) \<le> cs"
    "clampSpan rs (map_option minRows (lookup reg (widgetId b))) (rowSpan b) \<le> rs"
    using assms(2) by (auto intro!: clampSpan_le simp: exceedsGrid_def)
  moreover have "0 \<le> qRound_div (col b * cs) (fst saved)" "0 \<le> qRound_div (row b * rs) (snd saved)"
    using assms by (auto intro!: qRound_div_nonneg simp: well_placed_def)
  ultimately show ?thesis by (auto simp: inside_def scaled_def Let_def)
qed

lemma scaled_keeps [simp]:
  "instanceId (scaled reg saved cs rs b t) = instanceId b" "widgetId (scaled reg saved cs rs b t) = widgetId b"
  "page (scaled reg saved cs rs b t) = t"
  by (simp_all add: scaled_def Let_def)

text \<open>What remapping a base placement promises of the result.\<close>

definition remapped :: "registry option \<Rightarrow> int \<Rightarrow> int \<Rightarrow> int \<Rightarrow> placement \<Rightarrow> placement \<Rightarrow> bool" where
  "remapped reg cs rs t b p \<longleftrightarrow> instanceId p = instanceId b \<and> widgetId p = widgetId b
     \<and> (visible p \<longleftrightarrow> \<not> exceedsGrid reg cs rs (widgetId b)) \<and> (visible p \<longrightarrow> inside cs rs p)
     \<and> (well_placed p) \<and> t \<le> page p"

lemma remapOne_ok:
  assumes b: "well_placed b" and dims: "0 < cs" "0 < rs" "0 < fst saved" "0 < snd saved"
    and inv: "occ_inv cs rs occs ps" "length ps \<le> 100"
    and res: "remapOne reg saved cs rs b t occs = (p, occs')"
  shows "occ_inv cs rs occs' (ps @ [p]) \<and> (\<forall>q\<in>set ps. apart q p) \<and> remapped reg cs rs t b p"
proof (cases "exceedsGrid reg cs rs (widgetId b)")
  case True
  then have "p = b \<lparr> page := t, visible := False \<rparr>" "occs' = occs"
    using res by (simp_all add: remapOne_def)
  then show ?thesis using inv(1) True b
    by (auto simp: occ_inv_hidden apart_def remapped_def well_placed_def)
next
  case False
  let ?s = "scaled reg saved cs rs b t"
  obtain p1 occs1 where p1: "place_scaled cs rs ?s occs = (p1, occs1)" by fastforce
  have ok: "same_occ cs rs occs occs1" "relocated cs rs ?s p1" "free cs rs occs p1"
    using place_scaled_ok [OF scaled_inside [OF b False dims] _ _ inv p1] dims by auto
  have p: "p = p1 \<lparr> visible := True \<rparr>" and occs': "occs' = occs1(page p \<mapsto>
      mark_cells cs rs (instanceId p) (rect_cells (col p) (row p) (colSpan p) (rowSpan p))
        (page_occ cs rs (page p) occs1))"
    using res False p1 by (auto simp: remapOne_def)
  have ins: "inside cs rs p" "instanceId p = instanceId b" "widgetId p = widgetId b" "t \<le> page p"
    using ok(2) by (auto simp: p relocated_def inside_def)
  have "free cs rs occs1 p"
    using ok(3) same_occ_cong(1) [OF ok(1)] by (simp add: p free_def cells_def)
  moreover have inv1: "occ_inv cs rs occs1 ps" using inv(1) same_occ_cong(3) [OF ok(1)] by simp
  ultimately have "\<forall>q\<in>set ps. apart q p" using free_apart ins(1) by blast
  moreover have "occ_inv cs rs occs' (ps @ [p])"
    unfolding occs' using b ins by (intro occ_inv_place [OF inv1]) (simp_all add: p well_placed_def)
  ultimately show ?thesis using ins False b by (auto simp: remapped_def p well_placed_def inside_def)
qed

section \<open>The two passes\<close>

lemma selected_simps [simp]:
  "selected sel [] ps = []"
  "selected sel (b # bs) (p # ps) = (if sel (page b) then p # selected sel bs ps else selected sel bs ps)"
  by (simp_all add: selected_def)

lemma mset_selected:
  "length ps = length bs \<Longrightarrow> mset (selected sel bs ps) + mset (selected (\<lambda>q. \<not> sel q) bs ps) = mset ps"
  by (induction rule: list_induct2) auto

lemma remap_pass_frame:
  "length ps = length bs \<Longrightarrow> fst (remap_pass one sel t bs ps occs) = ps' \<Longrightarrow>
     length ps' = length bs \<and> selected (\<lambda>q. \<not> sel q) bs ps' = selected (\<lambda>q. \<not> sel q) bs ps
     \<and> (\<forall>i<length bs. \<not> sel (page (bs ! i)) \<longrightarrow> ps' ! i = ps ! i)"
proof (induction ps bs arbitrary: occs ps' rule: list_induct2)
  case Nil
  then show ?case by auto
next
  case (Cons p ps b bs)
  then show ?case by (auto split: prod.splits simp: nth_Cons split: nat.splits) (metis fst_conv)+
qed

text \<open>What a pass needs of the step it repeats.\<close>

definition step_ok where
  "step_ok cs rs one Q b \<longleftrightarrow> (\<forall>q occs ps p occs'. occ_inv cs rs occs ps \<and> length ps \<le> 100
      \<and> one b q occs = (p, occs') \<longrightarrow>
      occ_inv cs rs occs' (ps @ [p]) \<and> (\<forall>q\<in>set ps. apart q p) \<and> Q q b p)"

lemma step_okD:
  "step_ok cs rs one Q b \<Longrightarrow> occ_inv cs rs occs ps \<Longrightarrow> length ps \<le> 100 \<Longrightarrow> one b q occs = (p, occs') \<Longrightarrow>
     occ_inv cs rs occs' (ps @ [p]) \<and> (\<forall>q\<in>set ps. apart q p) \<and> Q q b p"
  unfolding step_ok_def by blast

lemma remap_pass_ok:
  assumes one: "\<forall>b\<in>set bs. step_ok cs rs one Q b"
    and "length ps = length bs" and "occ_inv cs rs occs qs" "sorted_wrt apart qs"
    and "length qs + length (filter (\<lambda>b. sel (page b)) bs) \<le> 101"
    and "remap_pass one sel t bs ps occs = (ps', occs')"
  shows "occ_inv cs rs occs' (qs @ selected sel bs ps') \<and> sorted_wrt apart (qs @ selected sel bs ps')
    \<and> (\<forall>i<length bs. sel (page (bs ! i)) \<longrightarrow> Q (t (page (bs ! i))) (bs ! i) (ps' ! i))"
  using assms(2,1,3-)
proof (induction ps bs arbitrary: occs qs ps' rule: list_induct2)
  case Nil
  then show ?case by auto
next
  case (Cons p ps b bs)
  note one = Cons.prems(1)
  show ?case
  proof (cases "sel (page b)")
    case True
    obtain p1 occs1 where p1: "one b (t (page b)) occs = (p1, occs1)" by fastforce
    obtain ps2 where r: "remap_pass one sel t bs ps occs1 = (ps2, occs')" "ps' = p1 # ps2"
      using Cons.prems(5) True p1 by (auto split: prod.splits)
    have st: "occ_inv cs rs occs1 (qs @ [p1])" "\<forall>q\<in>set qs. apart q p1" "Q (t (page b)) b p1"
      using step_okD [of cs rs one Q b, OF _ Cons.prems(2) _ p1] one Cons.prems(4) True by auto
    have "sorted_wrt apart (qs @ [p1])" using Cons.prems(3) st(2) by (simp add: sorted_wrt_append)
    then have "occ_inv cs rs occs' ((qs @ [p1]) @ selected sel bs ps2)
      \<and> sorted_wrt apart ((qs @ [p1]) @ selected sel bs ps2)
      \<and> (\<forall>i<length bs. sel (page (bs ! i)) \<longrightarrow> Q (t (page (bs ! i))) (bs ! i) (ps2 ! i))"
      using one Cons.prems(4) True by (intro Cons.IH [OF _ st(1) _ _ r(1)]) auto
    then show ?thesis using True st(3) by (auto simp: r(2) nth_Cons split: nat.splits)
  next
    case False
    obtain ps2 where r: "remap_pass one sel t bs ps occs = (ps2, occs')" "ps' = p # ps2"
      using Cons.prems(5) False by (auto split: prod.splits)
    have "occ_inv cs rs occs' (qs @ selected sel bs ps2) \<and> sorted_wrt apart (qs @ selected sel bs ps2)
      \<and> (\<forall>i<length bs. sel (page (bs ! i)) \<longrightarrow> Q (t (page (bs ! i))) (bs ! i) (ps2 ! i))"
      using one Cons.prems(4) False by (intro Cons.IH [OF _ Cons.prems(2,3) _ r(1)]) auto
    then show ?thesis using False by (auto simp: r(2) nth_Cons split: nat.splits)
  qed
qed

lemma fold_max_le_iff:
  "fold (\<lambda>p n. max n (f p)) ps a \<le> (m::'a::linorder) \<longleftrightarrow> a \<le> m \<and> (\<forall>p\<in>set ps. f p \<le> m)"
  by (induction ps arbitrary: a) auto

lemma highestNormalPage_ge: "p \<in> set ps \<Longrightarrow> page p \<le> highestNormalPage ps"
  using fold_max_le_iff [of page ps "- 1" "highestNormalPage ps"] by (simp add: highestNormalPage_def)

lemma reservedTarget_ge: "q \<in> set order \<Longrightarrow> start \<le> reservedTarget order start q"
proof -
  assume q: "q \<in> set order"
  have "dom (map_of (zip order [start..start + int (length order) - 1])) = set order" by simp
  with q obtain t where t: "map_of (zip order [start..start + int (length order) - 1]) q = Some t" by blast
  then have "t \<in> set [start..start + int (length order) - 1]"
    by (meson map_of_SomeD set_zip_rightD)
  then show ?thesis using t by (simp add: reservedTarget_def)
qed

lemma selected_nth:
  "length ps = length bs \<Longrightarrow> i < length bs \<Longrightarrow> sel (page (bs ! i)) \<Longrightarrow> ps ! i \<in> set (selected sel bs ps)"
proof (induction ps bs arbitrary: i rule: list_induct2)
  case (Cons p ps b bs)
  then show ?case by (cases i) auto
qed simp

lemma length_selected:
  "length ps = length bs \<Longrightarrow> length (selected sel bs ps) = length (filter (\<lambda>b. sel (page b)) bs)"
  by (induction rule: list_induct2) auto

lemma remap_layout_ok:
  assumes bs: "\<forall>b\<in>set bs. well_placed b" "length bs \<le> 101"
    and dims: "0 < cs" "0 < rs" "0 < fst saved" "0 < snd saved"
    and ps: "ps = remap_layout reg saved n cs rs bs"
  shows "length ps = length bs" "sorted_wrt apart ps"
    "\<forall>i<length bs. \<exists>t. remapped reg cs rs t (bs ! i) (ps ! i)"
    "\<forall>i<length bs. page (bs ! i) \<notin> reservedPages reg bs \<longrightarrow> page (bs ! i) \<le> page (ps ! i)"
    "\<forall>i<length bs. \<forall>j<length bs. page (bs ! i) \<notin> reservedPages reg bs \<longrightarrow>
       page (bs ! j) \<in> reservedPages reg bs \<longrightarrow> page (ps ! i) < page (ps ! j)"
proof -
  let ?R = "reservedPages reg bs" and ?one = "remapOne reg saved cs rs"
  obtain ps1 occs1 where p1: "remap_pass ?one (\<lambda>q. q \<notin> ?R) (\<lambda>q. q) bs bs Map.empty = (ps1, occs1)" by fastforce
  let ?order = "sorted_list_of_set ?R"
  define start where "start = max (highestNormalPage (selected (\<lambda>q. q \<notin> ?R) bs ps1) + 1) (n - int (length ?order))"
  obtain ps2 occs2 where p2: "remap_pass ?one (\<lambda>q. q \<in> ?R) (reservedTarget ?order start) bs ps1 occs1 = (ps2, occs2)"
    by fastforce
  have eq: "ps = ps2" using p1 p2 by (simp add: ps remap_layout_def start_def)
  have one: "\<forall>b\<in>set bs. step_ok cs rs ?one (remapped reg cs rs) b"
    using remapOne_ok [OF _ dims] bs(1) by (force simp: step_ok_def)
  have f1: "length ps1 = length bs" using remap_pass_frame [OF refl] p1 by (metis fst_conv)
  have ok1: "occ_inv cs rs occs1 (selected (\<lambda>q. q \<notin> ?R) bs ps1)" "sorted_wrt apart (selected (\<lambda>q. q \<notin> ?R) bs ps1)"
    "\<forall>i<length bs. page (bs ! i) \<notin> ?R \<longrightarrow> remapped reg cs rs (page (bs ! i)) (bs ! i) (ps1 ! i)"
    using remap_pass_ok [OF one refl occ_inv_Nil _ _ p1]
      le_trans [OF length_filter_le bs(2)] by auto
  have f2: "length ps2 = length bs" "selected (\<lambda>q. q \<notin> ?R) bs ps2 = selected (\<lambda>q. q \<notin> ?R) bs ps1"
    "\<forall>i<length bs. page (bs ! i) \<notin> ?R \<longrightarrow> ps2 ! i = ps1 ! i"
    using remap_pass_frame [OF f1, of ?one "\<lambda>q. q \<in> ?R"] p2 by (metis fst_conv)+
  have cnt: "length (selected (\<lambda>q. q \<notin> ?R) bs ps1) + length (filter (\<lambda>b. page b \<in> ?R) bs) \<le> 101"
    using bs(2) sum_length_filter_compl [of "\<lambda>b. page b \<in> ?R" bs] by (simp add: length_selected [OF f1])
  have ok2: "sorted_wrt apart (selected (\<lambda>q. q \<notin> ?R) bs ps1 @ selected (\<lambda>q. q \<in> ?R) bs ps2)"
    "\<forall>i<length bs. page (bs ! i) \<in> ?R \<longrightarrow>
       remapped reg cs rs (reservedTarget ?order start (page (bs ! i))) (bs ! i) (ps2 ! i)"
    using remap_pass_ok [OF one f1 ok1(1,2) cnt p2] by blast+
  show "length ps = length bs" using f2(1) eq by simp
  have "mset (selected (\<lambda>q. q \<notin> ?R) bs ps1 @ selected (\<lambda>q. q \<in> ?R) bs ps2) = mset ps2"
    using mset_selected [OF f2(1), of "\<lambda>q. q \<in> ?R"] by (simp add: f2(2) add.commute)
  then show "sorted_wrt apart ps" using sorted_wrt_perm ok2(1) eq by blast
  show "\<forall>i<length bs. \<exists>t. remapped reg cs rs t (bs ! i) (ps ! i)"
    using ok1(3) ok2(2) f2(3) eq by metis
  show "\<forall>i<length bs. page (bs ! i) \<notin> ?R \<longrightarrow> page (bs ! i) \<le> page (ps ! i)"
    using ok1(3) f2(3) by (simp add: eq remapped_def)
  show "\<forall>i<length bs. \<forall>j<length bs. page (bs ! i) \<notin> ?R \<longrightarrow> page (bs ! j) \<in> ?R \<longrightarrow> page (ps ! i) < page (ps ! j)"
  proof (intro allI impI)
    fix i j
    assume ij: "i < length bs" "j < length bs" and i: "page (bs ! i) \<notin> ?R" and j: "page (bs ! j) \<in> ?R"
    have "page (ps1 ! i) \<le> highestNormalPage (selected (\<lambda>q. q \<notin> ?R) bs ps1)"
      using ij(1) i f1 by (intro highestNormalPage_ge selected_nth)
    then have "page (ps ! i) < start" using f2(3) ij(1) i by (simp add: eq start_def)
    also have "start \<le> reservedTarget ?order start (page (bs ! j))"
      using j by (intro reservedTarget_ge) (simp add: reservedPages_def)
    also have "\<dots> \<le> page (ps ! j)" using ok2(2) ij(2) j by (simp add: eq remapped_def)
    finally show "page (ps ! i) < page (ps ! j)" .
  qed
qed

end
