(* ===== verification/Widget_Invariant.thy ===== *)
theory Widget_Invariant
  imports Widget_Layout
begin

text \<open>
  The invariant of the widget grid over every sequence of operations: the widgets shown never
  overlap, each has an identifier of its own, the layout a later remap starts from is as good,
  and the active page exists.
\<close>

section \<open>Fresh identifiers\<close>

lemma dec_string_no_dash: "CHR ''-'' \<notin> set (dec_string n)"
proof (induction n rule: dec_string.induct)
  case (1 n)
  have d: "CHR ''-'' \<noteq> char_of (48 + m)" if "m < 10" for m :: nat
  proof
    assume "CHR ''-'' = char_of (48 + m)"
    then have "(of_char (CHR ''-'') :: nat) = of_char (char_of (48 + m) :: char)" by (rule arg_cong)
    then show False using that by simp
  qed
  show ?case
    using 1 d [of n] d [of "n mod 10"] by (subst dec_string.simps) (auto simp: not_less)
qed

lemma dec_string_inj: "dec_string m = dec_string n \<Longrightarrow> m = n"
proof (induction m arbitrary: n rule: dec_string.induct)
  case (1 m)
  have ne: "dec_string k \<noteq> []" for k by (subst dec_string.simps) simp
  have d: "a < 10 \<Longrightarrow> b < 10 \<Longrightarrow> char_of (48 + a) = (char_of (48 + b) :: char) \<Longrightarrow> a = b" for a b :: nat
    using arg_cong [where f = "of_char :: char \<Rightarrow> nat", of "char_of (48 + a)" "char_of (48 + b)"] by simp
  show ?case
  proof (cases "m < 10")
    case True
    then have "n < 10" using 1(2) ne [of "n div 10"]
      by (subst (asm) (1 2) dec_string.simps) (auto split: if_splits)
    then show ?thesis using True 1(2) d by (simp add: dec_digit)
  next
    case False
    then have "\<not> n < 10" using 1(2) ne [of "m div 10"]
      by (subst (asm) (1 2) dec_string.simps) (auto split: if_splits)
    with False 1(2) have "dec_string (m div 10) = dec_string (n div 10)"
        "char_of (48 + m mod 10) = (char_of (48 + n mod 10) :: char)"
      by (subst (asm) (1 2) dec_string.simps, simp)+
    then have "m div 10 = n div 10" "m mod 10 = n mod 10" using 1(1) [OF False] d by auto
    then show ?thesis by (metis div_mult_mod_eq)
  qed
qed

definition fresh_ids :: "nat \<Rightarrow> string list \<Rightarrow> bool" where
  "fresh_ids n is \<longleftrightarrow> (\<forall>w m. w @ ''-'' @ dec_string m \<in> set is \<longrightarrow> m < n)"

lemma numbered_id_inj:
  assumes "w @ ''-'' @ dec_string m = v @ ''-'' @ dec_string n"
  shows "m = n"
proof -
  have rev_split: "rev (dec_string m) @ CHR ''-'' # rev w = rev (dec_string n) @ CHR ''-'' # rev v"
    using arg_cong [OF assms, of rev] by simp
  have "takeWhile (\<lambda>c. c \<noteq> CHR ''-'') (rev (dec_string k) @ CHR ''-'' # xs) = rev (dec_string k)" for k xs
    using dec_string_no_dash by (subst takeWhile_append2) auto
  then have "rev (dec_string m) = rev (dec_string n)" using rev_split by metis
  then show ?thesis using dec_string_inj by simp
qed

lemma fresh_ids_new: "fresh_ids n is \<Longrightarrow> w @ ''-'' @ dec_string n \<notin> set is"
  by (auto simp: fresh_ids_def)

lemma fresh_ids_snoc: "fresh_ids n is \<Longrightarrow> fresh_ids (Suc n) (is @ [w @ ''-'' @ dec_string n])"
  unfolding fresh_ids_def
proof (intro allI impI)
  fix v m
  assume fresh: "\<forall>v m. v @ ''-'' @ dec_string m \<in> set is \<longrightarrow> m < n"
    and "v @ ''-'' @ dec_string m \<in> set (is @ [w @ ''-'' @ dec_string n])"
  then consider "v @ ''-'' @ dec_string m \<in> set is" | "v @ ''-'' @ dec_string m = w @ ''-'' @ dec_string n"
    by (simp only: set_append list.set) blast
  then show "m < Suc n"
  proof cases
    case 1
    then show ?thesis using fresh less_Suc_eq by blast
  next
    case 2
    then show ?thesis using numbered_id_inj by blast
  qed
qed

lemma fresh_ids_subset: "fresh_ids n is \<Longrightarrow> set js \<subseteq> set is \<Longrightarrow> fresh_ids n js"
  by (auto simp: fresh_ids_def)

section \<open>The invariant\<close>

definition layout_ok :: "placement list \<Rightarrow> bool" where
  "layout_ok ps \<longleftrightarrow> (\<forall>p\<in>set ps. well_placed p) \<and> sorted_wrt apart ps"

abbreviation ids :: "placement list \<Rightarrow> string list" where
  "ids ps \<equiv> map instanceId ps"

definition dims_ok :: "int \<Rightarrow> int \<Rightarrow> bool" where
  "dims_ok cs rs \<longleftrightarrow> cs = 0 \<or> 0 < cs \<and> 0 < rs"

definition pages_ok :: "grid \<Rightarrow> bool" where
  "pages_ok g \<longleftrightarrow> 0 \<le> activePage g \<and> activePage g < pageCount g"

definition grid_ok :: "grid \<Rightarrow> bool" where
  "grid_ok g \<longleftrightarrow> layout_ok (live g) \<and> layout_ok (base g) \<and> ids (base g) = ids (live g)
     \<and> distinct (ids (live g)) \<and> fresh_ids (nextInstanceId g) (ids (live g)) \<and> length (live g) \<le> 101
     \<and> dims_ok (cols g) (rows g) \<and> dims_ok (savedCols g) (savedRows g)
     \<and> (remapPending g \<longrightarrow> cols g \<noteq> 0) \<and> pages_ok g"

lemma ids_length: "ids ps = ids qs \<Longrightarrow> length ps = length qs"
  by (metis length_map)

lemma pages_ok_set [simp]: "pages_ok (setCurrentPageCount n g)"
  by (auto simp: pages_ok_def setCurrentPageCount_def qBound_def Let_def)

lemma setCurrentPageCount_sel [simp]:
  "live (setCurrentPageCount n g) = live g" "base (setCurrentPageCount n g) = base g"
  "cols (setCurrentPageCount n g) = cols g" "rows (setCurrentPageCount n g) = rows g"
  "savedCols (setCurrentPageCount n g) = savedCols g" "savedRows (setCurrentPageCount n g) = savedRows g"
  "nextInstanceId (setCurrentPageCount n g) = nextInstanceId g"
  "remapPending (setCurrentPageCount n g) = remapPending g" "registry (setCurrentPageCount n g) = registry g"
  by (simp_all add: setCurrentPageCount_def Let_def)

lemma remap_layout_layout_ok:
  assumes "layout_ok bs" "length bs \<le> 101" "0 < cs" "0 < rs" "0 < fst saved" "0 < snd saved"
  shows "layout_ok (remap_layout reg saved n cs rs bs) \<and> ids (remap_layout reg saved n cs rs bs) = ids bs"
proof -
  let ?ps = "remap_layout reg saved n cs rs bs"
  have wp: "\<forall>b\<in>set bs. well_placed b" using assms(1) by (simp add: layout_ok_def)
  note ok = remap_layout_ok [OF wp assms(2-6) refl, of reg n]
  have "\<forall>i<length bs. instanceId (?ps ! i) = instanceId (bs ! i) \<and> well_placed (?ps ! i)"
    using ok(3) by (auto simp: remapped_def)
  then have "ids ?ps = ids bs" "\<forall>p\<in>set ?ps. well_placed p"
    using ok(1) by (auto intro!: nth_equalityI simp: in_set_conv_nth)
  then show ?thesis using ok(2) by (simp add: layout_ok_def)
qed

lemma remapPlacements_ok:
  assumes "grid_ok g" "cols g \<noteq> 0" "savedCols g \<noteq> 0"
  shows "grid_ok (remapPlacements (cols g) (rows g) g)"
proof -
  let ?ps = "remap_layout (registry g) (savedCols g, savedRows g) (basePageCount g) (cols g) (rows g) (base g)"
  have "length (base g) = length (live g)" using assms(1) by (auto simp: grid_ok_def dest: ids_length)
  then have "layout_ok ?ps \<and> ids ?ps = ids (base g)"
    using assms by (intro remap_layout_layout_ok) (auto simp: grid_ok_def dims_ok_def)
  moreover from this have "length ?ps = length (base g)" using ids_length by blast
  ultimately show ?thesis using assms(1) \<open>length (base g) = length (live g)\<close>
    by (simp add: grid_ok_def remapPlacements_def Let_def)
qed

lemma copyBase_ok: "grid_ok g \<Longrightarrow> grid_ok (copyBase g)"
  by (auto simp: grid_ok_def copyBase_def dest: ids_length)

lemma applyPendingRemap_ok:
  assumes "grid_ok g"
  shows "grid_ok (applyPendingRemap g)"
proof (cases "remapPending g")
  case True
  define g1 where "g1 = g \<lparr> remapPending := False \<rparr>"
  have g1: "grid_ok g1" "cols g1 \<noteq> 0"
    using assms True by (auto simp: grid_ok_def g1_def pages_ok_def)
  then have "grid_ok (g1 \<lparr> savedCols := cols g1, savedRows := rows g1 \<rparr>)"
    by (auto simp: grid_ok_def pages_ok_def)
  then show ?thesis
    using True g1 remapPlacements_ok [OF g1] copyBase_ok
    by (simp add: applyPendingRemap_def Let_def g1_def [symmetric])
qed (use assms in \<open>simp add: applyPendingRemap_def\<close>)

lemma setGridDimensions_ok:
  assumes "grid_ok g" "0 < cs" "0 < rs"
  shows "grid_ok (setGridDimensions cs rs g)"
proof -
  define g1 where "g1 = g \<lparr> cols := cs, rows := rs \<rparr>"
  have g1: "grid_ok g1" "cols g1 = cs" "rows g1 = rs"
    using assms by (auto simp: grid_ok_def g1_def pages_ok_def dims_ok_def)
  then have "grid_ok (g1 \<lparr> savedCols := cs, savedRows := rs \<rparr>)"
    using assms by (auto simp: grid_ok_def pages_ok_def dims_ok_def)
  moreover have "grid_ok (g \<lparr> pendingCols := cs, pendingRows := rs, remapPending := True, cols := cs, rows := rs \<rparr>)"
    using assms by (auto simp: grid_ok_def pages_ok_def dims_ok_def)
  ultimately show ?thesis
    using assms g1 remapPlacements_ok [OF g1(1)] copyBase_ok
    by (simp add: setGridDimensions_def Let_def g1_def [symmetric])
qed

section \<open>User edits\<close>

lemma promoteToBase_ok:
  assumes "layout_ok (live g)" "distinct (ids (live g))" "fresh_ids (nextInstanceId g) (ids (live g))"
    "length (live g) \<le> 101" "dims_ok (cols g) (rows g)" "remapPending g \<longrightarrow> cols g \<noteq> 0" "pages_ok g"
  shows "grid_ok (promoteToBase g)"
  using assms by (simp add: grid_ok_def promoteToBase_def adoptLiveAsBaseline_def pages_ok_def)

lemma canPlaceOnPage_apart:
  assumes "canPlaceOnPage g c r w h q excl" "p \<in> set (live g)" "excl = '''' \<or> instanceId p \<noteq> excl"
    and "col p' = c" "row p' = r" "colSpan p' = w" "rowSpan p' = h" "page p' = q"
  shows "apart p p'"
  using assms by (fastforce simp: canPlaceOnPage_def list_all_iff apart_def in_cells overlapsRect_def)

lemma canPlaceOnPage_nonneg: "canPlaceOnPage g c r w h q excl \<Longrightarrow> 0 \<le> c \<and> 0 \<le> r"
  by (auto simp: canPlaceOnPage_def)

lemma sorted_wrt_apart_update:
  assumes "sorted_wrt apart ps" "k < length ps" "\<And>j. j < length ps \<Longrightarrow> j \<noteq> k \<Longrightarrow> apart (ps ! j) p"
  shows "sorted_wrt apart (ps[k := p])"
  unfolding sorted_wrt_iff_nth_less
proof (intro allI impI)
  fix i j
  assume "i < j" "j < length (ps[k := p])"
  then show "apart (ps[k := p] ! i) (ps[k := p] ! j)"
    using assms apart_sym by (auto simp: nth_list_update sorted_wrt_iff_nth_less)
qed

lemma findPlacement_Some:
  "findPlacement ps i = Some k \<Longrightarrow> k < length ps \<and> instanceId (ps ! k) = i"
  by (induction ps arbitrary: k) (auto split: if_splits)

text \<open>
  Replacing one widget keeps the invariant when the new one has the old identifier and does not
  collide with the others.
\<close>

lemma updatePlacement_ok:
  assumes g: "grid_ok g" and k: "k < length (live g)"
    and f: "instanceId (f (live g ! k)) = instanceId (live g ! k)" "well_placed (f (live g ! k))"
      "\<And>p. p \<in> set (live g) \<Longrightarrow> instanceId p \<noteq> instanceId (live g ! k) \<Longrightarrow> apart p (f (live g ! k))"
  shows "grid_ok (promoteToBase (updatePlacement k f g))"
proof (rule promoteToBase_ok)
  let ?p = "f (live g ! k)"
  have ids: "ids ((live g)[k := ?p]) = ids (live g)"
    using k f(1) by (simp add: map_update list_update_same_conv)
  have dist: "instanceId (live g ! j) \<noteq> instanceId (live g ! k)" if "j < length (live g)" "j \<noteq> k" for j
    using g k that nth_eq_iff_index_eq [of "ids (live g)" j k] by (auto simp: grid_ok_def)
  have "sorted_wrt apart ((live g)[k := ?p])"
    using g k f(3) dist by (intro sorted_wrt_apart_update) (auto simp: grid_ok_def layout_ok_def)
  then show "layout_ok (live (updatePlacement k f g))"
    using g k f(2) by (auto simp: grid_ok_def layout_ok_def updatePlacement_def dest!: subsetD [OF set_update_subset_insert])
  show "distinct (ids (live (updatePlacement k f g)))"
    and "fresh_ids (nextInstanceId (updatePlacement k f g)) (ids (live (updatePlacement k f g)))"
    using g ids by (simp_all add: grid_ok_def updatePlacement_def)
qed (use g in \<open>auto simp: grid_ok_def updatePlacement_def pages_ok_def\<close>)

text \<open>Restyling a widget, which keeps its place.\<close>

lemma apart_restyle:
  assumes "col p' = col p" "row p' = row p" "colSpan p' = colSpan p" "rowSpan p' = rowSpan p"
    "page p' = page p" "visible p' = visible p"
  shows "apart q p' = apart q p"
  using assms by (simp add: apart_def cells_def)

lemma nth_apart:
  assumes "grid_ok g" "k < length (live g)" "p \<in> set (live g)" "instanceId p \<noteq> instanceId (live g ! k)"
  shows "apart p (live g ! k)"
proof -
  obtain j where j: "j < length (live g)" "p = live g ! j" using assms(3) by (auto simp: in_set_conv_nth)
  then have "j \<noteq> k" using assms(4) by auto
  moreover have srt: "sorted_wrt apart (live g)" using assms(1) by (simp add: grid_ok_def layout_ok_def)
  ultimately have "apart (live g ! j) (live g ! k) \<or> apart (live g ! k) (live g ! j)"
    using j(1) assms(2) sorted_wrt_nth_less [OF srt] by (metis linorder_neqE_nat)
  then show ?thesis using j(2) apart_sym by blast
qed

lemma live_well_placed: "grid_ok g \<Longrightarrow> k < length (live g) \<Longrightarrow> well_placed (live g ! k)"
  by (simp add: grid_ok_def layout_ok_def)

lemma moveWidget_ok:
  assumes "grid_ok g"
  shows "grid_ok (fst (moveWidget i c r g))"
proof -
  define g1 where "g1 = applyPendingRemap g"
  have g1: "grid_ok g1" using applyPendingRemap_ok assms by (simp add: g1_def)
  have "grid_ok (promoteToBase (updatePlacement k (\<lambda>p. p \<lparr> col := c, row := r \<rparr>) g1))"
    if k: "findPlacement (live g1) i = Some k"
      and c: "canPlaceOnPage g1 c r (colSpan (live g1 ! k)) (rowSpan (live g1 ! k)) (page (live g1 ! k)) i" for k
    using findPlacement_Some [OF k] live_well_placed [OF g1] canPlaceOnPage_nonneg [OF c]
    by (intro updatePlacement_ok [OF g1] canPlaceOnPage_apart [OF c]) (auto simp: well_placed_def)
  then show ?thesis using g1 by (auto simp: moveWidget_def Let_def g1_def [symmetric] split: option.split)
qed

lemma resizeWidget_ok:
  assumes "grid_ok g"
  shows "grid_ok (fst (resizeWidget i w h g))"
proof -
  define g1 where "g1 = applyPendingRemap g"
  have g1: "grid_ok g1" using applyPendingRemap_ok assms by (simp add: g1_def)
  have "grid_ok (promoteToBase (updatePlacement k (\<lambda>p. p \<lparr> colSpan := w, rowSpan := h \<rparr>) g1))"
    if k: "findPlacement (live g1) i = Some k"
      and c: "canPlaceOnPage g1 (col (live g1 ! k)) (row (live g1 ! k)) w h (page (live g1 ! k)) i" for k
    using findPlacement_Some [OF k] live_well_placed [OF g1]
    by (intro updatePlacement_ok [OF g1] canPlaceOnPage_apart [OF c]) (auto simp: well_placed_def)
  then show ?thesis using g1 by (auto simp: resizeWidget_def Let_def g1_def [symmetric] split: option.split)
qed

lemma resizeWidgetFromEdge_ok:
  assumes "grid_ok g"
  shows "grid_ok (fst (resizeWidgetFromEdge i c r w h g))"
proof -
  define g1 where "g1 = applyPendingRemap g"
  have g1: "grid_ok g1" using applyPendingRemap_ok assms by (simp add: g1_def)
  have "grid_ok (promoteToBase (updatePlacement k
      (\<lambda>p. p \<lparr> col := c, row := r, colSpan := w, rowSpan := h \<rparr>) g1))"
    if k: "findPlacement (live g1) i = Some k"
      and c: "canPlaceOnPage g1 c r w h (page (live g1 ! k)) i" for k
    using findPlacement_Some [OF k] live_well_placed [OF g1] canPlaceOnPage_nonneg [OF c]
    by (intro updatePlacement_ok [OF g1] canPlaceOnPage_apart [OF c]) (auto simp: well_placed_def)
  then show ?thesis using g1 by (auto simp: resizeWidgetFromEdge_def Let_def g1_def [symmetric] split: option.split)
qed

lemma restyle_ok:
  assumes g: "grid_ok g" and k: "findPlacement (live g) i = Some k"
    and f: "\<And>p. instanceId (f p) = instanceId p" "\<And>p. col (f p) = col p" "\<And>p. row (f p) = row p"
      "\<And>p. colSpan (f p) = colSpan p" "\<And>p. rowSpan (f p) = rowSpan p" "\<And>p. page (f p) = page p"
      "\<And>p. visible (f p) = visible p"
  shows "grid_ok (promoteToBase (updatePlacement k f g))"
  using findPlacement_Some [OF k] live_well_placed [OF g] nth_apart [OF g] apart_restyle [OF f(2-7)]
  by (intro updatePlacement_ok [OF g]) (auto simp: f well_placed_def)

lemma setWidgetOpacity_ok: "grid_ok g \<Longrightarrow> grid_ok (setWidgetOpacity i x g)"
  using applyPendingRemap_ok [of g]
  by (auto simp: setWidgetOpacity_def Let_def split: option.split intro!: restyle_ok)

lemma setWidgetConfig_ok: "grid_ok g \<Longrightarrow> grid_ok (fst (setWidgetConfig ops i raw g))"
  using applyPendingRemap_ok [of g]
  by (auto simp: setWidgetConfig_def Let_def split: option.split intro!: restyle_ok)

text \<open>Adding and removing widgets.\<close>

lemma base_applyPendingRemap [simp]: "base (applyPendingRemap g) = base g"
  by (simp add: applyPendingRemap_def copyBase_def remapPlacements_def Let_def)

lemma length_applyPendingRemap:
  assumes "grid_ok g"
  shows "length (live (applyPendingRemap g)) = length (live g)"
  using assms applyPendingRemap_ok [OF assms] ids_length unfolding grid_ok_def
  by (metis base_applyPendingRemap)

lemma placeWidget_ok:
  assumes "grid_ok g" "length (live g) < 101"
  shows "grid_ok (fst (placeWidget w c r cspan rspan g))"
proof -
  define g1 where "g1 = applyPendingRemap g"
  have g1: "grid_ok g1" "length (live g1) < 101"
    using applyPendingRemap_ok length_applyPendingRemap assms by (simp_all add: g1_def)
  define i where "i = w @ ''-'' @ dec_string (nextInstanceId g1)"
  define p where "p = new_placement i w c r cspan rspan (activePage g1)"
  define g2 where "g2 = g1 \<lparr> nextInstanceId := nextInstanceId g1 + 1, live := live g1 @ [p] \<rparr>"
  have sel: "col p = c" "row p = r" "colSpan p = cspan" "rowSpan p = rspan" "page p = activePage g1"
    "instanceId p = i" by (simp_all add: p_def new_placement_def)
  have lay: "layout_ok (live g2)" if c: "canPlaceOnPage g1 c r cspan rspan (activePage g1) ''''"
    using g1(1) canPlaceOnPage_apart [OF c _ _ sel(1-5)] canPlaceOnPage_nonneg [OF c] sel
    by (auto simp: g2_def grid_ok_def layout_ok_def sorted_wrt_append well_placed_def i_def)
  have idn: "distinct (ids (live g2))" "fresh_ids (nextInstanceId g2) (ids (live g2))"
    using g1(1) fresh_ids_new [of "nextInstanceId g1" "ids (live g1)" w]
      fresh_ids_snoc [of "nextInstanceId g1" "ids (live g1)" w]
    by (simp_all add: g2_def grid_ok_def sel(6) i_def)
  have "grid_ok (promoteToBase (if requiredPageCount (live g2) > pageCount g2
      then setCurrentPageCount (requiredPageCount (live g2)) g2 else g2))"
    if "canPlaceOnPage g1 c r cspan rspan (activePage g1) ''''"
    using lay [OF that] idn g1 by (intro promoteToBase_ok) (auto simp: g2_def grid_ok_def pages_ok_def [of "_ \<lparr> live := _ \<rparr>"] pages_ok_def [of g1])
  moreover have "fst (placeWidget w c r cspan rspan g) =
      (if w = '''' \<or> \<not> canPlaceOnPage g1 c r cspan rspan (activePage g1) '''' then g1
       else promoteToBase (if requiredPageCount (live g2) > pageCount g2
         then setCurrentPageCount (requiredPageCount (live g2)) g2 else g2))"
    by (simp add: placeWidget_def canPlace_def Let_def g2_def p_def i_def g1_def)
  ultimately show ?thesis using g1(1) by simp
qed

lemma layout_ok_filter: "layout_ok ps \<Longrightarrow> layout_ok (filter P ps)"
  by (auto simp: layout_ok_def sorted_wrt_filter)

lemma filter_ok:
  assumes "grid_ok g"
  shows "grid_ok (promoteToBase (g \<lparr> live := filter P (live g) \<rparr>))"
proof (rule promoteToBase_ok)
  show "fresh_ids (nextInstanceId (g \<lparr> live := filter P (live g) \<rparr>)) (ids (live (g \<lparr> live := filter P (live g) \<rparr>)))"
    using assms by (auto simp: grid_ok_def intro!: fresh_ids_subset [of _ "ids (live g)"])
  show "length (live (g \<lparr> live := filter P (live g) \<rparr>)) \<le> 101"
    using assms le_trans [OF length_filter_le] by (auto simp: grid_ok_def)
qed (use assms in \<open>auto simp: grid_ok_def layout_ok_filter pages_ok_def distinct_map_filter\<close>)

lemma remove_nth_filter:
  assumes "distinct (ids ps)" "k < length ps"
  shows "take k ps @ drop (Suc k) ps = filter (\<lambda>p. instanceId p \<noteq> instanceId (ps ! k)) ps"
proof -
  obtain us p vs where ps: "ps = us @ p # vs" "us = take k ps" "p = ps ! k" "vs = drop (Suc k) ps"
    using id_take_nth_drop [OF assms(2)] by blast
  have "distinct (ids (us @ p # vs))" using assms(1) unfolding ps(1) [symmetric] .
  then have "instanceId p \<notin> instanceId ` (set us \<union> set vs)" by auto
  then have "\<forall>q\<in>set us \<union> set vs. instanceId q \<noteq> instanceId p" by (metis imageI)
  then have "filter (\<lambda>q. instanceId q \<noteq> instanceId p) (us @ p # vs) = us @ vs" by (simp add: filter_id_conv)
  then show ?thesis unfolding ps(1) [symmetric] by (simp only: ps(2-4))
qed

lemma removeWidget_ok:
  assumes "grid_ok g"
  shows "grid_ok (removeWidget i g)"
proof -
  define g1 where "g1 = applyPendingRemap g"
  have g1: "grid_ok g1" using applyPendingRemap_ok assms by (simp add: g1_def)
  have "grid_ok (promoteToBase (g1 \<lparr> live := take k (live g1) @ drop (Suc k) (live g1) \<rparr>))"
    if "findPlacement (live g1) i = Some k" for k
    using findPlacement_Some [OF that] g1 filter_ok [OF g1] by (simp add: remove_nth_filter grid_ok_def)
  then show ?thesis using g1 by (auto simp: removeWidget_def Let_def g1_def [symmetric] split: option.split)
qed

lemma removeAllWidgetsOnPage_ok: "grid_ok g \<Longrightarrow> grid_ok (removeAllWidgetsOnPage q g)"
  by (simp add: removeAllWidgetsOnPage_def Let_def filter_ok applyPendingRemap_ok)

section \<open>Pages\<close>

lemma layout_ok_repage:
  assumes "layout_ok ps" "inj_on h (page ` set ps)"
  shows "layout_ok (map (\<lambda>p. p \<lparr> page := h (page p) \<rparr>) ps)"
proof -
  have keep: "apart (p \<lparr> page := h (page p) \<rparr>) (q \<lparr> page := h (page q) \<rparr>)"
    if "p \<in> set ps" "q \<in> set ps" "apart p q" for p q
    using that assms(2) by (auto simp: apart_def cells_def dest: inj_onD)
  have "sorted_wrt (\<lambda>p q. apart (p \<lparr> page := h (page p) \<rparr>) (q \<lparr> page := h (page q) \<rparr>)) ps"
    by (rule sorted_wrt_mono_rel [of ps apart]) (use keep assms(1) in \<open>simp_all add: layout_ok_def\<close>)
  then show ?thesis using assms(1) by (simp add: layout_ok_def sorted_wrt_map well_placed_def)
qed

lemma ids_repage [simp]: "ids (map (\<lambda>p. p \<lparr> page := h (page p) \<rparr>) ps) = ids ps"
  by simp

lemma orderedPages_props: "distinct (orderedPages R n)" "set (orderedPages R n) = {0..n - 1}"
  by (auto simp: orderedPages_def)

lemma remappedPage_nth:
  assumes "distinct order" "i < length order"
  shows "remappedPage order (order ! i) = int i"
  using map_of_zip_nth [of order "[0..int (length order) - 1]" i] assms
  by (simp add: remappedPage_def nth_upto)

lemma length_orderedPages: "0 \<le> n \<Longrightarrow> int (length (orderedPages R n)) = n"
  using distinct_card [OF orderedPages_props(1) [of R n]] by (simp add: orderedPages_props(2))

lemma remappedPage_other: "q \<notin> set order \<Longrightarrow> remappedPage order q = q"
  by (auto simp: remappedPage_def split: option.split dest: map_of_SomeD set_zip_leftD)

lemma remappedPage_inj:
  assumes "0 \<le> n"
  shows "inj (remappedPage (orderedPages R n))"
proof (rule injI)
  fix a b
  let ?o = "orderedPages R n"
  assume eq: "remappedPage ?o a = remappedPage ?o b"
  have mem: "\<exists>i<length ?o. q = ?o ! i \<and> remappedPage ?o q = int i" if "q \<in> set ?o" for q
    using that remappedPage_nth [OF orderedPages_props(1)] by (metis in_set_conv_nth)
  have rng: "remappedPage ?o q \<in> set ?o \<longleftrightarrow> q \<in> set ?o" for q
    using mem [of q] remappedPage_other [of q ?o] length_orderedPages [OF assms, of R]
    by (cases "q \<in> set ?o") (auto simp: orderedPages_props(2))
  show "a = b"
  proof (cases "a \<in> set ?o")
    case True
    then have "b \<in> set ?o" using rng eq by metis
    then show ?thesis using mem [OF True] mem eq by (metis of_nat_eq_iff)
  next
    case False
    then have "b \<notin> set ?o" using rng eq by metis
    then show ?thesis using False eq by (simp add: remappedPage_other)
  qed
qed

lemma moveReservedPagesToTail_ok:
  "layout_ok ps \<Longrightarrow> layout_ok (moveReservedPagesToTail reg n ps)"
  "ids (moveReservedPagesToTail reg n ps) = ids ps"
  "length (moveReservedPagesToTail reg n ps) = length ps"
  by (auto simp: moveReservedPagesToTail_def Let_def comp_def
      intro!: layout_ok_repage inj_on_subset [OF remappedPage_inj subset_UNIV])

lemma setPageCount_ok: "grid_ok g \<Longrightarrow> grid_ok (setPageCount n g)"
  by (simp add: setPageCount_def Let_def grid_ok_def moveReservedPagesToTail_ok)

lemma setActivePage_ok: "grid_ok g \<Longrightarrow> grid_ok (setActivePage q g)"
  by (auto simp: setActivePage_def grid_ok_def pages_ok_def qBound_def)

lemma addPage_ok:
  assumes "grid_ok g"
  shows "grid_ok (addPage g)"
proof -
  define g1 where "g1 = applyPendingRemap g"
  have g1: "grid_ok g1" using applyPendingRemap_ok assms by (simp add: g1_def)
  define k where "k = (case List.find (pageHasSingleton g1) [0..pageCount g1 - 1] of None \<Rightarrow> pageCount g1 | Some q \<Rightarrow> q)"
  let ?h = "\<lambda>q. if q \<ge> k then q + 1 else q"
  have shift: "map (\<lambda>p. if page p \<ge> k then p \<lparr> page := page p + 1 \<rparr> else p) ps
      = map (\<lambda>p. p \<lparr> page := ?h (page p) \<rparr>) ps" for ps by simp
  have "layout_ok (map (\<lambda>p. p \<lparr> page := ?h (page p) \<rparr>) (live g1))"
    using g1 by (intro layout_ok_repage) (auto simp: grid_ok_def inj_on_def split: if_splits)
  then have "grid_ok (promoteToBase (g1 \<lparr> live := map (\<lambda>p. p \<lparr> page := ?h (page p) \<rparr>) (live g1),
      pageCount := pageCount g1 + 1 \<rparr>))"
    using g1 by (intro promoteToBase_ok) (auto simp: grid_ok_def pages_ok_def comp_def)
  then show ?thesis by (simp add: addPage_def Let_def g1_def [symmetric] k_def [symmetric] shift)
qed

lemma removePage_ok:
  assumes "grid_ok g"
  shows "grid_ok (fst (removePage q g))"
proof -
  define g1 where "g1 = applyPendingRemap g"
  have g1: "grid_ok g1" using applyPendingRemap_ok assms by (simp add: g1_def)
  let ?h = "\<lambda>r. if r > q then r - 1 else r"
  let ?ps = "filter (\<lambda>p. page p \<noteq> q) (live g1)"
  have shift: "map (\<lambda>p. if page p > q then p \<lparr> page := page p - 1 \<rparr> else p) ps
      = map (\<lambda>p. p \<lparr> page := ?h (page p) \<rparr>) ps" for ps by simp
  have lay: "layout_ok (map (\<lambda>p. p \<lparr> page := ?h (page p) \<rparr>) ?ps)"
    using g1 by (intro layout_ok_repage) (auto simp: grid_ok_def layout_ok_filter inj_on_def split: if_splits)
  have sub: "distinct (ids ?ps)" "fresh_ids (nextInstanceId g1) (ids ?ps)" "length ?ps \<le> 101"
    using g1 le_trans [OF length_filter_le]
    by (auto simp: grid_ok_def distinct_map_filter intro!: fresh_ids_subset [of _ "ids (live g1)"])
  have "grid_ok (promoteToBase (g1 \<lparr> live := map (\<lambda>p. p \<lparr> page := ?h (page p) \<rparr>) ?ps,
      pageCount := pageCount g1 - 1,
      activePage := (if activePage g1 \<ge> pageCount g1 - 1 then pageCount g1 - 1 - 1 else activePage g1) \<rparr>))"
    if "\<not> (q \<le> 0 \<or> q \<ge> pageCount g1)"
    using g1 lay sub that by (intro promoteToBase_ok) (auto simp: grid_ok_def pages_ok_def comp_def)
  then show ?thesis using g1 by (simp add: removePage_def Let_def g1_def [symmetric] shift)
qed

lemma setWidgetSelected_ok: "grid_ok g \<Longrightarrow> grid_ok (setWidgetSelected sel g)"
  using applyPendingRemap_ok [of "g \<lparr> widgetSelected := sel \<rparr>"]
  by (auto simp: setWidgetSelected_def Let_def grid_ok_def pages_ok_def)

section \<open>Loading\<close>

definition loadable :: "placement list \<Rightarrow> nat \<Rightarrow> bool" where
  "loadable ps n \<longleftrightarrow> layout_ok ps \<and> (\<forall>p\<in>set ps. 0 \<le> page p) \<and> distinct (ids ps) \<and> fresh_ids n (ids ps)
     \<and> length ps \<le> 101"

definition loadPlacements ::
  "variant_ops \<Rightarrow> placement list \<Rightarrow> registry option \<Rightarrow> nat \<Rightarrow> grid \<Rightarrow> grid" where
  "loadPlacements ops ps reg n g = setNextInstanceId n (setPlacements ops ps reg g)"

lemma layout_ok_restyle:
  assumes "layout_ok ps" "\<And>p. instanceId (f p) = instanceId p" "\<And>p. col (f p) = col p"
    "\<And>p. row (f p) = row p" "\<And>p. colSpan (f p) = colSpan p" "\<And>p. rowSpan (f p) = rowSpan p"
    "\<And>p. page (f p) = page p" "\<And>p. visible (f p) = visible p"
  shows "layout_ok (map f ps)"
proof -
  have "apart (f p) (f q) = apart p q" for p q using assms(2-) by (simp add: apart_def cells_def)
  then show ?thesis using assms by (simp add: layout_ok_def sorted_wrt_map well_placed_def)
qed

lemma loadPlacements_ok:
  assumes g: "grid_ok g" and ps: "loadable ps n"
  shows "grid_ok (loadPlacements ops ps reg n g)"
proof -
  have pg: "map (\<lambda>p. p \<lparr> page := max 0 (page p) \<rparr>) ps = ps"
    using ps by (intro map_idI) (simp add: loadable_def max_def)
  let ?f = "\<lambda>p. if config p = [] then p
      else p \<lparr> config := validateConfig ops (if Option.is_none reg then registry g else reg) (widgetId p) (config p) \<rparr>"
  have f: "layout_ok (map ?f ps)" using ps by (intro layout_ok_restyle) (auto simp: loadable_def)
  have i: "instanceId (?f p) = instanceId p" for p by simp
  have c: "instanceId \<circ> ?f = instanceId" by (rule ext) simp
  show ?thesis
    using g ps f by (auto simp: loadPlacements_def setNextInstanceId_def setPlacements_def Let_def pg
        grid_ok_def loadable_def moveReservedPagesToTail_ok pages_ok_def [of "_ \<lparr> nextInstanceId := _ \<rparr>"]
        pages_ok_set [unfolded pages_ok_def] c)
qed

section \<open>Sequences of operations\<close>

datatype grid_op =
    Place string int int int int
  | Move string int int
  | Resize string int int
  | ResizeFromEdge string int int int int
  | Remove string
  | Opacity string rat
  | Configure string variant_map
  | SelectPage int
  | PageCount int
  | AddPage
  | RemovePage int
  | ClearPage int
  | Dimensions int int
  | Select bool
  | SavedDimensions int int
  | Adopt
  | Load "placement list" "registry option" nat

primrec grid_step :: "variant_ops \<Rightarrow> grid_op \<Rightarrow> grid \<Rightarrow> grid" where
  "grid_step ops (Place w c r cspan rspan) g = fst (placeWidget w c r cspan rspan g)"
| "grid_step ops (Move i c r) g = fst (moveWidget i c r g)"
| "grid_step ops (Resize i w h) g = fst (resizeWidget i w h g)"
| "grid_step ops (ResizeFromEdge i c r w h) g = fst (resizeWidgetFromEdge i c r w h g)"
| "grid_step ops (Remove i) g = removeWidget i g"
| "grid_step ops (Opacity i x) g = setWidgetOpacity i x g"
| "grid_step ops (Configure i raw) g = fst (setWidgetConfig ops i raw g)"
| "grid_step ops (SelectPage q) g = setActivePage q g"
| "grid_step ops (PageCount n) g = setPageCount n g"
| "grid_step ops AddPage g = addPage g"
| "grid_step ops (RemovePage q) g = fst (removePage q g)"
| "grid_step ops (ClearPage q) g = removeAllWidgetsOnPage q g"
| "grid_step ops (Dimensions cs rs) g = setGridDimensions cs rs g"
| "grid_step ops (Select b) g = setWidgetSelected b g"
| "grid_step ops (SavedDimensions cs rs) g = setSavedDimensions cs rs g"
| "grid_step ops Adopt g = adoptLiveAsBaseline g"
| "grid_step ops (Load ps reg n) g = loadPlacements ops ps reg n g"

text \<open>
  The grid has a positive size, a loaded layout is one the model could have saved, and there are
  at most 101 widgets.
\<close>

fun admissible :: "grid \<Rightarrow> grid_op \<Rightarrow> bool" where
  "admissible g (Place w c r cspan rspan) \<longleftrightarrow> length (live g) < 101"
| "admissible g (Dimensions cs rs) \<longleftrightarrow> 0 < cs \<and> 0 < rs"
| "admissible g (SavedDimensions cs rs) \<longleftrightarrow> dims_ok cs rs"
| "admissible g (Load ps reg n) \<longleftrightarrow> loadable ps n"
| "admissible g _ \<longleftrightarrow> True"

inductive grid_reachable :: "variant_ops \<Rightarrow> grid \<Rightarrow> bool" for ops where
  new: "grid_reachable ops (grid_new reg)"
| step: "grid_reachable ops g \<Longrightarrow> admissible g x \<Longrightarrow> grid_reachable ops (grid_step ops x g)"

lemmas grid_ops_ok = placeWidget_ok moveWidget_ok resizeWidget_ok resizeWidgetFromEdge_ok removeWidget_ok
  setWidgetOpacity_ok setWidgetConfig_ok setActivePage_ok setPageCount_ok addPage_ok removePage_ok
  removeAllWidgetsOnPage_ok setGridDimensions_ok setWidgetSelected_ok loadPlacements_ok

lemma grid_step_ok:
  assumes "grid_ok g" "admissible g x"
  shows "grid_ok (grid_step ops x g)"
proof (cases x)
  case (SavedDimensions cs rs)
  then show ?thesis using assms by (simp add: setSavedDimensions_def grid_ok_def pages_ok_def)
next
  case Adopt
  then show ?thesis using assms
    by (simp add: promoteToBase_ok [unfolded promoteToBase_def] grid_ok_def [of g])
qed (use assms in \<open>simp_all add: grid_ops_ok\<close>)

lemma grid_reachable_ok: "grid_reachable ops g \<Longrightarrow> grid_ok g"
proof (induction rule: grid_reachable.induct)
  case (new reg)
  then show ?case by (simp add: grid_ok_def grid_new_def layout_ok_def fresh_ids_def dims_ok_def pages_ok_def)
next
  case (step g x)
  then show ?case by (simp add: grid_step_ok)
qed

lemma sorted_wrt_apart_cells:
  assumes "sorted_wrt apart ps" "i < length ps" "j < length ps" "i \<noteq> j"
    and "visible (ps ! i)" "visible (ps ! j)" "page (ps ! i) = page (ps ! j)"
  shows "cells (ps ! i) \<inter> cells (ps ! j) = {}"
proof -
  have "apart (ps ! i) (ps ! j) \<or> apart (ps ! j) (ps ! i)"
    using assms(1-4) sorted_wrt_nth_less by (metis linorder_neqE_nat)
  then show ?thesis using assms(5-) apart_sym by (auto simp: apart_def)
qed

section \<open>Properties\<close>

text \<open>
  C30: after a change of the grid dimensions the remap keeps every widget, in order and under its
  identifier; hides exactly those whose minimal span exceeds the new grid; puts all others inside
  the grid with no two on a common cell; and leaves the pages that hold a singleton widget
  behind all other pages.
\<close>

theorem remap_separates_widgets:
  assumes "\<forall>b\<in>set bs. well_placed b" "length bs \<le> 101"
    and "0 < cs" "0 < rs" "0 < fst saved" "0 < snd saved"
    and "ps = remap_layout reg saved n cs rs bs"
  shows "(map instanceId ps = map instanceId bs)
    \<and> (\<forall>i<length bs. visible (ps ! i) \<longleftrightarrow> \<not> exceedsGrid reg cs rs (widgetId (bs ! i)))
    \<and> (\<forall>i<length bs. visible (ps ! i) \<longrightarrow> inside cs rs (ps ! i))
    \<and> (\<forall>i<length bs. \<forall>j<length bs. i \<noteq> j \<longrightarrow> visible (ps ! i) \<longrightarrow> visible (ps ! j) \<longrightarrow>
      page (ps ! i) = page (ps ! j) \<longrightarrow> cells (ps ! i) \<inter> cells (ps ! j) = {})
    \<and> (\<forall>i<length bs. \<forall>j<length bs. page (bs ! i) \<notin> reservedPages reg bs \<longrightarrow>
      page (bs ! j) \<in> reservedPages reg bs \<longrightarrow> page (ps ! i) < page (ps ! j))"
proof -
  note ok = remap_layout_ok [OF assms]
  have "map instanceId ps = map instanceId bs"
    using ok(1,3) by (auto intro!: nth_equalityI simp: remapped_def)
  moreover have "\<forall>i<length bs. visible (ps ! i) \<longleftrightarrow> \<not> exceedsGrid reg cs rs (widgetId (bs ! i))"
    and "\<forall>i<length bs. visible (ps ! i) \<longrightarrow> inside cs rs (ps ! i)"
    using ok(3) by (auto simp: remapped_def)
  moreover have "\<forall>i<length bs. \<forall>j<length bs. i \<noteq> j \<longrightarrow> visible (ps ! i) \<longrightarrow> visible (ps ! j) \<longrightarrow>
      page (ps ! i) = page (ps ! j) \<longrightarrow> cells (ps ! i) \<inter> cells (ps ! j) = {}"
    using sorted_wrt_apart_cells [OF ok(2)] ok(1) by simp
  ultimately show ?thesis using ok(5) by (intro conjI)
qed

text \<open>Two widgets of a 4 by 4 grid that a 2 by 2 grid cannot hold on one page.\<close>

definition example_widgets :: "placement list" where
  "example_widgets = [new_placement ''clock-0'' ''clock'' 0 0 2 2 0, new_placement ''music-1'' ''music'' 2 2 2 2 0]"

theorem remap_separates_widgets_witness:
  "map instanceId (remap_layout None (4, 4) 1 2 2 example_widgets) = [''clock-0'', ''music-1'']
   \<and> inside 2 2 (remap_layout None (4, 4) 1 2 2 example_widgets ! 1)"
proof -
  have "\<forall>b\<in>set example_widgets. well_placed b"
    by (simp add: example_widgets_def new_placement_def well_placed_def)
  note w = remap_separates_widgets [where reg = None and saved = "(4, 4)" and n = 1, OF this _ _ _ _ _ refl, of 2 2]
  have len: "length example_widgets = 2" by (simp add: example_widgets_def)
  have "visible (remap_layout None (4, 4) 1 2 2 example_widgets ! 1)"
    using w by (simp add: len exceedsGrid_def lookup_def)
  then show ?thesis using w by (simp add: len) (simp add: example_widgets_def new_placement_def)
qed


definition example_ops :: variant_ops where
  "example_ops = \<lparr> toInt = (\<lambda>v. case v of VInt n \<Rightarrow> Some n | VBool b \<Rightarrow> Some (of_bool b) | _ \<Rightarrow> None),
     variantEq = (=) \<rparr>"

definition example_grid :: grid where
  "example_grid = fold (grid_step example_ops)
     [Dimensions 4 3, Place ''clock'' 0 0 2 2, Place ''music'' 1 1 1 1, Place ''music'' 2 1 2 2] (grid_new None)"

lemma example_grid_eval:
  "ids (live example_grid) = [''clock-0'', ''music-1''] \<and> visible (live example_grid ! 0)
   \<and> visible (live example_grid ! 1) \<and> page (live example_grid ! 0) = page (live example_grid ! 1)"
  by code_simp


lemma in_map_filter: "y \<in> set (List.map_filter f xs) \<longleftrightarrow> (\<exists>x\<in>set xs. f x = Some y)"
  by (induction xs) (auto simp: map_filter_simps split: option.split)

lemma validateConfig_set:
  "(k, v') \<in> set (validateConfig ops reg w raw) \<longleftrightarrow>
     (\<exists>d f v. lookup reg w = Some d \<and> schemaMap (configSchema d) k = Some f \<and> (k, v) \<in> set raw
        \<and> validateField ops f v = Some v')"
  by (force simp: validateConfig_def in_map_filter schemaMap_def split: option.splits)

lemma schemaMap_Some: "schemaMap fs k = Some f \<Longrightarrow> f \<in> set fs \<and> key f = k"
  by (auto simp: schemaMap_def dest!: map_of_SomeD)

definition conforms :: "variant_ops \<Rightarrow> schema_field \<Rightarrow> qvariant \<Rightarrow> bool" where
  "conforms ops f v = (case ftype f of
     FieldBool \<Rightarrow> (\<exists>b. v = VBool b)
   | FieldIntRange \<Rightarrow> (\<exists>n. v = VInt n \<and> rangeMin f \<le> n \<and> (rangeMin f \<le> rangeMax f \<longrightarrow> n \<le> rangeMax f))
   | FieldEnum \<Rightarrow> (\<exists>x\<in>set (fvalues f). variantEq ops x v))"

lemma validateField_conforms: "validateField ops f v = Some v' \<Longrightarrow> conforms ops f v'"
  by (auto simp: validateField_def conforms_def qBound_def list_ex_iff Let_def
      split: config_field_type.splits qvariant.splits if_splits)

lemma validateField_idem:
  assumes "\<forall>n. toInt ops (VInt n) = Some n" "validateField ops f v = Some v'"
  shows "validateField ops f v' = Some v'"
  using assms by (auto simp: validateField_def qBound_def Let_def
      split: config_field_type.splits qvariant.splits if_splits)

lemma map_filter_idem:
  "(\<And>x y. f x = Some y \<Longrightarrow> f y = Some y) \<Longrightarrow> List.map_filter f (List.map_filter f xs) = List.map_filter f xs"
  by (induction xs) (auto simp: map_filter_simps split: option.split)

lemma findPlacement_update:
  "instanceId p = instanceId (ps ! k) \<Longrightarrow> findPlacement (ps[k := p]) i = findPlacement ps i"
  by (induction ps arbitrary: k) (auto split: nat.splits)

text \<open>The configuration announced to a widget is the one it reads back.\<close>

lemma setWidgetConfig_announces:
  assumes "setWidgetConfig ops i raw g = (g', Some (j, c))"
  shows "j = i \<and> effectiveWidgetConfig g' i = c"
proof -
  define g1 where "g1 = applyPendingRemap g"
  obtain k where k: "findPlacement (live g1) i = Some k"
    using assms by (auto simp: setWidgetConfig_def Let_def g1_def split: option.splits)
  have f: "findPlacement ((live g1)[k := (live g1 ! k) \<lparr> config := x \<rparr>]) i = Some k" for x
    using k by (subst findPlacement_update) simp_all
  show ?thesis
    using assms k f findPlacement_Some [OF k]
    by (auto simp: setWidgetConfig_def effectiveWidgetConfig_def Let_def g1_def [symmetric] promoteToBase_def
        adoptLiveAsBaseline_def updatePlacement_def)
qed

text \<open>
  A stored widget configuration holds only keys of the widget's schema, each with a value of
  the field's type and range, and validating it again when it is reloaded changes nothing.
\<close>

lemma stored_config_conforms:
  assumes "\<forall>n. toInt ops (VInt n) = Some n"
  shows "(\<forall>(k, v)\<in>set (validateConfig ops reg w raw).
      \<exists>d f. lookup reg w = Some d \<and> f \<in> set (configSchema d) \<and> key f = k \<and> conforms ops f v)
    \<and> validateConfig ops reg w (validateConfig ops reg w raw) = validateConfig ops reg w raw"
proof
  show "\<forall>(k, v)\<in>set (validateConfig ops reg w raw).
      \<exists>d f. lookup reg w = Some d \<and> f \<in> set (configSchema d) \<and> key f = k \<and> conforms ops f v"
    using validateField_conforms schemaMap_Some by (fastforce simp: validateConfig_set)
  show "validateConfig ops reg w (validateConfig ops reg w raw) = validateConfig ops reg w raw"
    using validateField_idem [OF assms]
    by (auto simp: validateConfig_def intro!: map_filter_idem split: option.splits)
qed

definition reading_order :: "int \<times> int \<Rightarrow> int \<times> int \<Rightarrow> bool" where
  "reading_order x y \<longleftrightarrow> fst x < fst y \<or> fst x = fst y \<and> snd x < snd y"

lemma sorted_wrt_reading_order:
  "sorted_wrt (<) rs \<Longrightarrow> sorted_wrt (<) cs \<Longrightarrow>
     sorted_wrt reading_order (concat (map (\<lambda>r. map (Pair r) cs) rs))"
  by (induction rs) (auto simp: sorted_wrt_append sorted_wrt_map reading_order_def)

lemma find_first:
  assumes "sorted_wrt R xs" "List.find P xs = Some x" "y \<in> set xs" "P y"
  shows "P x \<and> (x = y \<or> R x y)"
  using assms by (induction xs) (auto split: if_splits)

text \<open>
  The search for a free cell finds a place on the active page whenever there is one, the
  first in reading order, and a widget put there is accepted.
\<close>

lemma first_available_cell:
  "case findFirstAvailableCell w h g of (c, r) \<Rightarrow>
     if \<exists>c' r'. canPlace g c' r' w h '''' then
       canPlace g c r w h '''' \<and> (\<forall>c' r'. canPlace g c' r' w h '''' \<longrightarrow> r < r' \<or> r = r' \<and> c \<le> c')
     else (c, r) = (- 1, - 1)"
proof -
  let ?cells = "concat (map (\<lambda>r. map (Pair r) [0..cols g - w]) [0..rows g - h])"
  have mem: "(r, c) \<in> set ?cells" if "canPlace g c r w h ''''" for c r
    using that by (force simp: canPlace_def canPlaceOnPage_def)
  show ?thesis
  proof (cases "List.find (\<lambda>(r, c). canPlace g c r w h '''') ?cells")
    case None
    then have "\<not> canPlace g c r w h ''''" for c r using mem by (fastforce simp: find_None_iff)
    then show ?thesis using None by (simp add: findFirstAvailableCell_def)
  next
    case (Some x)
    obtain r c where x: "x = (r, c)" by (cases x)
    have srt: "sorted_wrt reading_order ?cells" by (intro sorted_wrt_reading_order) simp_all
    have c: "canPlace g c r w h ''''" using Some by (auto simp: x find_Some_iff)
    have "r < r' \<or> r = r' \<and> c \<le> c'" if "canPlace g c' r' w h ''''" for c' r'
      using find_first [OF srt Some mem [OF that]] that by (auto simp: x reading_order_def)
    then show ?thesis using c Some by (auto simp: findFirstAvailableCell_def x)
  qed
qed

end
