(* ===== verification/Dashboards.thy ===== *)
theory Dashboards
  imports Widget_Invariant
begin

text \<open>
  The dashboard manager (\<open>src/src/ui/DashboardManager.cpp\<close>) with the part of the configuration
  store it uses (\<open>dashboards\<close>, \<open>setDashboards\<close> and their neighbours in
  \<open>src/src/core/YamlConfig.cpp\<close>): several named dashboards, each a widget grid of its own, one of
  them active; load, navigation, creation and removal, and the commit of a user edit, which
  adopts the live layout of every dashboard as its baseline and saves all of them under the one
  pair of grid dimensions the file has.

  The store is a record of what the setters wrote; \<open>save\<close> copies it to \<open>disk\<close>.  A placement is
  written without its visibility and read back visible, and a configuration value is written as
  text and read back as the first of Boolean, integer, real and string that fits.  The nodes are
  those the program writes, with every key present; the number parsers of the YAML library and
  Qt's character classes are parameters.  The timer \<open>persistTimer_\<close> is the flag of
  a pending single shot.  The flag \<open>committingBaseline_\<close> is only set inside
  \<open>commitSharedBaseline\<close>, none of whose calls emits \<open>baselineChanged\<close> again, and is left out.
\<close>

section \<open>The configuration store\<close>

record dash_config =
  dcId :: string
  dcName :: string
  dcNext :: nat
  dcPages :: int
  dcPlacements :: "placement list"

text \<open>The nodes of the file; a configuration value is a scalar, which YAML stores as text.\<close>

record placement_node =
  nInstanceId :: string
  nWidgetId :: string
  nCol :: int
  nRow :: int
  nColSpan :: int
  nRowSpan :: int
  nOpacity :: rat
  nPage :: int
  nConfig :: "(string \<times> string) list"

record dash_node =
  nId :: string
  nName :: string
  nNextInstanceId :: nat
  nPageCount :: int
  nPlacements :: "placement_node list"

record grid_yaml =
  yDashboards :: "dash_node list"
  yActive :: string
  yCols :: int
  yRows :: int

record text_ops =
  asInt :: "string \<Rightarrow> int option"
  asDouble :: "string \<Rightarrow> nat option"
  otherText :: "nat \<Rightarrow> string"
  trimmed :: "string \<Rightarrow> string"
  toLower :: "string \<Rightarrow> string"
  isLetterOrNumber :: "char \<Rightarrow> bool"

definition int_string :: "int \<Rightarrow> string" where
  "int_string n = (if n < 0 then CHR ''-'' # dec_string (nat (- n)) else dec_string (nat n))"

definition readScalar :: "text_ops \<Rightarrow> string \<Rightarrow> qvariant" where
  "readScalar tx s =
     (if s = ''true'' then VBool True
      else if s = ''false'' then VBool False
      else let double = (case asDouble tx s of Some x \<Rightarrow> VOther x | None \<Rightarrow> VString s) in
        case asInt tx s of
          Some i \<Rightarrow> if int_string i = s then VInt i else double
        | None \<Rightarrow> double)"

primrec writeScalar :: "text_ops \<Rightarrow> qvariant \<Rightarrow> string" where
  "writeScalar tx (VBool b) = (if b then ''true'' else ''false'')"
| "writeScalar tx (VInt n) = int_string n"
| "writeScalar tx (VString s) = s"
| "writeScalar tx (VOther x) = otherText tx x"

definition placementsFromNode :: "text_ops \<Rightarrow> placement_node list \<Rightarrow> placement list" where
  "placementsFromNode tx ns =
     map (\<lambda>n. \<lparr> instanceId = nInstanceId n, widgetId = nWidgetId n, col = nCol n, row = nRow n,
       colSpan = nColSpan n, rowSpan = nRowSpan n, opacity = nOpacity n, page = nPage n, visible = True,
       config = map (\<lambda>(k, s). (k, readScalar tx s)) (nConfig n) \<rparr>) ns"

definition placementsToNode :: "text_ops \<Rightarrow> placement list \<Rightarrow> placement_node list" where
  "placementsToNode tx ps =
     map (\<lambda>p. \<lparr> nInstanceId = instanceId p, nWidgetId = widgetId p, nCol = col p, nRow = row p,
       nColSpan = colSpan p, nRowSpan = rowSpan p, nOpacity = opacity p, nPage = page p,
       nConfig = map (\<lambda>(k, v). (k, writeScalar tx v)) (config p) \<rparr>) ps"

definition dashboards :: "text_ops \<Rightarrow> grid_yaml \<Rightarrow> dash_config list" where
  "dashboards tx y = filter (\<lambda>d. dcId d \<noteq> '''')
     (map (\<lambda>n. \<lparr> dcId = nId n, dcName = nName n, dcNext = nNextInstanceId n, dcPages = nPageCount n,
        dcPlacements = placementsFromNode tx (nPlacements n) \<rparr>) (yDashboards y))"

definition dash_node_of :: "text_ops \<Rightarrow> dash_config \<Rightarrow> dash_node" where
  "dash_node_of tx d = \<lparr> nId = dcId d, nName = dcName d, nNextInstanceId = dcNext d, nPageCount = dcPages d,
     nPlacements = placementsToNode tx (dcPlacements d) \<rparr>"

definition setDashboards :: "text_ops \<Rightarrow> dash_config list \<Rightarrow> grid_yaml \<Rightarrow> grid_yaml" where
  "setDashboards tx ds y = y \<lparr> yDashboards := map (dash_node_of tx) ds \<rparr>"

definition setActiveDashboardId :: "string \<Rightarrow> grid_yaml \<Rightarrow> grid_yaml" where
  "setActiveDashboardId i y = y \<lparr> yActive := i \<rparr>"

definition setGridSavedDims :: "int \<Rightarrow> int \<Rightarrow> grid_yaml \<Rightarrow> grid_yaml" where
  "setGridSavedDims cs rs y = y \<lparr> yCols := cs, yRows := rs \<rparr>"

section \<open>The manager\<close>

record dash_entry =
  entryId :: string
  entryName :: string
  model :: grid

record dash_mgr =
  mRegistry :: "registry option"
  conf :: grid_yaml
  disk :: grid_yaml
  entries :: "dash_entry list"
  active :: nat
  loading :: bool
  persistTimer :: bool

definition mgr_new :: "registry option \<Rightarrow> grid_yaml \<Rightarrow> dash_mgr" where
  "mgr_new reg y = \<lparr> mRegistry = reg, conf = y, disk = y, entries = [], active = 0, loading = False,
     persistTimer = False \<rparr>"

fun indexOf :: "dash_entry list \<Rightarrow> string \<Rightarrow> nat option" where
  "indexOf [] i = None"
| "indexOf (e # es) i = (if entryId e = i then Some 0 else map_option Suc (indexOf es i))"

definition activeModel :: "dash_mgr \<Rightarrow> grid option" where
  "activeModel m = (if active m \<ge> length (entries m) then None else Some (model (entries m ! active m)))"

definition activeDashboardId :: "dash_mgr \<Rightarrow> string" where
  "activeDashboardId m = (if active m \<ge> length (entries m) then '''' else entryId (entries m ! active m))"

definition idAt :: "dash_mgr \<Rightarrow> int \<Rightarrow> string" where
  "idAt m i = (if i < 0 \<or> i \<ge> int (length (entries m)) then '''' else entryId (entries m ! nat i))"

subsection \<open>Loading\<close>

definition seedPlacements :: "int \<Rightarrow> placement list" where
  "seedPlacements q =
     [new_placement ''aa-launcher-reserved'' ''org.openauto.aa-launcher'' 0 0 1 1 q,
      new_placement ''settings-launcher-reserved'' ''org.openauto.settings-launcher'' 0 1 1 1 q]"

definition load_model ::
  "variant_ops \<Rightarrow> registry option \<Rightarrow> int \<Rightarrow> int \<Rightarrow> int \<Rightarrow> int \<Rightarrow> dash_config \<Rightarrow> grid" where
  "load_model ops reg scs srs ics irs d =
     (let g = setPageCount (dcPages d) (grid_new reg);
          g = (if dcPlacements d \<noteq> [] then setPlacements ops (dcPlacements d) reg g else g);
          g = setNextInstanceId (dcNext d) g;
          g = setSavedDimensions scs srs g;
          g = setGridDimensions ics irs g in
      if dcId d = ''home'' \<and> live g = []
      then adoptLiveAsBaseline (setPlacements ops (seedPlacements (pageCount g - 1)) reg g) else g)"

definition dashList :: "text_ops \<Rightarrow> grid_yaml \<Rightarrow> dash_config list" where
  "dashList tx y = (if dashboards tx y = []
     then [\<lparr> dcId = ''home'', dcName = ''Home'', dcNext = 0, dcPages = 2, dcPlacements = [] \<rparr>]
     else dashboards tx y)"

definition loadFromConfig :: "variant_ops \<Rightarrow> text_ops \<Rightarrow> int \<Rightarrow> int \<Rightarrow> dash_mgr \<Rightarrow> dash_mgr" where
  "loadFromConfig ops tx ics irs m =
     (let y = conf m;
          es = map (\<lambda>d. \<lparr> entryId = dcId d, entryName = dcName d,
                 model = load_model ops (mRegistry m) (yCols y) (yRows y) ics irs d \<rparr>) (dashList tx y)
      in m \<lparr> entries := es, loading := False,
             active := (case indexOf es (yActive y) of None \<Rightarrow> 0 | Some k \<Rightarrow> k) \<rparr>)"

subsection \<open>Saving\<close>

definition snapshot :: "dash_entry \<Rightarrow> dash_config" where
  "snapshot e = \<lparr> dcId = entryId e, dcName = entryName e, dcNext = nextInstanceId (model e),
     dcPages = basePageCount (model e), dcPlacements = base (model e) \<rparr>"

definition save :: "dash_mgr \<Rightarrow> dash_mgr" where
  "save m = m \<lparr> disk := conf m \<rparr>"

definition saveAll :: "text_ops \<Rightarrow> dash_mgr \<Rightarrow> dash_mgr" where
  "saveAll tx m =
     (if loading m then m
      else let y = setActiveDashboardId (activeDashboardId m) (setDashboards tx (map snapshot (entries m)) (conf m));
               y = (case activeModel m of None \<Rightarrow> y
                    | Some am \<Rightarrow> setGridSavedDims (savedCols am) (savedRows am) y)
           in save (m \<lparr> conf := y, persistTimer := False \<rparr>))"

definition schedulePersistActiveId :: "dash_mgr \<Rightarrow> dash_mgr" where
  "schedulePersistActiveId m =
     m \<lparr> conf := setActiveDashboardId (activeDashboardId m) (conf m), persistTimer := True \<rparr>"

definition persistTimeout :: "dash_mgr \<Rightarrow> dash_mgr" where
  "persistTimeout m = (if persistTimer m then save (m \<lparr> persistTimer := False \<rparr>) else m)"

definition flushPendingPersist :: "dash_mgr \<Rightarrow> dash_mgr" where
  "flushPendingPersist m = (if persistTimer m then save (m \<lparr> persistTimer := False \<rparr>) else m)"

definition updateModel :: "nat \<Rightarrow> (grid \<Rightarrow> grid) \<Rightarrow> dash_mgr \<Rightarrow> dash_mgr" where
  "updateModel k f m = (if k < length (entries m)
     then m \<lparr> entries := (entries m)[k := (entries m ! k) \<lparr> model := f (model (entries m ! k)) \<rparr>] \<rparr> else m)"

definition mapModels :: "(grid \<Rightarrow> grid) \<Rightarrow> dash_mgr \<Rightarrow> dash_mgr" where
  "mapModels f m = m \<lparr> entries := map (\<lambda>e. e \<lparr> model := f (model e) \<rparr>) (entries m) \<rparr>"

definition commitSharedBaseline :: "text_ops \<Rightarrow> nat \<Rightarrow> dash_mgr \<Rightarrow> dash_mgr" where
  "commitSharedBaseline tx k m =
     (if loading m \<or> k \<ge> length (entries m) then m
      else let cs = cols (model (entries m ! k)); rs = rows (model (entries m ! k)) in
        saveAll tx (mapModels adoptLiveAsBaseline
          (mapModels (\<lambda>g. if cols g \<noteq> cs \<or> rows g \<noteq> rs then setGridDimensions cs rs g else g) m)))"

subsection \<open>Navigation\<close>

definition go_to :: "nat \<Rightarrow> dash_mgr \<Rightarrow> dash_mgr" where
  "go_to k m = schedulePersistActiveId (updateModel (active m) (setWidgetSelected False) m \<lparr> active := k \<rparr>)"

definition switchTo :: "string \<Rightarrow> dash_mgr \<Rightarrow> dash_mgr \<times> bool" where
  "switchTo i m = (case indexOf (entries m) i of
     None \<Rightarrow> (m, False)
   | Some k \<Rightarrow> if k = active m then (m, True) else (go_to k m, True))"

definition switchToIndex :: "int \<Rightarrow> dash_mgr \<Rightarrow> dash_mgr \<times> bool" where
  "switchToIndex i m =
     (if i < 0 \<or> i \<ge> int (length (entries m)) then (m, False)
      else if nat i = active m then (m, True)
      else (go_to (nat i) m, True))"

definition nextDashboard :: "dash_mgr \<Rightarrow> dash_mgr" where
  "nextDashboard m = (if length (entries m) \<le> 1 then m
     else go_to ((active m + 1) mod length (entries m)) m)"

definition previousDashboard :: "dash_mgr \<Rightarrow> dash_mgr" where
  "previousDashboard m = (if length (entries m) \<le> 1 then m
     else go_to ((active m + length (entries m) - 1) mod length (entries m)) m)"

subsection \<open>Creation and removal\<close>

fun collapse_dashes :: "string \<Rightarrow> string" where
  "collapse_dashes (a # b # s) =
     (if a = CHR ''-'' \<and> b = CHR ''-'' then collapse_dashes (b # s) else a # collapse_dashes (b # s))"
| "collapse_dashes s = s"

definition slugify :: "text_ops \<Rightarrow> string \<Rightarrow> string" where
  "slugify tx name =
     (let s = map (\<lambda>c. if isLetterOrNumber tx c then c else CHR ''-'') (toLower tx name);
          s = collapse_dashes s;
          s = dropWhile (\<lambda>c. c = CHR ''-'') s
      in rev (dropWhile (\<lambda>c. c = CHR ''-'') (rev s)))"

text \<open>The search for a free identifier, which the code does not bound.\<close>

definition uniqueId :: "dash_entry list \<Rightarrow> string \<Rightarrow> string option" where
  "uniqueId es baseId = map_option fst (while_option (\<lambda>(i, n). indexOf es i \<noteq> None)
     (\<lambda>(i, n). (baseId @ ''-'' @ dec_string n, n + 1)) (baseId, 2))"

definition addDashboard :: "text_ops \<Rightarrow> string \<Rightarrow> dash_mgr \<Rightarrow> (dash_mgr \<times> string) option" where
  "addDashboard tx name m =
     (let nm = trimmed tx name in
      if nm = '''' then Some (m, '''')
      else if length (entries m) \<ge> 8 then Some (m, '''')
      else let slug = slugify tx nm; baseId = (if slug = '''' then ''dashboard'' else slug) in
        map_option (\<lambda>i.
          let g = grid_new (mRegistry m);
              g = (case activeModel m of None \<Rightarrow> g
                   | Some am \<Rightarrow> setSavedDimensions (savedCols am) (savedRows am)
                       (setGridDimensions (cols am) (rows am) g));
              g = setPageCount 1 g
          in (saveAll tx (m \<lparr> entries := entries m @ [\<lparr> entryId = i, entryName = nm, model = g \<rparr>] \<rparr>), i))
          (uniqueId (entries m) baseId))"

definition removeDashboard :: "text_ops \<Rightarrow> string \<Rightarrow> dash_mgr \<Rightarrow> dash_mgr \<times> bool" where
  "removeDashboard tx i m =
     (if i = ''home'' then (m, False)
      else if length (entries m) \<le> 1 then (m, False)
      else case indexOf (entries m) i of
        None \<Rightarrow> (m, False)
      | Some k \<Rightarrow>
          let es = take k (entries m) @ drop (Suc k) (entries m);
              a = (if k = active m then (case indexOf es ''home'' of None \<Rightarrow> 0 | Some h \<Rightarrow> h)
                   else if k < active m then active m - 1 else active m)
          in (saveAll tx (m \<lparr> entries := es, active := a \<rparr>), True))"

definition renameDashboard :: "text_ops \<Rightarrow> string \<Rightarrow> string \<Rightarrow> dash_mgr \<Rightarrow> dash_mgr \<times> bool" where
  "renameDashboard tx i name m =
     (let nm = trimmed tx name in
      if nm = '''' then (m, False)
      else case indexOf (entries m) i of
        None \<Rightarrow> (m, False)
      | Some k \<Rightarrow> (saveAll tx (m \<lparr> entries := (entries m)[k := (entries m ! k) \<lparr> entryName := nm \<rparr>] \<rparr>), True))"

definition mgr_setGridDimensions :: "int \<Rightarrow> int \<Rightarrow> dash_mgr \<Rightarrow> dash_mgr" where
  "mgr_setGridDimensions cs rs m = mapModels (setGridDimensions cs rs) m"

section \<open>Edits of the active dashboard\<close>

text \<open>Whether an operation of the grid emits \<open>baselineChanged\<close>.\<close>

fun emits :: "variant_ops \<Rightarrow> grid_op \<Rightarrow> grid \<Rightarrow> bool" where
  "emits ops (Place w c r cspan rspan) g = snd (placeWidget w c r cspan rspan g)"
| "emits ops (Move i c r) g = snd (moveWidget i c r g)"
| "emits ops (Resize i w h) g = snd (resizeWidget i w h g)"
| "emits ops (ResizeFromEdge i c r w h) g = snd (resizeWidgetFromEdge i c r w h g)"
| "emits ops (Remove i) g = (let g = applyPendingRemap g in case findPlacement (live g) i of
     None \<Rightarrow> False | Some k \<Rightarrow> \<not> is_singleton (registry g) (widgetId (live g ! k)))"
| "emits ops (Opacity i x) g = (findPlacement (live (applyPendingRemap g)) i \<noteq> None)"
| "emits ops (Configure i raw) g = (snd (setWidgetConfig ops i raw g) \<noteq> None)"
| "emits ops AddPage g = True"
| "emits ops (RemovePage q) g = snd (removePage q g)"
| "emits ops (ClearPage q) g = True"
| "emits ops _ g = False"

definition edit :: "variant_ops \<Rightarrow> text_ops \<Rightarrow> grid_op \<Rightarrow> dash_mgr \<Rightarrow> dash_mgr" where
  "edit ops tx x m = (case activeModel m of None \<Rightarrow> m
     | Some g \<Rightarrow>
         let m' = updateModel (active m) (grid_step ops x) m in
         if emits ops x g then commitSharedBaseline tx (active m) m' else m')"

end
