(* ===== verification/Dashboard_Invariant.thy ===== *)
theory Dashboard_Invariant
  imports Dashboards
begin

text \<open>
  The dashboard manager keeps its dashboards consistent: there is always an active one, the
  identifiers are unique, every grid satisfies the invariant of \<open>Widget_Invariant\<close>, and all
  baselines refer to the same grid dimensions, so that the one pair of dimensions in the saved
  file fits every saved layout.
\<close>

section \<open>What the grid operations keep\<close>

lemma applyPendingRemap_sel [simp]:
  "cols (applyPendingRemap g) = cols g" "rows (applyPendingRemap g) = rows g"
  "widgetSelected (applyPendingRemap g) = widgetSelected g" "\<not> remapPending (applyPendingRemap g)"
  "registry (applyPendingRemap g) = registry g"
  by (simp_all add: applyPendingRemap_def copyBase_def remapPlacements_def setCurrentPageCount_def Let_def)

lemma applyPendingRemap_saved [simp]:
  "savedCols g \<noteq> 0 \<Longrightarrow> savedCols (applyPendingRemap g) = savedCols g"
  "savedCols g \<noteq> 0 \<Longrightarrow> savedRows (applyPendingRemap g) = savedRows g"
  by (simp_all add: applyPendingRemap_def copyBase_def remapPlacements_def Let_def)

fun is_edit :: "grid_op \<Rightarrow> bool" where
  "is_edit (PageCount n) = False"
| "is_edit (Dimensions cs rs) = False"
| "is_edit (Select b) = False"
| "is_edit (SavedDimensions cs rs) = False"
| "is_edit Adopt = False"
| "is_edit (Load ps reg n) = False"
| "is_edit _ = True"

lemma widgetSelected_setCurrentPageCount [simp]:
  "widgetSelected (setCurrentPageCount n g) = widgetSelected g"
  by (simp add: setCurrentPageCount_def Let_def)

text \<open>
  An edit either does nothing but catch up with a deferred remap (or turn the page), or it ends
  in \<open>promoteToBase\<close> and announces that.
\<close>

definition committed :: "grid \<Rightarrow> grid \<Rightarrow> bool" where
  "committed g g' \<longleftrightarrow> (\<exists>g1. g' = promoteToBase g1 \<and> cols g1 = cols g \<and> rows g1 = rows g
     \<and> widgetSelected g1 = widgetSelected g \<and> \<not> remapPending g1)"

lemma committedI:
  "cols g1 = cols g \<Longrightarrow> rows g1 = rows g \<Longrightarrow> widgetSelected g1 = widgetSelected g \<Longrightarrow> \<not> remapPending g1 \<Longrightarrow>
     committed g (promoteToBase g1)"
  by (auto simp: committed_def)

definition outcome :: "grid \<Rightarrow> bool \<Rightarrow> grid \<Rightarrow> bool" where
  "outcome g emitted g' \<longleftrightarrow>
     (if emitted then committed g g' else g' = applyPendingRemap g \<or> (\<exists>q. g' = g \<lparr> activePage := q \<rparr>))"

lemma outcome_quiet: "outcome g False (applyPendingRemap g)"
  by (simp add: outcome_def)

lemma outcome_commit: "committed g g' \<Longrightarrow> outcome g True g'"
  by (simp add: outcome_def)

lemma updatePlacement_sel [simp]:
  "cols (updatePlacement k f g) = cols g" "rows (updatePlacement k f g) = rows g"
  "widgetSelected (updatePlacement k f g) = widgetSelected g" "remapPending (updatePlacement k f g) = remapPending g"
  by (simp_all add: updatePlacement_def)

lemma if_setCurrentPageCount_sel [simp]:
  "cols (if b then setCurrentPageCount n g else g) = cols g"
  "rows (if b then setCurrentPageCount n g else g) = rows g"
  "widgetSelected (if b then setCurrentPageCount n g else g) = widgetSelected g"
  "remapPending (if b then setCurrentPageCount n g else g) = remapPending g"
  by simp_all

lemma outcomes:
  "outcome g (snd (placeWidget w c r cspan rspan g)) (fst (placeWidget w c r cspan rspan g))"
  "outcome g (snd (moveWidget i c r g)) (fst (moveWidget i c r g))"
  "outcome g (snd (resizeWidget i cspan rspan g)) (fst (resizeWidget i cspan rspan g))"
  "outcome g (snd (resizeWidgetFromEdge i c r cspan rspan g)) (fst (resizeWidgetFromEdge i c r cspan rspan g))"
  "outcome g (emits ops (Remove i) g) (removeWidget i g)"
  "outcome g (emits ops (Opacity i x) g) (setWidgetOpacity i x g)"
  "outcome g (emits ops (Configure i raw) g) (fst (setWidgetConfig ops i raw g))"
  "outcome g False (setActivePage q g)"
  "outcome g True (addPage g)"
  "outcome g (snd (removePage q g)) (fst (removePage q g))"
  "outcome g True (removeAllWidgetsOnPage q g)"
  subgoal by (auto simp: placeWidget_def Let_def intro!: outcome_quiet outcome_commit committedI)
  subgoal by (auto simp: moveWidget_def Let_def split: option.split intro!: outcome_quiet outcome_commit committedI)
  subgoal by (auto simp: resizeWidget_def Let_def split: option.split intro!: outcome_quiet outcome_commit committedI)
  subgoal by (auto simp: resizeWidgetFromEdge_def Let_def split: option.split intro!: outcome_quiet outcome_commit committedI)
  subgoal by (auto simp: removeWidget_def Let_def split: option.split intro!: outcome_quiet outcome_commit committedI)
  subgoal by (auto simp: setWidgetOpacity_def Let_def split: option.split intro!: outcome_quiet outcome_commit committedI)
  subgoal by (auto simp: setWidgetConfig_def Let_def split: option.split intro!: outcome_quiet outcome_commit committedI)
  subgoal by (auto simp: setActivePage_def outcome_def)
  subgoal by (auto simp: addPage_def Let_def intro!: outcome_commit committedI)
  subgoal by (auto simp: removePage_def Let_def intro!: outcome_quiet outcome_commit committedI)
  subgoal by (auto simp: removeAllWidgetsOnPage_def Let_def intro!: outcome_commit committedI)
  done

lemma edit_outcome: "is_edit x \<Longrightarrow> outcome g (emits ops x g) (grid_step ops x g)"
  by (cases x) (simp_all only: is_edit.simps grid_step.simps outcomes emits.simps(1-4,8-12))

lemma edit_keeps:
  assumes "is_edit x"
  shows "cols (grid_step ops x g) = cols g" "rows (grid_step ops x g) = rows g"
    "widgetSelected (grid_step ops x g) = widgetSelected g"
    "remapPending (grid_step ops x g) \<Longrightarrow> remapPending g"
  using edit_outcome [OF assms, of g ops]
  by (auto simp: outcome_def committed_def promoteToBase_def adoptLiveAsBaseline_def split: if_splits)

lemma edit_emits:
  assumes "is_edit x" "emits ops x g"
  shows "base (grid_step ops x g) = live (grid_step ops x g)"
    "savedCols (grid_step ops x g) = cols g" "savedRows (grid_step ops x g) = rows g"
    "basePageCount (grid_step ops x g) = pageCount (grid_step ops x g)" "\<not> remapPending (grid_step ops x g)"
  using edit_outcome [OF assms(1), of g ops] assms(2)
  by (auto simp: outcome_def committed_def promoteToBase_def adoptLiveAsBaseline_def)

lemma edit_silent:
  assumes "is_edit x" "\<not> emits ops x g" "savedCols g \<noteq> 0"
  shows "savedCols (grid_step ops x g) = savedCols g" "savedRows (grid_step ops x g) = savedRows g"
  using edit_outcome [OF assms(1), of g ops] assms(2,3) by (auto simp: outcome_def)

lemma setGridDimensions_sel:
  "cols (setGridDimensions cs rs g) = cs" "rows (setGridDimensions cs rs g) = rs"
  "widgetSelected (setGridDimensions cs rs g) = widgetSelected g"
  "remapPending (setGridDimensions cs rs g) \<Longrightarrow> remapPending g \<or> widgetSelected g"
  "savedCols g \<noteq> 0 \<Longrightarrow> savedCols (setGridDimensions cs rs g) = savedCols g"
  "savedCols g \<noteq> 0 \<Longrightarrow> savedRows (setGridDimensions cs rs g) = savedRows g"
  by (auto simp: setGridDimensions_def copyBase_def remapPlacements_def Let_def split: if_splits)

lemma setWidgetSelected_sel:
  "cols (setWidgetSelected b g) = cols g" "rows (setWidgetSelected b g) = rows g"
  "widgetSelected (setWidgetSelected b g) = b"
  "(remapPending g \<Longrightarrow> widgetSelected g) \<Longrightarrow> remapPending (setWidgetSelected b g) \<Longrightarrow> b"
  "savedCols g \<noteq> 0 \<Longrightarrow> savedCols (setWidgetSelected b g) = savedCols g"
  "savedCols g \<noteq> 0 \<Longrightarrow> savedRows (setWidgetSelected b g) = savedRows g"
  by (auto simp: setWidgetSelected_def Let_def split: if_splits)

section \<open>The invariant\<close>

text \<open>A grid among others: its own invariant, and the dimensions it shares with them.\<close>

definition peer :: "int \<times> int \<Rightarrow> int \<times> int \<Rightarrow> grid \<Rightarrow> bool" where
  "peer d s g \<longleftrightarrow> grid_ok g \<and> (cols g, rows g) = d \<and> (savedCols g, savedRows g) = s
     \<and> (remapPending g \<longrightarrow> widgetSelected g)"

definition positive :: "int \<times> int \<Rightarrow> bool" where
  "positive d \<longleftrightarrow> 0 < fst d \<and> 0 < snd d"

definition peers :: "int \<times> int \<Rightarrow> int \<times> int \<Rightarrow> dash_mgr \<Rightarrow> bool" where
  "peers d s m \<longleftrightarrow> positive d \<and> positive s \<and> (\<forall>e\<in>set (entries m). peer d s (model e))"

abbreviation entry_ids :: "dash_mgr \<Rightarrow> string list" where
  "entry_ids m \<equiv> map entryId (entries m)"

definition selection_ok :: "dash_mgr \<Rightarrow> bool" where
  "selection_ok m \<longleftrightarrow> (\<forall>k<length (entries m). k \<noteq> active m \<longrightarrow> \<not> widgetSelected (model (entries m ! k)))"

definition mgr_ok :: "dash_mgr \<Rightarrow> bool" where
  "mgr_ok m \<longleftrightarrow> active m < length (entries m) \<and> length (entries m) \<le> 8 \<and> distinct (entry_ids m)
     \<and> ''home'' \<in> set (entry_ids m) \<and> \<not> loading m \<and> (\<exists>d s. peers d s m) \<and> selection_ok m"

lemma mgr_ok_cong:
  "entries m' = entries m \<Longrightarrow> active m' = active m \<Longrightarrow> loading m' = loading m \<Longrightarrow> mgr_ok m' = mgr_ok m"
  by (simp add: mgr_ok_def peers_def selection_ok_def)

lemma mgr_ok_step:
  assumes "mgr_ok m" "entry_ids m' = entry_ids m" "active m' < length (entries m)" "loading m' = loading m"
    and "peers d s m'" "selection_ok m'"
  shows "mgr_ok m'"
proof -
  have "length (entries m') = length (entries m)" using assms(2) by (metis length_map)
  then show ?thesis using assms by (simp only: mgr_ok_def) blast
qed

lemma mgr_okI:
  "active m < length (entries m) \<Longrightarrow> length (entries m) \<le> 8 \<Longrightarrow> distinct (entry_ids m) \<Longrightarrow>
     ''home'' \<in> set (entry_ids m) \<Longrightarrow> \<not> loading m \<Longrightarrow> peers d s m \<Longrightarrow> selection_ok m \<Longrightarrow> mgr_ok m"
  unfolding mgr_ok_def by blast

lemma mgr_okD:
  assumes "mgr_ok m"
  obtains d s where "peers d s m" "active m < length (entries m)" "selection_ok m"
  using assms by (auto simp: mgr_ok_def)

lemma save_sel [simp]:
  "entries (saveAll tx m) = entries m" "active (saveAll tx m) = active m" "loading (saveAll tx m) = loading m"
  "entries (schedulePersistActiveId m) = entries m" "active (schedulePersistActiveId m) = active m"
  "loading (schedulePersistActiveId m) = loading m"
  "entries (save m) = entries m" "active (save m) = active m" "loading (save m) = loading m"
  by (simp_all add: saveAll_def save_def schedulePersistActiveId_def Let_def)

lemma mgr_ok_save [simp]: "mgr_ok (saveAll tx m) = mgr_ok m" "mgr_ok (schedulePersistActiveId m) = mgr_ok m"
  by (rule mgr_ok_cong; simp)+

lemma updateModel_sel [simp]:
  "length (entries (updateModel k f m)) = length (entries m)" "entry_ids (updateModel k f m) = entry_ids m"
  "active (updateModel k f m) = active m" "loading (updateModel k f m) = loading m"
  by (simp_all add: updateModel_def map_update list_update_same_conv)

lemma mapModels_sel [simp]:
  "length (entries (mapModels f m)) = length (entries m)" "entry_ids (mapModels f m) = entry_ids m"
  "active (mapModels f m) = active m" "loading (mapModels f m) = loading m"
  by (simp_all add: mapModels_def comp_def)

lemma nth_updateModel:
  "j < length (entries m) \<Longrightarrow> model (entries (updateModel k f m) ! j) =
     (if j = k then f (model (entries m ! j)) else model (entries m ! j))"
  by (auto simp: updateModel_def nth_list_update)

lemma peers_updateModel:
  "peers d s m \<Longrightarrow> (\<And>g. peer d s g \<Longrightarrow> peer d s (f g)) \<Longrightarrow> peers d s (updateModel k f m)"
  by (auto simp: peers_def updateModel_def dest!: subsetD [OF set_update_subset_insert])

lemma peers_mapModels:
  "peers d s m \<Longrightarrow> positive d' \<Longrightarrow> positive s' \<Longrightarrow> (\<And>g. peer d s g \<Longrightarrow> peer d' s' (f g)) \<Longrightarrow>
     peers d' s' (mapModels f m)"
  by (auto simp: peers_def mapModels_def)

lemma home_nonempty: "''home'' \<in> set (entry_ids m) \<Longrightarrow> entries m \<noteq> []"
  by auto

section \<open>Navigation and selection\<close>

lemma peer_select:
  assumes "peer d s g" "positive s"
  shows "peer d s (setWidgetSelected b g)"
proof -
  have "savedCols g \<noteq> 0" using assms by (auto simp: peer_def positive_def)
  then show ?thesis
    using assms(1) setWidgetSelected_ok [where g = g and sel = b] setWidgetSelected_sel [where g = g and b = b] by (auto simp: peer_def)
qed

lemma go_to_ok:
  assumes "mgr_ok m" "k < length (entries m)"
  shows "mgr_ok (go_to k m)"
proof -
  obtain d s where ps: "peers d s m" using assms(1) by (auto simp: mgr_ok_def)
  let ?m = "updateModel (active m) (setWidgetSelected False) m"
  have "peers d s ?m" using ps by (intro peers_updateModel) (auto simp: peers_def peer_select)
  moreover have "\<not> widgetSelected (model (entries ?m ! j))" if "j < length (entries m)" for j
    using that assms(1) by (simp add: nth_updateModel setWidgetSelected_sel mgr_ok_def selection_ok_def)
  ultimately have "mgr_ok (?m \<lparr> active := k \<rparr>)"
    using assms by (intro mgr_ok_step [OF assms(1), of _ d s]) (simp_all add: selection_ok_def peers_def)
  then show ?thesis by (simp add: go_to_def)
qed

lemma indexOf_Some: "indexOf es i = Some k \<Longrightarrow> k < length es \<and> entryId (es ! k) = i"
  by (induction es arbitrary: k) (auto split: if_splits)

lemma indexOf_None: "indexOf es i = None \<longleftrightarrow> i \<notin> set (map entryId es)"
  by (induction es) auto

lemma switchTo_ok: "mgr_ok m \<Longrightarrow> mgr_ok (fst (switchTo i m))"
  using indexOf_Some go_to_ok by (auto simp: switchTo_def split: option.split)

lemma switchToIndex_ok: "mgr_ok m \<Longrightarrow> mgr_ok (fst (switchToIndex i m))"
  by (auto simp: switchToIndex_def intro!: go_to_ok)

lemma nextDashboard_ok: "mgr_ok m \<Longrightarrow> mgr_ok (nextDashboard m)"
  by (auto simp: nextDashboard_def intro!: go_to_ok mod_less_divisor)

lemma previousDashboard_ok: "mgr_ok m \<Longrightarrow> mgr_ok (previousDashboard m)"
  by (auto simp: previousDashboard_def intro!: go_to_ok mod_less_divisor)

lemma select_ok:
  assumes "mgr_ok m"
  shows "mgr_ok (updateModel (active m) (setWidgetSelected b) m)"
proof -
  obtain d s where ps: "peers d s m" using assms by (auto simp: mgr_ok_def)
  have "peers d s (updateModel (active m) (setWidgetSelected b) m)"
    using ps by (intro peers_updateModel) (auto simp: peers_def peer_select)
  then show ?thesis using assms
    by (intro mgr_ok_step [OF assms, of _ d s]) (simp_all add: mgr_ok_def selection_ok_def nth_updateModel)
qed

lemma setGridDimensions_peer:
  assumes "peer d s g" "positive s" "0 < cs" "0 < rs"
  shows "peer (cs, rs) s (setGridDimensions cs rs g)"
proof -
  have "savedCols g \<noteq> 0" using assms by (auto simp: peer_def positive_def)
  then show ?thesis
    using assms setGridDimensions_ok [of g cs rs] setGridDimensions_sel [where g = g and cs = cs and rs = rs]
    by (auto simp: peer_def)
qed

lemma mgr_setGridDimensions_ok:
  assumes "mgr_ok m" "0 < cs" "0 < rs"
  shows "mgr_ok (mgr_setGridDimensions cs rs m)"
proof -
  obtain d s where ps: "peers d s m" using assms by (auto simp: mgr_ok_def)
  have "peers (cs, rs) s (mapModels (setGridDimensions cs rs) m)"
    using ps assms(2,3) by (intro peers_mapModels) (auto simp: peers_def positive_def setGridDimensions_peer)
  then show ?thesis unfolding mgr_setGridDimensions_def using assms(1)
    by (intro mgr_ok_step [OF assms(1), of _ "(cs, rs)" s])
      (simp_all add: mgr_ok_def selection_ok_def mapModels_def setGridDimensions_sel comp_def)
qed

section \<open>Edits\<close>

definition aligned :: "int \<times> int \<Rightarrow> dash_mgr \<Rightarrow> bool" where
  "aligned d m \<longleftrightarrow> positive d \<and> (\<forall>e\<in>set (entries m). grid_ok (model e)
     \<and> (cols (model e), rows (model e)) = d \<and> (remapPending (model e) \<longrightarrow> widgetSelected (model e)))"

lemma peers_aligned: "peers d s m \<Longrightarrow> aligned d m"
  by (auto simp: peers_def aligned_def peer_def)

lemma aligned_update_nth:
  "aligned d m \<Longrightarrow> (k < length (entries m) \<Longrightarrow> grid_ok (f (model (entries m ! k)))
       \<and> (cols (f (model (entries m ! k))), rows (f (model (entries m ! k)))) = d
       \<and> (remapPending (f (model (entries m ! k))) \<longrightarrow> widgetSelected (f (model (entries m ! k))))) \<Longrightarrow>
     aligned d (updateModel k f m)"
  by (auto simp: aligned_def updateModel_def dest!: subsetD [OF set_update_subset_insert])

lemma peers_update_nth:
  "peers d s m \<Longrightarrow> (k < length (entries m) \<Longrightarrow> peer d s (f (model (entries m ! k)))) \<Longrightarrow>
     peers d s (updateModel k f m)"
  by (auto simp: peers_def updateModel_def dest!: subsetD [OF set_update_subset_insert])

lemma adopt_ok: "grid_ok g \<Longrightarrow> grid_ok (adoptLiveAsBaseline g)"
  by (simp add: promoteToBase_ok [unfolded promoteToBase_def] grid_ok_def [of g])

lemma adopt_sel [simp]:
  "cols (adoptLiveAsBaseline g) = cols g" "rows (adoptLiveAsBaseline g) = rows g"
  "live (adoptLiveAsBaseline g) = live g" "base (adoptLiveAsBaseline g) = live g"
  "savedCols (adoptLiveAsBaseline g) = cols g" "savedRows (adoptLiveAsBaseline g) = rows g"
  "pageCount (adoptLiveAsBaseline g) = pageCount g" "basePageCount (adoptLiveAsBaseline g) = pageCount g"
  "widgetSelected (adoptLiveAsBaseline g) = widgetSelected g" "remapPending (adoptLiveAsBaseline g) = remapPending g"
  by (simp_all add: adoptLiveAsBaseline_def)

text \<open>With the dimensions aligned, a commit adopts every live layout and saves the result.\<close>

lemma commit_aligned:
  assumes "aligned d m" "k < length (entries m)" "\<not> loading m"
  shows "commitSharedBaseline tx k m = saveAll tx (mapModels adoptLiveAsBaseline m)"
proof -
  let ?g = "model (entries m ! k)"
  have d: "(cols ?g, rows ?g) = d" "\<forall>e\<in>set (entries m). (cols (model e), rows (model e)) = d"
    using assms(1,2) by (auto simp: aligned_def)
  have "mapModels (\<lambda>g. if cols g \<noteq> cols ?g \<or> rows g \<noteq> rows ?g then setGridDimensions (cols ?g) (rows ?g) g else g) m = m"
    using d unfolding mapModels_def by (subst map_idI) auto
  then show ?thesis using assms(2,3) by (simp add: commitSharedBaseline_def Let_def)
qed

lemma peers_adopt: "aligned d m \<Longrightarrow> peers d d (mapModels adoptLiveAsBaseline m)"
  by (auto simp: aligned_def peers_def peer_def mapModels_def adopt_ok)

lemma edit_aligned:
  assumes m: "mgr_ok m" "is_edit x" "admissible (model (entries m ! active m)) x" and ps: "peers d s m"
  shows "aligned d (updateModel (active m) (grid_step ops x) m)"
proof (rule aligned_update_nth [OF peers_aligned [OF ps]])
  assume k: "active m < length (entries m)"
  let ?g = "model (entries m ! active m)"
  have g: "grid_ok ?g" "(cols ?g, rows ?g) = d" "remapPending ?g \<longrightarrow> widgetSelected ?g"
    using ps k by (auto simp: peers_def peer_def)
  show "grid_ok (grid_step ops x ?g) \<and> (cols (grid_step ops x ?g), rows (grid_step ops x ?g)) = d
      \<and> (remapPending (grid_step ops x ?g) \<longrightarrow> widgetSelected (grid_step ops x ?g))"
    using grid_step_ok [OF g(1) m(3)] edit_keeps [OF m(2)] g by auto
qed

lemma edit_ok:
  assumes m: "mgr_ok m" "is_edit x" "admissible (model (entries m ! active m)) x"
  shows "mgr_ok (edit ops tx x m)"
proof -
  obtain d s where ps: "peers d s m" "active m < length (entries m)" "selection_ok m" using m(1) by (rule mgr_okD)
  let ?g = "model (entries m ! active m)" and ?m = "updateModel (active m) (grid_step ops x) m"
  have al: "aligned d ?m" using edit_aligned [OF m ps(1)] .
  have sel: "selection_ok ?m" using ps(3) by (simp add: selection_ok_def nth_updateModel)
  have load: "\<not> loading m" using m(1) by (simp add: mgr_ok_def)
  show ?thesis
  proof (cases "emits ops x ?g")
    case True
    have "selection_ok (mapModels adoptLiveAsBaseline ?m)" using sel by (simp add: selection_ok_def mapModels_def)
    then have "mgr_ok (mapModels adoptLiveAsBaseline ?m)"
      using ps(2) peers_adopt [OF al] by (intro mgr_ok_step [OF m(1)]) simp_all
    then show ?thesis using True ps(2) load
      by (simp add: edit_def activeModel_def commit_aligned [OF al])
  next
    case False
    have "peer d s ?g" using ps by (simp add: peers_def)
    then have "savedCols ?g \<noteq> 0" using ps(1) by (auto simp: peer_def peers_def positive_def)
    note quiet = edit_silent [OF m(2) False this]
    have "peer d s (grid_step ops x ?g)"
      using \<open>peer d s ?g\<close> quiet al ps(2) by (auto simp: aligned_def peer_def nth_updateModel
        dest!: bspec [where x = "entries ?m ! active m"])
    then have "peers d s ?m" using ps(1) by (intro peers_update_nth)
    then have "mgr_ok ?m" using sel ps(2) by (intro mgr_ok_step [OF m(1)]) simp_all
    then show ?thesis using False ps(2) by (simp add: edit_def activeModel_def)
  qed
qed

section \<open>Creation and removal\<close>

lemma uniqueId_fresh:
  "\<exists>i. uniqueId es baseId = Some i \<and> i \<notin> set (map entryId es)"
proof -
  define cand where "cand n = (if n = 0 then baseId else baseId @ ''-'' @ dec_string (n + 1))" for n
  have inj: "inj cand"
    by (rule injI) (auto simp: cand_def split: if_splits dest!: dec_string_inj)
  let ?I = "set (map entryId es)"
  let ?left = "\<lambda>n. {k. n \<le> k + 2 \<and> cand k \<in> ?I}"
  have fin: "finite (?left n)" for n
    using finite_vimageI [OF finite_set inj, of "map entryId es"] by (rule rev_finite_subset) auto
  let ?P = "\<lambda>(i, n). 2 \<le> n \<and> i = cand (n - 2)"
  let ?b = "\<lambda>(i, n :: nat). indexOf es i \<noteq> None"
  let ?c = "\<lambda>(i :: string, n). (baseId @ ''-'' @ dec_string n, n + 1)"
  have "?P (?c s) \<and> card (?left (snd (?c s))) < card (?left (snd s))" if "?P s" "?b s" for s
  proof -
    obtain i n where s: "s = (i, n)" by (cases s)
    have "n - 2 \<in> ?left n - ?left (n + 1)" using that by (auto simp: s indexOf_None)
    moreover have "?left (n + 1) \<subseteq> ?left n" by auto
    ultimately have "?left (n + 1) \<subset> ?left n" by blast
    then have "card (?left (n + 1)) < card (?left n)" by (rule psubset_card_mono [OF fin])
    then show ?thesis using that by (auto simp: s cand_def)
  qed
  then have "\<exists>t. while_option ?b ?c (baseId, 2) = Some t"
    by (rule measure_while_option_Some [where P = ?P and f = "\<lambda>s. card (?left (snd s))"]) (auto simp: cand_def)
  then obtain t where t: "while_option ?b ?c (baseId, 2) = Some t" by blast
  then have "\<not> ?b t" by (rule while_option_stop)
  then show ?thesis using t indexOf_None by (cases t) (auto simp: uniqueId_def)
qed

lemma new_model_peer:
  assumes "peer d s am" "positive d" "positive s"
  shows "peer d s (setPageCount 1 (setSavedDimensions (savedCols am) (savedRows am)
    (setGridDimensions (cols am) (rows am) (grid_new reg))))"
proof -
  let ?g = "setGridDimensions (cols am) (rows am) (grid_new reg)"
  have n: "grid_ok (grid_new reg)" using grid_reachable_ok [OF grid_reachable.new] by blast
  have "grid_ok ?g" using assms by (intro setGridDimensions_ok [OF n]) (auto simp: peer_def positive_def)
  moreover have g: "?g = (grid_new reg) \<lparr> cols := cols am, rows := rows am \<rparr>"
    by (auto simp: setGridDimensions_def grid_new_def Let_def)
  ultimately have "grid_ok (setSavedDimensions (savedCols am) (savedRows am) ?g)"
    using assms by (auto simp: setSavedDimensions_def grid_ok_def pages_ok_def peer_def positive_def dims_ok_def)
  then have "grid_ok (setPageCount 1 (setSavedDimensions (savedCols am) (savedRows am) ?g))"
    by (rule setPageCount_ok)
  then show ?thesis using assms(1)
    by (auto simp: peer_def setPageCount_def setSavedDimensions_def setGridDimensions_def grid_new_def Let_def)
qed

lemma addDashboard_ok:
  assumes "mgr_ok m"
  shows "\<exists>m' i. addDashboard tx name m = Some (m', i) \<and> mgr_ok m' \<and> (m' \<noteq> m \<longrightarrow> i \<notin> set (entry_ids m))"
proof -
  obtain d s where ps: "peers d s m" "active m < length (entries m)" "selection_ok m" using assms by (rule mgr_okD)
  define am where "am = model (entries m ! active m)"
  define g where "g = setPageCount 1 (setSavedDimensions (savedCols am) (savedRows am)
    (setGridDimensions (cols am) (rows am) (grid_new (mRegistry m))))"
  have am: "activeModel m = Some am" using ps(2) by (simp add: activeModel_def am_def)
  have g: "peer d s g" unfolding g_def using ps by (intro new_model_peer) (auto simp: peers_def am_def)
  define slug where "slug = slugify tx (trimmed tx name)"
  obtain i where i: "uniqueId (entries m) (if slug = '''' then ''dashboard'' else slug) = Some i"
      "i \<notin> set (entry_ids m)"
    using uniqueId_fresh by blast
  define m' where "m' = m \<lparr> entries := entries m @ [\<lparr> entryId = i, entryName = trimmed tx name, model = g \<rparr>] \<rparr>"
  have "\<not> widgetSelected g"
    by (simp add: g_def setPageCount_def setSavedDimensions_def setGridDimensions_sel Let_def grid_new_def)
  then have "selection_ok m'" using ps(3) by (auto simp: selection_ok_def m'_def nth_append)
  moreover have "peers d s m'" using ps(1) g by (auto simp: peers_def m'_def)
  ultimately have "mgr_ok m'" if "length (entries m) < 8"
    using assms that i(2) by (intro mgr_okI [of m' d s]) (auto simp: mgr_ok_def m'_def)
  then show ?thesis using assms i am
    by (simp add: addDashboard_def Let_def slug_def [symmetric] g_def [symmetric] m'_def [symmetric])
qed

lemma nth_remove:
  "k < length xs \<Longrightarrow> j < length xs - 1 \<Longrightarrow> (take k xs @ drop (Suc k) xs) ! j = (if j < k then xs ! j else xs ! Suc j)"
  by (auto simp: nth_append)

lemma removeDashboard_ok:
  assumes m: "mgr_ok m"
  shows "mgr_ok (fst (removeDashboard tx i m))"
proof (cases "i = ''home'' \<or> length (entries m) \<le> 1 \<or> indexOf (entries m) i = None")
  case True
  then show ?thesis using m by (auto simp: removeDashboard_def)
next
  case False
  then obtain k where k: "indexOf (entries m) i = Some k" by auto
  note ki = indexOf_Some [OF k]
  obtain d s where ps: "peers d s m" "active m < length (entries m)" "selection_ok m" using m by (rule mgr_okD)
  define es where "es = take k (entries m) @ drop (Suc k) (entries m)"
  define a where "a = (if k = active m then (case indexOf es ''home'' of None \<Rightarrow> 0 | Some h \<Rightarrow> h)
                   else if k < active m then active m - 1 else active m)"
  have len: "length es = length (entries m) - 1" using ki by (simp add: es_def)
  obtain us e vs where split: "entries m = us @ e # vs" "es = us @ vs" "entryId e = i"
    using ki id_take_nth_drop [of k "entries m"] by (auto simp: es_def)
  have "''home'' \<in> set (entry_ids m)" "distinct (entry_ids m)" using m by (simp_all add: mgr_ok_def)
  then have home: "''home'' \<in> set (map entryId es)" and dist: "distinct (map entryId es)"
    using False split(3) unfolding split(1,2) by auto
  have "a < length es"
    using home indexOf_Some [of es "''home''"] ps(2) ki False
    by (auto simp: a_def len split: option.split dest!: indexOf_None [THEN iffD1])
  moreover have "selection_ok (m \<lparr> entries := es, active := a \<rparr>)"
    unfolding selection_ok_def
  proof (intro allI impI)
    fix j
    assume j: "j < length (entries (m \<lparr> entries := es, active := a \<rparr>))" "j \<noteq> active (m \<lparr> entries := es, active := a \<rparr>)"
    let ?j = "if j < k then j else Suc j"
    have "es ! j = entries m ! ?j" using j(1) ki len by (simp add: es_def nth_remove)
    moreover have "?j < length (entries m)" "?j \<noteq> active m"
      using j ki len by (auto simp: a_def split: if_splits)
    ultimately show "\<not> widgetSelected (model (entries (m \<lparr> entries := es, active := a \<rparr>) ! j))"
      using ps(3) by (simp add: selection_ok_def)
  qed
  moreover have "peers d s (m \<lparr> entries := es, active := a \<rparr>)"
    using ps(1) by (auto simp: peers_def es_def dest: in_set_takeD in_set_dropD)
  ultimately have "mgr_ok (m \<lparr> entries := es, active := a \<rparr>)"
    using m len home dist by (intro mgr_okI [of _ d s]) (auto simp: mgr_ok_def)
  then show ?thesis using False k
    by (simp add: removeDashboard_def Let_def es_def [symmetric] a_def [symmetric])
qed

lemma renameDashboard_ok:
  assumes "mgr_ok m"
  shows "mgr_ok (fst (renameDashboard tx i name m))"
proof -
  obtain d s where ps: "peers d s m" "active m < length (entries m)" "selection_ok m" using assms by (rule mgr_okD)
  have "mgr_ok (m \<lparr> entries := (entries m)[k := (entries m ! k) \<lparr> entryName := nm \<rparr>] \<rparr>)"
    if "indexOf (entries m) i = Some k" for k nm
  proof (rule mgr_ok_step [OF assms, of _ d s])
    show "peers d s (m \<lparr> entries := (entries m)[k := (entries m ! k) \<lparr> entryName := nm \<rparr>] \<rparr>)"
      using ps(1) indexOf_Some [OF that] by (auto simp: peers_def dest!: subsetD [OF set_update_subset_insert])
  qed (use ps indexOf_Some [OF that] in \<open>auto simp: selection_ok_def nth_list_update map_update list_update_same_conv\<close>)
  then show ?thesis using assms by (auto simp: renameDashboard_def Let_def split: option.split)
qed

lemma timers_ok: "mgr_ok m \<Longrightarrow> mgr_ok (persistTimeout m)" "mgr_ok m \<Longrightarrow> mgr_ok (flushPendingPersist m)"
  using mgr_ok_cong [of "save (m \<lparr> persistTimer := False \<rparr>)" m] by (simp_all add: persistTimeout_def flushPendingPersist_def)

section \<open>Loading\<close>

text \<open>
  A stored configuration that the manager can start from: its dashboards have distinct
  identifiers and well-formed layouts, and either the grid dimensions were saved and the home
  dashboard is not empty, or there is the home dashboard alone.
\<close>

definition load_ok :: "text_ops \<Rightarrow> grid_yaml \<Rightarrow> int \<Rightarrow> int \<Rightarrow> bool" where
  "load_ok tx y ics irs \<longleftrightarrow> 0 < ics \<and> 0 < irs \<and> distinct (map dcId (dashList tx y))
     \<and> ''home'' \<in> set (map dcId (dashList tx y)) \<and> length (dashList tx y) \<le> 8
     \<and> (\<forall>d\<in>set (dashList tx y). loadable (dcPlacements d) (dcNext d))
     \<and> (positive (yCols y, yRows y)
          \<and> (\<forall>d\<in>set (dashList tx y). dcId d = ''home'' \<longrightarrow> dcPlacements d \<noteq> [])
        \<or> length (dashList tx y) = 1 \<and> dims_ok (yCols y) (yRows y))"

lemma dec_string_digits: "c \<in> set (dec_string n) \<Longrightarrow> (of_char c :: nat) \<le> 57"
proof (induction n rule: dec_string.induct)
  case (1 n)
  then show ?case by (subst (asm) dec_string.simps) (auto split: if_splits)
qed

lemma no_number_at_end:
  assumes "(of_char c :: nat) > 57"
  shows "w @ ''-'' @ dec_string n \<noteq> s @ [c]"
proof
  assume "w @ ''-'' @ dec_string n = s @ [c]"
  then have "last (w @ ''-'' @ dec_string n) = c" by simp
  moreover have "dec_string n \<noteq> []" by (subst dec_string.simps) simp
  ultimately have "c \<in> set (dec_string n)" by (metis append_is_Nil_conv last_appendR last_in_set)
  then show False using dec_string_digits assms by fastforce
qed

lemma seed_ids_unnumbered:
  "w @ ''-'' @ dec_string n \<noteq> ''aa-launcher-reserved''"
  "w @ ''-'' @ dec_string n \<noteq> ''settings-launcher-reserved''"
  using no_number_at_end [of "CHR ''d''" w n "''aa-launcher-reserve''"]
    no_number_at_end [of "CHR ''d''" w n "''settings-launcher-reserve''"] by simp_all

lemma fresh_seed_ids: "fresh_ids n [''aa-launcher-reserved'', ''settings-launcher-reserved'']"
  unfolding fresh_ids_def using seed_ids_unnumbered by (simp only: list.set insert_iff empty_iff) simp

lemma seed_loadable: "0 \<le> q \<Longrightarrow> loadable (seedPlacements q) n"
  using fresh_seed_ids [of n]
  by (auto simp: loadable_def seedPlacements_def new_placement_def layout_ok_def well_placed_def apart_def in_cells)

lemma setPlacements_ok:
  assumes "grid_ok g" "loadable ps (nextInstanceId g)"
  shows "grid_ok (setPlacements ops ps reg g)"
proof -
  have "loadPlacements ops ps reg (nextInstanceId g) g = setPlacements ops ps reg g"
    by (simp add: loadPlacements_def setNextInstanceId_def setPlacements_def setCurrentPageCount_def Let_def)
  then show ?thesis using loadPlacements_ok [OF assms] by metis
qed

lemma setPlacements_sel [simp]:
  "cols (setPlacements ops ps reg g) = cols g" "rows (setPlacements ops ps reg g) = rows g"
  "widgetSelected (setPlacements ops ps reg g) = widgetSelected g"
  "remapPending (setPlacements ops ps reg g) = remapPending g"
  "savedCols (setPlacements ops ps reg g) = savedCols g" "savedRows (setPlacements ops ps reg g) = savedRows g"
  "length (base (setPlacements ops ps reg g)) = length ps"
  by (simp_all add: setPlacements_def Let_def moveReservedPagesToTail_ok)

lemma base_setGridDimensions [simp]: "base (setGridDimensions cs rs g) = base g"
  by (simp add: setGridDimensions_def copyBase_def remapPlacements_def Let_def)

text \<open>The first four steps of loading a dashboard: pages, placements, instance counter, saved dimensions.\<close>

definition stage :: "variant_ops \<Rightarrow> registry option \<Rightarrow> int \<times> int \<Rightarrow> dash_config \<Rightarrow> grid" where
  "stage ops reg s d = setSavedDimensions (fst s) (snd s) (setNextInstanceId (dcNext d)
     (if dcPlacements d \<noteq> [] then setPlacements ops (dcPlacements d) reg (setPageCount (dcPages d) (grid_new reg))
      else setPageCount (dcPages d) (grid_new reg)))"

lemma load_model_stage:
  "load_model ops reg scs srs ics irs d = (let g = setGridDimensions ics irs (stage ops reg (scs, srs) d) in
     if dcId d = ''home'' \<and> live g = []
     then adoptLiveAsBaseline (setPlacements ops (seedPlacements (pageCount g - 1)) reg g) else g)"
  by (simp add: load_model_def stage_def Let_def)

lemma stage_ok:
  assumes "loadable (dcPlacements d) (dcNext d)" "dims_ok (fst s) (snd s)"
  shows "grid_ok (stage ops reg s d)"
proof -
  let ?g = "setPageCount (dcPages d) (grid_new reg)"
  have n: "grid_ok ?g" using grid_reachable_ok [OF grid_reachable.new] by (intro setPageCount_ok) blast
  have "grid_ok (setNextInstanceId (dcNext d) (if dcPlacements d \<noteq> [] then setPlacements ops (dcPlacements d) reg ?g else ?g))"
  proof (cases "dcPlacements d = []")
    case True
    have "live ?g = []" by (simp add: setPageCount_def grid_new_def moveReservedPagesToTail_def Let_def)
    then show ?thesis using n True by (simp add: setNextInstanceId_def grid_ok_def pages_ok_def fresh_ids_def)
  next
    case False
    then show ?thesis using loadPlacements_ok [OF n assms(1)] by (simp add: loadPlacements_def)
  qed
  then show ?thesis using assms(2) by (simp add: stage_def setSavedDimensions_def grid_ok_def pages_ok_def)
qed

lemma stage_sel [simp]:
  "cols (stage ops reg s d) = 0" "\<not> widgetSelected (stage ops reg s d)" "\<not> remapPending (stage ops reg s d)"
  "savedCols (stage ops reg s d) = fst s" "savedRows (stage ops reg s d) = snd s"
  "length (base (stage ops reg s d)) = length (dcPlacements d)"
  by (simp_all add: stage_def setSavedDimensions_def setNextInstanceId_def setPageCount_def grid_new_def Let_def
      moveReservedPagesToTail_def)

lemma load_model_ok:
  assumes d: "loadable (dcPlacements d) (dcNext d)" and s: "dims_ok scs srs" and i: "0 < ics" "0 < irs"
    and g_def: "g = load_model ops reg scs srs ics irs d"
  shows "grid_ok g" "(cols g, rows g) = (ics, irs)" "\<not> widgetSelected g" "\<not> remapPending g"
    "positive (scs, srs) \<Longrightarrow> dcId d \<noteq> ''home'' \<or> dcPlacements d \<noteq> [] \<Longrightarrow> (savedCols g, savedRows g) = (scs, srs)"
    "dcId d = ''home'' \<Longrightarrow> positive (savedCols g, savedRows g)"
proof -
  define g0 where "g0 = setGridDimensions ics irs (stage ops reg (scs, srs) d)"
  have g0: "grid_ok g0" using stage_ok [OF d, of "(scs, srs)"] s i unfolding g0_def by (intro setGridDimensions_ok) simp_all
  have sel: "cols g0 = ics" "rows g0 = irs" "\<not> widgetSelected g0" "\<not> remapPending g0"
    using setGridDimensions_sel(4) [of ics irs "stage ops reg (scs, srs) d"]
    by (auto simp: g0_def setGridDimensions_sel)
  have g: "g = (if dcId d = ''home'' \<and> live g0 = []
     then adoptLiveAsBaseline (setPlacements ops (seedPlacements (pageCount g0 - 1)) reg g0) else g0)"
    by (simp add: g_def load_model_stage g0_def Let_def)
  have "0 \<le> pageCount g0 - 1" using g0 by (auto simp: grid_ok_def pages_ok_def)
  then show "grid_ok g" using g0 setPlacements_ok [OF g0 seed_loadable] adopt_ok by (simp add: g)
  show "(cols g, rows g) = (ics, irs)" "\<not> widgetSelected g" "\<not> remapPending g" using sel by (simp_all add: g)
  have "length (live g0) = length (dcPlacements d)"
    using g0 ids_length [of "base g0" "live g0"] by (simp add: grid_ok_def g0_def)
  then have empty: "live g0 = [] \<longleftrightarrow> dcPlacements d = []" "base g0 = [] \<longleftrightarrow> dcPlacements d = []"
    using g0 ids_length [of "base g0" "live g0"] by (auto simp: grid_ok_def)
  show "(savedCols g, savedRows g) = (scs, srs)" if "positive (scs, srs)" "dcId d \<noteq> ''home'' \<or> dcPlacements d \<noteq> []"
    using that empty by (auto simp: g g0_def positive_def setGridDimensions_sel)
  show "positive (savedCols g, savedRows g)" if "dcId d = ''home''"
  proof (cases "live g0 = []")
    case True
    then show ?thesis using that i sel by (simp add: g positive_def)
  next
    case False
    have "savedCols g0 \<noteq> 0"
    proof (cases "scs = 0")
      case True
      have "base (stage ops reg (scs, srs) d) \<noteq> []" using False empty by (simp add: g0_def)
      then show ?thesis using True i by (simp add: g0_def setGridDimensions_def Let_def copyBase_def)
    qed (simp add: g0_def setGridDimensions_sel)
    then show ?thesis using False g0 by (auto simp: g positive_def grid_ok_def dims_ok_def)
  qed
qed

lemma load_mgr_ok:
  assumes "load_ok tx y ics irs"
  shows "mgr_ok (loadFromConfig ops tx ics irs (mgr_new reg y))"
proof -
  let ?ds = "dashList tx y" and ?m = "loadFromConfig ops tx ics irs (mgr_new reg y)"
  let ?load = "load_model ops reg (yCols y) (yRows y) ics irs"
  have es: "entries ?m = map (\<lambda>d. \<lparr> entryId = dcId d, entryName = dcName d, model = ?load d \<rparr>) ?ds"
    by (simp add: loadFromConfig_def mgr_new_def Let_def)
  have ok: "dims_ok (yCols y) (yRows y)" "0 < ics" "0 < irs" "\<forall>d\<in>set ?ds. loadable (dcPlacements d) (dcNext d)"
    using assms by (auto simp: load_ok_def positive_def dims_ok_def)
  note lm = load_model_ok [OF _ ok(1-3) refl]
  obtain s where s: "positive s" "\<forall>d\<in>set ?ds. (savedCols (?load d), savedRows (?load d)) = s"
  proof (cases "positive (yCols y, yRows y) \<and> (\<forall>d\<in>set ?ds. dcId d = ''home'' \<longrightarrow> dcPlacements d \<noteq> [])")
    case True
    then show ?thesis using that [of "(yCols y, yRows y)"] lm(5) ok(4) by blast
  next
    case False
    then obtain d where d: "?ds = [d]" using assms by (auto simp: load_ok_def length_Suc_conv)
    have "dcId d = ''home''" "loadable (dcPlacements d) (dcNext d)" using assms ok(4) d by (auto simp: load_ok_def)
    then have "positive (savedCols (?load d), savedRows (?load d))" by (intro lm(6))
    then show ?thesis by (rule that) (simp add: d)
  qed
  have "peers (ics, irs) s ?m"
    using s ok lm(1,2,4) unfolding peers_def peer_def es by (simp add: positive_def)
  moreover have "active ?m < length (entries ?m)"
  proof -
    have "entries ?m \<noteq> []" using assms by (auto simp: es load_ok_def)
    then show ?thesis using indexOf_Some
      by (fastforce simp: loadFromConfig_def mgr_new_def Let_def split: option.split)
  qed
  moreover have "selection_ok ?m" using lm(3) ok(4) by (auto simp: selection_ok_def es)
  moreover have "entry_ids ?m = map dcId ?ds" by (simp add: es comp_def)
  ultimately show ?thesis using assms
    by (intro mgr_okI [of _ "(ics, irs)" s]) (simp_all add: load_ok_def es comp_def, simp_all add: loadFromConfig_def Let_def)
qed

section \<open>Sequences of operations\<close>

datatype mgr_op =
    Edit grid_op
  | SelectWidget bool
  | SwitchTo string
  | SwitchToIndex int
  | NextDashboard
  | PreviousDashboard
  | AddDashboard string
  | RemoveDashboard string
  | RenameDashboard string string
  | GridDimensions int int
  | PersistTimeout
  | FlushPersist

primrec mgr_step :: "variant_ops \<Rightarrow> text_ops \<Rightarrow> mgr_op \<Rightarrow> dash_mgr \<Rightarrow> dash_mgr option" where
  "mgr_step ops tx (Edit x) m = Some (edit ops tx x m)"
| "mgr_step ops tx (SelectWidget b) m = Some (updateModel (active m) (setWidgetSelected b) m)"
| "mgr_step ops tx (SwitchTo i) m = Some (fst (switchTo i m))"
| "mgr_step ops tx (SwitchToIndex k) m = Some (fst (switchToIndex k m))"
| "mgr_step ops tx NextDashboard m = Some (nextDashboard m)"
| "mgr_step ops tx PreviousDashboard m = Some (previousDashboard m)"
| "mgr_step ops tx (AddDashboard name) m = map_option fst (addDashboard tx name m)"
| "mgr_step ops tx (RemoveDashboard i) m = Some (fst (removeDashboard tx i m))"
| "mgr_step ops tx (RenameDashboard i name) m = Some (fst (renameDashboard tx i name m))"
| "mgr_step ops tx (GridDimensions cs rs) m = Some (mgr_setGridDimensions cs rs m)"
| "mgr_step ops tx PersistTimeout m = Some (persistTimeout m)"
| "mgr_step ops tx FlushPersist m = Some (flushPendingPersist m)"

text \<open>The view edits the active dashboard only, and a grid has positive dimensions.\<close>

fun mgr_admissible :: "dash_mgr \<Rightarrow> mgr_op \<Rightarrow> bool" where
  "mgr_admissible m (Edit x) \<longleftrightarrow> is_edit x \<and> admissible (model (entries m ! active m)) x"
| "mgr_admissible m (GridDimensions cs rs) \<longleftrightarrow> 0 < cs \<and> 0 < rs"
| "mgr_admissible m _ \<longleftrightarrow> True"

inductive mgr_reachable :: "variant_ops \<Rightarrow> text_ops \<Rightarrow> dash_mgr \<Rightarrow> bool" for ops tx where
  load: "load_ok tx y ics irs \<Longrightarrow> mgr_reachable ops tx (loadFromConfig ops tx ics irs (mgr_new reg y))"
| step: "mgr_reachable ops tx m \<Longrightarrow> mgr_admissible m x \<Longrightarrow> mgr_step ops tx x m = Some m' \<Longrightarrow>
     mgr_reachable ops tx m'"

lemmas mgr_ops_ok = edit_ok select_ok switchTo_ok switchToIndex_ok nextDashboard_ok previousDashboard_ok
  removeDashboard_ok renameDashboard_ok mgr_setGridDimensions_ok timers_ok

lemma mgr_step_ok:
  assumes "mgr_ok m" "mgr_admissible m x"
  shows "\<exists>m'. mgr_step ops tx x m = Some m' \<and> mgr_ok m'"
proof (cases x)
  case (AddDashboard name)
  then show ?thesis using addDashboard_ok [OF assms(1), of tx name] by auto
qed (use assms in \<open>simp_all add: mgr_ops_ok\<close>)

lemma mgr_reachable_ok: "mgr_reachable ops tx m \<Longrightarrow> mgr_ok m"
proof (induction rule: mgr_reachable.induct)
  case (load y ics irs reg)
  then show ?case by (rule load_mgr_ok)
next
  case (step m x m')
  then show ?case using mgr_step_ok by (metis option.inject)
qed

text \<open>Boolean and integer settings survive the file.\<close>

lemma int_string_no_bool: "int_string n \<noteq> ''true''" "int_string n \<noteq> ''false''"
proof -
  have "(of_char c :: nat) \<le> 57" if "c \<in> set (int_string n)" for c
    using that dec_string_digits by (auto simp: int_string_def split: if_splits)
  then show "int_string n \<noteq> ''true''" "int_string n \<noteq> ''false''" by force+
qed

lemma readScalar_writeScalar:
  assumes "asInt tx (int_string n) = Some n"
  shows "readScalar tx (writeScalar tx (VInt n)) = VInt n" "readScalar tx (writeScalar tx (VBool b)) = VBool b"
  using assms int_string_no_bool by (simp_all add: readScalar_def Let_def)

section \<open>Properties\<close>


definition example_text :: text_ops where
  "example_text = \<lparr> asInt = (\<lambda>s. None), asDouble = (\<lambda>s. None), otherText = (\<lambda>n. ''''), trimmed = (\<lambda>s. s), toLower = map toLower_char,
     isLetterOrNumber = (\<lambda>c. c \<in> set ''abcdefghijklmnopqrstuvwxyz0123456789'') \<rparr>"

definition empty_yaml :: grid_yaml where
  "empty_yaml = \<lparr> yDashboards = [], yActive = ''home'', yCols = 0, yRows = 0 \<rparr>"

definition fresh_install :: dash_mgr where
  "fresh_install = loadFromConfig example_ops example_text 6 4 (mgr_new None empty_yaml)"

lemma fresh_install_reachable: "mgr_reachable example_ops example_text fresh_install"
  unfolding fresh_install_def
  by (rule mgr_reachable.load)
    (simp add: load_ok_def dashList_def dashboards_def empty_yaml_def loadable_def layout_ok_def fresh_ids_def dims_ok_def)

definition two_dashboards :: dash_mgr where
  "two_dashboards = the (mgr_step example_ops example_text (AddDashboard ''Home'') fresh_install)"

lemma two_dashboards_reachable: "mgr_reachable example_ops example_text two_dashboards"
proof (rule mgr_reachable.step [OF fresh_install_reachable])
  show "mgr_admissible fresh_install (AddDashboard ''Home'')" by simp
  then show "mgr_step example_ops example_text (AddDashboard ''Home'') fresh_install = Some two_dashboards"
    using mgr_step_ok [OF mgr_reachable_ok [OF fresh_install_reachable]] unfolding two_dashboards_def
    by (metis option.sel)
qed


lemma saveAll_stores:
  assumes "\<not> loading m" "active m < length (entries m)"
  shows "disk (saveAll tx m) = conf (saveAll tx m)" "yDashboards (conf (saveAll tx m)) = map (dash_node_of tx \<circ> snapshot) (entries m)"
    "yActive (conf (saveAll tx m)) = entryId (entries m ! active m)"
    "yCols (conf (saveAll tx m)) = savedCols (model (entries m ! active m))"
    "yRows (conf (saveAll tx m)) = savedRows (model (entries m ! active m))" "\<not> persistTimer (saveAll tx m)"
  using assms by (simp_all add: saveAll_def save_def activeModel_def activeDashboardId_def Let_def
      setDashboards_def setActiveDashboardId_def setGridSavedDims_def)

text \<open>
  C35: a user edit that changes the layout makes every dashboard adopt what it shows as its
  baseline, and leaves a file with all these baselines and the one pair of grid dimensions they
  all refer to; no save is left pending.
\<close>

theorem edit_commits_one_coordinate_system:
  assumes "mgr_reachable ops tx m" "is_edit x" "admissible (model (entries m ! active m)) x"
    and "emits ops x (model (entries m ! active m))" "m' = edit ops tx x m"
  shows "(\<forall>e\<in>set (entries m'). base (model e) = live (model e) \<and> basePageCount (model e) = pageCount (model e)
        \<and> savedCols (model e) = cols (model e) \<and> savedRows (model e) = rows (model e)
        \<and> cols (model e) = yCols (disk m') \<and> rows (model e) = yRows (disk m'))
    \<and> yDashboards (disk m') = map (dash_node_of tx \<circ> snapshot) (entries m') \<and> disk m' = conf m' \<and> \<not> persistTimer m'"
proof -
  have ok: "mgr_ok m" using mgr_reachable_ok [OF assms(1)] .
  then obtain d s where ps: "peers d s m" "active m < length (entries m)" by (rule mgr_okD)
  let ?m = "updateModel (active m) (grid_step ops x) m"
  have al: "aligned d ?m" using edit_aligned [OF ok assms(2,3) ps(1)] .
  have load: "\<not> loading m" using ok by (simp add: mgr_ok_def)
  define m1 where "m1 = mapModels adoptLiveAsBaseline ?m"
  have m': "m' = saveAll tx m1"
    using assms(4,5) ps(2) load by (simp add: edit_def activeModel_def commit_aligned [OF al] m1_def)
  have m1: "\<not> loading m1" "active m1 < length (entries m1)" using load ps(2) by (simp_all add: m1_def)
  note st = saveAll_stores [OF m1]
  have dims: "\<forall>e\<in>set (entries m1). (cols (model e), rows (model e)) = d \<and> (savedCols (model e), savedRows (model e)) = d"
    using peers_adopt [OF al] by (simp add: peers_def peer_def m1_def)
  then have "(yCols (disk m'), yRows (disk m')) = d" using st m1(2) by (simp add: m')
  moreover have "\<forall>e\<in>set (entries m1). base (model e) = live (model e) \<and> basePageCount (model e) = pageCount (model e)"
    by (auto simp: m1_def mapModels_def)
  ultimately show ?thesis using dims st by (auto simp: m')
qed

theorem edit_commits_one_coordinate_system_witness:
  "(let m' = edit example_ops example_text (Place ''clock'' 0 0 2 2) two_dashboards in
    length (entries m') = 2 \<and> disk m' = conf m' \<and> yDashboards (disk m') = map (dash_node_of example_text \<circ> snapshot) (entries m'))"
proof -
  have "length (live (model (entries two_dashboards ! active two_dashboards))) < 101" by code_simp
  then have "admissible (model (entries two_dashboards ! active two_dashboards)) (Place ''clock'' 0 0 2 2)"
    by (simp only: admissible.simps)
  moreover have "emits example_ops (Place ''clock'' 0 0 2 2) (model (entries two_dashboards ! active two_dashboards))"
    by code_simp
  moreover have "length (entries (edit example_ops example_text (Place ''clock'' 0 0 2 2) two_dashboards)) = 2" by code_simp
  ultimately show ?thesis
    using edit_commits_one_coordinate_system [OF two_dashboards_reachable _ _ _ refl, of "Place ''clock'' 0 0 2 2"]
    unfolding Let_def is_edit.simps by blast
qed

text \<open>
  A widget that a smaller grid hides stays in the layout an edit commits, but the file does not
  say that it was hidden.
\<close>

definition wide_registry :: registry where
  "wide_registry = [''wide'' \<mapsto> \<lparr> defaultConfig = [], configSchema = [], minCols = 3, minRows = 1, maxCols = 6,
     maxRows = 4, singleton = False \<rparr>]"

definition wide_yaml :: grid_yaml where
  "wide_yaml = \<lparr> yDashboards = [\<lparr> nId = ''home'', nName = ''Home'', nNextInstanceId = 1, nPageCount = 1,
       nPlacements = placementsToNode example_text [new_placement ''wide-0'' ''wide'' 1 0 3 1 0] \<rparr>],
     yActive = ''home'', yCols = 4, yRows = 4 \<rparr>"

definition shrunk :: dash_mgr where
  "shrunk = edit example_ops example_text (Place ''clock'' 1 0 1 1)
     (mgr_setGridDimensions 2 2
       (loadFromConfig example_ops example_text 4 4 (mgr_new (Some wide_registry) wide_yaml)))"

definition restarted :: dash_mgr where
  "restarted = loadFromConfig example_ops example_text 2 2 (mgr_new (Some wide_registry) (disk shrunk))"

text \<open>
  A saved layout can overlap itself after a restart.  A widget too wide for the shrunken grid
  is hidden, another is placed where it was, and the edit is saved; on the next start, at the
  same grid dimensions, the hidden widget is back, overlaps the new one and extends beyond the
  grid.
\<close>

lemma hidden_widget_returns_overlapping:
  "map visible (live (model (entries shrunk ! 0))) = [False, True]
   \<and> map visible (live (model (entries restarted ! 0))) = [True, True]
   \<and> cols (model (entries restarted ! 0)) = cols (model (entries shrunk ! 0))
   \<and> (case live (model (entries restarted ! 0)) of p # q # _ \<Rightarrow>
        page p = page q \<and> (1, 0) \<in> cells p \<and> (1, 0) \<in> cells q \<and> \<not> inside 2 2 p)"
  by code_simp

end
