(* ===== verification/Data_Registry.thy ===== *)
theory Data_Registry
  imports Prelude Complex_Main "HOL-Library.AList" "HOL-Library.Char_ord" "HOL-Library.List_Lexorder"
begin

text \<open>
  The registry of external data providers (\<open>src/src/core/services/DataRegistry.cpp\<close> and
  \<open>.hpp\<close>): sessions register one provider each, declare typed channels and publish samples; the
  registry keeps one sample per channel and announces every change of its catalog under a new
  revision number.

  A hash of the code is an association list with distinct keys, read by \<open>map_of\<close>; where the code
  sorts its keys the model does.  The clock is a parameter of \<open>publish\<close>.  Signals are the second
  result of the operations, in the order of emission.
\<close>

section \<open>Types\<close>

datatype value_type = TUnspecified | TDouble | TSignedInteger | TUnsignedInteger | TBoolean | TString | TEnum
datatype quality = QUnknown | QGood | QDegraded | QStale | QInvalid | QUnavailable
datatype unavailable_reason = RNone | ProviderAbsent | ChannelAbsent | ProviderDisconnected | ChannelRemoved
datatype scalar = SDouble rat | SSigned int | SUnsigned nat | SBoolean bool | SString string | SEnum int

type_synonym owner_token = nat

record provider_definition =
  pd_namespace :: string
  pd_displayName :: string
  pd_description :: "string option"
  pd_version :: "string option"

record channel_definition =
  cd_channelName :: string
  cd_displayName :: string
  cd_valueType :: value_type
  cd_unit :: "string option"
  cd_description :: "string option"
  cd_nominalIntervalMs :: "u32 option"
  cd_staleAfterMs :: "u32 option"
  cd_suggestedMinimum :: "rat option"
  cd_suggestedMaximum :: "rat option"
  cd_enumOptions :: "(int \<times> string) list"

record sample =
  sm_channelName :: string
  sm_value :: "scalar option"
  sm_observedAt :: "int option"
  sm_quality :: quality

record channel_state =
  ch_definition :: channel_definition
  ch_latest :: "sample option"

record provider_state =
  pv_owner :: owner_token
  pv_definition :: provider_definition
  pv_channels :: "(string \<times> channel_state) list"

record data_registry =
  dr_providers :: "(string \<times> provider_state) list"
  dr_owners :: "(owner_token \<times> string) list"
  dr_revision :: u64

datatype data_signal =
    CatalogChanged u64
  | AvailabilityChanged string string bool unavailable_reason u64
  | ValuesAccepted string "sample list"

record decl_result =
  de_channelName :: string
  de_accepted :: bool
  de_reason :: string

record publish_result =
  pr_accepted :: "sample list"
  pr_diagnostics :: "(string \<times> string) list"

definition registry_new :: data_registry where
  "registry_new = \<lparr> dr_providers = [], dr_owners = [], dr_revision = 0 \<rparr>"

section \<open>Checks\<close>

definition id_first :: "char \<Rightarrow> bool" where
  "id_first c \<longleftrightarrow> CHR ''a'' \<le> c \<and> c \<le> CHR ''z'' \<or> CHR ''0'' \<le> c \<and> c \<le> CHR ''9''"

definition id_char :: "char \<Rightarrow> bool" where
  "id_char c \<longleftrightarrow> id_first c \<or> c = CHR ''.'' \<or> c = CHR ''_'' \<or> c = CHR ''-''"

fun id_body :: "string \<Rightarrow> bool" where
  "id_body [] = False"
| "id_body (c # cs) \<longleftrightarrow> id_first c \<and> length cs \<le> 127 \<and> list_all id_char cs"

text \<open>
  The dollar sign that ends the pattern matches at the end of the text and also before a line
  feed that ends it.
\<close>

definition validIdentifier :: "string \<Rightarrow> bool" where
  "validIdentifier s \<longleftrightarrow> id_body s \<or> s \<noteq> [] \<and> last s = CHR 0x0A \<and> id_body (butlast s)"

fun scalarMatches :: "value_type \<Rightarrow> scalar \<Rightarrow> bool" where
  "scalarMatches TDouble (SDouble _) = True"
| "scalarMatches TSignedInteger (SSigned _) = True"
| "scalarMatches TUnsignedInteger (SUnsigned _) = True"
| "scalarMatches TBoolean (SBoolean _) = True"
| "scalarMatches TString (SString _) = True"
| "scalarMatches TEnum (SEnum _) = True"
| "scalarMatches _ _ = False"

definition usable :: "quality \<Rightarrow> bool" where
  "usable q \<longleftrightarrow> q = QUnknown \<or> q = QGood \<or> q = QDegraded"

section \<open>Operations\<close>

definition providerForOwner :: "data_registry \<Rightarrow> owner_token \<Rightarrow> (string \<times> provider_state) option" where
  "providerForOwner r tok = (case map_of (dr_owners r) tok of
     None \<Rightarrow> None
   | Some ns \<Rightarrow> map_option (Pair ns) (map_of (dr_providers r) ns))"

definition set_provider :: "string \<Rightarrow> provider_state \<Rightarrow> data_registry \<Rightarrow> data_registry" where
  "set_provider ns p r = r \<lparr> dr_providers := AList.update ns p (dr_providers r) \<rparr>"

definition bump :: "data_registry \<Rightarrow> data_registry" where
  "bump r = r \<lparr> dr_revision := dr_revision r + 1 \<rparr>"

definition registerProvider ::
  "owner_token \<Rightarrow> provider_definition \<Rightarrow> data_registry \<Rightarrow> data_registry \<times> data_signal list \<times> string option" where
  "registerProvider tok d r =
     (if \<not> validIdentifier (pd_namespace d) then (r, [], Some ''invalid provider namespace'')
      else if map_of (dr_owners r) tok \<noteq> None \<and> map_of (dr_owners r) tok \<noteq> Some (pd_namespace d)
      then (r, [], Some ''session already owns a provider namespace'')
      else case map_of (dr_providers r) (pd_namespace d) of
        Some p \<Rightarrow>
          if pv_owner p \<noteq> tok then (r, [], Some ''provider namespace already active'')
          else if pv_definition p \<noteq> d
          then let r' = bump (set_provider (pd_namespace d) (p \<lparr> pv_definition := d \<rparr>) r)
               in (r', [CatalogChanged (dr_revision r')], None)
          else (r, [], None)
      | None \<Rightarrow>
          let p = \<lparr> pv_owner = tok, pv_definition = d, pv_channels = [] \<rparr>;
              r' = bump (set_provider (pd_namespace d) p r
                     \<lparr> dr_owners := AList.update tok (pd_namespace d) (dr_owners r) \<rparr>)
          in (r', [CatalogChanged (dr_revision r')], None))"

text \<open>One declaration of a batch: the channels, the result, and the name when a definition changed.\<close>

definition declare_one ::
  "channel_definition \<Rightarrow> (string \<times> channel_state) list \<Rightarrow>
     (string \<times> channel_state) list \<times> decl_result \<times> string option" where
  "declare_one d chs =
     (let res = \<lparr> de_channelName = cd_channelName d, de_accepted = False, de_reason = '''' \<rparr> in
      if \<not> validIdentifier (cd_channelName d) then (chs, res \<lparr> de_reason := ''invalid channel name'' \<rparr>, None)
      else if cd_valueType d = TUnspecified then (chs, res \<lparr> de_reason := ''invalid value type'' \<rparr>, None)
      else case map_of chs (cd_channelName d) of
        Some c \<Rightarrow>
          if cd_valueType (ch_definition c) \<noteq> cd_valueType d
          then (chs, res \<lparr> de_reason := ''active channel type cannot change'' \<rparr>, None)
          else if ch_definition c = d then (chs, res \<lparr> de_accepted := True \<rparr>, None)
          else (AList.update (cd_channelName d) (c \<lparr> ch_definition := d \<rparr>) chs,
                res \<lparr> de_accepted := True \<rparr>, Some (cd_channelName d))
      | None \<Rightarrow> (AList.update (cd_channelName d) \<lparr> ch_definition = d, ch_latest = None \<rparr> chs,
                 res \<lparr> de_accepted := True \<rparr>, Some (cd_channelName d)))"

fun declare_all ::
  "channel_definition list \<Rightarrow> (string \<times> channel_state) list \<Rightarrow>
     (string \<times> channel_state) list \<times> decl_result list \<times> string list" where
  "declare_all [] chs = (chs, [], [])"
| "declare_all (d # ds) chs =
     (case declare_one d chs of (chs', res, changed) \<Rightarrow>
      case declare_all ds chs' of (chs'', ress, changes) \<Rightarrow>
        (chs'', res # ress, (case changed of None \<Rightarrow> changes | Some c \<Rightarrow> c # changes)))"

text \<open>The changed names in the order of their first change.\<close>

fun first_occurrences :: "string list \<Rightarrow> string list" where
  "first_occurrences [] = []"
| "first_occurrences (x # xs) = x # filter (\<lambda>y. y \<noteq> x) (first_occurrences xs)"

definition declareChannels ::
  "owner_token \<Rightarrow> channel_definition list \<Rightarrow> data_registry \<Rightarrow>
     data_registry \<times> data_signal list \<times> decl_result list" where
  "declareChannels tok ds r = (case providerForOwner r tok of
     None \<Rightarrow> (r, [], map (\<lambda>d. \<lparr> de_channelName = cd_channelName d, de_accepted = False,
                 de_reason = ''provider not registered'' \<rparr>) ds)
   | Some (ns, p) \<Rightarrow>
       (case declare_all ds (pv_channels p) of (chs, results, changes) \<Rightarrow>
          let changedOrder = first_occurrences changes;
              r1 = set_provider ns (p \<lparr> pv_channels := chs \<rparr>) r
          in if changedOrder = [] then (r1, [], results)
             else let r' = bump r1; pn = pd_namespace (pv_definition p) in
               (r', map (\<lambda>c. AvailabilityChanged pn c True RNone (dr_revision r')) changedOrder
                    @ [CatalogChanged (dr_revision r')], results)))"

definition removeChannels :: "owner_token \<Rightarrow> string list \<Rightarrow> data_registry \<Rightarrow> data_registry \<times> data_signal list" where
  "removeChannels tok names r = (case providerForOwner r tok of
     None \<Rightarrow> (r, [])
   | Some (ns, p) \<Rightarrow>
       let removed = filter (\<lambda>c. map_of (pv_channels p) c \<noteq> None) (first_occurrences names) in
       if removed = [] then (r, [])
       else let r' = bump (set_provider ns (p \<lparr> pv_channels := filter (\<lambda>(c, _). c \<notin> set removed) (pv_channels p) \<rparr>) r);
                pn = pd_namespace (pv_definition p) in
         (r', map (\<lambda>c. AvailabilityChanged pn c False ChannelRemoved (dr_revision r')) removed
              @ [CatalogChanged (dr_revision r')]))"

text \<open>Of the samples for one channel only the last of the batch counts.\<close>

definition winnerIndices :: "sample list \<Rightarrow> nat list" where
  "winnerIndices ss = filter (\<lambda>i. sm_channelName (ss ! i) \<notin> sm_channelName ` set (drop (Suc i) ss)) [0..<length ss]"

definition publish_one ::
  "int \<Rightarrow> sample \<Rightarrow> (string \<times> channel_state) list \<times> publish_result \<Rightarrow>
     (string \<times> channel_state) list \<times> publish_result" where
  "publish_one now s = (\<lambda>(chs, res).
     let refuse = (\<lambda>why. (chs, res \<lparr> pr_diagnostics := pr_diagnostics res @ [(sm_channelName s, why)] \<rparr>)) in
     case map_of chs (sm_channelName s) of
       None \<Rightarrow> refuse ''channel not declared''
     | Some c \<Rightarrow>
         if usable (sm_quality s) \<and> sm_value s = None then refuse ''usable quality requires value''
         else if (case sm_value s of None \<Rightarrow> False
                  | Some v \<Rightarrow> \<not> scalarMatches (cd_valueType (ch_definition c)) v)
         then refuse ''scalar type mismatch''
         else let s' = (if sm_observedAt s = None then s \<lparr> sm_observedAt := Some now \<rparr> else s) in
           (AList.update (sm_channelName s) (c \<lparr> ch_latest := Some s' \<rparr>) chs,
            res \<lparr> pr_accepted := pr_accepted res @ [s'] \<rparr>))"

definition publish ::
  "int \<Rightarrow> owner_token \<Rightarrow> sample list \<Rightarrow> data_registry \<Rightarrow> data_registry \<times> data_signal list \<times> publish_result" where
  "publish now tok ss r = (case providerForOwner r tok of
     None \<Rightarrow> (r, [], \<lparr> pr_accepted = [],
                 pr_diagnostics = map (\<lambda>s. (sm_channelName s, ''provider not registered'')) ss \<rparr>)
   | Some (ns, p) \<Rightarrow>
       (case fold (\<lambda>i. publish_one now (ss ! i)) (winnerIndices ss)
           (pv_channels p, \<lparr> pr_accepted = [], pr_diagnostics = [] \<rparr>) of (chs, res) \<Rightarrow>
          (set_provider ns (p \<lparr> pv_channels := chs \<rparr>) r,
           if pr_accepted res = [] then []
           else [ValuesAccepted (pd_namespace (pv_definition p)) (pr_accepted res)], res)))"

definition removeOwner :: "owner_token \<Rightarrow> data_registry \<Rightarrow> data_registry \<times> data_signal list" where
  "removeOwner tok r = (case map_of (dr_owners r) tok of
     None \<Rightarrow> (r, [])
   | Some ns \<Rightarrow>
       let r1 = r \<lparr> dr_owners := AList.delete tok (dr_owners r) \<rparr> in
       (case map_of (dr_providers r) ns of
          None \<Rightarrow> (r1, [])
        | Some p \<Rightarrow>
            let channelNames = sort (map fst (pv_channels p));
                r' = bump (r1 \<lparr> dr_providers := AList.delete ns (dr_providers r) \<rparr>) in
            (r', map (\<lambda>c. AvailabilityChanged ns c False ProviderDisconnected (dr_revision r')) channelNames
                 @ [CatalogChanged (dr_revision r')])))"

section \<open>Queries\<close>

definition catalog :: "data_registry \<Rightarrow> u64 \<times> (provider_definition \<times> channel_definition list) list" where
  "catalog r = (dr_revision r, map (\<lambda>ns. let p = the (map_of (dr_providers r) ns) in
     (pv_definition p, map (\<lambda>c. ch_definition (the (map_of (pv_channels p) c))) (sort (map fst (pv_channels p)))))
     (sort (map fst (dr_providers r))))"

definition channel_of :: "data_registry \<Rightarrow> string \<Rightarrow> string \<Rightarrow> channel_state option" where
  "channel_of r ns c = (case map_of (dr_providers r) ns of None \<Rightarrow> None | Some p \<Rightarrow> map_of (pv_channels p) c)"

definition channelDefinition :: "data_registry \<Rightarrow> string \<Rightarrow> string \<Rightarrow> channel_definition option" where
  "channelDefinition r ns c = map_option ch_definition (channel_of r ns c)"

definition latestSample :: "data_registry \<Rightarrow> string \<Rightarrow> string \<Rightarrow> sample option" where
  "latestSample r ns c = (case channel_of r ns c of None \<Rightarrow> None | Some ch \<Rightarrow> ch_latest ch)"

definition providerExists :: "data_registry \<Rightarrow> string \<Rightarrow> bool" where
  "providerExists r ns \<longleftrightarrow> map_of (dr_providers r) ns \<noteq> None"

end
