(* ===== verification/Data_Invariant.thy ===== *)
theory Data_Invariant
  imports Data_Registry
begin

text \<open>
  The data registry keeps its two indices consistent and its samples well typed, announces every
  change of the catalog, and keeps the last acceptable sample of each channel.
\<close>

section \<open>Association lists\<close>

declare map_of_eq_Some_iff [simp del] map_of_eq_None_iff [simp del]

lemma update_same: "map_of al k = Some v \<Longrightarrow> AList.update k v al = al"
  by (induction al) (auto split: if_splits)

lemma keys_update_present: "map_of al k \<noteq> None \<Longrightarrow> map fst (AList.update k v al) = map fst al"
  by (auto simp: update_keys dom_map_of_conv_image_fst [symmetric] domIff)

lemma distinct_keys_filter: "distinct (map fst al) \<Longrightarrow> distinct (map fst (filter P al))"
  by (rule distinct_map_filter)

definition keys :: "('k \<times> 'v) list \<Rightarrow> 'k set" where
  "keys al = set (map fst al)"

lemma keys_iff: "k \<in> keys al \<longleftrightarrow> map_of al k \<noteq> None"
  by (simp add: keys_def map_of_eq_None_iff)

lemma keys_alist [simp]:
  "keys [] = {}" "keys (AList.update k v al) = insert k (keys al)"
  "keys (filter (\<lambda>(k, _). P k) al) = {k \<in> keys al. P k}"
  by (auto simp: keys_iff update_conv' map_of_filter_key split: if_splits)

section \<open>The invariant\<close>

definition sample_ok :: "value_type \<Rightarrow> string \<Rightarrow> sample \<Rightarrow> bool" where
  "sample_ok t c s \<longleftrightarrow> sm_channelName s = c \<and> sm_observedAt s \<noteq> None
     \<and> (usable (sm_quality s) \<longrightarrow> sm_value s \<noteq> None) \<and> (\<forall>v. sm_value s = Some v \<longrightarrow> scalarMatches t v)"

definition channel_ok :: "string \<Rightarrow> channel_state \<Rightarrow> bool" where
  "channel_ok c ch \<longleftrightarrow> cd_channelName (ch_definition ch) = c \<and> validIdentifier c
     \<and> cd_valueType (ch_definition ch) \<noteq> TUnspecified
     \<and> (\<forall>s. ch_latest ch = Some s \<longrightarrow> sample_ok (cd_valueType (ch_definition ch)) c s)"

definition channels_ok :: "(string \<times> channel_state) list \<Rightarrow> bool" where
  "channels_ok chs \<longleftrightarrow> distinct (map fst chs) \<and> (\<forall>c ch. map_of chs c = Some ch \<longrightarrow> channel_ok c ch)"

definition provider_ok :: "string \<Rightarrow> provider_state \<Rightarrow> bool" where
  "provider_ok ns p \<longleftrightarrow> pd_namespace (pv_definition p) = ns \<and> validIdentifier ns \<and> channels_ok (pv_channels p)"

definition registry_ok :: "data_registry \<Rightarrow> bool" where
  "registry_ok r \<longleftrightarrow> distinct (map fst (dr_providers r)) \<and> distinct (map fst (dr_owners r))
     \<and> (\<forall>t ns. map_of (dr_owners r) t = Some ns \<longleftrightarrow> (\<exists>p. map_of (dr_providers r) ns = Some p \<and> pv_owner p = t))
     \<and> (\<forall>ns p. map_of (dr_providers r) ns = Some p \<longrightarrow> provider_ok ns p)"

lemma channels_ok_update:
  "channels_ok chs \<Longrightarrow> channel_ok c ch \<Longrightarrow> channels_ok (AList.update c ch chs)"
  by (auto simp: channels_ok_def update_conv' distinct_update split: if_splits)

lemma channels_ok_filter: "channels_ok chs \<Longrightarrow> channels_ok (filter (\<lambda>(c, _). P c) chs)"
  by (auto simp: channels_ok_def map_of_filter_key distinct_keys_filter split: if_splits)

lemma providerForOwner_Some:
  assumes "registry_ok r" "providerForOwner r t = Some (ns, p)"
  shows "map_of (dr_owners r) t = Some ns" "map_of (dr_providers r) ns = Some p" "pv_owner p = t" "provider_ok ns p"
  using assms by (auto simp: providerForOwner_def registry_ok_def split: option.splits)

lemma set_provider_ok:
  assumes "registry_ok r" "map_of (dr_providers r) ns = Some p" "pv_owner p' = pv_owner p" "provider_ok ns p'"
  shows "registry_ok (set_provider ns p' r)"
  using assms by (auto simp: registry_ok_def set_provider_def update_conv' distinct_update)

lemma bump_ok [simp]: "registry_ok (bump r) = registry_ok r"
  by (simp add: registry_ok_def bump_def)

lemma registerProvider_ok:
  assumes r: "registry_ok r"
  shows "registry_ok (fst (registerProvider t d r))"
proof (cases "\<not> validIdentifier (pd_namespace d)
    \<or> map_of (dr_owners r) t \<noteq> None \<and> map_of (dr_owners r) t \<noteq> Some (pd_namespace d)")
  case True
  then show ?thesis using r by (auto simp: registerProvider_def)
next
  case False
  show ?thesis
  proof (cases "map_of (dr_providers r) (pd_namespace d)")
    case None
    have no: "map_of (dr_owners r) t = None" using False r None by (auto simp: registry_ok_def)
    then have other: "\<forall>ns p. map_of (dr_providers r) ns = Some p \<longrightarrow> pv_owner p \<noteq> t"
      using r unfolding registry_ok_def by (metis option.distinct(1))
    let ?p = "\<lparr> pv_owner = t, pv_definition = d, pv_channels = [] \<rparr>"
    have "registry_ok (set_provider (pd_namespace d) ?p r
        \<lparr> dr_owners := AList.update t (pd_namespace d) (dr_owners r) \<rparr>)"
      using r no None False other
      by (auto simp: registry_ok_def set_provider_def update_conv' distinct_update provider_ok_def channels_ok_def)
    then show ?thesis using False None by (auto simp: registerProvider_def Let_def)
  next
    case (Some p)
    then have "registry_ok (set_provider (pd_namespace d) (p \<lparr> pv_definition := d \<rparr>) r)"
      using r by (intro set_provider_ok [OF r Some]) (auto simp: registry_ok_def provider_ok_def)
    then show ?thesis using False Some r by (auto simp: registerProvider_def Let_def)
  qed
qed

lemma declare_one_ok: "channels_ok chs \<Longrightarrow> channels_ok (fst (declare_one d chs))"
  by (fastforce simp: declare_one_def Let_def channel_ok_def channels_ok_def [of chs] split: option.splits
      intro!: channels_ok_update)

lemma declare_all_ok: "channels_ok chs \<Longrightarrow> channels_ok (fst (declare_all ds chs))"
proof (induction ds arbitrary: chs)
  case (Cons d ds)
  then show ?case using declare_one_ok [of chs d] by (auto split: prod.splits) (metis fst_conv)
qed simp

lemma publish_one_ok: "channels_ok chs \<Longrightarrow> channels_ok (fst (publish_one now s (chs, res)))"
  by (auto simp: publish_one_def Let_def channel_ok_def sample_ok_def channels_ok_def [of chs] split: option.splits
      intro!: channels_ok_update)

lemma publish_fold_ok:
  "channels_ok (fst acc) \<Longrightarrow> channels_ok (fst (fold (publish_one now) ss acc))"
proof (induction ss arbitrary: acc)
  case (Cons s ss)
  have "channels_ok (fst (publish_one now s acc))" using publish_one_ok Cons.prems by (metis prod.collapse)
  then show ?case using Cons.IH by simp
qed simp

lemma declareChannels_ok:
  assumes "registry_ok r"
  shows "registry_ok (fst (declareChannels t ds r))"
proof (cases "providerForOwner r t")
  case None
  then show ?thesis using assms by (simp add: declareChannels_def)
next
  case (Some np)
  obtain ns p where np: "np = (ns, p)" by (cases np)
  note p = providerForOwner_Some [OF assms Some [unfolded np]]
  have "registry_ok (set_provider ns (p \<lparr> pv_channels := fst (declare_all ds (pv_channels p)) \<rparr>) r)"
    using p declare_all_ok by (intro set_provider_ok [OF assms p(2)]) (auto simp: provider_ok_def)
  then show ?thesis
    by (cases "declare_all ds (pv_channels p)") (simp add: declareChannels_def Some np Let_def)
qed

lemma removeChannels_ok:
  assumes "registry_ok r"
  shows "registry_ok (fst (removeChannels t names r))"
proof (cases "providerForOwner r t")
  case None
  then show ?thesis using assms by (simp add: removeChannels_def)
next
  case (Some np)
  obtain ns p where np: "np = (ns, p)" by (cases np)
  note p = providerForOwner_Some [OF assms Some [unfolded np]]
  have "registry_ok (set_provider ns (p \<lparr> pv_channels := filter (\<lambda>(c, _). P c) (pv_channels p) \<rparr>) r)" for P
    using p channels_ok_filter by (intro set_provider_ok [OF assms p(2)]) (auto simp: provider_ok_def)
  then show ?thesis using assms by (simp add: removeChannels_def Some np Let_def)
qed

lemma publish_ok:
  assumes "registry_ok r"
  shows "registry_ok (fst (publish now t ss r))"
proof (cases "providerForOwner r t")
  case None
  then show ?thesis using assms by (simp add: publish_def)
next
  case (Some np)
  obtain ns p where np: "np = (ns, p)" by (cases np)
  note p = providerForOwner_Some [OF assms Some [unfolded np]]
  have "registry_ok (set_provider ns (p \<lparr> pv_channels := fst (fold (publish_one now) ws (pv_channels p, res)) \<rparr>) r)" for ws res
    using p publish_fold_ok [of "(pv_channels p, res)" now ws]
    by (intro set_provider_ok [OF assms p(2)]) (auto simp: provider_ok_def)
  moreover have "fold (\<lambda>i. publish_one now (ss ! i)) (winnerIndices ss) acc
      = fold (publish_one now) (map ((!) ss) (winnerIndices ss)) acc" for acc
    by (simp add: fold_map comp_def)
  ultimately show ?thesis by (simp add: publish_def Some np split: prod.splits) (metis fst_conv)
qed

lemma removeOwner_ok:
  assumes r: "registry_ok r"
  shows "registry_ok (fst (removeOwner t r))"
proof (cases "map_of (dr_owners r) t")
  case None
  then show ?thesis using r by (simp add: removeOwner_def)
next
  case (Some ns)
  then obtain p where p: "map_of (dr_providers r) ns = Some p" "pv_owner p = t"
    using r by (auto simp: registry_ok_def)
  have only: "ns' = ns" if "map_of (dr_providers r) ns' = Some p'" "pv_owner p' = t" for ns' p'
    using r Some that unfolding registry_ok_def by (metis option.inject)
  have iff: "map_of (dr_owners r) t' = Some ns' \<longleftrightarrow> (\<exists>p. map_of (dr_providers r) ns' = Some p \<and> pv_owner p = t')" for t' ns'
    using r by (simp add: registry_ok_def)
  have "map_of (AList.delete t (dr_owners r)) t' = Some ns' \<longleftrightarrow>
      (\<exists>p. map_of (AList.delete ns (dr_providers r)) ns' = Some p \<and> pv_owner p = t')" for t' ns'
  proof (cases "t' = t \<or> ns' = ns")
    case True
    have "map_of (AList.delete t (dr_owners r)) t' \<noteq> Some ns'"
      using True iff [of t' ns'] p by (cases "t' = t") (auto simp: delete_conv')
    moreover have "pv_owner p' \<noteq> t'" if "map_of (AList.delete ns (dr_providers r)) ns' = Some p'" for p'
      using True that only [of ns' p'] by (cases "ns' = ns") (simp add: delete_conv', force simp: delete_conv')
    ultimately show ?thesis by blast
  next
    case False
    then show ?thesis using iff [of t' ns'] by (simp add: delete_conv')
  qed
  then have "registry_ok (r \<lparr> dr_owners := AList.delete t (dr_owners r), dr_providers := AList.delete ns (dr_providers r) \<rparr>)"
    using r by (simp add: registry_ok_def distinct_delete) (simp add: delete_conv')
  then show ?thesis using Some p by (simp add: removeOwner_def Let_def)
qed

section \<open>Sequences of operations\<close>

datatype data_op =
    Register owner_token provider_definition
  | Declare owner_token "channel_definition list"
  | RemoveChannels owner_token "string list"
  | Publish int owner_token "sample list"
  | RemoveOwner owner_token

primrec data_step :: "data_op \<Rightarrow> data_registry \<Rightarrow> data_registry \<times> data_signal list" where
  "data_step (Register t d) r = (case registerProvider t d r of (r', sigs, _) \<Rightarrow> (r', sigs))"
| "data_step (Declare t ds) r = (case declareChannels t ds r of (r', sigs, _) \<Rightarrow> (r', sigs))"
| "data_step (RemoveChannels t names) r = removeChannels t names r"
| "data_step (Publish now t ss) r = (case publish now t ss r of (r', sigs, _) \<Rightarrow> (r', sigs))"
| "data_step (RemoveOwner t) r = removeOwner t r"

lemma data_step_sel:
  "fst (data_step (Register t d) r) = fst (registerProvider t d r)"
  "snd (data_step (Register t d) r) = fst (snd (registerProvider t d r))"
  "fst (data_step (Declare t ds) r) = fst (declareChannels t ds r)"
  "snd (data_step (Declare t ds) r) = fst (snd (declareChannels t ds r))"
  "fst (data_step (Publish now t ss) r) = fst (publish now t ss r)"
  "snd (data_step (Publish now t ss) r) = fst (snd (publish now t ss r))"
  by (simp_all split: prod.split)

lemma data_step_ok: "registry_ok r \<Longrightarrow> registry_ok (fst (data_step x r))"
  by (cases x) (simp_all only: data_step_sel data_step.simps(3,5) registerProvider_ok declareChannels_ok
      removeChannels_ok publish_ok removeOwner_ok)

lemma registry_new_ok: "registry_ok registry_new"
  by (simp add: registry_ok_def registry_new_def)

lemma run_data_ok: "registry_ok (fst (run data_step xs registry_new))"
  by (rule run_invariant [of registry_ok, OF registry_new_ok data_step_ok])

section \<open>Announcements\<close>

text \<open>What a listener knows from the signals: the available channels and the revision.\<close>

fun observe :: "data_signal \<Rightarrow> (string \<times> string) set \<times> u64 \<Rightarrow> (string \<times> string) set \<times> u64" where
  "observe (CatalogChanged v) (A, _) = (A, v)"
| "observe (AvailabilityChanged ns c av _ _) (A, v) = (if av then insert (ns, c) A else A - {(ns, c)}, v)"
| "observe (ValuesAccepted _ _) (A, v) = (A, v)"

definition available :: "data_registry \<Rightarrow> (string \<times> string) set" where
  "available r = {(ns, c). channel_of r ns c \<noteq> None}"

lemma observe_available:
  "fold observe (map (\<lambda>c. AvailabilityChanged ns c True why n) cs) (A, v) = (A \<union> Pair ns ` set cs, v)"
  "fold observe (map (\<lambda>c. AvailabilityChanged ns c False why n) cs) (A, v) = (A - Pair ns ` set cs, v)"
  by (induction cs arbitrary: A) auto

lemma available_alt:
  "(ns, c) \<in> available r \<longleftrightarrow> (\<exists>p. map_of (dr_providers r) ns = Some p \<and> c \<in> keys (pv_channels p))"
  by (auto simp: available_def channel_of_def keys_iff split: option.splits)

lemma available_set_provider:
  "available (set_provider ns p r) = {(n, c) \<in> available r. n \<noteq> ns} \<union> Pair ns ` keys (pv_channels p)"
  by (auto simp: available_alt set_provider_def update_conv' split: if_splits)

lemma available_bump [simp]: "available (bump r) = available r" "dr_revision (bump r) = dr_revision r + 1"
  "dr_revision (set_provider ns p r) = dr_revision r"
  by (simp_all add: available_def channel_of_def bump_def set_provider_def)

lemma available_provider:
  "map_of (dr_providers r) ns = Some p \<Longrightarrow>
     available r = {(n, c) \<in> available r. n \<noteq> ns} \<union> Pair ns ` keys (pv_channels p)"
  by (auto simp: available_alt)

lemma set_first_occurrences [simp]: "set (first_occurrences xs) = set xs"
  by (induction xs) auto

lemma first_occurrences_Nil [simp]: "first_occurrences xs = [] \<longleftrightarrow> xs = []"
  by (cases xs) auto

lemma declare_one_keys:
  "declare_one d chs = (chs', res, ch) \<Longrightarrow>
     keys chs' = keys chs \<union> set_option ch \<and> (ch = None \<longrightarrow> chs' = chs)"
  by (auto simp: declare_one_def Let_def keys_iff split: option.splits if_splits)

lemma declare_all_keys:
  "declare_all ds chs = (chs', ress, changes) \<Longrightarrow>
     keys chs' = keys chs \<union> set changes \<and> (changes = [] \<longrightarrow> chs' = chs)"
proof (induction ds arbitrary: chs ress changes)
  case (Cons d ds)
  obtain chs1 res ch where one: "declare_one d chs = (chs1, res, ch)" by (metis prod_cases3)
  obtain ress1 ch1 where rest: "declare_all ds chs1 = (chs', ress1, ch1)"
      "changes = (case ch of None \<Rightarrow> ch1 | Some c \<Rightarrow> c # ch1)"
    using Cons.prems one by (auto split: prod.splits)
  show ?case using declare_one_keys [OF one] Cons.IH [OF rest(1)] rest(2) by (auto split: option.splits)
qed simp

definition announced :: "data_registry \<Rightarrow> data_registry \<times> data_signal list \<Rightarrow> bool" where
  "announced r out \<longleftrightarrow>
     fold observe (snd out) (available r, dr_revision r) = (available (fst out), dr_revision (fst out))"

lemma announced_quiet: "available r' = available r \<Longrightarrow> dr_revision r' = dr_revision r \<Longrightarrow> announced r (r', [])"
  by (simp add: announced_def)

lemma registerProvider_announced:
  assumes "registry_ok r"
  shows "announced r (fst (registerProvider t d r), fst (snd (registerProvider t d r)))"
proof -
  have old: "available (set_provider ns (p \<lparr> pv_definition := d \<rparr>) r) = available r"
    if "map_of (dr_providers r) ns = Some p" for ns p
    using available_provider [OF that] by (simp add: available_set_provider)
  have "available (set_provider ns (p :: provider_state) r \<lparr> dr_owners := os \<rparr>) = available (set_provider ns p r)" for ns p os
    by (simp add: available_def channel_of_def)
  moreover have "{(n, c). (n, c) \<in> available r \<and> n \<noteq> ns} = available r" if "map_of (dr_providers r) ns = None" for ns
    using that by (auto simp: available_alt)
  ultimately have new: "available (set_provider ns \<lparr> pv_owner = t, pv_definition = d, pv_channels = [] \<rparr> r
      \<lparr> dr_owners := os \<rparr>) = available r" if "map_of (dr_providers r) ns = None" for ns os
    using that by (simp add: available_set_provider)
  show ?thesis using old new
    by (auto simp: registerProvider_def announced_def Let_def split: option.split)
qed

lemma declareChannels_announced:
  assumes "registry_ok r"
  shows "announced r (fst (declareChannels t ds r), fst (snd (declareChannels t ds r)))"
proof (cases "providerForOwner r t")
  case None
  then show ?thesis by (simp add: declareChannels_def announced_def)
next
  case (Some np)
  obtain ns p where np: "np = (ns, p)" by (cases np)
  note p = providerForOwner_Some [OF assms Some [unfolded np]]
  obtain chs ress changes where d: "declare_all ds (pv_channels p) = (chs, ress, changes)" by (metis prod_cases3)
  have pn: "pd_namespace (pv_definition p) = ns" using p(4) by (simp add: provider_ok_def)
  have "available r \<union> Pair ns ` set changes = available (set_provider ns (p \<lparr> pv_channels := chs \<rparr>) r)"
    using available_provider [OF p(2)] declare_all_keys [OF d] by (auto simp: available_set_provider)
  moreover have "set_provider ns (p \<lparr> pv_channels := chs \<rparr>) r = r" if "changes = []"
    using that declare_all_keys [OF d] p(2) by (simp add: set_provider_def update_same)
  ultimately show ?thesis
    by (auto simp: declareChannels_def announced_def Some np d Let_def pn observe_available)
qed

lemma removeChannels_announced:
  assumes "registry_ok r"
  shows "announced r (removeChannels t names r)"
proof (cases "providerForOwner r t")
  case None
  then show ?thesis by (simp add: removeChannels_def announced_def)
next
  case (Some np)
  obtain ns p where np: "np = (ns, p)" by (cases np)
  note p = providerForOwner_Some [OF assms Some [unfolded np]]
  have pn: "pd_namespace (pv_definition p) = ns" using p(4) by (simp add: provider_ok_def)
  have "available r - Pair ns ` C = available (set_provider ns (p \<lparr> pv_channels :=
      filter (\<lambda>(c, _). c \<notin> C) (pv_channels p) \<rparr>) r)" for C
    by (subst available_provider [OF p(2)]) (auto simp: available_set_provider)
  then show ?thesis
    by (simp add: removeChannels_def announced_def Some np Let_def pn observe_available)
qed

lemma publish_one_keys:
  "map fst (fst (publish_one now s (chs, res))) = map fst chs"
  by (auto simp: publish_one_def Let_def keys_update_present split: option.splits)

lemma publish_fold_keys: "map fst (fst (fold (publish_one now) ss acc)) = map fst (fst acc)"
  by (induction ss arbitrary: acc) (simp_all, metis publish_one_keys prod.collapse)

lemma publish_announced:
  assumes "registry_ok r"
  shows "announced r (fst (publish now t ss r), fst (snd (publish now t ss r)))"
proof (cases "providerForOwner r t")
  case None
  then show ?thesis by (simp add: publish_def announced_def)
next
  case (Some np)
  obtain ns p where np: "np = (ns, p)" by (cases np)
  note p = providerForOwner_Some [OF assms Some [unfolded np]]
  obtain chs res where f: "fold (\<lambda>i. publish_one now (ss ! i)) (winnerIndices ss)
      (pv_channels p, \<lparr> pr_accepted = [], pr_diagnostics = [] \<rparr>) = (chs, res)" by fastforce
  have "map fst chs = map fst (pv_channels p)"
    using publish_fold_keys [of now "map ((!) ss) (winnerIndices ss)"] f by (simp add: fold_map comp_def) (metis fst_conv)
  then have "keys chs = keys (pv_channels p)" by (simp add: keys_def)
  then have "available (set_provider ns (p \<lparr> pv_channels := chs \<rparr>) r) = available r"
    using available_provider [OF p(2)] by (simp add: available_set_provider)
  then show ?thesis by (simp add: publish_def announced_def Some np f)
qed

lemma removeOwner_announced:
  assumes "registry_ok r"
  shows "announced r (removeOwner t r)"
proof (cases "map_of (dr_owners r) t")
  case None
  then show ?thesis by (simp add: removeOwner_def announced_def)
next
  case (Some ns)
  then obtain p where p: "map_of (dr_providers r) ns = Some p" using assms by (auto simp: registry_ok_def)
  have "available r - Pair ns ` keys (pv_channels p)
      = available (r \<lparr> dr_owners := AList.delete t (dr_owners r), dr_providers := AList.delete ns (dr_providers r) \<rparr>)"
    by (subst available_provider [OF p]) (auto simp: available_alt delete_conv' split: if_splits)
  then show ?thesis using Some p by (simp add: removeOwner_def announced_def Let_def observe_available keys_def)
qed

lemma data_step_announced:
  assumes "registry_ok r"
  shows "fold observe (snd (data_step x r)) (available r, dr_revision r)
    = (available (fst (data_step x r)), dr_revision (fst (data_step x r)))"
proof -
  have "announced r (data_step x r)"
    using assms registerProvider_announced declareChannels_announced removeChannels_announced
      publish_announced removeOwner_announced
    by (cases x) (simp_all split: prod.split, (metis fst_conv snd_conv)+)
  then show ?thesis by (simp add: announced_def)
qed

lemma run_announced:
  "registry_ok r \<Longrightarrow> fold observe (snd (run data_step xs r)) (available r, dr_revision r)
     = (available (fst (run data_step xs r)), dr_revision (fst (run data_step xs r)))"
  by (induction xs arbitrary: r) (simp_all add: run_Cons data_step_announced data_step_ok)

section \<open>The catalog\<close>

lemma catalog_set_provider:
  assumes "map_of (dr_providers r) ns = Some p" "pv_definition p' = pv_definition p"
    and "map fst (pv_channels p') = map fst (pv_channels p)"
    and "\<And>c. map_option ch_definition (map_of (pv_channels p') c) = map_option ch_definition (map_of (pv_channels p) c)"
  shows "catalog (set_provider ns p' r) = catalog r"
proof -
  have "ch_definition (the (map_of (pv_channels p') c)) = ch_definition (the (map_of (pv_channels p) c))"
    if "c \<in> set (map fst (pv_channels p))" for c
  proof -
    have "map_of (pv_channels p) c \<noteq> None" using that keys_iff keys_def by metis
    then obtain ch where ch: "map_of (pv_channels p) c = Some ch" by blast
    then obtain ch' where "map_of (pv_channels p') c = Some ch'" "ch_definition ch' = ch_definition ch"
      using assms(4) [of c] by auto
    then show ?thesis using ch by simp
  qed
  then have chs: "map (\<lambda>c. ch_definition (the (map_of (pv_channels p') c))) (sort (map fst (pv_channels p)))
      = map (\<lambda>c. ch_definition (the (map_of (pv_channels p) c))) (sort (map fst (pv_channels p)))"
    by (intro map_cong) simp_all
  have "map fst (AList.update ns p' (dr_providers r)) = map fst (dr_providers r)"
    using assms(1) by (simp add: keys_update_present)
  then show ?thesis using assms(1-3) chs
    by (auto simp: catalog_def set_provider_def update_conv' Let_def intro!: map_cong)
qed

lemma publish_one_definitions:
  "map_option ch_definition (map_of (fst (publish_one now s (chs, res))) c) = map_option ch_definition (map_of chs c)"
  by (auto simp: publish_one_def Let_def update_conv' split: option.splits)

lemma publish_fold_definitions:
  "map_option ch_definition (map_of (fst (fold (publish_one now) ss acc)) c)
     = map_option ch_definition (map_of (fst acc) c)"
  by (induction ss arbitrary: acc) (simp_all, metis publish_one_definitions prod.collapse)

lemma publish_catalog:
  assumes "registry_ok r"
  shows "catalog (fst (publish now t ss r)) = catalog r"
proof (cases "providerForOwner r t")
  case None
  then show ?thesis by (simp add: publish_def)
next
  case (Some np)
  obtain ns p where np: "np = (ns, p)" by (cases np)
  note p = providerForOwner_Some [OF assms Some [unfolded np]]
  let ?out = "fold (publish_one now) (map ((!) ss) (winnerIndices ss)) (pv_channels p, \<lparr> pr_accepted = [], pr_diagnostics = [] \<rparr>)"
  define chs where "chs = fst ?out"
  have k: "map fst chs = map fst (pv_channels p)" unfolding chs_def by (simp only: publish_fold_keys fst_conv)
  have d: "map_option ch_definition (map_of chs c) = map_option ch_definition (map_of (pv_channels p) c)" for c
    unfolding chs_def by (simp only: publish_fold_definitions fst_conv)
  have "catalog (set_provider ns (p \<lparr> pv_channels := chs \<rparr>) r) = catalog r"
    by (rule catalog_set_provider [OF p(2)]) (simp_all add: k d)
  moreover have "fst (publish now t ss r) = set_provider ns (p \<lparr> pv_channels := chs \<rparr>) r"
    by (simp add: chs_def publish_def Some np fold_map comp_def split: prod.splits)
  ultimately show ?thesis by simp
qed

lemma catalog_step:
  assumes "registry_ok r"
  shows "catalog (fst (data_step x r)) = catalog r \<or> CatalogChanged (dr_revision r + 1) \<in> set (snd (data_step x r))"
proof (cases x)
  case (Publish now t ss)
  then show ?thesis using publish_catalog [OF assms] by (simp add: data_step_sel del: data_step.simps)
next
  case (Declare t ds)
  show ?thesis
  proof (cases "providerForOwner r t")
    case None
    then show ?thesis by (simp add: Declare declareChannels_def)
  next
    case (Some np)
    obtain ns p where np: "np = (ns, p)" by (cases np)
    note p = providerForOwner_Some [OF assms Some [unfolded np]]
    obtain chs ress changes where d: "declare_all ds (pv_channels p) = (chs, ress, changes)" by (metis prod_cases3)
    have "set_provider ns (p \<lparr> pv_channels := chs \<rparr>) r = r" if "changes = []"
      using that declare_all_keys [OF d] p(2) by (simp add: set_provider_def update_same)
    then show ?thesis by (simp add: Declare declareChannels_def Some np d Let_def)
  qed
next
  case (RemoveOwner t)
  then show ?thesis using assms
    by (auto simp: removeOwner_def Let_def registry_ok_def split: option.split)
qed (auto simp: registerProvider_def removeChannels_def Let_def split: option.split)

section \<open>The last sample of a batch\<close>

fun keep_last :: "sample list \<Rightarrow> sample list" where
  "keep_last [] = []"
| "keep_last (s # ss) = (if sm_channelName s \<in> sm_channelName ` set ss then keep_last ss else s # keep_last ss)"

lemma winners_keep_last: "map ((!) ss) (winnerIndices ss) = keep_last ss"
proof (induction ss)
  case Nil
  then show ?case by (simp add: winnerIndices_def)
next
  case (Cons s ss)
  have "winnerIndices (s # ss) = (if sm_channelName s \<in> sm_channelName ` set ss then [] else [0]) @ map Suc (winnerIndices ss)"
    by (simp add: winnerIndices_def upt_conv_Cons map_Suc_upt [symmetric] filter_map comp_def del: upt_Suc)
  then show ?case using Cons.IH by (simp add: comp_def)
qed

definition last_sample :: "string \<Rightarrow> sample list \<Rightarrow> sample option" where
  "last_sample c ss = List.find (\<lambda>s. sm_channelName s = c) (rev ss)"

lemma last_sample_simps:
  "last_sample c [] = None"
  "last_sample c (s # ss) = (case last_sample c ss of Some s' \<Rightarrow> Some s'
     | None \<Rightarrow> if sm_channelName s = c then Some s else None)"
proof -
  have "List.find P (xs @ [x]) = (case List.find P xs of Some y \<Rightarrow> Some y | None \<Rightarrow> if P x then Some x else None)"
    for P and x :: sample and xs by (induction xs) auto
  then show "last_sample c (s # ss) = (case last_sample c ss of Some s' \<Rightarrow> Some s'
     | None \<Rightarrow> if sm_channelName s = c then Some s else None)" by (simp add: last_sample_def)
qed (simp add: last_sample_def)

lemma last_sample_None: "last_sample c ss = None \<longleftrightarrow> c \<notin> sm_channelName ` set ss"
  by (auto simp: last_sample_def find_None_iff)

text \<open>The samples a channel accepts, and how they are stored.\<close>

definition acceptable :: "channel_definition \<Rightarrow> sample \<Rightarrow> bool" where
  "acceptable d s \<longleftrightarrow> (usable (sm_quality s) \<longrightarrow> sm_value s \<noteq> None)
     \<and> (\<forall>v. sm_value s = Some v \<longrightarrow> scalarMatches (cd_valueType d) v)"

definition stamped :: "int \<Rightarrow> sample \<Rightarrow> sample" where
  "stamped now s = (if sm_observedAt s = None then s \<lparr> sm_observedAt := Some now \<rparr> else s)"

definition received :: "int \<Rightarrow> sample option \<Rightarrow> channel_state \<Rightarrow> channel_state" where
  "received now new ch = (case new of None \<Rightarrow> ch
     | Some s \<Rightarrow> if acceptable (ch_definition ch) s then ch \<lparr> ch_latest := Some (stamped now s) \<rparr> else ch)"

lemma publish_one_map_of:
  "map_of (fst (publish_one now s (chs, res))) c =
     (if c = sm_channelName s then map_option (received now (Some s)) (map_of chs c) else map_of chs c)"
  by (auto simp: publish_one_def Let_def update_conv' received_def acceptable_def stamped_def split: option.splits)

lemma publish_fold_map_of:
  "map_of (fst (fold (publish_one now) (keep_last ss) acc)) c =
     map_option (received now (last_sample c ss)) (map_of (fst acc) c)"
proof (induction ss arbitrary: acc)
  case Nil
  then show ?case by (cases "map_of (fst acc) c") (simp_all add: last_sample_simps received_def)
next
  case (Cons s ss)
  show ?case
  proof (cases "sm_channelName s \<in> sm_channelName ` set ss")
    case True
    then have "last_sample c (s # ss) = last_sample c ss"
      using last_sample_None [of c ss] by (auto simp: last_sample_simps split: option.split)
    then show ?thesis using True Cons.IH by simp
  next
    case False
    obtain chs res where acc: "acc = (chs, res)" by (cases acc)
    have "last_sample (sm_channelName s) ss = None" using False by (simp add: last_sample_None)
    then show ?thesis using False Cons.IH [of "publish_one now s acc"]
      by (cases "last_sample c ss"; cases "map_of chs c")
        (auto simp: acc publish_one_map_of last_sample_simps received_def)
  qed
qed

section \<open>Properties\<close>

text \<open>
  C37: in every state the registry can reach, a session owns a namespace exactly when the
  provider there is its own, and the sample kept for a channel is one of that channel, with a
  time stamp, with a value when its quality promises one, and with a value of the channel's
  declared type only.
\<close>

theorem registry_well_typed:
  fixes xs :: "data_op list"
  defines "r \<equiv> fst (run data_step xs registry_new)"
  shows "(\<forall>t ns. map_of (dr_owners r) t = Some ns \<longleftrightarrow> (\<exists>p. map_of (dr_providers r) ns = Some p \<and> pv_owner p = t))
    \<and> (\<forall>ns c s. latestSample r ns c = Some s \<longrightarrow> (\<exists>d. channelDefinition r ns c = Some d \<and> sm_channelName s = c
         \<and> sm_observedAt s \<noteq> None \<and> (usable (sm_quality s) \<longrightarrow> sm_value s \<noteq> None)
         \<and> (\<forall>v. sm_value s = Some v \<longrightarrow> scalarMatches (cd_valueType d) v)))"
proof -
  have ok: "registry_ok r" unfolding r_def by (rule run_data_ok)
  have "\<exists>d. channelDefinition r ns c = Some d \<and> sample_ok (cd_valueType d) c s" if l: "latestSample r ns c = Some s" for ns c s
  proof -
    obtain p ch where p: "map_of (dr_providers r) ns = Some p" "map_of (pv_channels p) c = Some ch" "ch_latest ch = Some s"
      using l by (auto simp: latestSample_def channel_of_def split: option.splits)
    then have "channel_ok c ch" using ok by (auto simp: registry_ok_def provider_ok_def channels_ok_def)
    then show ?thesis using p by (auto simp: channelDefinition_def channel_of_def channel_ok_def)
  qed
  moreover have "\<forall>t ns. map_of (dr_owners r) t = Some ns \<longleftrightarrow>
      (\<exists>p. map_of (dr_providers r) ns = Some p \<and> pv_owner p = t)"
    using ok unfolding registry_ok_def by (elim conjE)
  ultimately show ?thesis unfolding sample_ok_def by blast
qed

definition example_provider :: provider_definition where
  "example_provider = \<lparr> pd_namespace = ''obd'', pd_displayName = ''OBD'', pd_description = None, pd_version = None \<rparr>"

definition example_channel :: channel_definition where
  "example_channel = \<lparr> cd_channelName = ''rpm'', cd_displayName = ''RPM'', cd_valueType = TUnsignedInteger, cd_unit = None,
     cd_description = None, cd_nominalIntervalMs = None, cd_staleAfterMs = None, cd_suggestedMinimum = None,
     cd_suggestedMaximum = None, cd_enumOptions = [] \<rparr>"

definition rpm_sample :: "scalar \<Rightarrow> sample" where
  "rpm_sample v = \<lparr> sm_channelName = ''rpm'', sm_value = Some v, sm_observedAt = None, sm_quality = QGood \<rparr>"

definition example_run :: "data_op list" where
  "example_run = [Register 1 example_provider, Declare 1 [example_channel],
     Publish 7 1 [rpm_sample (SUnsigned 800), rpm_sample (SUnsigned 900)], Publish 8 1 [rpm_sample (SBoolean True)]]"

definition example_registry_state :: data_registry where
  "example_registry_state = fst (run data_step example_run registry_new)"

lemma example_latest:
  "latestSample example_registry_state ''obd'' ''rpm''
     = Some \<lparr> sm_channelName = ''rpm'', sm_value = Some (SUnsigned 900), sm_observedAt = Some 7, sm_quality = QGood \<rparr>"
  by code_simp

theorem registry_well_typed_witness:
  "latestSample example_registry_state ''obd'' ''rpm'' \<noteq> None
   \<and> channelDefinition example_registry_state ''obd'' ''rpm'' \<noteq> None"
  using registry_well_typed [of example_run] example_latest unfolding example_registry_state_def
  by (metis option.distinct(1))

text \<open>
  C38: whoever follows the signals from the start knows which channels are available and the
  current revision, and the catalog never changes without an announcement under the next
  revision.
\<close>

theorem registry_announces_catalog:
  fixes xs :: "data_op list"
  defines "r \<equiv> fst (run data_step xs registry_new)"
  shows "fold observe (snd (run data_step xs registry_new)) ({}, 0)
      = ({(ns, c). channelDefinition r ns c \<noteq> None}, dr_revision r)
    \<and> (\<forall>x. catalog (fst (data_step x r)) = catalog r \<or> CatalogChanged (dr_revision r + 1) \<in> set (snd (data_step x r)))"
proof -
  have "available registry_new = {}" "dr_revision registry_new = 0"
    by (auto simp: available_def channel_of_def registry_new_def)
  then have "fold observe (snd (run data_step xs registry_new)) ({}, 0) = (available r, dr_revision r)"
    using run_announced [OF registry_new_ok, of xs] by (simp add: r_def)
  moreover have "available r = {(ns, c). channelDefinition r ns c \<noteq> None}"
    by (simp add: available_def channelDefinition_def)
  moreover have "registry_ok r" unfolding r_def by (rule run_data_ok)
  ultimately show ?thesis using catalog_step by simp
qed

text \<open>
  C39: publishing a batch has, on every channel of the session's provider, the effect of its last
  sample in the batch alone, which replaces the kept sample when it is acceptable and leaves it
  otherwise; all other providers keep theirs.
\<close>

theorem publish_keeps_last_acceptable:
  assumes "r = fst (run data_step xs registry_new)" "providerForOwner r t = Some (ns, p)"
  shows "channel_of (fst (publish now t ss r)) n c =
    (if n = ns then map_option (received now (last_sample c ss)) (channel_of r n c) else channel_of r n c)"
proof -
  have ok: "registry_ok r" using run_data_ok assms(1) by simp
  note p = providerForOwner_Some [OF ok assms(2)]
  let ?out = "fold (publish_one now) (keep_last ss) (pv_channels p, \<lparr> pr_accepted = [], pr_diagnostics = [] \<rparr>)"
  have "fst (publish now t ss r) = set_provider ns (p \<lparr> pv_channels := fst ?out \<rparr>) r"
    by (simp add: publish_def assms(2) fold_map comp_def winners_keep_last [symmetric] split: prod.splits)
  moreover have "map_of (fst ?out) c = map_option (received now (last_sample c ss)) (map_of (pv_channels p) c)"
    by (simp only: publish_fold_map_of fst_conv)
  ultimately show ?thesis using p(2)
    by (simp add: channel_of_def set_provider_def update_conv')
qed

theorem publish_keeps_last_acceptable_witness:
  "map_option ch_latest (channel_of (fst (publish 9 1 [rpm_sample (SUnsigned 1), rpm_sample (SUnsigned 2)]
       example_registry_state)) ''obd'' ''rpm'') = Some (Some (stamped 9 (rpm_sample (SUnsigned 2))))"
proof -
  have "map_option fst (providerForOwner example_registry_state 1) = Some ''obd''" by code_simp
  then obtain p where p: "providerForOwner example_registry_state 1 = Some (''obd'', p)" by auto
  have "map_option (\<lambda>ch. cd_valueType (ch_definition ch)) (channel_of example_registry_state ''obd'' ''rpm'')
      = Some TUnsignedInteger" by code_simp
  then have "map_option (\<lambda>ch. acceptable (ch_definition ch) (rpm_sample (SUnsigned 2)))
      (channel_of example_registry_state ''obd'' ''rpm'') = Some True"
    by (auto simp: acceptable_def rpm_sample_def)
  moreover have "last_sample ''rpm'' [rpm_sample (SUnsigned 1), rpm_sample (SUnsigned 2)] = Some (rpm_sample (SUnsigned 2))"
    by code_simp
  ultimately show ?thesis
    using publish_keeps_last_acceptable [OF example_registry_state_def p, of 9
        "[rpm_sample (SUnsigned 1), rpm_sample (SUnsigned 2)]" "''obd''" "''rpm''"]
    by (auto simp: received_def)
qed

end
