(* ===== verification/AV_Handlers.thy ===== *)
theory AV_Handlers
  imports Protocol_Policy
begin

text \<open>
  The media channel handlers of \<open>oaa/HU/Handlers\<close>: audio and video playback channels
  (\<open>AudioChannelHandler.cpp\<close>, \<open>VideoChannelHandler.cpp\<close>). An operation takes the handler's
  state and returns it with the signals it emits, in order. Protobuf parsing and serialisation are the parameter
  \<open>av_protos\<close>: each parser gives the fields the code reads.

  What a media channel promises is the automaton \<open>sink_step\<close>: frames go on exactly while the
  channel is open and its stream started, each with the session of the last start. The locale
  \<open>media_sink\<close> is a step-wise simulation of that automaton; it is interpreted for both handlers.
\<close>

section \<open>Messages and signals\<close>

datatype video_focus_mode = FocusProjected | FocusNone | FocusModeOther int

record start_indication =
  si_session :: int
  si_config :: u32
  si_sessionType :: "int option"
  si_mediaConfig :: "string option"

record media_ack =
  ack_sessionId :: int
  ack_timestamps :: nat
  ack_count :: "u32 option"

record input_open_request =
  ior_open :: bool
  ior_maxUnacked :: "int option"

type_synonym ui_tokens = "(string \<times> u32 option) list"

datatype av_message =
    AVSetupResponse bool u32 "u32 list"
  | AVMediaAck int u32
  | VideoFocusIndication video_focus_mode bool
  | UpdateHuUiConfigAccepted
  | AVInputOpenResponse int u32

record av_protos =
  parse_SetupRequest :: "bytes \<Rightarrow> int option"
  parse_StartIndication :: "bytes \<Rightarrow> start_indication option"
  parse_MediaOptions :: "bytes \<Rightarrow> string option"
  parse_MediaAck :: "bytes \<Rightarrow> media_ack option"
  parse_InputOpenRequest :: "bytes \<Rightarrow> input_open_request option"
  parse_VideoFocusRequest :: "bytes \<Rightarrow> video_focus_mode option"
  parse_VideoFocusIndication :: "bytes \<Rightarrow> (video_focus_mode \<times> bool) option"
  parse_UiConfigRequest :: "bytes \<Rightarrow> (ui_tokens \<times> ui_tokens) option option"
  codec_AUDIO_PCM :: int
  serialize_av :: "av_message \<Rightarrow> bytes"

datatype av_signal =
    AvSend byte u16 bytes
  | AvUnknown u16 bytes
  | AvMedia bytes u64
  | AvAudioStreamStarted int
  | AvVideoStreamStarted int u32
  | AvStreamDetails int u32 int bool string
  | AvMediaOptions string
  | AvStreamStopped
  | AvSetupRequested int
  | AvHandlerError string
  | AvFocusChanged video_focus_mode bool
  | AvUiTokens "string \<rightharpoonup> u32" "string \<rightharpoonup> u32"
  | AvMicCapture bool
  | AvWindowAvailable

abbreviation SETUP_REQUEST :: u16 where "SETUP_REQUEST \<equiv> 0x8000"
abbreviation START_INDICATION :: u16 where "START_INDICATION \<equiv> 0x8001"
abbreviation STOP_INDICATION :: u16 where "STOP_INDICATION \<equiv> 0x8002"
abbreviation SETUP_RESPONSE :: u16 where "SETUP_RESPONSE \<equiv> 0x8003"
abbreviation ACK_INDICATION :: u16 where "ACK_INDICATION \<equiv> 0x8004"
abbreviation INPUT_OPEN_REQUEST :: u16 where "INPUT_OPEN_REQUEST \<equiv> 0x8005"
abbreviation INPUT_OPEN_RESPONSE :: u16 where "INPUT_OPEN_RESPONSE \<equiv> 0x8006"
abbreviation VIDEO_FOCUS_REQUEST :: u16 where "VIDEO_FOCUS_REQUEST \<equiv> 0x8007"
abbreviation VIDEO_FOCUS_INDICATION :: u16 where "VIDEO_FOCUS_INDICATION \<equiv> 0x8008"
abbreviation UI_CONFIG_REQUEST :: u16 where "UI_CONFIG_REQUEST \<equiv> 0x8011"
abbreviation UPDATE_HU_UI_CONFIG_RESPONSE :: u16 where "UPDATE_HU_UI_CONFIG_RESPONSE \<equiv> 0x8012"
abbreviation MEDIA_OPTIONS :: u16 where "MEDIA_OPTIONS \<equiv> 0x8014"

text \<open>The fields of a start indication as the signals report them.\<close>

definition stream_details :: "start_indication \<Rightarrow> av_signal" where
  "stream_details start = AvStreamDetails (si_session start) (si_config start)
     (case si_sessionType start of Some t \<Rightarrow> t | None \<Rightarrow> - 1)
     (si_mediaConfig start \<noteq> None)
     (case si_mediaConfig start of Some c \<Rightarrow> take 512 c | None \<Rightarrow> [])"

section \<open>Audio\<close>

record audio_handler =
  au_channelId :: byte
  au_protocolPolicy :: protocol_version
  au_session :: int
  au_channelOpen :: bool
  au_streaming :: bool

definition MAX_UNACKED :: u32 where "MAX_UNACKED = 10"

definition audio_new :: "byte \<Rightarrow> audio_handler" where
  "audio_new ch = \<lparr>au_channelId = ch, au_protocolPolicy = kGalVersion1_7, au_session = - 1,
     au_channelOpen = False, au_streaming = False\<rparr>"

definition audio_configureSession :: "protocol_version \<Rightarrow> audio_handler \<Rightarrow> audio_handler" where
  "audio_configureSession policy a = a\<lparr>au_protocolPolicy := policy\<rparr>"

definition audio_onChannelOpened :: "audio_handler \<Rightarrow> audio_handler" where
  "audio_onChannelOpened a = a\<lparr>au_channelOpen := True, au_streaming := False, au_session := - 1\<rparr>"

definition audio_onChannelClosed :: "audio_handler \<Rightarrow> audio_handler" where
  "audio_onChannelClosed a = a\<lparr>au_channelOpen := False, au_streaming := False\<rparr>"

definition audio_handleMediaOptions :: "av_protos \<Rightarrow> bytes \<Rightarrow> audio_handler \<Rightarrow> audio_handler \<times> av_signal list" where
  "audio_handleMediaOptions p payload a = (case parse_MediaOptions p payload of
     None \<Rightarrow> (a, [])
   | Some summary \<Rightarrow> (a, [AvMediaOptions (take 512 summary)]))"

definition audio_handleSetupRequest :: "av_protos \<Rightarrow> bytes \<Rightarrow> audio_handler \<Rightarrow> audio_handler \<times> av_signal list" where
  "audio_handleSetupRequest p payload a = (case parse_SetupRequest p payload of
     None \<Rightarrow> (a, [])
   | Some codec \<Rightarrow> (a, [AvSend (au_channelId a) SETUP_RESPONSE
       (serialize_av p (AVSetupResponse True MAX_UNACKED [0]))]))"

definition audio_handleStartIndication :: "av_protos \<Rightarrow> bytes \<Rightarrow> audio_handler \<Rightarrow> audio_handler \<times> av_signal list" where
  "audio_handleStartIndication p payload a = (case parse_StartIndication p payload of
     None \<Rightarrow> (a, [])
   | Some start \<Rightarrow> (a\<lparr>au_session := si_session start, au_streaming := True\<rparr>,
       [AvAudioStreamStarted (si_session start), stream_details start]))"

definition audio_handleStopIndication :: "audio_handler \<Rightarrow> audio_handler \<times> av_signal list" where
  "audio_handleStopIndication a = (a\<lparr>au_streaming := False\<rparr>, [AvStreamStopped])"

definition audio_onMessage :: "av_protos \<Rightarrow> u16 \<Rightarrow> bytes \<Rightarrow> nat \<Rightarrow> audio_handler \<Rightarrow> audio_handler \<times> av_signal list" where
  "audio_onMessage p mid payload dataOffset a = (
     let data = drop dataOffset payload in
     if mid = SETUP_REQUEST then audio_handleSetupRequest p data a
     else if mid = START_INDICATION then audio_handleStartIndication p data a
     else if mid = STOP_INDICATION then audio_handleStopIndication a
     else if mid = MEDIA_OPTIONS then audio_handleMediaOptions p data a
     else (a, [AvUnknown mid data]))"

definition audio_sendAck :: "av_protos \<Rightarrow> audio_handler \<Rightarrow> av_signal list" where
  "audio_sendAck p a = [AvSend (au_channelId a) ACK_INDICATION (serialize_av p (AVMediaAck (au_session a) 1))]"

definition audio_canAcceptMedia :: "audio_handler \<Rightarrow> bool" where
  "audio_canAcceptMedia a \<longleftrightarrow> au_channelOpen a \<and> au_streaming a"

definition audio_onMediaData :: "av_protos \<Rightarrow> bytes \<Rightarrow> u64 \<Rightarrow> audio_handler \<Rightarrow> audio_handler \<times> av_signal list" where
  "audio_onMediaData p data ts a = (
     if \<not> au_channelOpen a \<or> \<not> au_streaming a then (a, [])
     else (a, AvMedia data ts # (if \<not> usesAcklessAudio (au_protocolPolicy a) then audio_sendAck p a else [])))"

section \<open>Video\<close>

record video_handler =
  vi_channelId :: byte
  vi_setupFocusMode :: video_focus_mode
  vi_session :: int
  vi_numVideoConfigs :: u32
  vi_channelOpen :: bool
  vi_streaming :: bool
  vi_receivedFrameCount :: u64
  vi_ackCount :: u64

definition video_new :: "byte \<Rightarrow> video_focus_mode \<Rightarrow> video_handler" where
  "video_new ch mode = \<lparr>vi_channelId = ch, vi_setupFocusMode = mode, vi_session = - 1, vi_numVideoConfigs = 1,
     vi_channelOpen = False, vi_streaming = False, vi_receivedFrameCount = 0, vi_ackCount = 0\<rparr>"

definition video_setNumVideoConfigs :: "u32 \<Rightarrow> video_handler \<Rightarrow> video_handler" where
  "video_setNumVideoConfigs n v = v\<lparr>vi_numVideoConfigs := n\<rparr>"

definition video_onChannelOpened :: "video_handler \<Rightarrow> video_handler" where
  "video_onChannelOpened v = v\<lparr>vi_channelOpen := True, vi_streaming := False, vi_session := - 1,
     vi_receivedFrameCount := 0, vi_ackCount := 0\<rparr>"

definition video_onChannelClosed :: "video_handler \<Rightarrow> video_handler" where
  "video_onChannelClosed v = v\<lparr>vi_channelOpen := False, vi_streaming := False\<rparr>"

definition video_handleSetupRequest :: "av_protos \<Rightarrow> bytes \<Rightarrow> video_handler \<Rightarrow> video_handler \<times> av_signal list" where
  "video_handleSetupRequest p payload v = (case parse_SetupRequest p payload of
     None \<Rightarrow> (v, [AvHandlerError ''failed to parse setup request''])
   | Some codec \<Rightarrow> (v,
       [AvSetupRequested codec,
        AvSend (vi_channelId v) SETUP_RESPONSE (serialize_av p
          (AVSetupResponse True 10 (map of_nat [0..<unat (vi_numVideoConfigs v)]))),
        AvSend (vi_channelId v) VIDEO_FOCUS_INDICATION (serialize_av p
          (VideoFocusIndication (vi_setupFocusMode v) False))]))"

definition video_handleStartIndication :: "av_protos \<Rightarrow> bytes \<Rightarrow> video_handler \<Rightarrow> video_handler \<times> av_signal list" where
  "video_handleStartIndication p payload v = (case parse_StartIndication p payload of
     None \<Rightarrow> (v, [AvHandlerError ''failed to parse start indication''])
   | Some start \<Rightarrow> (v\<lparr>vi_session := si_session start, vi_streaming := True\<rparr>,
       [AvVideoStreamStarted (si_session start) (si_config start), stream_details start]))"

definition video_handleMediaOptions :: "av_protos \<Rightarrow> bytes \<Rightarrow> video_handler \<Rightarrow> video_handler \<times> av_signal list" where
  "video_handleMediaOptions p payload v = (case parse_MediaOptions p payload of
     None \<Rightarrow> (v, [])
   | Some summary \<Rightarrow> (v, [AvMediaOptions (take 512 summary)]))"

definition video_handleStopIndication :: "video_handler \<Rightarrow> video_handler \<times> av_signal list" where
  "video_handleStopIndication v = (v\<lparr>vi_streaming := False\<rparr>, [AvStreamStopped])"

definition video_handleVideoFocusRequest :: "av_protos \<Rightarrow> bytes \<Rightarrow> video_handler \<Rightarrow> video_handler \<times> av_signal list" where
  "video_handleVideoFocusRequest p payload v = (case parse_VideoFocusRequest p payload of
     None \<Rightarrow> (v, [AvHandlerError ''failed to parse video focus request''])
   | Some mode \<Rightarrow> (v,
       [AvSend (vi_channelId v) VIDEO_FOCUS_INDICATION (serialize_av p (VideoFocusIndication mode False)),
        AvFocusChanged mode False]))"

definition video_handleVideoFocusIndication :: "av_protos \<Rightarrow> bytes \<Rightarrow> video_handler \<Rightarrow> video_handler \<times> av_signal list" where
  "video_handleVideoFocusIndication p payload v = (case parse_VideoFocusIndication p payload of
     None \<Rightarrow> (v, [AvHandlerError ''failed to parse video focus indication''])
   | Some (mode, unrequested) \<Rightarrow> (v, [AvFocusChanged mode unrequested]))"

text \<open>The loops over the token lists: a later entry for the same key wins.\<close>

definition token_map :: "ui_tokens \<Rightarrow> string \<rightharpoonup> u32" where
  "token_map ts = foldl (\<lambda>m (k, v). case v of Some x \<Rightarrow> m(k \<mapsto> x) | None \<Rightarrow> m) Map.empty ts"

definition video_handleUiConfig :: "av_protos \<Rightarrow> bytes \<Rightarrow> video_handler \<Rightarrow> video_handler \<times> av_signal list" where
  "video_handleUiConfig p payload v = (case parse_UiConfigRequest p payload of
     None \<Rightarrow> (v, [AvHandlerError ''failed to parse UI config request''])
   | Some config \<Rightarrow> (v,
       [(case config of
           Some (day, night) \<Rightarrow> AvUiTokens (token_map day) (token_map night)
         | None \<Rightarrow> AvUiTokens Map.empty Map.empty),
        AvSend (vi_channelId v) UPDATE_HU_UI_CONFIG_RESPONSE (serialize_av p UpdateHuUiConfigAccepted)]))"

definition video_onMessage :: "av_protos \<Rightarrow> u16 \<Rightarrow> bytes \<Rightarrow> nat \<Rightarrow> video_handler \<Rightarrow> video_handler \<times> av_signal list" where
  "video_onMessage p mid payload dataOffset v = (
     let data = drop dataOffset payload in
     if mid = SETUP_REQUEST then video_handleSetupRequest p data v
     else if mid = START_INDICATION then video_handleStartIndication p data v
     else if mid = STOP_INDICATION then video_handleStopIndication v
     else if mid = VIDEO_FOCUS_REQUEST then video_handleVideoFocusRequest p data v
     else if mid = VIDEO_FOCUS_INDICATION then video_handleVideoFocusIndication p data v
     else if mid = UI_CONFIG_REQUEST then video_handleUiConfig p data v
     else if mid = MEDIA_OPTIONS then video_handleMediaOptions p data v
     else if mid = 0x800A \<or> mid = 0x800C \<or> mid = 0x800D \<or> mid = 0x8015 then (v, [])
     else (v, [AvUnknown mid data]))"

definition video_sendAck :: "av_protos \<Rightarrow> video_handler \<Rightarrow> video_handler \<times> av_signal list" where
  "video_sendAck p v = (v\<lparr>vi_ackCount := vi_ackCount v + 1\<rparr>,
     [AvSend (vi_channelId v) ACK_INDICATION (serialize_av p (AVMediaAck (vi_session v) 1))])"

definition video_canAcceptMedia :: "video_handler \<Rightarrow> bool" where
  "video_canAcceptMedia v \<longleftrightarrow> vi_channelOpen v \<and> vi_streaming v"

text \<open>
  The signal carries the time of arrival at the handler, \<open>enqueueNs\<close>, in place of the
  timestamp of the stream.
\<close>

definition video_onMediaData :: "av_protos \<Rightarrow> u64 \<Rightarrow> bytes \<Rightarrow> u64 \<Rightarrow> video_handler \<Rightarrow> video_handler \<times> av_signal list" where
  "video_onMediaData p enqueueNs data ts v = (
     if \<not> vi_channelOpen v \<or> \<not> vi_streaming v then (v, [])
     else (let (v', acks) = video_sendAck p (v\<lparr>vi_receivedFrameCount := vi_receivedFrameCount v + 1\<rparr>)
           in (v', AvMedia data enqueueNs # acks)))"

definition video_requestVideoFocus :: "av_protos \<Rightarrow> bool \<Rightarrow> video_handler \<Rightarrow> video_handler \<times> av_signal list" where
  "video_requestVideoFocus p focused v = (
     if \<not> vi_channelOpen v then (v, [])
     else (v, [AvSend (vi_channelId v) VIDEO_FOCUS_INDICATION (serialize_av p
            (VideoFocusIndication (if focused then FocusProjected else FocusNone) True))]))"

section \<open>What a media channel promises\<close>

text \<open>
  The calls the session makes on a media handler, and one step of each handler. The clock
  value of a video frame is part of the frame's arrival.
\<close>

datatype media_op =
    MOpened
  | MClosed
  | MMessage u16 bytes nat
  | MMedia bytes u64 u64

fun audio_step :: "av_protos \<Rightarrow> media_op \<Rightarrow> audio_handler \<Rightarrow> audio_handler \<times> av_signal list" where
  "audio_step p MOpened a = (audio_onChannelOpened a, [])"
| "audio_step p MClosed a = (audio_onChannelClosed a, [])"
| "audio_step p (MMessage mid payload off) a = audio_onMessage p mid payload off a"
| "audio_step p (MMedia data ts now) a = audio_onMediaData p data ts a"

fun video_step :: "av_protos \<Rightarrow> media_op \<Rightarrow> video_handler \<Rightarrow> video_handler \<times> av_signal list" where
  "video_step p MOpened v = (video_onChannelOpened v, [])"
| "video_step p MClosed v = (video_onChannelClosed v, [])"
| "video_step p (MMessage mid payload off) v = video_onMessage p mid payload off v"
| "video_step p (MMedia data ts now) v = video_onMediaData p now data ts v"

text \<open>
  The promise: the state is whether the channel is open, whether the stream is started, and
  the session named by the last start indication; the output the frames passed on.
\<close>

record sink =
  sk_open :: bool
  sk_streaming :: bool
  sk_session :: int

fun sink_step :: "av_protos \<Rightarrow> media_op \<Rightarrow> sink \<Rightarrow> sink \<times> (bytes \<times> int) list" where
  "sink_step p MOpened k = (\<lparr>sk_open = True, sk_streaming = False, sk_session = - 1\<rparr>, [])"
| "sink_step p MClosed k = (k\<lparr>sk_open := False, sk_streaming := False\<rparr>, [])"
| "sink_step p (MMessage mid payload off) k =
     (if mid = START_INDICATION then
        (case parse_StartIndication p (drop off payload) of
           None \<Rightarrow> (k, [])
         | Some start \<Rightarrow> (k\<lparr>sk_streaming := True, sk_session := si_session start\<rparr>, []))
      else if mid = STOP_INDICATION then (k\<lparr>sk_streaming := False\<rparr>, [])
      else (k, []))"
| "sink_step p (MMedia data ts now) k =
     (k, if sk_open k \<and> sk_streaming k then [(data, sk_session k)] else [])"

text \<open>What of the emitted signals is media, and what acknowledges it.\<close>

fun media_of :: "av_signal \<Rightarrow> bytes list" where
  "media_of (AvMedia data ts) = [data]"
| "media_of s = []"

fun ack_of :: "av_signal \<Rightarrow> (byte \<times> bytes) list" where
  "ack_of (AvSend ch mid payload) = (if mid = ACK_INDICATION then [(ch, payload)] else [])"
| "ack_of s = []"

definition media_sent :: "av_signal list \<Rightarrow> bytes list" where
  "media_sent sigs = concat (map media_of sigs)"

definition acks_sent :: "av_signal list \<Rightarrow> (byte \<times> bytes) list" where
  "acks_sent sigs = concat (map ack_of sigs)"

definition frame_ack :: "av_protos \<Rightarrow> byte \<Rightarrow> bytes \<times> int \<Rightarrow> byte \<times> bytes" where
  "frame_ack p ch = (\<lambda>(data, session). (ch, serialize_av p (AVMediaAck session 1)))"

lemma media_sent_simps [simp]:
  "media_sent [] = []"
  "media_sent (s # ss) = media_of s @ media_sent ss"
  "media_sent (xs @ ys) = media_sent xs @ media_sent ys"
  by (simp_all add: media_sent_def)

lemma acks_sent_simps [simp]:
  "acks_sent [] = []"
  "acks_sent (s # ss) = ack_of s @ acks_sent ss"
  "acks_sent (xs @ ys) = acks_sent xs @ acks_sent ys"
  by (simp_all add: acks_sent_def)

locale media_sink =
  fixes p :: av_protos
    and step :: "media_op \<Rightarrow> 's \<Rightarrow> 's \<times> av_signal list"
    and view :: "'s \<Rightarrow> sink"
    and channel :: "'s \<Rightarrow> byte"
    and acking :: "'s \<Rightarrow> bool"
  assumes step_view: "view (fst (step op s)) = fst (sink_step p op (view s))"
    and step_media: "media_sent (snd (step op s)) = map fst (snd (sink_step p op (view s)))"
    and step_acks: "acks_sent (snd (step op s)) =
      (if acking s then map (frame_ack p (channel s)) (snd (sink_step p op (view s))) else [])"
    and step_fixed: "channel (fst (step op s)) = channel s" "acking (fst (step op s)) = acking s"
begin

lemma run_view: "view (fst (run step ops s)) = fst (run (sink_step p) ops (view s))"
  by (induction ops arbitrary: s) (simp_all add: run_Cons step_view)

lemma run_media: "media_sent (snd (run step ops s)) = map fst (snd (run (sink_step p) ops (view s)))"
  by (induction ops arbitrary: s) (simp_all add: run_Cons step_view step_media)

lemma run_acks: "acks_sent (snd (run step ops s)) =
    (if acking s then map (frame_ack p (channel s)) (snd (run (sink_step p) ops (view s))) else [])"
  by (induction ops arbitrary: s) (simp_all add: run_Cons step_view step_acks step_fixed)

end

definition audio_view :: "audio_handler \<Rightarrow> sink" where
  "audio_view a = \<lparr>sk_open = au_channelOpen a, sk_streaming = au_streaming a, sk_session = au_session a\<rparr>"

definition video_view :: "video_handler \<Rightarrow> sink" where
  "video_view v = \<lparr>sk_open = vi_channelOpen v, sk_streaming = vi_streaming v, sk_session = vi_session v\<rparr>"

lemmas audio_defs = audio_onChannelOpened_def audio_onChannelClosed_def audio_onMessage_def
  audio_handleSetupRequest_def audio_handleStartIndication_def audio_handleStopIndication_def
  audio_handleMediaOptions_def audio_onMediaData_def audio_sendAck_def

lemmas video_defs = video_onChannelOpened_def video_onChannelClosed_def video_onMessage_def
  video_handleSetupRequest_def video_handleStartIndication_def video_handleStopIndication_def
  video_handleMediaOptions_def video_handleVideoFocusRequest_def
  video_handleVideoFocusIndication_def video_handleUiConfig_def video_onMediaData_def video_sendAck_def

interpretation audio: media_sink p "audio_step p" audio_view au_channelId
    "\<lambda>a. \<not> usesAcklessAudio (au_protocolPolicy a)" for p
  by unfold_locales
    (rename_tac [!] op a, case_tac [!] op,
     simp_all add: audio_defs audio_view_def stream_details_def frame_ack_def Let_def split: option.splits)

interpretation video: media_sink p "video_step p" video_view vi_channelId "\<lambda>v. True" for p
  by unfold_locales
    (rename_tac [!] op v, case_tac [!] op,
     simp_all add: video_defs video_view_def stream_details_def frame_ack_def Let_def
       split: option.splits)

text \<open>
  C16: over any sequence of calls, an audio handler and a video handler pass on exactly the
  frames that arrive while the channel is open and its stream started, in order; the video
  handler acknowledges each of them once, with the session of the last start indication, and
  so does the audio handler unless the protocol version has acknowledgement-free audio, when
  it acknowledges none.
\<close>

theorem media_handlers_implement_sink:
  "media_sent (snd (run (audio_step p) ops a)) = map fst (snd (run (sink_step p) ops (audio_view a))) \<and>
   acks_sent (snd (run (audio_step p) ops a)) =
     (if usesAcklessAudio (au_protocolPolicy a) then []
      else map (frame_ack p (au_channelId a)) (snd (run (sink_step p) ops (audio_view a)))) \<and>
   media_sent (snd (run (video_step p) ops v)) = map fst (snd (run (sink_step p) ops (video_view v))) \<and>
   acks_sent (snd (run (video_step p) ops v)) =
     map (frame_ack p (vi_channelId v)) (snd (run (sink_step p) ops (video_view v)))"
  by (simp add: audio.run_media audio.run_acks video.run_media video.run_acks)

end
