(* ===== verification/Audio_Ring.thy ===== *)
theory Audio_Ring
  imports Prelude
begin

unbundle bit_operations_syntax

text \<open>
  \<open>core/audio/AudioRingBuffer.hpp\<close>: the single-producer single-consumer ring of audio bytes
  over PipeWire's \<open>spa_ringbuffer\<close>. The ring's two indices are 32-bit counters that wrap; the
  position in the storage is the index masked by the capacity, a power of two.

  The helpers of PipeWire's \<open>spa/utils/ringbuffer.h\<close> are the parameter \<open>spa_ops\<close>; what their
  documentation promises is \<open>spa_ok\<close>. The ring's contract towards its users is the locale
  \<open>bounded_fifo\<close>: a queue of at most \<open>capacity\<close> bytes.
\<close>

section \<open>The PipeWire helpers\<close>

record spa_ringbuffer =
  readindex :: u32
  writeindex :: u32

text \<open>
  The fill level a helper returns is an \<open>int32_t\<close>. \<open>spa_write_data buffer size offset src\<close> gives
  the buffer after the copy, \<open>spa_read_data buffer size offset len\<close> the bytes copied out.
\<close>

record spa_ops =
  spa_ringbuffer_init :: spa_ringbuffer
  spa_get_read_index :: "spa_ringbuffer \<Rightarrow> int \<times> u32"
  spa_get_write_index :: "spa_ringbuffer \<Rightarrow> int \<times> u32"
  spa_read_update :: "spa_ringbuffer \<Rightarrow> u32 \<Rightarrow> spa_ringbuffer"
  spa_write_update :: "spa_ringbuffer \<Rightarrow> u32 \<Rightarrow> spa_ringbuffer"
  spa_write_data :: "bytes \<Rightarrow> nat \<Rightarrow> nat \<Rightarrow> bytes \<Rightarrow> bytes"
  spa_read_data :: "bytes \<Rightarrow> nat \<Rightarrow> nat \<Rightarrow> nat \<Rightarrow> bytes"

text \<open>
  Documented behaviour: the fill level is the signed difference of the indices; the updates
  store one index; the copies go around the end of the buffer.
\<close>

definition spa_ok :: "spa_ops \<Rightarrow> bool" where
  "spa_ok spa \<longleftrightarrow>
     spa_ringbuffer_init spa = \<lparr>readindex = 0, writeindex = 0\<rparr> \<and>
     (\<forall>r. spa_get_read_index spa r = (sint (writeindex r - readindex r), readindex r)) \<and>
     (\<forall>r. spa_get_write_index spa r = (sint (writeindex r - readindex r), writeindex r)) \<and>
     (\<forall>r i. spa_read_update spa r i = r\<lparr>readindex := i\<rparr>) \<and>
     (\<forall>r i. spa_write_update spa r i = r\<lparr>writeindex := i\<rparr>) \<and>
     (\<forall>buf n off src. length buf = n \<longrightarrow> off < n \<longrightarrow> length src \<le> n \<longrightarrow>
        length (spa_write_data spa buf n off src) = n \<and>
        (\<forall>i < n. spa_write_data spa buf n off src ! ((off + i) mod n) =
           (if i < length src then src ! i else buf ! ((off + i) mod n)))) \<and>
     (\<forall>buf n off len. length buf = n \<longrightarrow> off < n \<longrightarrow> len \<le> n \<longrightarrow>
        spa_read_data spa buf n off len = map (\<lambda>i. buf ! ((off + i) mod n)) [0..<len])"

section \<open>The ring\<close>

record audio_ring =
  rb_capacity :: u32
  rb_data :: bytes
  rb_ring :: spa_ringbuffer
  rb_dropCount :: u32
  rb_dropEpoch :: u32

definition ring_new :: "spa_ops \<Rightarrow> u32 \<Rightarrow> audio_ring" where
  "ring_new spa capacity = \<lparr>rb_capacity = capacity, rb_data = replicate (unat capacity) 0,
     rb_ring = spa_ringbuffer_init spa, rb_dropCount = 0, rb_dropEpoch = 0\<rparr>"

definition ring_available :: "spa_ops \<Rightarrow> audio_ring \<Rightarrow> u32" where
  "ring_available spa b = (let (avail, idx) = spa_get_read_index spa (rb_ring b) in
     if avail \<le> 0 then 0 else min (word_of_int avail) (rb_capacity b))"

text \<open>The space in use as the writer sees it.\<close>

definition ring_used :: "audio_ring \<Rightarrow> int \<Rightarrow> u32" where
  "ring_used b fill = (if fill \<le> 0 then 0 else min (word_of_int fill) (rb_capacity b))"

definition ring_offset :: "audio_ring \<Rightarrow> u32 \<Rightarrow> nat" where
  "ring_offset b idx = unat (idx AND (rb_capacity b - 1))"

definition ring_drop :: "audio_ring \<Rightarrow> audio_ring" where
  "ring_drop b = b\<lparr>rb_dropCount := rb_dropCount b + 1, rb_dropEpoch := rb_dropEpoch b + 1\<rparr>"

definition ring_copy_in :: "spa_ops \<Rightarrow> u32 \<Rightarrow> bytes \<Rightarrow> audio_ring \<Rightarrow> audio_ring" where
  "ring_copy_in spa writeIdx src b = b\<lparr>
     rb_data := spa_write_data spa (rb_data b) (unat (rb_capacity b)) (ring_offset b writeIdx) src,
     rb_ring := spa_write_update spa (rb_ring b) (writeIdx + of_nat (length src))\<rparr>"

definition ring_write :: "spa_ops \<Rightarrow> bytes \<Rightarrow> audio_ring \<Rightarrow> nat \<times> audio_ring" where
  "ring_write spa src b = (if src = [] then (0, b) else
     let (fill, writeIdx) = spa_get_write_index spa (rb_ring b);
         free = rb_capacity b - ring_used b fill;
         toWrite = min (length src) (unat free);
         b' = (if toWrite < length src then ring_drop b else b)
     in if toWrite = 0 then (0, b') else (toWrite, ring_copy_in spa writeIdx (take toWrite src) b'))"

definition ring_writeAllOrDrop :: "spa_ops \<Rightarrow> bytes \<Rightarrow> audio_ring \<Rightarrow> nat \<times> audio_ring" where
  "ring_writeAllOrDrop spa src b = (if src = [] then (0, b) else
     let (fill, writeIdx) = spa_get_write_index spa (rb_ring b)
     in if length src > unat (rb_capacity b - ring_used b fill) then (0, ring_drop b)
        else (length src, ring_copy_in spa writeIdx src b))"

definition ring_read :: "spa_ops \<Rightarrow> nat \<Rightarrow> audio_ring \<Rightarrow> bytes \<times> audio_ring" where
  "ring_read spa n b = (if n = 0 then ([], b) else
     let (avail, readIdx) = spa_get_read_index spa (rb_ring b) in
     if avail \<le> 0 then ([], b)
     else let toRead = (if n > nat avail then nat avail else n)
       in (spa_read_data spa (rb_data b) (unat (rb_capacity b)) (ring_offset b readIdx) toRead,
           b\<lparr>rb_ring := spa_read_update spa (rb_ring b) (readIdx + of_nat toRead)\<rparr>))"

definition ring_reset :: "spa_ops \<Rightarrow> audio_ring \<Rightarrow> audio_ring" where
  "ring_reset spa b = b\<lparr>rb_ring := spa_ringbuffer_init spa\<rparr>"

definition ring_drain :: "spa_ops \<Rightarrow> audio_ring \<Rightarrow> audio_ring" where
  "ring_drain spa b = (let (avail, readIdx) = spa_get_read_index spa (rb_ring b) in
     if avail \<le> 0 then b
     else b\<lparr>rb_ring := spa_read_update spa (rb_ring b) (readIdx + word_of_int avail)\<rparr>)"

definition ring_resetDropCount :: "audio_ring \<Rightarrow> audio_ring" where
  "ring_resetDropCount b = b\<lparr>rb_dropCount := 0\<rparr>"

section \<open>Invariant and contents\<close>

definition ring_fill :: "audio_ring \<Rightarrow> nat" where
  "ring_fill b = unat (writeindex (rb_ring b) - readindex (rb_ring b))"

definition ring_at :: "audio_ring \<Rightarrow> nat \<Rightarrow> byte" where
  "ring_at b i = rb_data b ! ((unat (readindex (rb_ring b)) + i) mod unat (rb_capacity b))"

definition ring_contents :: "audio_ring \<Rightarrow> bytes" where
  "ring_contents b = map (ring_at b) [0..<ring_fill b]"

text \<open>The capacity is a power of two below the sign bit, and the fill level within it.\<close>

definition ring_inv :: "audio_ring \<Rightarrow> bool" where
  "ring_inv b \<longleftrightarrow> unat (rb_capacity b) \<in> set (map (\<lambda>k. 2 ^ k) [0..<31]) \<and>
     length (rb_data b) = unat (rb_capacity b) \<and> ring_fill b \<le> unat (rb_capacity b)"

lemma ring_invD:
  assumes "ring_inv b"
  obtains k where "k \<le> 30" "unat (rb_capacity b) = 2 ^ k" "length (rb_data b) = 2 ^ k" "ring_fill b \<le> 2 ^ k"
  using assms by (auto simp: ring_inv_def)

lemma ring_capacity_bound: "ring_inv b \<Longrightarrow> 0 < unat (rb_capacity b) \<and> unat (rb_capacity b) \<le> 2 ^ 30"
  using power_increasing [of _ 30 "2 :: nat"] by (auto elim!: ring_invD)

lemma ring_capacity_dvd: "ring_inv b \<Longrightarrow> unat (rb_capacity b) dvd 2 ^ 32"
  using le_imp_power_dvd [of _ 32 "2 :: nat"] by (fastforce elim!: ring_invD)

lemma ring_fill_bound: "ring_inv b \<Longrightarrow> ring_fill b \<le> unat (rb_capacity b) \<and> ring_fill b \<le> 2 ^ 30"
  using ring_capacity_bound [of b] by (auto simp: ring_inv_def)

lemma length_ring_contents [simp]: "length (ring_contents b) = ring_fill b"
  by (simp add: ring_contents_def)

lemma sint_small: "unat (w :: u32) \<le> 2 ^ 30 \<Longrightarrow> sint w = int (unat w)"
proof -
  assume "unat w \<le> 2 ^ 30"
  then have "unat w < 2 ^ 31" by (rule le_less_trans) simp
  then have "int (unat w) < int (2 ^ 31)" by (simp only: of_nat_less_iff)
  then have "uint w < 2 ^ 31" by simp
  then have "signed_take_bit 31 (uint w) = uint w"
    by (intro signed_take_bit_int_eq_self) (simp_all add: order.trans [OF _ uint_ge_0])
  then show ?thesis by (simp only: sint_uint) simp
qed

lemma ring_avail:
  assumes "ring_inv b"
  shows "sint (writeindex (rb_ring b) - readindex (rb_ring b)) = int (ring_fill b)"
  using ring_fill_bound [OF assms] by (simp add: ring_fill_def sint_small)

lemma ring_offset_mod:
  assumes "ring_inv b"
  shows "ring_offset b idx = unat idx mod unat (rb_capacity b)"
proof -
  from assms obtain k where k: "k \<le> 30" "unat (rb_capacity b) = 2 ^ k" by (rule ring_invD)
  then have "rb_capacity b = of_nat (2 ^ k)" by (metis of_nat_unat ucast_id)
  then have c: "rb_capacity b = 2 ^ k" by simp
  have "idx AND (2 ^ k - 1) = take_bit k idx" by (simp add: take_bit_eq_mask mask_eq_exp_minus_1)
  then show ?thesis using k c by (simp add: ring_offset_def unat_mod take_bit_eq_mod)
qed

lemma unat_add_mod:
  assumes "m dvd 2 ^ 32"
  shows "unat (r + of_nat i :: u32) mod m = (unat r + i) mod m"
proof -
  have "unat (r + of_nat i :: u32) = (unat r + i) mod 2 ^ 32"
    by (simp add: unat_word_ariths unat_of_nat mod_simps)
  then show ?thesis using assms by (simp add: mod_mod_cancel)
qed

lemma spa_okD:
  assumes "spa_ok spa"
  shows "spa_ringbuffer_init spa = \<lparr>readindex = 0, writeindex = 0\<rparr>"
    and "spa_get_read_index spa r = (sint (writeindex r - readindex r), readindex r)"
    and "spa_get_write_index spa r = (sint (writeindex r - readindex r), writeindex r)"
    and "spa_read_update spa r i = r\<lparr>readindex := i\<rparr>"
    and "spa_write_update spa r i = r\<lparr>writeindex := i\<rparr>"
  using assms by (auto simp: spa_ok_def)

lemma spa_write:
  assumes "spa_ok spa" "length buf = n" "off < n" "length src \<le> n"
  shows "length (spa_write_data spa buf n off src) = n"
    and "i < n \<Longrightarrow> spa_write_data spa buf n off src ! ((off + i) mod n) =
           (if i < length src then src ! i else buf ! ((off + i) mod n))"
  using assms unfolding spa_ok_def by blast+

lemma spa_read:
  assumes "spa_ok spa" "length buf = n" "off < n" "len \<le> n"
  shows "spa_read_data spa buf n off len = map (\<lambda>i. buf ! ((off + i) mod n)) [0..<len]"
  using assms unfolding spa_ok_def by blast

lemma ring_inv_new:
  assumes "spa_ok spa" "unat cap \<in> set (map (\<lambda>k. 2 ^ k) [0..<31])"
  shows "ring_inv (ring_new spa cap)" "ring_contents (ring_new spa cap) = []"
  using assms
  by (simp_all add: ring_inv_def ring_new_def ring_contents_def ring_fill_def spa_okD(1) [OF assms(1)])

section \<open>The operations on the contents\<close>

text \<open>Advancing the read index drops from the front.\<close>

lemma advance_read:
  assumes inv: "ring_inv b" and n: "n \<le> ring_fill b"
    and b': "b' = b\<lparr>rb_ring := (rb_ring b)\<lparr>readindex := readindex (rb_ring b) + of_nat n\<rparr>\<rparr>"
  shows "ring_inv b'" and "ring_contents b' = drop n (ring_contents b)"
proof -
  let ?d = "writeindex (rb_ring b) - readindex (rb_ring b)"
  have "n < 2 ^ 32" using n ring_fill_bound [OF inv] by simp
  then have un: "unat (of_nat n :: u32) = n" by (simp add: unat_of_nat)
  have "ring_fill b' = unat (?d - of_nat n)"
    by (simp add: b' ring_fill_def diff_diff_eq)
  also have "\<dots> = ring_fill b - n"
    using n un by (simp add: unat_sub word_le_nat_alt ring_fill_def)
  finally have fill: "ring_fill b' = ring_fill b - n" .
  then show "ring_inv b'" using inv by (auto simp: ring_inv_def b' intro: le_trans [OF diff_le_self])
  have at: "ring_at b' i = ring_at b (n + i)" for i
  proof -
    let ?c = "unat (rb_capacity b)" and ?r = "readindex (rb_ring b)"
    have "(unat (?r + of_nat n) + i) mod ?c = (unat (?r + of_nat n) mod ?c + i) mod ?c"
      by (simp only: mod_add_left_eq)
    also have "\<dots> = ((unat ?r + n) mod ?c + i) mod ?c"
      by (simp only: unat_add_mod [OF ring_capacity_dvd [OF inv]])
    also have "\<dots> = (unat ?r + (n + i)) mod ?c" by (simp only: mod_add_left_eq add.assoc)
    finally show ?thesis by (simp add: ring_at_def b')
  qed
  show "ring_contents b' = drop n (ring_contents b)"
    by (rule nth_equalityI) (simp_all add: fill ring_contents_def at)
qed

text \<open>Copying in at the write index appends.\<close>

lemma ring_copy_in_appends:
  assumes spa: "spa_ok spa" and inv: "ring_inv b"
    and room: "length src \<le> unat (rb_capacity b) - ring_fill b"
    and b': "b' = ring_copy_in spa (writeindex (rb_ring b)) src b"
  shows "ring_inv b'" and "ring_contents b' = ring_contents b @ src"
proof -
  let ?cap = "unat (rb_capacity b)" and ?r = "readindex (rb_ring b)" and ?w = "writeindex (rb_ring b)"
  let ?off = "unat ?w mod ?cap"
  have cap: "0 < ?cap" "?cap \<le> 2 ^ 30" using ring_capacity_bound [OF inv] by simp_all
  have fb: "ring_fill b \<le> ?cap" using ring_fill_bound [OF inv] by simp
  have len: "length (rb_data b) = ?cap" using inv by (simp add: ring_inv_def)
  have off: "ring_offset b ?w = ?off" by (rule ring_offset_mod [OF inv])
  have w: "?w = ?r + of_nat (ring_fill b)" by (simp add: ring_fill_def)
  have offr: "?off = (unat ?r + ring_fill b) mod ?cap"
    using unat_add_mod [OF ring_capacity_dvd [OF inv], of ?r "ring_fill b"] w by simp
  note sw = spa_write [OF spa len, of ?off src]
  have data: "length (rb_data b') = ?cap" and capb: "rb_capacity b' = rb_capacity b"
    and rd: "readindex (rb_ring b') = ?r"
    using sw(1) cap room by (simp_all add: b' ring_copy_in_def off spa_okD [OF spa])
  have "ring_fill b' = unat (of_nat (ring_fill b + length src) :: u32)"
    by (simp add: b' ring_copy_in_def ring_fill_def spa_okD [OF spa])
       (simp add: algebra_simps)
  also have "\<dots> = ring_fill b + length src"
    using room fb cap by (simp only: unat_of_nat) simp
  finally have fill: "ring_fill b' = ring_fill b + length src" .
  show "ring_inv b'" using inv fill data room fb by (simp add: ring_inv_def capb)
  have pos: "(unat ?r + i) mod ?cap = (?off + (i + ?cap - ring_fill b) mod ?cap) mod ?cap"
    if "i < ?cap" for i
  proof -
    have "(?off + (i + ?cap - ring_fill b) mod ?cap) mod ?cap
        = (unat ?r + ring_fill b + (i + ?cap - ring_fill b)) mod ?cap"
      by (simp only: offr mod_add_eq)
    also have "unat ?r + ring_fill b + (i + ?cap - ring_fill b) = unat ?r + i + ?cap" using fb by simp
    finally show ?thesis by simp
  qed
  have at: "ring_at b' i = (if i < ring_fill b then ring_at b i else src ! (i - ring_fill b))"
    if i: "i < ring_fill b + length src" for i
  proof -
    let ?j = "(i + ?cap - ring_fill b) mod ?cap"
    have ic: "i < ?cap \<or> i < ring_fill b + length src" and ib: "i < ?cap" using i room fb by auto
    have j: "?j = (if i < ring_fill b then i + ?cap - ring_fill b else i - ring_fill b)"
      using ib fb by (auto simp: mod_if)
    have jl: "?j < length src \<longleftrightarrow> \<not> i < ring_fill b" using j i room fb by auto
    have "ring_at b' i = spa_write_data spa (rb_data b) ?cap ?off src ! ((?off + ?j) mod ?cap)"
      using pos [OF ib] by (simp add: ring_at_def capb rd) (simp add: b' ring_copy_in_def off)
    also have "\<dots> = (if ?j < length src then src ! ?j else rb_data b ! ((?off + ?j) mod ?cap))"
      using cap room by (intro sw(2)) simp_all
    finally show ?thesis using jl j pos [OF ib] by (simp add: ring_at_def)
  qed
  show "ring_contents b' = ring_contents b @ src"
    by (rule nth_equalityI) (simp_all add: fill ring_contents_def at nth_append)
qed

lemma ring_free:
  assumes "ring_inv b"
  shows "unat (rb_capacity b - ring_used b (int (ring_fill b))) = unat (rb_capacity b) - ring_fill b"
proof -
  have f: "ring_fill b \<le> unat (rb_capacity b)" "ring_fill b < 2 ^ 32"
    using ring_fill_bound [OF assms] by auto
  then have "ring_used b (int (ring_fill b)) = of_nat (ring_fill b)"
    by (simp add: ring_used_def min_def word_le_nat_alt unat_of_nat)
  then show ?thesis using f by (simp add: unat_sub word_le_nat_alt unat_of_nat)
qed

lemma ring_available_fill:
  assumes "spa_ok spa" "ring_inv b"
  shows "unat (ring_available spa b) = ring_fill b"
proof -
  have f: "ring_fill b \<le> unat (rb_capacity b)" "ring_fill b < 2 ^ 32"
    using ring_fill_bound [OF assms(2)] by auto
  then show ?thesis
    by (simp add: ring_available_def spa_okD [OF assms(1)] ring_avail [OF assms(2)]
      min_def word_le_nat_alt unat_of_nat)
qed

lemma ring_inv_drop [simp]:
  "ring_inv (ring_drop b) = ring_inv b" "ring_contents (ring_drop b) = ring_contents b"
  "rb_capacity (ring_drop b) = rb_capacity b" "rb_ring (ring_drop b) = rb_ring b"
  "ring_fill (ring_drop b) = ring_fill b" "rb_dropEpoch (ring_drop b) = rb_dropEpoch b + 1"
  by (simp_all add: ring_drop_def ring_inv_def ring_fill_def ring_contents_def ring_at_def cong: map_cong)

lemma ring_copy_in_fields [simp]:
  "rb_capacity (ring_copy_in spa i src b) = rb_capacity b"
  "rb_dropEpoch (ring_copy_in spa i src b) = rb_dropEpoch b"
  by (simp_all add: ring_copy_in_def)

lemma ring_writeAllOrDrop_fits:
  assumes "spa_ok spa" "ring_inv b" "length src \<le> unat (rb_capacity b) - ring_fill b"
    and "ring_writeAllOrDrop spa src b = (n, b')"
  shows "n = length src \<and> ring_inv b' \<and> ring_contents b' = ring_contents b @ src \<and>
     rb_dropEpoch b' = rb_dropEpoch b \<and> rb_capacity b' = rb_capacity b"
  using assms ring_copy_in_appends [OF assms(1-3) refl]
  by (auto simp: ring_writeAllOrDrop_def spa_okD [OF assms(1)] ring_avail ring_free split: if_splits)

lemma ring_writeAllOrDrop_full:
  assumes "spa_ok spa" "ring_inv b" "length src > unat (rb_capacity b) - ring_fill b"
  shows "ring_writeAllOrDrop spa src b = (0, ring_drop b)"
  using assms by (auto simp: ring_writeAllOrDrop_def spa_okD [OF assms(1)] ring_avail ring_free)

lemma ring_write_prefix:
  assumes "spa_ok spa" "ring_inv b" "ring_write spa src b = (n, b')"
  shows "n = min (length src) (unat (rb_capacity b) - ring_fill b) \<and> ring_inv b' \<and>
     ring_contents b' = ring_contents b @ take n src \<and>
     rb_dropEpoch b' = rb_dropEpoch b + of_bool (n < length src) \<and> rb_capacity b' = rb_capacity b"
proof -
  let ?free = "unat (rb_capacity b) - ring_fill b" and ?n = "min (length src) (unat (rb_capacity b) - ring_fill b)"
  let ?b = "if ?n < length src then ring_drop b else b"
  have inv: "ring_inv ?b" and cont: "ring_contents ?b = ring_contents b" using assms(2) by auto
  have m0: "min x y = 0 \<longleftrightarrow> x = 0 \<or> y = (0 :: nat)" for x y by (auto simp: min_def)
  have step: "ring_write spa src b = (if src = [] then (0, b) else if ?n = 0 then (0, ?b)
      else (?n, ring_copy_in spa (writeindex (rb_ring ?b)) (take ?n src) ?b))"
    using assms(1,2) by (auto simp: ring_write_def spa_okD [OF assms(1)] ring_avail ring_free Let_def m0)
  have "length (take ?n src) \<le> unat (rb_capacity ?b) - ring_fill ?b" by (simp add: min_def)
  note app = ring_copy_in_appends [OF assms(1) inv this refl]
  show ?thesis using assms(2,3) app cont unfolding step by (auto split: if_splits)
qed

lemma ring_read_take:
  assumes "spa_ok spa" "ring_inv b" "ring_read spa n b = (bs, b')"
  shows "bs = take n (ring_contents b) \<and> ring_inv b' \<and> ring_contents b' = drop n (ring_contents b) \<and>
     rb_dropEpoch b' = rb_dropEpoch b \<and> rb_capacity b' = rb_capacity b"
proof (cases "n = 0 \<or> ring_fill b = 0")
  case True
  then have "ring_contents b = [] \<or> n = 0" by (auto simp: ring_contents_def)
  moreover have "ring_read spa n b = ([], b)"
    using True by (auto simp: ring_read_def spa_okD [OF assms(1)] ring_avail [OF assms(2)] Let_def)
  ultimately show ?thesis using assms by auto
next
  case False
  let ?m = "min n (ring_fill b)"
  let ?cap = "unat (rb_capacity b)" and ?r = "readindex (rb_ring b)"
  have cap: "0 < ?cap" "?m \<le> ?cap" "length (rb_data b) = ?cap"
    using ring_capacity_bound [OF assms(2)] ring_fill_bound [OF assms(2)] assms(2)
    by (auto simp: ring_inv_def)
  have bs: "bs = spa_read_data spa (rb_data b) ?cap (unat ?r mod ?cap) ?m"
    and b': "b' = b\<lparr>rb_ring := (rb_ring b)\<lparr>readindex := ?r + of_nat ?m\<rparr>\<rparr>"
    using False assms
    by (auto simp: ring_read_def spa_okD [OF assms(1)] ring_avail ring_offset_mod Let_def min_def
        split: if_splits)
  have "bs = map (ring_at b) [0..<?m]"
    using spa_read [OF assms(1) cap(3), of "unat ?r mod ?cap" ?m] cap
    by (simp add: bs ring_at_def mod_add_left_eq)
  then have "bs = take n (ring_contents b)" by (auto simp: ring_contents_def intro!: nth_equalityI)
  moreover have "ring_contents b' = drop n (ring_contents b)" and "ring_inv b'"
    using advance_read [OF assms(2) _ b'] by (auto simp: min_def)
  ultimately show ?thesis by (simp add: b')
qed

lemma ring_drain_empties:
  assumes "spa_ok spa" "ring_inv b"
  shows "ring_inv (ring_drain spa b) \<and> ring_contents (ring_drain spa b) = [] \<and>
     rb_dropEpoch (ring_drain spa b) = rb_dropEpoch b \<and> rb_capacity (ring_drain spa b) = rb_capacity b"
proof (cases "ring_fill b = 0")
  case True
  then show ?thesis using assms
    by (simp add: ring_drain_def spa_okD [OF assms(1)] ring_avail ring_contents_def)
next
  case False
  then have "ring_drain spa b = b\<lparr>rb_ring := (rb_ring b)\<lparr>readindex := readindex (rb_ring b) + of_nat (ring_fill b)\<rparr>\<rparr>"
    using assms by (simp add: ring_drain_def spa_okD [OF assms(1)] ring_avail)
  with advance_read [OF assms(2) order.refl this] show ?thesis by simp
qed

section \<open>The contract: a bounded queue of bytes\<close>

text \<open>
  What a client of the ring relies on. \<open>put\<close> returns how many bytes it took, a client tells
  losses by \<open>lost\<close>, which counts puts that did not take everything (modulo \<open>2 ^ 32\<close>).
\<close>

datatype fifo_op = Put bytes | PutAll bytes | Take nat | Drain

datatype fifo_event = Queued bytes | Short | Removed bytes

fun queued :: "fifo_event list \<Rightarrow> bytes" where
  "queued [] = []"
| "queued (Queued bs # es) = bs @ queued es"
| "queued (e # es) = queued es"

fun removed :: "fifo_event list \<Rightarrow> bytes" where
  "removed [] = []"
| "removed (Removed bs # es) = bs @ removed es"
| "removed (e # es) = removed es"

fun shorts :: "fifo_event list \<Rightarrow> nat" where
  "shorts [] = 0"
| "shorts (Short # es) = Suc (shorts es)"
| "shorts (e # es) = shorts es"

lemma fifo_events_append [simp]:
  "queued (xs @ ys) = queued xs @ queued ys"
  "removed (xs @ ys) = removed xs @ removed ys"
  "shorts (xs @ ys) = shorts xs + shorts ys"
  by (induction xs rule: queued.induct, simp_all)

locale bounded_fifo =
  fixes valid :: "'q \<Rightarrow> bool"
    and contents :: "'q \<Rightarrow> bytes"
    and room :: "'q \<Rightarrow> nat"
    and put :: "bytes \<Rightarrow> 'q \<Rightarrow> nat \<times> 'q"
    and put_all :: "bytes \<Rightarrow> 'q \<Rightarrow> nat \<times> 'q"
    and take_out :: "nat \<Rightarrow> 'q \<Rightarrow> bytes \<times> 'q"
    and empty_out :: "'q \<Rightarrow> 'q"
    and lost :: "'q \<Rightarrow> u32"
  assumes put: "valid q \<Longrightarrow> put src q = (n, q') \<Longrightarrow>
      n = min (length src) (room q - length (contents q)) \<and> valid q' \<and>
      contents q' = contents q @ take n src \<and> lost q' = lost q + of_bool (n < length src) \<and> room q' = room q"
    and put_all: "valid q \<Longrightarrow> put_all src q = (n, q') \<Longrightarrow>
      n = (if length src \<le> room q - length (contents q) then length src else 0) \<and> valid q' \<and>
      contents q' = contents q @ take n src \<and> lost q' = lost q + of_bool (n < length src) \<and> room q' = room q"
    and take_out: "valid q \<Longrightarrow> take_out n q = (bs, q') \<Longrightarrow>
      bs = take n (contents q) \<and> valid q' \<and> contents q' = drop n (contents q) \<and>
      lost q' = lost q \<and> room q' = room q"
    and empty_out: "valid q \<Longrightarrow> valid (empty_out q) \<and> contents (empty_out q) = [] \<and>
      lost (empty_out q) = lost q \<and> room (empty_out q) = room q"
    and fits: "valid q \<Longrightarrow> length (contents q) \<le> room q"
begin

definition put_events :: "bytes \<Rightarrow> nat \<Rightarrow> fifo_event list" where
  "put_events src n = Queued (take n src) # (if n < length src then [Short] else [])"

fun step :: "fifo_op \<Rightarrow> 'q \<Rightarrow> 'q \<times> fifo_event list" where
  "step (Put src) q = (case put src q of (n, q') \<Rightarrow> (q', put_events src n))"
| "step (PutAll src) q = (case put_all src q of (n, q') \<Rightarrow> (q', put_events src n))"
| "step (Take n) q = (case take_out n q of (bs, q') \<Rightarrow> (q', [Removed bs]))"
| "step Drain q = (empty_out q, [Removed (contents q)])"

lemma step_ok:
  assumes "valid q" "step op q = (q', es)"
  shows "valid q' \<and> contents q @ queued es = removed es @ contents q' \<and>
    lost q' = lost q + of_nat (shorts es) \<and> room q' = room q"
proof (cases op)
  case (Put src) then show ?thesis using assms put [OF assms(1)] by (auto simp: put_events_def split: prod.splits if_splits)
next
  case (PutAll src) then show ?thesis using assms put_all [OF assms(1)] by (auto simp: put_events_def split: prod.splits if_splits)
next
  case (Take n) then show ?thesis using assms take_out [OF assms(1), of n] by (cases "take_out n q") auto
next
  case Drain then show ?thesis using assms empty_out [OF assms(1)] by auto
qed

lemma run_ok:
  assumes "valid q" "run step ops q = (q', es)"
  shows "valid q' \<and> contents q @ queued es = removed es @ contents q' \<and>
    lost q' = lost q + of_nat (shorts es) \<and> room q' = room q \<and> length (contents q') \<le> room q"
  using assms
proof (induction ops arbitrary: q es)
  case Nil then show ?case using fits by simp
next
  case (Cons x xs)
  obtain q1 es1 es2 where s: "step x q = (q1, es1)" and r: "run step xs q1 = (q', es2)" and es: "es = es1 @ es2"
    using Cons.prems(2) by (auto simp: run.simps split: prod.splits)
  from step_ok [OF Cons.prems(1) s] Cons.IH [OF _ r]
  show ?case unfolding es by (simp add: ac_simps) (metis append.assoc)
qed

end

interpretation aring: bounded_fifo "\<lambda>b. spa_ok spa \<and> ring_inv b" ring_contents "\<lambda>b. unat (rb_capacity b)"
    "ring_write spa" "ring_writeAllOrDrop spa" "ring_read spa" "ring_drain spa" rb_dropEpoch for spa
proof (unfold_locales, goal_cases)
  case (1 q src n q') then show ?case using ring_write_prefix [of spa q src n q'] by simp
next
  case (2 q src n q')
  then show ?case
    using ring_writeAllOrDrop_fits [of spa q src n q'] ring_writeAllOrDrop_full [of spa q src]
    by (cases "length src \<le> unat (rb_capacity q) - ring_fill q") (auto simp: not_le)
next
  case (3 q n bs q') then show ?case using ring_read_take [of spa q n bs q'] by simp
next
  case (4 q) then show ?case using ring_drain_empties [of spa q] by simp
next
  case (5 q) then show ?case by (simp add: ring_inv_def)
qed

text \<open>A ring whose indices already wrapped, for evaluation: the plain implementation of the helpers.\<close>

definition plain_spa :: spa_ops where
  "plain_spa = \<lparr>spa_ringbuffer_init = \<lparr>readindex = 0, writeindex = 0\<rparr>,
     spa_get_read_index = (\<lambda>r. (sint (writeindex r - readindex r), readindex r)),
     spa_get_write_index = (\<lambda>r. (sint (writeindex r - readindex r), writeindex r)),
     spa_read_update = (\<lambda>r i. r\<lparr>readindex := i\<rparr>),
     spa_write_update = (\<lambda>r i. r\<lparr>writeindex := i\<rparr>),
     spa_write_data = (\<lambda>buf n off src.
       map (\<lambda>j. let i = (j + n - off) mod n in if i < length src then src ! i else buf ! j) [0..<n]),
     spa_read_data = (\<lambda>buf n off len. map (\<lambda>i. buf ! ((off + i) mod n)) [0..<len])\<rparr>"

lemma spa_ok_plain: "spa_ok plain_spa"
proof -
  have rot: "((off + i) mod n + n - off) mod n = i" if "off < n" "i < n" for off i n :: nat
  proof (cases "off + i < n")
    case True then show ?thesis using that by simp
  next
    case False
    then have "(off + i) mod n = off + i - n" using that by (simp add: mod_if)
    then show ?thesis using that False by simp
  qed
  have upt: "[0..<n] ! ((off + i) mod n) = (off + i) mod n" if "off < n" for off i n :: nat
    using that by (subst nth_upt) simp_all
  show ?thesis by (auto simp: spa_ok_def plain_spa_def Let_def rot upt simp del: nth_upt)
qed

text \<open>The operations of the ring as one step function, with what each accepts and gives out.\<close>

definition ring_put_events :: "bytes \<Rightarrow> nat \<Rightarrow> fifo_event list" where
  "ring_put_events src n = Queued (take n src) # (if n < length src then [Short] else [])"

fun ring_step :: "spa_ops \<Rightarrow> fifo_op \<Rightarrow> audio_ring \<Rightarrow> audio_ring \<times> fifo_event list" where
  "ring_step spa (Put src) b = (case ring_write spa src b of (n, b') \<Rightarrow> (b', ring_put_events src n))"
| "ring_step spa (PutAll src) b = (case ring_writeAllOrDrop spa src b of (n, b') \<Rightarrow> (b', ring_put_events src n))"
| "ring_step spa (Take n) b = (case ring_read spa n b of (bs, b') \<Rightarrow> (b', [Removed bs]))"
| "ring_step spa Drain b = (ring_drain spa b, [Removed (ring_contents b)])"

lemma ring_step_fifo: "ring_step spa = aring.step spa"
proof (intro ext)
  show "ring_step spa op b = aring.step spa op b" for op b
    by (cases op) (simp_all add: aring.put_events_def ring_put_events_def)
qed

text \<open>
  C17: whatever sequence of writes, all-or-nothing writes, reads and drains runs on an audio
  ring, across any number of wrap-arounds of its 32-bit indices, the bytes it accepted are,
  in order, those it gave out followed by those it still holds; it never holds more than its
  capacity, and the drop epoch advances by the number of writes that lost bytes.
\<close>

theorem audio_ring_is_fifo:
  assumes "spa_ok spa" and "ring_inv b"
    and "run (ring_step spa) ops b = (b', es)"
  shows "ring_contents b @ queued es = removed es @ ring_contents b' \<and>
    ring_inv b' \<and> length (ring_contents b') \<le> unat (rb_capacity b) \<and>
    rb_dropEpoch b' = rb_dropEpoch b + of_nat (shorts es)"
  using aring.run_ok [of spa b ops b' es] assms unfolding ring_step_fifo by simp

definition wrapped_ring :: audio_ring where
  "wrapped_ring = \<lparr>rb_capacity = 4, rb_data = [9, 9, 9, 9],
     rb_ring = \<lparr>readindex = 4294967294, writeindex = 4294967294\<rparr>, rb_dropCount = 0, rb_dropEpoch = 0\<rparr>"

lemma wrapped_ring_inv: "ring_inv wrapped_ring"
  by (simp add: ring_inv_def wrapped_ring_def ring_fill_def) (simp add: image_iff, rule bexI [of _ 2], simp_all)

definition wrapped_run :: "audio_ring \<times> fifo_event list" where
  "wrapped_run = run (ring_step plain_spa) [Put [1, 2, 3], Take 2, PutAll [4, 5, 6], PutAll [7], Take 3] wrapped_ring"

lemma wrapped_run_removed: "removed (snd wrapped_run) = [1, 2, 3, 4, 5]"
  by code_simp

theorem audio_ring_is_fifo_witness:
  "ring_contents wrapped_ring @ queued (snd wrapped_run) = [1, 2, 3, 4, 5] @ ring_contents (fst wrapped_run) \<and>
   ring_inv (fst wrapped_run)"
  using audio_ring_is_fifo [OF spa_ok_plain wrapped_ring_inv, of _ "fst wrapped_run" "snd wrapped_run"]
  by (simp add: wrapped_run_removed) (simp add: wrapped_run_def)

end
