(* ===== verification/Mic_Capture.thy ===== *)
theory Mic_Capture
  imports AV_Handlers Audio_Ring Complex_Main
begin

text \<open>
  The microphone path: the channel handler that sends audio to the phone under its transmit
  window (\<open>AVInputChannelHandler.cpp\<close>), the bridge between the capture thread and the owner
  thread (\<open>AVInputCaptureBridge.cpp\<close>), and the operations of \<open>AndroidAutoOrchestrator.cpp\<close>
  that tie the two together.

  The handler calls its capture controller, a function of the application's state \<open>'w\<close>; the
  emitted \<open>sendRequested\<close> signals go to the messenger, which does not call back into these
  components. The capture thread may push audio between any two accesses of the owner thread
  to the ring: \<open>drainOnce\<close> takes the pushes that happen at each of those points.
\<close>

section \<open>The microphone channel\<close>

abbreviation ChannelId_AVInput :: byte where "ChannelId_AVInput \<equiv> 7"
abbreviation AV_MEDIA_WITH_TIMESTAMP :: u16 where "AV_MEDIA_WITH_TIMESTAMP \<equiv> 0"

record mic =
  mi_channelOpen :: bool
  mi_capturing :: bool
  mi_session :: int
  mi_maxUnacked :: int
  mi_unacked :: u32

type_synonym 'w controller = "(bool \<Rightarrow> 'w \<Rightarrow> bool \<times> 'w) option"
type_synonym 'w mic_result = "(mic \<times> 'w) \<times> av_signal list"

definition kMaxTransmitWindow :: int where "kMaxTransmitWindow = 24"

definition mic_new :: mic where
  "mic_new = \<lparr>mi_channelOpen = False, mi_capturing = False, mi_session = 0, mi_maxUnacked = 1, mi_unacked = 0\<rparr>"

definition mic_stopCapture :: "'w controller \<Rightarrow> mic \<times> 'w \<Rightarrow> 'w mic_result" where
  "mic_stopCapture ctl = (\<lambda>(m, w). let m = m\<lparr>mi_unacked := 0\<rparr> in
     if \<not> mi_capturing m then ((m, w), [])
     else ((m\<lparr>mi_capturing := False\<rparr>, case ctl of Some c \<Rightarrow> snd (c False w) | None \<Rightarrow> w), [AvMicCapture False]))"

definition mic_onChannelOpened :: "'w controller \<Rightarrow> mic \<times> 'w \<Rightarrow> 'w mic_result" where
  "mic_onChannelOpened ctl = (\<lambda>(m, w).
     let ((m, w), sigs) = mic_stopCapture ctl (m\<lparr>mi_channelOpen := True\<rparr>, w)
     in ((m\<lparr>mi_session := 0, mi_maxUnacked := 1, mi_unacked := 0\<rparr>, w), sigs))"

definition mic_onChannelClosed :: "'w controller \<Rightarrow> mic \<times> 'w \<Rightarrow> 'w mic_result" where
  "mic_onChannelClosed ctl = (\<lambda>(m, w).
     let ((m, w), sigs) = mic_stopCapture ctl (m\<lparr>mi_channelOpen := False\<rparr>, w)
     in ((m\<lparr>mi_maxUnacked := 1\<rparr>, w), sigs))"

definition mic_handleSetupRequest :: "av_protos \<Rightarrow> bytes \<Rightarrow> av_signal list" where
  "mic_handleSetupRequest p payload = (case parse_SetupRequest p payload of
     None \<Rightarrow> []
   | Some codec \<Rightarrow> (let supported = (codec = codec_AUDIO_PCM p) in
       [AvSend ChannelId_AVInput SETUP_RESPONSE (serialize_av p
         (AVSetupResponse supported 1 (if supported then [0] else [])))]))"

definition mic_sendInputOpenResponse :: "av_protos \<Rightarrow> bool \<Rightarrow> mic \<Rightarrow> av_signal list" where
  "mic_sendInputOpenResponse p success m =
     [AvSend ChannelId_AVInput INPUT_OPEN_RESPONSE (serialize_av p
        (AVInputOpenResponse (mi_session m) (if success then 0 else 1)))]"

definition mic_open :: "av_protos \<Rightarrow> 'w controller \<Rightarrow> int \<Rightarrow> mic \<times> 'w \<Rightarrow> 'w mic_result" where
  "mic_open p ctl requestedWindow s = (
     let ((m, w), sigs) = mic_stopCapture ctl s;
         m = m\<lparr>mi_maxUnacked := max 1 (min kMaxTransmitWindow requestedWindow), mi_unacked := 0\<rparr>;
         (success, w) = (case ctl of Some c \<Rightarrow> c True w | None \<Rightarrow> (False, w));
         m = m\<lparr>mi_capturing := success\<rparr>;
         m = (if success then m else m\<lparr>mi_maxUnacked := 1, mi_unacked := 0\<rparr>)
     in ((m, w), sigs @ mic_sendInputOpenResponse p success m @ (if success then [AvMicCapture True] else [])))"

definition mic_handleInputOpenRequest :: "av_protos \<Rightarrow> 'w controller \<Rightarrow> bytes \<Rightarrow> mic \<times> 'w \<Rightarrow> 'w mic_result" where
  "mic_handleInputOpenRequest p ctl payload s = (
     if \<not> mi_channelOpen (fst s) then (s, [])
     else case parse_InputOpenRequest p payload of
       None \<Rightarrow> (s, [])
     | Some req \<Rightarrow>
         if \<not> ior_open req then
           (let ((m, w), sigs) = mic_stopCapture ctl s; m = m\<lparr>mi_maxUnacked := 1\<rparr>
            in ((m, w), sigs @ mic_sendInputOpenResponse p True m))
         else mic_open p ctl (case ior_maxUnacked req of Some n \<Rightarrow> n | None \<Rightarrow> 1) s)"

definition ack_permits :: "media_ack \<Rightarrow> u32" where
  "ack_permits ack = (if ack_timestamps ack > 0 then of_nat (ack_timestamps ack)
     else case ack_count ack of Some n \<Rightarrow> n | None \<Rightarrow> 0)"

definition mic_windowFull :: "mic \<Rightarrow> bool" where
  "mic_windowFull m \<longleftrightarrow> mi_unacked m \<ge> word_of_int (mi_maxUnacked m)"

definition mic_handleAckIndication :: "av_protos \<Rightarrow> bytes \<Rightarrow> mic \<Rightarrow> mic \<times> av_signal list" where
  "mic_handleAckIndication p payload m = (case parse_MediaAck p payload of
     None \<Rightarrow> (m, [])
   | Some ack \<Rightarrow>
       if \<not> mi_capturing m \<or> ack_sessionId ack \<noteq> mi_session m then (m, [])
       else (let count = ack_permits ack in
         if count = 0 \<or> mi_unacked m = 0 \<or> count > mi_unacked m then (m, [])
         else (let m' = m\<lparr>mi_unacked := mi_unacked m - count\<rparr>
           in (m', if mic_windowFull m \<and> \<not> mic_windowFull m' then [AvWindowAvailable] else []))))"

definition mic_onMessage :: "av_protos \<Rightarrow> 'w controller \<Rightarrow> u16 \<Rightarrow> bytes \<Rightarrow> nat \<Rightarrow> mic \<times> 'w \<Rightarrow> 'w mic_result" where
  "mic_onMessage p ctl mid payload dataOffset s = (
     let data = drop dataOffset payload in
     if mid = SETUP_REQUEST then (s, mic_handleSetupRequest p data)
     else if mid = INPUT_OPEN_REQUEST then mic_handleInputOpenRequest p ctl data s
     else if mid = ACK_INDICATION then
       (let (m, sigs) = mic_handleAckIndication p data (fst s) in ((m, snd s), sigs))
     else (s, [AvUnknown mid data]))"

definition mic_sendMicData :: "bytes \<Rightarrow> u64 \<Rightarrow> mic \<Rightarrow> bool \<times> mic \<times> av_signal list" where
  "mic_sendMicData data timestamp m = (
     if \<not> mi_channelOpen m \<or> \<not> mi_capturing m then (False, m, [])
     else if mic_windowFull m then (False, m, [])
     else (True, m\<lparr>mi_unacked := mi_unacked m + 1\<rparr>,
       [AvSend ChannelId_AVInput AV_MEDIA_WITH_TIMESTAMP (be_bytes 8 (unat timestamp) @ data)]))"

definition mic_abortCapture :: "mic \<Rightarrow> mic \<times> av_signal list" where
  "mic_abortCapture m = (let m = m\<lparr>mi_unacked := 0, mi_maxUnacked := 1\<rparr> in
     if \<not> mi_capturing m then (m, []) else (m\<lparr>mi_capturing := False\<rparr>, [AvMicCapture False]))"

section \<open>Gain\<close>

text \<open>
  A finite \<open>double\<close> is the real number it denotes, \<open>None\<close> stands for infinities and NaN. The
  product of two doubles is the parameter \<open>fmul\<close>, the machine's rounding multiplication.
\<close>

definition normalizedGain :: "real option \<Rightarrow> real" where
  "normalizedGain gain = (case gain of None \<Rightarrow> 1 | Some g \<Rightarrow> max (1 / 2) (min 4 g))"

definition lround :: "real \<Rightarrow> int" where
  "lround x = (if x < 0 then - \<lfloor>- x + 1 / 2\<rfloor> else \<lfloor>x + 1 / 2\<rfloor>)"

definition saturate_s16 :: "int \<Rightarrow> int" where
  "saturate_s16 x = max (- 32768) (min 32767 x)"

definition sample_s16le :: "byte \<Rightarrow> byte \<Rightarrow> int" where
  "sample_s16le lo hi = sint (word_of_int (uint lo + 256 * uint hi) :: 16 word)"

definition bytes_s16le :: "int \<Rightarrow> bytes" where
  "bytes_s16le v = [word_of_int v, word_of_int (v div 256)]"

fun applyGainS16Le :: "(real \<Rightarrow> real \<Rightarrow> real) \<Rightarrow> real option \<Rightarrow> bytes \<Rightarrow> bytes" where
  "applyGainS16Le fmul gain (lo # hi # rest) =
     bytes_s16le (saturate_s16 (lround (fmul (of_int (sample_s16le lo hi)) (normalizedGain gain))))
     @ applyGainS16Le fmul gain rest"
| "applyGainS16Le fmul gain rest = rest"

section \<open>The capture bridge\<close>

definition RingCapacity :: u32 where "RingCapacity = 4096"
definition FrameBytes :: nat where "FrameBytes = 640"

record bridge =
  br_ring :: audio_ring
  br_drainTimer :: bool
  br_sender :: bool
  br_publishedGeneration :: u64
  br_oversizedCallbacks :: u32
  br_ownerGeneration :: u64
  br_gain :: real
  br_active :: bool
  br_waitingForWindow :: bool
  br_observedDropEpoch :: u32
  br_droppedFrames :: u64

definition bridge_new :: "spa_ops \<Rightarrow> bridge" where
  "bridge_new spa = \<lparr>br_ring = ring_new spa RingCapacity, br_drainTimer = False, br_sender = False,
     br_publishedGeneration = 0, br_oversizedCallbacks = 0, br_ownerGeneration = 0, br_gain = 1,
     br_active = False, br_waitingForWindow = False, br_observedDropEpoch = 0, br_droppedFrames = 0\<rparr>"

definition purgeQueuedPcm :: "spa_ops \<Rightarrow> bridge \<Rightarrow> bridge" where
  "purgeQueuedPcm spa b = b\<lparr>br_ring := ring_drain spa (br_ring b)\<rparr>"

definition bridge_stop :: "spa_ops \<Rightarrow> bridge \<Rightarrow> bridge" where
  "bridge_stop spa b = (
     let b = b\<lparr>br_publishedGeneration := 0, br_drainTimer := False, br_active := False,
               br_waitingForWindow := False, br_sender := False\<rparr>;
         b = purgeQueuedPcm spa b;
         b = b\<lparr>br_ring := ring_resetDropCount (br_ring b), br_oversizedCallbacks := 0\<rparr>
     in b\<lparr>br_observedDropEpoch := rb_dropEpoch (br_ring b)\<rparr>)"

definition bridge_start :: "spa_ops \<Rightarrow> real option \<Rightarrow> bool \<Rightarrow> bridge \<Rightarrow> u64 \<times> bridge" where
  "bridge_start spa gain sender b = (
     let b = bridge_stop spa b in
     if \<not> sender then (0, b)
     else let g = br_ownerGeneration b + 1; g = (if g = 0 then g + 1 else g)
       in (g, b\<lparr>br_ownerGeneration := g, br_gain := normalizedGain gain, br_sender := True,
                br_waitingForWindow := False, br_active := True, br_publishedGeneration := g,
                br_drainTimer := True\<rparr>))"

text \<open>A null data pointer is the empty list.\<close>

definition pushPcm :: "spa_ops \<Rightarrow> u64 \<times> bytes \<Rightarrow> bridge \<Rightarrow> bridge" where
  "pushPcm spa = (\<lambda>(generation, data) b.
     if length data < 2 \<or> generation = 0 \<or> br_publishedGeneration b \<noteq> generation then b
     else let evenSize = length data - length data mod 2; pcm = take evenSize data in
       if evenSize > unat RingCapacity then
         (if ring_available spa (br_ring b) \<noteq> 0
          then b\<lparr>br_ring := snd (ring_writeAllOrDrop spa pcm (br_ring b))\<rparr>
          else let newestFrame = drop (evenSize - FrameBytes) pcm;
                   (n, r) = ring_writeAllOrDrop spa newestFrame (br_ring b);
                   b = b\<lparr>br_ring := r\<rparr>
            in if n = FrameBytes then b\<lparr>br_oversizedCallbacks := br_oversizedCallbacks b + 1\<rparr> else b)
       else b\<lparr>br_ring := snd (ring_writeAllOrDrop spa pcm (br_ring b))\<rparr>)"

definition recordOversized :: "bridge \<Rightarrow> bridge" where
  "recordOversized b = b\<lparr>br_oversizedCallbacks := 0,
     br_droppedFrames := br_droppedFrames b + ucast (br_oversizedCallbacks b)\<rparr>"

definition recordOverflowEvents :: "u32 \<Rightarrow> bridge \<Rightarrow> bool \<times> bridge" where
  "recordOverflowEvents currentEpoch b = (
     let events = currentEpoch - br_observedDropEpoch b; b = b\<lparr>br_observedDropEpoch := currentEpoch\<rparr>
     in if events = 0 then (False, b)
        else (True, b\<lparr>br_droppedFrames := br_droppedFrames b + ucast events\<rparr>))"

definition notifyWindowAvailable :: "spa_ops \<Rightarrow> bridge \<Rightarrow> bridge" where
  "notifyWindowAvailable spa b = (
     if \<not> br_active b \<or> \<not> br_waitingForWindow b then b
     else let b = recordOversized b;
              b = snd (recordOverflowEvents (rb_dropEpoch (br_ring b)) b);
              b = purgeQueuedPcm spa b
          in b\<lparr>br_waitingForWindow := False, br_drainTimer := True\<rparr>)"

text \<open>
  Where the capture thread may get in while \<open>drainOnce\<close> runs: between the exchange of the
  oversized count and the first look at the drop epoch, before the fill level is read, before
  the frame is read, before the second look at the epoch, and around the sender.
\<close>

record races =
  at_epoch :: "(u64 \<times> bytes) list"
  at_available :: "(u64 \<times> bytes) list"
  at_read :: "(u64 \<times> bytes) list"
  at_recheck :: "(u64 \<times> bytes) list"
  at_send :: "(u64 \<times> bytes) list"

definition no_races :: races where
  "no_races = \<lparr>at_epoch = [], at_available = [], at_read = [], at_recheck = [], at_send = []\<rparr>"

definition pushes :: "spa_ops \<Rightarrow> (u64 \<times> bytes) list \<Rightarrow> bridge \<Rightarrow> bridge" where
  "pushes spa ps b = fold (pushPcm spa) ps b"

definition drainSend :: "spa_ops \<Rightarrow> (real \<Rightarrow> real \<Rightarrow> real) \<Rightarrow> (bytes \<Rightarrow> 'm \<Rightarrow> bool \<times> 'm) \<Rightarrow> races \<Rightarrow> bytes \<Rightarrow>
    bridge \<times> 'm \<Rightarrow> bridge \<times> 'm" where
  "drainSend spa fmul sender rc frame = (\<lambda>(b, m).
     let (sent, m) = sender (applyGainS16Le fmul (Some (br_gain b)) frame) m;
         b = pushes spa (at_send rc) b
     in if sent then (b, m)
        else (purgeQueuedPcm spa (b\<lparr>br_droppedFrames := br_droppedFrames b + 1, br_waitingForWindow := True,
                br_drainTimer := False\<rparr>), m))"

definition drainFrame :: "spa_ops \<Rightarrow> (real \<Rightarrow> real \<Rightarrow> real) \<Rightarrow> (bytes \<Rightarrow> 'm \<Rightarrow> bool \<times> 'm) \<Rightarrow> races \<Rightarrow> u32 \<Rightarrow>
    bridge \<times> 'm \<Rightarrow> bridge \<times> 'm" where
  "drainFrame spa fmul sender rc overflowBeforeRead = (\<lambda>(b, m).
     let b = pushes spa (at_available rc) b in
     if unat (ring_available spa (br_ring b)) < FrameBytes then (b, m)
     else
       let b = pushes spa (at_read rc) b;
           (frame, r) = ring_read spa FrameBytes (br_ring b);
           b = b\<lparr>br_ring := r\<rparr>
       in if length frame \<noteq> FrameBytes then (b, m)
          else
            let b = pushes spa (at_recheck rc) b;
                overflowAfterRead = rb_dropEpoch (br_ring b)
            in if overflowAfterRead \<noteq> overflowBeforeRead
               then (purgeQueuedPcm spa (snd (recordOverflowEvents overflowAfterRead b)), m)
               else drainSend spa fmul sender rc frame (b, m))"

definition drainOnce :: "spa_ops \<Rightarrow> (real \<Rightarrow> real \<Rightarrow> real) \<Rightarrow> (bytes \<Rightarrow> 'm \<Rightarrow> bool \<times> 'm) \<Rightarrow> races \<Rightarrow>
    bridge \<times> 'm \<Rightarrow> bridge \<times> 'm" where
  "drainOnce spa fmul sender rc = (\<lambda>(b, m).
     if \<not> br_active b \<or> br_waitingForWindow b \<or> \<not> br_sender b then (b, m)
     else
       let b = pushes spa (at_epoch rc) (recordOversized b);
           overflowBeforeRead = rb_dropEpoch (br_ring b);
           (overflowed, b) = recordOverflowEvents overflowBeforeRead b
       in if overflowed then (purgeQueuedPcm spa b, m)
          else drainFrame spa fmul sender rc overflowBeforeRead (b, m))"

section \<open>The application's side\<close>

text \<open>\<open>mw_handle\<close>: \<open>micCaptureHandle_\<close> is not null.\<close>

record mic_world =
  mw_bridge :: bridge
  mw_handle :: bool

definition stopAssistantMicCapture :: "spa_ops \<Rightarrow> mic_world \<Rightarrow> mic_world" where
  "stopAssistantMicCapture spa w = \<lparr>mw_bridge = bridge_stop spa (mw_bridge w), mw_handle = False\<rparr>"

text \<open>\<open>opens\<close>: whether the audio service opens the capture stream.\<close>

definition startAssistantMicCapture :: "spa_ops \<Rightarrow> real option \<Rightarrow> bool \<Rightarrow> mic_world \<Rightarrow> bool \<times> mic_world" where
  "startAssistantMicCapture spa gain opens w = (
     let w = stopAssistantMicCapture spa w;
         (generation, b) = bridge_start spa gain True (mw_bridge w);
         w = w\<lparr>mw_bridge := b\<rparr>
     in if generation = 0 then (False, w)
        else if opens then (True, w\<lparr>mw_handle := True\<rparr>)
        else (False, \<lparr>mw_bridge = bridge_stop spa b, mw_handle = False\<rparr>))"

definition mic_controller :: "spa_ops \<Rightarrow> real option \<Rightarrow> bool \<Rightarrow> mic_world controller" where
  "mic_controller spa gain opens = Some (\<lambda>open w.
     if \<not> open then (True, stopAssistantMicCapture spa w) else startAssistantMicCapture spa gain opens w)"

definition onAssistantMicCaptureError :: "spa_ops \<Rightarrow> u64 \<Rightarrow> mic \<times> mic_world \<Rightarrow> mic_world mic_result" where
  "onAssistantMicCaptureError spa generation = (\<lambda>(m, w).
     if \<not> br_active (mw_bridge w) \<or> br_ownerGeneration (mw_bridge w) \<noteq> generation then ((m, w), [])
     else let w = stopAssistantMicCapture spa w; (m, sigs) = mic_abortCapture m in ((m, w), sigs))"

definition mic_teardown :: "spa_ops \<Rightarrow> mic \<times> mic_world \<Rightarrow> mic_world mic_result" where
  "mic_teardown spa = (\<lambda>(m, w).
     let w = stopAssistantMicCapture spa w; (m, sigs) = mic_abortCapture m in ((m, w), sigs))"

text \<open>
  \<open>sendWindowAvailable\<close> is connected directly to the bridge; the handler emits it last.
\<close>

definition deliver_window :: "spa_ops \<Rightarrow> mic_world mic_result \<Rightarrow> mic_world mic_result" where
  "deliver_window spa = (\<lambda>((m, w), sigs).
     ((m, if AvWindowAvailable \<in> set sigs then w\<lparr>mw_bridge := notifyWindowAvailable spa (mw_bridge w)\<rparr> else w), sigs))"

text \<open>The sender the bridge is given, collecting what the handler emits.\<close>

definition bridge_sender :: "u64 \<Rightarrow> bytes \<Rightarrow> mic \<times> av_signal list \<Rightarrow> bool \<times> mic \<times> av_signal list" where
  "bridge_sender timestampUs pcm = (\<lambda>(m, sigs).
     let (sent, m, more) = mic_sendMicData pcm timestampUs m in (sent, m, sigs @ more))"

datatype mic_op =
    MicChannelOpened
  | MicChannelClosed
  | MicMessage u16 bytes nat "real option" bool
  | MicPush u64 bytes
  | MicDrain races u64
  | MicStreamError u64
  | MicTeardown

fun mic_step :: "av_protos \<Rightarrow> spa_ops \<Rightarrow> (real \<Rightarrow> real \<Rightarrow> real) \<Rightarrow> mic_op \<Rightarrow> mic \<times> mic_world \<Rightarrow> mic_world mic_result" where
  "mic_step p spa fmul MicChannelOpened s = mic_onChannelOpened (mic_controller spa None False) s"
| "mic_step p spa fmul MicChannelClosed s = mic_onChannelClosed (mic_controller spa None False) s"
| "mic_step p spa fmul (MicMessage mid payload off gain opens) s =
     deliver_window spa (mic_onMessage p (mic_controller spa gain opens) mid payload off s)"
| "mic_step p spa fmul (MicPush generation data) s =
     ((fst s, (snd s)\<lparr>mw_bridge := pushPcm spa (generation, data) (mw_bridge (snd s))\<rparr>), [])"
| "mic_step p spa fmul (MicDrain rc now) s =
     (let (b, m, sigs) = drainOnce spa fmul (bridge_sender now) rc (mw_bridge (snd s), fst s, [])
      in ((m, (snd s)\<lparr>mw_bridge := b\<rparr>), sigs))"
| "mic_step p spa fmul (MicStreamError generation) s = onAssistantMicCaptureError spa generation s"
| "mic_step p spa fmul MicTeardown s = mic_teardown spa s"

section \<open>Invariants\<close>

lemma length_applyGainS16Le [simp]: "length (applyGainS16Le fmul gain pcm) = length pcm"
  by (induction fmul gain pcm rule: applyGainS16Le.induct) (simp_all add: bytes_s16le_def)

text \<open>The ring holds whole 16-bit samples.\<close>

definition pcm_ring :: "audio_ring \<Rightarrow> bool" where
  "pcm_ring r \<longleftrightarrow> ring_inv r \<and> unat (rb_capacity r) = unat RingCapacity \<and> even (length (ring_contents r))"

definition bridge_ok :: "bridge \<Rightarrow> bool" where
  "bridge_ok b \<longleftrightarrow> pcm_ring (br_ring b) \<and> br_sender b = br_active b \<and>
     (br_waitingForWindow b \<longrightarrow> br_active b) \<and> br_drainTimer b = (br_active b \<and> \<not> br_waitingForWindow b)"

definition mic_ok :: "mic \<Rightarrow> bool" where
  "mic_ok m \<longleftrightarrow> 1 \<le> mi_maxUnacked m \<and> mi_maxUnacked m \<le> kMaxTransmitWindow \<and>
     uint (mi_unacked m) \<le> mi_maxUnacked m \<and> (mi_capturing m \<longrightarrow> mi_channelOpen m)"

definition capture_ok :: "mic \<times> mic_world \<Rightarrow> bool" where
  "capture_ok = (\<lambda>(m, w). mic_ok m \<and> bridge_ok (mw_bridge w) \<and>
     br_active (mw_bridge w) = mi_capturing m \<and> mw_handle w = mi_capturing m \<and>
     (br_waitingForWindow (mw_bridge w) \<longrightarrow> uint (mi_unacked m) = mi_maxUnacked m))"

lemma pcm_ring_new: "spa_ok spa \<Longrightarrow> pcm_ring (ring_new spa RingCapacity)"
proof -
  assume spa: "spa_ok spa"
  have "unat RingCapacity = 2 ^ 12" by (simp add: RingCapacity_def)
  then have cap: "unat RingCapacity \<in> set (map (\<lambda>k. 2 ^ k) [0..<31])" by (auto intro!: image_eqI [of _ _ 12])
  show ?thesis unfolding pcm_ring_def ring_inv_new(2) [OF spa cap]
    using ring_inv_new(1) [OF spa cap] by (simp add: ring_new_def)
qed

lemma pcm_ring_put:
  assumes "spa_ok spa" "pcm_ring r" "even (length src)"
  shows "pcm_ring (snd (ring_writeAllOrDrop spa src r))"
proof -
  obtain n r' where put: "ring_writeAllOrDrop spa src r = (n, r')" by fastforce
  then show ?thesis using assms aring.put_all [of spa r src n r'] by (auto simp: pcm_ring_def split: if_splits)
qed

lemma pcm_ring_read:
  assumes "spa_ok spa" "pcm_ring r" "ring_read spa FrameBytes r = (frame, r')"
  shows "pcm_ring r'"
  using assms aring.take_out [of spa r FrameBytes frame r'] by (auto simp: pcm_ring_def FrameBytes_def)

lemma pcm_ring_drain: "spa_ok spa \<Longrightarrow> pcm_ring r \<Longrightarrow> pcm_ring (ring_drain spa r)"
  using aring.empty_out [of spa r] by (auto simp: pcm_ring_def)

lemma pcm_ring_resetDropCount [simp]: "pcm_ring (ring_resetDropCount r) = pcm_ring r"
  by (simp add: pcm_ring_def ring_resetDropCount_def ring_inv_def ring_contents_def ring_fill_def)

text \<open>What the capture thread and the bookkeeping leave alone.\<close>

definition same_control :: "bridge \<Rightarrow> bridge \<Rightarrow> bool" where
  "same_control b b' \<longleftrightarrow> br_active b' = br_active b \<and> br_sender b' = br_sender b \<and>
     br_waitingForWindow b' = br_waitingForWindow b \<and> br_drainTimer b' = br_drainTimer b \<and>
     br_gain b' = br_gain b"

lemma same_control_refl [simp]: "same_control b b"
  by (simp add: same_control_def)

lemma same_control_trans: "same_control a b \<Longrightarrow> same_control b c \<Longrightarrow> same_control a c"
  by (simp add: same_control_def)

lemma bridge_ok_same: "same_control b b' \<Longrightarrow> bridge_ok b \<Longrightarrow> pcm_ring (br_ring b') \<Longrightarrow> bridge_ok b'"
  by (simp add: same_control_def bridge_ok_def)

lemma pushPcm_ok:
  assumes "spa_ok spa" "pcm_ring (br_ring b)"
  shows "same_control b (pushPcm spa x b) \<and> pcm_ring (br_ring (pushPcm spa x b))"
proof -
  obtain generation data where x: "x = (generation, data)" by fastforce
  let ?even = "length data - length data mod 2"
  have e: "even ?even" by simp
  have "even (length (take ?even data))" by simp
  from pcm_ring_put [OF assms this]
  have 1: "pcm_ring (snd (ring_writeAllOrDrop spa (take ?even data) (br_ring b)))" .
  have 2: "pcm_ring (snd (ring_writeAllOrDrop spa (drop (?even - FrameBytes) (take ?even data)) (br_ring b)))"
    by (rule pcm_ring_put [OF assms]) (simp add: FrameBytes_def)
  show ?thesis using assms(2) 1 2
    by (auto simp: x pushPcm_def same_control_def Let_def split: prod.splits)
qed

lemma pushes_ok:
  assumes "spa_ok spa" "pcm_ring (br_ring b)"
  shows "same_control b (pushes spa ps b) \<and> pcm_ring (br_ring (pushes spa ps b))"
  using assms(2) unfolding pushes_def
proof (induction ps arbitrary: b)
  case (Cons x xs)
  from pushPcm_ok [OF assms(1) Cons.prems, of x] Cons.IH [of "pushPcm spa x b"]
  show ?case by (auto intro: same_control_trans)
qed simp

lemma bookkeeping_ok:
  "same_control b (recordOversized b) \<and> br_ring (recordOversized b) = br_ring b"
  "same_control b (snd (recordOverflowEvents e b)) \<and> br_ring (snd (recordOverflowEvents e b)) = br_ring b"
  "same_control b (purgeQueuedPcm spa b) \<and> br_ring (purgeQueuedPcm spa b) = ring_drain spa (br_ring b)"
  by (simp_all add: recordOversized_def recordOverflowEvents_def purgeQueuedPcm_def same_control_def Let_def)

lemma bridge_stop_ok:
  assumes "spa_ok spa" "bridge_ok b"
  shows "bridge_ok (bridge_stop spa b) \<and> \<not> br_active (bridge_stop spa b) \<and> \<not> br_waitingForWindow (bridge_stop spa b)"
  using assms by (simp add: bridge_stop_def Let_def bridge_ok_def purgeQueuedPcm_def pcm_ring_drain)

lemma bridge_start_ok:
  assumes "spa_ok spa" "bridge_ok b" "bridge_start spa gain True b = (g, b')"
  shows "g \<noteq> 0 \<and> bridge_ok b' \<and> br_active b' \<and> \<not> br_waitingForWindow b'"
  using assms(3) bridge_stop_ok [OF assms(1,2)]
  by (auto simp: bridge_start_def Let_def bridge_ok_def split: if_splits)

lemma notifyWindowAvailable_ok:
  assumes "spa_ok spa" "bridge_ok b"
  shows "bridge_ok (notifyWindowAvailable spa b) \<and> br_active (notifyWindowAvailable spa b) = br_active b \<and>
     \<not> br_waitingForWindow (notifyWindowAvailable spa b)"
  using assms
  by (auto simp: notifyWindowAvailable_def Let_def bridge_ok_def purgeQueuedPcm_def pcm_ring_drain
      recordOversized_def recordOverflowEvents_def)

text \<open>The handler on its own.\<close>

lemma windowFull_iff: "mic_ok m \<Longrightarrow> mic_windowFull m \<longleftrightarrow> uint (mi_unacked m) = mi_maxUnacked m"
  by (auto simp: mic_windowFull_def mic_ok_def kMaxTransmitWindow_def word_le_def uint_word_of_int)

lemma sendMicData_ok:
  assumes "mic_ok m" "mic_sendMicData data ts m = (sent, m', sigs)"
  shows "mic_ok m' \<and> mi_capturing m' = mi_capturing m \<and>
     (sent \<longrightarrow> mi_channelOpen m \<and> mi_capturing m \<and>
        sigs = [AvSend ChannelId_AVInput AV_MEDIA_WITH_TIMESTAMP (be_bytes 8 (unat ts) @ data)]) \<and>
     (\<not> sent \<longrightarrow> m' = m \<and> sigs = [] \<and> (mi_capturing m \<longrightarrow> uint (mi_unacked m) = mi_maxUnacked m))"
proof -
  have "uint (mi_unacked m + 1) = uint (mi_unacked m) + 1"
    if "\<not> mic_windowFull m" using that assms(1)
    by (simp add: windowFull_iff mic_ok_def kMaxTransmitWindow_def uint_word_ariths)
  then show ?thesis using assms windowFull_iff [OF assms(1)]
    by (auto simp: mic_sendMicData_def mic_ok_def split: if_splits)
qed

lemma ack_ok:
  assumes "mic_ok m" "mic_handleAckIndication p payload m = (m', sigs)"
  shows "mic_ok m' \<and> mi_capturing m' = mi_capturing m \<and> mi_maxUnacked m' = mi_maxUnacked m \<and>
     set sigs \<subseteq> {AvWindowAvailable} \<and>
     (AvWindowAvailable \<in> set sigs \<or> uint (mi_unacked m) = mi_maxUnacked m \<longrightarrow>
        AvWindowAvailable \<in> set sigs \<or> m' = m)"
proof -
  have le: "uint (mi_unacked m - c) \<le> uint (mi_unacked m) \<and> (c \<noteq> 0 \<longrightarrow> mi_unacked m - c \<noteq> mi_unacked m)"
    if "c \<le> mi_unacked m" for c
  proof -
    have "uint (mi_unacked m - c) = uint (mi_unacked m) - uint c"
      using that by (simp only: uint_minus_simple_alt)
    then show ?thesis using uint_ge_0 [of c] by simp
  qed
  show ?thesis
  proof (cases "m' = m")
    case True
    then show ?thesis using assms by (auto simp: mic_handleAckIndication_def Let_def split: option.splits if_splits)
  next
    case False
    then obtain c where c: "c \<noteq> 0" "c \<le> mi_unacked m" and m': "m' = m\<lparr>mi_unacked := mi_unacked m - c\<rparr>"
      and sigs: "sigs = (if mic_windowFull m \<and> \<not> mic_windowFull m' then [AvWindowAvailable] else [])"
      using assms(2) by (auto simp: mic_handleAckIndication_def Let_def not_less split: option.splits if_splits)
    have ok: "mic_ok m'" using assms(1) le [OF c(2)] by (auto simp: m' mic_ok_def)
    moreover have "uint (mi_unacked m') \<noteq> uint (mi_unacked m)" using c(1) by (simp add: m' flip: word_uint_eq_iff)
    ultimately show ?thesis using windowFull_iff [OF assms(1)] windowFull_iff [OF ok]
      by (auto simp: sigs m' split: if_splits)
  qed
qed

text \<open>Whole-system steps. The audio a drain sends is one frame, stamped and of exact size.\<close>

definition mic_frame :: "av_signal \<Rightarrow> bool" where
  "mic_frame s \<longleftrightarrow> (\<exists>ts pcm. length pcm = FrameBytes \<and>
     s = AvSend ChannelId_AVInput AV_MEDIA_WITH_TIMESTAMP (be_bytes 8 (unat (ts :: u64)) @ pcm))"

definition drain_ok :: "bridge \<times> mic \<times> av_signal list \<Rightarrow> bool" where
  "drain_ok = (\<lambda>(b, m, sigs). mic_ok m \<and> bridge_ok b \<and> br_active b = mi_capturing m \<and>
     (br_waitingForWindow b \<longrightarrow> uint (mi_unacked m) = mi_maxUnacked m) \<and> list_all mic_frame sigs)"

lemma drain_ok_same:
  "drain_ok (b, ms) \<Longrightarrow> same_control b b' \<Longrightarrow> pcm_ring (br_ring b') \<Longrightarrow> drain_ok (b', ms)"
  using bridge_ok_same [of b b'] by (auto simp: drain_ok_def same_control_def)

lemma drain_pcm: "drain_ok (b, ms) \<Longrightarrow> pcm_ring (br_ring b)"
  by (auto simp: drain_ok_def bridge_ok_def)

lemma drain_ok_pushes: "spa_ok spa \<Longrightarrow> drain_ok (b, ms) \<Longrightarrow> drain_ok (pushes spa ps b, ms)"
  using drain_ok_same pushes_ok drain_pcm by blast

lemma drain_ok_purge: "spa_ok spa \<Longrightarrow> drain_ok (b, ms) \<Longrightarrow> drain_ok (purgeQueuedPcm spa b, ms)"
  using drain_ok_same [of b ms "purgeQueuedPcm spa b"] bookkeeping_ok(3) [of b spa] drain_pcm [of b ms] pcm_ring_drain
  by simp

lemma drain_ok_overflow: "drain_ok (b, ms) \<Longrightarrow> drain_ok (snd (recordOverflowEvents e b), ms)"
  using drain_ok_same [of b ms] bookkeeping_ok(2) [of b e] drain_pcm [of b ms] by simp

lemma drain_ok_oversized: "drain_ok (b, ms) \<Longrightarrow> drain_ok (recordOversized b, ms)"
  using drain_ok_same [of b ms] bookkeeping_ok(1) [of b] drain_pcm [of b ms] by simp

lemma drainSend_ok:
  assumes spa: "spa_ok spa" and ok: "drain_ok (b, m, sigs)" and act: "br_active b" "\<not> br_waitingForWindow b"
    and len: "length frame = FrameBytes"
  shows "drain_ok (drainSend spa fmul (bridge_sender now) rc frame (b, m, sigs))"
proof -
  let ?pcm = "applyGainS16Le fmul (Some (br_gain b)) frame"
  obtain sent m' more where send: "mic_sendMicData ?pcm now m = (sent, m', more)" using prod_cases3 by blast
  have mok: "mic_ok m" "mi_capturing m" using ok act by (simp_all add: drain_ok_def)
  note s = sendMicData_ok [OF mok(1) send]
  let ?b = "pushes spa (at_send rc) b"
  have b: "same_control b ?b" "pcm_ring (br_ring ?b)" using pushes_ok [OF spa drain_pcm [OF ok]] by auto
  show ?thesis
  proof (cases sent)
    case True
    have "mic_frame (AvSend ChannelId_AVInput AV_MEDIA_WITH_TIMESTAMP (be_bytes 8 (unat now) @ ?pcm))"
      unfolding mic_frame_def using len by (intro exI [of _ now] exI [of _ ?pcm]) simp
    then have "drain_ok (b, m', sigs @ more)" using s True ok act by (simp add: drain_ok_def)
    from drain_ok_same [OF this b] show ?thesis
      by (simp add: drainSend_def bridge_sender_def send True Let_def)
  next
    case False
    then have full: "uint (mi_unacked m) = mi_maxUnacked m" and id: "m' = m" "more = []" using s mok by auto
    have "drain_ok (?b\<lparr>br_droppedFrames := br_droppedFrames ?b + 1, br_waitingForWindow := True, br_drainTimer := False\<rparr>, m, sigs)"
      using drain_ok_same [OF ok b] full act b by (auto simp: drain_ok_def bridge_ok_def same_control_def)
    from drain_ok_purge [OF spa this] show ?thesis
      by (simp add: drainSend_def bridge_sender_def send False id Let_def)
  qed
qed

lemma drainFrame_ok:
  assumes spa: "spa_ok spa" and ok: "drain_ok (b, m, sigs)" and act: "br_active b" "\<not> br_waitingForWindow b"
  shows "drain_ok (drainFrame spa fmul (bridge_sender now) rc e (b, m, sigs))"
proof -
  let ?b1 = "pushes spa (at_available rc) b"
  let ?b2 = "pushes spa (at_read rc) ?b1"
  obtain frame r where rd: "ring_read spa FrameBytes (br_ring ?b2) = (frame, r)" by fastforce
  let ?b3 = "?b2\<lparr>br_ring := r\<rparr>"
  let ?b4 = "pushes spa (at_recheck rc) ?b3"
  have ok1: "drain_ok (?b1, m, sigs)" and ok2: "drain_ok (?b2, m, sigs)"
    by (intro drain_ok_pushes spa ok)+
  have c2: "same_control b ?b2"
    using pushes_ok [OF spa drain_pcm [OF ok]] pushes_ok [OF spa drain_pcm [OF ok1]] same_control_trans by blast
  have c3: "same_control ?b2 ?b3" by (simp add: same_control_def)
  have ok3: "drain_ok (?b3, m, sigs)"
    by (rule drain_ok_same [OF ok2 c3]) (simp add: pcm_ring_read [OF spa drain_pcm [OF ok2] rd])
  have ok4: "drain_ok (?b4, m, sigs)" by (rule drain_ok_pushes [OF spa ok3])
  have c4: "same_control b ?b4"
    using pushes_ok [OF spa drain_pcm [OF ok3]] c2 c3 same_control_trans by blast
  then have act4: "br_active ?b4" "\<not> br_waitingForWindow ?b4" using act by (simp_all add: same_control_def)
  show ?thesis
    using ok1 ok3 drain_ok_purge [OF spa drain_ok_overflow [OF ok4]] drainSend_ok [OF spa ok4 act4]
    by (simp add: drainFrame_def Let_def rd)
qed

lemma drainSend_capturing:
  "drainSend spa fmul (bridge_sender now) rc frame (b, m, sigs) = (b', m', sigs') \<Longrightarrow> mi_capturing m' = mi_capturing m"
  by (auto simp: drainSend_def bridge_sender_def mic_sendMicData_def Let_def split: if_splits)

lemma drainOnce_capturing:
  assumes "drainOnce spa fmul (bridge_sender now) rc (b, m, sigs) = (b', m', sigs')"
  shows "mi_capturing m' = mi_capturing m \<and> (\<not> br_active b \<longrightarrow> sigs' = sigs)"
  using assms
  by (auto simp: drainOnce_def drainFrame_def Let_def split: if_splits prod.splits dest: drainSend_capturing)

lemma drainOnce_ok:
  assumes spa: "spa_ok spa" and ok: "drain_ok (b, m, sigs)"
  shows "drain_ok (drainOnce spa fmul (bridge_sender now) rc (b, m, sigs))"
proof (cases "\<not> br_active b \<or> br_waitingForWindow b \<or> \<not> br_sender b")
  case True
  then show ?thesis using ok by (auto simp: drainOnce_def)
next
  case False
  let ?b1 = "pushes spa (at_epoch rc) (recordOversized b)"
  let ?e = "rb_dropEpoch (br_ring ?b1)"
  obtain f b2 where rec: "recordOverflowEvents ?e ?b1 = (f, b2)" by fastforce
  have ok1: "drain_ok (?b1, m, sigs)" by (intro drain_ok_pushes drain_ok_oversized spa ok)
  have ok2: "drain_ok (b2, m, sigs)" using drain_ok_overflow [OF ok1, of ?e] by (simp add: rec)
  have "same_control b b2"
    using bookkeeping_ok(1) [of b] bookkeeping_ok(2) [of ?b1 ?e]
      pushes_ok [OF spa drain_pcm [OF drain_ok_oversized [OF ok]], of "at_epoch rc"] same_control_trans
    by (metis rec snd_conv)
  then have "br_active b2" "\<not> br_waitingForWindow b2" using False by (simp_all add: same_control_def)
  then show ?thesis using False drain_ok_purge [OF spa ok2] drainFrame_ok [OF spa ok2]
    by (simp add: drainOnce_def Let_def rec)
qed

text \<open>The application's controller keeps the bridge and the handler in step.\<close>

definition stopped :: "mic_world \<Rightarrow> bool" where
  "stopped w \<longleftrightarrow> bridge_ok (mw_bridge w) \<and> \<not> br_active (mw_bridge w) \<and> \<not> mw_handle w"

lemma stopped_not_waiting: "stopped w \<Longrightarrow> \<not> br_waitingForWindow (mw_bridge w)"
  by (auto simp: stopped_def bridge_ok_def)

lemma stopAssistant_ok: "spa_ok spa \<Longrightarrow> bridge_ok (mw_bridge w) \<Longrightarrow> stopped (stopAssistantMicCapture spa w)"
  using bridge_stop_ok [of spa "mw_bridge w"] by (simp add: stopAssistantMicCapture_def stopped_def)

lemma startAssistant_ok:
  assumes "spa_ok spa" "bridge_ok (mw_bridge w)" "startAssistantMicCapture spa gain opens w = (success, w')"
  shows "if success then bridge_ok (mw_bridge w') \<and> br_active (mw_bridge w') \<and> mw_handle w' \<and>
     \<not> br_waitingForWindow (mw_bridge w') else stopped w'"
proof -
  let ?w = "stopAssistantMicCapture spa w"
  have st: "bridge_ok (mw_bridge ?w)" using stopAssistant_ok [OF assms(1,2)] by (simp add: stopped_def)
  obtain g b where start: "bridge_start spa gain True (mw_bridge ?w) = (g, b)" by fastforce
  note s = bridge_start_ok [OF assms(1) st start]
  show ?thesis using assms(3) s bridge_stop_ok [OF assms(1), of b]
    by (auto simp: startAssistantMicCapture_def start Let_def stopped_def split: if_splits)
qed

lemma mic_stopCapture_ok:
  assumes "spa_ok spa" "capture_ok (m, w)" "mic_stopCapture (mic_controller spa gain opens) (m, w) = ((m', w'), sigs)"
  shows "stopped w' \<and> mic_ok m' \<and> m' = m\<lparr>mi_unacked := 0, mi_capturing := False\<rparr> \<and> set sigs \<subseteq> {AvMicCapture False}"
proof (cases "mi_capturing m")
  case True
  then show ?thesis using assms(2,3) stopAssistant_ok [OF assms(1), of w]
    by (auto simp: mic_stopCapture_def mic_controller_def capture_ok_def mic_ok_def)
next
  case False
  then have "m' = m\<lparr>mi_unacked := 0\<rparr>" "w' = w" "sigs = []"
    using assms(3) by (auto simp: mic_stopCapture_def)
  with False assms(2) show ?thesis by (cases m) (auto simp: capture_ok_def stopped_def mic_ok_def)
qed

lemma capture_ok_stopped: "stopped w \<Longrightarrow> mic_ok m \<Longrightarrow> \<not> mi_capturing m \<Longrightarrow> capture_ok (m, w)"
  using stopped_not_waiting [of w] by (auto simp: capture_ok_def stopped_def)

lemma mic_abort_ok:
  assumes "mic_ok m" "mic_abortCapture m = (m', sigs)"
  shows "mic_ok m' \<and> \<not> mi_capturing m' \<and> set sigs \<subseteq> {AvMicCapture False}"
  using assms by (auto simp: mic_abortCapture_def Let_def mic_ok_def kMaxTransmitWindow_def split: if_splits)

definition no_media :: "av_signal list \<Rightarrow> bool" where
  "no_media sigs \<longleftrightarrow> (\<forall>payload. AvSend ChannelId_AVInput AV_MEDIA_WITH_TIMESTAMP payload \<notin> set sigs)"

lemma mic_lifecycle_ok:
  assumes "spa_ok spa" "capture_ok s"
  shows "capture_ok (fst (mic_onChannelOpened (mic_controller spa gain opens) s))"
    and "capture_ok (fst (mic_onChannelClosed (mic_controller spa gain opens) s))"
    and "no_media (snd (mic_onChannelOpened (mic_controller spa gain opens) s))"
    and "no_media (snd (mic_onChannelClosed (mic_controller spa gain opens) s))"
proof -
  obtain m w where s: "s = (m, w)" by fastforce
  let ?c = "mic_controller spa gain opens"
  have open_ok: "mic_ok (m\<lparr>mi_channelOpen := True\<rparr>)" using assms(2) by (simp add: s capture_ok_def mic_ok_def)
  obtain m1 w1 e1 where 1: "mic_stopCapture ?c (m, w) = ((m1, w1), e1)" using prod_cases3 by (metis surj_pair)
  note st = mic_stopCapture_ok [OF assms(1) assms(2) [unfolded s] 1]
  have flag: "mic_stopCapture ?c (m\<lparr>mi_channelOpen := x\<rparr>, w) = ((m1\<lparr>mi_channelOpen := x\<rparr>, w1), e1)" for x
    using 1 by (auto simp: mic_stopCapture_def Let_def split: if_splits)
  have nc: "\<not> mi_capturing m1" using st by simp
  have e: "no_media e1" using st by (auto simp: no_media_def)
  have ok: "mic_ok (m1\<lparr>mi_channelOpen := True, mi_session := 0, mi_maxUnacked := 1, mi_unacked := 0\<rparr>)"
      "mic_ok (m1\<lparr>mi_channelOpen := False, mi_maxUnacked := 1\<rparr>)"
    using st by (auto simp: mic_ok_def kMaxTransmitWindow_def)
  show "capture_ok (fst (mic_onChannelOpened ?c s))" "no_media (snd (mic_onChannelOpened ?c s))"
    using capture_ok_stopped [OF _ ok(1)] st e nc by (simp_all add: mic_onChannelOpened_def s flag Let_def)
  show "capture_ok (fst (mic_onChannelClosed ?c s))" "no_media (snd (mic_onChannelClosed ?c s))"
    using capture_ok_stopped [OF _ ok(2)] st e nc by (simp_all add: mic_onChannelClosed_def s flag Let_def)
qed

lemma mic_open_ok:
  assumes "spa_ok spa" "capture_ok (m, w)" "mi_channelOpen m"
  shows "capture_ok (fst (mic_open p (mic_controller spa gain opens) n (m, w))) \<and>
    no_media (snd (mic_open p (mic_controller spa gain opens) n (m, w))) \<and>
    AvWindowAvailable \<notin> set (snd (mic_open p (mic_controller spa gain opens) n (m, w)))"
proof -
  let ?c = "mic_controller spa gain opens"
  obtain m1 w1 e1 where 1: "mic_stopCapture ?c (m, w) = ((m1, w1), e1)" by (metis surj_pair)
  note st = mic_stopCapture_ok [OF assms(1,2) 1]
  obtain success w2 where 2: "startAssistantMicCapture spa gain opens w1 = (success, w2)" by fastforce
  have w1: "bridge_ok (mw_bridge w1)" using st by (simp add: stopped_def)
  note sa = startAssistant_ok [OF assms(1) w1 2]
  have ctl: "(case ?c of Some c \<Rightarrow> c True w1 | None \<Rightarrow> (False, w1)) = (success, w2)"
    by (simp add: mic_controller_def 2)
  have e: "no_media (e1 @ mic_sendInputOpenResponse p x m' @ [AvMicCapture True])"
    "no_media (e1 @ mic_sendInputOpenResponse p x m')"
    "AvWindowAvailable \<notin> set e1" "AvWindowAvailable \<notin> set (mic_sendInputOpenResponse p x m')" for x m'
    using st by (auto simp: no_media_def mic_sendInputOpenResponse_def)
  have mo: "mi_channelOpen m1" using st assms(3) by simp
  show ?thesis
  proof (cases success)
    case True
    have "capture_ok (m1\<lparr>mi_maxUnacked := max 1 (min kMaxTransmitWindow n), mi_unacked := 0, mi_capturing := True\<rparr>, w2)"
      using sa True mo by (auto simp: capture_ok_def mic_ok_def kMaxTransmitWindow_def)
    then show ?thesis using True e by (simp add: mic_open_def 1 ctl Let_def)
  next
    case False
    have "capture_ok (m1\<lparr>mi_capturing := False, mi_maxUnacked := 1, mi_unacked := 0\<rparr>, w2)"
      using sa False by (intro capture_ok_stopped) (auto simp: mic_ok_def kMaxTransmitWindow_def)
    then show ?thesis using False e by (simp add: mic_open_def 1 ctl Let_def)
  qed
qed

lemma mic_openRequest_ok:
  assumes "spa_ok spa" "capture_ok s"
  shows "capture_ok (fst (mic_handleInputOpenRequest p (mic_controller spa gain opens) payload s)) \<and>
    no_media (snd (mic_handleInputOpenRequest p (mic_controller spa gain opens) payload s)) \<and>
    AvWindowAvailable \<notin> set (snd (mic_handleInputOpenRequest p (mic_controller spa gain opens) payload s))"
proof -
  let ?c = "mic_controller spa gain opens"
  obtain m w where s: "s = (m, w)" by fastforce
  obtain m1 w1 e1 where 1: "mic_stopCapture ?c (m, w) = ((m1, w1), e1)" by (metis surj_pair)
  note st = mic_stopCapture_ok [OF assms(1) assms(2) [unfolded s] 1]
  have "capture_ok (m1\<lparr>mi_maxUnacked := 1\<rparr>, w1)"
    using st by (intro capture_ok_stopped) (auto simp: mic_ok_def kMaxTransmitWindow_def)
  moreover have "no_media (e1 @ mic_sendInputOpenResponse p x m') \<and>
      AvWindowAvailable \<notin> set (e1 @ mic_sendInputOpenResponse p x m')" for x m'
    using st by (auto simp: no_media_def mic_sendInputOpenResponse_def)
  ultimately show ?thesis
    using assms mic_open_ok [OF assms(1) assms(2) [unfolded s]]
    by (simp add: mic_handleInputOpenRequest_def s 1 Let_def no_media_def split: option.splits)
qed

lemma mic_message_ok:
  assumes spa: "spa_ok spa" and ok: "capture_ok s"
  shows "capture_ok (fst (deliver_window spa (mic_onMessage p (mic_controller spa gain opens) mid payload off s))) \<and>
    no_media (snd (deliver_window spa (mic_onMessage p (mic_controller spa gain opens) mid payload off s)))"
proof -
  let ?c = "mic_controller spa gain opens" and ?d = "drop off payload"
  obtain m w where s: "s = (m, w)" by fastforce
  have stp: "AvWindowAvailable \<notin> set (mic_handleSetupRequest p ?d)" "no_media (mic_handleSetupRequest p ?d)"
    by (auto simp: mic_handleSetupRequest_def no_media_def Let_def split: option.splits)
  obtain m' sigs where ack: "mic_handleAckIndication p ?d m = (m', sigs)" by fastforce
  have parts: "mic_ok m" "bridge_ok (mw_bridge w)" "br_active (mw_bridge w) = mi_capturing m" "mw_handle w = mi_capturing m"
    "br_waitingForWindow (mw_bridge w) \<Longrightarrow> uint (mi_unacked m) = mi_maxUnacked m"
    using ok by (auto simp: s capture_ok_def)
  note a = ack_ok [OF parts(1) ack]
  note n = notifyWindowAvailable_ok [OF spa parts(2)]
  have acked: "capture_ok (fst (deliver_window spa ((m', w), sigs)))" "no_media sigs"
    using a n parts by (auto simp: deliver_window_def capture_ok_def no_media_def)
  obtain mw es where req: "mic_handleInputOpenRequest p ?c ?d s = (mw, es)" by fastforce
  note r = mic_openRequest_ok [OF spa ok, of p gain opens ?d, unfolded req]
  have "capture_ok (fst (deliver_window spa (mw, es))) \<and> no_media (snd (deliver_window spa (mw, es)))"
    using r by (cases mw) (auto simp: deliver_window_def)
  then show ?thesis using stp ok acked ack req
    by (auto simp: mic_onMessage_def Let_def deliver_window_def s no_media_def split: prod.splits)
qed

lemma mic_step_ok:
  assumes spa: "spa_ok spa" and ok: "capture_ok s"
  shows "capture_ok (fst (mic_step p spa fmul op s)) \<and>
    (\<forall>payload. AvSend ChannelId_AVInput AV_MEDIA_WITH_TIMESTAMP payload \<in> set (snd (mic_step p spa fmul op s)) \<longrightarrow>
       mi_channelOpen (fst s) \<and> mi_capturing (fst s) \<and> length payload = 8 + FrameBytes)"
proof (cases op)
  case (MicMessage mid payload off gain opens)
  then show ?thesis using mic_message_ok [OF spa ok] by (simp add: no_media_def)
next
  case (MicPush generation data)
  obtain m w where s: "s = (m, w)" by fastforce
  have b: "bridge_ok (mw_bridge w)" using ok by (simp add: s capture_ok_def)
  then have "pcm_ring (br_ring (mw_bridge w))" by (simp add: bridge_ok_def)
  note push = pushPcm_ok [OF spa this, of "(generation, data)"]
  then show ?thesis using ok bridge_ok_same [OF _ b] MicPush
    by (auto simp: s capture_ok_def same_control_def)
next
  case (MicDrain rc now)
  obtain m w where s: "s = (m, w)" by fastforce
  have dr: "drain_ok (mw_bridge w, m, [])" using ok by (auto simp: s capture_ok_def drain_ok_def)
  obtain b m' sigs where r: "drainOnce spa fmul (bridge_sender now) rc (mw_bridge w, m, []) = (b, m', sigs)"
    using prod_cases3 by blast
  have d: "drain_ok (b, m', sigs)" using drainOnce_ok [OF spa dr, of fmul now rc] by (simp add: r)
  have cap: "mi_capturing m' = mi_capturing m" "\<not> mi_capturing m \<Longrightarrow> sigs = []"
    using drainOnce_capturing [OF r] dr by (auto simp: drain_ok_def)
  have "mi_capturing m \<longrightarrow> mi_channelOpen m" using ok by (simp add: s capture_ok_def mic_ok_def)
  moreover have "length payload = 8 + FrameBytes"
    if "AvSend ChannelId_AVInput AV_MEDIA_WITH_TIMESTAMP payload \<in> set sigs" for payload
    using d that by (auto simp: drain_ok_def mic_frame_def list_all_iff)
  ultimately show ?thesis using d cap ok MicDrain by (auto simp: s r capture_ok_def drain_ok_def)
next
  case (MicStreamError generation)
  obtain m w where s: "s = (m, w)" by fastforce
  obtain m' sigs where a: "mic_abortCapture m = (m', sigs)" by fastforce
  have p: "mic_ok m" "bridge_ok (mw_bridge w)" using ok by (auto simp: s capture_ok_def)
  show ?thesis
    using mic_abort_ok [OF p(1) a] capture_ok_stopped [OF stopAssistant_ok [OF spa p(2)], of m'] ok MicStreamError
    by (auto simp: onAssistantMicCaptureError_def s a Let_def)
next
  case MicTeardown
  obtain m w where s: "s = (m, w)" by fastforce
  obtain m' sigs where a: "mic_abortCapture m = (m', sigs)" by fastforce
  have p: "mic_ok m" "bridge_ok (mw_bridge w)" using ok by (auto simp: s capture_ok_def)
  show ?thesis
    using mic_abort_ok [OF p(1) a] capture_ok_stopped [OF stopAssistant_ok [OF spa p(2)], of m'] MicTeardown
    by (auto simp: mic_teardown_def s a Let_def)
qed (use mic_lifecycle_ok [OF spa ok] in \<open>simp_all add: no_media_def\<close>)

lemma capture_ok_new:
  assumes "spa_ok spa"
  shows "capture_ok (mic_new, \<lparr>mw_bridge = bridge_new spa, mw_handle = False\<rparr>)"
  using pcm_ring_new [OF assms]
  by (simp add: capture_ok_def mic_ok_def mic_new_def bridge_ok_def bridge_new_def kMaxTransmitWindow_def)

text \<open>
  C18: whatever the phone, the audio service and the capture thread do, and however captures
  interleave with the drain, at most \<open>maxUnacked\<close> frames, between 1 and 24, are unacknowledged;
  the bridge is active exactly while the handler captures, which it does only on an open
  channel; and no wake-up is lost: while a capture runs, the drain timer runs or the window is
  full, so that the acknowledgement that makes room restarts the drain.
\<close>

theorem mic_capture_invariant:
  assumes "spa_ok spa"
    and "fst (run (mic_step p spa fmul) ops (mic_new, \<lparr>mw_bridge = bridge_new spa, mw_handle = False\<rparr>)) = (m, w)"
  shows "1 \<le> mi_maxUnacked m \<and> mi_maxUnacked m \<le> 24 \<and> uint (mi_unacked m) \<le> mi_maxUnacked m \<and>
    br_active (mw_bridge w) = mi_capturing m \<and> mw_handle w = mi_capturing m \<and>
    (mi_capturing m \<longrightarrow> mi_channelOpen m) \<and>
    (mi_capturing m \<longrightarrow> br_drainTimer (mw_bridge w) \<or> uint (mi_unacked m) = mi_maxUnacked m)"
proof -
  have "capture_ok (fst (run (mic_step p spa fmul) ops (mic_new, \<lparr>mw_bridge = bridge_new spa, mw_handle = False\<rparr>)))"
    using capture_ok_new [OF assms(1)] by (rule run_invariant) (simp add: mic_step_ok [OF assms(1)])
  then show ?thesis
    by (auto simp: assms(2) capture_ok_def mic_ok_def bridge_ok_def kMaxTransmitWindow_def)
qed

text \<open>A phone that opens the microphone with a window of two, then a full capture of two frames.\<close>

definition demo_protos :: av_protos where
  "demo_protos = \<lparr>parse_SetupRequest = (\<lambda>_. None), parse_StartIndication = (\<lambda>_. None),
     parse_MediaOptions = (\<lambda>_. None), parse_MediaAck = (\<lambda>_. Some \<lparr>ack_sessionId = 0, ack_timestamps = 0, ack_count = Some 1\<rparr>),
     parse_InputOpenRequest = (\<lambda>_. Some \<lparr>ior_open = True, ior_maxUnacked = Some 2\<rparr>),
     parse_VideoFocusRequest = (\<lambda>_. None), parse_VideoFocusIndication = (\<lambda>_. None),
     parse_UiConfigRequest = (\<lambda>_. None), codec_AUDIO_PCM = 1, serialize_av = (\<lambda>_. [])\<rparr>"

definition demo_mic_ops :: "mic_op list" where
  "demo_mic_ops = [MicChannelOpened, MicMessage INPUT_OPEN_REQUEST [] 0 None True,
     MicPush 1 (replicate 1280 1), MicDrain no_races 7, MicDrain no_races 8]"

definition demo_mic_run :: "(mic \<times> mic_world) \<times> av_signal list" where
  "demo_mic_run = run (mic_step demo_protos plain_spa (*)) demo_mic_ops
     (mic_new, \<lparr>mw_bridge = bridge_new plain_spa, mw_handle = False\<rparr>)"

theorem mic_capture_invariant_witness:
  "uint (mi_unacked (fst (fst demo_mic_run))) \<le> mi_maxUnacked (fst (fst demo_mic_run)) \<and>
   br_active (mw_bridge (snd (fst demo_mic_run))) = mi_capturing (fst (fst demo_mic_run))"
  using mic_capture_invariant [OF spa_ok_plain, of demo_protos "(*)" demo_mic_ops "fst (fst demo_mic_run)" "snd (fst demo_mic_run)"]
  by (simp add: demo_mic_run_def)


section \<open>Progress of the drain\<close>

lemma drain_sends:
  assumes spa: "spa_ok spa" and ok: "capture_ok (m, w)" and b: "b = mw_bridge w"
    and cap: "br_drainTimer b" and epoch: "rb_dropEpoch (br_ring b) = br_observedDropEpoch b"
    and queue: "FrameBytes \<le> length (ring_contents (br_ring b))"
    and window: "uint (mi_unacked m) < mi_maxUnacked m"
    and st: "mic_step p spa fmul (MicDrain no_races now) (m, w) = ((m', w'), sigs)"
  shows "sigs = [AvSend ChannelId_AVInput AV_MEDIA_WITH_TIMESTAMP (be_bytes 8 (unat now) @
           applyGainS16Le fmul (Some (br_gain b)) (take FrameBytes (ring_contents (br_ring b))))] \<and>
     mi_unacked m' = mi_unacked m + 1 \<and>
     ring_contents (br_ring (mw_bridge w')) = drop FrameBytes (ring_contents (br_ring b)) \<and>
     br_drainTimer (mw_bridge w')"
proof -
  have p: "mic_ok m" "br_active b" "br_sender b" "\<not> br_waitingForWindow b" "mi_capturing m" "mi_channelOpen m"
    "ring_inv (br_ring b)"
    using ok cap by (auto simp: b capture_ok_def bridge_ok_def mic_ok_def pcm_ring_def)
  have nf: "\<not> mic_windowFull m" using window windowFull_iff [OF p(1)] by simp
  obtain frame r where rd: "ring_read spa FrameBytes (br_ring b) = (frame, r)" by fastforce
  note t = ring_read_take [OF spa p(7) rd]
  have av: "unat (ring_available spa (br_ring b)) = length (ring_contents (br_ring b))"
    using ring_available_fill [OF spa p(7)] by simp
  have fr: "length frame = FrameBytes" using t queue by simp
  let ?b = "(recordOversized b)\<lparr>br_observedDropEpoch := rb_dropEpoch (br_ring b), br_ring := r\<rparr>"
  have "drainOnce spa fmul (bridge_sender now) no_races (b, m, []) =
      (?b, m\<lparr>mi_unacked := mi_unacked m + 1\<rparr>, [AvSend ChannelId_AVInput AV_MEDIA_WITH_TIMESTAMP
         (be_bytes 8 (unat now) @ applyGainS16Le fmul (Some (br_gain b)) frame)])"
    using p t nf epoch queue rd av fr
    by (simp add: drainOnce_def drainFrame_def drainSend_def no_races_def pushes_def recordOverflowEvents_def
        bridge_sender_def mic_sendMicData_def recordOversized_def Let_def)
  then show ?thesis using st t cap by (auto simp: b [symmetric] recordOversized_def)
qed

lemma push_queues:
  assumes "spa_ok spa" "pcm_ring (br_ring b)" "br_publishedGeneration b = g" "g \<noteq> 0"
    and "even (length data)" "2 \<le> length data" "length data \<le> 4096 - length (ring_contents (br_ring b))"
  shows "\<exists>r. pushPcm spa (g, data) b = b\<lparr>br_ring := r\<rparr> \<and> ring_contents r = ring_contents (br_ring b) @ data \<and>
    rb_dropEpoch r = rb_dropEpoch (br_ring b)"
proof -
  obtain n r where w: "ring_writeAllOrDrop spa data (br_ring b) = (n, r)" by fastforce
  have "unat RingCapacity = 4096" by (simp add: RingCapacity_def)
  then show ?thesis
    using assms aring.put_all [of spa "br_ring b" data n r] w
    by (intro exI [of _ r]) (auto simp: pushPcm_def Let_def pcm_ring_def)
qed

lemma ring_new_plain [simp]:
  "ring_drain plain_spa (ring_new plain_spa c) = ring_new plain_spa c"
  "ring_resetDropCount (ring_new spa c) = ring_new spa c"
  "rb_dropEpoch (ring_new spa c) = 0"
  by (simp_all add: ring_drain_def ring_new_def plain_spa_def ring_resetDropCount_def)

definition demo_open :: "mic \<times> mic_world" where
  "demo_open = (mic_new\<lparr>mi_channelOpen := True, mi_maxUnacked := 2, mi_capturing := True\<rparr>,
     \<lparr>mw_bridge = (bridge_new plain_spa)\<lparr>br_drainTimer := True, br_sender := True, br_publishedGeneration := 1,
        br_ownerGeneration := 1, br_active := True\<rparr>, mw_handle = True\<rparr>)"

lemma demo_open_run:
  "fst (run (mic_step demo_protos plain_spa (*)) [MicChannelOpened, MicMessage INPUT_OPEN_REQUEST [] 0 None True]
     (mic_new, \<lparr>mw_bridge = bridge_new plain_spa, mw_handle = False\<rparr>)) = demo_open"
  by (simp add: run_Cons mic_onChannelOpened_def mic_stopCapture_def mic_new_def Let_def mic_onMessage_def
      mic_handleInputOpenRequest_def demo_protos_def mic_open_def mic_controller_def startAssistantMicCapture_def
      stopAssistantMicCapture_def bridge_start_def bridge_stop_def bridge_new_def purgeQueuedPcm_def
      deliver_window_def mic_sendInputOpenResponse_def demo_open_def normalizedGain_def kMaxTransmitWindow_def)

definition demo_queued :: "mic \<times> mic_world" where
  "demo_queued = fst (run (mic_step demo_protos plain_spa (*))
     [MicChannelOpened, MicMessage INPUT_OPEN_REQUEST [] 0 None True, MicPush 1 (replicate 640 1)]
     (mic_new, \<lparr>mw_bridge = bridge_new plain_spa, mw_handle = False\<rparr>))"

lemma demo_queued_state:
  "\<exists>r. demo_queued = (fst demo_open, (snd demo_open)\<lparr>mw_bridge := (mw_bridge (snd demo_open))\<lparr>br_ring := r\<rparr>\<rparr>) \<and>
     ring_contents r = replicate 640 1 \<and> rb_dropEpoch r = 0"
proof -
  let ?b = "mw_bridge (snd demo_open)"
  have q: "demo_queued = (fst demo_open, (snd demo_open)\<lparr>mw_bridge := pushPcm plain_spa (1, replicate 640 1) ?b\<rparr>)"
    unfolding demo_queued_def
    using run_snoc(1) [of "mic_step demo_protos plain_spa (*)" "[MicChannelOpened, MicMessage INPUT_OPEN_REQUEST [] 0 None True]"]
    by (simp add: demo_open_run)
  have ring: "br_ring ?b = ring_new plain_spa RingCapacity" "br_publishedGeneration ?b = 1"
    by (simp_all add: demo_open_def bridge_new_def)
  have e: "ring_contents (br_ring ?b) = []"
    by (simp add: ring ring_contents_def ring_fill_def ring_new_def plain_spa_def)
  then have f: "ring_fill (br_ring ?b) = 0" by (metis length_ring_contents list.size(3))
  have "pcm_ring (br_ring ?b)" by (simp add: ring pcm_ring_new [OF spa_ok_plain])
  from push_queues [OF spa_ok_plain this ring(2), of "replicate 640 1"]
  obtain r where "pushPcm plain_spa (1, replicate 640 1) ?b = ?b\<lparr>br_ring := r\<rparr>"
      "ring_contents r = replicate 640 1" "rb_dropEpoch r = rb_dropEpoch (br_ring ?b)"
    by (auto simp: e f)
  then show ?thesis by (intro exI [of _ r]) (simp add: q ring)
qed


lemma demo_queued_fields:
  "fst demo_queued = fst demo_open" "mi_capturing (fst demo_queued)"
  "uint (mi_unacked (fst demo_queued)) < mi_maxUnacked (fst demo_queued)"
  "rb_dropEpoch (br_ring (mw_bridge (snd demo_queued))) = br_observedDropEpoch (mw_bridge (snd demo_queued))"
  "ring_contents (br_ring (mw_bridge (snd demo_queued))) = replicate 640 1"
proof -
  from demo_queued_state obtain r where r: "demo_queued = (fst demo_open,
      (snd demo_open)\<lparr>mw_bridge := (mw_bridge (snd demo_open))\<lparr>br_ring := r\<rparr>\<rparr>)"
    "ring_contents r = replicate 640 1" "rb_dropEpoch r = 0" by blast
  show "fst demo_queued = fst demo_open" "mi_capturing (fst demo_queued)"
    "uint (mi_unacked (fst demo_queued)) < mi_maxUnacked (fst demo_queued)"
    "rb_dropEpoch (br_ring (mw_bridge (snd demo_queued))) = br_observedDropEpoch (mw_bridge (snd demo_queued))"
    "ring_contents (br_ring (mw_bridge (snd demo_queued))) = replicate 640 1"
    unfolding r(1) by (simp_all add: r demo_open_def mic_new_def bridge_new_def)
qed



end
