(* ===== verification/Video_Decoder.thy ===== *)
theory Video_Decoder
  imports Prelude
begin

text \<open>
  \<open>oap::aa::VideoDecoder\<close> (\<open>VideoDecoder.cpp\<close>): the choice of a codec, the decoding of a packet
  and the work queue between the owner thread and the decode thread.

  FFmpeg is a parameter, the record \<open>ffmpeg\<close>: a codec context and a parser are values of the
  types \<open>'x\<close> and \<open>'p\<close> which its functions update.  The decode thread is a program counter
  that makes one access to shared data per step, so that the owner's operations can be
  interleaved between any two of them.  Signals to the owner thread are queued in
  \<open>dc_signals\<close>; those without a receiver are left out, and so are time measurements, the frame
  pool and the copying of the planes (a decoded frame is an opaque value \<open>'f\<close>).  Generations
  count 64-bit numbers upwards from one and are natural numbers here.
\<close>

section \<open>FFmpeg\<close>

datatype codec_id = AV_CODEC_ID_H264 | AV_CODEC_ID_H265 | AV_CODEC_ID_VP9 | AV_CODEC_ID_AV1

datatype pix_format = PIX_DRM_PRIME | PIX_YUV420P | PIX_YUVJ420P | PixOther nat

record 'f av_frame =
  fr_format :: pix_format
  fr_width :: int
  fr_height :: int
  fr_content :: 'f

datatype 'f recv_result = RecvFrame "'f av_frame" | RecvAgain | RecvEof | RecvError

record ('c, 'x, 'p, 'f) ffmpeg =
  find_decoder :: "codec_id \<Rightarrow> 'c option"
  find_decoder_by_name :: "string \<Rightarrow> 'c option"
  codec_name :: "'c \<Rightarrow> string"
  cap_hardware :: "'c \<Rightarrow> bool"
  open_context :: "'c \<Rightarrow> bool \<Rightarrow> 'x option"
  parser_init :: "codec_id \<Rightarrow> 'p option"
  parser_parse :: "'p \<Rightarrow> 'x \<Rightarrow> bytes \<Rightarrow> ('p \<times> 'x) \<times> nat option \<times> bytes"
  send_packet :: "bytes \<Rightarrow> 'x \<Rightarrow> 'x \<times> bool"
  receive_frame :: "'x \<Rightarrow> 'x \<times> 'f recv_result"
  flush_buffers :: "'x \<Rightarrow> 'x"
  skip_nonref :: "bool \<Rightarrow> 'x \<Rightarrow> 'x"

section \<open>The codec\<close>

record ('c, 'x, 'p) codec_state =
  vd_codec :: "'c option"
  vd_codecCtx :: "'x option"
  vd_hwaccel :: bool
  vd_parser :: "'p option"
  vd_activeCodecId :: codec_id
  vd_codecDetected :: bool
  vd_usingHardware :: bool
  vd_firstFrameDecoded :: bool
  vd_streamGeneration :: nat
  vd_operational :: bool
  vd_hwDevice :: bool

definition strstr :: "string \<Rightarrow> string \<Rightarrow> bool" where
  "strstr s t \<longleftrightarrow> list_ex (\<lambda>i. take (length t) (drop i s) = t) [0..<Suc (length s)]"

definition isHardwareDecoder :: "('c, 'x, 'p, 'f) ffmpeg \<Rightarrow> 'c \<Rightarrow> bool" where
  "isHardwareDecoder ff c \<longleftrightarrow> cap_hardware ff c
     \<or> list_ex (strstr (codec_name ff c)) [''v4l2m2m'', ''vaapi'', ''cuda'', ''vdpau'', ''videotoolbox'', ''qsv'']"

definition cleanupCodec :: "('c, 'x, 'p) codec_state \<Rightarrow> ('c, 'x, 'p) codec_state" where
  "cleanupCodec d = d\<lparr>vd_parser := None, vd_codecCtx := None, vd_hwaccel := False, vd_codec := None\<rparr>"

definition tryOpenCodec :: "('c, 'x, 'p, 'f) ffmpeg \<Rightarrow> 'c \<Rightarrow> codec_id
    \<Rightarrow> ('c, 'x, 'p) codec_state \<Rightarrow> bool \<times> ('c, 'x, 'p) codec_state" where
  "tryOpenCodec ff c i d = (
     let hw = (i = AV_CODEC_ID_H265 \<and> vd_hwDevice d \<and> \<not> isHardwareDecoder ff c) in
     case open_context ff c hw of
       None \<Rightarrow> (False, d\<lparr>vd_codecCtx := None, vd_hwaccel := False\<rparr>)
     | Some x \<Rightarrow>
         (case parser_init ff i of
            None \<Rightarrow> (False, d\<lparr>vd_codecCtx := None, vd_hwaccel := False, vd_parser := None\<rparr>)
          | Some p \<Rightarrow> (True, d\<lparr>vd_codecCtx := Some x, vd_hwaccel := hw, vd_parser := Some p,
                             vd_codec := Some c, vd_activeCodecId := i\<rparr>)))"

primrec configKey :: "codec_id \<Rightarrow> string" where
  "configKey AV_CODEC_ID_H264 = ''h264''"
| "configKey AV_CODEC_ID_H265 = ''h265''"
| "configKey AV_CODEC_ID_VP9 = ''vp9''"
| "configKey AV_CODEC_ID_AV1 = ''av1''"

primrec hwDecoders :: "codec_id \<Rightarrow> string list" where
  "hwDecoders AV_CODEC_ID_H264 = [''h264_v4l2m2m'', ''h264_vaapi'']"
| "hwDecoders AV_CODEC_ID_H265 = [''hevc_v4l2m2m'', ''hevc_vaapi'']"
| "hwDecoders AV_CODEC_ID_VP9 = [''vp9_v4l2m2m'', ''vp9_vaapi'']"
| "hwDecoders AV_CODEC_ID_AV1 = [''av1_v4l2m2m'', ''av1_vaapi'']"

fun first_found :: "('a \<Rightarrow> 'c option) \<Rightarrow> 'a list \<Rightarrow> 'c option" where
  "first_found f [] = None"
| "first_found f (n # ns) = (case f n of Some c \<Rightarrow> Some c | None \<Rightarrow> first_found f ns)"

definition selectCodec :: "('c, 'x, 'p, 'f) ffmpeg \<Rightarrow> (string \<Rightarrow> string) option \<Rightarrow> codec_id \<Rightarrow> bool \<Rightarrow> 'c option" where
  "selectCodec ff yaml i hwDevice = (
     let decoderPref = (case yaml of Some pref \<Rightarrow> pref (configKey i) | None \<Rightarrow> ''auto'');
         c1 = (if decoderPref \<noteq> ''auto'' then find_decoder_by_name ff decoderPref else None);
         c2 = (case c1 of Some c \<Rightarrow> Some c
               | None \<Rightarrow> if i = AV_CODEC_ID_H265 \<and> hwDevice then find_decoder ff i else None);
         c3 = (case c2 of Some c \<Rightarrow> Some c | None \<Rightarrow> first_found (find_decoder_by_name ff) (hwDecoders i))
     in case c3 of Some c \<Rightarrow> Some c | None \<Rightarrow> find_decoder ff i)"

definition note_hardware :: "('c, 'x, 'p, 'f) ffmpeg \<Rightarrow> ('c, 'x, 'p) codec_state \<Rightarrow> ('c, 'x, 'p) codec_state" where
  "note_hardware ff d = d\<lparr>vd_usingHardware :=
     (case vd_codec d of Some c \<Rightarrow> isHardwareDecoder ff c | None \<Rightarrow> False) \<or> vd_hwaccel d\<rparr>"

definition initCodec :: "('c, 'x, 'p, 'f) ffmpeg \<Rightarrow> (string \<Rightarrow> string) option \<Rightarrow> codec_id
    \<Rightarrow> ('c, 'x, 'p) codec_state \<Rightarrow> bool \<times> ('c, 'x, 'p) codec_state" where
  "initCodec ff yaml i d0 = (
     let d = (cleanupCodec d0)\<lparr>vd_firstFrameDecoded := False\<rparr> in
     case selectCodec ff yaml i (vd_hwDevice d) of
       None \<Rightarrow> (False, d)
     | Some selected \<Rightarrow>
         (let (ok, d1) = tryOpenCodec ff selected i d in
          if ok then (True, note_hardware ff d1)
          else if find_decoder ff i = Some selected then (False, d1)
          else case find_decoder ff i of
                 None \<Rightarrow> (False, d1)
               | Some sw \<Rightarrow> (let (ok2, d2) = tryOpenCodec ff sw i d1 in
                   if ok2 then (True, note_hardware ff d2) else (False, d2))))"

fun detectCodec :: "bytes \<Rightarrow> codec_id" where
  "detectCodec (a # b # c # d # nal # rest) = (
     if a = 0 \<and> b = 0 \<and> c = 0 \<and> d = 1
     then (let h264Type = uint (nal AND 0x1F); h265Type = uint (drop_bit 1 nal AND 0x3F) in
       if h265Type \<ge> 32 \<and> h265Type \<le> 34 then AV_CODEC_ID_H265
       else if h264Type = 7 \<or> h264Type = 8 \<or> h264Type = 5 \<or> h264Type = 1 then AV_CODEC_ID_H264
       else if h264Type > 23 then AV_CODEC_ID_H265
       else detectCodec (b # c # d # nal # rest))
     else detectCodec (b # c # d # nal # rest))"
| "detectCodec _ = AV_CODEC_ID_H264"

section \<open>Decoding a packet\<close>

text \<open>
  The result of a decoding loop is the codec state, the decoded frames and whether the thread
  has called the parser through a null pointer.  \<open>None\<close> stands for a loop that never ends.
\<close>

definition softwareFallback :: "('c, 'x, 'p, 'f) ffmpeg \<Rightarrow> bytes \<Rightarrow> ('c, 'x, 'p) codec_state
    \<Rightarrow> ('f recv_result \<times> ('c, 'x, 'p) codec_state) option" where
  "softwareFallback ff pkt d = (
     let savedId = vd_activeCodecId d; d1 = cleanupCodec d in
     case find_decoder ff savedId of
       None \<Rightarrow> None
     | Some sw \<Rightarrow>
         (let (ok, d2) = tryOpenCodec ff sw savedId d1 in
          case (ok, vd_codecCtx d2) of
            (True, Some x) \<Rightarrow>
              (let (x1, _) = send_packet ff pkt x; (x2, r) = receive_frame ff x1
               in Some (r, d2\<lparr>vd_usingHardware := False, vd_codecCtx := Some x2\<rparr>))
          | _ \<Rightarrow> None))"

definition failed_open :: "('c, 'x, 'p, 'f) ffmpeg \<Rightarrow> ('c, 'x, 'p) codec_state \<Rightarrow> ('c, 'x, 'p) codec_state" where
  "failed_open ff d = (case find_decoder ff (vd_activeCodecId d) of
     None \<Rightarrow> cleanupCodec d
   | Some sw \<Rightarrow> snd (tryOpenCodec ff sw (vd_activeCodecId d) (cleanupCodec d)))"

definition receiveOne :: "('c, 'x, 'p, 'f) ffmpeg \<Rightarrow> bytes \<Rightarrow> ('c, 'x, 'p) codec_state
    \<Rightarrow> 'f av_frame option \<times> ('c, 'x, 'p) codec_state" where
  "receiveOne ff pkt d = (case vd_codecCtx d of
     None \<Rightarrow> (None, d)
   | Some x \<Rightarrow>
       (let (x1, r) = receive_frame ff x; d1 = d\<lparr>vd_codecCtx := Some x1\<rparr> in
        case (if r = RecvError \<and> vd_usingHardware d \<and> \<not> vd_firstFrameDecoded d
              then softwareFallback ff pkt d1 else Some (r, d1)) of
          None \<Rightarrow> (None, failed_open ff d1)
        | Some (RecvFrame f, d2) \<Rightarrow> (Some f, d2\<lparr>vd_firstFrameDecoded := True\<rparr>)
        | Some (_, d2) \<Rightarrow> (None, d2)))"

partial_function (option) receiveLoop :: "('c, 'x, 'p, 'f) ffmpeg \<Rightarrow> bytes \<Rightarrow> ('c, 'x, 'p) codec_state
    \<Rightarrow> 'f av_frame list \<Rightarrow> (('c, 'x, 'p) codec_state \<times> 'f av_frame list) option" where
  "receiveLoop ff pkt d fs = (case fst (receiveOne ff pkt d) of
     None \<Rightarrow> Some (snd (receiveOne ff pkt d), fs)
   | Some f \<Rightarrow> receiveLoop ff pkt (snd (receiveOne ff pkt d)) (fs @ [f]))"

datatype ('c, 'x, 'p) parsed =
    NullParser
  | ParseError "('c, 'x, 'p) codec_state"
  | Parsed bytes bytes "('c, 'x, 'p) codec_state"

definition parseStep :: "('c, 'x, 'p, 'f) ffmpeg \<Rightarrow> bytes \<Rightarrow> ('c, 'x, 'p) codec_state \<Rightarrow> ('c, 'x, 'p) parsed" where
  "parseStep ff data d = (case (vd_parser d, vd_codecCtx d) of
     (Some p, Some x) \<Rightarrow>
       (let ((p1, x1), consumed, pkt) = parser_parse ff p x data;
            d1 = d\<lparr>vd_parser := Some p1, vd_codecCtx := Some x1\<rparr>
        in case consumed of None \<Rightarrow> ParseError d1 | Some n \<Rightarrow> Parsed (drop n data) pkt d1)
   | _ \<Rightarrow> NullParser)"

definition sendPacket :: "('c, 'x, 'p, 'f) ffmpeg \<Rightarrow> bytes \<Rightarrow> ('c, 'x, 'p) codec_state \<Rightarrow> bool \<times> ('c, 'x, 'p) codec_state" where
  "sendPacket ff pkt d = (case vd_codecCtx d of
     None \<Rightarrow> (False, d)
   | Some x \<Rightarrow> (let (x1, ok) = send_packet ff pkt x in (ok, d\<lparr>vd_codecCtx := Some x1\<rparr>)))"

partial_function (option) parseLoop :: "('c, 'x, 'p, 'f) ffmpeg \<Rightarrow> bytes \<Rightarrow> ('c, 'x, 'p) codec_state
    \<Rightarrow> 'f av_frame list \<Rightarrow> (('c, 'x, 'p) codec_state \<times> 'f av_frame list \<times> bool) option" where
  "parseLoop ff data d fs = (
     if data = [] then Some (d, fs, False)
     else case parseStep ff data d of
       NullParser \<Rightarrow> Some (d, fs, True)
     | ParseError d1 \<Rightarrow> Some (d1, fs, False)
     | Parsed rest pkt d1 \<Rightarrow>
         if pkt = [] then parseLoop ff rest d1 fs
         else if \<not> fst (sendPacket ff pkt d1) then parseLoop ff rest (snd (sendPacket ff pkt d1)) fs
         else Option.bind (receiveLoop ff pkt (snd (sendPacket ff pkt d1)) fs)
                (\<lambda>r. parseLoop ff rest (fst r) (snd r)))"

declare receiveLoop.simps [code] parseLoop.simps [code]

definition detectStep :: "('c, 'x, 'p, 'f) ffmpeg \<Rightarrow> (string \<Rightarrow> string) option \<Rightarrow> bytes
    \<Rightarrow> ('c, 'x, 'p) codec_state \<Rightarrow> bool \<times> ('c, 'x, 'p) codec_state" where
  "detectStep ff yaml data d = (
     if vd_codecDetected d then (True, d)
     else let d1 = d\<lparr>vd_codecDetected := True\<rparr>; detected = detectCodec data in
       if detected = vd_activeCodecId d1 then (True, d1)
       else let (ok, d2) = initCodec ff yaml detected d1 in (ok, d2\<lparr>vd_operational := ok\<rparr>))"

text \<open>The result holds the codec state, the frames, the null call and a stream error, if any.\<close>

definition switch_error :: "bytes \<Rightarrow> string" where
  "switch_error data = ''failed to switch decoder to '' @
     (if detectCodec data = AV_CODEC_ID_H265 then ''H.265'' else ''H.264'')"

definition processFrame :: "('c, 'x, 'p, 'f) ffmpeg \<Rightarrow> (string \<Rightarrow> string) option \<Rightarrow> bytes \<Rightarrow> ('c, 'x, 'p) codec_state
    \<Rightarrow> (('c, 'x, 'p) codec_state \<times> 'f av_frame list \<times> bool \<times> string option) option" where
  "processFrame ff yaml data d = (
     if vd_codecCtx d = None \<or> vd_parser d = None then Some (d, [], False, None)
     else let (ok, d1) = detectStep ff yaml data d in
       if \<not> ok then Some (d1, [], False, Some (switch_error data))
       else case parseLoop ff data d1 [] of
         None \<Rightarrow> None
       | Some (d2, fs, crashed) \<Rightarrow> Some (d2, fs, crashed, None))"

section \<open>The work queue and the decode thread\<close>

datatype work_item = WorkFrame bytes | WorkBegin nat | WorkEnd nat

datatype decoder_signal = SigFrameReady nat | SigStreamError nat string | SigStreamEnded nat

datatype 'f worker_pc =
    PcIdle
  | PcItem work_item nat
  | PcStore "'f av_frame list" bool
  | PcFlag "'f av_frame list" bool
  | PcSignal "'f av_frame list" bool
  | PcCrashed

record ('c, 'x, 'p, 'f) decoder =
  dc_codec :: "('c, 'x, 'p) codec_state"
  dc_worker :: bool
  dc_queue :: "work_item list"
  dc_nextGeneration :: nat
  dc_accepting :: bool
  dc_latest :: "'f av_frame option"
  dc_hasLatest :: bool
  dc_sink :: "nat option"
  dc_pc :: "'f worker_pc"
  dc_signals :: "decoder_signal list"
  dc_label :: string

definition decoder_new :: "('c, 'x, 'p, 'f) ffmpeg \<Rightarrow> bool \<Rightarrow> bool \<Rightarrow> ('c, 'x, 'p, 'f) decoder" where
  "decoder_new ff hwDevice allocated = (
     let d = \<lparr>vd_codec = None, vd_codecCtx = None, vd_hwaccel = False, vd_parser = None,
               vd_activeCodecId = AV_CODEC_ID_H264, vd_codecDetected = False, vd_usingHardware = False,
               vd_firstFrameDecoded = False, vd_streamGeneration = 0, vd_operational = False,
               vd_hwDevice = hwDevice\<rparr>;
         (ok, d1) = (if allocated then initCodec ff None AV_CODEC_ID_H264 d else (False, d))
     in \<lparr>dc_codec = d1\<lparr>vd_operational := ok\<rparr>, dc_worker = ok, dc_queue = [], dc_nextGeneration = 0,
          dc_accepting = False, dc_latest = None, dc_hasLatest = False, dc_sink = None, dc_pc = PcIdle,
          dc_signals = [], dc_label = []\<rparr>)"

definition setDiagnosticLabel :: "string \<Rightarrow> ('c, 'x, 'p, 'f) decoder \<Rightarrow> ('c, 'x, 'p, 'f) decoder" where
  "setDiagnosticLabel l d = d\<lparr>dc_label := l\<rparr>"

definition takeLatestFrame :: "('c, 'x, 'p, 'f) decoder \<Rightarrow> 'f av_frame option \<times> ('c, 'x, 'p, 'f) decoder" where
  "takeLatestFrame d = (if \<not> dc_hasLatest d then (None, d)
     else (dc_latest d, d\<lparr>dc_hasLatest := False, dc_latest := None\<rparr>))"

definition setVideoSink :: "nat option \<Rightarrow> ('c, 'x, 'p, 'f) decoder \<Rightarrow> ('c, 'x, 'p, 'f) decoder" where
  "setVideoSink sink d = d\<lparr>dc_sink := sink\<rparr>"

definition decodeFrame :: "bytes \<Rightarrow> ('c, 'x, 'p, 'f) decoder \<Rightarrow> ('c, 'x, 'p, 'f) decoder" where
  "decodeFrame data d = (if dc_worker d \<and> dc_accepting d
     then d\<lparr>dc_queue := dc_queue d @ [WorkFrame data]\<rparr> else d)"

fun is_boundary :: "work_item \<Rightarrow> bool" where
  "is_boundary (WorkFrame _) = False"
| "is_boundary _ = True"

definition beginStream :: "('c, 'x, 'p, 'f) decoder \<Rightarrow> nat \<times> ('c, 'x, 'p, 'f) decoder" where
  "beginStream d = (if \<not> dc_worker d then (0, d)
     else let g = Suc (dc_nextGeneration d) in
       (g, d\<lparr>dc_accepting := True, dc_nextGeneration := g,
             dc_queue := filter is_boundary (dc_queue d) @ [WorkBegin g]\<rparr>))"

definition endStream :: "('c, 'x, 'p, 'f) decoder \<Rightarrow> ('c, 'x, 'p, 'f) decoder" where
  "endStream d = (let d1 = d\<lparr>dc_accepting := False\<rparr> in
     if \<not> dc_worker d1 then d1
     else d1\<lparr>dc_queue := filter is_boundary (dc_queue d1) @ [WorkEnd (dc_nextGeneration d1)]\<rparr>)"

definition clearBufferedFrames :: "('c, 'x, 'p, 'f) decoder \<Rightarrow> ('c, 'x, 'p, 'f) decoder" where
  "clearBufferedFrames d = d\<lparr>dc_latest := None, dc_hasLatest := False\<rparr>"

definition labelled :: "string \<Rightarrow> string \<Rightarrow> string" where
  "labelled l message = (if l = [] then message else l @ '' '' @ message)"

definition reportStreamError :: "nat \<Rightarrow> string \<Rightarrow> ('c, 'x, 'p, 'f) decoder \<Rightarrow> ('c, 'x, 'p, 'f) decoder" where
  "reportStreamError g message d = d\<lparr>dc_codec := (dc_codec d)\<lparr>vd_operational := False\<rparr>,
     dc_signals := dc_signals d @ [SigStreamError g (labelled (dc_label d) message)]\<rparr>"

definition resetForNewStream :: "('c, 'x, 'p, 'f) ffmpeg \<Rightarrow> (string \<Rightarrow> string) option \<Rightarrow> nat
    \<Rightarrow> ('c, 'x, 'p, 'f) decoder \<Rightarrow> ('c, 'x, 'p, 'f) decoder" where
  "resetForNewStream ff yaml g d = (
     let d1 = clearBufferedFrames (d\<lparr>dc_codec := (dc_codec d)\<lparr>vd_streamGeneration := g, vd_codecDetected := False\<rparr>\<rparr>);
         (ok, c) = initCodec ff yaml AV_CODEC_ID_H264 (dc_codec d1);
         d2 = d1\<lparr>dc_codec := c\<rparr>
     in if ok then d2\<lparr>dc_codec := c\<lparr>vd_operational := True\<rparr>\<rparr>
        else reportStreamError g ''failed to reset decoder'' d2)"

definition finishStream :: "('c, 'x, 'p, 'f) ffmpeg \<Rightarrow> nat \<Rightarrow> ('c, 'x, 'p, 'f) decoder \<Rightarrow> ('c, 'x, 'p, 'f) decoder" where
  "finishStream ff g d = (
     let c = (dc_codec d)\<lparr>vd_streamGeneration := g, vd_codecDetected := False\<rparr>;
         d1 = clearBufferedFrames (d\<lparr>dc_codec := c\<lparr>vd_codecCtx := map_option (flush_buffers ff) (vd_codecCtx c)\<rparr>\<rparr>)
     in d1\<lparr>dc_signals := dc_signals d1 @ [SigStreamEnded g]\<rparr>)"

definition SKIP_THRESHOLD :: nat where "SKIP_THRESHOLD = 3"

definition set_skip :: "('c, 'x, 'p, 'f) ffmpeg \<Rightarrow> nat \<Rightarrow> ('c, 'x, 'p) codec_state \<Rightarrow> ('c, 'x, 'p) codec_state" where
  "set_skip ff depth c = c\<lparr>vd_codecCtx := map_option (skip_nonref ff (depth \<ge> SKIP_THRESHOLD)) (vd_codecCtx c)\<rparr>"

text \<open>Whether a decoded frame is delivered: with a sink, in a format that is handled, and when its buffer can be mapped.\<close>

definition presentable :: "bool \<Rightarrow> 'f av_frame \<Rightarrow> ('c, 'x, 'p, 'f) decoder \<Rightarrow> bool" where
  "presentable mapped f d \<longleftrightarrow> dc_sink d \<noteq> None
     \<and> (fr_format f = PIX_DRM_PRIME \<or> (fr_format f = PIX_YUV420P \<or> fr_format f = PIX_YUVJ420P) \<and> mapped)"

definition work_frame :: "('c, 'x, 'p, 'f) ffmpeg \<Rightarrow> (string \<Rightarrow> string) option \<Rightarrow> bytes \<Rightarrow> nat
    \<Rightarrow> ('c, 'x, 'p, 'f) decoder \<Rightarrow> ('c, 'x, 'p, 'f) decoder option" where
  "work_frame ff yaml data depth d = (case processFrame ff yaml data (set_skip ff depth (dc_codec d)) of
     None \<Rightarrow> None
   | Some (c, fs, crashed, err) \<Rightarrow>
       (let d1 = d\<lparr>dc_codec := c, dc_pc := PcStore fs crashed\<rparr> in
        Some (case err of None \<Rightarrow> d1 | Some m \<Rightarrow> reportStreamError (vd_streamGeneration c) m d1)))"

text \<open>One step of the thread; \<open>None\<close> when it waits, never ends or is gone.\<close>

definition worker_step :: "('c, 'x, 'p, 'f) ffmpeg \<Rightarrow> (string \<Rightarrow> string) option \<Rightarrow> bool
    \<Rightarrow> ('c, 'x, 'p, 'f) decoder \<Rightarrow> ('c, 'x, 'p, 'f) decoder option" where
  "worker_step ff yaml mapped d = (if \<not> dc_worker d then None else case dc_pc d of
     PcIdle \<Rightarrow> (case dc_queue d of [] \<Rightarrow> None
       | item # q \<Rightarrow> Some (d\<lparr>dc_queue := q, dc_pc := PcItem item (length q)\<rparr>))
   | PcItem (WorkBegin g) depth \<Rightarrow> Some ((resetForNewStream ff yaml g d)\<lparr>dc_pc := PcIdle\<rparr>)
   | PcItem (WorkEnd g) depth \<Rightarrow> Some ((finishStream ff g d)\<lparr>dc_pc := PcIdle\<rparr>)
   | PcItem (WorkFrame data) depth \<Rightarrow> work_frame ff yaml data depth d
   | PcStore [] crashed \<Rightarrow> Some (d\<lparr>dc_pc := (if crashed then PcCrashed else PcIdle)\<rparr>)
   | PcStore (f # fs) crashed \<Rightarrow>
       Some (if presentable mapped f d then d\<lparr>dc_latest := Some f, dc_pc := PcFlag fs crashed\<rparr>
             else d\<lparr>dc_pc := PcStore fs crashed\<rparr>)
   | PcFlag fs crashed \<Rightarrow> Some (d\<lparr>dc_hasLatest := True, dc_pc := PcSignal fs crashed\<rparr>)
   | PcSignal fs crashed \<Rightarrow> Some (d\<lparr>dc_pc := PcStore fs crashed,
        dc_signals := dc_signals d @ [SigFrameReady (vd_streamGeneration (dc_codec d))]\<rparr>)
   | PcCrashed \<Rightarrow> None)"

end
