(* ===== verification/Video_Stream.thy ===== *)
theory Video_Stream
  imports Video_Decoder "HOL-Library.Sublist"
begin

text \<open>
  What the decode thread makes of a stream: whatever the interleaving of the two threads, the
  frames it announces under the generation of the current stream come from a codec opened for
  this stream and fed with the packets of this stream, in order and from the first one.
\<close>

section \<open>A stream seen by one codec\<close>

definition fresh_codec :: "('c, 'x, 'p, 'f) ffmpeg \<Rightarrow> ('c, 'x, 'p) codec_state \<Rightarrow> bool" where
  "fresh_codec ff c \<longleftrightarrow> \<not> vd_codecDetected c \<and> \<not> vd_firstFrameDecoded c
     \<and> (vd_codecCtx c = None \<or> (\<exists>k hw x p. open_context ff k hw = Some x \<and> vd_codecCtx c = Some x
          \<and> parser_init ff (vd_activeCodecId c) = Some p \<and> vd_parser c = Some p))"

inductive stream_run ::
  "('c, 'x, 'p, 'f) ffmpeg \<Rightarrow> bytes list \<Rightarrow> ('c, 'x, 'p) codec_state \<Rightarrow> 'f av_frame list \<Rightarrow> bool"
  for ff where
  run_start: "fresh_codec ff c \<Longrightarrow> stream_run ff [] c []"
| run_packet: "stream_run ff ps c fs \<Longrightarrow>
     processFrame ff yaml data (set_skip ff depth c) = Some (c', fs', crashed, err) \<Longrightarrow>
     stream_run ff (ps @ [data]) c' (fs @ fs')"

definition frame_of_stream :: "('c, 'x, 'p, 'f) ffmpeg \<Rightarrow> bytes list \<Rightarrow> 'f av_frame \<Rightarrow> bool" where
  "frame_of_stream ff ps f \<longleftrightarrow> (\<exists>qs c fs. prefix qs ps \<and> stream_run ff qs c fs \<and> f \<in> set fs)"

lemma frame_of_streamI: "stream_run ff qs c fs \<Longrightarrow> f \<in> set fs \<Longrightarrow> frame_of_stream ff (qs @ ws) f"
  unfolding frame_of_stream_def by (meson prefixI)

lemma frame_of_stream_more: "frame_of_stream ff ps f \<Longrightarrow> frame_of_stream ff (ps @ qs) f"
  unfolding frame_of_stream_def by (meson prefix_order.trans prefixI)

section \<open>Opening a codec\<close>

lemma cleanup_fields [simp]:
  "vd_codecCtx (cleanupCodec d) = None" "vd_parser (cleanupCodec d) = None"
  "vd_codecDetected (cleanupCodec d) = vd_codecDetected d"
  "vd_firstFrameDecoded (cleanupCodec d) = vd_firstFrameDecoded d"
  "vd_streamGeneration (cleanupCodec d) = vd_streamGeneration d"
  "vd_operational (cleanupCodec d) = vd_operational d"
  by (simp_all add: cleanupCodec_def)

lemma tryOpen_fields:
  "vd_codecDetected (snd (tryOpenCodec ff c i d)) = vd_codecDetected d
   \<and> vd_firstFrameDecoded (snd (tryOpenCodec ff c i d)) = vd_firstFrameDecoded d
   \<and> vd_streamGeneration (snd (tryOpenCodec ff c i d)) = vd_streamGeneration d
   \<and> vd_operational (snd (tryOpenCodec ff c i d)) = vd_operational d"
  by (simp add: tryOpenCodec_def Let_def split: option.split)

lemma tryOpen_opens:
  assumes "tryOpenCodec ff c i d = (ok, d')"
  shows "if ok then \<exists>hw x p. open_context ff c hw = Some x \<and> vd_codecCtx d' = Some x
           \<and> parser_init ff (vd_activeCodecId d') = Some p \<and> vd_parser d' = Some p
         else vd_codecCtx d' = None"
  using assms unfolding tryOpenCodec_def Let_def
  by (cases "open_context ff c (i = AV_CODEC_ID_H265 \<and> vd_hwDevice d \<and> \<not> isHardwareDecoder ff c)";
      cases "parser_init ff i") auto

lemma note_hardware_fields [simp]:
  "vd_codecCtx (note_hardware ff d) = vd_codecCtx d" "vd_parser (note_hardware ff d) = vd_parser d"
  "vd_activeCodecId (note_hardware ff d) = vd_activeCodecId d"
  "vd_codecDetected (note_hardware ff d) = vd_codecDetected d"
  "vd_firstFrameDecoded (note_hardware ff d) = vd_firstFrameDecoded d"
  "vd_streamGeneration (note_hardware ff d) = vd_streamGeneration d"
  "vd_operational (note_hardware ff d) = vd_operational d"
  by (simp_all add: note_hardware_def)

definition opened :: "('c, 'x, 'p, 'f) ffmpeg \<Rightarrow> ('c, 'x, 'p) codec_state \<Rightarrow> bool" where
  "opened ff d \<longleftrightarrow> vd_codecCtx d = None \<or> (\<exists>k hw x p. open_context ff k hw = Some x \<and> vd_codecCtx d = Some x
     \<and> parser_init ff (vd_activeCodecId d) = Some p \<and> vd_parser d = Some p)"

lemma opened_note_hardware [simp]: "opened ff (note_hardware ff d) = opened ff d"
  by (simp add: opened_def)

lemma tryOpen_opened: "tryOpenCodec ff c i d = (ok, d') \<Longrightarrow> opened ff d'"
  using tryOpen_opens [of ff c i d ok d'] by (cases ok) (auto simp: opened_def)

lemma tryOpen_keeps:
  "tryOpenCodec ff c i d = (ok, d') \<Longrightarrow> vd_codecDetected d' = vd_codecDetected d
     \<and> vd_firstFrameDecoded d' = vd_firstFrameDecoded d \<and> vd_streamGeneration d' = vd_streamGeneration d
     \<and> vd_operational d' = vd_operational d"
  using tryOpen_fields [of ff c i d] by simp

definition codec_kept :: "('c, 'x, 'p) codec_state \<Rightarrow> ('c, 'x, 'p) codec_state \<Rightarrow> bool" where
  "codec_kept d d' \<longleftrightarrow> vd_codecDetected d' = vd_codecDetected d \<and> vd_streamGeneration d' = vd_streamGeneration d"

lemma initCodec_result:
  assumes "initCodec ff yaml i d0 = (ok, d')"
  shows "opened ff d' \<and> \<not> vd_firstFrameDecoded d' \<and> codec_kept d0 d'"
proof -
  define d where "d = (cleanupCodec d0)\<lparr>vd_firstFrameDecoded := False\<rparr>"
  have d: "opened ff d" "\<not> vd_firstFrameDecoded d" "codec_kept d0 d"
    by (simp_all add: d_def opened_def codec_kept_def)
  show ?thesis
  proof (cases "selectCodec ff yaml i (vd_hwDevice d)")
    case None
    then show ?thesis using assms d by (simp add: initCodec_def d_def [symmetric])
  next
    case (Some c)
    obtain ok1 d1 where t1: "tryOpenCodec ff c i d = (ok1, d1)" by (cases "tryOpenCodec ff c i d")
    have d1: "opened ff d1" "\<not> vd_firstFrameDecoded d1" "codec_kept d0 d1"
      using tryOpen_opened [OF t1] tryOpen_keeps [OF t1] d by (auto simp: codec_kept_def)
    have sw: "opened ff d2 \<and> \<not> vd_firstFrameDecoded d2 \<and> codec_kept d0 d2"
      if "tryOpenCodec ff s i d1 = (ok2, d2)" for s ok2 d2
      using tryOpen_opened [OF that] tryOpen_keeps [OF that] d1 by (auto simp: codec_kept_def)
    have "(ok, d') = (if ok1 then (True, note_hardware ff d1)
        else if find_decoder ff i = Some c then (False, d1)
        else case find_decoder ff i of None \<Rightarrow> (False, d1)
             | Some s \<Rightarrow> (let (ok2, d2) = tryOpenCodec ff s i d1 in
                 if ok2 then (True, note_hardware ff d2) else (False, d2)))"
      using assms Some t1 by (simp add: initCodec_def d_def [symmetric])
    then show ?thesis
      using d1 sw by (auto simp: codec_kept_def split: if_splits option.splits prod.splits)
  qed
qed

section \<open>Decoding keeps the generation\<close>

lemma softwareFallback_kept: "softwareFallback ff pkt d = Some (r, d') \<Longrightarrow> codec_kept d d'"
proof -
  assume r: "softwareFallback ff pkt d = Some (r, d')"
  then obtain sw where sw: "find_decoder ff (vd_activeCodecId d) = Some sw"
    by (auto simp: softwareFallback_def Let_def split: option.splits)
  obtain ok d2 where t: "tryOpenCodec ff sw (vd_activeCodecId d) (cleanupCodec d) = (ok, d2)"
    by (cases "tryOpenCodec ff sw (vd_activeCodecId d) (cleanupCodec d)")
  show "codec_kept d d'"
    using r tryOpen_keeps [OF t] by (cases ok; cases "vd_codecCtx d2")
      (auto simp: softwareFallback_def Let_def sw t codec_kept_def split: prod.splits)
qed

lemma failed_open_kept: "codec_kept d (failed_open ff d)"
  using tryOpen_fields [of ff _ "vd_activeCodecId d" "cleanupCodec d"]
  by (simp add: failed_open_def codec_kept_def split: option.split)

lemma receiveOne_kept: "codec_kept d (snd (receiveOne ff pkt d))"
proof (cases "vd_codecCtx d")
  case None
  then show ?thesis by (simp add: receiveOne_def codec_kept_def)
next
  case (Some x)
  obtain x1 r where r: "receive_frame ff x = (x1, r)" by (cases "receive_frame ff x")
  define d1 where "d1 = d\<lparr>vd_codecCtx := Some x1\<rparr>"
  define t where "t = (if r = RecvError \<and> vd_usingHardware d \<and> \<not> vd_firstFrameDecoded d
    then softwareFallback ff pkt d1 else Some (r, d1))"
  have step: "receiveOne ff pkt d = (case t of None \<Rightarrow> (None, failed_open ff d1)
      | Some (RecvFrame f, d2) \<Rightarrow> (Some f, d2\<lparr>vd_firstFrameDecoded := True\<rparr>) | Some (_, d2) \<Rightarrow> (None, d2))"
    by (simp only: receiveOne_def Some option.case r Let_def prod.case t_def d1_def)
  have d1: "codec_kept d d1" by (simp add: d1_def codec_kept_def)
  show ?thesis
  proof (cases t)
    case None
    then show ?thesis using d1 failed_open_kept [of d1 ff] by (simp add: step codec_kept_def)
  next
    case t: (Some q)
    obtain r2 d2 where q: "q = (r2, d2)" by (cases q)
    have "codec_kept d1 d2"
      using t softwareFallback_kept [of ff pkt d1 r2 d2] by (auto simp: t_def q codec_kept_def split: if_splits)
    then show ?thesis using d1 by (cases r2) (simp_all add: step t q codec_kept_def)
  qed
qed

lemma codec_kept_trans: "codec_kept a b \<Longrightarrow> codec_kept b c \<Longrightarrow> codec_kept a c"
  by (simp add: codec_kept_def)

lemma receiveLoop_kept:
  assumes "receiveLoop ff pkt d fs = Some r"
  shows "codec_kept d (fst r)"
proof -
  have "\<forall>r'. r = r' \<longrightarrow> codec_kept d (fst r')"
    using assms
  proof (rule receiveLoop.raw_induct [rotated], intro allI impI)
    fix loop ff pkt d fs y r'
    assume IH: "\<And>ff pkt d fs y. loop ff pkt d fs = Some y \<Longrightarrow> \<forall>r'. y = r' \<longrightarrow> codec_kept d (fst r')"
      and eq: "(case fst (receiveOne ff pkt d) of None \<Rightarrow> Some (snd (receiveOne ff pkt d), fs)
          | Some f \<Rightarrow> loop ff pkt (snd (receiveOne ff pkt d)) (fs @ [f])) = Some y" and "y = r'"
    then show "codec_kept d (fst r')"
      using receiveOne_kept [of d ff pkt]
      by (auto split: option.splits dest!: IH dest: codec_kept_trans)
  qed
  then show ?thesis by simp
qed

lemma sendPacket_kept: "codec_kept d (snd (sendPacket ff pkt d))"
  by (auto simp: sendPacket_def codec_kept_def split: option.split prod.split)

lemma parseStep_kept:
  "parseStep ff data d = ParseError d1 \<Longrightarrow> codec_kept d d1"
  "parseStep ff data d = Parsed rest pkt d1 \<Longrightarrow> codec_kept d d1"
  by (auto simp: parseStep_def codec_kept_def Let_def split: option.splits prod.splits)

lemma parseLoop_kept:
  assumes "parseLoop ff data d fs = Some r"
  shows "codec_kept d (fst r)"
proof -
  have "\<forall>r'. r = r' \<longrightarrow> codec_kept d (fst r')"
    using assms
  proof (rule parseLoop.raw_induct [rotated], intro allI impI)
    fix loop ff data d fs y r'
    assume IH: "\<And>ff data d fs y. loop ff data d fs = Some y \<Longrightarrow> \<forall>r'. y = r' \<longrightarrow> codec_kept d (fst r')"
      and eq: "(if data = [] then Some (d, fs, False)
         else case parseStep ff data d of
           NullParser \<Rightarrow> Some (d, fs, True)
         | ParseError d1 \<Rightarrow> Some (d1, fs, False)
         | Parsed rest pkt d1 \<Rightarrow>
             if pkt = [] then loop ff rest d1 fs
             else if \<not> fst (sendPacket ff pkt d1) then loop ff rest (snd (sendPacket ff pkt d1)) fs
             else Option.bind (receiveLoop ff pkt (snd (sendPacket ff pkt d1)) fs)
                    (\<lambda>r. loop ff rest (fst r) (snd r))) = Some y" and r: "y = r'"
    have IH': "codec_kept d (fst y)" if "loop ff data d fs = Some y" for data d fs y
      using IH [OF that] by simp
    show "codec_kept d (fst r')"
    proof (cases "data = [] \<or> parseStep ff data d = NullParser")
      case True
      then show ?thesis using eq r by (cases "data = []") (auto simp: codec_kept_def)
    next
      case False
      then consider d1 where "parseStep ff data d = ParseError d1"
        | rest pkt d1 where "parseStep ff data d = Parsed rest pkt d1"
        by (cases "parseStep ff data d") auto
      then show ?thesis
      proof cases
        case 1
        then show ?thesis using eq r False parseStep_kept(1) [OF 1] by auto
      next
        case 2
        note sent = codec_kept_trans [OF parseStep_kept(2) [OF 2] sendPacket_kept [of d1 ff pkt]]
        show ?thesis
          using eq r False parseStep_kept(2) [OF 2]
          by (auto simp: 2 split: if_splits bind_splits
              dest!: IH' receiveLoop_kept intro: codec_kept_trans [OF sent] codec_kept_trans)
      qed
    qed
  qed
  then show ?thesis by simp
qed

lemma detectStep_result:
  assumes "detectStep ff yaml data d = (ok, d')"
  shows "vd_streamGeneration d' = vd_streamGeneration d \<and> (\<not> ok \<longrightarrow> \<not> vd_operational d')"
  using assms initCodec_result [of ff yaml "detectCodec data" "d\<lparr>vd_codecDetected := True\<rparr>"]
  by (cases "initCodec ff yaml (detectCodec data) (d\<lparr>vd_codecDetected := True\<rparr>)")
     (auto simp: detectStep_def Let_def codec_kept_def split: if_splits)

lemma processFrame_result:
  assumes "processFrame ff yaml data d = Some (d', fs, crashed, err)"
  shows "vd_streamGeneration d' = vd_streamGeneration d" and "err \<noteq> None \<Longrightarrow> \<not> vd_operational d'"
proof -
  obtain ok d1 where dt: "detectStep ff yaml data d = (ok, d1)" by (cases "detectStep ff yaml data d")
  show "vd_streamGeneration d' = vd_streamGeneration d"
    using assms detectStep_result [OF dt]
    by (auto simp: processFrame_def dt codec_kept_def dest!: parseLoop_kept split: if_splits option.splits prod.splits)
  show "\<not> vd_operational d'" if "err \<noteq> None"
    using assms that detectStep_result [OF dt]
    by (auto simp: processFrame_def dt split: if_splits option.splits prod.splits)
qed

lemma set_skip_generation [simp]: "vd_streamGeneration (set_skip ff depth c) = vd_streamGeneration c"
  by (simp add: set_skip_def)

section \<open>The invariant of the two threads\<close>

text \<open>
  The owner's view of the current stream is its generation and the packets handed over since it
  began.  The decoder is either still to begin it, with all packets queued, or has begun it and
  has fed the first packets to a codec of this stream.
\<close>

type_synonym stream = "(nat \<times> bytes list) option"

fun below :: "nat \<Rightarrow> work_item \<Rightarrow> bool" where
  "below n (WorkBegin g) \<longleftrightarrow> g < n"
| "below n (WorkEnd g) \<longleftrightarrow> g < n"
| "below n (WorkFrame _) \<longleftrightarrow> True"

fun announces :: "nat \<Rightarrow> decoder_signal \<Rightarrow> bool" where
  "announces g (SigFrameReady g') \<longleftrightarrow> g' = g"
| "announces g _ \<longleftrightarrow> False"

definition older :: "nat \<Rightarrow> ('c, 'x, 'p, 'f) decoder \<Rightarrow> bool" where
  "older n d \<longleftrightarrow> vd_streamGeneration (dc_codec d) < n
     \<and> (\<forall>s\<in>set (dc_signals d). \<forall>g. announces g s \<longrightarrow> g < n)"

fun pc_older :: "nat \<Rightarrow> 'f worker_pc \<Rightarrow> bool" where
  "pc_older n (PcItem it _) \<longleftrightarrow> below n it"
| "pc_older n _ \<longleftrightarrow> True"

definition awaiting_begin :: "nat \<Rightarrow> bytes list \<Rightarrow> ('c, 'x, 'p, 'f) decoder \<Rightarrow> bool" where
  "awaiting_begin g ps d \<longleftrightarrow> older g d
     \<and> ((\<exists>bs. dc_queue d = bs @ WorkBegin g # map WorkFrame ps \<and> list_all is_boundary bs
            \<and> list_all (below g) bs \<and> pc_older g (dc_pc d))
        \<or> (\<exists>n. dc_queue d = map WorkFrame ps \<and> dc_pc d = PcItem (WorkBegin g) n))"

fun pc_running :: "bytes list \<Rightarrow> bytes list \<Rightarrow> bytes list \<Rightarrow> 'f av_frame list \<Rightarrow> 'f worker_pc \<Rightarrow> bool" where
  "pc_running ps qs ws fs (PcItem it _) \<longleftrightarrow> (\<exists>b. it = WorkFrame b \<and> ps = qs @ b # ws)"
| "pc_running ps qs ws fs (PcStore r _) \<longleftrightarrow> ps = qs @ ws \<and> set r \<subseteq> set fs"
| "pc_running ps qs ws fs (PcFlag r _) \<longleftrightarrow> ps = qs @ ws \<and> set r \<subseteq> set fs"
| "pc_running ps qs ws fs (PcSignal r _) \<longleftrightarrow> ps = qs @ ws \<and> set r \<subseteq> set fs"
| "pc_running ps qs ws fs _ \<longleftrightarrow> ps = qs @ ws"

definition running :: "('c, 'x, 'p, 'f) ffmpeg \<Rightarrow> nat \<Rightarrow> bytes list \<Rightarrow> ('c, 'x, 'p, 'f) decoder \<Rightarrow> bool" where
  "running ff g ps d \<longleftrightarrow> vd_streamGeneration (dc_codec d) = g
     \<and> (\<exists>ws qs fs. dc_queue d = map WorkFrame ws \<and> stream_run ff qs (dc_codec d) fs
          \<and> pc_running ps qs ws fs (dc_pc d) \<and> set_option (dc_latest d) \<subseteq> set fs)"

lemma runningI:
  "vd_streamGeneration (dc_codec d) = g \<Longrightarrow> dc_queue d = map WorkFrame ws \<Longrightarrow> stream_run ff qs (dc_codec d) fs
    \<Longrightarrow> pc_running ps qs ws fs (dc_pc d) \<Longrightarrow> set_option (dc_latest d) \<subseteq> set fs \<Longrightarrow> running ff g ps d"
  unfolding running_def by blast

definition stream_inv :: "('c, 'x, 'p, 'f) ffmpeg \<Rightarrow> stream \<Rightarrow> ('c, 'x, 'p, 'f) decoder \<Rightarrow> bool" where
  "stream_inv ff h d \<longleftrightarrow> older (Suc (dc_nextGeneration d)) d
     \<and> list_all (below (Suc (dc_nextGeneration d))) (dc_queue d)
     \<and> pc_older (Suc (dc_nextGeneration d)) (dc_pc d)
     \<and> (case h of
          None \<Rightarrow> \<not> dc_accepting d \<and> list_all is_boundary (dc_queue d)
        | Some (g, ps) \<Rightarrow> dc_worker d \<and> dc_accepting d \<and> g = dc_nextGeneration d
            \<and> (awaiting_begin g ps d \<or> running ff g ps d))"

lemma boundaries_filter [simp]: "list_all is_boundary (filter is_boundary q)"
  by (simp add: list_all_iff)

lemma below_filter: "list_all (below n) q \<Longrightarrow> list_all (below n) (filter is_boundary q)"
  by (simp add: list_all_iff)

lemma below_frames [simp]: "list_all (below n) (map WorkFrame ps)"
  by (simp add: list_all_iff)

lemma below_Suc: "below n it \<Longrightarrow> below (Suc n) it"
  by (cases it) auto

lemma below_mono: "below n it \<Longrightarrow> n \<le> m \<Longrightarrow> below m it"
  by (cases it) auto

lemma older_mono: "older n d \<Longrightarrow> n \<le> m \<Longrightarrow> older m d"
  by (fastforce simp: older_def)

lemma pc_older_mono: "pc_older n pc \<Longrightarrow> n \<le> m \<Longrightarrow> pc_older m pc"
  by (cases pc) (auto intro: below_mono)

lemma older_cong:
  "vd_streamGeneration (dc_codec d') = vd_streamGeneration (dc_codec d) \<Longrightarrow> dc_signals d' = dc_signals d
    \<Longrightarrow> older n d' = older n d"
  by (simp add: older_def)

section \<open>The owner's operations\<close>

lemma inv_new: "stream_inv ff None (decoder_new ff hwDevice allocated)"
proof -
  define c :: "('a, 'b, 'c) codec_state" where "c = \<lparr>vd_codec = None, vd_codecCtx = None, vd_hwaccel = False, vd_parser = None,
               vd_activeCodecId = AV_CODEC_ID_H264, vd_codecDetected = False, vd_usingHardware = False,
               vd_firstFrameDecoded = False, vd_streamGeneration = 0, vd_operational = False,
               vd_hwDevice = hwDevice\<rparr>"
  obtain ok c1 where i: "initCodec ff None AV_CODEC_ID_H264 c = (ok, c1)"
    by (cases "initCodec ff None AV_CODEC_ID_H264 c")
  have "vd_streamGeneration c = 0" by (simp add: c_def)
  then show ?thesis
    using initCodec_result [OF i]
    by (cases allocated)
       (auto simp: decoder_new_def c_def [symmetric] i stream_inv_def older_def codec_kept_def)
qed

lemma inv_begin:
  assumes "stream_inv ff h d" and "beginStream d = (g, d')"
  shows "stream_inv ff (if g = 0 then h else Some (g, [])) d'"
proof (cases "dc_worker d")
  case False
  then show ?thesis using assms by (simp add: beginStream_def)
next
  case True
  let ?bs = "filter is_boundary (dc_queue d)"
  have g: "g = Suc (dc_nextGeneration d)"
    and d': "d' = d\<lparr>dc_accepting := True, dc_nextGeneration := g, dc_queue := ?bs @ [WorkBegin g]\<rparr>"
    using assms(2) True by (auto simp: beginStream_def Let_def)
  have old: "older g d" "list_all (below g) ?bs" "pc_older g (dc_pc d)"
    using assms(1) by (auto simp: stream_inv_def g below_filter)
  then have "older g d'" by (simp add: older_def d')
  moreover have "list_all (below (Suc g)) ?bs"
    using old(2) by (auto simp: list_all_iff intro: below_Suc)
  ultimately show ?thesis
    using True old older_mono [of g d' "Suc g"] pc_older_mono [of g "dc_pc d" "Suc g"]
    by (auto simp: stream_inv_def awaiting_begin_def d' g)
qed

lemma inv_end: "stream_inv ff h d \<Longrightarrow> stream_inv ff None (endStream d)"
proof -
  assume inv: "stream_inv ff h d"
  have boundaries: "list_all is_boundary (dc_queue d)" if "\<not> dc_worker d"
    using inv that by (auto simp: stream_inv_def split: option.splits)
  show ?thesis
    using inv boundaries by (auto simp: stream_inv_def endStream_def Let_def older_def below_filter)
qed

lemma inv_decode:
  assumes "stream_inv ff h d"
  shows "stream_inv ff (map_option (\<lambda>(g, ps). (g, ps @ [b])) h) (decodeFrame b d)"
proof (cases h)
  case None
  then show ?thesis using assms by (simp add: stream_inv_def decodeFrame_def)
next
  case (Some q)
  obtain g ps where q: "q = (g, ps)" by (cases q)
  let ?d = "d\<lparr>dc_queue := dc_queue d @ [WorkFrame b]\<rparr>"
  have eq: "decodeFrame b d = ?d" using assms by (simp add: stream_inv_def decodeFrame_def Some q)
  have older: "older n ?d = older n d" for n by (rule older_cong) simp_all
  have w: "awaiting_begin g (ps @ [b]) ?d" if "awaiting_begin g ps d"
    using that by (auto simp: awaiting_begin_def older)
  have r: "running ff g (ps @ [b]) ?d" if r: "running ff g ps d"
  proof -
    obtain ws qs fs where "dc_queue d = map WorkFrame ws" and "stream_run ff qs (dc_codec d) fs"
      and "pc_running ps qs ws fs (dc_pc d)" and "set_option (dc_latest d) \<subseteq> set fs"
      using r by (auto simp: running_def)
    moreover then have "pc_running (ps @ [b]) qs (ws @ [b]) fs (dc_pc d)"
      by (cases "dc_pc d") auto
    ultimately show ?thesis
      using r by (intro runningI [of _ _ "ws @ [b]" _ qs fs]) (simp_all add: running_def)
  qed
  show ?thesis using assms w r by (auto simp: eq Some q stream_inv_def older)
qed

lemma stream_inv_cong:
  assumes "stream_inv ff h d" and "dc_codec d' = dc_codec d" "dc_worker d' = dc_worker d" "dc_queue d' = dc_queue d"
    "dc_nextGeneration d' = dc_nextGeneration d" "dc_accepting d' = dc_accepting d" "dc_pc d' = dc_pc d"
    "set_option (dc_latest d') \<subseteq> set_option (dc_latest d)" "set (dc_signals d') \<subseteq> set (dc_signals d)"
  shows "stream_inv ff h d'"
proof -
  have o: "older n d \<Longrightarrow> older n d'" for n using assms(2,9) by (auto simp: older_def)
  then have "awaiting_begin g ps d \<Longrightarrow> awaiting_begin g ps d'" for g ps using assms by (auto simp: awaiting_begin_def)
  moreover have "running ff g ps d \<Longrightarrow> running ff g ps d'" for g ps
    using assms(2,4,7,8) unfolding running_def by (metis subset_trans)
  ultimately show ?thesis using assms o by (auto simp: stream_inv_def split: option.splits)
qed

lemma inv_sink: "stream_inv ff h d \<Longrightarrow> stream_inv ff h (setVideoSink sink d)"
  by (erule stream_inv_cong) (simp_all add: setVideoSink_def)

lemma inv_label: "stream_inv ff h d \<Longrightarrow> stream_inv ff h (setDiagnosticLabel l d)"
  by (erule stream_inv_cong) (simp_all add: setDiagnosticLabel_def)

lemma inv_take: "stream_inv ff h d \<Longrightarrow> stream_inv ff h (snd (takeLatestFrame d))"
  by (erule stream_inv_cong) (simp_all add: takeLatestFrame_def)

lemma inv_signals: "stream_inv ff h d \<Longrightarrow> set sigs \<subseteq> set (dc_signals d) \<Longrightarrow> stream_inv ff h (d\<lparr>dc_signals := sigs\<rparr>)"
  by (erule stream_inv_cong) simp_all

text \<open>The frame taken when the current generation is announced belongs to the current stream.\<close>

lemma taken_frame:
  assumes "stream_inv ff (Some (g, ps)) d" and "SigFrameReady g \<in> set (dc_signals d)"
    and "fst (takeLatestFrame d) = Some f"
  shows "frame_of_stream ff ps f"
proof -
  have "\<not> older g d" using assms(2) announces.simps(1) [of g g] by (fastforce simp: older_def)
  then have "running ff g ps d" using assms(1) by (auto simp: stream_inv_def awaiting_begin_def)
  then obtain ws qs fs where run: "stream_run ff qs (dc_codec d) fs" and pc: "pc_running ps qs ws fs (dc_pc d)"
    and f: "set_option (dc_latest d) \<subseteq> set fs"
    by (auto simp: running_def)
  have "f \<in> set fs" using assms(3) f by (auto simp: takeLatestFrame_def split: if_splits)
  moreover obtain vs where "ps = qs @ vs" using pc by (cases "dc_pc d") auto
  ultimately show ?thesis using frame_of_streamI [OF run] by simp
qed

section \<open>The steps of the decode thread\<close>

text \<open>Two decoders that differ only in what the decode thread may change between two of its items.\<close>

definition announced_gens :: "('c, 'x, 'p, 'f) decoder \<Rightarrow> nat set" where
  "announced_gens d = {g. \<exists>s\<in>set (dc_signals d). announces g s}"

definition same_queue :: "('c, 'x, 'p, 'f) decoder \<Rightarrow> ('c, 'x, 'p, 'f) decoder \<Rightarrow> bool" where
  "same_queue d d' \<longleftrightarrow> dc_worker d' = dc_worker d \<and> dc_queue d' = dc_queue d
     \<and> dc_nextGeneration d' = dc_nextGeneration d \<and> dc_accepting d' = dc_accepting d
     \<and> announced_gens d' \<subseteq> announced_gens d"

lemma older_announced: "older n d \<longleftrightarrow> vd_streamGeneration (dc_codec d) < n \<and> (\<forall>g\<in>announced_gens d. g < n)"
  by (auto simp: older_def announced_gens_def)

lemma codec_flag_id: "\<not> vd_operational c \<Longrightarrow> c\<lparr>vd_operational := False\<rparr> = c"
  by simp

lemma report_result:
  "same_queue d (reportStreamError g m d)" "dc_pc (reportStreamError g m d) = dc_pc d"
  "dc_latest (reportStreamError g m d) = dc_latest d"
  "dc_codec (reportStreamError g m d) = (dc_codec d)\<lparr>vd_operational := False\<rparr>"
  by (auto simp: reportStreamError_def same_queue_def announced_gens_def)

lemma same_queue_trans: "same_queue a b \<Longrightarrow> same_queue b c \<Longrightarrow> same_queue a c"
  by (auto simp: same_queue_def)

lemma opened_flag [simp]: "opened ff (c\<lparr>vd_operational := b\<rparr>) = opened ff c"
  by (simp add: opened_def)

lemma fresh_codec_opened:
  "fresh_codec ff c \<longleftrightarrow> \<not> vd_codecDetected c \<and> \<not> vd_firstFrameDecoded c \<and> opened ff c"
  by (simp add: fresh_codec_def opened_def)

lemma reset_result:
  "same_queue d (resetForNewStream ff yaml g d)"
  "vd_streamGeneration (dc_codec (resetForNewStream ff yaml g d)) = g"
  "fresh_codec ff (dc_codec (resetForNewStream ff yaml g d))"
  "dc_latest (resetForNewStream ff yaml g d) = None"
proof -
  define d1 where "d1 = clearBufferedFrames (d\<lparr>dc_codec := (dc_codec d)\<lparr>vd_streamGeneration := g, vd_codecDetected := False\<rparr>\<rparr>)"
  obtain ok c where i: "initCodec ff yaml AV_CODEC_ID_H264 (dc_codec d1) = (ok, c)"
    by (cases "initCodec ff yaml AV_CODEC_ID_H264 (dc_codec d1)")
  have r: "resetForNewStream ff yaml g d = (if ok then d1\<lparr>dc_codec := c\<lparr>vd_operational := True\<rparr>\<rparr>
      else reportStreamError g ''failed to reset decoder'' (d1\<lparr>dc_codec := c\<rparr>))"
    by (simp add: resetForNewStream_def d1_def [symmetric] i Let_def)
  have c: "opened ff c" "\<not> vd_firstFrameDecoded c" "\<not> vd_codecDetected c" "vd_streamGeneration c = g"
    using initCodec_result [OF i] by (auto simp: codec_kept_def d1_def clearBufferedFrames_def)
  show "vd_streamGeneration (dc_codec (resetForNewStream ff yaml g d)) = g"
    and "fresh_codec ff (dc_codec (resetForNewStream ff yaml g d))"
    using c by (auto simp: r report_result fresh_codec_opened)
  show "dc_latest (resetForNewStream ff yaml g d) = None"
    by (simp add: r report_result d1_def clearBufferedFrames_def)
  show "same_queue d (resetForNewStream ff yaml g d)"
    by (auto simp: r d1_def clearBufferedFrames_def same_queue_def announced_gens_def reportStreamError_def)
qed

lemma finish_result:
  "same_queue d (finishStream ff g d)" "vd_streamGeneration (dc_codec (finishStream ff g d)) = g"
  by (auto simp: finishStream_def clearBufferedFrames_def same_queue_def announced_gens_def Let_def)

lemma work_frame_result:
  assumes "work_frame ff yaml b depth d = Some d'"
  obtains fs crashed err where "processFrame ff yaml b (set_skip ff depth (dc_codec d)) = Some (dc_codec d', fs, crashed, err)"
    and "same_queue d d'" and "dc_pc d' = PcStore fs crashed" and "dc_latest d' = dc_latest d"
    and "vd_streamGeneration (dc_codec d') = vd_streamGeneration (dc_codec d)"
proof -
  obtain c fs crashed err where p: "processFrame ff yaml b (set_skip ff depth (dc_codec d)) = Some (c, fs, crashed, err)"
    using assms by (auto simp: work_frame_def split: option.splits)
  define d1 where "d1 = d\<lparr>dc_codec := c, dc_pc := PcStore fs crashed\<rparr>"
  have d': "d' = (case err of None \<Rightarrow> d1 | Some m \<Rightarrow> reportStreamError (vd_streamGeneration c) m d1)"
    using assms by (cases err) (auto simp: work_frame_def p d1_def Let_def)
  have c: "dc_codec d' = c"
    using processFrame_result(2) [OF p] by (cases err) (simp_all add: d' d1_def report_result)
  show thesis
  proof (rule that)
    show "processFrame ff yaml b (set_skip ff depth (dc_codec d)) = Some (dc_codec d', fs, crashed, err)"
      by (simp add: c p)
    show "same_queue d d'" by (cases err) (auto simp: d' d1_def same_queue_def announced_gens_def reportStreamError_def)
    show "dc_pc d' = PcStore fs crashed" "dc_latest d' = dc_latest d"
      by (cases err; simp add: d' d1_def report_result)+
    show "vd_streamGeneration (dc_codec d') = vd_streamGeneration (dc_codec d)"
      using processFrame_result(1) [OF p] by (simp add: c)
  qed
qed

text \<open>
  A step that leaves the queue alone keeps the invariant when it stays behind the current
  generation while the stream is waiting, and follows it once the stream is running.
\<close>

lemma inv_step:
  assumes inv: "stream_inv ff h d" and same: "same_queue d d'"
    and old: "\<And>n. pc_older n (dc_pc d) \<Longrightarrow> vd_streamGeneration (dc_codec d) < n
                \<Longrightarrow> pc_older n (dc_pc d') \<and> vd_streamGeneration (dc_codec d') < n"
    and start: "\<And>g n ps. h = Some (g, ps) \<Longrightarrow> dc_queue d = map WorkFrame ps \<Longrightarrow> dc_pc d = PcItem (WorkBegin g) n
                \<Longrightarrow> running ff g ps d'"
    and run: "\<And>g ps. h = Some (g, ps) \<Longrightarrow> running ff g ps d \<Longrightarrow> running ff g ps d'"
  shows "stream_inv ff h d'"
proof -
  have older: "older n d'" if "older n d" "pc_older n (dc_pc d)" for n
    using that old same by (auto simp: older_announced same_queue_def)
  have pc: "pc_older n (dc_pc d')" if "older n d" "pc_older n (dc_pc d)" for n
    using that old by (auto simp: older_announced)
  have w: "awaiting_begin g ps d' \<or> running ff g ps d'" if "h = Some (g, ps)" "awaiting_begin g ps d" for g ps
    using that older pc start same by (auto simp: awaiting_begin_def same_queue_def)
  show ?thesis
    using inv older pc w run same by (auto simp: stream_inv_def same_queue_def split: option.splits)
qed

lemma running_frames:
  assumes "running ff g ps d" and "same_queue d d'" and "dc_codec d' = dc_codec d"
    and "\<And>ps qs ws fs. pc_running ps qs ws fs (dc_pc d) \<Longrightarrow> set_option (dc_latest d) \<subseteq> set fs
           \<Longrightarrow> pc_running ps qs ws fs (dc_pc d') \<and> set_option (dc_latest d') \<subseteq> set fs"
  shows "running ff g ps d'"
proof -
  obtain ws qs fs where r: "vd_streamGeneration (dc_codec d) = g" "dc_queue d = map WorkFrame ws"
    "stream_run ff qs (dc_codec d) fs" "pc_running ps qs ws fs (dc_pc d)" "set_option (dc_latest d) \<subseteq> set fs"
    using assms(1) unfolding running_def by blast
  show ?thesis
    by (rule runningI [of _ _ ws _ qs fs])
       (use r assms(2,3) assms(4) [OF r(4,5)] in \<open>simp_all add: same_queue_def\<close>)
qed

text \<open>Storing and announcing frames, one access at a time.\<close>

lemma inv_deliver:
  assumes inv: "stream_inv ff h d" and "same_queue d d' \<or> (\<exists>fs c. dc_pc d = PcSignal fs c) \<and>
       d' = d\<lparr>dc_pc := dc_pc d', dc_signals := dc_signals d @ [SigFrameReady (vd_streamGeneration (dc_codec d))]\<rparr>"
    and "\<nexists>it n. dc_pc d = PcItem it n" and "dc_codec d' = dc_codec d"
    and pc: "\<And>n. pc_older n (dc_pc d')"
    and run: "\<And>ps qs ws fs. pc_running ps qs ws fs (dc_pc d) \<Longrightarrow> set_option (dc_latest d) \<subseteq> set fs
           \<Longrightarrow> pc_running ps qs ws fs (dc_pc d') \<and> set_option (dc_latest d') \<subseteq> set fs"
  shows "stream_inv ff h d'"
proof (cases "same_queue d d'")
  case True
  then show ?thesis
    using assms by (intro inv_step [OF inv True]) (auto intro: running_frames)
next
  case False
  let ?g = "vd_streamGeneration (dc_codec d)"
  have d': "d' = d\<lparr>dc_pc := dc_pc d', dc_signals := dc_signals d @ [SigFrameReady ?g]\<rparr>"
    using assms(2) False by blast
  have fields: "dc_queue d' = dc_queue d" "dc_nextGeneration d' = dc_nextGeneration d" "dc_worker d' = dc_worker d"
    "dc_accepting d' = dc_accepting d" "dc_signals d' = dc_signals d @ [SigFrameReady ?g]"
    by (subst d'; simp)+
  have older: "older n d' = older n d" for n
    using assms(4) by (auto simp: older_def fields)
  have w: "awaiting_begin g ps d \<Longrightarrow> awaiting_begin g ps d'" for g ps
    using assms(3) pc by (auto simp: awaiting_begin_def older fields)
  have r: "running ff g ps d'" if l: "running ff g ps d" for g ps
  proof -
    obtain ws qs fs where r: "vd_streamGeneration (dc_codec d) = g" "dc_queue d = map WorkFrame ws"
      "stream_run ff qs (dc_codec d) fs" "pc_running ps qs ws fs (dc_pc d)" "set_option (dc_latest d) \<subseteq> set fs"
      using l unfolding running_def by blast
    show ?thesis
      by (rule runningI [of _ _ ws _ qs fs]) (use r run [OF r(4,5)] assms(4) in \<open>simp_all add: fields\<close>)
  qed
  show ?thesis using inv w r pc by (auto simp: stream_inv_def older fields split: option.splits)
qed

lemma inv_pop:
  assumes inv: "stream_inv ff h d" and idle: "dc_pc d = PcIdle" and q: "dc_queue d = item # q"
  shows "stream_inv ff h (d\<lparr>dc_queue := q, dc_pc := PcItem item n\<rparr>)" (is "stream_inv ff h ?d")
proof -
  have older: "older m (d\<lparr>dc_queue := q', dc_pc := pc\<rparr>) = older m d" for m q' pc by (rule older_cong) simp_all
  have w: "awaiting_begin g ps ?d" if w: "awaiting_begin g ps d" for g ps
  proof -
    obtain bs where bs: "item # q = bs @ WorkBegin g # map WorkFrame ps" "list_all is_boundary bs" "list_all (below g) bs"
      and "older g d"
      using w idle q by (auto simp: awaiting_begin_def)
    then show ?thesis by (cases bs) (auto simp: awaiting_begin_def older)
  qed
  have r: "running ff g ps ?d" if r: "running ff g ps d" for g ps
  proof -
    obtain ws qs fs where r: "vd_streamGeneration (dc_codec d) = g" "item # q = map WorkFrame ws"
      "stream_run ff qs (dc_codec d) fs" "ps = qs @ ws" "set_option (dc_latest d) \<subseteq> set fs"
      using r idle q unfolding running_def by (metis pc_running.simps(5))
    then obtain b vs where "ws = b # vs" "item = WorkFrame b" "q = map WorkFrame vs" by (cases ws) auto
    then show ?thesis by (intro runningI [of _ _ vs _ qs fs]) (use r in auto)
  qed
  show ?thesis using inv w r q by (auto simp: stream_inv_def older split: option.splits)
qed

lemma inv_worker:
  assumes inv: "stream_inv ff h d" and step: "worker_step ff yaml mapped d = Some d'"
  shows "stream_inv ff h d'"
proof (cases "dc_pc d")
  case PcIdle
  then show ?thesis
    using step inv_pop [OF inv PcIdle] by (auto simp: worker_step_def split: if_splits list.splits)
next
  case (PcItem item n)
  show ?thesis
  proof (cases item)
    case (WorkBegin g)
    have d': "d' = (resetForNewStream ff yaml g d)\<lparr>dc_pc := PcIdle\<rparr>"
      using step by (simp add: worker_step_def PcItem WorkBegin split: if_splits)
    have same: "same_queue d d'" using reset_result(1) [of d ff yaml g] by (auto simp: d' same_queue_def announced_gens_def)
    have run: "running ff g ps d'" if "dc_queue d = map WorkFrame ps" for ps
      by (rule runningI [of _ _ ps _ "[]" "[]"])
         (use that reset_result(1) [of d ff yaml g] in \<open>auto simp: d' same_queue_def reset_result(2-4) intro: stream_run.run_start\<close>)
    show ?thesis
      by (rule inv_step [OF inv same])
         (use run in \<open>auto simp: PcItem WorkBegin d' running_def reset_result\<close>)
  next
    case (WorkEnd g)
    have d': "d' = (finishStream ff g d)\<lparr>dc_pc := PcIdle\<rparr>"
      using step by (simp add: worker_step_def PcItem WorkEnd split: if_splits)
    have same: "same_queue d d'" using finish_result(1) [of d ff g] by (auto simp: d' same_queue_def announced_gens_def)
    show ?thesis
      by (rule inv_step [OF inv same]) (auto simp: PcItem WorkEnd d' finish_result running_def)
  next
    case (WorkFrame b)
    have "work_frame ff yaml b n d = Some d'"
      using step by (simp add: worker_step_def PcItem WorkFrame split: if_splits)
    then obtain fs crashed err where p: "processFrame ff yaml b (set_skip ff n (dc_codec d)) = Some (dc_codec d', fs, crashed, err)"
      and same: "same_queue d d'" and pc: "dc_pc d' = PcStore fs crashed" and latest: "dc_latest d' = dc_latest d"
      and gen: "vd_streamGeneration (dc_codec d') = vd_streamGeneration (dc_codec d)"
      by (rule work_frame_result)
    have run: "running ff g ps d'" if r: "running ff g ps d" for g ps
    proof -
      obtain ws qs gs where r: "vd_streamGeneration (dc_codec d) = g" "dc_queue d = map WorkFrame ws"
        "stream_run ff qs (dc_codec d) gs" "ps = qs @ b # ws" "set_option (dc_latest d) \<subseteq> set gs"
        using r by (auto simp: running_def PcItem WorkFrame)
      show ?thesis
        by (rule runningI [of _ _ ws _ "qs @ [b]" "gs @ fs"])
           (use r same gen pc latest stream_run.run_packet [OF r(3) p] in \<open>auto simp: same_queue_def\<close>)
    qed
    show ?thesis by (rule inv_step [OF inv same]) (auto simp: PcItem WorkFrame pc gen intro: run)
  qed
next
  case (PcStore fs crashed)
  show ?thesis
  proof (cases fs)
    case Nil
    show ?thesis
      by (rule inv_deliver [OF inv])
         (use step in \<open>auto simp: worker_step_def PcStore Nil same_queue_def announced_gens_def split: if_splits\<close>)
  next
    case (Cons f rest)
    show ?thesis
      by (rule inv_deliver [OF inv])
         (use step in \<open>auto simp: worker_step_def PcStore Cons same_queue_def announced_gens_def split: if_splits\<close>)
  qed
next
  case (PcFlag fs crashed)
  show ?thesis
    by (rule inv_deliver [OF inv])
       (use step in \<open>auto simp: worker_step_def PcFlag same_queue_def announced_gens_def split: if_splits\<close>)
next
  case (PcSignal fs crashed)
  show ?thesis
    by (rule inv_deliver [OF inv])
       (use step in \<open>auto simp: worker_step_def PcSignal same_queue_def announced_gens_def split: if_splits\<close>)
next
  case PcCrashed
  then show ?thesis using step by (simp add: worker_step_def split: if_splits)
qed

end
