(* ===== verification/Display_Session.thy ===== *)
theory Display_Session
  imports Video_Stream Complex_Main
begin

text \<open>
  \<open>oap::aa::ProjectedDisplaySession\<close> (\<open>ProjectedDisplaySession.cpp\<close>) and the profile of the
  cluster display (\<open>ProjectedDisplayConfig.cpp\<close>).  A display owns a decoder; it reacts to the
  phone's video channel, to the protocol session and to the signals the decode thread queues,
  and hands decoded frames to the sink of its view.

  Every operation returns the events it causes: the calls to the decoder, the frames handed to
  a sink and the signals of the display.  The slots connected to these signals do not call back
  into the display.  Only log messages are left out.
\<close>

section \<open>Profile of the cluster display\<close>

datatype display_role = RoleMain | RoleCluster

record viewport =
  vp_encodedWidth :: int
  vp_encodedHeight :: int
  vp_contentWidth :: int
  vp_contentHeight :: int

definition marginWidth :: "viewport \<Rightarrow> int" where "marginWidth v = vp_encodedWidth v - vp_contentWidth v"
definition marginHeight :: "viewport \<Rightarrow> int" where "marginHeight v = vp_encodedHeight v - vp_contentHeight v"

text \<open>Half of a margin, rounded towards zero.\<close>

definition half :: "int \<Rightarrow> int" where "half m = (if m < 0 then - (- m div 2) else m div 2)"
definition contentX :: "viewport \<Rightarrow> int" where "contentX v = half (marginWidth v)"
definition contentY :: "viewport \<Rightarrow> int" where "contentY v = half (marginHeight v)"

definition viewport_isValid :: "viewport \<Rightarrow> bool" where
  "viewport_isValid v \<longleftrightarrow> vp_encodedWidth v > 0 \<and> vp_encodedHeight v > 0
     \<and> vp_contentWidth v > 0 \<and> vp_contentHeight v > 0
     \<and> vp_contentWidth v \<le> vp_encodedWidth v \<and> vp_contentHeight v \<le> vp_encodedHeight v
     \<and> marginWidth v mod 2 = 0 \<and> marginHeight v mod 2 = 0"

record cluster_profile =
  cp_resolution :: string
  cp_dpi :: int
  cp_contentWidth :: int
  cp_contentHeight :: int
  cp_nativeTurnCardAvailable :: bool

definition baseline_profile :: cluster_profile where
  "baseline_profile = \<lparr>cp_resolution = ''480p'', cp_dpi = 140, cp_contentWidth = 300, cp_contentHeight = 300,
     cp_nativeTurnCardAvailable = False\<rparr>"

definition profile_geometry :: "cluster_profile \<Rightarrow> viewport" where
  "profile_geometry p = (let is720p = (cp_resolution p = ''720p'') in
     \<lparr>vp_encodedWidth = (if is720p then 1280 else 800), vp_encodedHeight = (if is720p then 720 else 480),
      vp_contentWidth = cp_contentWidth p, vp_contentHeight = cp_contentHeight p\<rparr>)"

text \<open>
  A value of a profile update, by what the conversions to \<open>double\<close> make of it: \<open>VarNumber\<close> is a
  value of another type that converts, to \<open>None\<close> when the result is not finite.
\<close>

datatype profile_value = VarBool bool | VarString string | VarNumber "real option" | VarNone

type_synonym profile_update = "(string \<times> profile_value) list"

definition readInteger :: "profile_value \<Rightarrow> int option" where
  "readInteger v = (case v of
     VarNumber (Some x) \<Rightarrow>
       if of_int \<lfloor>x\<rfloor> \<noteq> x \<or> x < - 2147483648 \<or> x > 2147483647 then None else Some \<lfloor>x\<rfloor>
   | _ \<Rightarrow> None)"

definition profile_keys :: "string list" where
  "profile_keys = [''resolution'', ''dpi'', ''content_width'', ''content_height'', ''native_turn_card_available'']"

definition applyResolution :: "profile_update \<Rightarrow> cluster_profile \<Rightarrow> string + cluster_profile" where
  "applyResolution u p = (case map_of u ''resolution'' of
     None \<Rightarrow> Inr p
   | Some (VarString s) \<Rightarrow> Inr (p\<lparr>cp_resolution := map toLower_char s\<rparr>)
   | Some _ \<Rightarrow> Inl ''resolution must be a string'')"

definition applyInteger :: "profile_update \<Rightarrow> string \<Rightarrow> (int \<Rightarrow> cluster_profile \<Rightarrow> cluster_profile)
    \<Rightarrow> cluster_profile \<Rightarrow> string + cluster_profile" where
  "applyInteger u name upd p = (case map_of u name of
     None \<Rightarrow> Inr p
   | Some v \<Rightarrow> (case readInteger v of Some n \<Rightarrow> Inr (upd n p) | None \<Rightarrow> Inl (name @ '' must be an integer'')))"

definition applyTurnCard :: "profile_update \<Rightarrow> cluster_profile \<Rightarrow> string + cluster_profile" where
  "applyTurnCard u p = (case map_of u ''native_turn_card_available'' of
     None \<Rightarrow> Inr p
   | Some (VarBool b) \<Rightarrow> Inr (p\<lparr>cp_nativeTurnCardAvailable := b\<rparr>)
   | Some _ \<Rightarrow> Inl ''native_turn_card_available must be boolean'')"

definition checked :: "bool \<Rightarrow> string \<Rightarrow> cluster_profile \<Rightarrow> string + cluster_profile" where
  "checked ok message p = (if ok then Inr p else Inl message)"

definition and_then :: "string + cluster_profile \<Rightarrow> (cluster_profile \<Rightarrow> string + cluster_profile) \<Rightarrow> string + cluster_profile" where
  "and_then r f = (case r of Inl e \<Rightarrow> Inl e | Inr p \<Rightarrow> f p)"

definition applyProjectedClusterProfileUpdate :: "cluster_profile \<Rightarrow> profile_update \<Rightarrow> string + cluster_profile" where
  "applyProjectedClusterProfileUpdate current u = (
     if u = [] then Inl ''Profile update is empty''
     else case filter (\<lambda>k. k \<notin> set profile_keys) (map fst u) of
       k # _ \<Rightarrow> Inl (''Unknown profile key: '' @ k)
     | [] \<Rightarrow>
         and_then (applyResolution u current) (\<lambda>p.
         and_then (checked (cp_resolution p = ''480p'' \<or> cp_resolution p = ''720p'') ''resolution must be 480p or 720p'' p) (\<lambda>p.
         and_then (applyInteger u ''dpi'' (\<lambda>n p. p\<lparr>cp_dpi := n\<rparr>) p) (\<lambda>p.
         and_then (applyInteger u ''content_width'' (\<lambda>n p. p\<lparr>cp_contentWidth := n\<rparr>) p) (\<lambda>p.
         and_then (applyInteger u ''content_height'' (\<lambda>n p. p\<lparr>cp_contentHeight := n\<rparr>) p) (\<lambda>p.
         and_then (applyTurnCard u p) (\<lambda>p.
         and_then (checked (cp_dpi p \<ge> 80 \<and> cp_dpi p \<le> 640) ''dpi must be between 80 and 640'' p) (\<lambda>p.
         checked (viewport_isValid (profile_geometry p))
           ''content dimensions must fit the carrier with even centered margins'' p))))))))"

section \<open>State\<close>

datatype display_state =
  DsDisabled | DsDisconnected | DsWaitingForChannel | DsRejected | DsWaitingForFrames | DsRendering | DsError

record ('c, 'x, 'p, 'f) display =
  pd_role :: display_role
  pd_videoChannelId :: byte
  pd_inputChannelId :: byte
  pd_enabled :: bool
  pd_decoder :: "('c, 'x, 'p, 'f) decoder option"
  pd_state :: display_state
  pd_statusText :: string
  pd_protocolActive :: bool
  pd_terminalStateLatched :: bool
  pd_videoChannelOpen :: bool
  pd_protocolGeneration :: nat
  pd_activeDecoderGeneration :: nat
  pd_focusMode :: int
  pd_requestedProfile :: cluster_profile
  pd_activeProfile :: cluster_profile
  pd_profileGeneration :: nat
  pd_profileStatusText :: string
  pd_sink :: "nat option"

datatype 'f display_event =
    CallBeginStream nat
  | CallEndStream
  | CallDecodeFrame bytes
  | ShowFrame nat "'f av_frame"
  | DisplayStateChanged
  | ProfileDiagnosticsChanged
  | ClusterProfileChangeRequested
  | ViewportGeometryChanged
  | VideoSinkAvailabilityChanged

type_synonym ('c, 'x, 'p, 'f) display_result = "('c, 'x, 'p, 'f) display \<times> 'f display_event list"

definition roleName :: "display_role \<Rightarrow> string" where
  "roleName r = (if r = RoleMain then ''MAIN'' else ''CLUSTER'')"

definition diagnosticPrefix :: "display_role \<Rightarrow> byte \<Rightarrow> byte \<Rightarrow> string" where
  "diagnosticPrefix role displayId videoChannelId = roleName role @ ''[id='' @ dec_string (unat displayId)
     @ '',ch='' @ dec_string (unat videoChannelId) @ '']''"

definition display_new :: "display_role \<Rightarrow> byte \<Rightarrow> byte \<Rightarrow> byte \<Rightarrow> bool \<Rightarrow> cluster_profile
    \<Rightarrow> ('c, 'x, 'p, 'f) decoder \<Rightarrow> ('c, 'x, 'p, 'f) display" where
  "display_new role displayId videoChannelId inputChannelId enabled initialProfile decoder =
     \<lparr>pd_role = role, pd_videoChannelId = videoChannelId, pd_inputChannelId = inputChannelId, pd_enabled = enabled,
      pd_decoder = (if enabled then Some (setDiagnosticLabel (diagnosticPrefix role displayId videoChannelId) decoder) else None),
      pd_state = (if enabled then DsDisconnected else DsDisabled),
      pd_statusText = (if enabled then ''Android Auto disconnected'' else ''Projected display disabled''),
      pd_protocolActive = False, pd_terminalStateLatched = False, pd_videoChannelOpen = False,
      pd_protocolGeneration = 0, pd_activeDecoderGeneration = 0, pd_focusMode = 0,
      pd_requestedProfile = initialProfile, pd_activeProfile = initialProfile, pd_profileGeneration = 0,
      pd_profileStatusText = ''Using startup profile'', pd_sink = None\<rparr>"

section \<open>Operations\<close>

definition ds_setState :: "display_state \<Rightarrow> string \<Rightarrow> ('c, 'x, 'p, 'f) display \<Rightarrow> ('c, 'x, 'p, 'f) display_result" where
  "ds_setState st text d = (if pd_state d = st \<and> pd_statusText d = text then (d, [])
     else (d\<lparr>pd_state := st, pd_statusText := text\<rparr>, [DisplayStateChanged]))"

definition ds_endDecoder :: "('c, 'x, 'p, 'f) display \<Rightarrow> ('c, 'x, 'p, 'f) display_result" where
  "ds_endDecoder d = (case pd_decoder d of
     None \<Rightarrow> (d\<lparr>pd_activeDecoderGeneration := 0\<rparr>, [])
   | Some dec \<Rightarrow> (d\<lparr>pd_activeDecoderGeneration := 0, pd_decoder := Some (endStream dec)\<rparr>, [CallEndStream]))"

definition enterTerminalState :: "display_state \<Rightarrow> string \<Rightarrow> ('c, 'x, 'p, 'f) display \<Rightarrow> ('c, 'x, 'p, 'f) display_result" where
  "enterTerminalState st text d = chain (ds_endDecoder (d\<lparr>pd_terminalStateLatched := True\<rparr>)) (ds_setState st text)"

definition waitForChannel :: "('c, 'x, 'p, 'f) display \<Rightarrow> ('c, 'x, 'p, 'f) display_result" where
  "waitForChannel = ds_setState DsWaitingForChannel ''Waiting for projected channel''"

definition waitForFrames :: "('c, 'x, 'p, 'f) display \<Rightarrow> ('c, 'x, 'p, 'f) display_result" where
  "waitForFrames = ds_setState DsWaitingForFrames ''Waiting for projected frames''"

definition beginProtocolSession :: "('c, 'x, 'p, 'f) display \<Rightarrow> ('c, 'x, 'p, 'f) display_result" where
  "beginProtocolSession d = (if \<not> pd_enabled d then (d, [])
     else let d1 = d\<lparr>pd_protocolGeneration := Suc (pd_protocolGeneration d), pd_protocolActive := True,
                 pd_terminalStateLatched := False, pd_videoChannelOpen := False, pd_activeDecoderGeneration := 0\<rparr>
       in case pd_decoder d1 of
         Some dec \<Rightarrow> if dc_worker dec then waitForChannel d1
                     else enterTerminalState DsError ''Projected decoder unavailable'' d1
       | None \<Rightarrow> enterTerminalState DsError ''Projected decoder unavailable'' d1)"

definition endProtocolSession :: "('c, 'x, 'p, 'f) display \<Rightarrow> ('c, 'x, 'p, 'f) display_result" where
  "endProtocolSession d = (if \<not> pd_enabled d then (d, [])
     else chain (ds_endDecoder (d\<lparr>pd_protocolActive := False, pd_terminalStateLatched := False, pd_videoChannelOpen := False\<rparr>))
            (ds_setState DsDisconnected ''Android Auto disconnected''))"

definition noteChannelOpened :: "byte \<Rightarrow> ('c, 'x, 'p, 'f) display \<Rightarrow> ('c, 'x, 'p, 'f) display_result" where
  "noteChannelOpened ch d = (
     if \<not> pd_enabled d \<or> pd_terminalStateLatched d then (d, [])
     else if \<not> pd_protocolActive d then (d, [])
     else if ch = pd_videoChannelId d
     then chain (ds_endDecoder (d\<lparr>pd_videoChannelOpen := True\<rparr>)) waitForFrames
     else (d, []))"

definition noteChannelClosed :: "byte \<Rightarrow> ('c, 'x, 'p, 'f) display \<Rightarrow> ('c, 'x, 'p, 'f) display_result" where
  "noteChannelClosed ch d = (
     if \<not> pd_enabled d \<or> \<not> pd_protocolActive d \<or> pd_terminalStateLatched d then (d, [])
     else if ch = pd_videoChannelId d
     then chain (ds_endDecoder (d\<lparr>pd_videoChannelOpen := False\<rparr>)) waitForChannel
     else (d, []))"

definition noteChannelRejected :: "int \<Rightarrow> ('c, 'x, 'p, 'f) display \<Rightarrow> ('c, 'x, 'p, 'f) display_result" where
  "noteChannelRejected ch d = (
     if \<not> pd_enabled d \<or> \<not> pd_protocolActive d \<or> pd_terminalStateLatched d then (d, [])
     else if ch \<noteq> uint (pd_videoChannelId d) \<and> ch \<noteq> uint (pd_inputChannelId d) then (d, [])
     else enterTerminalState DsRejected ''Phone rejected projected display'' d)"

definition onStreamStarted :: "('c, 'x, 'p, 'f) display \<Rightarrow> ('c, 'x, 'p, 'f) display_result" where
  "onStreamStarted d = (
     if \<not> pd_protocolActive d then (d, [])
     else case pd_decoder d of
       None \<Rightarrow> (d, [])
     | Some dec \<Rightarrow> if pd_terminalStateLatched d then (d, [])
         else let (g, dec') = beginStream dec;
                  d1 = d\<lparr>pd_activeDecoderGeneration := g, pd_decoder := Some dec'\<rparr>
              in chain (d1, [CallBeginStream g])
                   (if g = 0 then enterTerminalState DsError ''decoder worker unavailable'' else waitForFrames))"

definition onStreamStopped :: "('c, 'x, 'p, 'f) display \<Rightarrow> ('c, 'x, 'p, 'f) display_result" where
  "onStreamStopped d = (
     if \<not> pd_protocolActive d \<or> pd_terminalStateLatched d \<or> pd_decoder d = None then (d, [])
     else chain (ds_endDecoder d) (if pd_videoChannelOpen d then waitForFrames else waitForChannel))"

definition onVideoFocusChanged :: "int \<Rightarrow> ('c, 'x, 'p, 'f) display \<Rightarrow> ('c, 'x, 'p, 'f) display_result" where
  "onVideoFocusChanged mode d = (if \<not> pd_protocolActive d \<or> pd_terminalStateLatched d then (d, [])
     else (d\<lparr>pd_focusMode := mode\<rparr>, []))"

definition onVideoFrameData :: "bytes \<Rightarrow> ('c, 'x, 'p, 'f) display \<Rightarrow> ('c, 'x, 'p, 'f) display_result" where
  "onVideoFrameData data d = (
     if \<not> pd_protocolActive d \<or> pd_terminalStateLatched d then (d, [])
     else case pd_decoder d of
       None \<Rightarrow> (d, [])
     | Some dec \<Rightarrow> if pd_activeDecoderGeneration d = 0 then (d, [])
         else (d\<lparr>pd_decoder := Some (decodeFrame data dec)\<rparr>, [CallDecodeFrame data]))"

text \<open>The signals of the decode thread, delivered on the owner thread.\<close>

definition stale :: "nat \<Rightarrow> ('c, 'x, 'p, 'f) display \<Rightarrow> bool" where
  "stale g d \<longleftrightarrow> \<not> pd_protocolActive d \<or> pd_terminalStateLatched d \<or> g = 0 \<or> g \<noteq> pd_activeDecoderGeneration d"

definition geometry_mismatch :: "'f av_frame \<Rightarrow> ('c, 'x, 'p, 'f) display \<Rightarrow> bool" where
  "geometry_mismatch f d \<longleftrightarrow> pd_role d = RoleCluster
     \<and> (fr_width f \<noteq> vp_encodedWidth (profile_geometry (pd_activeProfile d))
        \<or> fr_height f \<noteq> vp_encodedHeight (profile_geometry (pd_activeProfile d)))"

definition onFrameReady :: "nat \<Rightarrow> ('c, 'x, 'p, 'f) decoder \<Rightarrow> ('c, 'x, 'p, 'f) display \<Rightarrow> ('c, 'x, 'p, 'f) display_result" where
  "onFrameReady g dec d = (if stale g d then (d, [])
     else let (frame, dec') = takeLatestFrame dec;
              d1 = d\<lparr>pd_decoder := Some dec'\<rparr>;
              rendering = ds_setState DsRendering ''Rendering projected display''
          in case frame of
               None \<Rightarrow> rendering d1
             | Some f \<Rightarrow>
                 if geometry_mismatch f d1 then enterTerminalState DsError ''Projected frame geometry mismatch'' d1
                 else chain (d1, case dc_sink dec' of Some s \<Rightarrow> [ShowFrame s f] | None \<Rightarrow> []) rendering)"

definition onStreamError :: "nat \<Rightarrow> string \<Rightarrow> ('c, 'x, 'p, 'f) display \<Rightarrow> ('c, 'x, 'p, 'f) display_result" where
  "onStreamError g message d = (if stale g d then (d, []) else enterTerminalState DsError message d)"

definition deliverSignal :: "('c, 'x, 'p, 'f) display \<Rightarrow> ('c, 'x, 'p, 'f) display_result" where
  "deliverSignal d = (case pd_decoder d of
     None \<Rightarrow> (d, [])
   | Some dec \<Rightarrow> (case dc_signals dec of
       [] \<Rightarrow> (d, [])
     | s # rest \<Rightarrow>
         (let dec1 = dec\<lparr>dc_signals := rest\<rparr>; d1 = d\<lparr>pd_decoder := Some dec1\<rparr> in
          case s of
            SigFrameReady g \<Rightarrow> onFrameReady g dec1 d1
          | SigStreamError g m \<Rightarrow> onStreamError g m d1
          | SigStreamEnded g \<Rightarrow> (d1, []))))"

text \<open>Sinks are numbers; a claimed sink is the one whose destruction the display listens to.\<close>

definition set_decoder_sink :: "nat option \<Rightarrow> ('c, 'x, 'p, 'f) display \<Rightarrow> ('c, 'x, 'p, 'f) display" where
  "set_decoder_sink s d = d\<lparr>pd_decoder := map_option (setVideoSink s) (pd_decoder d)\<rparr>"

definition attachVideoSink :: "nat option \<Rightarrow> ('c, 'x, 'p, 'f) display \<Rightarrow> bool \<times> ('c, 'x, 'p, 'f) display_result" where
  "attachVideoSink sink d = (
     if sink = None \<or> pd_decoder d = None then (False, d, [])
     else if pd_sink d = sink then (True, d, [])
     else if pd_sink d \<noteq> None then (False, d, [])
     else (True, set_decoder_sink sink (d\<lparr>pd_sink := sink\<rparr>), [VideoSinkAvailabilityChanged]))"

definition detachVideoSink :: "nat option \<Rightarrow> ('c, 'x, 'p, 'f) display \<Rightarrow> ('c, 'x, 'p, 'f) display_result" where
  "detachVideoSink sink d = (if sink = None \<or> pd_sink d \<noteq> sink then (d, [])
     else (set_decoder_sink None (d\<lparr>pd_sink := None\<rparr>), [VideoSinkAvailabilityChanged]))"

definition sinkDestroyed :: "nat \<Rightarrow> ('c, 'x, 'p, 'f) display \<Rightarrow> ('c, 'x, 'p, 'f) display_result" where
  "sinkDestroyed s d = (if pd_sink d \<noteq> Some s then (d, [])
     else let d1 = d\<lparr>pd_sink := None\<rparr> in
       if Option.bind (pd_decoder d1) dc_sink \<noteq> Some s then (d1, [])
       else (set_decoder_sink None d1, [VideoSinkAvailabilityChanged]))"

definition applyClusterProfile :: "profile_update \<Rightarrow> ('c, 'x, 'p, 'f) display \<Rightarrow> bool \<times> ('c, 'x, 'p, 'f) display_result" where
  "applyClusterProfile u d = (
     if pd_role d \<noteq> RoleCluster \<or> \<not> pd_enabled d
     then (False, d\<lparr>pd_profileStatusText := ''CLUSTER display is disabled''\<rparr>, [ProfileDiagnosticsChanged])
     else case applyProjectedClusterProfileUpdate (pd_requestedProfile d) u of
       Inl e \<Rightarrow> (False, d\<lparr>pd_profileStatusText := e\<rparr>, [ProfileDiagnosticsChanged])
     | Inr candidate \<Rightarrow>
         if candidate = pd_requestedProfile d
         then (True, d\<lparr>pd_profileStatusText := ''Profile unchanged''\<rparr>, [ProfileDiagnosticsChanged])
         else (True, d\<lparr>pd_requestedProfile := candidate, pd_profileGeneration := Suc (pd_profileGeneration d),
                      pd_profileStatusText := ''Profile accepted; reconnect pending''\<rparr>,
               [ProfileDiagnosticsChanged, ClusterProfileChangeRequested]))"

definition resetClusterProfile :: "('c, 'x, 'p, 'f) display \<Rightarrow> bool \<times> ('c, 'x, 'p, 'f) display_result" where
  "resetClusterProfile = (let b = baseline_profile in applyClusterProfile
     [(''content_height'', VarNumber (Some (of_int (cp_contentHeight b)))),
      (''content_width'', VarNumber (Some (of_int (cp_contentWidth b)))),
      (''dpi'', VarNumber (Some (of_int (cp_dpi b)))),
      (''native_turn_card_available'', VarBool (cp_nativeTurnCardAvailable b)),
      (''resolution'', VarString (cp_resolution b))])"

definition activateRequestedClusterProfile :: "('c, 'x, 'p, 'f) display \<Rightarrow> ('c, 'x, 'p, 'f) display_result" where
  "activateRequestedClusterProfile d = (
     if pd_role d \<noteq> RoleCluster \<or> pd_activeProfile d = pd_requestedProfile d then (d, [])
     else let d1 = d\<lparr>pd_activeProfile := pd_requestedProfile d, pd_profileStatusText := ''Profile active''\<rparr>
       in (d1, ProfileDiagnosticsChanged
             # (if profile_geometry (pd_activeProfile d) = profile_geometry (pd_activeProfile d1) then []
                else [ViewportGeometryChanged])))"

section \<open>The display and its decode thread\<close>

datatype display_op =
    OpBeginProtocol
  | OpEndProtocol
  | OpChannelOpened byte
  | OpChannelClosed byte
  | OpChannelRejected int
  | OpStreamStarted
  | OpStreamStopped
  | OpVideoFocus int
  | OpVideoData bytes
  | OpDeliverSignal
  | OpAttachSink "nat option"
  | OpDetachSink "nat option"
  | OpSinkDestroyed nat
  | OpBindSink "nat option"
  | OpApplyProfile profile_update
  | OpResetProfile
  | OpActivateProfile
  | OpDecodeThread "(string \<Rightarrow> string) option" bool

definition decodeThread :: "('c, 'x, 'p, 'f) ffmpeg \<Rightarrow> (string \<Rightarrow> string) option \<Rightarrow> bool
    \<Rightarrow> ('c, 'x, 'p, 'f) display \<Rightarrow> ('c, 'x, 'p, 'f) display" where
  "decodeThread ff yaml mapped d = (case Option.bind (pd_decoder d) (worker_step ff yaml mapped) of
     None \<Rightarrow> d | Some dec \<Rightarrow> d\<lparr>pd_decoder := Some dec\<rparr>)"

primrec display_step :: "('c, 'x, 'p, 'f) ffmpeg \<Rightarrow> display_op \<Rightarrow> ('c, 'x, 'p, 'f) display \<Rightarrow> ('c, 'x, 'p, 'f) display_result" where
  "display_step ff OpBeginProtocol d = beginProtocolSession d"
| "display_step ff OpEndProtocol d = endProtocolSession d"
| "display_step ff (OpChannelOpened ch) d = noteChannelOpened ch d"
| "display_step ff (OpChannelClosed ch) d = noteChannelClosed ch d"
| "display_step ff (OpChannelRejected ch) d = noteChannelRejected ch d"
| "display_step ff OpStreamStarted d = onStreamStarted d"
| "display_step ff OpStreamStopped d = onStreamStopped d"
| "display_step ff (OpVideoFocus mode) d = onVideoFocusChanged mode d"
| "display_step ff (OpVideoData b) d = onVideoFrameData b d"
| "display_step ff OpDeliverSignal d = deliverSignal d"
| "display_step ff (OpAttachSink s) d = snd (attachVideoSink s d)"
| "display_step ff (OpDetachSink s) d = detachVideoSink s d"
| "display_step ff (OpSinkDestroyed s) d = sinkDestroyed s d"
| "display_step ff (OpBindSink s) d = (set_decoder_sink s d, [])"
| "display_step ff (OpApplyProfile u) d = snd (applyClusterProfile u d)"
| "display_step ff OpResetProfile d = snd (resetClusterProfile d)"
| "display_step ff OpActivateProfile d = activateRequestedClusterProfile d"
| "display_step ff (OpDecodeThread yaml mapped) d = (decodeThread ff yaml mapped d, [])"

end
