(* ===== verification/Single_Float.thy ===== *)
theory Single_Float
  imports Complex_Main
begin

text \<open>
  Single precision arithmetic as the program uses it: rational arithmetic in which every result is
  rounded by the parameter \<open>rnd\<close>.  \<open>rnd_ok\<close> is what IEEE rounding promises in the range of values
  that occur: it is monotone, rounding again changes nothing, and the integers of up to 24 bits
  and their quotients by powers of two are exact.
\<close>

type_synonym rounding = "rat \<Rightarrow> rat"

definition to_float :: "rounding \<Rightarrow> int \<Rightarrow> rat" where
  "to_float rnd n = rnd (of_int n)"

text \<open>The conversion of a floating point number to an integer type.\<close>

definition trunc :: "rat \<Rightarrow> int" where
  "trunc r = (if r < 0 then \<lceil>r\<rceil> else \<lfloor>r\<rfloor>)"

definition rnd_ok :: "rounding \<Rightarrow> bool" where
  "rnd_ok rnd \<longleftrightarrow> mono rnd \<and> (\<forall>x. rnd (rnd x) = rnd x)
     \<and> (\<forall>n k. \<bar>n\<bar> \<le> 2 ^ 24 \<and> k \<le> 126 \<longrightarrow> rnd (of_int n / 2 ^ k) = of_int n / 2 ^ k)"

lemma rnd_exact: "rnd_ok rnd \<Longrightarrow> \<bar>n\<bar> \<le> 2 ^ 24 \<Longrightarrow> rnd (of_int n) = of_int n"
  unfolding rnd_ok_def by (metis div_by_1 le0 power_0)

lemma rnd_0_1: "rnd_ok rnd \<Longrightarrow> rnd 0 = 0" "rnd_ok rnd \<Longrightarrow> rnd 1 = 1"
  using rnd_exact [of rnd 0] rnd_exact [of rnd 1] by simp_all

lemma rnd_mono: "rnd_ok rnd \<Longrightarrow> x \<le> y \<Longrightarrow> rnd x \<le> rnd y"
  by (simp add: rnd_ok_def mono_def)

lemma rnd_idem: "rnd_ok rnd \<Longrightarrow> rnd (rnd x) = rnd x"
  by (simp add: rnd_ok_def)

lemma rnd_lower: "rnd_ok rnd \<Longrightarrow> k \<le> 126 \<Longrightarrow> 1 / 2 ^ k \<le> x \<Longrightarrow> 1 / 2 ^ k \<le> rnd x"
proof -
  assume a: "rnd_ok rnd" "k \<le> 126" "1 / 2 ^ k \<le> x"
  have "rnd (of_int 1 / 2 ^ k) = of_int 1 / 2 ^ k"
    using a(1) [unfolded rnd_ok_def, THEN conjunct2, THEN conjunct2, rule_format, of 1 k] a(2) by simp
  with rnd_mono [OF a(1,3)] show ?thesis by simp
qed

lemma trunc_mono: "0 \<le> x \<Longrightarrow> x \<le> y \<Longrightarrow> trunc x \<le> trunc y"
  by (simp add: trunc_def floor_mono)

end
