(* ===== verification/Audio_Service.thy ===== *)
theory Audio_Service
  imports Single_Float Audio_Ring
begin

text \<open>
  The audio service (\<open>core/services/AudioService.cpp\<close>, \<open>core/audio/FocusGain.hpp\<close>): playback streams
  with their focus and gain, the callback that fills a period of output, the master volume and the
  capture streams.  A handle is a number; the object it points to is in the list of the service,
  and callers pass handles of streams they own.

  PipeWire is a parameter: whether a stream can be created and connected is an input, and so are the
  buffers it hands to the callbacks.  Its ring buffer helpers are those of \<open>Audio_Ring\<close>, single
  precision arithmetic is that of \<open>Single_Float\<close>; the one addition in double precision is exact.
  The equalizer engine is the function \<open>eq\<close> on its state and the samples.  The callback of the
  real-time thread is one step.  The 64-bit counter of focus requests is a natural number; log
  messages and the values kept for them are left out.
\<close>

section \<open>Streams\<close>

datatype focus_type = FocusGain | FocusGainTransient | FocusGainTransientMayDuck

record 'e audio_stream =
  as_name :: string
  as_priority :: int
  as_focusType :: focus_type
  as_hasFocus :: bool
  as_focusSequence :: nat
  as_targetGain :: rat
  as_baseVolume :: rat
  as_rtCurrentGain :: rat
  as_bufferMs :: int
  as_underrunCount :: u32
  as_rateCtlCount :: nat
  as_activeCallbacks :: nat
  as_filteredFill :: rat
  as_rateIntegral :: rat
  as_sampleRate :: int
  as_channels :: nat
  as_bytesPerFrame :: nat
  as_ringBuffer :: audio_ring
  as_eqEngine :: "'e option"
  as_disableRateMatching :: bool
  as_onStreamError :: bool
  as_channelVolume :: rat

record 'c capture_stream =
  cp_name :: string
  cp_sampleRate :: int
  cp_channels :: int
  cp_bytesPerFrame :: int
  cp_callback :: "'c option"
  cp_callbackActive :: bool
  cp_callbackImmutable :: bool
  cp_onStreamError :: bool

record ('e, 'c) audio_service =
  au_available :: bool
  au_streams :: "(nat \<times> 'e audio_stream) list"
  au_captures :: "(nat \<times> 'c capture_stream) list"
  au_masterVolume :: int
  au_focusSeqCounter :: nat
  au_outputDevice :: string
  au_inputDevice :: string

definition audio_service_new :: "bool \<Rightarrow> ('e, 'c) audio_service" where
  "audio_service_new available = \<lparr>au_available = available, au_streams = [], au_captures = [], au_masterVolume = 80,
     au_focusSeqCounter = 0, au_outputDevice = ''auto'', au_inputDevice = ''auto''\<rparr>"

datatype 'c audio_event =
    StreamConnected nat string "string option" bool
  | CaptureConnected nat "string option" bool
  | StreamRemoved nat
  | VolumeApplied nat rat
  | MasterVolumeChanged
  | RateSet nat rat
  | StreamActivated nat bool
  | Captured 'c bytes
  | StreamErrorHook nat

section \<open>The size of a ring\<close>

definition kMinPlaybackBufferMs :: int where "kMinPlaybackBufferMs = 500"
definition kMaxPlaybackBufferMs :: int where "kMaxPlaybackBufferMs = 5000"
definition kMinPlaybackSampleRate :: int where "kMinPlaybackSampleRate = 8000"
definition kMaxPlaybackSampleRate :: int where "kMaxPlaybackSampleRate = 384000"
definition kMaxPlaybackRingBytes :: int where "kMaxPlaybackRingBytes = 8 * 1024 * 1024"

definition qBound_int :: "int \<Rightarrow> int \<Rightarrow> int \<Rightarrow> int" where
  "qBound_int lo x hi = max lo (min hi x)"

text \<open>The loop doubles a 64-bit capacity; the shift drops what leaves the word.\<close>

definition double_capacity :: "u64 \<Rightarrow> u64 option" where
  "double_capacity requested = while_option (\<lambda>c. c < requested) (\<lambda>c. push_bit 1 c) 1"

text \<open>The result is the capacity with the bounded buffer time, or 0; \<open>None\<close> would be a loop that does not end.\<close>

definition playbackRingCapacityBytes :: "int \<Rightarrow> int \<Rightarrow> int \<Rightarrow> (u32 \<times> int) option" where
  "playbackRingCapacityBytes sampleRate channels bufferMs = (
     if sampleRate < kMinPlaybackSampleRate \<or> sampleRate > kMaxPlaybackSampleRate \<or> channels < 1 \<or> channels > 2 then Some (0, 0)
     else let boundedMs = qBound_int kMinPlaybackBufferMs bufferMs kMaxPlaybackBufferMs;
              requested = (word_of_int sampleRate * word_of_int channels * 2 * word_of_int boundedMs) div 1000 :: u64
          in if requested = 0 \<or> requested > word_of_int kMaxPlaybackRingBytes then Some (0, 0)
             else case double_capacity requested of
               None \<Rightarrow> None
             | Some capacity \<Rightarrow>
                 Some (if capacity > word_of_int kMaxPlaybackRingBytes \<or> capacity > word_of_int (2 ^ 32 - 1) then (0, 0)
                       else (ucast capacity, boundedMs)))"

section \<open>Volume and focus\<close>

definition cubicVolume :: "rounding \<Rightarrow> int \<Rightarrow> rat" where
  "cubicVolume rnd v = (let vol = rnd (to_float rnd (qBound_int 0 v 100) / 100) in rnd (rnd (vol * vol) * vol))"

text \<open>Changes the stream of a handle.\<close>

definition on_stream :: "nat \<Rightarrow> ('e audio_stream \<Rightarrow> 'e audio_stream) \<Rightarrow> ('e, 'c) audio_service \<Rightarrow> ('e, 'c) audio_service" where
  "on_stream h f a = a\<lparr>au_streams := map (\<lambda>(k, s). (k, if k = h then f s else s)) (au_streams a)\<rparr>"

definition setMasterVolume :: "rounding \<Rightarrow> int \<Rightarrow> ('e, 'c) audio_service \<Rightarrow> ('e, 'c) audio_service \<times> 'c audio_event list" where
  "setMasterVolume rnd volume a = (
     let clamped = qBound_int 0 volume 100;
         changed = (au_masterVolume a \<noteq> clamped);
         a1 = a\<lparr>au_masterVolume := clamped\<rparr>;
         vol = cubicVolume rnd clamped
     in if \<not> au_available a then (a1, if changed then [MasterVolumeChanged] else [])
        else (a1\<lparr>au_streams := map (\<lambda>(h, s). (h, s\<lparr>as_channelVolume := vol\<rparr>)) (au_streams a1)\<rparr>,
              map (\<lambda>(h, s). VolumeApplied h vol) (au_streams a1) @ (if changed then [MasterVolumeChanged] else [])))"

fun selectDominant :: "(nat \<times> 'e audio_stream) option \<Rightarrow> (nat \<times> 'e audio_stream) list \<Rightarrow> (nat \<times> 'e audio_stream) option" where
  "selectDominant dominant [] = dominant"
| "selectDominant dominant (s # ss) = selectDominant (
     if \<not> as_hasFocus (snd s) then dominant
     else case dominant of
       None \<Rightarrow> Some s
     | Some d \<Rightarrow>
         if as_priority (snd s) > as_priority (snd d)
           \<or> (as_priority (snd s) = as_priority (snd d) \<and> as_focusSequence (snd s) > as_focusSequence (snd d))
         then Some s else dominant) ss"

definition ducked_gain :: "rounding \<Rightarrow> (nat \<times> 'e audio_stream) option \<Rightarrow> nat \<times> 'e audio_stream \<Rightarrow> rat" where
  "ducked_gain rnd dominant s = (case dominant of
     None \<Rightarrow> as_baseVolume (snd s)
   | Some d \<Rightarrow>
       if fst s = fst d then as_baseVolume (snd s)
       else if as_focusType (snd d) = FocusGainTransientMayDuck then rnd (as_baseVolume (snd s) * rnd (2 / 10))
       else 0)"

definition applyDucking :: "rounding \<Rightarrow> ('e, 'c) audio_service \<Rightarrow> ('e, 'c) audio_service" where
  "applyDucking rnd a = (let dominant = selectDominant None (au_streams a) in
     a\<lparr>au_streams := map (\<lambda>(h, s). (h, s\<lparr>as_targetGain := ducked_gain rnd dominant (h, s)\<rparr>)) (au_streams a)\<rparr>)"

definition requestAudioFocus :: "rounding \<Rightarrow> nat \<Rightarrow> focus_type \<Rightarrow> ('e, 'c) audio_service \<Rightarrow> ('e, 'c) audio_service" where
  "requestAudioFocus rnd h ty a = (let n = Suc (au_focusSeqCounter a) in
     applyDucking rnd (on_stream h (\<lambda>s. s\<lparr>as_hasFocus := True, as_focusType := ty, as_focusSequence := n\<rparr>)
       (a\<lparr>au_focusSeqCounter := n\<rparr>)))"

definition releaseAudioFocus :: "rounding \<Rightarrow> nat \<Rightarrow> ('e, 'c) audio_service \<Rightarrow> ('e, 'c) audio_service" where
  "releaseAudioFocus rnd h a = applyDucking rnd (on_stream h (\<lambda>s. s\<lparr>as_hasFocus := False\<rparr>) a)"

section \<open>Creating and destroying streams\<close>

record 'e playback_options =
  po_name :: string
  po_priority :: int
  po_sampleRate :: int
  po_channels :: int
  po_targetDevice :: string
  po_bufferMs :: int
  po_eqEngine :: "'e option"
  po_startInactive :: bool
  po_disableRateMatching :: bool
  po_onStreamError :: bool

text \<open>What allocating the ring and making the stream come to; a success gives the new handle.\<close>

datatype create_outcome = RingAllocationFailed | StreamCreationFailed | ConnectFailed | NewHandle nat

definition contains_text :: "string \<Rightarrow> string \<Rightarrow> bool" where
  "contains_text p s = list_ex (\<lambda>k. take (length p) (drop k s) = p) [0..<Suc (length s)]"

definition stream_role :: "string \<Rightarrow> string" where
  "stream_role name = (if contains_text ''Navigation'' name \<or> contains_text ''Speech'' name then ''Communication''
     else if contains_text ''System'' name then ''Notification'' else ''Music'')"

definition target_object :: "string \<Rightarrow> string option" where
  "target_object device = (if device \<noteq> ''auto'' \<and> device \<noteq> [] then Some device else None)"

definition make_stream :: "rounding \<Rightarrow> spa_ops \<Rightarrow> 'e playback_options \<Rightarrow> int \<Rightarrow> u32 \<Rightarrow> int \<Rightarrow> int \<Rightarrow> 'e audio_stream" where
  "make_stream rnd spa opts channels capacity ms volume = \<lparr>as_name = po_name opts, as_priority = po_priority opts,
     as_focusType = FocusGain, as_hasFocus = False, as_focusSequence = 0, as_targetGain = 1, as_baseVolume = 1, as_rtCurrentGain = 1,
     as_bufferMs = ms, as_underrunCount = 0, as_rateCtlCount = 0, as_activeCallbacks = 0, as_filteredFill = 1 / 2, as_rateIntegral = 0,
     as_sampleRate = po_sampleRate opts, as_channels = nat channels, as_bytesPerFrame = nat (channels * 2),
     as_ringBuffer = ring_new spa capacity, as_eqEngine = po_eqEngine opts, as_disableRateMatching = po_disableRateMatching opts,
     as_onStreamError = po_onStreamError opts, as_channelVolume = cubicVolume rnd volume\<rparr>"

type_synonym ('e, 'c) audio_result = "('e, 'c) audio_service \<times> 'c audio_event list"

definition createStreamWithOptions :: "rounding \<Rightarrow> spa_ops \<Rightarrow> 'e playback_options \<Rightarrow> create_outcome \<Rightarrow> ('e, 'c) audio_service
    \<Rightarrow> ('e, 'c) audio_result \<times> nat option" where
  "createStreamWithOptions rnd spa opts outcome a = (
     if \<not> au_available a then ((a, []), None)
     else let channels = qBound_int 1 (po_channels opts) 2
          in case playbackRingCapacityBytes (po_sampleRate opts) channels (po_bufferMs opts) of
               None \<Rightarrow> ((a, []), None)
             | Some (capacity, ms) \<Rightarrow>
                 if capacity = 0 then ((a, []), None)
                 else case outcome of
                   NewHandle h \<Rightarrow>
                     (let device = (if po_targetDevice opts = ''auto'' then au_outputDevice a else po_targetDevice opts);
                          s = make_stream rnd spa opts channels capacity ms (au_masterVolume a)
                      in ((a\<lparr>au_streams := au_streams a @ [(h, s)]\<rparr>,
                           [StreamConnected h (stream_role (po_name opts)) (target_object device) (po_startInactive opts),
                            VolumeApplied h (cubicVolume rnd (au_masterVolume a))]), Some h))
                 | _ \<Rightarrow> ((a, []), None))"

definition createStream :: "rounding \<Rightarrow> spa_ops \<Rightarrow> string \<Rightarrow> int \<Rightarrow> int \<Rightarrow> int \<Rightarrow> string \<Rightarrow> int \<Rightarrow> create_outcome
    \<Rightarrow> ('e, 'c) audio_service \<Rightarrow> ('e, 'c) audio_result \<times> nat option" where
  "createStream rnd spa name priority sampleRate channels targetDevice bufferMs = createStreamWithOptions rnd spa
     \<lparr>po_name = name, po_priority = priority, po_sampleRate = sampleRate, po_channels = channels, po_targetDevice = targetDevice,
      po_bufferMs = bufferMs, po_eqEngine = None, po_startInactive = False, po_disableRateMatching = False, po_onStreamError = False\<rparr>"

definition destroyStream :: "rounding \<Rightarrow> nat \<Rightarrow> ('e, 'c) audio_service \<Rightarrow> ('e, 'c) audio_result" where
  "destroyStream rnd h a = (
     applyDucking rnd (a\<lparr>au_streams := filter (\<lambda>(k, s). k \<noteq> h) (au_streams a)\<rparr>), if au_available a then [StreamRemoved h] else [])"

text \<open>The destructor takes the streams off the loop before it ends; without a loop there are none.\<close>

definition destroy_service :: "('e, 'c) audio_service \<Rightarrow> ('e, 'c) audio_result" where
  "destroy_service a = (if \<not> au_available a then (a, [])
     else (a\<lparr>au_available := False, au_streams := [], au_captures := []\<rparr>,
           map (\<lambda>x. StreamRemoved (fst x)) (au_captures a) @ map (\<lambda>x. StreamRemoved (fst x)) (au_streams a)))"

text \<open>The bytes taken over, or -1.\<close>

definition writeAudio :: "spa_ops \<Rightarrow> nat \<Rightarrow> bytes \<Rightarrow> ('e, 'c) audio_service \<Rightarrow> ('e, 'c) audio_service \<times> int" where
  "writeAudio spa h bs a = (case map_of (au_streams a) h of
     None \<Rightarrow> (a, -1)
   | Some s \<Rightarrow>
       if bs = [] then (a, -1)
       else let (n, ring) = ring_write spa bs (as_ringBuffer s) in (on_stream h (\<lambda>s. s\<lparr>as_ringBuffer := ring\<rparr>) a, int n))"

definition setStreamActive :: "nat \<Rightarrow> bool \<Rightarrow> bool \<Rightarrow> ('e, 'c) audio_service \<Rightarrow> 'c audio_event list \<times> bool" where
  "setStreamActive h active ok a = (
     if map_of (au_streams a) h = None \<or> \<not> au_available a then ([], False)
     else (if ok then [StreamActivated h active] else [], ok))"

definition resetStreamRing :: "spa_ops \<Rightarrow> nat \<Rightarrow> ('e, 'c) audio_service \<Rightarrow> ('e, 'c) audio_service" where
  "resetStreamRing spa h = on_stream h (\<lambda>s. s\<lparr>as_ringBuffer := ring_drain spa (as_ringBuffer s)\<rparr>)"

definition setOutputDevice :: "string \<Rightarrow> ('e, 'c) audio_service \<Rightarrow> ('e, 'c) audio_service" where
  "setOutputDevice d a = a\<lparr>au_outputDevice := (if d = [] then ''auto'' else d)\<rparr>"

definition setInputDevice :: "string \<Rightarrow> ('e, 'c) audio_service \<Rightarrow> ('e, 'c) audio_service" where
  "setInputDevice d a = a\<lparr>au_inputDevice := (if d = [] then ''auto'' else d)\<rparr>"

text \<open>The diagnostics take the counters.\<close>

definition reportAudioDiagnostics :: "('e, 'c) audio_service \<Rightarrow> ('e, 'c) audio_service" where
  "reportAudioDiagnostics a = a\<lparr>au_streams := map (\<lambda>(h, s). (h, s\<lparr>as_underrunCount := 0,
     as_ringBuffer := ring_resetDropCount (as_ringBuffer s)\<rparr>)) (au_streams a)\<rparr>"

section \<open>A period of output\<close>

text \<open>Samples of 16 bits, low byte first.\<close>

fun bytes_samples :: "bytes \<Rightarrow> int list" where
  "bytes_samples (lo # hi # bs) = sint (word_cat hi lo :: 16 word) # bytes_samples bs"
| "bytes_samples _ = []"

definition sample_bytes :: "int \<Rightarrow> bytes" where
  "sample_bytes x = (let w = word_of_int x :: 16 word in [ucast w, ucast (drop_bit 8 w)])"

definition samples_bytes :: "int list \<Rightarrow> bytes" where
  "samples_bytes xs = concat (map sample_bytes xs)"

definition kFocusGainRampPerFrame :: "rounding \<Rightarrow> rat" where
  "kFocusGainRampPerFrame rnd = rnd (1 / 960)"

definition ramp_gain :: "rounding \<Rightarrow> rat \<Rightarrow> rat \<Rightarrow> rat" where
  "ramp_gain rnd target g = (
     if g < target then min (rnd (g + kFocusGainRampPerFrame rnd)) target
     else if g > target then max (rnd (g - kFocusGainRampPerFrame rnd)) target
     else g)"

primrec applyFocusGain :: "rounding \<Rightarrow> nat \<Rightarrow> rat \<Rightarrow> nat \<Rightarrow> rat \<Rightarrow> int list \<Rightarrow> int list \<times> rat" where
  "applyFocusGain rnd channels target 0 g xs = (xs, g)"
| "applyFocusGain rnd channels target (Suc n) g xs = (
     let g1 = ramp_gain rnd target g;
         frame = (if g1 < 1 then map (\<lambda>x. trunc (rnd (to_float rnd x * g1))) (take channels xs) else take channels xs);
         (ys, g2) = applyFocusGain rnd channels target n g1 (drop channels xs)
     in (frame @ ys, g2))"

record spa_data =
  sd_data :: "bytes option"
  sd_maxsize :: u32
  sd_chunk :: "(u32 \<times> u32 \<times> u32) option"

text \<open>The memory blocks of a buffer, \<open>None\<close> for a null pointer; a chunk has an offset, a stride and a size.\<close>

record pw_buffer =
  pb_size :: u64
  pb_requested :: u64
  pb_datas :: "spa_data list option"

definition first_data :: "pw_buffer \<Rightarrow> spa_data option" where
  "first_data b = (case pb_datas b of Some (d # _) \<Rightarrow> Some d | _ \<Rightarrow> None)"

definition set_first_data :: "spa_data \<Rightarrow> pw_buffer \<Rightarrow> pw_buffer" where
  "set_first_data d b = b\<lparr>pb_datas := map_option (\<lambda>ds. ds[0 := d]) (pb_datas b)\<rparr>"

text \<open>Equalizer and focus gain on the bytes read from the ring; the engine works on its own state.\<close>

definition run_equalizer :: "('e \<Rightarrow> nat \<Rightarrow> int list \<Rightarrow> 'e \<times> int list) \<Rightarrow> 'e audio_stream \<Rightarrow> bytes \<Rightarrow> 'e audio_stream \<times> bytes" where
  "run_equalizer eq s bs = (case as_eqEngine s of
     None \<Rightarrow> (s, bs)
   | Some e \<Rightarrow>
       if bs = [] then (s, bs)
       else let frames = length bs div as_bytesPerFrame s;
                n = 2 * frames * as_channels s;
                (e', xs) = eq e frames (bytes_samples (take n bs))
            in (s\<lparr>as_eqEngine := Some e'\<rparr>, samples_bytes xs @ drop n bs))"

definition run_focus_gain :: "rounding \<Rightarrow> 'e audio_stream \<Rightarrow> bytes \<Rightarrow> 'e audio_stream \<times> bytes" where
  "run_focus_gain rnd s bs = (
     if bs = [] \<or> (as_targetGain s = 1 \<and> as_rtCurrentGain s = 1) then (s, bs)
     else let frames = length bs div as_bytesPerFrame s;
              n = 2 * frames * as_channels s;
              (xs, g) = applyFocusGain rnd (as_channels s) (as_targetGain s) frames (as_rtCurrentGain s) (bytes_samples (take n bs))
          in (s\<lparr>as_rtCurrentGain := g\<rparr>, samples_bytes xs @ drop n bs))"

text \<open>The rate controller runs on every 16th callback.\<close>

definition clamp_to :: "rat \<Rightarrow> rat \<Rightarrow> rat" where
  "clamp_to bound x = (if x > bound then bound else if x < - bound then - bound else x)"

definition rate_correction :: "rounding \<Rightarrow> rat \<Rightarrow> rat \<Rightarrow> rat \<times> rat" where
  "rate_correction rnd fill integral = (
     let err = rnd (fill - 1 / 4);
         integral' = clamp_to 10 (rnd (integral + err));
         correction = rnd (rnd (rnd (1 / 1000) * err) + rnd (rnd (5 / 100000) * integral'))
     in (integral', clamp_to (rnd (5 / 1000)) correction))"

definition match_rate :: "rounding \<Rightarrow> spa_ops \<Rightarrow> bool \<Rightarrow> 'e audio_stream \<Rightarrow> 'e audio_stream \<times> rat option" where
  "match_rate rnd spa data_read s = (
     if as_disableRateMatching s then (s, None)
     else let avail = ring_available spa (as_ringBuffer s);
              active = (if data_read then Suc (as_activeCallbacks s) else as_activeCallbacks s);
              fillNorm = rnd (to_float rnd (uint avail) / to_float rnd (uint (rb_capacity (as_ringBuffer s))));
              fill = rnd (as_filteredFill s + rnd (rnd (2 / 100) * rnd (fillNorm - as_filteredFill s)));
              count = Suc (as_rateCtlCount s)
          in if count < 16 then (s\<lparr>as_activeCallbacks := active, as_filteredFill := fill, as_rateCtlCount := count\<rparr>, None)
             else if active > 0
             then let (integral, correction) = rate_correction rnd fill (as_rateIntegral s)
                  in (s\<lparr>as_activeCallbacks := 0, as_rateCtlCount := 0, as_filteredFill := fill, as_rateIntegral := integral\<rparr>,
                      Some (1 + correction))
             else (s\<lparr>as_activeCallbacks := 0, as_rateCtlCount := 0, as_filteredFill := 1 / 4, as_rateIntegral := 0\<rparr>, Some 1))"

definition clear_chunk :: "spa_data \<Rightarrow> spa_data" where
  "clear_chunk d = d\<lparr>sd_chunk := map_option (\<lambda>c. (0, 0, 0)) (sd_chunk d)\<rparr>"

definition period_frames :: "nat \<Rightarrow> spa_data \<Rightarrow> pw_buffer \<Rightarrow> nat" where
  "period_frames stride d b = (
     let n = unat (sd_maxsize d) div stride
     in if pb_requested b > 0 \<and> unat (pb_requested b) < n then unat (pb_requested b) else n)"

text \<open>The buffer is emptied before it is looked at; only a buffer with memory for a frame is filled.\<close>

definition fillPlaybackBuffer :: "rounding \<Rightarrow> spa_ops \<Rightarrow> ('e \<Rightarrow> nat \<Rightarrow> int list \<Rightarrow> 'e \<times> int list) \<Rightarrow> 'e audio_stream \<Rightarrow> pw_buffer
    \<Rightarrow> 'e audio_stream \<times> pw_buffer \<times> rat option \<times> bool" where
  "fillPlaybackBuffer rnd spa eq s b0 = (
     let b = b0\<lparr>pb_size := 0\<rparr>
     in case first_data b of
          None \<Rightarrow> (s, b, None, False)
        | Some d0 \<Rightarrow>
            (let d = clear_chunk d0; stride = as_bytesPerFrame s
             in case (sd_data d, sd_chunk d) of
                  (Some mem, Some _) \<Rightarrow>
                    if stride = 0 \<or> unat (sd_maxsize d) < stride then (s, set_first_data d b, None, False)
                    else let n_frames = period_frames stride d b;
                             wantBytes = n_frames * stride;
                             (bs, ring) = ring_read spa wantBytes (as_ringBuffer s);
                             s1 = s\<lparr>as_ringBuffer := ring, as_underrunCount := (if bs = [] then as_underrunCount s + 1 else as_underrunCount s)\<rparr>;
                             (s2, bs2) = run_equalizer eq s1 bs;
                             (s3, bs3) = run_focus_gain rnd s2 bs2;
                             out = bs3 @ replicate (wantBytes - length bs) 0;
                             (s4, rate) = match_rate rnd spa (bs \<noteq> []) s3
                         in (s4, (set_first_data (d\<lparr>sd_data := Some (memcpy_at mem 0 out),
                                    sd_chunk := Some (0, of_nat stride, of_nat wantBytes)\<rparr>) b)\<lparr>pb_size := of_nat n_frames\<rparr>, rate, True)
                | _ \<Rightarrow> (s, set_first_data d b, None, False)))"

text \<open>The process callback of a stream; \<open>None\<close> when PipeWire has no buffer to give.\<close>

definition onPlaybackProcess :: "rounding \<Rightarrow> spa_ops \<Rightarrow> ('e \<Rightarrow> nat \<Rightarrow> int list \<Rightarrow> 'e \<times> int list) \<Rightarrow> nat \<Rightarrow> pw_buffer option
    \<Rightarrow> ('e, 'c) audio_service \<Rightarrow> ('e, 'c) audio_result \<times> pw_buffer option" where
  "onPlaybackProcess rnd spa eq h buf a = (case (map_of (au_streams a) h, buf) of
     (Some s, Some b) \<Rightarrow>
       (let (s', b', rate, filled) = fillPlaybackBuffer rnd spa eq s b
        in ((on_stream h (\<lambda>_. s') a, case rate of None \<Rightarrow> [] | Some r \<Rightarrow> [RateSet h r]), Some b'))
   | _ \<Rightarrow> ((a, []), None))"

section \<open>Capture\<close>

definition capturePayload :: "spa_data \<Rightarrow> bytes option" where
  "capturePayload d = (case (sd_data d, sd_chunk d) of
     (Some mem, Some (offset, stride, n)) \<Rightarrow>
       if n = 0 \<or> offset > sd_maxsize d \<or> n > sd_maxsize d - offset \<or> n > word_of_int (2 ^ 31 - 1) then None
       else Some (take (unat n) (drop (unat offset) mem))
   | _ \<Rightarrow> None)"

definition onCaptureProcess :: "nat \<Rightarrow> pw_buffer option \<Rightarrow> ('e, 'c) audio_service \<Rightarrow> 'c audio_event list" where
  "onCaptureProcess h buf a = (case (map_of (au_captures a) h, buf) of
     (Some s, Some b) \<Rightarrow>
       (case (Option.bind (first_data b) capturePayload, cp_callback s) of
          (Some payload, Some cb) \<Rightarrow> if cp_callbackActive s then [Captured cb payload] else []
        | _ \<Rightarrow> [])
   | _ \<Rightarrow> [])"

record 'c capture_options =
  co_name :: string
  co_sampleRate :: int
  co_channels :: int
  co_bitDepth :: int
  co_autoconnect :: bool
  co_callback :: "'c option"
  co_onStreamError :: bool

definition openCaptureStreamWithOptions :: "'c capture_options \<Rightarrow> create_outcome \<Rightarrow> ('e, 'c) audio_service
    \<Rightarrow> ('e, 'c) audio_result \<times> nat option" where
  "openCaptureStreamWithOptions opts outcome a = (
     if \<not> au_available a then ((a, []), None)
     else case outcome of
       NewHandle h \<Rightarrow>
         ((a\<lparr>au_captures := au_captures a @ [(h, \<lparr>cp_name = co_name opts, cp_sampleRate = co_sampleRate opts,
             cp_channels = co_channels opts, cp_bytesPerFrame = co_channels opts * (if co_bitDepth opts = 32 then 4 else 2),
             cp_callback = co_callback opts, cp_callbackActive = co_callback opts \<noteq> None,
             cp_callbackImmutable = co_callback opts \<noteq> None, cp_onStreamError = co_onStreamError opts\<rparr>)]\<rparr>,
           [CaptureConnected h (if co_autoconnect opts then target_object (au_inputDevice a) else None) (co_autoconnect opts)]), Some h)
     | _ \<Rightarrow> ((a, []), None))"

definition openCaptureStream :: "string \<Rightarrow> int \<Rightarrow> int \<Rightarrow> int \<Rightarrow> create_outcome \<Rightarrow> ('e, 'c) audio_service
    \<Rightarrow> ('e, 'c) audio_result \<times> nat option" where
  "openCaptureStream name sampleRate channels bitDepth = openCaptureStreamWithOptions \<lparr>co_name = name, co_sampleRate = sampleRate,
     co_channels = channels, co_bitDepth = bitDepth, co_autoconnect = True, co_callback = None, co_onStreamError = False\<rparr>"

definition closeCaptureStreamHandle :: "nat \<Rightarrow> ('e, 'c) audio_service \<Rightarrow> ('e, 'c) audio_result" where
  "closeCaptureStreamHandle h a = (a\<lparr>au_captures := filter (\<lambda>(k, s). k \<noteq> h) (au_captures a)\<rparr>,
     if map_of (au_captures a) h \<noteq> None then [StreamRemoved h] else [])"

definition setCaptureCallback :: "nat \<Rightarrow> 'c option \<Rightarrow> ('e, 'c) audio_service \<Rightarrow> ('e, 'c) audio_service" where
  "setCaptureCallback h cb a = a\<lparr>au_captures := map (\<lambda>(k, s). (k,
     if k = h \<and> \<not> cp_callbackImmutable s then s\<lparr>cp_callback := cb, cp_callbackActive := cb \<noteq> None\<rparr> else s)) (au_captures a)\<rparr>"

text \<open>An error state of a stream calls the hook its owner supplied.\<close>

definition onStreamStateChanged :: "nat \<Rightarrow> bool \<Rightarrow> ('e, 'c) audio_service \<Rightarrow> 'c audio_event list" where
  "onStreamStateChanged h in_error a = (
     if in_error \<and> ((case map_of (au_streams a) h of Some s \<Rightarrow> as_onStreamError s | None \<Rightarrow> False)
       \<or> (case map_of (au_captures a) h of Some s \<Rightarrow> cp_onStreamError s | None \<Rightarrow> False))
     then [StreamErrorHook h] else [])"

section \<open>All operations\<close>

datatype ('e, 'c) audio_op =
    AuCreate "'e playback_options" create_outcome
  | AuDestroy nat
  | AuWrite nat bytes
  | AuVolume int
  | AuRequestFocus nat focus_type
  | AuReleaseFocus nat
  | AuOutputDevice string
  | AuInputDevice string
  | AuActive nat bool bool
  | AuResetRing nat
  | AuPeriod nat "pw_buffer option"
  | AuEngine nat "'e option"
  | AuDiagnostics
  | AuOpenCapture "'c capture_options" create_outcome
  | AuCloseCapture nat
  | AuSetCapture nat "'c option"
  | AuCapture nat "pw_buffer option"
  | AuState nat bool

text \<open>The state of an engine also changes from outside.\<close>

fun service_step :: "rounding \<Rightarrow> spa_ops \<Rightarrow> ('e \<Rightarrow> nat \<Rightarrow> int list \<Rightarrow> 'e \<times> int list) \<Rightarrow> ('e, 'c) audio_op \<Rightarrow> ('e, 'c) audio_service
    \<Rightarrow> ('e, 'c) audio_result" where
  "service_step rnd spa eq (AuCreate opts outcome) a = fst (createStreamWithOptions rnd spa opts outcome a)"
| "service_step rnd spa eq (AuDestroy h) a = destroyStream rnd h a"
| "service_step rnd spa eq (AuWrite h bs) a = (fst (writeAudio spa h bs a), [])"
| "service_step rnd spa eq (AuVolume v) a = setMasterVolume rnd v a"
| "service_step rnd spa eq (AuRequestFocus h ty) a = (requestAudioFocus rnd h ty a, [])"
| "service_step rnd spa eq (AuReleaseFocus h) a = (releaseAudioFocus rnd h a, [])"
| "service_step rnd spa eq (AuOutputDevice d) a = (setOutputDevice d a, [])"
| "service_step rnd spa eq (AuInputDevice d) a = (setInputDevice d a, [])"
| "service_step rnd spa eq (AuActive h b ok) a = (a, fst (setStreamActive h b ok a))"
| "service_step rnd spa eq (AuResetRing h) a = (resetStreamRing spa h a, [])"
| "service_step rnd spa eq (AuPeriod h buf) a = fst (onPlaybackProcess rnd spa eq h buf a)"
| "service_step rnd spa eq (AuEngine h e) a = (on_stream h (\<lambda>s. s\<lparr>as_eqEngine := e\<rparr>) a, [])"
| "service_step rnd spa eq AuDiagnostics a = (reportAudioDiagnostics a, [])"
| "service_step rnd spa eq (AuOpenCapture opts outcome) a = fst (openCaptureStreamWithOptions opts outcome a)"
| "service_step rnd spa eq (AuCloseCapture h) a = closeCaptureStreamHandle h a"
| "service_step rnd spa eq (AuSetCapture h cb) a = (setCaptureCallback h cb a, [])"
| "service_step rnd spa eq (AuCapture h buf) a = (a, onCaptureProcess h buf a)"
| "service_step rnd spa eq (AuState h err) a = (a, onStreamStateChanged h err a)"

end
