(* ===== verification/Orchestrator.thy ===== *)
theory Orchestrator
  imports Session Mic_Capture Display_Session Audio_Service
begin

text \<open>
  \<open>oap::aa::AndroidAutoOrchestrator\<close> (\<open>AndroidAutoOrchestrator.cpp\<close>): the listener for the
  phone, the one session with its transport and audio streams, its end by the phone, by the
  user, by the watchdog of the connection or by a replacement, and the state shown to the user.

  A session, a socket, an audio stream and an equaliser engine are numbers.  What the session
  signals is an input of the model; the signals it emits before \<open>stop\<close> returns are a parameter
  of that operation.  Audio signals are queued and may arrive after the session has ended.  The
  displays and the microphone path are those of \<open>Display_Session\<close> and \<open>Mic_Capture\<close>.  The
  protocol capture, the service discovery message, socket options, the flush of the socket and
  log messages are left out; Bluetooth support is compiled in.
\<close>

section \<open>State\<close>

datatype conn_state = CsDisconnected | CsWaitingForDevice | CsConnecting | CsConnected | CsBackgrounded

datatype audio_role = RMedia | RSpeech | RSystem

record ('c, 'x, 'p, 'f) orchestrator =
  oc_state :: conn_state
  oc_statusMessage :: string
  oc_listening :: bool
  oc_serverConnected :: bool
  oc_listenerPort :: nat
  oc_admissionOpen :: bool
  oc_session :: "nat option"
  oc_transport :: "nat option"
  oc_activeSocket :: "nat option"
  oc_sessions :: nat
  oc_watchdog :: bool
  oc_pendingReconnect :: bool
  oc_retriggerTimers :: nat
  oc_btDiscovery :: bool
  oc_phoneBatteryLevel :: int
  oc_phoneSignalStrength :: int
  oc_audioService :: bool
  oc_eqService :: bool
  oc_eventBus :: bool
  oc_stream :: "audio_role \<Rightarrow> nat option"
  oc_eq :: "audio_role \<Rightarrow> nat option"
  oc_streamActive :: "audio_role \<Rightarrow> bool"
  oc_speechFocusHint :: focus_type
  oc_lastCluster :: bool
  oc_clusterEnabled :: bool
  oc_clusterProfile :: cluster_profile
  oc_main :: "('c, 'x, 'p, 'f) display"
  oc_cluster :: "('c, 'x, 'p, 'f) display"
  oc_mic :: "mic \<times> mic_world"
  oc_navSubscriptions :: "bool list"
  oc_mediaSubscriptions :: nat
  oc_phoneSubscriptions :: nat

datatype 'f orc_event =
    EvConnectionStateChanged
  | EvStatusMessageChanged
  | EvPhoneBatteryChanged
  | EvPhoneSignalChanged
  | EvServerClosed
  | EvSocketAborted nat
  | EvSessionCreated nat
  | EvSessionStarted nat
  | EvSessionStop int
  | EvSessionFinalized nat
  | EvDisplay display_role "'f display_event"
  | EvMic av_signal
  | EvStreamCreated audio_role nat "nat option"
  | EvStreamDestroyed nat
  | EvEngineAcquired audio_role nat
  | EvEngineReleased nat
  | EvFocusRequested nat focus_type
  | EvFocusReleased nat
  | EvAudioServiceGone
  | EvVideoFocusRequested bool
  | EvBluetoothStarted
  | EvBluetoothStopped
  | EvRetriggered
  | EvPublished string

type_synonym ('c, 'x, 'p, 'f) orc_result = "('c, 'x, 'p, 'f) orchestrator \<times> 'f orc_event list"

definition orchestrator_new :: "bool \<Rightarrow> bool \<Rightarrow> bool \<Rightarrow> bool \<Rightarrow> cluster_profile \<Rightarrow> mic \<times> mic_world
    \<Rightarrow> ('c, 'x, 'p, 'f) decoder \<Rightarrow> ('c, 'x, 'p, 'f) decoder \<Rightarrow> ('c, 'x, 'p, 'f) orchestrator" where
  "orchestrator_new audio eq bus clusterEnabled profile mic dec1 dec2 =
     \<lparr>oc_state = CsDisconnected, oc_statusMessage = [], oc_listening = False, oc_serverConnected = False,
      oc_listenerPort = 0, oc_admissionOpen = False, oc_session = None, oc_transport = None, oc_activeSocket = None,
      oc_sessions = 0, oc_watchdog = False, oc_pendingReconnect = False, oc_retriggerTimers = 0, oc_btDiscovery = False,
      oc_phoneBatteryLevel = - 1, oc_phoneSignalStrength = - 1, oc_audioService = audio, oc_eqService = eq,
      oc_eventBus = bus, oc_stream = (\<lambda>_. None), oc_eq = (\<lambda>_. None), oc_streamActive = (\<lambda>_. False),
      oc_speechFocusHint = FocusGainTransientMayDuck, oc_lastCluster = False,
      oc_clusterEnabled = clusterEnabled, oc_clusterProfile = profile,
      oc_main = display_new RoleMain 0 3 1 True baseline_profile dec1,
      oc_cluster = display_new RoleCluster 1 12 13 clusterEnabled profile dec2,
      oc_mic = mic, oc_navSubscriptions = [], oc_mediaSubscriptions = 0, oc_phoneSubscriptions = 0\<rparr>"

section \<open>Parts shared by the operations\<close>

definition orc_setState :: "conn_state \<Rightarrow> string \<Rightarrow> ('c, 'x, 'p, 'f) orchestrator \<Rightarrow> ('c, 'x, 'p, 'f) orc_result" where
  "orc_setState st message s =
     (s\<lparr>oc_state := st, oc_statusMessage := message\<rparr>,
      (if oc_state s \<noteq> st then [EvConnectionStateChanged] else [])
      @ (if oc_statusMessage s \<noteq> message then [EvStatusMessageChanged] else []))"

definition waitingMessage :: "('c, 'x, 'p, 'f) orchestrator \<Rightarrow> string" where
  "waitingMessage s = ''Waiting for wireless connection on port '' @ dec_string (oc_listenerPort s) @ ''...''"

definition isAaConnected :: "('c, 'x, 'p, 'f) orchestrator \<Rightarrow> bool" where
  "isAaConnected s \<longleftrightarrow> oc_state s = CsConnected \<or> oc_state s = CsBackgrounded"

definition startConnectionWatchdog :: "('c, 'x, 'p, 'f) orchestrator \<Rightarrow> ('c, 'x, 'p, 'f) orchestrator" where
  "startConnectionWatchdog s = s\<lparr>oc_watchdog := True\<rparr>"

definition stopConnectionWatchdog :: "('c, 'x, 'p, 'f) orchestrator \<Rightarrow> ('c, 'x, 'p, 'f) orchestrator" where
  "stopConnectionWatchdog s = s\<lparr>oc_watchdog := False\<rparr>"

text \<open>An operation of one of the displays.\<close>

definition on_main :: "(('c, 'x, 'p, 'f) display \<Rightarrow> ('c, 'x, 'p, 'f) display_result) \<Rightarrow> ('c, 'x, 'p, 'f) orchestrator \<Rightarrow> ('c, 'x, 'p, 'f) orc_result" where
  "on_main f s = (let (d, es) = f (oc_main s) in (s\<lparr>oc_main := d\<rparr>, map (EvDisplay RoleMain) es))"

definition on_cluster :: "(('c, 'x, 'p, 'f) display \<Rightarrow> ('c, 'x, 'p, 'f) display_result) \<Rightarrow> ('c, 'x, 'p, 'f) orchestrator \<Rightarrow> ('c, 'x, 'p, 'f) orc_result" where
  "on_cluster f s = (let (d, es) = f (oc_cluster s) in (s\<lparr>oc_cluster := d\<rparr>, map (EvDisplay RoleCluster) es))"

definition on_cluster_enabled :: "(('c, 'x, 'p, 'f) display \<Rightarrow> ('c, 'x, 'p, 'f) display_result) \<Rightarrow> ('c, 'x, 'p, 'f) orchestrator \<Rightarrow> ('c, 'x, 'p, 'f) orc_result" where
  "on_cluster_enabled f s = (if oc_clusterEnabled s then on_cluster f s else (s, []))"

section \<open>The end of a session\<close>

definition resetPhoneStatus :: "('c, 'x, 'p, 'f) orchestrator \<Rightarrow> ('c, 'x, 'p, 'f) orc_result" where
  "resetPhoneStatus s = (s\<lparr>oc_phoneBatteryLevel := - 1, oc_phoneSignalStrength := - 1\<rparr>,
     (if oc_phoneBatteryLevel s \<noteq> - 1 then [EvPhoneBatteryChanged] else [])
     @ (if oc_phoneSignalStrength s \<noteq> - 1 then [EvPhoneSignalChanged] else []))"

definition stopMicrophone :: "spa_ops \<Rightarrow> ('c, 'x, 'p, 'f) orchestrator \<Rightarrow> ('c, 'x, 'p, 'f) orc_result" where
  "stopMicrophone spa s = (let (m, sigs) = mic_teardown spa (oc_mic s) in (s\<lparr>oc_mic := m\<rparr>, map EvMic sigs))"

definition finalizeSession :: "('c, 'x, 'p, 'f) orchestrator \<Rightarrow> ('c, 'x, 'p, 'f) orc_result" where
  "finalizeSession s = (case oc_session s of
     None \<Rightarrow> (s, [])
   | Some i \<Rightarrow> chain (chain (on_main endProtocolSession s) (on_cluster_enabled endProtocolSession))
       (\<lambda>s. (s\<lparr>oc_session := None, oc_phoneSubscriptions := 0\<rparr>, [EvSessionFinalized i])))"

definition roles :: "audio_role list" where "roles = [RMedia, RSpeech, RSystem]"

definition destroyStreams :: "('c, 'x, 'p, 'f) orchestrator \<Rightarrow> ('c, 'x, 'p, 'f) orc_result" where
  "destroyStreams s = (if \<not> oc_audioService s then (s, [])
     else (s\<lparr>oc_stream := (\<lambda>_. None)\<rparr>, map EvStreamDestroyed (List.map_filter (oc_stream s) roles)))"

definition releaseEngines :: "('c, 'x, 'p, 'f) orchestrator \<Rightarrow> ('c, 'x, 'p, 'f) orc_result" where
  "releaseEngines s = (if \<not> oc_eqService s then (s, [])
     else (s\<lparr>oc_eq := (\<lambda>_. None)\<rparr>, map EvEngineReleased (List.map_filter (oc_eq s) roles)))"

definition teardownSession :: "spa_ops \<Rightarrow> ('c, 'x, 'p, 'f) orchestrator \<Rightarrow> ('c, 'x, 'p, 'f) orc_result" where
  "teardownSession spa s =
     chain (chain (chain (chain (chain (stopMicrophone spa s) resetPhoneStatus) finalizeSession)
       (\<lambda>s. (s\<lparr>oc_transport := None, oc_activeSocket := None\<rparr>, []))) destroyStreams) releaseEngines"

definition onSessionDisconnected :: "spa_ops \<Rightarrow> ('c, 'x, 'p, 'f) orchestrator \<Rightarrow> ('c, 'x, 'p, 'f) orc_result" where
  "onSessionDisconnected spa s0 =
     chain (chain (teardownSession spa (stopConnectionWatchdog s0))
       (\<lambda>s. if oc_admissionOpen s then orc_setState CsWaitingForDevice (waitingMessage s) s
            else orc_setState CsDisconnected ''Stopped'' s))
       (\<lambda>s. (s\<lparr>oc_pendingReconnect := False, oc_retriggerTimers := oc_retriggerTimers s
              + (if oc_admissionOpen s \<and> oc_pendingReconnect s \<and> oc_btDiscovery s then 1 else 0)\<rparr>, []))"

section \<open>Signals of the session\<close>

datatype session_signal =
    SsState session_state
  | SsDisconnected disconnect_reason
  | SsChannelOpened byte
  | SsChannelClosed byte
  | SsChannelRejected int

definition onSessionStateChanged :: "session_state \<Rightarrow> ('c, 'x, 'p, 'f) orchestrator \<Rightarrow> ('c, 'x, 'p, 'f) orc_result" where
  "onSessionStateChanged st s = (case st of
     Active \<Rightarrow> chain (orc_setState CsConnected ''Android Auto active'' s) (\<lambda>s. (startConnectionWatchdog s, []))
   | Connecting \<Rightarrow> orc_setState CsConnecting ''Negotiating protocol...'' s
   | VersionExchange \<Rightarrow> orc_setState CsConnecting ''Negotiating protocol...'' s
   | TLSHandshake \<Rightarrow> orc_setState CsConnecting ''Negotiating protocol...'' s
   | ServiceDiscovery \<Rightarrow> orc_setState CsConnecting ''Service discovery...'' s
   | _ \<Rightarrow> (s, []))"

definition is_main_channel :: "('c, 'x, 'p, 'f) orchestrator \<Rightarrow> int \<Rightarrow> bool" where
  "is_main_channel s ch \<longleftrightarrow> ch = uint (pd_videoChannelId (oc_main s)) \<or> ch = uint (pd_inputChannelId (oc_main s))"

definition is_cluster_channel :: "('c, 'x, 'p, 'f) orchestrator \<Rightarrow> int \<Rightarrow> bool" where
  "is_cluster_channel s ch \<longleftrightarrow> oc_clusterEnabled s
     \<and> (ch = uint (pd_videoChannelId (oc_cluster s)) \<or> ch = uint (pd_inputChannelId (oc_cluster s)))"

definition onChannelOpened :: "byte \<Rightarrow> ('c, 'x, 'p, 'f) orchestrator \<Rightarrow> ('c, 'x, 'p, 'f) orc_result" where
  "onChannelOpened ch s = (
     if is_main_channel s (uint ch) then on_main (noteChannelOpened ch) (s\<lparr>oc_lastCluster := False\<rparr>)
     else if is_cluster_channel s (uint ch) then on_cluster (noteChannelOpened ch) (s\<lparr>oc_lastCluster := True\<rparr>)
     else (s, []))"

definition onChannelClosed :: "byte \<Rightarrow> ('c, 'x, 'p, 'f) orchestrator \<Rightarrow> ('c, 'x, 'p, 'f) orc_result" where
  "onChannelClosed ch s = (
     if is_cluster_channel s (uint ch) then on_cluster (noteChannelClosed ch) (s\<lparr>oc_lastCluster := True\<rparr>)
     else (s, []))"

definition onChannelOpenRejected :: "int \<Rightarrow> ('c, 'x, 'p, 'f) orchestrator \<Rightarrow> ('c, 'x, 'p, 'f) orc_result" where
  "onChannelOpenRejected ch s = (
     if is_main_channel s ch then on_main (noteChannelRejected ch) (s\<lparr>oc_lastCluster := False\<rparr>)
     else if is_cluster_channel s ch then on_cluster (noteChannelRejected ch) (s\<lparr>oc_lastCluster := True\<rparr>)
     else (s, []))"

text \<open>A signal of the session reaches the orchestrator until its connections are removed.\<close>

definition onSessionSignal :: "spa_ops \<Rightarrow> session_signal \<Rightarrow> ('c, 'x, 'p, 'f) orchestrator \<Rightarrow> ('c, 'x, 'p, 'f) orc_result" where
  "onSessionSignal spa sig s = (if oc_session s = None then (s, [])
     else case sig of
       SsState st \<Rightarrow> onSessionStateChanged st s
     | SsDisconnected reason \<Rightarrow> onSessionDisconnected spa s
     | SsChannelOpened ch \<Rightarrow> onChannelOpened ch s
     | SsChannelClosed ch \<Rightarrow> onChannelClosed ch s
     | SsChannelRejected ch \<Rightarrow> onChannelOpenRejected ch s)"

fun onSessionSignals :: "spa_ops \<Rightarrow> session_signal list \<Rightarrow> ('c, 'x, 'p, 'f) orchestrator \<Rightarrow> ('c, 'x, 'p, 'f) orc_result" where
  "onSessionSignals spa [] s = (s, [])"
| "onSessionSignals spa (sig # sigs) s = chain (onSessionSignal spa sig s) (onSessionSignals spa sigs)"

section \<open>Start, stop and disconnection\<close>

text \<open>A configured port, by what the conversion to \<open>qlonglong\<close> makes of a value of its type.\<close>

datatype port_value = PortMissing | PortInteger int | PortText "int option" | PortOther

definition kDefaultWirelessAaTcpPort :: u16 where "kDefaultWirelessAaTcpPort = 5277"

definition resolveWirelessAaTcpPort :: "port_value \<Rightarrow> u16 \<times> bool" where
  "resolveWirelessAaTcpPort v = (case v of
     PortMissing \<Rightarrow> (kDefaultWirelessAaTcpPort, False)
   | PortInteger n \<Rightarrow> if n = 0 \<or> 1 \<le> n \<and> n \<le> 65535 then (word_of_int n, False) else (kDefaultWirelessAaTcpPort, True)
   | PortText (Some n) \<Rightarrow> if 1 \<le> n \<and> n \<le> 65535 then (word_of_int n, False) else (kDefaultWirelessAaTcpPort, True)
   | _ \<Rightarrow> (kDefaultWirelessAaTcpPort, True))"

text \<open>
  \<open>listen\<close> gives the port the server gets for the requested one, if it can listen there;
  \<open>QTcpServer::listen\<close> refuses when the server is listening already.
\<close>

definition orc_start :: "port_value \<Rightarrow> (u16 \<Rightarrow> nat option) \<Rightarrow> string \<Rightarrow> ('c, 'x, 'p, 'f) orchestrator \<Rightarrow> ('c, 'x, 'p, 'f) orc_result" where
  "orc_start configuredPort listen errorString s =
     chain (orc_setState CsWaitingForDevice ''Initializing...'' s) (\<lambda>s.
       let s = s\<lparr>oc_serverConnected := True\<rparr> in
       case (if oc_listening s then None else listen (fst (resolveWirelessAaTcpPort configuredPort))) of
         None \<Rightarrow> orc_setState CsDisconnected (''TCP listen failed: '' @ errorString)
                  (s\<lparr>oc_admissionOpen := False, oc_listenerPort := 0\<rparr>)
       | Some port \<Rightarrow>
           (let s = s\<lparr>oc_listening := True, oc_listenerPort := port, oc_admissionOpen := True, oc_btDiscovery := True\<rparr>
            in chain (s, [EvBluetoothStarted]) (\<lambda>s. orc_setState CsWaitingForDevice (waitingMessage s) s)))"

definition orc_stop :: "spa_ops \<Rightarrow> session_signal list \<Rightarrow> ('c, 'x, 'p, 'f) orchestrator \<Rightarrow> ('c, 'x, 'p, 'f) orc_result" where
  "orc_stop spa sigs s0 = (
     let s = stopConnectionWatchdog (s0\<lparr>oc_admissionOpen := False, oc_serverConnected := False, oc_listening := False\<rparr>);
         ended = (if oc_session s \<noteq> None \<and> isAaConnected s
           then chain (chain (s, [EvServerClosed, EvSessionStop 7]) (onSessionSignals spa sigs))
                  (\<lambda>s'. if oc_session s' = oc_session s then teardownSession spa s' else (s', []))
           else chain (s, [EvServerClosed]) (teardownSession spa))
     in chain (chain ended (\<lambda>s. (s\<lparr>oc_btDiscovery := False, oc_listenerPort := 0\<rparr>,
            if oc_btDiscovery s then [EvBluetoothStopped] else [])))
          (orc_setState CsDisconnected ''Stopped''))"

definition disconnectSession :: "('c, 'x, 'p, 'f) orchestrator \<Rightarrow> ('c, 'x, 'p, 'f) orc_result" where
  "disconnectSession s = (if oc_session s = None \<or> \<not> isAaConnected s then (s, []) else (s, [EvSessionStop 1]))"

definition disconnectAndRetrigger :: "('c, 'x, 'p, 'f) orchestrator \<Rightarrow> ('c, 'x, 'p, 'f) orc_result" where
  "disconnectAndRetrigger s = disconnectSession (s\<lparr>oc_pendingReconnect := True\<rparr>)"

definition onPhoneWillConnect :: "('c, 'x, 'p, 'f) orchestrator \<Rightarrow> ('c, 'x, 'p, 'f) orc_result" where
  "onPhoneWillConnect s = (if \<not> oc_admissionOpen s \<or> isAaConnected s then (s, [])
     else orc_setState CsConnecting ''Phone connecting via WiFi...'' s)"

text \<open>The timer that asks the phone to connect again.\<close>

definition onRetriggerTimer :: "('c, 'x, 'p, 'f) orchestrator \<Rightarrow> ('c, 'x, 'p, 'f) orc_result" where
  "onRetriggerTimer s = (if oc_retriggerTimers s = 0 then (s, [])
     else (s\<lparr>oc_retriggerTimers := oc_retriggerTimers s - 1\<rparr>, if oc_btDiscovery s then [EvRetriggered] else []))"

section \<open>A new connection\<close>

text \<open>
  \<open>handles\<close> and \<open>engines\<close> are what the audio service and the equaliser service return; a stream
  that cannot be created is \<open>None\<close>.
\<close>

definition acquireEngines :: "(audio_role \<Rightarrow> nat) \<Rightarrow> ('c, 'x, 'p, 'f) orchestrator \<Rightarrow> ('c, 'x, 'p, 'f) orc_result" where
  "acquireEngines engines s = (if \<not> oc_eqService s then (s, [])
     else (s\<lparr>oc_eq := (\<lambda>r. Some (engines r))\<rparr>, map (\<lambda>r. EvEngineAcquired r (engines r)) roles))"

definition createStreams :: "(audio_role \<Rightarrow> nat option) \<Rightarrow> ('c, 'x, 'p, 'f) orchestrator \<Rightarrow> ('c, 'x, 'p, 'f) orc_result" where
  "createStreams handles s = (s\<lparr>oc_stream := handles\<rparr>,
     List.map_filter (\<lambda>r. map_option (\<lambda>h. EvStreamCreated r h (oc_eq s r)) (handles r)) roles)"

definition setupAudio :: "(audio_role \<Rightarrow> nat option) \<Rightarrow> (audio_role \<Rightarrow> nat) \<Rightarrow> ('c, 'x, 'p, 'f) orchestrator \<Rightarrow> ('c, 'x, 'p, 'f) orc_result" where
  "setupAudio handles engines s = (if \<not> oc_audioService s then (s, [])
     else chain (chain (acquireEngines engines s) (createStreams handles))
       (\<lambda>s. (s\<lparr>oc_speechFocusHint := FocusGainTransientMayDuck, oc_streamActive := (\<lambda>_. False)\<rparr>, [])))"

definition subscribeEvents :: "('c, 'x, 'p, 'f) orchestrator \<Rightarrow> ('c, 'x, 'p, 'f) orchestrator" where
  "subscribeEvents s = (if \<not> oc_eventBus s then s
     else s\<lparr>oc_navSubscriptions := oc_navSubscriptions s @ [False],
            oc_mediaSubscriptions := Suc (oc_mediaSubscriptions s),
            oc_phoneSubscriptions := Suc (oc_phoneSubscriptions s)\<rparr>)"

definition createSession :: "nat \<Rightarrow> ('c, 'x, 'p, 'f) orchestrator \<Rightarrow> ('c, 'x, 'p, 'f) orc_result" where
  "createSession socket s = (let i = oc_sessions s in
     chain (chain (s\<lparr>oc_activeSocket := Some socket, oc_lastCluster := False, oc_transport := Some socket\<rparr>, [])
       (on_cluster_enabled activateRequestedClusterProfile))
       (\<lambda>s. (s\<lparr>oc_session := Some i, oc_sessions := Suc i\<rparr>, [EvSessionCreated i])))"

definition onNewConnection :: "spa_ops \<Rightarrow> nat option \<Rightarrow> string \<Rightarrow> (audio_role \<Rightarrow> nat option) \<Rightarrow> (audio_role \<Rightarrow> nat)
    \<Rightarrow> ('c, 'x, 'p, 'f) orchestrator \<Rightarrow> ('c, 'x, 'p, 'f) orc_result" where
  "onNewConnection spa pending peer handles engines s = (case pending of
     None \<Rightarrow> (s, [])
   | Some socket \<Rightarrow>
       if \<not> oc_admissionOpen s \<or> isAaConnected s then (s, [EvSocketAborted socket])
       else
         chain (chain (chain (chain (chain (chain
           (if oc_session s \<noteq> None then teardownSession spa s else (s, []))
           (orc_setState CsConnecting (''Wireless connection from '' @ peer @ ''...'')))
           (createSession socket))
           (setupAudio handles engines))
           (\<lambda>s. (subscribeEvents s, [])))
           (\<lambda>s. chain (on_main beginProtocolSession s) (on_cluster_enabled beginProtocolSession)))
           (\<lambda>s. (s, case oc_session s of Some i \<Rightarrow> [EvSessionStarted i] | None \<Rightarrow> [])))"

section \<open>The watchdog of the connection\<close>

datatype socket_status = FdInvalid | InfoFails | TcpInfo nat nat nat

definition peer_unreachable :: "nat \<Rightarrow> nat \<Rightarrow> bool" where
  "peer_unreachable backoff retransmits \<longleftrightarrow> backoff \<ge> 3 \<or> retransmits > 4"

definition onWatchdogTimeout :: "spa_ops \<Rightarrow> socket_status \<Rightarrow> ('c, 'x, 'p, 'f) orchestrator \<Rightarrow> ('c, 'x, 'p, 'f) orc_result" where
  "onWatchdogTimeout spa status s = (
     if \<not> oc_watchdog s then (s, [])
     else case oc_activeSocket s of
       None \<Rightarrow> (stopConnectionWatchdog s, [])
     | Some socket \<Rightarrow>
         if \<not> isAaConnected s then (stopConnectionWatchdog s, [])
         else case status of
           FdInvalid \<Rightarrow> chain (teardownSession spa s) (\<lambda>s. orc_setState CsWaitingForDevice (waitingMessage s) s)
         | InfoFails \<Rightarrow> onSessionDisconnected spa s
         | TcpInfo tcpState backoff retransmits \<Rightarrow>
             if tcpState \<noteq> 1 then onSessionDisconnected spa s
             else if peer_unreachable backoff retransmits
             then chain (s, [EvSocketAborted socket]) (onSessionDisconnected spa)
             else (s, []))"

section \<open>Video and audio focus, phone status, events\<close>

definition requestVideoFocus :: "('c, 'x, 'p, 'f) orchestrator \<Rightarrow> ('c, 'x, 'p, 'f) orc_result" where
  "requestVideoFocus s = (if oc_state s = CsBackgrounded
     then chain (s, [EvVideoFocusRequested True]) (orc_setState CsConnected ''Android Auto active'') else (s, []))"

definition requestExitToCar :: "('c, 'x, 'p, 'f) orchestrator \<Rightarrow> ('c, 'x, 'p, 'f) orc_result" where
  "requestExitToCar s = (if oc_state s = CsConnected
     then chain (s, [EvVideoFocusRequested False]) (orc_setState CsBackgrounded ''Exited to car'') else (s, []))"

definition mainFocusChanged :: "int \<Rightarrow> ('c, 'x, 'p, 'f) orchestrator \<Rightarrow> ('c, 'x, 'p, 'f) orc_result" where
  "mainFocusChanged mode s = (
     if mode = 2 \<and> oc_state s = CsConnected then orc_setState CsBackgrounded ''Android Auto running in background'' s
     else if mode = 1 \<and> oc_state s = CsBackgrounded then orc_setState CsConnected ''Android Auto active'' s
     else (s, []))"

text \<open>
  The operations of a display that others than the orchestrator cause: the video channel, the
  view and the decode thread.  The orchestrator follows the focus of the main display, the
  display that was active last, and a change of the cluster profile.
\<close>

fun display_input :: "display_op \<Rightarrow> bool" where
  "display_input OpBeginProtocol = False"
| "display_input OpEndProtocol = False"
| "display_input (OpChannelOpened ch) = False"
| "display_input (OpChannelClosed ch) = False"
| "display_input (OpChannelRejected ch) = False"
| "display_input OpActivateProfile = False"
| "display_input op = True"

fun is_video_data :: "display_op \<Rightarrow> bool" where
  "is_video_data (OpVideoData b) = True"
| "is_video_data op = False"

definition onMainDisplay :: "('c, 'x, 'p, 'f) ffmpeg \<Rightarrow> display_op \<Rightarrow> ('c, 'x, 'p, 'f) orchestrator \<Rightarrow> ('c, 'x, 'p, 'f) orc_result" where
  "onMainDisplay ff op s = (if \<not> display_input op then (s, [])
     else chain (on_main (display_step ff op) s) (\<lambda>s.
       case op of OpVideoFocus mode \<Rightarrow> mainFocusChanged mode s
       | _ \<Rightarrow> (if is_video_data op then s\<lparr>oc_lastCluster := False\<rparr> else s, [])))"

definition onClusterDisplay :: "('c, 'x, 'p, 'f) ffmpeg \<Rightarrow> display_op \<Rightarrow> ('c, 'x, 'p, 'f) orchestrator \<Rightarrow> ('c, 'x, 'p, 'f) orc_result" where
  "onClusterDisplay ff op s = (if \<not> display_input op then (s, [])
     else let (d, es) = display_step ff op (oc_cluster s);
              s1 = s\<lparr>oc_cluster := d, oc_lastCluster := (oc_lastCluster s \<or> is_video_data op)\<rparr>
          in chain (s1, map (EvDisplay RoleCluster) es) (\<lambda>s.
               if ClusterProfileChangeRequested \<notin> set es then (s, [])
               else let s = s\<lparr>oc_clusterProfile := pd_requestedProfile (oc_cluster s)\<rparr> in
                 if isAaConnected s then disconnectAndRetrigger s else (s, [])))"

definition onSetupRequested :: "display_role \<Rightarrow> ('c, 'x, 'p, 'f) orchestrator \<Rightarrow> ('c, 'x, 'p, 'f) orc_result" where
  "onSetupRequested role s = (s\<lparr>oc_lastCluster := (role = RoleCluster)\<rparr>, [])"

definition requested_focus :: "audio_role \<Rightarrow> ('c, 'x, 'p, 'f) orchestrator \<Rightarrow> focus_type" where
  "requested_focus r s = (case r of RMedia \<Rightarrow> FocusGain | RSpeech \<Rightarrow> oc_speechFocusHint s
     | RSystem \<Rightarrow> FocusGainTransientMayDuck)"

definition onStreamStartedAudio :: "audio_role \<Rightarrow> ('c, 'x, 'p, 'f) orchestrator \<Rightarrow> ('c, 'x, 'p, 'f) orc_result" where
  "onStreamStartedAudio r s = (s\<lparr>oc_streamActive := (oc_streamActive s)(r := True)\<rparr>,
     case oc_stream s r of Some h \<Rightarrow> [EvFocusRequested h (requested_focus r s)] | None \<Rightarrow> [])"

definition onStreamStoppedAudio :: "audio_role \<Rightarrow> ('c, 'x, 'p, 'f) orchestrator \<Rightarrow> ('c, 'x, 'p, 'f) orc_result" where
  "onStreamStoppedAudio r s = (s\<lparr>oc_streamActive := (oc_streamActive s)(r := False)\<rparr>,
     case oc_stream s r of Some h \<Rightarrow> [EvFocusReleased h] | None \<Rightarrow> [])"

definition onAudioFocusChanged :: "int \<Rightarrow> ('c, 'x, 'p, 'f) orchestrator \<Rightarrow> ('c, 'x, 'p, 'f) orc_result" where
  "onAudioFocusChanged focusType s = (
     if focusType = 2 then (s\<lparr>oc_speechFocusHint := FocusGainTransient\<rparr>, [])
     else if focusType = 3 then (s\<lparr>oc_speechFocusHint := FocusGainTransientMayDuck\<rparr>, [])
     else if focusType = 4 then (s\<lparr>oc_speechFocusHint := FocusGainTransientMayDuck\<rparr>,
       List.map_filter (\<lambda>r. if oc_streamActive s r then None else map_option EvFocusReleased (oc_stream s r)) roles)
     else (s, []))"

text \<open>\<open>parsed\<close>: the notification as far as it can be parsed, and its battery level if it has one.\<close>

definition onBatteryStatus :: "int option option \<Rightarrow> ('c, 'x, 'p, 'f) orchestrator \<Rightarrow> ('c, 'x, 'p, 'f) orc_result" where
  "onBatteryStatus parsed s = (if oc_session s = None then (s, [])
     else case parsed of
       None \<Rightarrow> (s, [])
     | Some hasLevel \<Rightarrow>
         (let level = (case hasLevel of Some n \<Rightarrow> n | None \<Rightarrow> - 1) in
          if oc_phoneBatteryLevel s = level then (s, [])
          else (s\<lparr>oc_phoneBatteryLevel := level\<rparr>, [EvPhoneBatteryChanged])))"

definition onSignalStrength :: "int \<Rightarrow> ('c, 'x, 'p, 'f) orchestrator \<Rightarrow> ('c, 'x, 'p, 'f) orc_result" where
  "onSignalStrength strength s = (if oc_session s = None \<or> oc_phoneSignalStrength s = strength then (s, [])
     else (s\<lparr>oc_phoneSignalStrength := strength\<rparr>, [EvPhoneSignalChanged]))"

definition onNavigationState :: "bool \<Rightarrow> ('c, 'x, 'p, 'f) orchestrator \<Rightarrow> ('c, 'x, 'p, 'f) orc_result" where
  "onNavigationState active s = (s\<lparr>oc_navSubscriptions := map (\<lambda>_. active) (oc_navSubscriptions s)\<rparr>,
     map (\<lambda>_. EvPublished ''aa.nav.state'') (filter (\<lambda>published. published \<noteq> active) (oc_navSubscriptions s)))"

definition onNavigationNotification :: "('c, 'x, 'p, 'f) orchestrator \<Rightarrow> ('c, 'x, 'p, 'f) orc_result" where
  "onNavigationNotification s = (s, replicate (length (oc_navSubscriptions s)) (EvPublished ''aa.nav.step''))"

definition onNavigationPosition :: "('c, 'x, 'p, 'f) orchestrator \<Rightarrow> ('c, 'x, 'p, 'f) orc_result" where
  "onNavigationPosition s = (s, replicate (length (oc_navSubscriptions s)) (EvPublished ''aa.nav.distance''))"

definition onMediaStatus :: "string \<Rightarrow> ('c, 'x, 'p, 'f) orchestrator \<Rightarrow> ('c, 'x, 'p, 'f) orc_result" where
  "onMediaStatus topic s = (s, replicate (oc_mediaSubscriptions s) (EvPublished topic))"

definition onPhoneStatus :: "string \<Rightarrow> ('c, 'x, 'p, 'f) orchestrator \<Rightarrow> ('c, 'x, 'p, 'f) orc_result" where
  "onPhoneStatus topic s = (s, replicate (oc_phoneSubscriptions s) (EvPublished topic))"

definition onAudioServiceAboutToDestroy :: "spa_ops \<Rightarrow> ('c, 'x, 'p, 'f) orchestrator \<Rightarrow> ('c, 'x, 'p, 'f) orc_result" where
  "onAudioServiceAboutToDestroy spa s = (if \<not> oc_audioService s then (s, [])
     else chain (stopMicrophone spa s) (\<lambda>s. (s\<lparr>oc_stream := (\<lambda>_. None), oc_streamActive := (\<lambda>_. False),
            oc_audioService := False\<rparr>, [EvAudioServiceGone])))"

text \<open>
  The microphone path: its channel is served by the session, and no capture stream can be opened
  without the audio service.
\<close>

definition onMicrophone :: "av_protos \<Rightarrow> spa_ops \<Rightarrow> (real \<Rightarrow> real \<Rightarrow> real) \<Rightarrow> mic_op
    \<Rightarrow> ('c, 'x, 'p, 'f) orchestrator \<Rightarrow> ('c, 'x, 'p, 'f) orc_result" where
  "onMicrophone p spa fmul op s = (
     let op' = (case op of MicMessage mid payload off gain opens \<Rightarrow> MicMessage mid payload off gain (opens \<and> oc_audioService s)
                | _ \<Rightarrow> op);
         served = (case op of MicMessage mid payload off gain opens \<Rightarrow> oc_session s \<noteq> None
                   | MicChannelOpened \<Rightarrow> oc_session s \<noteq> None | _ \<Rightarrow> True)
     in if \<not> served then (s, [])
        else let (m, sigs) = mic_step p spa fmul op' (oc_mic s) in (s\<lparr>oc_mic := m\<rparr>, map EvMic sigs))"

section \<open>All operations\<close>

record ('c, 'x, 'p, 'f) orc_env =
  oe_ffmpeg :: "('c, 'x, 'p, 'f) ffmpeg"
  oe_protos :: av_protos
  oe_spa :: spa_ops
  oe_fmul :: "real \<Rightarrow> real \<Rightarrow> real"

datatype orc_op =
    OrcStart port_value "u16 \<Rightarrow> nat option" string
  | OrcStop "session_signal list"
  | OrcDisconnectSession
  | OrcDisconnectAndRetrigger
  | OrcPhoneWillConnect
  | OrcRetriggerTimer
  | OrcNewConnection "nat option" string "audio_role \<Rightarrow> nat option" "audio_role \<Rightarrow> nat"
  | OrcSession session_signal
  | OrcWatchdog socket_status
  | OrcRequestVideoFocus
  | OrcRequestExitToCar
  | OrcMainDisplay display_op
  | OrcClusterDisplay display_op
  | OrcSetupRequested display_role
  | OrcStreamStarted audio_role
  | OrcStreamStopped audio_role
  | OrcAudioFocus int
  | OrcBattery "int option option"
  | OrcSignal int
  | OrcNavigationState bool
  | OrcNavigationNotification
  | OrcNavigationPosition
  | OrcMediaStatus string
  | OrcPhoneStatus string
  | OrcMicrophone mic_op
  | OrcAudioServiceAboutToDestroy

text \<open>The server announces connections while it listens and its signal is connected.\<close>

primrec orc_step :: "('c, 'x, 'p, 'f) orc_env \<Rightarrow> orc_op \<Rightarrow> ('c, 'x, 'p, 'f) orchestrator \<Rightarrow> ('c, 'x, 'p, 'f) orc_result" where
  "orc_step env (OrcStart port listen errorString) s = orc_start port listen errorString s"
| "orc_step env (OrcStop sigs) s = orc_stop (oe_spa env) sigs s"
| "orc_step env OrcDisconnectSession s = disconnectSession s"
| "orc_step env OrcDisconnectAndRetrigger s = disconnectAndRetrigger s"
| "orc_step env OrcPhoneWillConnect s = onPhoneWillConnect s"
| "orc_step env OrcRetriggerTimer s = onRetriggerTimer s"
| "orc_step env (OrcNewConnection pending peer handles engines) s =
     (if oc_listening s \<and> oc_serverConnected s then onNewConnection (oe_spa env) pending peer handles engines s else (s, []))"
| "orc_step env (OrcSession sig) s = onSessionSignal (oe_spa env) sig s"
| "orc_step env (OrcWatchdog status) s = onWatchdogTimeout (oe_spa env) status s"
| "orc_step env OrcRequestVideoFocus s = requestVideoFocus s"
| "orc_step env OrcRequestExitToCar s = requestExitToCar s"
| "orc_step env (OrcMainDisplay op) s = onMainDisplay (oe_ffmpeg env) op s"
| "orc_step env (OrcClusterDisplay op) s = onClusterDisplay (oe_ffmpeg env) op s"
| "orc_step env (OrcSetupRequested role) s = onSetupRequested role s"
| "orc_step env (OrcStreamStarted r) s = onStreamStartedAudio r s"
| "orc_step env (OrcStreamStopped r) s = onStreamStoppedAudio r s"
| "orc_step env (OrcAudioFocus n) s = onAudioFocusChanged n s"
| "orc_step env (OrcBattery parsed) s = onBatteryStatus parsed s"
| "orc_step env (OrcSignal n) s = onSignalStrength n s"
| "orc_step env (OrcNavigationState active) s = onNavigationState active s"
| "orc_step env OrcNavigationNotification s = onNavigationNotification s"
| "orc_step env OrcNavigationPosition s = onNavigationPosition s"
| "orc_step env (OrcMediaStatus topic) s = onMediaStatus topic s"
| "orc_step env (OrcPhoneStatus topic) s = onPhoneStatus topic s"
| "orc_step env (OrcMicrophone op) s = onMicrophone (oe_protos env) (oe_spa env) (oe_fmul env) op s"
| "orc_step env OrcAudioServiceAboutToDestroy s = onAudioServiceAboutToDestroy (oe_spa env) s"

end
