(* ===== verification/Display_Invariant.thy ===== *)
theory Display_Invariant
  imports Display_Session
begin

text \<open>
  A projected display is always in a state that fits the protocol session and its decoder, and
  shows no frame but those of the stream that is running.
\<close>

section \<open>The stream the display has asked for\<close>

primrec stream_event :: "'f display_event \<Rightarrow> stream \<Rightarrow> stream" where
  "stream_event (CallBeginStream g) h = (if g = 0 then h else Some (g, []))"
| "stream_event CallEndStream h = None"
| "stream_event (CallDecodeFrame b) h = map_option (\<lambda>(g, ps). (g, ps @ [b])) h"
| "stream_event (ShowFrame s f) h = h"
| "stream_event DisplayStateChanged h = h"
| "stream_event ProfileDiagnosticsChanged h = h"
| "stream_event ClusterProfileChangeRequested h = h"
| "stream_event ViewportGeometryChanged h = h"
| "stream_event VideoSinkAvailabilityChanged h = h"

definition stream_of :: "'f display_event list \<Rightarrow> stream" where
  "stream_of es = fold stream_event es None"

lemma stream_of_append [simp]:
  "stream_of (es @ [e]) = stream_event e (stream_of es)"
  "stream_of (es @ e # fs) = fold stream_event fs (stream_event e (stream_of es))"
  by (simp_all add: stream_of_def)

definition shows_current :: "('c, 'x, 'p, 'f) ffmpeg \<Rightarrow> 'f display_event list \<Rightarrow> bool" where
  "shows_current ff es \<longleftrightarrow> (\<forall>before s f after. es = before @ ShowFrame s f # after \<longrightarrow>
     (\<exists>g ps. stream_of before = Some (g, ps) \<and> frame_of_stream ff ps f))"

lemma shows_current_Nil [simp]: "shows_current ff []"
  by (simp add: shows_current_def)

lemma shows_current_snoc:
  "shows_current ff (es @ [e]) \<longleftrightarrow> shows_current ff es \<and>
     (case e of ShowFrame s f \<Rightarrow> \<exists>g ps. stream_of es = Some (g, ps) \<and> frame_of_stream ff ps f | _ \<Rightarrow> True)"
proof -
  have split: "es @ [e] = before @ ShowFrame s f # after \<longleftrightarrow>
      (after = [] \<and> es = before \<and> e = ShowFrame s f) \<or> (\<exists>a. after = a @ [e] \<and> es = before @ ShowFrame s f # a)"
    for before s f after
    by (cases after rule: rev_cases) auto
  show ?thesis unfolding shows_current_def split by (cases e) auto
qed

definition stream_part :: "('c, 'x, 'p, 'f) ffmpeg \<Rightarrow> ('c, 'x, 'p, 'f) display \<Rightarrow> 'f display_event list \<Rightarrow> bool" where
  "stream_part ff d h \<longleftrightarrow> shows_current ff h \<and> (case pd_decoder d of
     None \<Rightarrow> True
   | Some dec \<Rightarrow> stream_inv ff (stream_of h) dec
       \<and> (pd_activeDecoderGeneration d \<noteq> 0 \<longrightarrow> (\<exists>ps. stream_of h = Some (pd_activeDecoderGeneration d, ps))))"

abbreviation part_of_result :: "('c, 'x, 'p, 'f) ffmpeg \<Rightarrow> 'f display_event list \<Rightarrow> ('c, 'x, 'p, 'f) display_result \<Rightarrow> bool" where
  "part_of_result ff h r \<equiv> stream_part ff (fst r) (h @ snd r)"

lemma part_cong:
  "stream_part ff d h \<Longrightarrow> pd_decoder d' = pd_decoder d
    \<Longrightarrow> pd_activeDecoderGeneration d' = pd_activeDecoderGeneration d \<or> pd_activeDecoderGeneration d' = 0
    \<Longrightarrow> stream_part ff d' h"
  by (auto simp: stream_part_def split: option.splits)

lemma part_quiet:
  assumes "stream_part ff d h" and "\<And>g. e \<noteq> CallBeginStream g" "e \<noteq> CallEndStream" "\<And>b. e \<noteq> CallDecodeFrame b"
    "\<And>s f. e \<noteq> ShowFrame s f"
  shows "stream_part ff d (h @ [e])"
proof -
  have "stream_event e (stream_of h) = stream_of h" and "shows_current ff (h @ [e]) = shows_current ff h"
    using assms(2-5) by (cases e; simp add: shows_current_snoc)+
  then show ?thesis using assms(1) by (simp add: stream_part_def split: option.splits)
qed

lemma part_seq:
  assumes "part_of_result ff h r" and "\<And>d h. stream_part ff d h \<Longrightarrow> part_of_result ff h (f d)"
  shows "part_of_result ff h (chain r f)"
  using assms(1) assms(2) [of "fst r" "h @ snd r"] by (simp add: chain_fst chain_snd)

lemma part_setState: "stream_part ff d h \<Longrightarrow> part_of_result ff h (ds_setState st text d)"
  by (auto simp: ds_setState_def intro!: part_quiet intro: part_cong)

lemma part_endDecoder: "stream_part ff d h \<Longrightarrow> part_of_result ff h (ds_endDecoder d)"
  by (auto simp: ds_endDecoder_def stream_part_def shows_current_snoc split: option.splits intro: inv_end)

lemma part_terminal: "stream_part ff d h \<Longrightarrow> part_of_result ff h (enterTerminalState st text d)"
  unfolding enterTerminalState_def
  by (intro part_seq part_endDecoder part_setState) (auto intro: part_cong)

lemma part_sink: "stream_part ff d h \<Longrightarrow> stream_part ff (set_decoder_sink s d) h"
  by (auto simp: stream_part_def set_decoder_sink_def split: option.splits intro: inv_sink)

lemmas part_intros = part_seq part_setState part_endDecoder part_terminal part_sink part_quiet

lemma part_beginProtocol: "stream_part ff d h \<Longrightarrow> part_of_result ff h (beginProtocolSession d)"
  by (auto simp: beginProtocolSession_def waitForChannel_def Let_def split: option.split
      intro!: part_setState part_terminal intro: part_cong)

lemma part_endProtocol: "stream_part ff d h \<Longrightarrow> part_of_result ff h (endProtocolSession d)"
  by (auto simp: endProtocolSession_def intro!: part_seq part_endDecoder part_setState intro: part_cong)

lemma part_channels:
  "stream_part ff d h \<Longrightarrow> part_of_result ff h (noteChannelOpened ch d)"
  "stream_part ff d h \<Longrightarrow> part_of_result ff h (noteChannelClosed ch d)"
  "stream_part ff d h \<Longrightarrow> part_of_result ff h (noteChannelRejected i d)"
  by (auto simp: noteChannelOpened_def noteChannelClosed_def noteChannelRejected_def waitForFrames_def waitForChannel_def
      intro!: part_seq part_endDecoder part_setState part_terminal intro: part_cong)

lemma part_streamStarted: "stream_part ff d h \<Longrightarrow> part_of_result ff h (onStreamStarted d)"
proof (cases "\<not> pd_protocolActive d \<or> pd_terminalStateLatched d \<or> pd_decoder d = None")
  case True
  then show "stream_part ff d h \<Longrightarrow> ?thesis" by (auto simp: onStreamStarted_def split: option.split)
next
  case False
  then obtain dec where dec: "pd_decoder d = Some dec" by auto
  obtain g dec' where b: "beginStream dec = (g, dec')" by (cases "beginStream dec")
  let ?d1 = "d\<lparr>pd_activeDecoderGeneration := g, pd_decoder := Some dec'\<rparr>"
  assume part: "stream_part ff d h"
  have "stream_part ff ?d1 (h @ [CallBeginStream g])"
    using part inv_begin [OF _ b, of ff "stream_of h"] by (auto simp: stream_part_def dec shows_current_snoc)
  then show ?thesis
    using False by (auto simp: onStreamStarted_def dec b Let_def waitForFrames_def
        intro!: part_seq part_terminal part_setState)
qed

lemma part_streamStopped: "stream_part ff d h \<Longrightarrow> part_of_result ff h (onStreamStopped d)"
  by (auto simp: onStreamStopped_def waitForFrames_def waitForChannel_def intro!: part_seq part_endDecoder part_setState)

lemma part_frameData: "stream_part ff d h \<Longrightarrow> part_of_result ff h (onVideoFrameData b d)"
  using inv_decode [of ff "stream_of h" _ b]
  by (auto simp: onVideoFrameData_def stream_part_def shows_current_snoc split: option.splits)

lemma part_frameReady:
  assumes part: "stream_part ff d h" and dec: "pd_decoder d = Some dec"
    and ready: "stream_inv ff (stream_of h) (dec\<lparr>dc_signals := SigFrameReady g # dc_signals dec\<rparr>)"
  shows "part_of_result ff h (onFrameReady g dec d)"
proof (cases "stale g d")
  case True
  then show ?thesis using part by (simp add: onFrameReady_def)
next
  case False
  obtain fr dec' where t: "takeLatestFrame dec = (fr, dec')" by (cases "takeLatestFrame dec")
  let ?d1 = "d\<lparr>pd_decoder := Some dec'\<rparr>"
  have inv: "stream_inv ff (stream_of h) dec'"
    using part inv_take [of ff "stream_of h" dec] by (simp add: stream_part_def dec t)
  then have d1: "stream_part ff ?d1 h" using part by (auto simp: stream_part_def dec)
  obtain ps where h: "stream_of h = Some (g, ps)"
    using part False by (auto simp: stream_part_def dec stale_def)
  have shown: "frame_of_stream ff ps f" if "fr = Some f" for f
    using taken_frame [of ff g ps "dec\<lparr>dc_signals := SigFrameReady g # dc_signals dec\<rparr>" f] ready t that
    by (auto simp: h takeLatestFrame_def split: if_splits)
  have show1: "stream_part ff ?d1 (h @ [ShowFrame s f])" if "fr = Some f" for s f
    using d1 shown [OF that] h by (auto simp: stream_part_def shows_current_snoc)
  show ?thesis
    using False d1 show1
    by (cases fr) (auto simp: onFrameReady_def t Let_def split: option.split
        intro!: part_seq part_terminal part_setState)
qed

lemma part_deliver:
  assumes part: "stream_part ff d h"
  shows "part_of_result ff h (deliverSignal d)"
proof (cases "\<exists>dec s rest. pd_decoder d = Some dec \<and> dc_signals dec = s # rest")
  case False
  then show ?thesis using part by (auto simp: deliverSignal_def split: option.splits list.splits)
next
  case True
  then obtain dec s rest where dec: "pd_decoder d = Some dec" and s: "dc_signals dec = s # rest" by blast
  let ?dec = "dec\<lparr>dc_signals := rest\<rparr>"
  let ?d = "d\<lparr>pd_decoder := Some ?dec\<rparr>"
  have same: "dec\<lparr>dc_signals := s # rest\<rparr> = dec" using s by (metis decoder.update_convs(10) decoder.surjective decoder.select_convs(10))
  have inv: "stream_inv ff (stream_of h) dec" using part by (simp add: stream_part_def dec)
  have d: "stream_part ff ?d h"
    using part inv_signals [OF inv, of rest] by (auto simp: stream_part_def dec s)
  show ?thesis
  proof (cases s)
    case (SigFrameReady g)
    have "part_of_result ff h (onFrameReady g ?dec ?d)"
      by (rule part_frameReady [OF d]) (use inv same in \<open>simp_all add: SigFrameReady\<close>)
    then show ?thesis by (simp add: deliverSignal_def dec s SigFrameReady Let_def)
  next
    case (SigStreamError g m)
    then show ?thesis using d by (auto simp: deliverSignal_def dec s onStreamError_def Let_def intro: part_terminal)
  next
    case (SigStreamEnded g)
    then show ?thesis using d by (simp add: deliverSignal_def dec s Let_def)
  qed
qed

lemma part_thread: "stream_part ff d h \<Longrightarrow> stream_part ff (decodeThread ff yaml mapped d) h"
  by (auto simp: decodeThread_def stream_part_def split: option.splits bind_splits intro: inv_worker)

section \<open>The state of the display\<close>

declare chain_fst [simp]

definition profile_ok :: "cluster_profile \<Rightarrow> bool" where
  "profile_ok p \<longleftrightarrow> (cp_resolution p = ''480p'' \<or> cp_resolution p = ''720p'') \<and> cp_dpi p \<ge> 80 \<and> cp_dpi p \<le> 640
     \<and> viewport_isValid (profile_geometry p)"

definition state_ok :: "bool \<Rightarrow> display_state \<Rightarrow> bool \<Rightarrow> bool \<Rightarrow> bool \<Rightarrow> nat \<Rightarrow> bool" where
  "state_ok enabled st protocolActive latched channelOpen generation \<longleftrightarrow>
     (st = DsDisabled \<longleftrightarrow> \<not> enabled)
     \<and> (protocolActive \<longleftrightarrow> st \<noteq> DsDisabled \<and> st \<noteq> DsDisconnected)
     \<and> (latched \<longleftrightarrow> st = DsRejected \<or> st = DsError)
     \<and> (st = DsRendering \<longrightarrow> generation \<noteq> 0)
     \<and> (generation \<noteq> 0 \<longrightarrow> st = DsRendering \<or> st = DsWaitingForFrames)
     \<and> (st = DsWaitingForChannel \<longrightarrow> \<not> channelOpen)"

definition display_ok :: "('c, 'x, 'p, 'f) display \<Rightarrow> bool" where
  "display_ok d \<longleftrightarrow> (pd_decoder d \<noteq> None \<longleftrightarrow> pd_enabled d)
     \<and> state_ok (pd_enabled d) (pd_state d) (pd_protocolActive d) (pd_terminalStateLatched d)
         (pd_videoChannelOpen d) (pd_activeDecoderGeneration d)
     \<and> profile_ok (pd_requestedProfile d) \<and> profile_ok (pd_activeProfile d)"

lemma setState_fields [simp]:
  "fst (ds_setState st text d) = d\<lparr>pd_state := st, pd_statusText := text\<rparr>"
  by (auto simp: ds_setState_def)

lemma endDecoder_fst [simp]:
  "fst (ds_endDecoder d) = d\<lparr>pd_activeDecoderGeneration := 0, pd_decoder := map_option endStream (pd_decoder d)\<rparr>"
  by (auto simp: ds_endDecoder_def split: option.split)

lemma terminal_fst [simp]:
  "fst (enterTerminalState st text d) = d\<lparr>pd_terminalStateLatched := True, pd_activeDecoderGeneration := 0,
     pd_decoder := map_option endStream (pd_decoder d), pd_state := st, pd_statusText := text\<rparr>"
  by (simp add: enterTerminalState_def)

lemma wait_fst [simp]:
  "fst (waitForFrames d) = d\<lparr>pd_state := DsWaitingForFrames, pd_statusText := ''Waiting for projected frames''\<rparr>"
  "fst (waitForChannel d) = d\<lparr>pd_state := DsWaitingForChannel, pd_statusText := ''Waiting for projected channel''\<rparr>"
  by (simp_all add: waitForFrames_def waitForChannel_def)

lemma ok_protocol:
  "display_ok d \<Longrightarrow> display_ok (fst (beginProtocolSession d))"
  "display_ok d \<Longrightarrow> display_ok (fst (endProtocolSession d))"
  by (auto simp: display_ok_def state_ok_def beginProtocolSession_def endProtocolSession_def Let_def split: option.split)

lemma ok_channels:
  "display_ok d \<Longrightarrow> display_ok (fst (noteChannelOpened ch d))"
  "display_ok d \<Longrightarrow> display_ok (fst (noteChannelClosed ch d))"
  "display_ok d \<Longrightarrow> display_ok (fst (noteChannelRejected i d))"
  by (auto simp: display_ok_def state_ok_def noteChannelOpened_def noteChannelClosed_def noteChannelRejected_def)

lemma ok_streams:
  "display_ok d \<Longrightarrow> display_ok (fst (onStreamStarted d))"
  "display_ok d \<Longrightarrow> display_ok (fst (onStreamStopped d))"
  "display_ok d \<Longrightarrow> display_ok (fst (onVideoFocusChanged mode d))"
  "display_ok d \<Longrightarrow> display_ok (fst (onVideoFrameData b d))"
  by (auto simp: display_ok_def state_ok_def onStreamStarted_def onStreamStopped_def onVideoFocusChanged_def
      onVideoFrameData_def Let_def split: option.split prod.split)

lemma ok_frameReady:
  assumes ok: "display_ok d" and dec: "pd_decoder d = Some dec"
  shows "display_ok (fst (onFrameReady g dec' d))"
proof (cases "stale g d")
  case True
  then show ?thesis using ok by (simp add: onFrameReady_def)
next
  case False
  obtain fr dec2 where t: "takeLatestFrame dec' = (fr, dec2)" by (cases "takeLatestFrame dec'")
  show ?thesis
    using ok dec False unfolding display_ok_def state_ok_def stale_def
    by (cases fr) (simp_all add: onFrameReady_def t Let_def stale_def)
qed

lemma ok_streamError: "display_ok d \<Longrightarrow> display_ok (fst (onStreamError g m d))"
  by (auto simp: onStreamError_def stale_def display_ok_def state_ok_def)

lemma ok_deliver:
  assumes ok: "display_ok d"
  shows "display_ok (fst (deliverSignal d))"
proof (cases "\<exists>dec s rest. pd_decoder d = Some dec \<and> dc_signals dec = s # rest")
  case False
  then show ?thesis using ok by (auto simp: deliverSignal_def split: option.splits list.splits)
next
  case True
  then obtain dec s rest where dec: "pd_decoder d = Some dec" and s: "dc_signals dec = s # rest" by blast
  have ok1: "display_ok (d\<lparr>pd_decoder := Some x\<rparr>)" for x using ok dec by (auto simp: display_ok_def)
  show ?thesis
  proof (cases s)
    case (SigFrameReady g)
    then show ?thesis using ok_frameReady [OF ok1] by (simp add: deliverSignal_def dec s Let_def)
  next
    case (SigStreamError g m)
    then show ?thesis using ok_streamError [OF ok1] by (simp add: deliverSignal_def dec s Let_def)
  next
    case (SigStreamEnded g)
    then show ?thesis using ok1 by (simp add: deliverSignal_def dec s Let_def)
  qed
qed

lemma ok_sinks:
  "display_ok d \<Longrightarrow> display_ok (fst (snd (attachVideoSink s d)))"
  "display_ok d \<Longrightarrow> display_ok (fst (detachVideoSink s d))"
  "display_ok d \<Longrightarrow> display_ok (fst (sinkDestroyed k d))"
  "display_ok d \<Longrightarrow> display_ok (set_decoder_sink s d)"
  by (auto simp: display_ok_def attachVideoSink_def detachVideoSink_def sinkDestroyed_def set_decoder_sink_def Let_def)

lemma and_then_Inr [simp]: "and_then r f = Inr q \<longleftrightarrow> (\<exists>p. r = Inr p \<and> f p = Inr q)"
  by (cases r) (simp_all add: and_then_def)

lemma checked_Inr [simp]: "checked ok m p = Inr q \<longleftrightarrow> ok \<and> q = p"
  by (auto simp: checked_def)

lemma apply_keeps_resolution:
  "(\<And>n p. cp_resolution (upd n p) = cp_resolution p) \<Longrightarrow> applyInteger u name upd p = Inr q
     \<Longrightarrow> cp_resolution q = cp_resolution p"
  "applyTurnCard u p = Inr q \<Longrightarrow> cp_resolution q = cp_resolution p"
  by (auto simp: applyInteger_def applyTurnCard_def split: option.splits profile_value.splits)

lemma update_profile_ok:
  assumes "applyProjectedClusterProfileUpdate p u = Inr q"
  shows "profile_ok q"
proof -
  obtain p0 p1 p2 p3 where p0: "cp_resolution p0 = ''480p'' \<or> cp_resolution p0 = ''720p''"
    and p1: "applyInteger u ''dpi'' (\<lambda>n p. p\<lparr>cp_dpi := n\<rparr>) p0 = Inr p1"
    and p2: "applyInteger u ''content_width'' (\<lambda>n p. p\<lparr>cp_contentWidth := n\<rparr>) p1 = Inr p2"
    and p3: "applyInteger u ''content_height'' (\<lambda>n p. p\<lparr>cp_contentHeight := n\<rparr>) p2 = Inr p3"
    and q: "applyTurnCard u p3 = Inr q" "cp_dpi q \<ge> 80" "cp_dpi q \<le> 640" "viewport_isValid (profile_geometry q)"
    using assms by (auto simp: applyProjectedClusterProfileUpdate_def split: if_splits list.splits)
  have "cp_resolution q = cp_resolution p3" "cp_resolution p3 = cp_resolution p2"
    "cp_resolution p2 = cp_resolution p1" "cp_resolution p1 = cp_resolution p0"
    using apply_keeps_resolution(2) [OF q(1)] apply_keeps_resolution(1) [OF _ p3]
      apply_keeps_resolution(1) [OF _ p2] apply_keeps_resolution(1) [OF _ p1] by simp_all
  then show ?thesis using p0 q by (simp add: profile_ok_def)
qed

lemma ok_profiles:
  "display_ok d \<Longrightarrow> display_ok (fst (snd (applyClusterProfile u d)))"
  "display_ok d \<Longrightarrow> display_ok (fst (activateRequestedClusterProfile d))"
  by (auto simp: display_ok_def applyClusterProfile_def activateRequestedClusterProfile_def Let_def
      split: sum.split intro: update_profile_ok)

lemma ok_thread: "display_ok d \<Longrightarrow> display_ok (decodeThread ff yaml mapped d)"
  by (auto simp: display_ok_def decodeThread_def split: option.splits bind_splits)

lemma ok_step: "display_ok d \<Longrightarrow> display_ok (fst (display_step ff op d))"
  by (cases op) (simp_all add: ok_protocol ok_channels ok_streams ok_deliver ok_sinks ok_profiles ok_thread resetClusterProfile_def Let_def)

fun quiet_event :: "'f display_event \<Rightarrow> bool" where
  "quiet_event (CallBeginStream g) = False"
| "quiet_event CallEndStream = False"
| "quiet_event (CallDecodeFrame b) = False"
| "quiet_event (ShowFrame s f) = False"
| "quiet_event e = True"

lemma part_quiets: "stream_part ff d h \<Longrightarrow> list_all quiet_event es \<Longrightarrow> stream_part ff d (h @ es)"
proof (induction es rule: rev_induct)
  case (snoc e es)
  then have "stream_part ff d ((h @ es) @ [e])" by (intro part_quiet) auto
  then show ?case by simp
qed simp

lemma part_settings:
  assumes "stream_part ff d h"
  shows "part_of_result ff h (snd (attachVideoSink s d))" "part_of_result ff h (detachVideoSink s d)"
    "part_of_result ff h (sinkDestroyed k d)" "part_of_result ff h (snd (applyClusterProfile u d))"
    "part_of_result ff h (activateRequestedClusterProfile d)" "part_of_result ff h (onVideoFocusChanged mode d)"
proof -
  have cong: "stream_part ff d' h" if "pd_decoder d' = pd_decoder d"
      "pd_activeDecoderGeneration d' = pd_activeDecoderGeneration d" for d'
    using part_cong [OF assms] that by blast
  show "part_of_result ff h (snd (attachVideoSink s d))" "part_of_result ff h (detachVideoSink s d)"
    "part_of_result ff h (sinkDestroyed k d)"
    by (auto simp: attachVideoSink_def detachVideoSink_def sinkDestroyed_def Let_def
        intro!: part_quiets [of _ _ _ "[VideoSinkAvailabilityChanged]"] part_sink cong assms)
  show "part_of_result ff h (onVideoFocusChanged mode d)"
    by (auto simp: onVideoFocusChanged_def intro: cong)
  show "part_of_result ff h (snd (applyClusterProfile u d))" "part_of_result ff h (activateRequestedClusterProfile d)"
    by (auto simp: applyClusterProfile_def activateRequestedClusterProfile_def Let_def
        split: sum.split intro!: part_quiets cong assms)
qed

lemma part_step: "stream_part ff d h \<Longrightarrow> part_of_result ff h (display_step ff op d)"
  by (cases op) (simp_all add: part_beginProtocol part_endProtocol part_channels part_streamStarted part_streamStopped
      part_frameData part_deliver part_settings part_sink part_thread resetClusterProfile_def Let_def)

section \<open>Results\<close>

text \<open>
  C33. Over every interleaving of the owner's operations with the steps of the decode thread a
  display is in a state that fits: it waits for a channel, for frames or renders exactly while a
  protocol session is active and it has not failed, it renders only under a decoder generation,
  and the cluster profile in use and the requested one are valid.  Every frame handed to a sink
  is one that a codec opened for the current stream decodes from the packets of this stream,
  taken from its start: no frame of an earlier stream is shown, whatever the decode thread was
  doing when the stream changed.
\<close>

theorem display_shows_current_stream:
  assumes "profile_ok profile" and "decoder = decoder_new ff hwDevice allocated"
    and "run (display_step ff) ops (display_new role displayId video input enabled profile decoder) = (d, events)"
  shows "display_ok d \<and> (\<forall>before sink f after. events = before @ ShowFrame sink f # after \<longrightarrow>
    (\<exists>g packets. stream_of before = Some (g, packets) \<and> frame_of_stream ff packets f))"
proof -
  let ?d0 = "display_new role displayId video input enabled profile decoder"
  have "display_ok ?d0" using assms(1) by (simp add: display_ok_def state_ok_def display_new_def)
  moreover have "stream_part ff ?d0 []"
    using inv_label [OF inv_new [of ff hwDevice allocated]]
    by (simp add: stream_part_def display_new_def assms(2) stream_of_def)
  ultimately have "display_ok (fst (run (display_step ff) ops ?d0))
      \<and> stream_part ff (fst (run (display_step ff) ops ?d0)) (snd (run (display_step ff) ops ?d0))"
    by (intro run_history_invariant [where I = "\<lambda>d h. display_ok d \<and> stream_part ff d h"])
       (auto simp: ok_step part_step)
  then show ?thesis using assms(3) by (simp add: stream_part_def shows_current_def)
qed

text \<open>
  A codec whose every packet gives one frame with the packet as content: the second stream shows
  its own packet although the first one was still being decoded when it began.
\<close>

definition demo_ffmpeg :: "(unit, bytes list, unit, bytes) ffmpeg" where
  "demo_ffmpeg = \<lparr>find_decoder = (\<lambda>i. Some ()), find_decoder_by_name = (\<lambda>n. None), codec_name = (\<lambda>c. ''h264''),
     cap_hardware = (\<lambda>c. False), open_context = (\<lambda>c hw. Some []), parser_init = (\<lambda>i. Some ()),
     parser_parse = (\<lambda>p x b. ((p, x), Some (length b), b)), send_packet = (\<lambda>b x. (x @ [b], True)),
     receive_frame = (\<lambda>x. case x of [] \<Rightarrow> ([], RecvAgain)
       | b # x \<Rightarrow> (x, RecvFrame \<lparr>fr_format = PIX_YUV420P, fr_width = 800, fr_height = 480, fr_content = b\<rparr>)),
     flush_buffers = (\<lambda>x. []), skip_nonref = (\<lambda>b x. x)\<rparr>"

definition demo_ops :: "display_op list" where
  "demo_ops = [OpAttachSink (Some 7), OpBeginProtocol, OpChannelOpened 12, OpStreamStarted, OpVideoData [1]]
     @ replicate 6 (OpDecodeThread None True)
     @ [OpStreamStopped, OpStreamStarted, OpVideoData [2]]
     @ replicate 20 (OpDecodeThread None True) @ replicate 6 OpDeliverSignal"

definition demo_run :: "(unit, bytes list, unit, bytes) display \<times> bytes display_event list" where
  "demo_run = run (display_step demo_ffmpeg) demo_ops
     (display_new RoleCluster 1 12 13 True baseline_profile (decoder_new demo_ffmpeg False True))"

definition demo_before :: "bytes display_event list" where
  "demo_before = [VideoSinkAvailabilityChanged, DisplayStateChanged, CallEndStream, DisplayStateChanged,
     CallBeginStream 1, CallDecodeFrame [1], CallEndStream, CallBeginStream 2, CallDecodeFrame [2]]"

definition demo_frame :: "bytes av_frame" where
  "demo_frame = \<lparr>fr_format = PIX_YUV420P, fr_width = 800, fr_height = 480, fr_content = [2]\<rparr>"

theorem display_shows_current_stream_witness:
  "display_ok (fst demo_run) \<and> snd demo_run = demo_before @ ShowFrame 7 demo_frame # [DisplayStateChanged]
   \<and> stream_of demo_before = Some (2, [[2]])
   \<and> (\<exists>g packets. stream_of demo_before = Some (g, packets) \<and> frame_of_stream demo_ffmpeg packets demo_frame)"
proof -
  have profile: "profile_ok baseline_profile" by code_simp
  have events: "snd demo_run = demo_before @ ShowFrame 7 demo_frame # [DisplayStateChanged]" by code_simp
  have stream: "stream_of demo_before = Some (2, [[2]])" by code_simp
  have "run (display_step demo_ffmpeg) demo_ops (display_new RoleCluster 1 12 13 True baseline_profile
      (decoder_new demo_ffmpeg False True)) = (fst demo_run, snd demo_run)"
    by (simp add: demo_run_def)
  from display_shows_current_stream [OF profile refl this] events stream show ?thesis by blast
qed

section \<open>Observations on the decoder\<close>

text \<open>
  An H.264 slice of a reference picture, whose first byte is \<open>0x41\<close>, is taken for an H.265
  parameter set: the test for H.265 comes first and its range covers this byte.
\<close>

lemma reference_slice_detected_as_h265: "detectCodec (0 # 0 # 0 # 1 # 0x41 # rest) = AV_CODEC_ID_H265"
  by simp

text \<open>
  A hardware decoder that fails on its first frame, with a software decoder that cannot be opened:
  the loop over the packet goes on with the parser that has just been closed.
\<close>

definition failing_ffmpeg :: "(bool, unit, unit, unit) ffmpeg" where
  "failing_ffmpeg = \<lparr>find_decoder = (\<lambda>i. Some False), find_decoder_by_name = (\<lambda>n. if n = ''h264_v4l2m2m'' then Some True else None),
     codec_name = (\<lambda>c. if c then ''h264_v4l2m2m'' else ''h264''), cap_hardware = (\<lambda>c. False),
     open_context = (\<lambda>c hw. if c then Some () else None), parser_init = (\<lambda>i. Some ()),
     parser_parse = (\<lambda>p x b. ((p, x), Some 1, take 1 b)), send_packet = (\<lambda>b x. (x, True)),
     receive_frame = (\<lambda>x. (x, RecvError)), flush_buffers = (\<lambda>x. x), skip_nonref = (\<lambda>b x. x)\<rparr>"

lemma failed_fallback_calls_null_parser:
  "map_option (\<lambda>(c, frames, crashed, err). (vd_parser c, crashed))
     (processFrame failing_ffmpeg None [0, 0] (dc_codec (decoder_new failing_ffmpeg False True))) = Some (None, True)"
  by code_simp

end
