(* ===== verification/Orchestrator_Invariant.thy ===== *)
theory Orchestrator_Invariant
  imports Orchestrator Display_Invariant
begin

text \<open>
  The life of a connection: what the orchestrator holds while it has a session and what it has
  given back when it has none, in which order, and that a dead link does not go unnoticed.
\<close>

section \<open>The invariant\<close>

definition links_ok :: "('c, 'x, 'p, 'f) orchestrator \<Rightarrow> bool" where
  "links_ok s \<longleftrightarrow> (oc_transport s = None \<longleftrightarrow> oc_session s = None) \<and> oc_activeSocket s = oc_transport s
     \<and> (isAaConnected s \<longrightarrow> oc_session s \<noteq> None)
     \<and> (oc_admissionOpen s \<longrightarrow> oc_listening s \<and> oc_serverConnected s)
     \<and> (\<forall>i. oc_session s = Some i \<longrightarrow> i < oc_sessions s)"

definition released_ok :: "('c, 'x, 'p, 'f) orchestrator \<Rightarrow> bool" where
  "released_ok s \<longleftrightarrow>
     (oc_session s = None \<longrightarrow> oc_stream s = (\<lambda>_. None) \<and> oc_eq s = (\<lambda>_. None) \<and> oc_phoneBatteryLevel s = - 1
        \<and> oc_phoneSignalStrength s = - 1 \<and> \<not> mi_capturing (fst (oc_mic s)) \<and> \<not> mw_handle (snd (oc_mic s))
        \<and> oc_phoneSubscriptions s = 0)
     \<and> (\<not> oc_audioService s \<longrightarrow> oc_stream s = (\<lambda>_. None)) \<and> (\<not> oc_eqService s \<longrightarrow> oc_eq s = (\<lambda>_. None))"

definition displays_ok :: "('c, 'x, 'p, 'f) orchestrator \<Rightarrow> bool" where
  "displays_ok s \<longleftrightarrow> display_ok (oc_main s) \<and> display_ok (oc_cluster s)
     \<and> pd_enabled (oc_main s) \<and> pd_enabled (oc_cluster s) = oc_clusterEnabled s
     \<and> pd_protocolActive (oc_main s) = (oc_session s \<noteq> None)
     \<and> pd_protocolActive (oc_cluster s) = (oc_clusterEnabled s \<and> oc_session s \<noteq> None)"

definition orc_ok :: "('c, 'x, 'p, 'f) orchestrator \<Rightarrow> bool" where
  "orc_ok s \<longleftrightarrow> links_ok s \<and> released_ok s \<and> displays_ok s"

text \<open>While a session is shown as connected, its connection is watched.\<close>

definition watched :: "('c, 'x, 'p, 'f) orchestrator \<Rightarrow> bool" where
  "watched s \<longleftrightarrow> (isAaConnected s \<longrightarrow> oc_watchdog s)"

section \<open>Fields after the shared parts\<close>

lemma setState_fst [simp]: "fst (orc_setState st m s) = s\<lparr>oc_state := st, oc_statusMessage := m\<rparr>"
  by (simp add: orc_setState_def)

lemma on_main_fst [simp]: "fst (on_main f s) = s\<lparr>oc_main := fst (f (oc_main s))\<rparr>"
  by (simp add: on_main_def split: prod.split)

lemma on_cluster_fst [simp]: "fst (on_cluster f s) = s\<lparr>oc_cluster := fst (f (oc_cluster s))\<rparr>"
  by (simp add: on_cluster_def split: prod.split)

lemma on_cluster_enabled_fst [simp]:
  "fst (on_cluster_enabled f s) = (if oc_clusterEnabled s then s\<lparr>oc_cluster := fst (f (oc_cluster s))\<rparr> else s)"
  by (simp add: on_cluster_enabled_def)

lemma mic_teardown_released [simp]:
  "\<not> mi_capturing (fst (fst (mic_teardown spa m)))" "\<not> mw_handle (snd (fst (mic_teardown spa m)))"
  by (auto simp: mic_teardown_def mic_abortCapture_def stopAssistantMicCapture_def Let_def split: prod.split)

definition torn_down :: "spa_ops \<Rightarrow> ('c, 'x, 'p, 'f) orchestrator \<Rightarrow> ('c, 'x, 'p, 'f) orchestrator" where
  "torn_down spa s = s\<lparr>oc_mic := fst (mic_teardown spa (oc_mic s)), oc_phoneBatteryLevel := - 1,
     oc_phoneSignalStrength := - 1,
     oc_main := (if oc_session s = None then oc_main s else fst (endProtocolSession (oc_main s))),
     oc_cluster := (if oc_session s = None \<or> \<not> oc_clusterEnabled s then oc_cluster s else fst (endProtocolSession (oc_cluster s))),
     oc_phoneSubscriptions := (if oc_session s = None then oc_phoneSubscriptions s else 0),
     oc_session := None, oc_transport := None, oc_activeSocket := None,
     oc_stream := (if oc_audioService s then (\<lambda>_. None) else oc_stream s),
     oc_eq := (if oc_eqService s then (\<lambda>_. None) else oc_eq s)\<rparr>"

lemma stopMicrophone_fst: "fst (stopMicrophone spa s) = s\<lparr>oc_mic := fst (mic_teardown spa (oc_mic s))\<rparr>"
  by (simp add: stopMicrophone_def split: prod.split)

lemma finalize_fst:
  "fst (finalizeSession s) = s\<lparr>
     oc_main := (if oc_session s = None then oc_main s else fst (endProtocolSession (oc_main s))),
     oc_cluster := (if oc_session s = None \<or> \<not> oc_clusterEnabled s then oc_cluster s else fst (endProtocolSession (oc_cluster s))),
     oc_phoneSubscriptions := (if oc_session s = None then oc_phoneSubscriptions s else 0), oc_session := None\<rparr>"
  by (cases "oc_session s") (simp_all add: finalizeSession_def)

lemma streams_fst:
  "fst (destroyStreams s) = s\<lparr>oc_stream := (if oc_audioService s then (\<lambda>_. None) else oc_stream s)\<rparr>"
  "fst (releaseEngines s) = s\<lparr>oc_eq := (if oc_eqService s then (\<lambda>_. None) else oc_eq s)\<rparr>"
  by (simp_all add: destroyStreams_def releaseEngines_def)

lemma teardown_fst [simp]: "fst (teardownSession spa s) = torn_down spa s"
  by (simp add: teardownSession_def stopMicrophone_fst resetPhoneStatus_def finalize_fst streams_fst torn_down_def)

lemma protocol_flags [simp]:
  "pd_protocolActive (fst (endProtocolSession d)) = (pd_protocolActive d \<and> \<not> pd_enabled d)"
  "pd_enabled (fst (endProtocolSession d)) = pd_enabled d"
  "pd_enabled (fst (beginProtocolSession d)) = pd_enabled d"
  "pd_enabled d \<Longrightarrow> pd_protocolActive (fst (beginProtocolSession d))"
  "pd_protocolActive (fst (activateRequestedClusterProfile d)) = pd_protocolActive d"
  "pd_enabled (fst (activateRequestedClusterProfile d)) = pd_enabled d"
  by (auto simp: endProtocolSession_def beginProtocolSession_def activateRequestedClusterProfile_def Let_def split: option.split)

lemma disabled_inactive: "display_ok d \<Longrightarrow> \<not> pd_enabled d \<Longrightarrow> \<not> pd_protocolActive d"
  by (auto simp: display_ok_def state_ok_def)

lemmas orc_defs = orc_ok_def links_ok_def released_ok_def displays_ok_def isAaConnected_def

text \<open>Fields the invariant does not depend on, and the state.\<close>

lemma orc_ok_fields [simp]:
  "orc_ok (s\<lparr>oc_statusMessage := v1\<rparr>) = orc_ok s" "orc_ok (s\<lparr>oc_pendingReconnect := v2\<rparr>) = orc_ok s"
  "orc_ok (s\<lparr>oc_retriggerTimers := v3\<rparr>) = orc_ok s" "orc_ok (s\<lparr>oc_btDiscovery := v4\<rparr>) = orc_ok s"
  "orc_ok (s\<lparr>oc_listenerPort := v5\<rparr>) = orc_ok s" "orc_ok (s\<lparr>oc_watchdog := v6\<rparr>) = orc_ok s"
  "orc_ok (s\<lparr>oc_speechFocusHint := v7\<rparr>) = orc_ok s" "orc_ok (s\<lparr>oc_streamActive := v8\<rparr>) = orc_ok s"
  "orc_ok (s\<lparr>oc_lastCluster := v9\<rparr>) = orc_ok s" "orc_ok (s\<lparr>oc_clusterProfile := v10\<rparr>) = orc_ok s"
  "orc_ok (s\<lparr>oc_navSubscriptions := v11\<rparr>) = orc_ok s" "orc_ok (s\<lparr>oc_mediaSubscriptions := v12\<rparr>) = orc_ok s"
  by (simp_all add: orc_defs)

lemma orc_ok_state:
  "orc_ok s \<Longrightarrow> oc_session s \<noteq> None \<or> st \<noteq> CsConnected \<and> st \<noteq> CsBackgrounded \<Longrightarrow> orc_ok (s\<lparr>oc_state := st\<rparr>)"
  by (cases "oc_session s") (simp_all add: orc_defs)

lemma orc_ok_phone:
  "orc_ok s \<Longrightarrow> oc_session s \<noteq> None \<Longrightarrow> orc_ok (s\<lparr>oc_phoneBatteryLevel := n\<rparr>)"
  "orc_ok s \<Longrightarrow> oc_session s \<noteq> None \<Longrightarrow> orc_ok (s\<lparr>oc_phoneSignalStrength := n\<rparr>)"
  by (cases "oc_session s"; simp add: orc_defs)+

lemma torn_down_ok:
  assumes "orc_ok s" and "st \<noteq> CsConnected" "st \<noteq> CsBackgrounded"
  shows "orc_ok ((torn_down spa s)\<lparr>oc_state := st\<rparr>)"
proof -
  have "links_ok ((torn_down spa s)\<lparr>oc_state := st\<rparr>)"
    using assms by (simp add: orc_ok_def links_ok_def isAaConnected_def torn_down_def)
  moreover have "released_ok ((torn_down spa s)\<lparr>oc_state := st\<rparr>)"
    using assms(1) by (simp add: orc_ok_def released_ok_def torn_down_def)
  moreover have "displays_ok ((torn_down spa s)\<lparr>oc_state := st\<rparr>)"
    using assms(1) by (simp add: orc_ok_def displays_ok_def torn_down_def ok_protocol)
  ultimately show ?thesis by (simp add: orc_ok_def)
qed

lemma torn_down_session [simp]: "oc_session (torn_down spa s) = None"
  by (simp add: torn_down_def)

lemma torn_down_kept [simp]:
  "oc_admissionOpen (torn_down spa s) = oc_admissionOpen s" "oc_state (torn_down spa s) = oc_state s"
  "oc_watchdog (torn_down spa s) = oc_watchdog s" "oc_listenerPort (torn_down spa s) = oc_listenerPort s"
  "oc_pendingReconnect (torn_down spa s) = oc_pendingReconnect s" "oc_btDiscovery (torn_down spa s) = oc_btDiscovery s"
  "oc_sessions (torn_down spa s) = oc_sessions s" "oc_navSubscriptions (torn_down spa s) = oc_navSubscriptions s"
  "oc_mediaSubscriptions (torn_down spa s) = oc_mediaSubscriptions s" "oc_eventBus (torn_down spa s) = oc_eventBus s"
  "oc_clusterEnabled (torn_down spa s) = oc_clusterEnabled s"
  by (simp_all add: torn_down_def)

section \<open>Every operation keeps it\<close>

lemma disconnected_fst:
  "fst (onSessionDisconnected spa s) = (let t = torn_down spa (s\<lparr>oc_watchdog := False\<rparr>) in
     t\<lparr>oc_state := (if oc_admissionOpen s then CsWaitingForDevice else CsDisconnected),
        oc_statusMessage := (if oc_admissionOpen s then waitingMessage t else ''Stopped''),
        oc_pendingReconnect := False,
        oc_retriggerTimers := oc_retriggerTimers t + (if oc_admissionOpen s \<and> oc_pendingReconnect s \<and> oc_btDiscovery s then 1 else 0)\<rparr>)"
  by (simp add: onSessionDisconnected_def stopConnectionWatchdog_def Let_def)

lemma ok_disconnected: "orc_ok s \<Longrightarrow> orc_ok (fst (onSessionDisconnected spa s))"
  using torn_down_ok [of "s\<lparr>oc_watchdog := False\<rparr>"] by (simp add: disconnected_fst Let_def)

lemma disconnected_state [simp]:
  "oc_session (fst (onSessionDisconnected spa s)) = None" "\<not> isAaConnected (fst (onSessionDisconnected spa s))"
  by (simp_all add: disconnected_fst Let_def isAaConnected_def)

lemma ok_sessionState: "orc_ok s \<Longrightarrow> oc_session s \<noteq> None \<Longrightarrow> orc_ok (fst (onSessionStateChanged st s))"
  by (cases st) (simp_all add: onSessionStateChanged_def startConnectionWatchdog_def orc_ok_state)

lemma channel_flags [simp]:
  "pd_protocolActive (fst (noteChannelOpened ch d)) = pd_protocolActive d"
  "pd_protocolActive (fst (noteChannelClosed ch d)) = pd_protocolActive d"
  "pd_protocolActive (fst (noteChannelRejected i d)) = pd_protocolActive d"
  "pd_enabled (fst (noteChannelOpened ch d)) = pd_enabled d"
  "pd_enabled (fst (noteChannelClosed ch d)) = pd_enabled d"
  "pd_enabled (fst (noteChannelRejected i d)) = pd_enabled d"
  by (auto simp: noteChannelOpened_def noteChannelClosed_def noteChannelRejected_def)

lemma orc_ok_display:
  "orc_ok s \<Longrightarrow> display_ok d \<Longrightarrow> pd_enabled d = pd_enabled (oc_main s)
    \<Longrightarrow> pd_protocolActive d = pd_protocolActive (oc_main s) \<Longrightarrow> orc_ok (s\<lparr>oc_main := d\<rparr>)"
  "orc_ok s \<Longrightarrow> display_ok d \<Longrightarrow> pd_enabled d = pd_enabled (oc_cluster s)
    \<Longrightarrow> pd_protocolActive d = pd_protocolActive (oc_cluster s) \<Longrightarrow> orc_ok (s\<lparr>oc_cluster := d\<rparr>)"
  by (simp_all add: orc_defs)

lemma orc_ok_displays: "orc_ok s \<Longrightarrow> display_ok (oc_main s) \<and> display_ok (oc_cluster s)"
  by (simp add: orc_ok_def displays_ok_def)

lemma ok_channel_signals:
  "orc_ok s \<Longrightarrow> orc_ok (fst (onChannelOpened ch s))"
  "orc_ok s \<Longrightarrow> orc_ok (fst (onChannelClosed ch s))"
  "orc_ok s \<Longrightarrow> orc_ok (fst (onChannelOpenRejected i s))"
  by (auto simp: onChannelOpened_def onChannelClosed_def onChannelOpenRejected_def ok_channels dest: orc_ok_displays
      intro!: orc_ok_display)

lemma ok_sessionSignal: "orc_ok s \<Longrightarrow> orc_ok (fst (onSessionSignal spa sig s))"
  by (simp add: onSessionSignal_def ok_disconnected ok_sessionState ok_channel_signals split: session_signal.split)

lemma ok_sessionSignals: "orc_ok s \<Longrightarrow> orc_ok (fst (onSessionSignals spa sigs s))"
  by (induction sigs arbitrary: s) (simp_all add: ok_sessionSignal)

lemma ok_start: "orc_ok s \<Longrightarrow> orc_ok (fst (orc_start port listen err s))"
  by (auto simp: orc_start_def orc_defs Let_def split: option.split)

lemma orc_ok_ended:
  "orc_ok (s\<lparr>oc_state := CsDisconnected\<rparr>) \<Longrightarrow> orc_ok (s\<lparr>oc_btDiscovery := b, oc_listenerPort := n, oc_state := CsDisconnected\<rparr>)"
  by (simp add: orc_defs)

lemma ok_stop:
  assumes "orc_ok s0"
  shows "orc_ok (fst (orc_stop spa sigs s0))"
proof -
  let ?s = "s0\<lparr>oc_admissionOpen := False, oc_serverConnected := False, oc_listening := False, oc_watchdog := False\<rparr>"
  have s: "orc_ok ?s" using assms by (simp add: orc_defs)
  let ?t = "fst (onSessionSignals spa sigs ?s)"
  have t: "orc_ok ?t" by (rule ok_sessionSignals [OF s])
  note torn = torn_down_ok [OF s, of CsDisconnected spa] torn_down_ok [OF t, of CsDisconnected spa]
  note ended = orc_ok_state [OF t, of CsDisconnected]
  show ?thesis
    using torn ended by (auto simp: orc_stop_def stopConnectionWatchdog_def Let_def intro!: orc_ok_ended)
qed

lemma ok_user_requests:
  "orc_ok s \<Longrightarrow> orc_ok (fst (disconnectSession s))"
  "orc_ok s \<Longrightarrow> orc_ok (fst (disconnectAndRetrigger s))"
  "orc_ok s \<Longrightarrow> orc_ok (fst (onRetriggerTimer s))"
  "orc_ok s \<Longrightarrow> orc_ok (fst (onPhoneWillConnect s))"
  by (simp_all add: disconnectSession_def disconnectAndRetrigger_def onRetriggerTimer_def onPhoneWillConnect_def orc_ok_state)

lemma orc_ok_session: "orc_ok s \<Longrightarrow> isAaConnected s \<Longrightarrow> oc_session s \<noteq> None"
  by (simp add: orc_ok_def links_ok_def)

lemma ok_focus:
  "orc_ok s \<Longrightarrow> orc_ok (fst (requestVideoFocus s))"
  "orc_ok s \<Longrightarrow> orc_ok (fst (requestExitToCar s))"
  "orc_ok s \<Longrightarrow> orc_ok (fst (mainFocusChanged mode s))"
  using orc_ok_session [of s]
  by (auto simp: requestVideoFocus_def requestExitToCar_def mainFocusChanged_def isAaConnected_def intro!: orc_ok_state)

lemma ok_watchdog: "orc_ok s \<Longrightarrow> orc_ok (fst (onWatchdogTimeout spa status s))"
  using torn_down_ok [of s CsWaitingForDevice spa]
  by (simp add: onWatchdogTimeout_def stopConnectionWatchdog_def ok_disconnected split: option.split socket_status.split)

lemma display_input_flags:
  assumes "display_input op"
  shows "pd_enabled (fst (display_step ff op d)) = pd_enabled d
     \<and> pd_protocolActive (fst (display_step ff op d)) = pd_protocolActive d"
proof (cases op)
  case OpDeliverSignal
  show ?thesis
    by (simp add: OpDeliverSignal deliverSignal_def onFrameReady_def onStreamError_def Let_def
        split: option.split list.split decoder_signal.split prod.split)
next
  case (OpDecodeThread yaml mapped)
  then show ?thesis by (simp add: decodeThread_def split: option.split)
qed (use assms in \<open>simp_all add: onStreamStarted_def onStreamStopped_def onVideoFocusChanged_def onVideoFrameData_def
    attachVideoSink_def detachVideoSink_def sinkDestroyed_def set_decoder_sink_def applyClusterProfile_def
    resetClusterProfile_def Let_def split: option.split prod.split sum.split\<close>)

lemma ok_displays:
  assumes "orc_ok s"
  shows "orc_ok (fst (onMainDisplay ff op s))" and "orc_ok (fst (onClusterDisplay ff op s))"
proof -
  obtain d es where r: "display_step ff op (oc_cluster s) = (d, es)" by (cases "display_step ff op (oc_cluster s)")
  have main: "orc_ok (s\<lparr>oc_main := fst (display_step ff op (oc_main s))\<rparr>)" if "display_input op"
    using orc_ok_displays [OF assms] ok_step [of "oc_main s" ff op] display_input_flags [OF that, of ff "oc_main s"]
    by (intro orc_ok_display assms) auto
  have cluster: "orc_ok (s\<lparr>oc_cluster := d\<rparr>)" if "display_input op"
    using orc_ok_displays [OF assms] ok_step [of "oc_cluster s" ff op] display_input_flags [OF that, of ff "oc_cluster s"]
    by (intro orc_ok_display assms) (auto simp: r)
  show "orc_ok (fst (onMainDisplay ff op s))"
    using main assms by (cases op) (simp_all add: onMainDisplay_def ok_focus)
  show "orc_ok (fst (onClusterDisplay ff op s))"
    using cluster assms by (simp add: onClusterDisplay_def r Let_def ok_user_requests)
qed

lemma ok_audio:
  "orc_ok s \<Longrightarrow> orc_ok (fst (onSetupRequested role s))"
  "orc_ok s \<Longrightarrow> orc_ok (fst (onStreamStartedAudio r s))"
  "orc_ok s \<Longrightarrow> orc_ok (fst (onStreamStoppedAudio r s))"
  "orc_ok s \<Longrightarrow> orc_ok (fst (onAudioFocusChanged n s))"
  by (simp_all add: onSetupRequested_def onStreamStartedAudio_def onStreamStoppedAudio_def onAudioFocusChanged_def)

lemma ok_phone:
  "orc_ok s \<Longrightarrow> orc_ok (fst (onBatteryStatus parsed s))"
  "orc_ok s \<Longrightarrow> orc_ok (fst (onSignalStrength n s))"
  by (simp_all add: onBatteryStatus_def onSignalStrength_def orc_ok_phone Let_def split: option.split)

lemma ok_events:
  "orc_ok s \<Longrightarrow> orc_ok (fst (onNavigationState b s))"
  "orc_ok s \<Longrightarrow> orc_ok (fst (onNavigationNotification s))"
  "orc_ok s \<Longrightarrow> orc_ok (fst (onNavigationPosition s))"
  "orc_ok s \<Longrightarrow> orc_ok (fst (onMediaStatus t s))"
  "orc_ok s \<Longrightarrow> orc_ok (fst (onPhoneStatus t s))"
  by (simp_all add: onNavigationState_def onNavigationNotification_def onNavigationPosition_def onMediaStatus_def onPhoneStatus_def)

lemma ok_audioGone: "orc_ok s \<Longrightarrow> orc_ok (fst (onAudioServiceAboutToDestroy spa s))"
  by (simp add: onAudioServiceAboutToDestroy_def stopMicrophone_fst orc_defs)

lemma mic_idle_kept:
  assumes "\<not> mi_capturing (fst m)" "\<not> mw_handle (snd m)"
    and "\<And>mid payload off gain opens. op \<noteq> MicMessage mid payload off gain opens" "op \<noteq> MicChannelOpened"
  shows "\<not> mi_capturing (fst (fst (mic_step p spa fmul op m))) \<and> \<not> mw_handle (snd (fst (mic_step p spa fmul op m)))"
proof (cases op)
  case MicChannelClosed
  then show ?thesis using assms(1,2) by (cases m) (auto simp: mic_onChannelClosed_def mic_stopCapture_def Let_def)
next
  case (MicDrain rc now)
  obtain b m' sigs where r: "drainOnce spa fmul (bridge_sender now) rc (mw_bridge (snd m), fst m, []) = (b, m', sigs)"
    by (metis prod_cases3)
  then show ?thesis using assms(1,2) drainOnce_capturing [OF r] by (simp add: MicDrain)
next
  case (MicStreamError g)
  then show ?thesis using assms(1,2)
    by (cases m) (auto simp: onAssistantMicCaptureError_def stopAssistantMicCapture_def mic_abortCapture_def Let_def split: prod.splits)
qed (use assms in auto)

lemma orc_ok_mic:
  assumes "orc_ok s" and "oc_session s = None \<Longrightarrow> \<not> mi_capturing (fst m) \<and> \<not> mw_handle (snd m)"
  shows "orc_ok (s\<lparr>oc_mic := m\<rparr>)"
  using assms by (cases "oc_session s") (simp_all add: orc_defs)

lemma ok_microphone: "orc_ok s \<Longrightarrow> orc_ok (fst (onMicrophone p spa fmul op s))"
proof -
  assume ok: "orc_ok s"
  define op' where "op' = (case op of MicMessage mid payload off gain opens \<Rightarrow> MicMessage mid payload off gain (opens \<and> oc_audioService s)
                | _ \<Rightarrow> op)"
  define served where "served = (case op of MicMessage mid payload off gain opens \<Rightarrow> oc_session s \<noteq> None
                   | MicChannelOpened \<Rightarrow> oc_session s \<noteq> None | _ \<Rightarrow> True)"
  have r: "fst (onMicrophone p spa fmul op s) = (if served then s\<lparr>oc_mic := fst (mic_step p spa fmul op' (oc_mic s))\<rparr> else s)"
    by (simp add: onMicrophone_def op'_def [symmetric] served_def [symmetric] Let_def split: prod.split)
  have "\<not> mi_capturing (fst (oc_mic s)) \<and> \<not> mw_handle (snd (oc_mic s))" if "oc_session s = None"
    using ok that by (simp add: orc_ok_def released_ok_def)
  moreover have "(\<forall>mid payload off gain opens. op' \<noteq> MicMessage mid payload off gain opens) \<and> op' \<noteq> MicChannelOpened"
    if "served" "oc_session s = None"
    using that by (cases op) (simp_all add: op'_def served_def)
  ultimately show ?thesis
    using ok mic_idle_kept [of "oc_mic s" op' p spa fmul] by (auto simp: r intro!: orc_ok_mic)
qed

section \<open>A new connection\<close>

text \<open>The state between two sessions, and the same with a session that has its displays and streams.\<close>

definition between_sessions :: "('c, 'x, 'p, 'f) orchestrator \<Rightarrow> bool" where
  "between_sessions s \<longleftrightarrow> orc_ok s \<and> oc_session s = None \<and> oc_state s = CsConnecting"

definition connected_to :: "nat \<Rightarrow> (audio_role \<Rightarrow> nat option) \<Rightarrow> (audio_role \<Rightarrow> nat) \<Rightarrow> ('c, 'x, 'p, 'f) orchestrator
    \<Rightarrow> ('c, 'x, 'p, 'f) orchestrator" where
  "connected_to socket handles engines s = (
     let cluster = (if oc_clusterEnabled s then fst (beginProtocolSession (fst (activateRequestedClusterProfile (oc_cluster s))))
                    else oc_cluster s)
     in subscribeEvents (s\<lparr>oc_activeSocket := Some socket, oc_lastCluster := False, oc_transport := Some socket,
       oc_session := Some (oc_sessions s), oc_sessions := Suc (oc_sessions s),
       oc_eq := (if oc_audioService s \<and> oc_eqService s then (\<lambda>r. Some (engines r)) else oc_eq s),
       oc_stream := (if oc_audioService s then handles else oc_stream s),
       oc_speechFocusHint := (if oc_audioService s then FocusGainTransientMayDuck else oc_speechFocusHint s),
       oc_streamActive := (if oc_audioService s then (\<lambda>_. False) else oc_streamActive s),
       oc_main := fst (beginProtocolSession (oc_main s)), oc_cluster := cluster\<rparr>))"

lemma createSession_fst:
  "fst (createSession socket s) = s\<lparr>oc_activeSocket := Some socket, oc_lastCluster := False, oc_transport := Some socket,
     oc_cluster := (if oc_clusterEnabled s then fst (activateRequestedClusterProfile (oc_cluster s)) else oc_cluster s),
     oc_session := Some (oc_sessions s), oc_sessions := Suc (oc_sessions s)\<rparr>"
  by (simp add: createSession_def Let_def)

lemma setupAudio_fst:
  "fst (setupAudio handles engines s) = s\<lparr>oc_eq := (if oc_audioService s \<and> oc_eqService s then (\<lambda>r. Some (engines r)) else oc_eq s),
     oc_stream := (if oc_audioService s then handles else oc_stream s),
     oc_speechFocusHint := (if oc_audioService s then FocusGainTransientMayDuck else oc_speechFocusHint s),
     oc_streamActive := (if oc_audioService s then (\<lambda>_. False) else oc_streamActive s)\<rparr>"
  by (simp add: setupAudio_def acquireEngines_def createStreams_def)

lemma newConnection_fst:
  assumes "oc_admissionOpen s" "\<not> isAaConnected s"
  shows "fst (onNewConnection spa (Some socket) peer handles engines s) = connected_to socket handles engines
    ((if oc_session s \<noteq> None then torn_down spa s else s)
       \<lparr>oc_state := CsConnecting, oc_statusMessage := ''Wireless connection from '' @ peer @ ''...''\<rparr>)"
  using assms
  by (cases "oc_eventBus s"; cases "oc_clusterEnabled s"; cases "oc_session s")
     (simp_all add: onNewConnection_def createSession_fst setupAudio_fst connected_to_def subscribeEvents_def Let_def)

lemma ok_connected_to:
  assumes "between_sessions s"
  shows "orc_ok (connected_to socket handles engines s)"
proof -
  have ok: "links_ok s" "released_ok s" "displays_ok s" "oc_session s = None" "oc_state s = CsConnecting"
    using assms by (simp_all add: between_sessions_def orc_ok_def)
  have "links_ok (connected_to socket handles engines s)"
    using ok(1,5) by (simp add: links_ok_def connected_to_def subscribeEvents_def isAaConnected_def Let_def)
  moreover have "released_ok (connected_to socket handles engines s)"
    using ok(2) by (simp add: released_ok_def connected_to_def subscribeEvents_def Let_def)
  moreover have "displays_ok (connected_to socket handles engines s)"
    using ok(3,4) by (simp add: displays_ok_def connected_to_def subscribeEvents_def ok_protocol ok_profiles Let_def)
  ultimately show ?thesis by (simp add: orc_ok_def)
qed

lemma ok_newConnection: "orc_ok s \<Longrightarrow> orc_ok (fst (onNewConnection spa pending peer handles engines s))"
proof (cases "pending = None \<or> \<not> oc_admissionOpen s \<or> isAaConnected s")
  case True
  then show "orc_ok s \<Longrightarrow> ?thesis" by (auto simp: onNewConnection_def split: option.split)
next
  case False
  then obtain socket where p: "pending = Some socket" "oc_admissionOpen s" "\<not> isAaConnected s" by auto
  assume ok: "orc_ok s"
  let ?s = "(if oc_session s \<noteq> None then torn_down spa s else s)\<lparr>oc_state := CsConnecting, oc_statusMessage := ''Wireless connection from '' @ peer @ ''...''\<rparr>"
  have "between_sessions ?s"
    using torn_down_ok [OF ok, of CsConnecting spa] orc_ok_state [OF ok, of CsConnecting] by (simp add: between_sessions_def)
  from ok_connected_to [OF this] show ?thesis by (simp only: newConnection_fst [OF p(2,3)] p(1))
qed

lemma ok_orc_step: "orc_ok s \<Longrightarrow> orc_ok (fst (orc_step env op s))"
  by (cases op) (simp_all add: ok_start ok_stop ok_user_requests ok_newConnection ok_sessionSignal ok_watchdog ok_focus
      ok_displays ok_audio ok_phone ok_events ok_microphone ok_audioGone)

section \<open>The watchdog\<close>

lemma watched_unconnected: "\<not> isAaConnected s \<Longrightarrow> watched s"
  by (simp add: watched_def)

lemma watched_cong: "watched s \<Longrightarrow> oc_state t = oc_state s \<Longrightarrow> oc_watchdog t = oc_watchdog s \<Longrightarrow> watched t"
  by (simp add: watched_def isAaConnected_def)

lemma watched_state:
  "watched s \<Longrightarrow> isAaConnected s \<or> st \<noteq> CsConnected \<and> st \<noteq> CsBackgrounded \<Longrightarrow> oc_state t = st
    \<Longrightarrow> oc_watchdog t = oc_watchdog s \<Longrightarrow> watched t"
  by (auto simp: watched_def isAaConnected_def)

lemma watched_sessionSignal: "watched s \<Longrightarrow> watched (fst (onSessionSignal spa sig s))"
proof (cases sig)
  case (SsState st)
  then show "watched s \<Longrightarrow> ?thesis"
    by (cases st) (auto simp: onSessionSignal_def onSessionStateChanged_def startConnectionWatchdog_def watched_def isAaConnected_def)
qed (auto simp: onSessionSignal_def onChannelOpened_def onChannelClosed_def onChannelOpenRejected_def
    intro: watched_unconnected watched_cong)

lemma watched_watchdog:
  assumes "orc_ok s" "watched s"
  shows "watched (fst (onWatchdogTimeout spa status s))"
proof (cases "isAaConnected s")
  case False
  then show ?thesis
    using assms(2) by (auto simp: onWatchdogTimeout_def stopConnectionWatchdog_def isAaConnected_def watched_def split: option.split)
next
  case True
  obtain socket where socket: "oc_activeSocket s = Some socket"
    using assms(1) True by (auto simp: orc_ok_def links_ok_def)
  have waiting: "watched (t\<lparr>oc_state := CsWaitingForDevice, oc_statusMessage := m\<rparr>)" for t :: "('a, 'b, 'c, 'd) orchestrator" and m
    by (simp add: watched_def isAaConnected_def)
  show ?thesis
    using assms(2) True waiting
    by (cases status) (simp_all add: onWatchdogTimeout_def socket watched_unconnected)
qed

lemma watched_newConnection: "watched s \<Longrightarrow> watched (fst (onNewConnection spa pending peer handles engines s))"
proof (cases "pending = None \<or> \<not> oc_admissionOpen s \<or> isAaConnected s")
  case True
  then show "watched s \<Longrightarrow> ?thesis" by (auto simp: onNewConnection_def split: option.split)
next
  case False
  then obtain socket where p: "pending = Some socket" "oc_admissionOpen s" "\<not> isAaConnected s" by auto
  have "oc_state (connected_to socket handles engines t) = oc_state t" for t :: "('a, 'b, 'c, 'd) orchestrator"
    by (simp add: connected_to_def subscribeEvents_def Let_def)
  then show ?thesis
    unfolding p(1) newConnection_fst [OF p(2,3)] by (intro watched_unconnected) (simp add: isAaConnected_def)
qed

lemma watched_displays:
  assumes "watched s"
  shows "watched (fst (onMainDisplay ff op s))" and "watched (fst (onClusterDisplay ff op s))"
proof -
  show "watched (fst (onMainDisplay ff op s))"
    using assms by (cases op) (auto simp: onMainDisplay_def mainFocusChanged_def watched_def isAaConnected_def)
  obtain d es where r: "display_step ff op (oc_cluster s) = (d, es)" by (cases "display_step ff op (oc_cluster s)")
  show "watched (fst (onClusterDisplay ff op s))"
    using assms by (auto simp: onClusterDisplay_def r Let_def disconnectAndRetrigger_def disconnectSession_def watched_def isAaConnected_def)
qed

lemma watched_plain:
  "watched s \<Longrightarrow> watched (fst (disconnectSession s))" "watched s \<Longrightarrow> watched (fst (disconnectAndRetrigger s))"
  "watched s \<Longrightarrow> watched (fst (onPhoneWillConnect s))" "watched s \<Longrightarrow> watched (fst (onRetriggerTimer s))"
  "watched s \<Longrightarrow> watched (fst (requestVideoFocus s))" "watched s \<Longrightarrow> watched (fst (requestExitToCar s))"
  "watched s \<Longrightarrow> watched (fst (onSetupRequested role s))" "watched s \<Longrightarrow> watched (fst (onStreamStartedAudio r s))"
  "watched s \<Longrightarrow> watched (fst (onStreamStoppedAudio r s))" "watched s \<Longrightarrow> watched (fst (onAudioFocusChanged n s))"
  "watched s \<Longrightarrow> watched (fst (onBatteryStatus parsed s))" "watched s \<Longrightarrow> watched (fst (onSignalStrength n s))"
  "watched s \<Longrightarrow> watched (fst (onNavigationState b s))" "watched s \<Longrightarrow> watched (fst (onNavigationNotification s))"
  "watched s \<Longrightarrow> watched (fst (onNavigationPosition s))" "watched s \<Longrightarrow> watched (fst (onMediaStatus t s))"
  "watched s \<Longrightarrow> watched (fst (onPhoneStatus t s))" "watched s \<Longrightarrow> watched (fst (onAudioServiceAboutToDestroy spa s))"
  by (simp_all add: disconnectSession_def disconnectAndRetrigger_def onRetriggerTimer_def onPhoneWillConnect_def
      requestVideoFocus_def requestExitToCar_def onSetupRequested_def onStreamStartedAudio_def onStreamStoppedAudio_def
      onAudioFocusChanged_def onBatteryStatus_def onSignalStrength_def onNavigationState_def onNavigationNotification_def
      onNavigationPosition_def onMediaStatus_def onPhoneStatus_def onAudioServiceAboutToDestroy_def stopMicrophone_fst
      watched_def isAaConnected_def Let_def split: option.split)

lemma watched_step: "orc_ok s \<Longrightarrow> watched s \<Longrightarrow> watched (fst (orc_step env op s))"
proof (cases op)
  case (OrcStart port listen err)
  then show ?thesis
    by (auto simp: orc_start_def Let_def watched_def isAaConnected_def split: option.split)
next
  case (OrcStop sigs)
  then show ?thesis by (simp add: orc_stop_def Let_def watched_def isAaConnected_def)
next
  case (OrcNewConnection pending peer handles engines)
  then show "watched s \<Longrightarrow> ?thesis" by (simp add: watched_newConnection)
next
  case (OrcMicrophone mop)
  then show "watched s \<Longrightarrow> ?thesis" by (auto simp: onMicrophone_def Let_def watched_def isAaConnected_def split: prod.split)
qed (simp_all add: watched_sessionSignal watched_watchdog watched_displays watched_plain)

fun link_dead :: "socket_status \<Rightarrow> bool" where
  "link_dead FdInvalid = True"
| "link_dead InfoFails = True"
| "link_dead (TcpInfo tcpState backoff retransmits) \<longleftrightarrow> tcpState \<noteq> 1 \<or> peer_unreachable backoff retransmits"

lemma dead_link_noticed:
  assumes "orc_ok s" "watched s" "isAaConnected s" "link_dead status"
  shows "oc_session (fst (onWatchdogTimeout spa status s)) = None \<and> \<not> isAaConnected (fst (onWatchdogTimeout spa status s))"
proof -
  obtain socket where "oc_activeSocket s = Some socket"
    using assms(1,3) by (auto simp: orc_ok_def links_ok_def)
  then show ?thesis
    using assms(2-4) by (cases status) (auto simp: onWatchdogTimeout_def watched_def isAaConnected_def [of "_\<lparr>oc_state := _\<rparr>"]
        isAaConnected_def [of "_\<lparr>oc_statusMessage := _\<rparr>"])
qed

section \<open>The order of what is created and given back\<close>

text \<open>Sessions in turn: \<open>Some\<close> the current session, \<open>None\<close> after a violation.\<close>

fun session_event :: "'f orc_event \<Rightarrow> nat option option \<Rightarrow> nat option option" where
  "session_event (EvSessionCreated i) t = (if t = Some None then Some (Some i) else None)"
| "session_event (EvSessionFinalized i) t = (if t = Some (Some i) then Some None else None)"
| "session_event e t = t"

definition session_track :: "'f orc_event list \<Rightarrow> nat option option" where
  "session_track es = fold session_event es (Some None)"

text \<open>The streams with an engine attached, and whether no engine was released before its stream was gone.\<close>

fun engine_event :: "'f orc_event \<Rightarrow> bool \<times> (nat \<times> nat) list \<Rightarrow> bool \<times> (nat \<times> nat) list" where
  "engine_event (EvStreamCreated r k (Some e)) (ok, al) = (ok, (k, e) # al)"
| "engine_event (EvStreamDestroyed k) (ok, al) = (ok, filter (\<lambda>(k', _). k' \<noteq> k) al)"
| "engine_event EvAudioServiceGone (ok, al) = (ok, [])"
| "engine_event (EvEngineReleased e) (ok, al) = (ok \<and> e \<notin> snd ` set al, al)"
| "engine_event ev t = t"

definition engine_track :: "'f orc_event list \<Rightarrow> bool \<times> (nat \<times> nat) list" where
  "engine_track es = fold engine_event es (True, [])"

lemma track_append:
  "session_track (h @ es) = fold session_event es (session_track h)"
  "engine_track (h @ es) = fold engine_event es (engine_track h)"
  by (simp_all add: session_track_def engine_track_def)

fun neutral :: "'f orc_event \<Rightarrow> bool" where
  "neutral (EvSessionCreated i) = False"
| "neutral (EvSessionFinalized i) = False"
| "neutral (EvStreamCreated r k e) = False"
| "neutral (EvStreamDestroyed k) = False"
| "neutral EvAudioServiceGone = False"
| "neutral (EvEngineReleased e) = False"
| "neutral ev = True"

lemma neutral_event: "neutral e \<Longrightarrow> session_event e t = t \<and> engine_event e u = u"
  by (cases u; cases e) simp_all

lemma fold_neutral: "list_all neutral es \<Longrightarrow> fold session_event es t = t \<and> fold engine_event es u = u"
  by (induction es arbitrary: t u) (simp_all add: neutral_event)

definition hist :: "('c, 'x, 'p, 'f) orchestrator \<Rightarrow> 'f orc_event list \<Rightarrow> bool" where
  "hist s h \<longleftrightarrow> session_track h = Some (oc_session s) \<and> fst (engine_track h)
     \<and> (\<forall>(k, e)\<in>set (snd (engine_track h)). \<exists>r. oc_stream s r = Some k)"

lemma hist_neutral:
  "hist s h \<Longrightarrow> list_all neutral es \<Longrightarrow> oc_session t = oc_session s \<Longrightarrow> oc_stream t = oc_stream s \<Longrightarrow> hist t (h @ es)"
  by (simp add: hist_def track_append fold_neutral)

lemma hist_same: "hist s h \<Longrightarrow> oc_session t = oc_session s \<Longrightarrow> oc_stream t = oc_stream s \<Longrightarrow> hist t h"
  by (simp add: hist_def)

abbreviation hist_result :: "'f orc_event list \<Rightarrow> ('c, 'x, 'p, 'f) orc_result \<Rightarrow> bool" where
  "hist_result h r \<equiv> hist (fst r) (h @ snd r)"

lemma hist_chain:
  assumes "hist_result h r" and "hist_result (h @ snd r) (f (fst r))"
  shows "hist_result h (chain r f)"
  using assms by (simp add: chain_snd)

text \<open>An operation that neither creates nor gives back.\<close>

definition plain :: "('c, 'x, 'p, 'f) orchestrator \<Rightarrow> ('c, 'x, 'p, 'f) orc_result \<Rightarrow> bool" where
  "plain s r \<longleftrightarrow> list_all neutral (snd r) \<and> oc_session (fst r) = oc_session s \<and> oc_stream (fst r) = oc_stream s"

lemma hist_plain: "hist s h \<Longrightarrow> plain s r \<Longrightarrow> hist_result h r"
  by (auto simp: plain_def intro: hist_neutral)

lemma plain_chain: "plain s r \<Longrightarrow> plain (fst r) (f (fst r)) \<Longrightarrow> plain s (chain r f)"
  by (simp add: plain_def chain_snd)

lemma hist_seq:
  assumes "hist_result h r" and "\<And>h'. hist (fst r) h' \<Longrightarrow> hist_result h' (f (fst r))"
  shows "hist_result h (chain r f)"
  using hist_chain [where h = h and r = r and f = f, OF assms(1)] assms(2) [OF assms(1)] by blast

lemma hist_then_plain: "hist_result h r \<Longrightarrow> plain (fst r) (f (fst r)) \<Longrightarrow> hist_result h (chain r f)"
  by (rule hist_seq) (auto intro: hist_plain)

lemma plain_id [simp]: "plain s (s, [])"
  by (simp add: plain_def)

lemma plain_setState [simp]: "plain s (orc_setState st m s)"
  by (simp add: plain_def orc_setState_def)

lemma neutral_map [simp]: "list_all neutral (map (EvDisplay role) es)" "list_all neutral (map EvMic ms)"
  by (simp_all add: list_all_iff)

lemma plain_displays [simp]:
  "plain s (on_main f s)" "plain s (on_cluster f s)" "plain s (on_cluster_enabled f s)"
  by (auto simp: plain_def on_main_def on_cluster_def on_cluster_enabled_def split: prod.split)

lemma plain_mic [simp]: "plain s (stopMicrophone spa s)" "plain s (onMicrophone p spa fmul op s)"
  by (auto simp: plain_def stopMicrophone_def onMicrophone_def Let_def split: prod.split)

lemma plain_phone [simp]: "plain s (resetPhoneStatus s)"
  by (simp add: plain_def resetPhoneStatus_def)

section \<open>Giving back and creating\<close>

lemma fold_destroy:
  "fold engine_event (map EvStreamDestroyed ks) (ok, al) = (ok, filter (\<lambda>(k, _). k \<notin> set ks) al)"
  by (induction ks arbitrary: al) (auto simp: filter_filter intro!: filter_cong)

lemma fold_release: "fold engine_event (map EvEngineReleased es) (ok, []) = (ok, [])"
  by (induction es) simp_all

lemma fold_session_other:
  "fold session_event (map EvStreamDestroyed ks) t = t" "fold session_event (map EvEngineReleased es) t = t"
  by (induction ks; simp) (induction es; simp)

lemma roles_all: "r \<in> set roles"
  by (cases r) (simp_all add: roles_def)

lemma set_map_filter: "set (List.map_filter f xs) = {y. \<exists>x\<in>set xs. f x = Some y}"
  by (induction xs) (auto simp: List.map_filter_simps split: option.splits)

lemma hist_finalize: "hist s h \<Longrightarrow> hist_result h (finalizeSession s)"
proof (cases "oc_session s")
  case None
  then show "hist s h \<Longrightarrow> ?thesis" by (simp add: finalizeSession_def)
next
  case (Some i)
  assume h: "hist s h"
  let ?r = "chain (on_main endProtocolSession s) (on_cluster_enabled endProtocolSession)"
  have plain: "plain s ?r" by (intro plain_chain plain_displays)
  note r = hist_plain [OF h plain]
  have i: "oc_session (fst ?r) = Some i" using plain Some unfolding plain_def by metis
  have "hist_result h (chain ?r (\<lambda>s. (s\<lparr>oc_session := None, oc_phoneSubscriptions := 0\<rparr>, [EvSessionFinalized i])))"
    by (rule hist_chain [OF r]) (use r i in \<open>auto simp: hist_def track_append simp del: on_main_fst on_cluster_enabled_fst chain_fst\<close>)
  then show ?thesis by (simp add: finalizeSession_def Some)
qed

lemma hist_destroy:
  assumes "hist s h" and "\<not> oc_audioService s \<Longrightarrow> oc_stream s = (\<lambda>_. None)"
  shows "hist_result h (destroyStreams s)" and "snd (engine_track (h @ snd (destroyStreams s))) = []"
proof -
  obtain ok al where t: "engine_track h = (ok, al)" by (cases "engine_track h")
  let ?ks = "List.map_filter (oc_stream s) roles"
  have ks: "k \<in> set ?ks" if "(k, e) \<in> set al" for k e
    using assms(1) that roles_all by (fastforce simp: hist_def t set_map_filter)
  then have none: "filter (\<lambda>(k, _). k \<notin> set ?ks) al = []" by (auto simp: filter_empty_conv)
  have empty: "al = []" if "oc_stream s = (\<lambda>_. None)"
    using assms(1) that by (cases al) (auto simp: hist_def t)
  show "snd (engine_track (h @ snd (destroyStreams s))) = []"
    using assms(2) empty none by (simp add: destroyStreams_def track_append t fold_destroy)
  then show "hist_result h (destroyStreams s)"
    using assms(1) by (auto simp: hist_def destroyStreams_def track_append t fold_destroy fold_session_other)
qed

lemma hist_release:
  "hist s h \<Longrightarrow> snd (engine_track h) = [] \<Longrightarrow> hist_result h (releaseEngines s)"
  by (cases "engine_track h") (auto simp: hist_def releaseEngines_def track_append fold_release fold_session_other)

lemma hist_teardown:
  assumes ok: "orc_ok s" and h: "hist s h"
  shows "hist_result h (teardownSession spa s)"
proof -
  define a where "a = chain (stopMicrophone spa s) resetPhoneStatus"
  define b where "b = chain (chain a finalizeSession) (\<lambda>s. (s\<lparr>oc_transport := None, oc_activeSocket := None\<rparr>, []))"
  define c where "c = chain b destroyStreams"
  have "plain s a" by (simp add: a_def plain_chain)
  then have a: "hist_result h a" using h by (rule hist_plain [rotated])
  have b: "hist_result h b"
    unfolding b_def by (rule hist_then_plain [OF hist_seq [OF a hist_finalize]]) (simp_all add: plain_def)
  have streams: "oc_stream (fst b) = (\<lambda>_. None)" if "\<not> oc_audioService (fst b)"
    using ok that by (simp add: a_def b_def orc_ok_def released_ok_def stopMicrophone_fst resetPhoneStatus_def finalize_fst)
  have c: "hist_result h c" "snd (engine_track (h @ snd c)) = []"
    using hist_destroy [OF b streams] by (auto simp: c_def chain_snd)
  show ?thesis
    using hist_release [OF c] hist_chain [OF c(1), of releaseEngines]
    by (simp add: teardownSession_def a_def [symmetric] b_def [symmetric] c_def [symmetric])
qed

lemma hist_disconnected:
  assumes "orc_ok s" and "hist s h"
  shows "hist_result h (onSessionDisconnected spa s)"
proof -
  let ?s = "s\<lparr>oc_watchdog := False\<rparr>"
  have "hist_result h (teardownSession spa ?s)"
    using assms by (intro hist_teardown) (auto elim: hist_same)
  then show ?thesis
    unfolding onSessionDisconnected_def stopConnectionWatchdog_def
    by (intro hist_then_plain) (simp_all add: plain_def orc_setState_def)
qed

lemma hist_sessionSignal:
  assumes "orc_ok s" and "hist s h"
  shows "hist_result h (onSessionSignal spa sig s)"
proof (cases "oc_session s = None \<or> (\<exists>reason. sig = SsDisconnected reason)")
  case True
  then show ?thesis using assms by (auto simp: onSessionSignal_def hist_disconnected)
next
  case False
  have "plain s (onSessionStateChanged st s)" for st
    by (cases st) (auto simp: onSessionStateChanged_def startConnectionWatchdog_def plain_def orc_setState_def chain_snd)
  moreover have plain_lastCluster: "plain s r" if "plain (s\<lparr>oc_lastCluster := b\<rparr>) r" for b r
    using that by (simp add: plain_def)
  ultimately have "plain s (onSessionSignal spa sig s)"
    using False by (cases sig) (auto simp: onSessionSignal_def onChannelOpened_def onChannelClosed_def onChannelOpenRejected_def
        intro!: plain_lastCluster [OF plain_displays(1)] plain_lastCluster [OF plain_displays(2)])
  then show ?thesis using assms(2) by (rule hist_plain [rotated])
qed

lemma hist_sessionSignals:
  "orc_ok s \<Longrightarrow> hist s h \<Longrightarrow> hist_result h (onSessionSignals spa sigs s)"
proof (induction sigs arbitrary: s h)
  case (Cons sig sigs)
  have "hist_result h (chain (onSessionSignal spa sig s) (onSessionSignals spa sigs))"
    by (rule hist_seq [OF hist_sessionSignal [OF Cons.prems]]) (rule Cons.IH [OF ok_sessionSignal [OF Cons.prems(1)]])
  then show ?case by simp
qed simp

lemma hist_stop:
  assumes ok: "orc_ok s0" and h: "hist s0 h"
  shows "hist_result h (orc_stop spa sigs s0)"
proof -
  define s where "s = stopConnectionWatchdog (s0\<lparr>oc_admissionOpen := False, oc_serverConnected := False, oc_listening := False\<rparr>)"
  have ok1: "orc_ok s" using ok by (simp add: s_def stopConnectionWatchdog_def orc_defs)
  have h1: "hist s h" using h by (simp add: s_def stopConnectionWatchdog_def hist_def)
  have start: "hist_result h (s, [EvServerClosed, EvSessionStop 7])" "hist_result h (s, [EvServerClosed])"
    by (rule hist_plain [OF h1]; simp add: plain_def)+
  have ok2: "orc_ok (fst (onSessionSignals spa sigs s))" by (rule ok_sessionSignals [OF ok1])
  have signals: "hist_result h (chain (s, [EvServerClosed, EvSessionStop 7]) (onSessionSignals spa sigs))"
    by (rule hist_seq [OF start(1)]) (simp add: hist_sessionSignals ok1)
  have ended: "hist_result h (if oc_session s \<noteq> None \<and> isAaConnected s
      then chain (chain (s, [EvServerClosed, EvSessionStop 7]) (onSessionSignals spa sigs))
             (\<lambda>s'. if oc_session s' = oc_session s then teardownSession spa s' else (s', []))
      else chain (s, [EvServerClosed]) (teardownSession spa))"
    using hist_seq [OF signals, of "\<lambda>s'. if oc_session s' = oc_session s then teardownSession spa s' else (s', [])"]
      hist_seq [OF start(2), of "teardownSession spa"] hist_teardown [OF ok1] hist_teardown [OF ok2]
    by simp
  show ?thesis
    unfolding orc_stop_def Let_def s_def [symmetric]
    by (intro hist_then_plain ended) (simp_all add: plain_def orc_setState_def)
qed

lemma engine_created:
  "fold engine_event (List.map_filter (\<lambda>r. map_option (\<lambda>k. EvStreamCreated r k (eq r)) (handles r)) rs) (ok, al)
     = (ok, rev (List.map_filter (\<lambda>r. case (handles r, eq r) of (Some k, Some e) \<Rightarrow> Some (k, e) | _ \<Rightarrow> None) rs) @ al)"
  by (induction rs arbitrary: al) (auto simp: List.map_filter_simps split: option.splits)

lemma session_created:
  "fold session_event (List.map_filter (\<lambda>r. map_option (\<lambda>k. EvStreamCreated r k (eq r)) (handles r)) rs) t = t"
  by (induction rs) (auto simp: List.map_filter_simps split: option.splits)

lemma hist_createStreams:
  assumes "hist s h" and "snd (engine_track h) = []"
  shows "hist_result h (createStreams handles s)"
proof -
  obtain ok where t: "engine_track h = (ok, [])" using assms(2) by (cases "engine_track h") auto
  show ?thesis
    using assms(1) by (auto simp: createStreams_def hist_def track_append t engine_created session_created set_map_filter
        split: option.splits prod.splits)
qed

lemma hist_setupAudio:
  assumes "hist s h" and "snd (engine_track h) = []"
  shows "hist_result h (setupAudio handles engines s)"
proof (cases "oc_audioService s")
  case False
  then show ?thesis using assms by (simp add: setupAudio_def)
next
  case True
  have plain: "plain s (acquireEngines engines s)" by (simp add: plain_def acquireEngines_def list_all_iff)
  note a = hist_plain [OF assms(1) plain]
  have "snd (engine_track (h @ snd (acquireEngines engines s))) = []"
    using plain assms(2) by (simp add: plain_def track_append fold_neutral)
  from hist_chain [where f = "createStreams handles", OF a hist_createStreams [OF a this]]
  have "hist_result h (chain (acquireEngines engines s) (createStreams handles))" by blast
  from hist_then_plain [OF this, of "\<lambda>s. (s\<lparr>oc_speechFocusHint := FocusGainTransientMayDuck, oc_streamActive := (\<lambda>_. False)\<rparr>, [])"]
  show ?thesis using True by (simp add: setupAudio_def plain_def)
qed

lemma hist_no_streams: "hist s h \<Longrightarrow> oc_stream s = (\<lambda>_. None) \<Longrightarrow> snd (engine_track h) = []"
  by (cases "snd (engine_track h)") (auto simp: hist_def)

lemma hist_createSession:
  assumes "hist s h" and "oc_session s = None"
  shows "hist_result h (createSession socket s)"
proof -
  let ?s = "s\<lparr>oc_activeSocket := Some socket, oc_lastCluster := False, oc_transport := Some socket\<rparr>"
  let ?r = "chain (?s, []) (on_cluster_enabled activateRequestedClusterProfile)"
  have "hist_result h (?s, [])" using assms(1) by (simp add: hist_def)
  then have r: "hist_result h ?r" by (rule hist_then_plain) simp
  have "hist_result h (chain ?r (\<lambda>t. (t\<lparr>oc_session := Some (oc_sessions s), oc_sessions := Suc (oc_sessions s)\<rparr>,
      [EvSessionCreated (oc_sessions s)])))"
  proof (rule hist_seq [OF r])
    fix h'
    assume "hist (fst ?r) h'"
    moreover have "oc_session (fst ?r) = None" using assms(2) by simp
    ultimately show "hist_result h' ((fst ?r)\<lparr>oc_session := Some (oc_sessions s), oc_sessions := Suc (oc_sessions s)\<rparr>,
      [EvSessionCreated (oc_sessions s)])"
      by (simp add: hist_def track_append)
  qed
  then show ?thesis by (simp add: createSession_def Let_def)
qed

lemma plain_opening:
  "plain s (subscribeEvents s, [])" "plain s (chain (on_main f s) (on_cluster_enabled g))"
  "plain s (s, case oc_session s of Some i \<Rightarrow> [EvSessionStarted i] | None \<Rightarrow> [])"
  by (simp add: plain_def subscribeEvents_def) (intro plain_chain plain_displays, simp add: plain_def split: option.split)

lemma hist_newConnection:
  assumes ok: "orc_ok s" and h: "hist s h"
  shows "hist_result h (onNewConnection spa pending peer handles engines s)"
proof (cases "pending = None \<or> \<not> oc_admissionOpen s \<or> isAaConnected s")
  case True
  then have "plain s (onNewConnection spa pending peer handles engines s)"
    by (auto simp: onNewConnection_def plain_def split: option.split)
  then show ?thesis by (rule hist_plain [OF h])
next
  case False
  then obtain socket where p: "pending = Some socket" "oc_admissionOpen s" "\<not> isAaConnected s" by auto
  define a where "a = chain (if oc_session s \<noteq> None then teardownSession spa s else (s, []))
    (orc_setState CsConnecting (''Wireless connection from '' @ peer @ ''...''))"
  define b where "b = chain a (createSession socket)"
  have "released_ok (torn_down spa s)" "released_ok s"
    using torn_down_ok [OF ok, of CsConnecting spa] ok by (simp_all add: orc_ok_def released_ok_def)
  then have none: "oc_session (fst a) = None" "oc_stream (fst a) = (\<lambda>_. None)"
    by (auto simp: a_def released_ok_def)
  have a: "hist_result h a"
    unfolding a_def by (rule hist_then_plain) (use hist_teardown [OF ok h] h in \<open>simp_all del: setState_fst\<close>)
  have b: "hist_result h b"
    unfolding b_def by (rule hist_seq [OF a]) (rule hist_createSession [OF _ none(1)])
  have "oc_stream (fst b) = (\<lambda>_. None)" using none(2) by (simp add: b_def createSession_fst)
  from hist_no_streams [OF b this] have c: "hist_result h (chain b (setupAudio handles engines))"
    using hist_chain [where f = "setupAudio handles engines", OF b] hist_setupAudio [OF b] by blast
  have "hist_result h (chain (chain (chain (chain b (setupAudio handles engines)) (\<lambda>s. (subscribeEvents s, [])))
      (\<lambda>s. chain (on_main beginProtocolSession s) (on_cluster_enabled beginProtocolSession)))
      (\<lambda>s. (s, case oc_session s of Some i \<Rightarrow> [EvSessionStarted i] | None \<Rightarrow> [])))"
    by (intro hist_then_plain [OF hist_then_plain [OF hist_then_plain [OF c]]] plain_opening)
  moreover have "onNewConnection spa pending peer handles engines s
      = chain (chain (chain (chain b (setupAudio handles engines)) (\<lambda>s. (subscribeEvents s, [])))
      (\<lambda>s. chain (on_main beginProtocolSession s) (on_cluster_enabled beginProtocolSession)))
      (\<lambda>s. (s, case oc_session s of Some i \<Rightarrow> [EvSessionStarted i] | None \<Rightarrow> []))"
    using p by (simp only: onNewConnection_def a_def b_def option.case simp_thms if_False)
  ultimately show ?thesis by (simp only:)
qed

lemma hist_watchdog:
  assumes "orc_ok s" and "hist s h"
  shows "hist_result h (onWatchdogTimeout spa status s)"
proof -
  have stop: "hist_result h (stopConnectionWatchdog s, [])"
    using assms(2) by (simp add: hist_def stopConnectionWatchdog_def)
  have teardown: "hist_result h (chain (teardownSession spa s) (\<lambda>s. orc_setState CsWaitingForDevice (waitingMessage s) s))"
    by (rule hist_then_plain [OF hist_teardown [OF assms]]) simp
  have "hist_result h (s, [EvSocketAborted k])" for k by (rule hist_plain [OF assms(2)]) (simp add: plain_def)
  from hist_seq [OF this] have abort: "hist_result h (chain (s, [EvSocketAborted k]) (onSessionDisconnected spa))" for k
    using hist_disconnected [OF assms(1)] by simp
  show ?thesis
    using stop teardown abort assms hist_disconnected [OF assms]
    by (auto simp: onWatchdogTimeout_def simp del: chain_fst split: option.split socket_status.split)
qed

lemma neutral_replicate [simp]: "list_all neutral (replicate n (EvPublished t))"
  by (simp add: list_all_iff)

lemma plain_user [simp]:
  "plain s (orc_start port listen err s)" "plain s (disconnectSession s)" "plain s (disconnectAndRetrigger s)"
  "plain s (onPhoneWillConnect s)" "plain s (onRetriggerTimer s)" "plain s (requestVideoFocus s)" "plain s (requestExitToCar s)"
  "plain s (mainFocusChanged mode s)"
  by (auto simp: plain_def orc_start_def disconnectSession_def disconnectAndRetrigger_def onPhoneWillConnect_def onRetriggerTimer_def
      requestVideoFocus_def requestExitToCar_def mainFocusChanged_def orc_setState_def chain_snd Let_def split: option.split)

lemma plain_inputs [simp]:
  "plain s (onSetupRequested role s)" "plain s (onStreamStartedAudio r s)" "plain s (onStreamStoppedAudio r s)"
  "plain s (onAudioFocusChanged n s)" "plain s (onBatteryStatus parsed s)" "plain s (onSignalStrength n s)"
  "plain s (onNavigationState b s)" "plain s (onNavigationNotification s)" "plain s (onNavigationPosition s)"
  "plain s (onMediaStatus t s)" "plain s (onPhoneStatus t s)"
  by (auto simp: plain_def onSetupRequested_def onStreamStartedAudio_def onStreamStoppedAudio_def onAudioFocusChanged_def
      onBatteryStatus_def onSignalStrength_def onNavigationState_def onNavigationNotification_def onNavigationPosition_def
      onMediaStatus_def onPhoneStatus_def Let_def list_all_iff set_map_filter split: option.splits if_splits)

lemma plain_display_ops [simp]: "plain s (onMainDisplay ff op s)" "plain s (onClusterDisplay ff op s)"
proof -
  have rest: "plain t (case op of OpVideoFocus mode \<Rightarrow> mainFocusChanged mode t
       | _ \<Rightarrow> (if is_video_data op then t\<lparr>oc_lastCluster := False\<rparr> else t, []))" for t :: "('a, 'b, 'c, 'd) orchestrator"
    by (cases op) (simp_all add: plain_def mainFocusChanged_def orc_setState_def)
  show "plain s (onMainDisplay ff op s)"
  proof (cases "display_input op")
    case True
    have "plain s (chain (on_main (display_step ff op) s) (\<lambda>t. case op of OpVideoFocus mode \<Rightarrow> mainFocusChanged mode t
       | _ \<Rightarrow> (if is_video_data op then t\<lparr>oc_lastCluster := False\<rparr> else t, [])))"
      by (rule plain_chain [OF plain_displays(1)]) (rule rest)
    then show ?thesis using True by (simp add: onMainDisplay_def)
  qed (simp add: onMainDisplay_def)
  show "plain s (onClusterDisplay ff op s)"
    by (auto simp: onClusterDisplay_def plain_def disconnectAndRetrigger_def disconnectSession_def chain_snd Let_def split: prod.split)
qed

lemma hist_audioGone: "hist s h \<Longrightarrow> hist_result h (onAudioServiceAboutToDestroy spa s)"
proof (cases "oc_audioService s")
  case True
  assume h: "hist s h"
  have "hist_result h (chain (stopMicrophone spa s) (\<lambda>s. (s\<lparr>oc_stream := (\<lambda>_. None), oc_streamActive := (\<lambda>_. False),
            oc_audioService := False\<rparr>, [EvAudioServiceGone])))"
  proof (rule hist_seq [OF hist_plain [OF h plain_mic(1)]])
    fix h'
    assume "hist (fst (stopMicrophone spa s)) h'"
    then show "hist_result h' ((fst (stopMicrophone spa s))\<lparr>oc_stream := (\<lambda>_. None), oc_streamActive := (\<lambda>_. False),
            oc_audioService := False\<rparr>, [EvAudioServiceGone])"
      by (cases "engine_track h'") (simp add: hist_def track_append)
  qed
  then show ?thesis using True by (simp add: onAudioServiceAboutToDestroy_def)
qed (simp add: onAudioServiceAboutToDestroy_def)

lemma hist_orc_step:
  assumes "orc_ok s" and "hist s h"
  shows "hist_result h (orc_step env op s)"
  using assms by (cases op) (simp_all add: hist_stop hist_newConnection hist_sessionSignal hist_watchdog hist_audioGone
      hist_plain [OF assms(2)])

section \<open>Results\<close>

definition idle_mic :: "spa_ops \<Rightarrow> mic \<times> mic_world" where
  "idle_mic spa = (mic_new, \<lparr>mw_bridge = bridge_new spa, mw_handle = False\<rparr>)"

lemma orc_ok_new:
  "profile_ok profile \<Longrightarrow> orc_ok (orchestrator_new audio eq bus clusterEnabled profile (idle_mic spa) dec1 dec2)"
proof -
  assume p: "profile_ok profile"
  have "profile_ok baseline_profile" by code_simp
  with p show ?thesis
    by (simp add: orc_defs orchestrator_new_def display_new_def display_ok_def state_ok_def idle_mic_def mic_new_def)
qed

text \<open>
  C40. Over every sequence of operations of the orchestrator, with its displays, its audio streams
  and its microphone: a session, its transport and its socket exist together; the user sees
  Android Auto as connected or backgrounded only while there is a session; without one, all
  audio streams, equaliser engines and microphone captures have been given back, the phone's
  battery and signal are unknown and the displays are out of their protocol session, which they
  are in otherwise.  Sessions are created and finalized in turn, and no equaliser engine is
  released before the stream it is attached to is gone.  While a session is shown as connected, a
  tick of the watchdog that finds the link dead ends it and the user is told.
\<close>

theorem connection_lifecycle:
  assumes "profile_ok profile"
    and "run (orc_step env) ops (orchestrator_new audio eq bus clusterEnabled profile (idle_mic spa) dec1 dec2) = (s, events)"
  shows "orc_ok s \<and> session_track events = Some (oc_session s) \<and> fst (engine_track events)
    \<and> (isAaConnected s \<and> link_dead status \<longrightarrow> (case orc_step env (OrcWatchdog status) s of (s', es) \<Rightarrow>
          oc_session s' = None \<and> \<not> isAaConnected s'))"
proof -
  let ?s0 = "orchestrator_new audio eq bus clusterEnabled profile (idle_mic spa) dec1 dec2"
  have "watched ?s0" "hist ?s0 []"
    by (simp_all add: watched_def isAaConnected_def orchestrator_new_def hist_def session_track_def engine_track_def)
  then have inv: "orc_ok (fst (run (orc_step env) ops ?s0)) \<and> watched (fst (run (orc_step env) ops ?s0))
      \<and> hist (fst (run (orc_step env) ops ?s0)) (snd (run (orc_step env) ops ?s0))"
    using orc_ok_new [OF assms(1)]
    by (intro run_history_invariant [where I = "\<lambda>s h. orc_ok s \<and> watched s \<and> hist s h"])
       (auto simp: ok_orc_step watched_step hist_orc_step)
  then have s: "orc_ok s" "watched s" "hist s events" by (simp_all add: assms(2))
  then show ?thesis
    using dead_link_noticed [OF s(1,2), of status "oe_spa env"]
    by (cases "onWatchdogTimeout (oe_spa env) status s") (simp add: hist_def)
qed

definition demo_env :: "(unit, bytes list, unit, bytes) orc_env" where
  "demo_env = \<lparr>oe_ffmpeg = demo_ffmpeg, oe_protos = demo_protos, oe_spa = plain_spa, oe_fmul = (*)\<rparr>"

definition demo_connection :: "orc_op list" where
  "demo_connection = [OrcStart (PortInteger 5277) (\<lambda>p. Some (unat p)) [],
     OrcNewConnection (Some 4) ''10.0.0.7'' (\<lambda>r. Some (case r of RMedia \<Rightarrow> 1 | RSpeech \<Rightarrow> 2 | RSystem \<Rightarrow> 3)) (\<lambda>r. 9),
     OrcSession (SsState Connecting), OrcSession (SsState Active)]"

definition demo_connected :: "(unit, bytes list, unit, bytes) orchestrator \<times> bytes orc_event list" where
  "demo_connected = run (orc_step demo_env) demo_connection (orchestrator_new True True True True baseline_profile
     (idle_mic plain_spa) (decoder_new demo_ffmpeg False True) (decoder_new demo_ffmpeg False True))"

theorem connection_lifecycle_witness:
  "orc_ok (fst demo_connected) \<and> session_track (snd demo_connected) = Some (oc_session (fst demo_connected))
   \<and> fst (engine_track (snd demo_connected)) \<and> isAaConnected (fst demo_connected)
   \<and> (case orc_step demo_env (OrcWatchdog (TcpInfo 1 3 0)) (fst demo_connected) of (s', es) \<Rightarrow>
        oc_session s' = None \<and> \<not> isAaConnected s')"
proof -
  have profile: "profile_ok baseline_profile" by code_simp
  have r: "run (orc_step demo_env) demo_connection (orchestrator_new True True True True baseline_profile
     (idle_mic plain_spa) (decoder_new demo_ffmpeg False True) (decoder_new demo_ffmpeg False True)) = (fst demo_connected, snd demo_connected)"
    by (simp add: demo_connected_def)
  have connected: "isAaConnected (fst demo_connected)"
    by (simp add: demo_connected_def demo_connection_def run_Cons orc_start_def orchestrator_new_def onNewConnection_def
        createSession_fst setupAudio_fst subscribeEvents_def onSessionSignal_def onSessionStateChanged_def
        startConnectionWatchdog_def isAaConnected_def Let_def)
  have dead: "link_dead (TcpInfo 1 3 0)" by (simp add: peer_unreachable_def)
  show ?thesis
    using connection_lifecycle [OF profile r, of "TcpInfo 1 3 0"] by (simp only: connected dead simp_thms)
qed

section \<open>Observations on the orchestrator\<close>

text \<open>
  The subscriptions to navigation and media events outlive their session: each further connection
  adds one more publication of every such event.
\<close>

lemma reconnection_duplicates_events:
  assumes "oc_eventBus s"
  shows "snd (onNavigationNotification (fst (teardownSession spa s))) = snd (onNavigationNotification s)"
    and "oc_admissionOpen s \<Longrightarrow> \<not> isAaConnected s \<Longrightarrow>
      length (snd (onNavigationNotification (fst (onNewConnection spa (Some socket) peer handles engines s))))
        = Suc (length (snd (onNavigationNotification s)))"
  using assms by (simp_all add: onNavigationNotification_def newConnection_fst connected_to_def subscribeEvents_def Let_def)

text \<open>Starting again while listening closes the admission and reports a failure, with the session still there.\<close>

lemma starting_again_closes_admission:
  assumes "oc_listening s"
  shows "\<not> oc_admissionOpen (fst (orc_start port listen err s)) \<and> oc_listening (fst (orc_start port listen err s))
    \<and> oc_session (fst (orc_start port listen err s)) = oc_session s
    \<and> oc_state (fst (orc_start port listen err s)) = CsDisconnected"
  using assms by (simp add: orc_start_def Let_def)

end
