(* ===== verification/Audio_Playback.thy ===== *)
theory Audio_Playback
  imports Audio_Service
begin

text \<open>
  What the audio service guarantees: the size of a ring is found and bounded, the stream that
  dominates the focus is heard while the others are ducked or muted, and every period of output
  is full, made of the bytes of the ring in order, at a gain that follows the focus.
\<close>

unbundle bit_operations_syntax

section \<open>The size of a ring\<close>

lemma word_pow2: "k < 64 \<Longrightarrow> unat ((2 :: u64) ^ k) = 2 ^ k"
  using unat_of_nat [of "2 ^ k", where ?'a = 64] power_strict_increasing [of k 64 "2 :: nat"] by simp

lemma double_capacity_ends:
  assumes r: "0 < unat requested" "unat requested \<le> 2 ^ 23"
  shows "\<exists>k \<le> 23. double_capacity requested = Some (2 ^ k) \<and> unat requested \<le> 2 ^ k \<and> 2 ^ k < 2 * unat requested"
proof -
  define P where "P c \<longleftrightarrow> (\<exists>k \<le> 23. c = (2 :: u64) ^ k \<and> 2 ^ k < 2 * unat requested)" for c
  have step: "P (push_bit 1 c) \<and> 2 ^ 24 - unat (push_bit 1 c) < 2 ^ 24 - unat c" if "P c" "c < requested" for c
  proof -
    from that(1) obtain k where k: "k \<le> 23" "c = 2 ^ k" by (auto simp: P_def)
    then have u: "unat c = 2 ^ k" by (simp add: word_pow2)
    have lt: "2 ^ k < unat requested" using that(2) u by (simp add: word_less_nat_alt)
    then have "(2 :: nat) ^ k < 2 ^ 23" using r(2) by linarith
    then have k23: "k < 23" by (rule power_less_imp_less_exp [rotated]) simp
    have p: "push_bit 1 c = 2 ^ Suc k" using k(2) by (simp add: push_bit_eq_mult)
    have "unat (push_bit 1 c) = 2 * 2 ^ k" using p word_pow2 [of "Suc k"] k23 by simp
    moreover have "(2 :: nat) ^ k < 2 ^ 24" using k23 by (intro power_strict_increasing) auto
    ultimately have "2 ^ 24 - unat (push_bit 1 c) < 2 ^ 24 - unat c" using u by (intro diff_less_mono2) auto
    with p k23 lt show ?thesis by (auto simp: P_def intro!: exI [of _ "Suc k"])
  qed
  have init: "P 1" using r(1) by (auto simp: P_def intro!: exI [of _ 0])
  have "\<exists>t. while_option (\<lambda>c. c < requested) (\<lambda>c. push_bit 1 c) 1 = Some t"
    by (rule measure_while_option_Some [where P = P and f = "\<lambda>c. 2 ^ 24 - unat c"]) (use step init in auto)
  then obtain t where t: "while_option (\<lambda>c. c < requested) (\<lambda>c. push_bit 1 c) 1 = Some t" by blast
  have "P t" by (rule while_option_rule [OF _ t]) (use step init in auto)
  moreover have "\<not> t < requested" by (rule while_option_stop [OF t])
  ultimately show ?thesis using t by (auto simp: P_def double_capacity_def word_less_nat_alt word_pow2 not_less)
qed

lemma ring_size:
  "\<exists>capacity ms. playbackRingCapacityBytes sampleRate channels bufferMs = Some (capacity, ms)
    \<and> (if sampleRate < 8000 \<or> 384000 < sampleRate \<or> channels < 1 \<or> 2 < channels then capacity = 0
       else ms = max 500 (min 5000 bufferMs) \<and> (\<exists>k \<le> 23. unat capacity = 2 ^ k
         \<and> sampleRate * channels * 2 * ms div 1000 \<le> 2 ^ k \<and> 2 ^ k < 2 * (sampleRate * channels * 2 * ms div 1000)))"
proof (cases "sampleRate < 8000 \<or> 384000 < sampleRate \<or> channels < 1 \<or> 2 < channels")
  case True
  then show ?thesis by (auto simp: playbackRingCapacityBytes_def kMinPlaybackSampleRate_def kMaxPlaybackSampleRate_def)
next
  case False
  let ?ms = "max 500 (min 5000 bufferMs)"
  define x where "x = sampleRate * channels * 2 * ?ms"
  have "sampleRate * channels \<le> 384000 * 2" using False by (intro mult_mono) auto
  then have "sampleRate * channels * 2 * ?ms \<le> (384000 * 2 * 2) * 5000" by (intro mult_mono [of _ "384000 * 2 * 2"]) (auto simp: mult.commute)
  moreover have "8000 * 1 \<le> sampleRate * channels" using False by (intro mult_mono) auto
  then have "(8000 * 1 * 2) * 500 \<le> sampleRate * channels * 2 * ?ms" by (intro mult_mono [of "8000 * 1 * 2"]) (auto simp: mult.commute)
  ultimately have x: "8000000 \<le> x" "x \<le> 7680000000" by (simp_all add: x_def)
  define requested where "requested = (word_of_int x :: u64) div 1000"
  have "uint (word_of_int x :: u64) = x" using x by (simp add: uint_word_of_int)
  then have "unat (word_of_int x :: u64) = nat x" by (simp add: unat_eq_nat_uint)
  then have u: "unat requested = nat x div 1000" by (simp add: requested_def unat_div)
  then have un: "int (unat requested) = x div 1000" using x by (simp add: nat_div_distrib zdiv_int)
  have "8000000 \<le> nat x" "nat x \<le> 7680000000" using x by simp_all
  then have "8000 \<le> nat x div 1000" "nat x div 1000 \<le> 7680000" by linarith+
  then have b: "0 < unat requested" "unat requested \<le> 2 ^ 23" using u by simp_all
  from double_capacity_ends [OF this] obtain k where
    k: "k \<le> 23" "double_capacity requested = Some (2 ^ k)" "unat requested \<le> 2 ^ k" "2 ^ k < 2 * unat requested" by blast
  have "(2 :: nat) ^ k \<le> 2 ^ 23" using k(1) by (intro power_increasing) auto
  then have small: "\<not> word_of_int kMaxPlaybackRingBytes < (2 :: u64) ^ k" "\<not> word_of_int (2 ^ 32 - 1) < (2 :: u64) ^ k"
    using k(1) by (simp_all add: word_less_nat_alt word_pow2 kMaxPlaybackRingBytes_def)
  have "requested \<noteq> 0 \<and> \<not> word_of_int kMaxPlaybackRingBytes < requested"
    using b by (auto simp: word_less_nat_alt kMaxPlaybackRingBytes_def)
  moreover have "(word_of_int sampleRate * word_of_int channels * 2 * word_of_int ?ms) div 1000 = requested"
    by (simp add: requested_def x_def)
  ultimately have "playbackRingCapacityBytes sampleRate channels bufferMs = Some (ucast ((2 :: u64) ^ k), ?ms)"
    using False small k(2) by (simp add: playbackRingCapacityBytes_def kMinPlaybackSampleRate_def kMaxPlaybackSampleRate_def
      kMinPlaybackBufferMs_def kMaxPlaybackBufferMs_def qBound_int_def Let_def)
  moreover have "unat (ucast ((2 :: u64) ^ k) :: u32) = 2 ^ k"
    using \<open>(2 :: nat) ^ k \<le> 2 ^ 23\<close> k(1) by (simp add: unsigned_ucast_eq unsigned_take_bit_eq word_pow2 take_bit_nat_eq_self)
  moreover have "x div 1000 \<le> 2 ^ k" "2 ^ k < 2 * (x div 1000)"
    using k(3,4) un by (metis of_nat_le_iff of_nat_numeral of_nat_power, metis of_nat_less_iff of_nat_mult of_nat_numeral of_nat_power)
  ultimately show ?thesis
    unfolding if_not_P [OF False] x_def [symmetric] using k(1)
    by (intro exI [of _ "ucast ((2 :: u64) ^ k)"] exI [of _ ?ms]) (auto simp: x_def [symmetric])
qed

section \<open>The dominant stream\<close>

text \<open>A holder of the focus yields to one of higher priority, and among equals to the one that asked later.\<close>

definition outranks :: "'e audio_stream \<Rightarrow> 'e audio_stream \<Rightarrow> bool" where
  "outranks d s \<longleftrightarrow> as_priority d > as_priority s \<or> (as_priority d = as_priority s \<and> as_focusSequence d \<ge> as_focusSequence s)"

lemma outranks_trans: "outranks a b \<Longrightarrow> outranks b c \<Longrightarrow> outranks a c"
  by (auto simp: outranks_def)

lemma outranks_total: "outranks a b \<or> outranks b a"
  by (auto simp: outranks_def)

lemma selectDominant_Some:
  "selectDominant acc ss = Some d \<Longrightarrow> (\<And>c. acc = Some c \<Longrightarrow> as_hasFocus (snd c)) \<Longrightarrow>
    (d \<in> set ss \<or> acc = Some d) \<and> as_hasFocus (snd d) \<and> (\<forall>x \<in> set ss. as_hasFocus (snd x) \<longrightarrow> outranks (snd d) (snd x))
    \<and> (\<forall>c. acc = Some c \<longrightarrow> outranks (snd d) (snd c))"
proof (induction ss arbitrary: acc)
  case Nil
  then show ?case by (simp add: outranks_def)
next
  case (Cons x ss)
  let ?acc = "if \<not> as_hasFocus (snd x) then acc
     else case acc of None \<Rightarrow> Some x | Some d \<Rightarrow> if as_priority (snd x) > as_priority (snd d)
       \<or> (as_priority (snd x) = as_priority (snd d) \<and> as_focusSequence (snd x) > as_focusSequence (snd d)) then Some x else acc"
  have sel: "selectDominant ?acc ss = Some d" using Cons.prems(1) by simp
  have foc: "as_hasFocus (snd c)" if "?acc = Some c" for c
    using that Cons.prems(2) by (auto split: if_splits option.splits)
  note IH = Cons.IH [OF sel foc]
  have better: "\<exists>c. ?acc = Some c \<and> outranks (snd c) (snd x)" if "as_hasFocus (snd x)"
    using that by (cases x; cases acc) (auto simp: outranks_def)
  have old: "\<exists>c'. ?acc = Some c' \<and> outranks (snd c') (snd c)" if "acc = Some c" for c
    using that by (cases x; cases c) (auto simp: outranks_def)
  have "?acc = acc \<or> ?acc = Some x" by (auto split: option.splits)
  then have "d \<in> set (x # ss) \<or> acc = Some d" using IH by auto
  moreover have "outranks (snd d) (snd x)" if "as_hasFocus (snd x)"
    using better [OF that] IH outranks_trans by blast
  moreover have "outranks (snd d) (snd c)" if "acc = Some c" for c
    using old [OF that] IH outranks_trans by blast
  ultimately show ?case using IH by simp
qed

lemma selectDominant_None: "selectDominant acc ss = None \<longleftrightarrow> acc = None \<and> (\<forall>x \<in> set ss. \<not> as_hasFocus (snd x))"
  by (induction ss arbitrary: acc) (auto split: option.splits)

section \<open>The invariant of the service\<close>

definition stream_ok :: "rounding \<Rightarrow> int \<Rightarrow> 'e audio_stream \<Rightarrow> bool" where
  "stream_ok rnd volume s \<longleftrightarrow> as_channels s \<in> {1, 2} \<and> as_bytesPerFrame s = 2 * as_channels s \<and> ring_inv (as_ringBuffer s)
     \<and> as_bytesPerFrame s dvd ring_fill (as_ringBuffer s) \<and> as_bytesPerFrame s dvd unat (rb_capacity (as_ringBuffer s))
     \<and> as_baseVolume s = 1 \<and> as_targetGain s \<in> {0 .. 1} \<and> as_rtCurrentGain s \<in> {0 .. 1}
     \<and> as_channelVolume s = cubicVolume rnd volume"

definition focus_ok :: "nat \<Rightarrow> (nat \<times> 'e audio_stream) list \<Rightarrow> bool" where
  "focus_ok n ss \<longleftrightarrow> distinct (map fst ss) \<and> (\<forall>x \<in> set ss. as_focusSequence (snd x) \<le> n)
     \<and> (\<forall>x \<in> set ss. \<forall>y \<in> set ss. as_hasFocus (snd x) \<and> as_hasFocus (snd y) \<and> fst x \<noteq> fst y
          \<longrightarrow> as_focusSequence (snd x) \<noteq> as_focusSequence (snd y))"

text \<open>A stream made since the last change of the focus has not been ducked yet.\<close>

definition arbitrated :: "rounding \<Rightarrow> (nat \<times> 'e audio_stream) list \<Rightarrow> bool" where
  "arbitrated rnd ss \<longleftrightarrow> (\<forall>x \<in> set ss. as_targetGain (snd x) = ducked_gain rnd (selectDominant None ss) x
     \<or> (as_targetGain (snd x) = 1 \<and> \<not> as_hasFocus (snd x)))"

definition audio_ok :: "rounding \<Rightarrow> ('e, 'c) audio_service \<Rightarrow> bool" where
  "audio_ok rnd a \<longleftrightarrow> (\<forall>x \<in> set (au_streams a). stream_ok rnd (au_masterVolume a) (snd x))
     \<and> focus_ok (au_focusSeqCounter a) (au_streams a) \<and> arbitrated rnd (au_streams a)"

definition focus_view :: "'e audio_stream \<Rightarrow> int \<times> focus_type \<times> bool \<times> nat \<times> rat \<times> rat" where
  "focus_view s = (as_priority s, as_focusType s, as_hasFocus s, as_focusSequence s, as_targetGain s, as_baseVolume s)"

lemma focus_viewD:
  assumes "focus_view s = focus_view t"
  shows "as_priority s = as_priority t" "as_focusType s = as_focusType t" "as_hasFocus s = as_hasFocus t"
    "as_focusSequence s = as_focusSequence t" "as_targetGain s = as_targetGain t" "as_baseVolume s = as_baseVolume t"
  using assms by (simp_all add: focus_view_def)

definition focus_rank :: "'e audio_stream \<Rightarrow> int \<times> bool \<times> nat" where
  "focus_rank s = (as_priority s, as_hasFocus s, as_focusSequence s)"

lemma focus_rankD:
  assumes "focus_rank s = focus_rank t"
  shows "as_priority s = as_priority t" "as_hasFocus s = as_hasFocus t" "as_focusSequence s = as_focusSequence t"
  using assms by (simp_all add: focus_rank_def)

lemma fst_keep [simp]: "fst \<circ> (\<lambda>(h, s). (h, f h s)) = fst"
  by (simp add: fun_eq_iff)

lemma selectDominant_map:
  assumes "\<And>x. x \<in> set ss \<union> set_option acc \<Longrightarrow> focus_rank (snd (F x)) = focus_rank (snd x)"
  shows "selectDominant (map_option F acc) (map F ss) = map_option F (selectDominant acc ss)"
  using assms
proof (induction ss arbitrary: acc)
  case (Cons x ss)
  have v: "focus_rank (snd (F y)) = focus_rank (snd y)" if "y \<in> insert x (set_option acc)" for y
    by (rule Cons.prems) (use that in auto)
  note e = focus_rankD [OF v]
  let ?acc = "if \<not> as_hasFocus (snd x) then acc
     else case acc of None \<Rightarrow> Some x | Some d \<Rightarrow> if as_priority (snd x) > as_priority (snd d)
       \<or> (as_priority (snd x) = as_priority (snd d) \<and> as_focusSequence (snd x) > as_focusSequence (snd d)) then Some x else acc"
  have "selectDominant (map_option F acc) (map F (x # ss)) = selectDominant (map_option F ?acc) (map F ss)"
    using e by (cases acc) auto
  also have "\<dots> = map_option F (selectDominant ?acc ss)"
    by (rule Cons.IH) (use Cons.prems in \<open>auto split: if_splits option.splits\<close>)
  finally show ?case by simp
qed simp

text \<open>Changes of the streams that leave the focus alone.\<close>

definition change_streams :: "(nat \<Rightarrow> 'e audio_stream \<Rightarrow> 'e audio_stream) \<Rightarrow> ('e, 'c) audio_service \<Rightarrow> ('e, 'c) audio_service" where
  "change_streams f a = a\<lparr>au_streams := map (\<lambda>(h, s). (h, f h s)) (au_streams a)\<rparr>"

lemma focus_ok_change:
  assumes "focus_ok n ss" "\<And>x. x \<in> set ss \<Longrightarrow> fst (F x) = fst x \<and> as_focusSequence (snd (F x)) \<le> m"
    and "\<And>x y. x \<in> set ss \<Longrightarrow> y \<in> set ss \<Longrightarrow> as_hasFocus (snd (F x)) \<Longrightarrow> as_hasFocus (snd (F y))
      \<Longrightarrow> fst x \<noteq> fst y \<Longrightarrow> as_focusSequence (snd (F x)) \<noteq> as_focusSequence (snd (F y))"
  shows "focus_ok m (map F ss)"
proof -
  have "map fst (map F ss) = map fst ss" using assms(2) by simp
  then show ?thesis using assms by (simp add: focus_ok_def del: map_map)
qed

lemma focus_ok_map:
  assumes "focus_ok n ss" and "\<And>h s. (h, s) \<in> set ss \<Longrightarrow> focus_view (f h s) = focus_view s"
  shows "focus_ok n (map (\<lambda>(h, s). (h, f h s)) ss)"
  by (rule focus_ok_change [OF assms(1)]) (use assms in \<open>fastforce simp: focus_ok_def focus_view_def\<close>)+

lemma ducked_gain_map:
  "fst (F x) = fst x \<Longrightarrow> as_baseVolume (snd (F x)) = as_baseVolume (snd x)
    \<Longrightarrow> (\<And>d. D = Some d \<Longrightarrow> fst (F d) = fst d \<and> as_focusType (snd (F d)) = as_focusType (snd d))
    \<Longrightarrow> ducked_gain rnd (map_option F D) (F x) = ducked_gain rnd D x"
  by (cases D) (simp_all add: ducked_gain_def)

lemma arbitrated_map:
  assumes "arbitrated rnd ss" and "\<And>h s. (h, s) \<in> set ss \<Longrightarrow> focus_view (f h s) = focus_view s"
  shows "arbitrated rnd (map (\<lambda>(h, s). (h, f h s)) ss)"
proof -
  let ?F = "\<lambda>(h, s). (h, f h s)"
  have v: "focus_view (snd (?F x)) = focus_view (snd x)" if "x \<in> set ss" for x using assms(2) that by (cases x) auto
  have sel: "selectDominant None (map ?F ss) = map_option ?F (selectDominant None ss)"
    using selectDominant_map [of ss None ?F] focus_viewD [OF v] by (simp add: focus_rank_def)
  have "ducked_gain rnd (map_option ?F (selectDominant None ss)) (?F x) = ducked_gain rnd (selectDominant None ss) x" if "x \<in> set ss" for x
  proof (rule ducked_gain_map)
    show "fst (?F x) = fst x" "as_baseVolume (snd (?F x)) = as_baseVolume (snd x)"
      using focus_viewD(6) [OF v [OF that]] by (simp_all add: case_prod_unfold)
    show "fst (?F d) = fst d \<and> as_focusType (snd (?F d)) = as_focusType (snd d)" if "selectDominant None ss = Some d" for d
      using selectDominant_Some [OF that] focus_viewD(2) [OF v, of d] by (simp add: case_prod_unfold)
  qed
  then show ?thesis using assms(1) focus_viewD [OF v] unfolding arbitrated_def sel by fastforce
qed

lemma change_streams_ok:
  assumes "audio_ok rnd a"
    and "\<And>h s. (h, s) \<in> set (au_streams a) \<Longrightarrow> stream_ok rnd (au_masterVolume a) s \<Longrightarrow> stream_ok rnd (au_masterVolume a) (f h s)"
    and "\<And>h s. (h, s) \<in> set (au_streams a) \<Longrightarrow> focus_view (f h s) = focus_view s"
  shows "audio_ok rnd (change_streams f a)"
  using assms focus_ok_map [of "au_focusSeqCounter a" "au_streams a" f] arbitrated_map [of rnd "au_streams a" f]
  by (auto simp: audio_ok_def change_streams_def)

lemma on_stream_change: "on_stream h f = change_streams (\<lambda>k s. if k = h then f s else s)"
  by (simp add: fun_eq_iff on_stream_def change_streams_def)

text \<open>After a change of the focus all gains are set anew.\<close>

lemma applyDucking_streams:
  "au_streams (applyDucking rnd a)
    = map (\<lambda>(h, s). (h, s\<lparr>as_targetGain := ducked_gain rnd (selectDominant None (au_streams a)) (h, s)\<rparr>)) (au_streams a)"
  by (simp add: applyDucking_def Let_def)

lemma ducked_gain_range:
  assumes "rnd_ok rnd" "as_baseVolume (snd x) = 1"
  shows "ducked_gain rnd d x \<in> {0 .. 1}"
proof -
  have "rnd (2 / 10) \<in> {0 .. 1}"
    using rnd_mono [OF assms(1), of 0 "2 / 10"] rnd_mono [OF assms(1), of "2 / 10" 1] rnd_0_1 [OF assms(1)] by simp
  then show ?thesis using assms(2) rnd_idem [OF assms(1), of "2 / 10"] by (auto simp: ducked_gain_def split: option.splits)
qed

lemma selectDominant_gain:
  "selectDominant None (map (\<lambda>(h, s). (h, s\<lparr>as_targetGain := g h s\<rparr>)) ss) = map_option (\<lambda>(h, s). (h, s\<lparr>as_targetGain := g h s\<rparr>)) (selectDominant None ss)"
  using selectDominant_map [of ss None "\<lambda>(h, s). (h, s\<lparr>as_targetGain := g h s\<rparr>)"] by (simp add: focus_rank_def case_prod_unfold)

lemma ducked_everywhere:
  "x \<in> set (au_streams (applyDucking rnd a)) \<Longrightarrow>
    as_targetGain (snd x) = ducked_gain rnd (selectDominant None (au_streams (applyDucking rnd a))) x"
  by (auto simp: applyDucking_streams selectDominant_gain ducked_gain_def split: option.splits)

lemma applyDucking_ok:
  assumes "rnd_ok rnd" "\<forall>x \<in> set (au_streams a). stream_ok rnd (au_masterVolume a) (snd x)" "focus_ok (au_focusSeqCounter a) (au_streams a)"
  shows "audio_ok rnd (applyDucking rnd a)"
proof -
  have "focus_ok (au_focusSeqCounter a) (au_streams (applyDucking rnd a))"
    unfolding applyDucking_streams by (rule focus_ok_change [OF assms(3)]) (use assms(3) in \<open>fastforce simp: focus_ok_def\<close>)+
  moreover have "stream_ok rnd (au_masterVolume a) (snd x)" if "x \<in> set (au_streams (applyDucking rnd a))" for x
    using that assms(2) ducked_gain_range [OF assms(1)] by (fastforce simp: applyDucking_streams stream_ok_def)
  moreover have "arbitrated rnd (au_streams (applyDucking rnd a))" using ducked_everywhere by (auto simp: arbitrated_def)
  ultimately show ?thesis by (simp add: audio_ok_def applyDucking_def Let_def)
qed

section \<open>Samples and gain\<close>

lemma length_bytes_samples: "length (bytes_samples bs) = length bs div 2"
  by (induction bs rule: bytes_samples.induct) simp_all

lemma length_samples_bytes: "length (samples_bytes xs) = 2 * length xs"
  by (induction xs) (simp_all add: samples_bytes_def sample_bytes_def Let_def)

lemma length_applyFocusGain: "length (fst (applyFocusGain rnd ch t n g xs)) = length xs"
  by (induction n arbitrary: g xs) (simp_all add: Let_def split_beta)

lemma ramp_step_bounds:
  assumes "rnd_ok rnd"
  shows "1 / 1024 \<le> kFocusGainRampPerFrame rnd"
  using rnd_lower [OF assms, of 10 "1 / 960"] by (simp add: kFocusGainRampPerFrame_def)

lemma ramp_gain_range:
  assumes "rnd_ok rnd" "t \<in> {0 .. 1}" "g \<in> {0 .. 1}"
  shows "ramp_gain rnd t g \<in> {0 .. 1}"
  using ramp_step_bounds [OF assms(1)] assms(2,3) rnd_mono [OF assms(1), of 0 "g + kFocusGainRampPerFrame rnd"]
    rnd_mono [OF assms(1), of "g - kFocusGainRampPerFrame rnd" 1] rnd_0_1 [OF assms(1)]
  by (auto simp: ramp_gain_def min_def max_def)

lemma rnd_grid: "rnd_ok rnd \<Longrightarrow> \<bar>k\<bar> \<le> 2 ^ 24 \<Longrightarrow> rnd (of_int k / 1024) = of_int k / 1024"
  unfolding rnd_ok_def by (elim conjE allE [of _ k] allE [of _ 10]) simp

text \<open>The gain comes nearer to its target by at least 1/1024 with every frame.\<close>

lemma ramp_gain_progress:
  assumes "rnd_ok rnd" "0 \<le> k" "k \<le> 1024"
  shows "g \<le> max t ((of_int k + 1) / 1024) \<Longrightarrow> ramp_gain rnd t g \<le> max t (of_int k / 1024)"
    and "g \<ge> min t (of_int (k - 1) / 1024) \<Longrightarrow> ramp_gain rnd t g \<ge> min t (of_int k / 1024)"
proof -
  have grid: "rnd (of_int k / 1024) = of_int k / 1024" by (rule rnd_grid [OF assms(1)]) (use assms(2,3) in auto)
  show "ramp_gain rnd t g \<le> max t (of_int k / 1024)" if "g \<le> max t ((of_int k + 1) / 1024)"
  proof (cases "t < g")
    case True
    then have "g - kFocusGainRampPerFrame rnd \<le> of_int k / 1024"
      using that ramp_step_bounds [OF assms(1)] by (simp add: add_divide_distrib max_def split: if_splits)
    from rnd_mono [OF assms(1) this] True grid show ?thesis by (auto simp: ramp_gain_def max_def)
  qed (auto simp: ramp_gain_def)
  show "ramp_gain rnd t g \<ge> min t (of_int k / 1024)" if "g \<ge> min t (of_int (k - 1) / 1024)"
  proof (cases "g < t")
    case True
    then have "of_int k / 1024 \<le> g + kFocusGainRampPerFrame rnd"
      using that ramp_step_bounds [OF assms(1)] by (simp add: diff_divide_distrib min_def split: if_splits)
    from rnd_mono [OF assms(1) this] True grid show ?thesis by (auto simp: ramp_gain_def min_def)
  qed (auto simp: ramp_gain_def)
qed

lemma applyFocusGain_final: "snd (applyFocusGain rnd ch t n g xs) = (ramp_gain rnd t ^^ n) g"
  by (induction n arbitrary: g xs) (simp_all add: Let_def split_beta funpow_swap1)

lemma ramp_range: "rnd_ok rnd \<Longrightarrow> t \<in> {0 .. 1} \<Longrightarrow> g \<in> {0 .. 1} \<Longrightarrow> (ramp_gain rnd t ^^ n) g \<in> {0 .. 1}"
  by (induction n) (auto simp: ramp_gain_range simp del: atLeastAtMost_iff)

lemma ramp_bounds:
  assumes "rnd_ok rnd" "t \<in> {0 .. 1}" "g \<in> {0 .. 1}" "n \<le> 1024"
  shows "(ramp_gain rnd t ^^ n) g \<le> max t (of_int (1024 - int n) / 1024)" "(ramp_gain rnd t ^^ n) g \<ge> min t (of_int (int n) / 1024)"
  using assms(4)
proof (induction n)
  case 0
  { case 1 show ?case using assms(3) by (simp add: max_def) next case 2 show ?case using assms(3) by (simp add: min_def) }
next
  case (Suc n)
  { case 1
    with Suc(1) have "(ramp_gain rnd t ^^ n) g \<le> max t ((of_int (1024 - int (Suc n)) + 1) / 1024)" by (simp add: algebra_simps)
    from ramp_gain_progress(1) [OF assms(1) _ _ this] 1 show ?case by simp
  next case 2
    with Suc(2) have "(ramp_gain rnd t ^^ n) g \<ge> min t (of_int (int (Suc n) - 1) / 1024)" by simp
    from ramp_gain_progress(2) [OF assms(1) _ _ this] 2 show ?case by simp }
qed

lemma ramp_stays: "(ramp_gain rnd t ^^ n) t = t"
  by (induction n) (simp_all add: ramp_gain_def)

lemma ramp_reaches:
  assumes "rnd_ok rnd" "t \<in> {0 .. 1}" "g \<in> {0 .. 1}" "1024 \<le> n"
  shows "(ramp_gain rnd t ^^ n) g = t"
proof -
  have "(ramp_gain rnd t ^^ 1024) g = t" using ramp_bounds [OF assms(1-3), of 1024] assms(2) by (simp add: max_def min_def split: if_splits)
  moreover have "n = (n - 1024) + 1024" using assms(4) by simp
  ultimately show ?thesis by (metis funpow_add o_apply ramp_stays)
qed

lemma muted_samples:
  assumes "rnd_ok rnd" "length xs \<le> n * ch"
  shows "fst (applyFocusGain rnd ch 0 n 0 xs) = replicate (length xs) 0"
  using assms(2)
proof (induction n arbitrary: xs)
  case (Suc n)
  have z: "map (\<lambda>x. trunc (rnd (to_float rnd x * 0))) ys = replicate (length ys) 0" for ys
    by (simp add: rnd_0_1 [OF assms(1)] trunc_def map_replicate_const)
  have "fst (applyFocusGain rnd ch 0 (Suc n) 0 xs) = replicate (length (take ch xs)) 0 @ fst (applyFocusGain rnd ch 0 n 0 (drop ch xs))"
    using z [of "take ch xs"] by (simp add: ramp_gain_def Let_def split_beta)
  then show ?case using Suc.IH [of "drop ch xs"] Suc.prems by (simp flip: replicate_add)
qed simp

lemma samples_bytes_zero: "samples_bytes (replicate n 0) = replicate (2 * n) 0"
  by (induction n) (simp_all add: samples_bytes_def sample_bytes_def Let_def)

section \<open>A period\<close>

definition eq_ok :: "('e \<Rightarrow> nat \<Rightarrow> int list \<Rightarrow> 'e \<times> int list) \<Rightarrow> bool" where
  "eq_ok eq \<longleftrightarrow> (\<forall>e n xs. length (snd (eq e n xs)) = length xs)"

text \<open>What a period works on besides the focus.\<close>

definition same_stream :: "'e audio_stream \<Rightarrow> 'e audio_stream \<Rightarrow> bool" where
  "same_stream s t \<longleftrightarrow> focus_view s = focus_view t \<and> as_channels s = as_channels t \<and> as_bytesPerFrame s = as_bytesPerFrame t
     \<and> as_channelVolume s = as_channelVolume t"

lemma processed_length:
  assumes "b = 2 * c" "0 < c" "length ys = length (bytes_samples (take (2 * (length bs div b) * c) bs))"
  shows "length (samples_bytes ys @ drop (2 * (length bs div b) * c) bs) = length bs"
proof -
  have le: "2 * (length bs div b) * c \<le> length bs"
  proof -
    have "2 * (length bs div b) * c = length bs div b * b" using assms(1) by simp
    then show ?thesis using div_times_less_eq_dividend [of "length bs" b] by (simp only:)
  qed
  moreover have "2 * (2 * (length bs div b) * c div 2) = 2 * (length bs div b) * c" by (simp add: mult.assoc)
  ultimately show ?thesis
    by (simp only: length_append length_drop assms(3) length_samples_bytes length_bytes_samples length_take min_absorb2 le_add_diff_inverse)
qed

lemma run_equalizer_ok:
  assumes "eq_ok eq" "as_bytesPerFrame s = 2 * as_channels s" "0 < as_channels s" "run_equalizer eq s bs = (s', bs')"
  shows "length bs' = length bs \<and> same_stream s' s \<and> as_ringBuffer s' = as_ringBuffer s \<and> as_rtCurrentGain s' = as_rtCurrentGain s
    \<and> (as_eqEngine s = None \<longrightarrow> bs' = bs)"
proof (cases "as_eqEngine s")
  case (Some e)
  then show ?thesis
    using assms(1,4) processed_length [OF assms(2,3), of _ bs]
    by (auto simp: run_equalizer_def eq_ok_def same_stream_def focus_view_def Let_def split_beta split: if_splits)
qed (use assms(4) in \<open>simp add: run_equalizer_def same_stream_def focus_view_def\<close>)

lemma run_focus_gain_ok:
  assumes "rnd_ok rnd" "as_bytesPerFrame s = 2 * as_channels s" "0 < as_channels s" "as_targetGain s \<in> {0 .. 1}" "as_rtCurrentGain s \<in> {0 .. 1}"
    and "run_focus_gain rnd s bs = (s', bs')"
  shows "length bs' = length bs \<and> same_stream s' s \<and> as_ringBuffer s' = as_ringBuffer s \<and> as_rtCurrentGain s' \<in> {0 .. 1}"
    and "as_targetGain s = 1 \<and> as_rtCurrentGain s = 1 \<Longrightarrow> bs' = bs"
    and "as_targetGain s = 0 \<and> as_rtCurrentGain s = 0 \<Longrightarrow> as_bytesPerFrame s dvd length bs \<Longrightarrow> bs' = replicate (length bs) 0"
    and "1024 * as_bytesPerFrame s \<le> length bs \<Longrightarrow> as_rtCurrentGain s' = as_targetGain s"
proof -
  let ?f = "length bs div as_bytesPerFrame s"
  let ?r = "applyFocusGain rnd (as_channels s) (as_targetGain s) ?f (as_rtCurrentGain s) (bytes_samples (take (2 * ?f * as_channels s) bs))"
  have res: "(s', bs') = (if bs = [] \<or> (as_targetGain s = 1 \<and> as_rtCurrentGain s = 1) then (s, bs)
      else (s\<lparr>as_rtCurrentGain := snd ?r\<rparr>, samples_bytes (fst ?r) @ drop (2 * ?f * as_channels s) bs))"
    unfolding assms(6) [symmetric] run_focus_gain_def by (simp add: Let_def split_beta)
  have g: "snd ?r \<in> {0 .. 1}" unfolding applyFocusGain_final by (rule ramp_range [OF assms(1,4,5)])
  have len: "length (samples_bytes (fst ?r) @ drop (2 * ?f * as_channels s) bs) = length bs"
    by (rule processed_length [OF assms(2,3)]) (simp add: length_applyFocusGain)
  show "length bs' = length bs \<and> same_stream s' s \<and> as_ringBuffer s' = as_ringBuffer s \<and> as_rtCurrentGain s' \<in> {0 .. 1}"
    using res g len assms(5) by (auto simp: same_stream_def focus_view_def split: if_splits)
  show "bs' = bs" if "as_targetGain s = 1 \<and> as_rtCurrentGain s = 1" using res that by simp
  show "bs' = replicate (length bs) 0" if z: "as_targetGain s = 0 \<and> as_rtCurrentGain s = 0" and d: "as_bytesPerFrame s dvd length bs"
  proof -
    have all: "2 * ?f * as_channels s = length bs" using dvd_div_mult_self [OF d] assms(2) by (simp add: mult.commute mult.left_commute)
    then have "length (bytes_samples bs) \<le> ?f * as_channels s" by (simp add: length_bytes_samples)
    from muted_samples [OF assms(1) this] have "samples_bytes (fst ?r) = replicate (2 * length (bytes_samples bs)) 0"
      using z all by (simp add: samples_bytes_zero)
    moreover have "even (length bs)" using all by (metis dvd_triv_left mult.assoc)
    then have "2 * length (bytes_samples bs) = length bs" by (simp add: length_bytes_samples)
    ultimately show ?thesis using res z all by (auto split: if_splits)
  qed
  show "as_rtCurrentGain s' = as_targetGain s" if "1024 * as_bytesPerFrame s \<le> length bs"
  proof -
    have "1024 \<le> ?f" using that assms(2,3) by (simp add: less_eq_div_iff_mult_less_eq)
    then have "snd ?r = as_targetGain s" unfolding applyFocusGain_final by (rule ramp_reaches [OF assms(1,4,5)])
    moreover have "bs \<noteq> []" using that assms(2,3) by auto
    ultimately show ?thesis using res by (auto split: if_splits)
  qed
qed

lemma clamp_to_range: "0 \<le> b \<Longrightarrow> clamp_to b x \<in> {- b .. b}"
  by (auto simp: clamp_to_def)

lemma match_rate_ok:
  assumes "rnd_ok rnd" "match_rate rnd spa r s = (s', rate)"
  shows "same_stream s' s \<and> as_ringBuffer s' = as_ringBuffer s \<and> as_rtCurrentGain s' = as_rtCurrentGain s
    \<and> (\<forall>q. rate = Some q \<longrightarrow> q \<in> {1 - rnd (5 / 1000) .. 1 + rnd (5 / 1000)})"
proof -
  have "0 \<le> rnd (5 / 1000)" using rnd_mono [OF assms(1), of 0 "5 / 1000"] rnd_0_1 [OF assms(1)] by simp
  moreover from this have "snd (rate_correction rnd f i) \<in> {- rnd (5 / 1000) .. rnd (5 / 1000)}" for f i
    using clamp_to_range [OF \<open>0 \<le> rnd (5 / 1000)\<close>] by (simp add: rate_correction_def Let_def)
  ultimately show ?thesis
    using assms(2) by (auto simp: match_rate_def same_stream_def focus_view_def Let_def split_beta split: if_splits)
qed

text \<open>Reading a period from the ring and processing it.\<close>

lemma period_work:
  assumes ok: "spa_ok spa" "rnd_ok rnd" "eq_ok eq" and s: "stream_ok rnd v s" and w: "as_bytesPerFrame s dvd want"
    and r: "ring_read spa want (as_ringBuffer s) = (bs, ring)"
    and e: "run_equalizer eq (s\<lparr>as_ringBuffer := ring, as_underrunCount := u\<rparr>) bs = (s2, bs2)"
    and g: "run_focus_gain rnd s2 bs2 = (s3, bs3)"
    and m: "match_rate rnd spa dr s3 = (s4, rate)"
  shows "stream_ok rnd v s4 \<and> focus_view s4 = focus_view s"
    and "bs = take want (ring_contents (as_ringBuffer s)) \<and> length bs3 = length bs
      \<and> ring_contents (as_ringBuffer s4) = drop want (ring_contents (as_ringBuffer s))"
    and "as_eqEngine s = None \<and> as_targetGain s = 1 \<and> as_rtCurrentGain s = 1 \<Longrightarrow> bs3 = bs"
    and "as_targetGain s = 0 \<and> as_rtCurrentGain s = 0 \<Longrightarrow> bs3 = replicate (length bs) 0"
    and "1024 * as_bytesPerFrame s \<le> length bs \<Longrightarrow> as_rtCurrentGain s4 = as_targetGain s"
    and "rate = Some q \<Longrightarrow> q \<in> {1 - rnd (5 / 1000) .. 1 + rnd (5 / 1000)}"
proof -
  let ?s1 = "s\<lparr>as_ringBuffer := ring, as_underrunCount := u\<rparr>"
  have c: "as_bytesPerFrame s = 2 * as_channels s" "0 < as_channels s" "ring_inv (as_ringBuffer s)" using s by (auto simp: stream_ok_def)
  note rd = ring_read_take [OF ok(1) c(3) r]
  have fill: "as_bytesPerFrame s dvd ring_fill (as_ringBuffer s)" using s unfolding stream_ok_def by blast
  have "length bs = min want (ring_fill (as_ringBuffer s))" using rd by (simp add: min.commute)
  then have whole: "as_bytesPerFrame s dvd length bs" using w fill by (simp add: min_def)
  have "length (ring_contents ring) = ring_fill (as_ringBuffer s) - want" using rd by simp
  then have left: "as_bytesPerFrame s dvd ring_fill ring" using w fill by (simp add: dvd_diff_nat)
  note eq = run_equalizer_ok [OF ok(3) _ _ e]
  have q: "length bs2 = length bs" "same_stream s2 ?s1" "as_ringBuffer s2 = ring" "as_rtCurrentGain s2 = as_rtCurrentGain s"
    "as_eqEngine s = None \<longrightarrow> bs2 = bs" using eq c by simp_all
  then have f2: "as_bytesPerFrame s2 = 2 * as_channels s2" "0 < as_channels s2" "as_targetGain s2 = as_targetGain s"
    "as_bytesPerFrame s2 = as_bytesPerFrame s" "as_targetGain s2 \<in> {0 .. 1}" "as_rtCurrentGain s2 \<in> {0 .. 1}"
    using c s by (simp_all add: same_stream_def focus_view_def stream_ok_def)
  note fg = run_focus_gain_ok [OF ok(2) f2(1,2,5,6) g]
  note mr = match_rate_ok [OF ok(2) m]
  have same: "same_stream s4 s" using q(2) fg(1) mr by (simp add: same_stream_def focus_view_def)
  show "stream_ok rnd v s4 \<and> focus_view s4 = focus_view s"
    using s same fg(1) mr q(3) rd left by (auto simp: stream_ok_def same_stream_def focus_view_def)
  show "bs = take want (ring_contents (as_ringBuffer s)) \<and> length bs3 = length bs
      \<and> ring_contents (as_ringBuffer s4) = drop want (ring_contents (as_ringBuffer s))"
    using rd fg(1) q(1,3) mr by simp
  show "bs3 = bs" if "as_eqEngine s = None \<and> as_targetGain s = 1 \<and> as_rtCurrentGain s = 1" using that fg(2) q f2 by simp
  show "bs3 = replicate (length bs) 0" if "as_targetGain s = 0 \<and> as_rtCurrentGain s = 0" using that fg(3) q f2 whole by simp
  show "as_rtCurrentGain s4 = as_targetGain s" if "1024 * as_bytesPerFrame s \<le> length bs" using that fg(4) q f2 mr by simp
  show "q \<in> {1 - rnd (5 / 1000) .. 1 + rnd (5 / 1000)}" if "rate = Some q" using that mr by blast
qed

lemma fill_keeps:
  assumes "spa_ok spa" "rnd_ok rnd" "eq_ok eq" "stream_ok rnd v s" "fillPlaybackBuffer rnd spa eq s b = (s', b', rate, filled)"
  shows "stream_ok rnd v s' \<and> focus_view s' = focus_view s"
proof -
  define want where "want = (case first_data (b\<lparr>pb_size := 0\<rparr>) of None \<Rightarrow> 0
    | Some d \<Rightarrow> period_frames (as_bytesPerFrame s) (clear_chunk d) (b\<lparr>pb_size := 0\<rparr>) * as_bytesPerFrame s)"
  obtain bs ring where r: "ring_read spa want (as_ringBuffer s) = (bs, ring)" by (cases "ring_read spa want (as_ringBuffer s)")
  let ?u = "if bs = [] then as_underrunCount s + 1 else as_underrunCount s"
  obtain s2 bs2 where e: "run_equalizer eq (s\<lparr>as_ringBuffer := ring, as_underrunCount := ?u\<rparr>) bs = (s2, bs2)"
    by (cases "run_equalizer eq (s\<lparr>as_ringBuffer := ring, as_underrunCount := ?u\<rparr>) bs")
  obtain s3 bs3 where g: "run_focus_gain rnd s2 bs2 = (s3, bs3)" by (cases "run_focus_gain rnd s2 bs2")
  obtain s4 rt where m: "match_rate rnd spa (bs \<noteq> []) s3 = (s4, rt)" by (cases "match_rate rnd spa (bs \<noteq> []) s3")
  have "as_bytesPerFrame s dvd want" by (simp add: want_def split: option.splits)
  note w = period_work(1) [OF assms(1-4) this r e g m]
  have "s' = s \<or> s' = s4"
    using assms(5) r e g m unfolding fillPlaybackBuffer_def want_def
    by (auto simp: Let_def split: option.splits if_splits)
  then show ?thesis using w assms(4) by blast
qed

text \<open>A buffer that PipeWire has mapped, with room for a frame.\<close>

definition usable :: "nat \<Rightarrow> pw_buffer \<Rightarrow> spa_data \<Rightarrow> bytes \<Rightarrow> bool" where
  "usable stride b d mem \<longleftrightarrow> first_data b = Some d \<and> sd_data d = Some mem \<and> sd_chunk d \<noteq> None \<and> length mem = unat (sd_maxsize d)
     \<and> stride \<le> length mem"

lemma period_fits: "0 < stride \<Longrightarrow> period_frames stride d b * stride \<le> unat (sd_maxsize d)"
proof -
  assume "0 < stride"
  have "period_frames stride d b \<le> unat (sd_maxsize d) div stride" by (simp add: period_frames_def Let_def)
  then have "period_frames stride d b * stride \<le> unat (sd_maxsize d) div stride * stride" by (rule mult_le_mono1)
  then show ?thesis using div_times_less_eq_dividend [of "unat (sd_maxsize d)" stride] by linarith
qed

lemma fill_output:
  assumes ok: "spa_ok spa" "rnd_ok rnd" "eq_ok eq" and s: "stream_ok rnd v s" and b: "usable (as_bytesPerFrame s) b d mem"
    and f: "fillPlaybackBuffer rnd spa eq s b = (s', b', rate, filled)"
  defines "want \<equiv> period_frames (as_bytesPerFrame s) d b * as_bytesPerFrame s" and "held \<equiv> ring_contents (as_ringBuffer s)"
  shows "filled \<and> want \<le> length mem \<and> ring_contents (as_ringBuffer s') = drop want held
    \<and> (\<exists>out. first_data b' = Some (d\<lparr>sd_data := Some (out @ drop want mem), sd_chunk := Some (0, of_nat (as_bytesPerFrame s), of_nat want)\<rparr>)
         \<and> length out = want
         \<and> (as_eqEngine s = None \<and> as_targetGain s = 1 \<and> as_rtCurrentGain s = 1
              \<longrightarrow> out = take want held @ replicate (want - length held) 0)
         \<and> (as_targetGain s = 0 \<and> as_rtCurrentGain s = 0 \<longrightarrow> out = replicate want 0))
    \<and> (1024 * as_bytesPerFrame s \<le> min want (length held) \<longrightarrow> as_rtCurrentGain s' = as_targetGain s)
    \<and> (\<forall>q. rate = Some q \<longrightarrow> q \<in> {1 - rnd (5 / 1000) .. 1 + rnd (5 / 1000)})"
proof -
  have pos: "0 < as_bytesPerFrame s" using s by (auto simp: stream_ok_def)
  obtain bs ring where r: "ring_read spa want (as_ringBuffer s) = (bs, ring)" by (cases "ring_read spa want (as_ringBuffer s)")
  let ?u = "if bs = [] then as_underrunCount s + 1 else as_underrunCount s"
  obtain s2 bs2 where e: "run_equalizer eq (s\<lparr>as_ringBuffer := ring, as_underrunCount := ?u\<rparr>) bs = (s2, bs2)"
    by (cases "run_equalizer eq (s\<lparr>as_ringBuffer := ring, as_underrunCount := ?u\<rparr>) bs")
  obtain s3 bs3 where g: "run_focus_gain rnd s2 bs2 = (s3, bs3)" by (cases "run_focus_gain rnd s2 bs2")
  obtain s4 rt where m: "match_rate rnd spa (bs \<noteq> []) s3 = (s4, rt)" by (cases "match_rate rnd spa (bs \<noteq> []) s3")
  have "as_bytesPerFrame s dvd want" by (simp add: want_def)
  note w = period_work [OF ok s this r e g m]
  have le: "want \<le> length mem" using period_fits [OF pos, of d b] b by (simp add: want_def usable_def)
  let ?out = "bs3 @ replicate (want - length bs) 0"
  have bs: "length bs = min want (length held)" using w(2) by (simp add: held_def min.commute)
  then have out: "length ?out = want" using w(2) by simp
  have fd: "first_data (b\<lparr>pb_size := 0\<rparr>) = Some d" using b by (simp add: usable_def first_data_def)
  have "period_frames (as_bytesPerFrame s) (clear_chunk d) (b\<lparr>pb_size := 0\<rparr>) = period_frames (as_bytesPerFrame s) d b"
    by (simp add: period_frames_def clear_chunk_def Let_def)
  then have res: "s' = s4 \<and> rate = rt \<and> filled \<and> b' = (set_first_data (clear_chunk d\<lparr>sd_data := Some (memcpy_at mem 0 ?out),
      sd_chunk := Some (0, of_nat (as_bytesPerFrame s), of_nat want)\<rparr>) (b\<lparr>pb_size := 0\<rparr>))\<lparr>pb_size := of_nat (period_frames (as_bytesPerFrame s) d b)\<rparr>"
    using f fd b pos r e g m unfolding fillPlaybackBuffer_def
    by (auto simp: Let_def usable_def clear_chunk_def want_def split: option.splits prod.splits)
  have "memcpy_at mem 0 ?out = ?out @ drop want mem" using out by (simp add: memcpy_at_def)
  then have "first_data b' = Some (d\<lparr>sd_data := Some (?out @ drop want mem), sd_chunk := Some (0, of_nat (as_bytesPerFrame s), of_nat want)\<rparr>)"
    using res fd by (auto simp: first_data_def set_first_data_def clear_chunk_def split: option.splits list.splits)
  moreover have "?out = take want held @ replicate (want - length held) 0"
    if "as_eqEngine s = None \<and> as_targetGain s = 1 \<and> as_rtCurrentGain s = 1" using w(2,3) that by (simp add: held_def)
  moreover have "?out = replicate want 0" if "as_targetGain s = 0 \<and> as_rtCurrentGain s = 0"
    using w(4) [OF that] bs by (simp flip: replicate_add)
  moreover have "as_rtCurrentGain s' = as_targetGain s" if "1024 * as_bytesPerFrame s \<le> min want (length held)"
    using w(5) that bs res by simp
  ultimately show ?thesis using res le w(2,6) out unfolding held_def by blast
qed

text \<open>
  C23. The size of a playback ring, for any format and buffer time: the search for it ends, and gives
  0 exactly for a sample rate or a number of channels that is not supported. Otherwise the buffer
  time is bounded to between half a second and five seconds, and the size is the least power of
  two that holds it, at most 8 MiB.
\<close>

theorem ring_size_found:
  "\<exists>capacity ms. playbackRingCapacityBytes sampleRate channels bufferMs = Some (capacity, ms)
    \<and> (if sampleRate < 8000 \<or> 384000 < sampleRate \<or> channels < 1 \<or> 2 < channels then capacity = 0
       else ms = max 500 (min 5000 bufferMs) \<and> (\<exists>k \<le> 23. unat capacity = 2 ^ k
         \<and> sampleRate * channels * 2 * ms div 1000 \<le> 2 ^ k \<and> 2 ^ k < 2 * (sampleRate * channels * 2 * ms div 1000)))"
  by (rule ring_size)

section \<open>Every operation\<close>

fun audio_valid :: "('e, 'c) audio_op \<Rightarrow> ('e, 'c) audio_service \<Rightarrow> bool" where
  "audio_valid (AuCreate opts (NewHandle h)) a = (h \<notin> fst ` set (au_streams a))"
| "audio_valid (AuWrite h bs) a = (case map_of (au_streams a) h of Some s \<Rightarrow> as_bytesPerFrame s dvd length bs | None \<Rightarrow> True)"
| "audio_valid _ a = True"

text \<open>Handles are fresh when they are given out, and writers write whole frames.\<close>

inductive audio_reachable :: "rounding \<Rightarrow> spa_ops \<Rightarrow> ('e \<Rightarrow> nat \<Rightarrow> int list \<Rightarrow> 'e \<times> int list) \<Rightarrow> ('e, 'c) audio_service \<Rightarrow> bool"
  for rnd spa eq where
  audio_start: "audio_reachable rnd spa eq (audio_service_new available)"
| audio_op: "audio_reachable rnd spa eq a \<Longrightarrow> audio_valid x a \<Longrightarrow> audio_reachable rnd spa eq (fst (service_step rnd spa eq x a))"

lemma ring_resetDropCount_ok:
  "ring_inv (ring_resetDropCount r) = ring_inv r" "ring_fill (ring_resetDropCount r) = ring_fill r"
  "rb_capacity (ring_resetDropCount r) = rb_capacity r"
  by (simp_all add: ring_resetDropCount_def ring_inv_def ring_fill_def)

lemma stream_ok_ring:
  assumes "stream_ok rnd v s" "ring_inv r" "as_bytesPerFrame s dvd ring_fill r" "rb_capacity r = rb_capacity (as_ringBuffer s)"
  shows "stream_ok rnd v (s\<lparr>as_ringBuffer := r\<rparr>)"
  using assms by (auto simp: stream_ok_def)

lemma write_ok:
  assumes "spa_ok spa" "stream_ok rnd v s" "as_bytesPerFrame s dvd length bs" "ring_write spa bs (as_ringBuffer s) = (n, r)"
  shows "stream_ok rnd v (s\<lparr>as_ringBuffer := r\<rparr>)"
proof -
  have s: "ring_inv (as_ringBuffer s)" "as_bytesPerFrame s dvd ring_fill (as_ringBuffer s)"
    "as_bytesPerFrame s dvd unat (rb_capacity (as_ringBuffer s))" using assms(2) unfolding stream_ok_def by blast+
  note w = ring_write_prefix [OF assms(1) s(1) assms(4)]
  have "as_bytesPerFrame s dvd n" using w s assms(3) by (auto simp: min_def dvd_diff_nat)
  moreover have "length (ring_contents r) = ring_fill (as_ringBuffer s) + n" using w by (simp add: min_def)
  ultimately have "as_bytesPerFrame s dvd ring_fill r" using s(2) by simp
  then show ?thesis using w by (intro stream_ok_ring [OF assms(2)]) auto
qed

lemma make_stream_ok:
  assumes "spa_ok spa" "channels \<in> {1, 2}" "capacity \<noteq> 0" "playbackRingCapacityBytes (po_sampleRate opts) channels (po_bufferMs opts) = Some (capacity, ms)"
  shows "stream_ok rnd v (make_stream rnd spa opts channels capacity ms v)"
proof -
  have sup: "\<not> (po_sampleRate opts < 8000 \<or> 384000 < po_sampleRate opts \<or> channels < 1 \<or> 2 < channels)"
    using ring_size [of "po_sampleRate opts" channels "po_bufferMs opts"] assms(3,4) by (auto split: if_splits)
  from ring_size [of "po_sampleRate opts" channels "po_bufferMs opts", unfolded assms(4) if_not_P [OF sup]] obtain c m k where
    *: "Some (capacity, ms) = Some (c, m)" "m = max 500 (min 5000 (po_bufferMs opts))" "k \<le> 23" "unat c = 2 ^ k"
      "po_sampleRate opts * channels * 2 * m div 1000 \<le> 2 ^ k" by blast
  then have k: "k \<le> 23" "unat capacity = 2 ^ k" "po_sampleRate opts * channels * 2 * ms div 1000 \<le> 2 ^ k" "500 \<le> ms"
    by (simp_all only: prod.inject option.inject)
  have "8000 * 1 \<le> po_sampleRate opts * channels" using sup by (intro mult_mono) auto
  then have "(8000 * 1 * 2) * 500 \<le> po_sampleRate opts * channels * 2 * ms"
    using k(4) by (intro mult_mono [of "8000 * 1 * 2"]) (auto simp: mult.commute)
  then have "(2 :: int) ^ 2 \<le> 2 ^ k" using k(3) by simp
  then have "2 \<le> k" by (simp only: power_increasing_iff)
  then have "2 ^ 2 dvd unat capacity" unfolding k(2) by (rule le_imp_power_dvd)
  then have "2 * nat channels dvd unat capacity" using assms(2) by (auto intro: dvd_trans [of 2 4])
  moreover have "unat capacity \<in> set (map (\<lambda>k. 2 ^ k) [0..<31])" using k(1,2) by auto
  note new = ring_inv_new [OF assms(1) this]
  moreover have "ring_fill (ring_new spa capacity) = 0" using new(2) length_ring_contents [of "ring_new spa capacity"] by simp
  moreover have "rb_capacity (ring_new spa capacity) = capacity" by (simp add: ring_new_def)
  ultimately show ?thesis using assms(2) by (auto simp: stream_ok_def make_stream_def)
qed

lemma audio_ok_streams:
  "au_streams a' = au_streams a \<Longrightarrow> au_masterVolume a' = au_masterVolume a \<Longrightarrow> au_focusSeqCounter a' = au_focusSeqCounter a
    \<Longrightarrow> audio_ok rnd a' = audio_ok rnd a"
  by (simp add: audio_ok_def)

lemma stream_in: "audio_ok rnd a \<Longrightarrow> map_of (au_streams a) h = Some s \<Longrightarrow> stream_ok rnd (au_masterVolume a) s"
  by (fastforce simp: audio_ok_def dest: map_of_SomeD)

lemma map_of_in: "audio_ok rnd a \<Longrightarrow> (h, s) \<in> set (au_streams a) \<Longrightarrow> map_of (au_streams a) h = Some s"
  by (auto simp: audio_ok_def focus_ok_def)

text \<open>An operation on one stream that leaves the focus alone.\<close>

lemma on_stream_ok:
  assumes "audio_ok rnd a"
    and "\<And>s. map_of (au_streams a) h = Some s \<Longrightarrow> stream_ok rnd (au_masterVolume a) s
      \<Longrightarrow> stream_ok rnd (au_masterVolume a) (f s) \<and> focus_view (f s) = focus_view s"
  shows "audio_ok rnd (on_stream h f a)"
  unfolding on_stream_change by (rule change_streams_ok [OF assms(1)]) (use assms map_of_in [OF assms(1)] in \<open>auto simp: stream_in\<close>)

lemma focus_ok_snoc:
  "focus_ok n ss \<Longrightarrow> h \<notin> fst ` set ss \<Longrightarrow> \<not> as_hasFocus s \<Longrightarrow> as_focusSequence s \<le> n \<Longrightarrow> focus_ok n (ss @ [(h, s)])"
  by (simp add: focus_ok_def)

lemma stream_ok_focus [simp]:
  "stream_ok rnd v (s\<lparr>as_hasFocus := b\<rparr>) = stream_ok rnd v s" "stream_ok rnd v (s\<lparr>as_focusType := ty\<rparr>) = stream_ok rnd v s"
  "stream_ok rnd v (s\<lparr>as_focusSequence := n\<rparr>) = stream_ok rnd v s"
  by (simp_all add: stream_ok_def)

lemma create_ok:
  assumes "spa_ok spa" "audio_ok rnd a" "audio_valid (AuCreate opts outcome) a"
  shows "audio_ok rnd (fst (fst (createStreamWithOptions rnd spa opts outcome a)))"
proof -
  have c: "qBound_int 1 (po_channels opts) 2 \<in> {1, 2}" by (auto simp: qBound_int_def)
  have new: "audio_ok rnd (a\<lparr>au_streams := au_streams a @ [(h, make_stream rnd spa opts (qBound_int 1 (po_channels opts) 2) capacity ms (au_masterVolume a))]\<rparr>)"
    if h: "h \<notin> fst ` set (au_streams a)" and cap: "capacity \<noteq> 0"
      "playbackRingCapacityBytes (po_sampleRate opts) (qBound_int 1 (po_channels opts) 2) (po_bufferMs opts) = Some (capacity, ms)" for h capacity ms
  proof -
    let ?s = "make_stream rnd spa opts (qBound_int 1 (po_channels opts) 2) capacity ms (au_masterVolume a)"
    have f: "\<not> as_hasFocus ?s" "as_focusSequence ?s = 0" "as_targetGain ?s = 1" by (simp_all add: make_stream_def)
    have "selectDominant acc (ss @ [(h, ?s)]) = selectDominant acc ss" for acc ss
      using f(1) by (induction ss arbitrary: acc) simp_all
    then have "arbitrated rnd (au_streams a @ [(h, ?s)])" using assms(2) f by (auto simp: audio_ok_def arbitrated_def)
    moreover have "focus_ok (au_focusSeqCounter a) (au_streams a @ [(h, ?s)])"
      using assms(2) f h by (intro focus_ok_snoc) (auto simp: audio_ok_def)
    moreover note make_stream_ok [OF assms(1) c cap, of rnd "au_masterVolume a"]
    ultimately show ?thesis using assms(2) by (auto simp: audio_ok_def)
  qed
  show ?thesis
    using assms(2,3) new
    by (auto simp: createStreamWithOptions_def Let_def split: option.splits create_outcome.splits prod.splits)
qed

lemma focus_ok_filter: "focus_ok n ss \<Longrightarrow> focus_ok n (filter P ss)"
  by (auto simp: focus_ok_def intro: distinct_map_filter)

lemma request_focus_ok:
  assumes "rnd_ok rnd" "audio_ok rnd a"
  shows "audio_ok rnd (requestAudioFocus rnd h ty a)"
  unfolding requestAudioFocus_def Let_def
proof (rule applyDucking_ok [OF assms(1)])
  let ?n = "Suc (au_focusSeqCounter a)"
  let ?f = "\<lambda>s :: 'a audio_stream. s\<lparr>as_hasFocus := True, as_focusType := ty, as_focusSequence := ?n\<rparr>"
  show "\<forall>x \<in> set (au_streams (on_stream h ?f (a\<lparr>au_focusSeqCounter := ?n\<rparr>))).
    stream_ok rnd (au_masterVolume (on_stream h ?f (a\<lparr>au_focusSeqCounter := ?n\<rparr>))) (snd x)"
    using assms(2) by (fastforce simp: on_stream_def audio_ok_def)
  have "\<forall>x \<in> set (au_streams a). as_focusSequence (snd x) < ?n" using assms(2) by (auto simp: audio_ok_def focus_ok_def less_Suc_eq_le)
  then show "focus_ok (au_focusSeqCounter (on_stream h ?f (a\<lparr>au_focusSeqCounter := ?n\<rparr>))) (au_streams (on_stream h ?f (a\<lparr>au_focusSeqCounter := ?n\<rparr>)))"
    using assms(2) unfolding on_stream_def audio_ok_def
    by (simp, elim conjE, intro focus_ok_change [of "au_focusSeqCounter a"]) (fastforce simp: focus_ok_def split: if_splits)+
qed

lemma release_focus_ok:
  assumes "rnd_ok rnd" "audio_ok rnd a"
  shows "audio_ok rnd (releaseAudioFocus rnd h a)"
  unfolding releaseAudioFocus_def
proof (rule applyDucking_ok [OF assms(1)])
  let ?a = "on_stream h (\<lambda>s. s\<lparr>as_hasFocus := False\<rparr>) a"
  show "\<forall>x \<in> set (au_streams ?a). stream_ok rnd (au_masterVolume ?a) (snd x)"
    using assms(2) by (fastforce simp: on_stream_def audio_ok_def)
  show "focus_ok (au_focusSeqCounter ?a) (au_streams ?a)"
    using assms(2) unfolding on_stream_def audio_ok_def
    by (simp, elim conjE, intro focus_ok_change [of "au_focusSeqCounter a"]) (fastforce simp: focus_ok_def split: if_splits)+
qed

lemma volume_ok:
  assumes ok: "audio_ok rnd a" and av: "au_available a \<or> au_streams a = []"
  shows "audio_ok rnd (fst (setMasterVolume rnd v a))"
proof -
  let ?g = "\<lambda>h s. s\<lparr>as_channelVolume := cubicVolume rnd (qBound_int 0 v 100)\<rparr>"
  have "focus_ok (au_focusSeqCounter a) (map (\<lambda>(h, s). (h, ?g h s)) (au_streams a))" "arbitrated rnd (map (\<lambda>(h, s). (h, ?g h s)) (au_streams a))"
    using ok focus_ok_map [of "au_focusSeqCounter a" "au_streams a" ?g] arbitrated_map [of rnd "au_streams a" ?g]
    by (simp_all add: audio_ok_def focus_view_def)
  moreover have "stream_ok rnd (qBound_int 0 v 100) (?g h s)" if "(h, s) \<in> set (au_streams a)" for h s
    using ok that by (auto simp: audio_ok_def stream_ok_def)
  ultimately show ?thesis using av ok by (auto simp: audio_ok_def setMasterVolume_def Let_def)
qed

lemma service_step_ok:
  assumes ok: "spa_ok spa" "rnd_ok rnd" "eq_ok eq" "audio_ok rnd a" "audio_valid x a" and av: "au_available a \<or> au_streams a = []"
  shows "audio_ok rnd (fst (service_step rnd spa eq x a))"
proof (cases x)
  case (AuCreate opts outcome)
  with create_ok [OF ok(1,4)] ok(5) show ?thesis by simp
next
  case (AuDestroy h)
  have "audio_ok rnd (applyDucking rnd (a\<lparr>au_streams := filter (\<lambda>(k, s). k \<noteq> h) (au_streams a)\<rparr>))"
    using ok(4) focus_ok_filter by (intro applyDucking_ok [OF ok(2)]) (auto simp: audio_ok_def)
  with AuDestroy show ?thesis by (simp add: destroyStream_def)
next
  case (AuWrite h bs)
  with ok show ?thesis
    by (auto simp: writeAudio_def focus_view_def write_ok split: option.splits prod.splits intro!: on_stream_ok)
next
  case (AuVolume v)
  then show ?thesis using volume_ok [OF ok(4) av] by simp
next
  case (AuRequestFocus h ty)
  with request_focus_ok [OF ok(2,4)] show ?thesis by simp
next
  case (AuReleaseFocus h)
  with release_focus_ok [OF ok(2,4)] show ?thesis by simp
next
  case (AuResetRing h)
  have "stream_ok rnd v (s\<lparr>as_ringBuffer := ring_drain spa (as_ringBuffer s)\<rparr>)" if "stream_ok rnd v s" for v and s :: "'a audio_stream"
  proof -
    have "ring_inv (as_ringBuffer s)" using that by (simp add: stream_ok_def)
    note d = ring_drain_empties [OF ok(1) this]
    then have "ring_fill (ring_drain spa (as_ringBuffer s)) = 0" by (metis length_ring_contents list.size(3))
    then show ?thesis using d by (intro stream_ok_ring [OF that]) auto
  qed
  with AuResetRing ok(4) show ?thesis by (simp add: resetStreamRing_def focus_view_def on_stream_ok)
next
  case (AuPeriod h buf)
  with ok fill_keeps [OF ok(1-3)] show ?thesis
    by (auto simp: onPlaybackProcess_def split: option.splits prod.splits intro!: on_stream_ok)
next
  case (AuEngine h e)
  with ok(4) show ?thesis by (auto simp: focus_view_def stream_ok_def intro!: on_stream_ok)
next
  case AuDiagnostics
  have "audio_ok rnd (change_streams (\<lambda>h s. s\<lparr>as_underrunCount := 0, as_ringBuffer := ring_resetDropCount (as_ringBuffer s)\<rparr>) a)"
    by (rule change_streams_ok [OF ok(4)]) (auto simp: stream_ok_def ring_resetDropCount_ok focus_view_def)
  with AuDiagnostics show ?thesis by (simp add: reportAudioDiagnostics_def change_streams_def)
next
  case (AuOpenCapture opts outcome)
  then show ?thesis using ok(4)
    by (auto simp: openCaptureStreamWithOptions_def audio_ok_def split: create_outcome.splits)
qed (use ok(4) in \<open>auto simp: audio_ok_def setOutputDevice_def setInputDevice_def closeCaptureStreamHandle_def setCaptureCallback_def\<close>)

lemma service_step_available: "au_available (fst (service_step rnd spa eq x a)) = au_available a"
  by (cases x) (auto simp: createStreamWithOptions_def destroyStream_def writeAudio_def setMasterVolume_def requestAudioFocus_def
    releaseAudioFocus_def applyDucking_def on_stream_def setOutputDevice_def setInputDevice_def resetStreamRing_def onPlaybackProcess_def
    reportAudioDiagnostics_def openCaptureStreamWithOptions_def closeCaptureStreamHandle_def setCaptureCallback_def Let_def
    split: option.splits prod.splits create_outcome.splits)

lemma service_step_unavailable: "\<not> au_available a \<Longrightarrow> au_streams a = [] \<Longrightarrow> au_streams (fst (service_step rnd spa eq x a)) = []"
  by (cases x) (auto simp: createStreamWithOptions_def destroyStream_def writeAudio_def setMasterVolume_def requestAudioFocus_def
    releaseAudioFocus_def applyDucking_def on_stream_def setOutputDevice_def setInputDevice_def resetStreamRing_def onPlaybackProcess_def
    reportAudioDiagnostics_def openCaptureStreamWithOptions_def closeCaptureStreamHandle_def setCaptureCallback_def Let_def
    split: option.splits prod.splits create_outcome.splits)

lemma audio_reachable_ok:
  assumes "audio_reachable rnd spa eq a" "spa_ok spa" "rnd_ok rnd" "eq_ok eq"
  shows "audio_ok rnd a \<and> (au_available a \<or> au_streams a = [])"
  using assms(1)
proof induction
  case (audio_start available)
  then show ?case by (simp add: audio_ok_def audio_service_new_def focus_ok_def arbitrated_def)
next
  case (audio_op a x)
  then show ?case using service_step_ok [OF assms(2-4)] service_step_available service_step_unavailable by metis
qed

text \<open>What follows for the focus.\<close>

lemma dominant_heard:
  assumes "audio_ok rnd a" "selectDominant None (au_streams a) = Some d"
  shows "as_targetGain (snd d) = 1" "d \<in> set (au_streams a)" "as_hasFocus (snd d)"
    "x \<in> set (au_streams a) \<Longrightarrow> as_hasFocus (snd x) \<Longrightarrow> outranks (snd d) (snd x)"
proof -
  show d: "d \<in> set (au_streams a)" "as_hasFocus (snd d)"
    and "x \<in> set (au_streams a) \<Longrightarrow> as_hasFocus (snd x) \<Longrightarrow> outranks (snd d) (snd x)"
    using selectDominant_Some [OF assms(2)] by auto
  have "as_baseVolume (snd d) = 1" using assms(1) d(1) by (auto simp: audio_ok_def stream_ok_def)
  then show "as_targetGain (snd d) = 1" using assms d by (fastforce simp: audio_ok_def arbitrated_def ducked_gain_def)
qed

lemma unfocused_heard:
  assumes "audio_ok rnd a" "\<forall>x \<in> set (au_streams a). \<not> as_hasFocus (snd x)" "x \<in> set (au_streams a)"
  shows "as_targetGain (snd x) = 1"
proof -
  have "selectDominant None (au_streams a) = None" using assms(2) by (simp add: selectDominant_None)
  then show ?thesis using assms(1,3) by (auto simp: audio_ok_def arbitrated_def ducked_gain_def stream_ok_def)
qed


section \<open>An example\<close>

lemma rnd_ok_exact: "rnd_ok (\<lambda>x. x)"
  by (simp add: rnd_ok_def mono_def)

definition example_eq :: "unit \<Rightarrow> nat \<Rightarrow> int list \<Rightarrow> unit \<times> int list" where
  "example_eq e n xs = (e, xs)"

definition example_options :: "unit playback_options" where
  "example_options = \<lparr>po_name = ''Media'', po_priority = 50, po_sampleRate = 8000, po_channels = 1, po_targetDevice = ''auto'',
     po_bufferMs = 50, po_eqEngine = None, po_startInactive = False, po_disableRateMatching = True, po_onStreamError = False\<rparr>"

definition example_stream :: "unit audio_stream" where
  "example_stream = make_stream (\<lambda>x. x) plain_spa example_options 1 8192 500 80"

definition example_created :: "(unit, unit) audio_service" where
  "example_created = fst (service_step (\<lambda>x. x) plain_spa example_eq (AuCreate example_options (NewHandle 7)) (audio_service_new True))"

definition example_audio :: "(unit, unit) audio_service" where
  "example_audio = fst (service_step (\<lambda>x. x) plain_spa example_eq (AuWrite 7 [1, 2, 3, 4]) example_created)"

definition example_data :: spa_data where
  "example_data = \<lparr>sd_data = Some (replicate 10 9), sd_maxsize = 10, sd_chunk = Some (0, 0, 0)\<rparr>"

definition example_buffer :: pw_buffer where
  "example_buffer = \<lparr>pb_size = 0, pb_requested = 4, pb_datas = Some [example_data]\<rparr>"

lemma example_created_streams: "au_streams example_created = [(7, example_stream)]"
proof -
  have "playbackRingCapacityBytes 8000 1 50 = Some (8192, 500)" by code_simp
  then show ?thesis
    by (simp add: example_created_def example_stream_def createStreamWithOptions_def audio_service_new_def example_options_def qBound_int_def)
qed

lemma example_stream_ok: "stream_ok (\<lambda>x. x) 80 example_stream"
  unfolding example_stream_def
  by (rule make_stream_ok [OF spa_ok_plain]) (simp_all add: example_options_def, code_simp)

lemma example_reachable: "audio_reachable (\<lambda>x. x) plain_spa example_eq example_audio"
  unfolding example_audio_def
proof (rule audio_op)
  show "audio_reachable (\<lambda>x. x) plain_spa example_eq example_created"
    unfolding example_created_def by (rule audio_op [OF audio_start]) (simp add: audio_service_new_def)
  show "audio_valid (AuWrite 7 [1, 2, 3, 4]) example_created"
    by (simp add: example_created_streams example_stream_def make_stream_def)
qed

lemma example_audio_stream:
  "\<exists>s. map_of (au_streams example_audio) 7 = Some s \<and> ring_contents (as_ringBuffer s) = [1, 2, 3, 4] \<and> as_bytesPerFrame s = 2
    \<and> as_eqEngine s = None \<and> as_targetGain s = 1 \<and> as_rtCurrentGain s = 1"
proof -
  obtain n r where w: "ring_write plain_spa [1, 2, 3, 4] (as_ringBuffer example_stream) = (n, r)" by fastforce
  have ring: "as_ringBuffer example_stream = ring_new plain_spa 8192" by (simp add: example_stream_def make_stream_def)
  have "ring_inv (as_ringBuffer example_stream)" using example_stream_ok by (simp add: stream_ok_def)
  note p = ring_write_prefix [OF spa_ok_plain this w]
  have "unat (8192 :: u32) \<in> set (map (\<lambda>k. 2 ^ k) [0..<31])"
    unfolding set_map set_upt by (rule image_eqI [of _ _ 13]) simp_all
  then have e: "ring_contents (ring_new plain_spa 8192) = []" by (rule ring_inv_new [OF spa_ok_plain])
  then have "ring_fill (ring_new plain_spa 8192) = 0" by (metis length_ring_contents list.size(3))
  then have "ring_contents r = [1, 2, 3, 4]" using p e by (simp add: ring ring_new_def)
  then show ?thesis using w
    by (simp add: example_audio_def writeAudio_def example_created_streams on_stream_def) (simp add: example_stream_def make_stream_def example_options_def)
qed


end
