(* ===== verification/Projection_Audio.thy ===== *)
theory Projection_Audio
  imports Orchestrator_Invariant Audio_Playback
begin

text \<open>
  The orchestrator with the audio service: what it does to its streams is carried out by the
  service, beside the streams of other clients (the local player, Bluetooth audio).  The phone's
  streams hold the focus exactly while the phone plays on them, and the service lets the
  dominant stream be heard.
\<close>

section \<open>The calls of the orchestrator\<close>

text \<open>The streams a session opens; \<open>bufferMs\<close> is the configured buffer time of a role.\<close>

definition role_priority :: "audio_role \<Rightarrow> int" where
  "role_priority r = (case r of RMedia \<Rightarrow> 50 | RSpeech \<Rightarrow> 60 | RSystem \<Rightarrow> 40)"

definition role_options :: "(audio_role \<Rightarrow> int) \<Rightarrow> audio_role \<Rightarrow> 'e option \<Rightarrow> 'e playback_options" where
  "role_options bufferMs r eng = \<lparr>
     po_name = (case r of RMedia \<Rightarrow> ''AA Media'' | RSpeech \<Rightarrow> ''AA Speech'' | RSystem \<Rightarrow> ''AA System''),
     po_priority = role_priority r,
     po_sampleRate = (case r of RSystem \<Rightarrow> 16000 | _ \<Rightarrow> 48000),
     po_channels = (case r of RMedia \<Rightarrow> 2 | _ \<Rightarrow> 1),
     po_targetDevice = ''auto'', po_bufferMs = bufferMs r, po_eqEngine = eng,
     po_startInactive = False, po_disableRateMatching = False, po_onStreamError = False\<rparr>"

record 'e audio_env =
  ae_rnd :: rounding
  ae_spa :: spa_ops
  ae_eq :: "'e \<Rightarrow> nat \<Rightarrow> int list \<Rightarrow> 'e \<times> int list"
  ae_bufferMs :: "audio_role \<Rightarrow> int"
  ae_engine :: "nat \<Rightarrow> 'e"

abbreviation audio_do :: "'e audio_env \<Rightarrow> ('e, 'c) audio_op \<Rightarrow> ('e, 'c) audio_service \<Rightarrow> ('e, 'c) audio_service" where
  "audio_do env x a \<equiv> fst (service_step (ae_rnd env) (ae_spa env) (ae_eq env) x a)"

fun apply_event :: "'e audio_env \<Rightarrow> 'f orc_event \<Rightarrow> ('e, 'c) audio_service \<Rightarrow> ('e, 'c) audio_service" where
  "apply_event env (EvStreamCreated r h eng) a
     = audio_do env (AuCreate (role_options (ae_bufferMs env) r (map_option (ae_engine env) eng)) (NewHandle h)) a"
| "apply_event env (EvStreamDestroyed h) a = audio_do env (AuDestroy h) a"
| "apply_event env (EvFocusRequested h ty) a = audio_do env (AuRequestFocus h ty) a"
| "apply_event env (EvFocusReleased h) a = audio_do env (AuReleaseFocus h) a"
| "apply_event env EvAudioServiceGone a = fst (destroy_service a)"
| "apply_event env ev a = a"

definition feed :: "'e audio_env \<Rightarrow> 'f orc_event list \<Rightarrow> ('e, 'c) audio_service \<Rightarrow> ('e, 'c) audio_service" where
  "feed env es a = fold (apply_event env) es a"

text \<open>An operation of the orchestrator, or one of another client on streams of its own.\<close>

datatype ('e, 'c) projection_op = PrOrchestrator orc_op | PrClient "('e, 'c) audio_op"

definition orc_handles :: "('c, 'x, 'p, 'f) orchestrator \<Rightarrow> nat set" where
  "orc_handles s = {h. \<exists>r. oc_stream s r = Some h}"

fun touches :: "('e, 'c) audio_op \<Rightarrow> nat option" where
  "touches (AuDestroy h) = Some h"
| "touches (AuRequestFocus h ty) = Some h"
| "touches (AuReleaseFocus h) = Some h"
| "touches _ = None"

text \<open>
  Handles are fresh: a new stream of the orchestrator may take the place of one that it gives
  back in the same operation.
\<close>

fun projection_valid :: "('e, 'k) projection_op \<Rightarrow> ('c, 'x, 'p, 'f) orchestrator \<times> ('e, 'k) audio_service \<Rightarrow> bool" where
  "projection_valid (PrOrchestrator (OrcNewConnection pending peer handles engines)) (s, a) =
     (\<forall>r h. handles r = Some h \<longrightarrow> au_available a \<and> h \<notin> fst ` set (au_streams a) - orc_handles s
        \<and> (\<forall>r'. handles r' = Some h \<longrightarrow> r' = r))"
| "projection_valid (PrOrchestrator op) (s, a) = True"
| "projection_valid (PrClient x) (s, a) = (audio_valid x a \<and> (\<forall>h. touches x = Some h \<longrightarrow> h \<notin> orc_handles s))"

fun projection_step :: "('c, 'x, 'p, 'f) orc_env \<Rightarrow> 'e audio_env \<Rightarrow> ('e, 'k) projection_op
    \<Rightarrow> ('c, 'x, 'p, 'f) orchestrator \<times> ('e, 'k) audio_service \<Rightarrow> ('c, 'x, 'p, 'f) orchestrator \<times> ('e, 'k) audio_service" where
  "projection_step oenv env (PrOrchestrator op) (s, a) = (let (s', es) = orc_step oenv op s in (s', feed env es a))"
| "projection_step oenv env (PrClient x) (s, a) = (s, audio_do env x a)"

section \<open>The service keeps what a client does not touch\<close>

definition audio_env_ok :: "'e audio_env \<Rightarrow> bool" where
  "audio_env_ok env \<longleftrightarrow> spa_ok (ae_spa env) \<and> rnd_ok (ae_rnd env) \<and> eq_ok (ae_eq env)"

definition live :: "'e audio_env \<Rightarrow> ('e, 'c) audio_service \<Rightarrow> bool" where
  "live env a \<longleftrightarrow> audio_ok (ae_rnd env) a \<and> (au_available a \<or> au_streams a = [])"

lemma live_step: "audio_env_ok env \<Longrightarrow> live env a \<Longrightarrow> audio_valid x a \<Longrightarrow> live env (audio_do env x a)"
  unfolding live_def audio_env_ok_def using service_step_ok service_step_available service_step_unavailable by metis

lemma live_off: "live env (audio_service_new b)"
  by (simp add: live_def audio_ok_def audio_service_new_def focus_ok_def arbitrated_def)

lemma live_destroyed: "live env a \<Longrightarrow> live env (fst (destroy_service a))"
  by (auto simp: live_def audio_ok_def destroy_service_def focus_ok_def arbitrated_def)

text \<open>The focus and the priority of a stream, if there is one.\<close>

definition holder :: "('e, 'c) audio_service \<Rightarrow> nat \<Rightarrow> (bool \<times> int) option" where
  "holder a h = map_option (\<lambda>t. (as_hasFocus t, as_priority t)) (map_of (au_streams a) h)"

lemma map_of_map_snd: "map_of (map (\<lambda>(k, s). (k, f k s)) ss) h = map_option (f h) (map_of ss h)"
  by (induction ss) auto

lemma holder_change: "holder (change_streams f a) h = map_option (\<lambda>t. (as_hasFocus (f h t), as_priority (f h t))) (map_of (au_streams a) h)"
  by (simp add: holder_def change_streams_def map_of_map_snd option.map_comp comp_def)

lemma holder_keep:
  "(\<And>t. as_hasFocus (f h t) = as_hasFocus t \<and> as_priority (f h t) = as_priority t) \<Longrightarrow> holder (change_streams f a) h = holder a h"
  by (simp add: holder_change) (simp add: holder_def)

lemma holder_other [simp]:
  "holder (a\<lparr>au_captures := c\<rparr>) = holder a" "holder (a\<lparr>au_outputDevice := d\<rparr>) = holder a" "holder (a\<lparr>au_inputDevice := d\<rparr>) = holder a"
  by (simp_all add: holder_def fun_eq_iff)

lemma holder_ducking: "holder (applyDucking rnd a) = holder a"
  by (simp add: fun_eq_iff holder_def applyDucking_streams map_of_map_snd option.map_comp comp_def)

lemma holder_focus:
  "holder (requestAudioFocus rnd h ty a) k = (if k = h then map_option (\<lambda>x. (True, snd x)) (holder a k) else holder a k)"
  "holder (releaseAudioFocus rnd h a) k = (if k = h then map_option (\<lambda>x. (False, snd x)) (holder a k) else holder a k)"
  unfolding requestAudioFocus_def releaseAudioFocus_def Let_def holder_ducking on_stream_change holder_change
  by (simp_all add: holder_def option.map_comp comp_def)

lemma holder_destroy: "holder (fst (destroyStream rnd h a)) k = (if k = h then None else holder a k)"
  unfolding destroyStream_def fst_conv holder_ducking by (simp add: holder_def map_of_filter_key)

lemma holder_create:
  "h \<notin> fst ` set (au_streams a) \<Longrightarrow> k \<noteq> h \<Longrightarrow> holder (fst (fst (createStreamWithOptions rnd spa opts (NewHandle h) a))) k = holder a k"
  by (auto simp: holder_def createStreamWithOptions_def Let_def map_add_def split: option.splits prod.splits)

lemma holder_created:
  assumes "au_available a" "h \<notin> fst ` set (au_streams a)" "8000 \<le> po_sampleRate opts" "po_sampleRate opts \<le> 384000"
  shows "holder (fst (fst (createStreamWithOptions rnd spa opts (NewHandle h) a))) h = Some (False, po_priority opts)"
proof -
  let ?c = "qBound_int 1 (po_channels opts) 2"
  have c: "?c \<in> {1, 2}" by (auto simp: qBound_int_def)
  obtain capacity ms k where p: "playbackRingCapacityBytes (po_sampleRate opts) ?c (po_bufferMs opts) = Some (capacity, ms)"
    and k: "unat capacity = 2 ^ k"
    using ring_size [of "po_sampleRate opts" ?c "po_bufferMs opts"] assms(3,4) c by (auto split: if_splits)
  then have "capacity \<noteq> 0" by auto
  moreover have "map_of (au_streams a) h = None" using assms(2) by (simp add: map_of_eq_None_iff)
  ultimately show ?thesis
    using assms(1) p by (simp add: createStreamWithOptions_def Let_def holder_def map_add_def make_stream_def)
qed

lemma holder_client:
  assumes "audio_ok rnd a" "audio_valid x a" "touches x \<noteq> Some h" "holder a h \<noteq> None" "spa_ok spa" "rnd_ok rnd" "eq_ok eq"
  shows "holder (fst (service_step rnd spa eq x a)) h = holder a h"
proof (cases x)
  case (AuCreate opts outcome)
  show ?thesis
  proof (cases outcome)
    case (NewHandle k)
    have "h \<in> fst ` set (au_streams a)" using assms(4) by (auto simp: holder_def map_of_eq_None_iff)
    moreover have "k \<notin> fst ` set (au_streams a)" using AuCreate NewHandle assms(2) by simp
    ultimately have "h \<noteq> k" by blast
    then show ?thesis using AuCreate NewHandle holder_create [OF \<open>k \<notin> fst ` set (au_streams a)\<close>] by simp
  qed (auto simp: AuCreate createStreamWithOptions_def Let_def split: option.splits prod.splits)
next
  case (AuPeriod k buf)
  show ?thesis
  proof (cases "map_of (au_streams a) k")
    case (Some s)
    note keep = fill_keeps [OF assms(5-7) stream_in [OF assms(1) Some]]
    show ?thesis
    proof (cases buf)
      case (Some b)
      obtain s' b' rate filled where f: "fillPlaybackBuffer rnd spa eq s b = (s', b', rate, filled)" by (metis prod_cases4)
      then have "focus_view s' = focus_view s" using keep by blast
      then show ?thesis
        using AuPeriod Some f \<open>map_of (au_streams a) k = Some s\<close>
        by (cases "h = k") (simp_all add: onPlaybackProcess_def on_stream_change holder_change, simp_all add: holder_def focus_view_def)
    qed (simp add: AuPeriod onPlaybackProcess_def split: option.splits)
  qed (simp add: AuPeriod onPlaybackProcess_def)
next
  case (AuDestroy k)
  then show ?thesis using assms(3) by (auto simp: holder_destroy)
next
  case (AuVolume v)
  then show ?thesis by (auto simp: setMasterVolume_def holder_def map_of_map_snd option.map_comp comp_def Let_def)
next
  case AuDiagnostics
  then show ?thesis by (simp add: reportAudioDiagnostics_def holder_def map_of_map_snd option.map_comp comp_def)
next
  case (AuWrite k bs)
  then show ?thesis by (auto simp: writeAudio_def on_stream_change holder_keep split: option.splits prod.splits)
qed (use assms(3) in \<open>auto simp: holder_focus on_stream_change holder_keep resetStreamRing_def setOutputDevice_def setInputDevice_def
    openCaptureStreamWithOptions_def closeCaptureStreamHandle_def setCaptureCallback_def split: create_outcome.splits\<close>)

section \<open>The orchestrator's streams in the service\<close>

definition linked :: "'e audio_env \<Rightarrow> ('c, 'x, 'p, 'f) orchestrator \<Rightarrow> ('e, 'k) audio_service \<Rightarrow> bool" where
  "linked env s a \<longleftrightarrow> live env a \<and> (\<forall>r r' h. oc_stream s r = Some h \<and> oc_stream s r' = Some h \<longrightarrow> r' = r)
     \<and> (\<forall>r h. oc_stream s r = Some h \<longrightarrow> holder a h = Some (oc_streamActive s r, role_priority r))"

abbreviation linked_result :: "'e audio_env \<Rightarrow> ('c, 'x, 'p, 'f) orc_result \<Rightarrow> ('e, 'k) audio_service \<Rightarrow> bool" where
  "linked_result env r a \<equiv> linked env (fst r) (feed env (snd r) a)"

lemma feed_simps [simp]: "feed env [] a = a" "feed env (e # es) a = feed env es (apply_event env e a)"
  "feed env (es @ es') a = feed env es' (feed env es a)"
  by (simp_all add: feed_def)

lemma linked_chain: "linked_result env (f (fst r)) (feed env (snd r) a) \<Longrightarrow> linked_result env (chain r f) a"
  by (simp add: chain_snd)

text \<open>Operations that leave streams and focus alone.\<close>

fun mute_event :: "'f orc_event \<Rightarrow> bool" where
  "mute_event (EvStreamCreated r k e) = False"
| "mute_event (EvStreamDestroyed k) = False"
| "mute_event (EvFocusRequested k ty) = False"
| "mute_event (EvFocusReleased k) = False"
| "mute_event EvAudioServiceGone = False"
| "mute_event ev = True"

lemma feed_mute: "list_all mute_event es \<Longrightarrow> feed env es a = a"
proof (induction es arbitrary: a)
  case (Cons e es)
  then show ?case by (cases e) simp_all
qed simp

definition mute :: "('c, 'x, 'p, 'f) orchestrator \<Rightarrow> ('c, 'x, 'p, 'f) orc_result \<Rightarrow> bool" where
  "mute s r \<longleftrightarrow> list_all mute_event (snd r) \<and> oc_stream (fst r) = oc_stream s \<and> oc_streamActive (fst r) = oc_streamActive s"

lemma linked_mute: "linked env s a \<Longrightarrow> mute s r \<Longrightarrow> linked_result env r a"
  by (simp add: linked_def mute_def feed_mute)

lemma linked_then_mute: "linked_result env r a \<Longrightarrow> mute (fst r) (f (fst r)) \<Longrightarrow> linked_result env (chain r f) a"
  by (rule linked_chain) (rule linked_mute)

lemma mute_chain: "mute s r \<Longrightarrow> mute (fst r) (f (fst r)) \<Longrightarrow> mute s (chain r f)"
  by (simp add: mute_def chain_snd)

lemma mute_maps [simp]: "list_all mute_event (map (EvDisplay role) es)" "list_all mute_event (map EvMic ms)"
  "list_all mute_event (replicate n (EvPublished t))" "list_all mute_event (map EvEngineReleased ks)"
  "list_all mute_event (map (\<lambda>r. EvEngineAcquired r (engines r)) rs)"
  by (simp_all add: list_all_iff)

lemma mute_parts [simp]:
  "mute s (s, [])" "mute s (orc_setState st m s)" "mute s (on_main f s)" "mute s (on_cluster f s)" "mute s (on_cluster_enabled f s)"
  "mute s (stopMicrophone spa s)" "mute s (onMicrophone p spa fmul op s)" "mute s (resetPhoneStatus s)" "mute s (releaseEngines s)"
  "mute s (acquireEngines engines s)" "mute s (subscribeEvents s, [])" "mute s (stopConnectionWatchdog s, [])"
  by (auto simp: mute_def orc_setState_def on_main_def on_cluster_def on_cluster_enabled_def stopMicrophone_def onMicrophone_def
    resetPhoneStatus_def releaseEngines_def acquireEngines_def subscribeEvents_def stopConnectionWatchdog_def Let_def split: prod.split)

lemma mute_finalize [simp]: "mute s (finalizeSession s)"
  by (cases "oc_session s")
    (auto simp: finalizeSession_def mute_def chain_snd on_main_def on_cluster_def on_cluster_enabled_def split: prod.split)

lemma mute_user [simp]:
  "mute s (orc_start port listen err s)" "mute s (disconnectSession s)" "mute s (disconnectAndRetrigger s)"
  "mute s (onPhoneWillConnect s)" "mute s (onRetriggerTimer s)" "mute s (requestVideoFocus s)" "mute s (requestExitToCar s)"
  "mute s (mainFocusChanged mode s)" "mute s (onSetupRequested role s)" "mute s (onBatteryStatus parsed s)" "mute s (onSignalStrength n s)"
  "mute s (onNavigationNotification s)" "mute s (onNavigationPosition s)" "mute s (onMediaStatus t s)" "mute s (onPhoneStatus t s)"
  by (auto simp: mute_def orc_start_def disconnectSession_def disconnectAndRetrigger_def onPhoneWillConnect_def onRetriggerTimer_def
      requestVideoFocus_def requestExitToCar_def mainFocusChanged_def orc_setState_def chain_snd Let_def onSetupRequested_def
      onBatteryStatus_def onSignalStrength_def onNavigationNotification_def onNavigationPosition_def onMediaStatus_def onPhoneStatus_def
      split: option.splits)

lemma mute_navigation [simp]: "mute s (onNavigationState b s)"
  by (simp add: mute_def onNavigationState_def list_all_iff)

lemma mute_display_ops [simp]: "mute s (onMainDisplay ff op s)" "mute s (onClusterDisplay ff op s)"
proof -
  have rest: "mute t (case op of OpVideoFocus mode \<Rightarrow> mainFocusChanged mode t
       | _ \<Rightarrow> (if is_video_data op then t\<lparr>oc_lastCluster := False\<rparr> else t, []))" for t :: "('a, 'b, 'c, 'd) orchestrator"
    by (cases op) (simp_all add: mute_def mainFocusChanged_def orc_setState_def)
  show "mute s (onMainDisplay ff op s)"
  proof (cases "display_input op")
    case True
    have "mute s (chain (on_main (display_step ff op) s) (\<lambda>t. case op of OpVideoFocus mode \<Rightarrow> mainFocusChanged mode t
       | _ \<Rightarrow> (if is_video_data op then t\<lparr>oc_lastCluster := False\<rparr> else t, [])))"
      by (rule mute_chain [OF mute_parts(3)]) (rule rest)
    then show ?thesis using True by (simp add: onMainDisplay_def)
  qed (simp add: onMainDisplay_def)
  show "mute s (onClusterDisplay ff op s)"
    by (auto simp: onClusterDisplay_def mute_def disconnectAndRetrigger_def disconnectSession_def chain_snd Let_def split: prod.split)
qed

text \<open>Giving streams back.\<close>

lemma holder_None: "holder a h = None \<longleftrightarrow> h \<notin> fst ` set (au_streams a)"
  by (simp add: holder_def map_of_eq_None_iff)

lemma feed_destroy:
  assumes "audio_env_ok env" "live env a"
  shows "live env (feed env (map EvStreamDestroyed ks) a)" "au_available (feed env (map EvStreamDestroyed ks) a) = au_available a"
    "holder (feed env (map EvStreamDestroyed ks) a) k = (if k \<in> set ks then None else holder a k)"
  using assms(2)
proof (induction ks arbitrary: a)
  case (Cons x ks)
  have l: "live env (audio_do env (AuDestroy x) a)" if "live env a" for a :: "('a, 'b) audio_service"
    by (rule live_step [OF assms(1) that]) simp
  { case 1 show ?case using Cons.IH(1) [OF l [OF 1]] by simp
  next case 2 show ?case using Cons.IH(2) [OF l [OF 2]] service_step_available [of _ _ _ "AuDestroy x" a] by simp
  next case 3 show ?case using Cons.IH(3) [OF l [OF 3]] by (simp add: holder_destroy) }
qed simp_all

definition given_back :: "'e audio_env \<Rightarrow> ('c, 'x, 'p, 'f) orchestrator \<Rightarrow> ('e, 'k) audio_service \<Rightarrow> ('c, 'x, 'p, 'f) orc_result \<Rightarrow> bool" where
  "given_back env s a r \<longleftrightarrow> linked_result env r a \<and> oc_stream (fst r) = (\<lambda>_. None) \<and> au_available (feed env (snd r) a) = au_available a
     \<and> (\<forall>k. holder (feed env (snd r) a) k = (if k \<in> orc_handles s then None else holder a k))"

lemma destroy_back:
  assumes "audio_env_ok env" "linked env s a" "\<not> oc_audioService s \<Longrightarrow> oc_stream s = (\<lambda>_. None)"
  shows "given_back env s a (destroyStreams s)"
proof (cases "oc_audioService s")
  case True
  have l: "live env a" using assms(2) by (simp add: linked_def)
  have "set (List.map_filter (oc_stream s) roles) = orc_handles s" by (auto simp: set_map_filter orc_handles_def roles_all)
  then show ?thesis using True by (simp add: given_back_def destroyStreams_def linked_def feed_destroy [OF assms(1) l])
qed (use assms(2,3) in \<open>simp add: given_back_def destroyStreams_def orc_handles_def\<close>)

lemma given_back_before:
  "linked env s a \<Longrightarrow> mute s r \<Longrightarrow> (linked env (fst r) a \<Longrightarrow> given_back env (fst r) a (f (fst r))) \<Longrightarrow> given_back env s a (chain r f)"
  by (simp add: given_back_def chain_snd mute_def feed_mute orc_handles_def linked_def)

lemma given_back_after: "given_back env s a r \<Longrightarrow> mute (fst r) (f (fst r)) \<Longrightarrow> given_back env s a (chain r f)"
  by (simp add: given_back_def chain_snd mute_def feed_mute linked_def)

lemma teardown_back:
  assumes env: "audio_env_ok env" and ok: "orc_ok s" and l: "linked env s a"
  shows "given_back env s a (teardownSession spa s)"
proof -
  define b where "b = chain (chain (chain (stopMicrophone spa s) resetPhoneStatus) finalizeSession)
    (\<lambda>s. (s\<lparr>oc_transport := None, oc_activeSocket := None\<rparr>, []))"
  have m: "mute s b" unfolding b_def by (intro mute_chain mute_parts mute_finalize) (simp add: mute_def)
  have streams: "oc_stream (fst b) = (\<lambda>_. None)" if "\<not> oc_audioService (fst b)"
    using ok that by (simp add: b_def orc_ok_def released_ok_def stopMicrophone_fst resetPhoneStatus_def finalize_fst)
  have "given_back env s a (chain b destroyStreams)"
    by (rule given_back_before [OF l m]) (rule destroy_back [OF env _ streams])
  then show ?thesis
    unfolding teardownSession_def b_def [symmetric] by (rule given_back_after) simp
qed

lemma linked_back: "given_back env s a r \<Longrightarrow> linked_result env r a"
  by (simp add: given_back_def)

lemma linked_fields: "oc_stream t = oc_stream s \<Longrightarrow> oc_streamActive t = oc_streamActive s \<Longrightarrow> linked env t a = linked env s a"
  by (simp add: linked_def)

lemma linked_disconnected:
  assumes "audio_env_ok env" "orc_ok s" "linked env s a"
  shows "linked_result env (onSessionDisconnected spa s) a"
proof -
  let ?s = "s\<lparr>oc_watchdog := False\<rparr>"
  have "linked_result env (teardownSession spa ?s) a"
    by (rule linked_back [OF teardown_back [OF assms(1)]]) (use assms(2,3) in \<open>auto simp: linked_def\<close>)
  then show ?thesis
    unfolding onSessionDisconnected_def stopConnectionWatchdog_def
    by (intro linked_then_mute) (simp_all add: mute_def orc_setState_def)
qed

lemma linked_sessionSignal:
  assumes "audio_env_ok env" "orc_ok s" "linked env s a"
  shows "linked_result env (onSessionSignal spa sig s) a"
proof (cases "oc_session s = None \<or> (\<exists>reason. sig = SsDisconnected reason)")
  case True
  then show ?thesis using assms by (auto simp: onSessionSignal_def linked_disconnected)
next
  case False
  have "mute s (onSessionStateChanged st s)" for st
    by (cases st) (auto simp: onSessionStateChanged_def startConnectionWatchdog_def mute_def orc_setState_def chain_snd)
  moreover have lc: "mute s r" if "mute (s\<lparr>oc_lastCluster := b\<rparr>) r" for b r
    using that by (simp add: mute_def)
  ultimately have "mute s (onSessionSignal spa sig s)"
    using False by (cases sig) (auto simp: onSessionSignal_def onChannelOpened_def onChannelClosed_def onChannelOpenRejected_def
        intro!: lc [OF mute_parts(3)] lc [OF mute_parts(4)])
  then show ?thesis by (rule linked_mute [OF assms(3)])
qed

lemma linked_sessionSignals:
  "audio_env_ok env \<Longrightarrow> orc_ok s \<Longrightarrow> linked env s a \<Longrightarrow> linked_result env (onSessionSignals spa sigs s) a"
proof (induction sigs arbitrary: s a)
  case (Cons sig sigs)
  from Cons.IH [OF Cons.prems(1) ok_sessionSignal [OF Cons.prems(2)] linked_sessionSignal [OF Cons.prems]]
  show ?case by (simp add: chain_snd)
qed simp

lemma linked_stop:
  assumes env: "audio_env_ok env" and ok: "orc_ok s0" and l: "linked env s0 a"
  shows "linked_result env (orc_stop spa sigs s0) a"
proof -
  define s where "s = stopConnectionWatchdog (s0\<lparr>oc_admissionOpen := False, oc_serverConnected := False, oc_listening := False\<rparr>)"
  have ok1: "orc_ok s" using ok by (simp add: s_def stopConnectionWatchdog_def orc_defs)
  have l1: "linked env s a" using l by (simp add: s_def stopConnectionWatchdog_def linked_def)
  have ok2: "orc_ok (fst (onSessionSignals spa sigs s))" by (rule ok_sessionSignals [OF ok1])
  note sig = linked_sessionSignals [OF env ok1 l1, of spa sigs]
  have ended: "linked_result env (if oc_session s \<noteq> None \<and> isAaConnected s
      then chain (chain (s, [EvServerClosed, EvSessionStop 7]) (onSessionSignals spa sigs))
             (\<lambda>s'. if oc_session s' = oc_session s then teardownSession spa s' else (s', []))
      else chain (s, [EvServerClosed]) (teardownSession spa)) a"
    using linked_back [OF teardown_back [OF env ok1 l1]] linked_back [OF teardown_back [OF env ok2 sig]] sig
    by (simp add: chain_snd)
  show ?thesis
    unfolding orc_stop_def Let_def s_def [symmetric]
    by (intro linked_then_mute ended) (simp_all add: mute_def orc_setState_def)
qed

lemma linked_watchdog:
  assumes "audio_env_ok env" "orc_ok s" "linked env s a"
  shows "linked_result env (onWatchdogTimeout spa status s) a"
proof -
  have stop: "linked_result env (stopConnectionWatchdog s, []) a" by (rule linked_mute [OF assms(3)]) simp
  have teardown: "linked_result env (chain (teardownSession spa s) (\<lambda>s. orc_setState CsWaitingForDevice (waitingMessage s) s)) a"
    by (rule linked_then_mute [OF linked_back [OF teardown_back [OF assms]]]) simp
  have abort: "linked_result env (chain (s, [EvSocketAborted k]) (onSessionDisconnected spa)) a" for k
    using linked_disconnected [OF assms] by (simp add: chain_snd)
  show ?thesis
    using stop teardown abort assms(3) linked_disconnected [OF assms]
    by (auto simp: onWatchdogTimeout_def simp del: chain_fst split: option.split socket_status.split)
qed

text \<open>Opening streams.\<close>

lemma feed_create:
  assumes "audio_env_ok env" "live env a" "au_available a" "holder a h = None"
  shows "live env (apply_event env (EvStreamCreated r h eng) a)" "au_available (apply_event env (EvStreamCreated r h eng) a)"
    "holder (apply_event env (EvStreamCreated r h eng) a) k = (if k = h then Some (False, role_priority r) else holder a k)"
proof -
  let ?o = "role_options (ae_bufferMs env) r (map_option (ae_engine env) eng)"
  have h: "h \<notin> fst ` set (au_streams a)" using assms(4) by (simp add: holder_None)
  show "live env (apply_event env (EvStreamCreated r h eng) a)"
    using live_step [OF assms(1,2), of "AuCreate ?o (NewHandle h)"] h by simp
  show "au_available (apply_event env (EvStreamCreated r h eng) a)"
    using assms(3) service_step_available [of _ _ _ "AuCreate ?o (NewHandle h)" a] by simp
  have "8000 \<le> po_sampleRate ?o" "po_sampleRate ?o \<le> 384000" "po_priority ?o = role_priority r"
    by (cases r; simp add: role_options_def)+
  then show "holder (apply_event env (EvStreamCreated r h eng) a) k = (if k = h then Some (False, role_priority r) else holder a k)"
    using holder_created [OF assms(3) h, of ?o] holder_create [OF h, of k] by simp
qed

abbreviation created_events :: "(audio_role \<Rightarrow> nat option) \<Rightarrow> (audio_role \<Rightarrow> nat option) \<Rightarrow> audio_role list \<Rightarrow> 'f orc_event list" where
  "created_events eng handles rs \<equiv> List.map_filter (\<lambda>r. map_option (\<lambda>h. EvStreamCreated r h (eng r)) (handles r)) rs"

lemma feed_created:
  fixes ev :: "audio_role list \<Rightarrow> 'f orc_event list" and a :: "('e, 'k) audio_service"
  assumes "audio_env_ok env" "live env a" "distinct rs"
    and "\<And>r h. r \<in> set rs \<Longrightarrow> handles r = Some h \<Longrightarrow> au_available a \<and> holder a h = None"
    and inj: "\<And>r r' h. handles r = Some h \<Longrightarrow> handles r' = Some h \<Longrightarrow> r' = r"
    and ev: "ev = created_events eng handles"
  shows "live env (feed env (ev rs) a) \<and> (\<forall>r \<in> set rs. \<forall>h. handles r = Some h \<longrightarrow> holder (feed env (ev rs) a) h = Some (False, role_priority r))
    \<and> (\<forall>k. (\<forall>r \<in> set rs. handles r \<noteq> Some k) \<longrightarrow> holder (feed env (ev rs) a) k = holder a k)"
  using assms(2-4)
proof (induction rs arbitrary: a)
  case Nil
  then show ?case by (simp add: ev List.map_filter_simps)
next
  case (Cons r rs)
  show ?case
  proof (cases "handles r")
    case None
    have "ev (r # rs) = ev rs" by (simp add: ev List.map_filter_simps None)
    moreover have "live env (feed env (ev rs) a) \<and> (\<forall>r \<in> set rs. \<forall>h. handles r = Some h \<longrightarrow> holder (feed env (ev rs) a) h = Some (False, role_priority r))
      \<and> (\<forall>k. (\<forall>r \<in> set rs. handles r \<noteq> Some k) \<longrightarrow> holder (feed env (ev rs) a) k = holder a k)"
      by (rule Cons.IH) (use Cons.prems in auto)
    ultimately show ?thesis using None by auto
  next
    case (Some h)
    let ?a = "apply_event env (EvStreamCreated r h (eng r) :: 'f orc_event) a"
    have e: "ev (r # rs) = EvStreamCreated r h (eng r) # ev rs" by (simp add: ev List.map_filter_simps Some)
    have h: "au_available a" "holder a h = None" using Cons.prems(3) [of r h] Some by auto
    note c = feed_create [OF assms(1) Cons.prems(1) h]
    have other: "k \<noteq> h" if "r' \<in> set rs" "handles r' = Some k" for r' k
      using that inj [OF Some, of r'] Cons.prems(2) by auto
    have "live env (feed env (ev rs) ?a) \<and> (\<forall>r \<in> set rs. \<forall>h. handles r = Some h \<longrightarrow> holder (feed env (ev rs) ?a) h = Some (False, role_priority r))
      \<and> (\<forall>k. (\<forall>r \<in> set rs. handles r \<noteq> Some k) \<longrightarrow> holder (feed env (ev rs) ?a) k = holder ?a k)"
    proof (rule Cons.IH [OF c(1)])
      show "distinct rs" using Cons.prems(2) by simp
      show "au_available ?a \<and> holder ?a k = None" if "r' \<in> set rs" "handles r' = Some k" for r' k
        using Cons.prems(3) [of r' k] that other [OF that] c(2,3) by simp
    qed
    moreover have "\<forall>r' \<in> set rs. handles r' \<noteq> Some h" using other by blast
    ultimately show ?thesis unfolding e feed_simps using Some by (auto simp: c(3) simp del: apply_event.simps)
  qed
qed

lemma linked_setupAudio:
  fixes s :: "('c, 'x, 'p, 'f) orchestrator"
  assumes env: "audio_env_ok env" and l: "linked env s a" and none: "oc_stream s = (\<lambda>_. None)"
    and new: "\<And>r h. handles r = Some h \<Longrightarrow> au_available a \<and> holder a h = None"
    and inj: "\<And>r r' h. handles r = Some h \<Longrightarrow> handles r' = Some h \<Longrightarrow> r' = r"
  shows "linked_result env (setupAudio handles engines s) a"
proof (cases "oc_audioService s")
  case True
  have m: "mute s (acquireEngines engines s)" by simp
  have f: "feed env (snd (acquireEngines engines s)) a = a" using m by (simp add: mute_def feed_mute)
  define ev :: "audio_role list \<Rightarrow> 'f orc_event list" where "ev = created_events (oc_eq (fst (acquireEngines engines s))) handles"
  have "live env a" "distinct roles" using l by (simp_all add: linked_def roles_def)
  note c = feed_created [OF env this _ inj ev_def]
  have c: "live env (feed env (ev roles) a)" "\<And>r h. handles r = Some h \<Longrightarrow> holder (feed env (ev roles) a) h = Some (False, role_priority r)"
    using c new roles_all by auto
  have "linked_result env (chain (chain (acquireEngines engines s) (createStreams handles))
       (\<lambda>s. (s\<lparr>oc_speechFocusHint := FocusGainTransientMayDuck, oc_streamActive := (\<lambda>_. False)\<rparr>, []))) a"
    using c inj by (auto simp: chain_snd createStreams_def f linked_def ev_def [symmetric])
  then show ?thesis using True by (simp add: setupAudio_def)
qed (use l in \<open>simp add: setupAudio_def\<close>)

lemma linked_newConnection:
  assumes env: "audio_env_ok env" and ok: "orc_ok s" and l: "linked env s a"
    and new: "\<And>r h. handles r = Some h \<Longrightarrow> au_available a \<and> (h \<in> orc_handles s \<or> holder a h = None)"
    and inj: "\<And>r r' h. handles r = Some h \<Longrightarrow> handles r' = Some h \<Longrightarrow> r' = r"
  shows "linked_result env (onNewConnection spa pending peer handles engines s) a"
proof (cases "pending = None \<or> \<not> oc_admissionOpen s \<or> isAaConnected s")
  case True
  then have "mute s (onNewConnection spa pending peer handles engines s)"
    by (auto simp: onNewConnection_def mute_def split: option.split)
  then show ?thesis by (rule linked_mute [OF l])
next
  case False
  then obtain socket where p: "pending = Some socket" "oc_admissionOpen s" "\<not> isAaConnected s" by auto
  define t where "t = (if oc_session s \<noteq> None then teardownSession spa s else (s, []))"
  have t: "given_back env s a t"
  proof (cases "oc_session s")
    case None
    then have "oc_stream s = (\<lambda>_. None)" using ok by (simp add: orc_ok_def released_ok_def)
    then show ?thesis using None l by (simp add: t_def given_back_def orc_handles_def)
  qed (simp add: t_def teardown_back [OF env ok l])
  define b where "b = chain (chain t (orc_setState CsConnecting (''Wireless connection from '' @ peer @ ''...''))) (createSession socket)"
  have m: "mute u (createSession socket u)" for u :: "('b, 'c, 'd, 'e) orchestrator"
    by (auto simp: mute_def createSession_def Let_def chain_snd on_cluster_enabled_def on_cluster_def split: prod.splits)
  have b: "given_back env s a b" unfolding b_def by (intro given_back_after t mute_parts m)
  have c: "linked_result env (chain b (setupAudio handles engines)) a"
    using b new by (intro linked_chain linked_setupAudio [OF env _ _ _ inj]) (auto simp: given_back_def)
  have "mute u (u, case oc_session u of Some i \<Rightarrow> [EvSessionStarted i] | None \<Rightarrow> [])" for u :: "('b, 'c, 'd, 'e) orchestrator"
    by (simp add: mute_def split: option.split)
  then have "linked_result env (chain (chain (chain (chain b (setupAudio handles engines)) (\<lambda>s. (subscribeEvents s, [])))
      (\<lambda>s. chain (on_main beginProtocolSession s) (on_cluster_enabled beginProtocolSession)))
      (\<lambda>s. (s, case oc_session s of Some i \<Rightarrow> [EvSessionStarted i] | None \<Rightarrow> []))) a"
    by (intro linked_then_mute [OF linked_then_mute [OF linked_then_mute [OF c]]] mute_chain mute_parts)
  moreover have "onNewConnection spa pending peer handles engines s
      = chain (chain (chain (chain b (setupAudio handles engines)) (\<lambda>s. (subscribeEvents s, [])))
      (\<lambda>s. chain (on_main beginProtocolSession s) (on_cluster_enabled beginProtocolSession)))
      (\<lambda>s. (s, case oc_session s of Some i \<Rightarrow> [EvSessionStarted i] | None \<Rightarrow> []))"
    using p by (simp only: onNewConnection_def t_def b_def option.case simp_thms if_False)
  ultimately show ?thesis by (simp only:)
qed

text \<open>The focus.\<close>

lemma linked_started:
  assumes "audio_env_ok env" "linked env s a"
  shows "linked_result env (onStreamStartedAudio r s) a" "linked_result env (onStreamStoppedAudio r s) a"
  using assms live_step [OF assms(1), of a "AuRequestFocus _ _"] live_step [OF assms(1), of a "AuReleaseFocus _"]
  by (auto simp: linked_def onStreamStartedAudio_def onStreamStoppedAudio_def holder_focus split: option.split)

lemma feed_release:
  assumes "audio_env_ok env" "live env a"
  shows "live env (feed env (map EvFocusReleased ks) a)"
    "holder (feed env (map EvFocusReleased ks) a) k = (if k \<in> set ks then map_option (\<lambda>x. (False, snd x)) (holder a k) else holder a k)"
  using assms(2)
proof (induction ks arbitrary: a)
  case (Cons x ks)
  have l: "live env (audio_do env (AuReleaseFocus x) a)" if "live env a" for a :: "('a, 'b) audio_service"
    by (rule live_step [OF assms(1) that]) simp
  { case 1 show ?case using Cons.IH(1) [OF l [OF 1]] by simp
  next case 2 show ?case using Cons.IH(2) [OF l [OF 2]] by (simp add: holder_focus option.map_comp comp_def) }
qed simp_all

lemma linked_focus_change:
  fixes s :: "('c, 'x, 'p, 'f) orchestrator"
  assumes "audio_env_ok env" "linked env s a"
  shows "linked_result env (onAudioFocusChanged n s) a"
proof (cases "n = 4")
  case True
  let ?ks = "List.map_filter (\<lambda>r. if oc_streamActive s r then None else oc_stream s r) roles"
  have ev: "List.map_filter (\<lambda>r. if oc_streamActive s r then None else map_option EvFocusReleased (oc_stream s r)) roles = map EvFocusReleased ?ks"
    by (simp add: roles_def List.map_filter_simps split: option.split)
  have l: "live env a" using assms(2) by (simp add: linked_def)
  have "holder (feed env (map EvFocusReleased ?ks :: 'f orc_event list) a) h = holder a h" if "oc_stream s r = Some h" for r h
  proof -
    have "\<not> oc_streamActive s r" if "h \<in> set ?ks"
      using that \<open>oc_stream s r = Some h\<close> assms(2) by (fastforce simp: set_map_filter linked_def split: if_splits)
    then show ?thesis using assms(2) that by (auto simp: feed_release(2) [OF assms(1) l] linked_def)
  qed
  then show ?thesis using assms(2) True by (simp add: onAudioFocusChanged_def ev linked_def feed_release(1) [OF assms(1) l])
qed (use assms(2) in \<open>simp add: onAudioFocusChanged_def linked_def\<close>)

lemma linked_gone: "linked env s a \<Longrightarrow> linked_result env (onAudioServiceAboutToDestroy spa s) a"
  by (auto simp: onAudioServiceAboutToDestroy_def chain_snd linked_def live_destroyed feed_mute stopMicrophone_def split_beta)

lemma linked_orc_step:
  assumes "audio_env_ok env" "orc_ok s" "linked env s a" "projection_valid (PrOrchestrator op) (s, a)"
  shows "linked_result env (orc_step oenv op s) a"
proof (cases op)
  case (OrcNewConnection pending peer handles engines)
  have "linked_result env (onNewConnection (oe_spa oenv) pending peer handles engines s) a"
    by (rule linked_newConnection [OF assms(1-3)]) (use assms(4) OrcNewConnection in \<open>auto simp: holder_None\<close>)
  then show ?thesis using OrcNewConnection assms(3) by simp
qed (use assms in \<open>simp_all add: linked_stop linked_sessionSignal linked_watchdog linked_started linked_focus_change linked_gone linked_mute [OF assms(3)]\<close>)

lemma linked_client:
  assumes "audio_env_ok env" "linked env s a" "audio_valid x a" "\<forall>h. touches x = Some h \<longrightarrow> h \<notin> orc_handles s"
  shows "linked env s (audio_do env x a)"
proof -
  have l: "live env a" "audio_ok (ae_rnd env) a" using assms(2) by (simp_all add: linked_def live_def)
  have "holder (audio_do env x a) h = holder a h" if "oc_stream s r = Some h" for r h
    by (rule holder_client [OF l(2) assms(3)]) (use that assms in \<open>auto simp: orc_handles_def linked_def audio_env_ok_def\<close>)
  then show ?thesis using assms(2) live_step [OF assms(1) l(1) assms(3)] by (simp add: linked_def)
qed

section \<open>Results\<close>

inductive projection_reachable :: "('c, 'x, 'p, 'f) orc_env \<Rightarrow> 'e audio_env \<Rightarrow> ('c, 'x, 'p, 'f) orchestrator \<times> ('e, 'k) audio_service \<Rightarrow> bool"
  for oenv env where
  projection_start: "profile_ok profile \<Longrightarrow> projection_reachable oenv env
    (orchestrator_new audio eq bus clusterEnabled profile (idle_mic spa) dec1 dec2, audio_service_new available)"
| projection_op: "projection_reachable oenv env st \<Longrightarrow> projection_valid x st \<Longrightarrow> projection_reachable oenv env (projection_step oenv env x st)"

lemma projection_reachable_ok:
  assumes "projection_reachable oenv env st" "audio_env_ok env"
  shows "orc_ok (fst st) \<and> linked env (fst st) (snd st)"
  using assms(1)
proof induction
  case (projection_start profile audio eq bus clusterEnabled spa dec1 dec2 available)
  have "orc_ok (orchestrator_new audio eq bus clusterEnabled profile (idle_mic spa) dec1 dec2)"
    by (rule orc_ok_new [OF projection_start])
  moreover have "linked env (orchestrator_new audio eq bus clusterEnabled profile (idle_mic spa) dec1 dec2) (audio_service_new available)"
    using live_off by (simp add: linked_def orchestrator_new_def)
  ultimately show ?case by simp
next
  case (projection_op st x)
  obtain s a where st: "st = (s, a)" by (cases st)
  show ?case
  proof (cases x)
    case (PrOrchestrator op)
    then show ?thesis
      using projection_op st linked_orc_step [OF assms(2), of s a op oenv] ok_orc_step [of s oenv op]
      by (cases "orc_step oenv op s") simp
  qed (use projection_op st linked_client [OF assms(2), of s a] in simp)
qed

lemma requested_ducking:
  fixes ty :: focus_type
  assumes ok: "audio_ok rnd a" "rnd_ok rnd" and h: "holder a h \<noteq> None"
  defines "a' \<equiv> requestAudioFocus rnd h ty a"
  shows "\<exists>d. selectDominant None (au_streams a') = Some d \<and> (\<forall>x \<in> set (au_streams a'). as_targetGain (snd x) =
    (if fst x = fst d then 1 else if as_focusType (snd d) = FocusGainTransientMayDuck then rnd (2 / 10) else 0))"
proof -
  have ok': "audio_ok rnd a'" unfolding a'_def by (rule request_focus_ok [OF ok(2,1)])
  have "\<exists>p. holder a' h = Some (True, p)" using h by (auto simp: a'_def holder_focus)
  then obtain t where "map_of (au_streams a') h = Some t" "as_hasFocus t" by (auto simp: holder_def)
  then have "selectDominant None (au_streams a') \<noteq> None"
    using map_of_SomeD [of "au_streams a'" h t] by (auto simp: selectDominant_None intro!: bexI [of _ "(h, t)"])
  then obtain d where d: "selectDominant None (au_streams a') = Some d" by blast
  have "as_targetGain (snd x) = ducked_gain rnd (Some d) x" if "x \<in> set (au_streams a')" for x
    using that ducked_everywhere d unfolding a'_def requestAudioFocus_def Let_def by metis
  moreover have "as_baseVolume (snd x) = 1" if "x \<in> set (au_streams a')" for x using ok' that by (auto simp: audio_ok_def stream_ok_def)
  ultimately show ?thesis using d rnd_idem [OF ok(2)] by (auto simp: ducked_gain_def)
qed

text \<open>
  C22. Audio while a phone is connected, beside the streams of other clients of the audio service and
  through every sequence of their operations. Each stream of the phone exists in the service with
  the priority of its role and holds the focus exactly while the phone plays on it. The stream
  that dominates - of the highest priority among those with the focus, the latest request among
  equals - is heard at full gain, and without a holder of the focus all streams are. When the
  phone starts to play, every stream but the dominant one is lowered to a fifth or muted, as the
  request of the dominant one demands. Without a session there is no stream of the phone.
\<close>

theorem projection_audio_focus:
  assumes "audio_env_ok env" "projection_reachable oenv env (s, a)"
  shows "(\<forall>r h. oc_stream s r = Some h \<longrightarrow>
      (\<exists>t. map_of (au_streams a) h = Some t \<and> as_hasFocus t = oc_streamActive s r \<and> as_priority t = role_priority r))
    \<and> (\<forall>d. selectDominant None (au_streams a) = Some d \<longrightarrow> as_targetGain (snd d) = 1
      \<and> (\<forall>x \<in> set (au_streams a). as_hasFocus (snd x) \<longrightarrow> outranks (snd d) (snd x)))
    \<and> ((\<forall>x \<in> set (au_streams a). \<not> as_hasFocus (snd x)) \<longrightarrow> (\<forall>x \<in> set (au_streams a). as_targetGain (snd x) = 1))
    \<and> (\<forall>r s' a'. oc_stream s r \<noteq> None \<and> projection_step oenv env (PrOrchestrator (OrcStreamStarted r)) (s, a) = (s', a') \<longrightarrow>
      (\<exists>d. selectDominant None (au_streams a') = Some d \<and> (\<forall>x \<in> set (au_streams a'). as_targetGain (snd x) =
        (if fst x = fst d then 1 else if as_focusType (snd d) = FocusGainTransientMayDuck then ae_rnd env (2 / 10) else 0))))
    \<and> (oc_session s = None \<longrightarrow> orc_handles s = {})"
proof -
  have ok: "orc_ok s" and l: "linked env s a" using projection_reachable_ok [OF assms(2,1)] by simp_all
  have aok: "audio_ok (ae_rnd env) a" using l by (simp add: linked_def live_def)
  have hold: "holder a h = Some (oc_streamActive s r, role_priority r)" if "oc_stream s r = Some h" for r h
    using l that by (simp add: linked_def)
  have "\<forall>r h. oc_stream s r = Some h \<longrightarrow>
      (\<exists>t. map_of (au_streams a) h = Some t \<and> as_hasFocus t = oc_streamActive s r \<and> as_priority t = role_priority r)"
    using hold by (auto simp: holder_def)
  moreover have "\<forall>r s' a'. oc_stream s r \<noteq> None \<and> projection_step oenv env (PrOrchestrator (OrcStreamStarted r)) (s, a) = (s', a') \<longrightarrow>
      (\<exists>d. selectDominant None (au_streams a') = Some d \<and> (\<forall>x \<in> set (au_streams a'). as_targetGain (snd x) =
        (if fst x = fst d then 1 else if as_focusType (snd d) = FocusGainTransientMayDuck then ae_rnd env (2 / 10) else 0)))"
  proof (intro allI impI)
    fix r s' a'
    assume step: "oc_stream s r \<noteq> None \<and> projection_step oenv env (PrOrchestrator (OrcStreamStarted r)) (s, a) = (s', a')"
    then obtain h where h: "oc_stream s r = Some h" by blast
    with step have a': "a' = requestAudioFocus (ae_rnd env) h (requested_focus r s) a" by (auto simp: onStreamStartedAudio_def)
    show "\<exists>d. selectDominant None (au_streams a') = Some d \<and> (\<forall>x \<in> set (au_streams a'). as_targetGain (snd x) =
        (if fst x = fst d then 1 else if as_focusType (snd d) = FocusGainTransientMayDuck then ae_rnd env (2 / 10) else 0))"
      unfolding a' by (rule requested_ducking [OF aok]) (use assms(1) hold [OF h] in \<open>simp_all add: audio_env_ok_def\<close>)
  qed
  moreover have "oc_session s = None \<longrightarrow> orc_handles s = {}" using ok by (simp add: orc_ok_def released_ok_def orc_handles_def)
  ultimately show ?thesis using dominant_heard [OF aok] unfocused_heard [OF aok] by blast
qed

definition example_audio_env :: "unit audio_env" where
  "example_audio_env = \<lparr>ae_rnd = (\<lambda>x. x), ae_spa = plain_spa, ae_eq = example_eq, ae_bufferMs = (\<lambda>_. 50), ae_engine = (\<lambda>_. ())\<rparr>"

text \<open>The local player has a stream when the phone connects and speaks.\<close>

definition example_start :: "(unit, bytes list, unit, bytes) orchestrator" where
  "example_start = orchestrator_new True True True True baseline_profile (idle_mic plain_spa)
     (decoder_new demo_ffmpeg False True) (decoder_new demo_ffmpeg False True)"

definition example_listening :: "(unit, bytes list, unit, bytes) orchestrator" where
  "example_listening = fst (orc_step demo_env (OrcStart (PortInteger 5277) (\<lambda>p. Some (unat p)) []) example_start)"

definition example_handles :: "audio_role \<Rightarrow> nat option" where
  "example_handles r = Some (case r of RMedia \<Rightarrow> 1 | RSpeech \<Rightarrow> 2 | RSystem \<Rightarrow> 3)"

definition example_session :: "(unit, bytes list, unit, bytes) orchestrator \<times> (unit, unit) audio_service" where
  "example_session = projection_step demo_env example_audio_env (PrOrchestrator (OrcNewConnection (Some 4) ''10.0.0.7'' example_handles (\<lambda>r. 9)))
     (example_listening, example_created)"

definition example_speech :: "(unit, bytes list, unit, bytes) orchestrator \<times> (unit, unit) audio_service" where
  "example_speech = projection_step demo_env example_audio_env (PrOrchestrator (OrcStreamStarted RSpeech)) example_session"

lemma example_env_ok: "audio_env_ok example_audio_env"
  by (simp add: audio_env_ok_def example_audio_env_def spa_ok_plain rnd_ok_exact eq_ok_def example_eq_def)

lemma started_valid: "projection_valid (PrOrchestrator (OrcStreamStarted r)) st"
  by (cases st) simp

lemma example_projection: "projection_reachable demo_env example_audio_env example_speech"
proof -
  have "profile_ok baseline_profile" by code_simp
  then have "projection_reachable demo_env example_audio_env (example_start, audio_service_new True :: (unit, unit) audio_service)"
    unfolding example_start_def by (rule projection_start)
  then have "projection_reachable demo_env example_audio_env
      (projection_step demo_env example_audio_env (PrClient (AuCreate example_options (NewHandle 7))) (example_start, audio_service_new True :: (unit, unit) audio_service))"
    by (rule projection_op) (simp add: audio_service_new_def)
  then have "projection_reachable demo_env example_audio_env (example_start, example_created)"
    by (simp add: example_created_def example_audio_env_def)
  then have "projection_reachable demo_env example_audio_env
      (projection_step demo_env example_audio_env (PrOrchestrator (OrcStart (PortInteger 5277) (\<lambda>p. Some (unat p)) [])) (example_start, example_created))"
    by (rule projection_op) simp
  moreover have "mute example_start (orc_start (PortInteger 5277) (\<lambda>p. Some (unat p)) [] example_start)" by simp
  ultimately have l: "projection_reachable demo_env example_audio_env (example_listening, example_created)"
    by (simp add: example_listening_def mute_def feed_mute split_beta)
  have "au_available example_created" unfolding example_created_def service_step_available by (simp add: audio_service_new_def)
  then have "projection_valid (PrOrchestrator (OrcNewConnection (Some 4) ''10.0.0.7'' example_handles (\<lambda>r. 9))) (example_listening, example_created)"
    by (auto simp: example_handles_def example_created_streams split: audio_role.splits)
  with l have "projection_reachable demo_env example_audio_env example_session"
    unfolding example_session_def by (rule projection_op)
  then show ?thesis unfolding example_speech_def by (rule projection_op) (rule started_valid)
qed

theorem projection_audio_focus_witness:
  "\<exists>t. map_of (au_streams (snd example_speech)) 2 = Some t \<and> as_hasFocus t \<and> as_priority t = 60"
proof -
  have s: "oc_stream (fst example_speech) RSpeech = Some 2" "oc_streamActive (fst example_speech) RSpeech"
    by (simp_all add: example_speech_def example_session_def example_listening_def example_start_def example_handles_def split_beta
        orc_start_def orchestrator_new_def onNewConnection_def createSession_fst setupAudio_fst subscribeEvents_def isAaConnected_def
        onStreamStartedAudio_def Let_def)
  have "projection_reachable demo_env example_audio_env (fst example_speech, snd example_speech)"
    using example_projection by simp
  from projection_audio_focus [OF example_env_ok this, THEN conjunct1, rule_format, OF s(1)] show ?thesis
    using s(2) by (simp add: role_priority_def)
qed

end
