(* ===== verification/Touch_Input.thy ===== *)
theory Touch_Input
  imports Single_Float Service_Handlers
begin

text \<open>
  Touch input: the zones of the user interface (\<open>core/aa/TouchRouter.cpp\<close>), their conversion from
  pixels to device coordinates (\<open>EvdevCoordBridge.cpp\<close>), the thread that reads the touch device
  (\<open>EvdevTouchReader.cpp\<close>) and the hand-over to the input channel (\<open>TouchHandler.hpp\<close>).

  Single precision arithmetic is that of \<open>Single_Float\<close>.  The order in which \<open>std::sort\<close> leaves zones of
  equal priority is the parameter \<open>sorter\<close>.  A zone's callback is an opaque value, its call an
  event.  The device, its grab and the clock are inputs of the operations, and so are the zones
  and the mapping that the main thread sets in the middle of a report.  Log messages and time
  statistics are left out.
\<close>

section \<open>The zones\<close>

datatype touch_event = TouchDown | TouchMove | TouchUp

record 'k touch_zone =
  zn_id :: string
  zn_priority :: int
  zn_x0 :: rat
  zn_y0 :: rat
  zn_x1 :: rat
  zn_y1 :: rat
  zn_callback :: 'k

record 'k touch_router =
  rt_zones :: "'k touch_zone list"
  rt_claimedZone :: "string list"

definition MAX_SLOTS :: nat where
  "MAX_SLOTS = 10"

datatype 'k touch_output =
    ZoneCall 'k nat rat rat touch_event
  | TouchIndication "touch_pointer list" int int
  | GestureDetected
  | ContentDims int int

definition router_new :: "'k touch_router" where
  "router_new = \<lparr>rt_zones = [], rt_claimedZone = replicate MAX_SLOTS []\<rparr>"

definition setZones :: "('k touch_zone list \<Rightarrow> 'k touch_zone list) \<Rightarrow> 'k touch_zone list \<Rightarrow> 'k touch_router
    \<Rightarrow> 'k touch_router" where
  "setZones sorter zones r = (
     let zs = sorter zones
     in \<lparr>rt_zones = zs, rt_claimedZone =
           map (\<lambda>claim. if claim \<noteq> [] \<and> list_ex (\<lambda>z. zn_id z = claim) zs then claim else []) (rt_claimedZone r)\<rparr>)"

definition zone_contains :: "rat \<Rightarrow> rat \<Rightarrow> 'k touch_zone \<Rightarrow> bool" where
  "zone_contains x y z \<longleftrightarrow> zn_x0 z \<le> x \<and> x \<le> zn_x1 z \<and> zn_y0 z \<le> y \<and> y \<le> zn_y1 z"

definition set_claim :: "nat \<Rightarrow> string \<Rightarrow> 'k touch_router \<Rightarrow> 'k touch_router" where
  "set_claim i c r = r\<lparr>rt_claimedZone := (rt_claimedZone r)[i := c]\<rparr>"

definition dispatch :: "int \<Rightarrow> rat \<Rightarrow> rat \<Rightarrow> touch_event \<Rightarrow> 'k touch_router
    \<Rightarrow> 'k touch_router \<times> bool \<times> 'k touch_output list" where
  "dispatch slot x y ev r = (
     if slot < 0 \<or> slot \<ge> int MAX_SLOTS then (r, False, [])
     else let i = nat slot; claimed = rt_claimedZone r ! i in
       case (if claimed = [] then None else find (\<lambda>z. zn_id z = claimed) (rt_zones r)) of
         Some z \<Rightarrow> (if ev = TouchUp then set_claim i [] r else r, True, [ZoneCall (zn_callback z) i x y ev])
       | None \<Rightarrow> (let r1 = set_claim i [] r in
           if ev \<noteq> TouchDown then (r1, False, [])
           else case find (zone_contains x y) (rt_zones r1) of
               Some z \<Rightarrow> (set_claim i (zn_id z) r1, True, [ZoneCall (zn_callback z) i x y ev])
             | None \<Rightarrow> (r1, False, [])))"

definition resetClaims :: "'k touch_router \<Rightarrow> 'k touch_router" where
  "resetClaims r = r\<lparr>rt_claimedZone := map (\<lambda>claim. []) (rt_claimedZone r)\<rparr>"

section \<open>From pixels to device coordinates\<close>

record 'k zone_entry =
  ze_id :: string
  ze_priority :: int
  ze_px :: rat
  ze_py :: rat
  ze_pw :: rat
  ze_ph :: rat
  ze_cb :: 'k

record 'k coord_bridge =
  eb_displayW :: int
  eb_displayH :: int
  eb_evdevMaxX :: int
  eb_evdevMaxY :: int
  eb_zones :: "'k zone_entry list"

definition coord_bridge_new :: "'k coord_bridge" where
  "coord_bridge_new = \<lparr>eb_displayW = 1024, eb_displayH = 600, eb_evdevMaxX = 4095, eb_evdevMaxY = 4095, eb_zones = []\<rparr>"

definition pixelToEvdevX :: "rounding \<Rightarrow> 'k coord_bridge \<Rightarrow> rat \<Rightarrow> rat" where
  "pixelToEvdevX rnd b px = (if eb_displayW b \<le> 0 then 0
     else rnd (rnd (px * to_float rnd (eb_evdevMaxX b)) / to_float rnd (eb_displayW b)))"

definition pixelToEvdevY :: "rounding \<Rightarrow> 'k coord_bridge \<Rightarrow> rat \<Rightarrow> rat" where
  "pixelToEvdevY rnd b py = (if eb_displayH b \<le> 0 then 0
     else rnd (rnd (py * to_float rnd (eb_evdevMaxY b)) / to_float rnd (eb_displayH b)))"

definition router_zone :: "rounding \<Rightarrow> 'k coord_bridge \<Rightarrow> 'k zone_entry \<Rightarrow> 'k touch_zone" where
  "router_zone rnd b e = \<lparr>zn_id = ze_id e, zn_priority = ze_priority e,
     zn_x0 = pixelToEvdevX rnd b (ze_px e), zn_y0 = pixelToEvdevY rnd b (ze_py e),
     zn_x1 = pixelToEvdevX rnd b (rnd (ze_px e + ze_pw e)), zn_y1 = pixelToEvdevY rnd b (rnd (ze_py e + ze_ph e)),
     zn_callback = ze_cb e\<rparr>"

text \<open>The argument of the \<open>setZones\<close> call at the end of an update.\<close>

definition rebuildAndPush :: "rounding \<Rightarrow> 'k coord_bridge \<Rightarrow> 'k coord_bridge \<times> 'k touch_zone list" where
  "rebuildAndPush rnd b = (b, map (router_zone rnd b) (eb_zones b))"

fun replace_entry :: "'k zone_entry \<Rightarrow> 'k zone_entry list \<Rightarrow> 'k zone_entry list" where
  "replace_entry e [] = [e]"
| "replace_entry e (z # zs) = (if ze_id z = ze_id e then e # zs else z # replace_entry e zs)"

definition updateZone :: "rounding \<Rightarrow> 'k zone_entry \<Rightarrow> 'k coord_bridge \<Rightarrow> 'k coord_bridge \<times> 'k touch_zone list" where
  "updateZone rnd e b = rebuildAndPush rnd (b\<lparr>eb_zones := replace_entry e (eb_zones b)\<rparr>)"

definition updateZone_qml :: "rounding \<Rightarrow> 'k \<Rightarrow> string \<Rightarrow> int \<Rightarrow> rat \<Rightarrow> rat \<Rightarrow> rat \<Rightarrow> rat \<Rightarrow> 'k coord_bridge
    \<Rightarrow> 'k coord_bridge \<times> 'k touch_zone list" where
  "updateZone_qml rnd noop zid prio px py pw ph = updateZone rnd
     \<lparr>ze_id = zid, ze_priority = prio, ze_px = rnd px, ze_py = rnd py, ze_pw = rnd pw, ze_ph = rnd ph, ze_cb = noop\<rparr>"

definition removeZone :: "rounding \<Rightarrow> string \<Rightarrow> 'k coord_bridge \<Rightarrow> 'k coord_bridge \<times> 'k touch_zone list" where
  "removeZone rnd zid b = rebuildAndPush rnd (b\<lparr>eb_zones := filter (\<lambda>e. ze_id e \<noteq> zid) (eb_zones b)\<rparr>)"

definition setDisplayMapping :: "int \<Rightarrow> int \<Rightarrow> int \<Rightarrow> int \<Rightarrow> 'k coord_bridge \<Rightarrow> 'k coord_bridge" where
  "setDisplayMapping w h mx my b = b\<lparr>eb_displayW := w, eb_displayH := h, eb_evdevMaxX := mx, eb_evdevMaxY := my\<rparr>"

section \<open>State of the reader\<close>

record touch_slot =
  sl_trackingId :: int
  sl_x :: int
  sl_y :: int
  sl_dirty :: bool

definition slot_new :: touch_slot where
  "slot_new = \<lparr>sl_trackingId = -1, sl_x = 0, sl_y = 0, sl_dirty = False\<rparr>"

record mapping_config =
  mc_aaWidth :: int
  mc_aaHeight :: int
  mc_displayWidth :: int
  mc_displayHeight :: int
  mc_contentWidth :: int
  mc_contentHeight :: int
  mc_navbarEnabled :: bool
  mc_navbarThickness :: int
  mc_navbarEdge :: string
  mc_version :: nat

text \<open>The mapping in use and what \<open>computeLetterbox\<close> derives from it.\<close>

record letterbox =
  lb_config :: mapping_config
  lb_screenWidth :: int
  lb_screenHeight :: int
  lb_videoEvdevX0 :: rat
  lb_videoEvdevY0 :: rat
  lb_videoEvdevW :: rat
  lb_videoEvdevH :: rat
  lb_visibleAAWidth :: rat
  lb_visibleAAHeight :: rat

record 'k touch_reader =
  tr_handler :: bool
  tr_letterbox :: letterbox
  tr_slots :: "touch_slot list"
  tr_prevSlots :: "touch_slot list"
  tr_aaActive :: "bool list"
  tr_currentSlot :: nat
  tr_stopRequested :: bool
  tr_requestedGrab :: bool
  tr_deviceGrabbed :: bool
  tr_fd :: bool
  tr_gestureActive :: bool
  tr_gestureMaxFingers :: int
  tr_firstFingerTime :: int
  tr_prevActiveCount :: int
  tr_router :: "'k touch_router"
  tr_requestedMapping :: mapping_config
  tr_appliedMappingVersion :: nat

definition reader_new :: "bool \<Rightarrow> int \<Rightarrow> int \<Rightarrow> int \<Rightarrow> int \<Rightarrow> 'k touch_reader" where
  "reader_new handler aaW aaH dispW dispH = (
     let mc = \<lparr>mc_aaWidth = aaW, mc_aaHeight = aaH, mc_displayWidth = dispW, mc_displayHeight = dispH,
           mc_contentWidth = 0, mc_contentHeight = 0, mc_navbarEnabled = False, mc_navbarThickness = 0,
           mc_navbarEdge = ''bottom'', mc_version = 1\<rparr>
     in \<lparr>tr_handler = handler,
         tr_letterbox = \<lparr>lb_config = mc, lb_screenWidth = 4095, lb_screenHeight = 4095, lb_videoEvdevX0 = 0,
           lb_videoEvdevY0 = 0, lb_videoEvdevW = 0, lb_videoEvdevH = 0, lb_visibleAAWidth = 0, lb_visibleAAHeight = 0\<rparr>,
         tr_slots = replicate MAX_SLOTS slot_new, tr_prevSlots = replicate MAX_SLOTS slot_new,
         tr_aaActive = replicate MAX_SLOTS False, tr_currentSlot = 0, tr_stopRequested = False,
         tr_requestedGrab = False, tr_deviceGrabbed = False, tr_fd = False, tr_gestureActive = False,
         tr_gestureMaxFingers = 0, tr_firstFingerTime = 0, tr_prevActiveCount = 0, tr_router = router_new,
         tr_requestedMapping = mc, tr_appliedMappingVersion = 0\<rparr>)"

section \<open>The mapping\<close>

definition effective_x :: "mapping_config \<Rightarrow> int \<times> int" where
  "effective_x m = (
     if mc_navbarEnabled m \<and> mc_navbarThickness m > 0 \<and> \<not> (mc_navbarEdge m = ''top'' \<or> mc_navbarEdge m = ''bottom'')
     then (if mc_navbarEdge m = ''left'' then mc_navbarThickness m else 0, mc_displayWidth m - mc_navbarThickness m)
     else (0, mc_displayWidth m))"

definition effective_y :: "mapping_config \<Rightarrow> int \<times> int" where
  "effective_y m = (
     if mc_navbarEnabled m \<and> mc_navbarThickness m > 0 \<and> (mc_navbarEdge m = ''top'' \<or> mc_navbarEdge m = ''bottom'')
     then (if mc_navbarEdge m = ''top'' then mc_navbarThickness m else 0, mc_displayHeight m - mc_navbarThickness m)
     else (0, mc_displayHeight m))"

text \<open>The area of the video in pixels: origin and size, horizontally and vertically.\<close>

definition video_area :: "rounding \<Rightarrow> int \<Rightarrow> int \<Rightarrow> int \<Rightarrow> int \<Rightarrow> rat \<Rightarrow> (rat \<times> rat) \<times> (rat \<times> rat)" where
  "video_area rnd x0 w y0 h contentAspect = (
     let displayAspect = rnd (to_float rnd w / to_float rnd h)
     in if contentAspect > displayAspect
        then (let vh = rnd (to_float rnd w / contentAspect)
              in ((to_float rnd x0, to_float rnd w),
                  (rnd (to_float rnd y0 + rnd (rnd (to_float rnd h - vh) / 2)), vh)))
        else (let vw = rnd (to_float rnd h * contentAspect)
              in ((rnd (to_float rnd x0 + rnd (rnd (to_float rnd w - vw) / 2)), vw),
                  (to_float rnd y0, to_float rnd h))))"

definition computeLetterbox :: "rounding \<Rightarrow> letterbox \<Rightarrow> letterbox" where
  "computeLetterbox rnd b = (
     let m = lb_config b;
         (x0, w) = effective_x m; (y0, h) = effective_y m;
         m' = m\<lparr>mc_displayWidth := max 1 (mc_displayWidth m), mc_displayHeight := max 1 (mc_displayHeight m)\<rparr>;
         perX = rnd (to_float rnd (lb_screenWidth b) / to_float rnd (mc_displayWidth m'));
         perY = rnd (to_float rnd (lb_screenHeight b) / to_float rnd (mc_displayHeight m'));
         vw = to_float rnd (if mc_contentWidth m > 0 then mc_contentWidth m else mc_aaWidth m);
         vh = to_float rnd (if mc_contentHeight m > 0 then mc_contentHeight m else mc_aaHeight m);
         ((px, pw), (py, ph)) = video_area rnd x0 (max 1 w) y0 (max 1 h) (rnd (vw / vh))
     in b\<lparr>lb_config := m', lb_videoEvdevX0 := rnd (px * perX), lb_videoEvdevY0 := rnd (py * perY),
          lb_videoEvdevW := rnd (pw * perX), lb_videoEvdevH := rnd (ph * perY),
          lb_visibleAAWidth := vw, lb_visibleAAHeight := vh\<rparr>)"

definition clamp01 :: "rat \<Rightarrow> rat" where
  "clamp01 r = (if r < 0 then 0 else if r > 1 then 1 else r)"

definition map_axis :: "rounding \<Rightarrow> rat \<Rightarrow> rat \<Rightarrow> rat \<Rightarrow> int \<Rightarrow> int" where
  "map_axis rnd x0 w visible raw = trunc (rnd (clamp01 (rnd (rnd (to_float rnd raw - x0) / w)) * visible))"

definition mapX :: "rounding \<Rightarrow> letterbox \<Rightarrow> int \<Rightarrow> int" where
  "mapX rnd b = map_axis rnd (lb_videoEvdevX0 b) (lb_videoEvdevW b) (lb_visibleAAWidth b)"

definition mapY :: "rounding \<Rightarrow> letterbox \<Rightarrow> int \<Rightarrow> int" where
  "mapY rnd b = map_axis rnd (lb_videoEvdevY0 b) (lb_videoEvdevH b) (lb_visibleAAHeight b)"

definition setNavbar :: "bool \<Rightarrow> int \<Rightarrow> string \<Rightarrow> mapping_config \<Rightarrow> mapping_config" where
  "setNavbar enabled thickness edge m = m\<lparr>mc_navbarEnabled := enabled, mc_navbarThickness := thickness,
     mc_navbarEdge := edge, mc_version := Suc (mc_version m)\<rparr>"

definition setVideoMapping :: "int \<Rightarrow> int \<Rightarrow> int \<Rightarrow> int \<Rightarrow> mapping_config \<Rightarrow> mapping_config" where
  "setVideoMapping aaW aaH cw ch m = m\<lparr>mc_aaWidth := aaW, mc_aaHeight := aaH, mc_contentWidth := cw,
     mc_contentHeight := ch, mc_version := Suc (mc_version m)\<rparr>"

definition setDisplayDimensions :: "int \<Rightarrow> int \<Rightarrow> mapping_config \<Rightarrow> mapping_config" where
  "setDisplayDimensions w h m = m\<lparr>mc_displayWidth := w, mc_displayHeight := h, mc_version := Suc (mc_version m)\<rparr>"

definition applyPendingMapping :: "rounding \<Rightarrow> bool \<Rightarrow> 'k touch_reader \<Rightarrow> 'k touch_reader \<times> 'k touch_output list" where
  "applyPendingMapping rnd force r = (
     if \<not> force \<and> mc_version (tr_requestedMapping r) = tr_appliedMappingVersion r then (r, [])
     else let b = computeLetterbox rnd ((tr_letterbox r)\<lparr>lb_config := tr_requestedMapping r\<rparr>)
          in (r\<lparr>tr_letterbox := b, tr_appliedMappingVersion := mc_version (tr_requestedMapping r)\<rparr>,
              if tr_handler r then [ContentDims (trunc (lb_visibleAAWidth b)) (trunc (lb_visibleAAHeight b))] else []))"

section \<open>The touches the phone sees\<close>

definition buildAaPointers :: "rounding \<Rightarrow> 'k touch_reader \<Rightarrow> touch_pointer list" where
  "buildAaPointers rnd r = map (\<lambda>i.
     let source = if sl_trackingId (tr_slots r ! i) \<ge> 0 then tr_slots r ! i else tr_prevSlots r ! i
     in \<lparr>pt_x = mapX rnd (tr_letterbox r) (sl_x source), pt_y = mapY rnd (tr_letterbox r) (sl_y source), pt_id = int i\<rparr>)
     (filter (\<lambda>i. tr_aaActive r ! i) [0..<MAX_SLOTS])"

definition action_index :: "nat \<Rightarrow> touch_pointer list \<Rightarrow> int" where
  "action_index i ps = int (length (takeWhile (\<lambda>p. pt_id p \<noteq> int i) ps))"

definition send_boundary :: "rounding \<Rightarrow> nat \<Rightarrow> int \<Rightarrow> int \<Rightarrow> 'k touch_reader \<Rightarrow> 'k touch_output list" where
  "send_boundary rnd i single several r = (
     let ps = buildAaPointers rnd r
     in if tr_handler r then [TouchIndication ps (action_index i ps) (if length ps = 1 then single else several)] else [])"

definition set_aaActive :: "nat \<Rightarrow> bool \<Rightarrow> 'k touch_reader \<Rightarrow> 'k touch_reader" where
  "set_aaActive i b r = r\<lparr>tr_aaActive := (tr_aaActive r)[i := b]\<rparr>"

definition retire_slot :: "rounding \<Rightarrow> nat \<Rightarrow> 'k touch_reader \<Rightarrow> 'k touch_reader \<times> 'k touch_output list" where
  "retire_slot rnd i r = (set_aaActive i False r, send_boundary rnd i 1 6 r)"

definition admit_slot :: "rounding \<Rightarrow> nat \<Rightarrow> 'k touch_reader \<Rightarrow> 'k touch_reader \<times> 'k touch_output list" where
  "admit_slot rnd i r = (let r1 = set_aaActive i True r in (r1, send_boundary rnd i 0 5 r1))"

definition releaseAaTouchStream :: "rounding \<Rightarrow> 'k touch_reader \<Rightarrow> 'k touch_reader \<times> 'k touch_output list" where
  "releaseAaTouchStream rnd = run (\<lambda>i r. if tr_aaActive r ! i then retire_slot rnd i r else (r, [])) [0..<MAX_SLOTS]"

definition resetTouchState :: "rounding \<Rightarrow> 'k touch_reader \<Rightarrow> 'k touch_reader \<times> 'k touch_output list" where
  "resetTouchState rnd r = (
     let (r1, es) = releaseAaTouchStream rnd r
     in (r1\<lparr>tr_slots := replicate MAX_SLOTS slot_new, tr_prevSlots := replicate MAX_SLOTS slot_new,
            tr_aaActive := replicate MAX_SLOTS False, tr_currentSlot := 0, tr_gestureActive := False,
            tr_gestureMaxFingers := 0, tr_prevActiveCount := 0, tr_router := resetClaims (tr_router r1)\<rparr>, es))"

text \<open>\<open>ok\<close>: whether the \<open>EVIOCGRAB\<close> call succeeds.\<close>

definition applyRequestedGrab :: "rounding \<Rightarrow> bool \<Rightarrow> 'k touch_reader \<Rightarrow> 'k touch_reader \<times> 'k touch_output list" where
  "applyRequestedGrab rnd ok r = (
     let requested = tr_requestedGrab r
     in if requested = tr_deviceGrabbed r \<or> \<not> tr_fd r then (r, [])
        else if \<not> ok then (r, [])
        else let r1 = r\<lparr>tr_deviceGrabbed := requested\<rparr>
             in if \<not> requested then resetTouchState rnd r1 else (r1, []))"

definition countActive :: "'k touch_reader \<Rightarrow> int" where
  "countActive r = int (length (filter (\<lambda>s. sl_trackingId s \<ge> 0) (tr_slots r)))"

definition GESTURE_FINGER_COUNT :: int where
  "GESTURE_FINGER_COUNT = 3"

definition GESTURE_WINDOW_MS :: int where
  "GESTURE_WINDOW_MS = 200"

text \<open>\<open>t1\<close> and \<open>t2\<close>: the two readings of the clock, in nanoseconds.\<close>

definition checkGesture :: "int \<Rightarrow> int \<Rightarrow> 'k touch_reader \<Rightarrow> ('k touch_reader \<times> 'k touch_output list)" where
  "checkGesture t1 t2 r = (
     let nowActive = countActive r;
         r1 = (if nowActive > 0 \<and> tr_prevActiveCount r = 0
               then r\<lparr>tr_firstFingerTime := t1, tr_gestureMaxFingers := 1, tr_gestureActive := False\<rparr>
               else if nowActive > tr_gestureMaxFingers r then r\<lparr>tr_gestureMaxFingers := nowActive\<rparr> else r);
         r2 = r1\<lparr>tr_prevActiveCount := nowActive\<rparr>;
         detected = (tr_gestureMaxFingers r2 \<ge> GESTURE_FINGER_COUNT \<and> \<not> tr_gestureActive r2
           \<and> (t2 - tr_firstFingerTime r2) div 1000000 \<le> GESTURE_WINDOW_MS);
         r3 = (if detected then r2\<lparr>tr_gestureActive := True\<rparr> else r2);
         r4 = (if nowActive = 0 \<and> tr_gestureActive r3
               then r3\<lparr>tr_gestureActive := False, tr_gestureMaxFingers := 0\<rparr> else r3)
     in (r4, if detected then [GestureDetected] else []))"

section \<open>One report of the device\<close>

text \<open>
  What the main thread does while a report is processed: mapping requests before the mapping
  is read, and zones set before the dispatch of a slot.
\<close>

record 'k sync_input =
  sy_t1 :: int
  sy_t2 :: int
  sy_mapping :: "(mapping_config \<Rightarrow> mapping_config) list"
  sy_zones :: "nat \<Rightarrow> 'k touch_zone list list"

definition slot_event :: "touch_slot \<Rightarrow> touch_slot \<Rightarrow> (touch_event \<times> int \<times> int) option" where
  "slot_event prev cur = (
     let wasActive = sl_trackingId prev \<ge> 0; isActive = sl_trackingId cur \<ge> 0
     in if \<not> sl_dirty cur then None
        else if \<not> wasActive \<and> isActive then Some (TouchDown, sl_x cur, sl_y cur)
        else if wasActive \<and> isActive then Some (TouchMove, sl_x cur, sl_y cur)
        else if wasActive \<and> \<not> isActive then Some (TouchUp, sl_x prev, sl_y prev)
        else None)"

text \<open>The loop keeps the slots that a zone consumed beside the reader.\<close>

definition dispatch_slot :: "rounding \<Rightarrow> ('k touch_zone list \<Rightarrow> 'k touch_zone list) \<Rightarrow> (nat \<Rightarrow> 'k touch_zone list list) \<Rightarrow> nat
    \<Rightarrow> 'k touch_reader \<times> bool list \<Rightarrow> ('k touch_reader \<times> bool list) \<times> 'k touch_output list" where
  "dispatch_slot rnd sorter zones i rc = (
     let (r, consumed) = rc;
         rt = fold (setZones sorter) (zones i) (tr_router r)
     in case slot_event (tr_prevSlots r ! i) (tr_slots r ! i) of
          None \<Rightarrow> ((r\<lparr>tr_router := rt\<rparr>, consumed), [])
        | Some (ev, x, y) \<Rightarrow>
            (let (rt', c, es) = dispatch (int i) (to_float rnd x) (to_float rnd y) ev rt
             in ((r\<lparr>tr_router := rt'\<rparr>, consumed[i := c]), es)))"

definition clear_dirty :: "touch_slot list \<Rightarrow> touch_slot list" where
  "clear_dirty = map (\<lambda>s. s\<lparr>sl_dirty := False\<rparr>)"

definition save_slots :: "'k touch_reader \<Rightarrow> 'k touch_reader" where
  "save_slots r = r\<lparr>tr_slots := clear_dirty (tr_slots r), tr_prevSlots := clear_dirty (tr_slots r)\<rparr>"

definition lifted :: "'k touch_reader \<Rightarrow> nat \<Rightarrow> bool" where
  "lifted r i \<longleftrightarrow> sl_dirty (tr_slots r ! i) \<and> sl_trackingId (tr_prevSlots r ! i) \<ge> 0 \<and> \<not> sl_trackingId (tr_slots r ! i) \<ge> 0"

definition pressed :: "'k touch_reader \<Rightarrow> nat \<Rightarrow> bool" where
  "pressed r i \<longleftrightarrow> sl_dirty (tr_slots r ! i) \<and> \<not> sl_trackingId (tr_prevSlots r ! i) \<ge> 0 \<and> sl_trackingId (tr_slots r ! i) \<ge> 0"

definition moved :: "'k touch_reader \<Rightarrow> nat \<Rightarrow> bool" where
  "moved r i \<longleftrightarrow> sl_dirty (tr_slots r ! i) \<and> sl_trackingId (tr_slots r ! i) \<ge> 0 \<and> sl_trackingId (tr_prevSlots r ! i) \<ge> 0
     \<and> (sl_x (tr_slots r ! i) \<noteq> sl_x (tr_prevSlots r ! i) \<or> sl_y (tr_slots r ! i) \<noteq> sl_y (tr_prevSlots r ! i))"

text \<open>The three loops after the dispatch: retire, admit, move.\<close>

definition retire_lifted :: "rounding \<Rightarrow> bool list \<Rightarrow> 'k touch_reader \<Rightarrow> 'k touch_reader \<times> 'k touch_output list" where
  "retire_lifted rnd consumed = run (\<lambda>i r.
     if lifted r i \<and> \<not> consumed ! i \<and> tr_aaActive r ! i then retire_slot rnd i r else (r, [])) [0..<MAX_SLOTS]"

definition admit_pressed :: "rounding \<Rightarrow> bool list \<Rightarrow> 'k touch_reader \<Rightarrow> 'k touch_reader \<times> 'k touch_output list" where
  "admit_pressed rnd consumed = run (\<lambda>i r.
     if pressed r i \<and> \<not> consumed ! i then admit_slot rnd i r else (r, [])) [0..<MAX_SLOTS]"

definition send_move :: "rounding \<Rightarrow> bool list \<Rightarrow> bool \<Rightarrow> 'k touch_reader \<Rightarrow> 'k touch_reader \<times> 'k touch_output list" where
  "send_move rnd consumed sentBoundaryEvent r = (
     let anyMoved = list_ex (\<lambda>i. moved r i \<and> \<not> consumed ! i \<and> tr_aaActive r ! i) [0..<MAX_SLOTS];
         ps = buildAaPointers rnd r
     in (r, if anyMoved \<and> \<not> sentBoundaryEvent \<and> tr_handler r \<and> ps \<noteq> [] then [TouchIndication ps 0 2] else []))"

text \<open>\<open>sentBoundaryEvent\<close> is set whenever a slot is retired or admitted.\<close>

definition boundary :: "bool list \<Rightarrow> 'k touch_reader \<Rightarrow> bool" where
  "boundary consumed r = list_ex (\<lambda>i. \<not> consumed ! i \<and> (lifted r i \<and> tr_aaActive r ! i \<or> pressed r i)) [0..<MAX_SLOTS]"

definition forward_touches :: "rounding \<Rightarrow> bool list \<Rightarrow> 'k touch_reader \<Rightarrow> 'k touch_reader \<times> 'k touch_output list" where
  "forward_touches rnd consumed r = chain (chain (chain (retire_lifted rnd consumed r)
     (admit_pressed rnd consumed)) (send_move rnd consumed (boundary consumed r))) (\<lambda>r. (save_slots r, []))"

definition suppress_touches :: "rounding \<Rightarrow> 'k touch_reader \<Rightarrow> 'k touch_reader \<times> 'k touch_output list" where
  "suppress_touches rnd r = chain (releaseAaTouchStream rnd r)
     (\<lambda>r. (save_slots (r\<lparr>tr_aaActive := replicate MAX_SLOTS False\<rparr>), []))"

definition processSync :: "rounding \<Rightarrow> ('k touch_zone list \<Rightarrow> 'k touch_zone list) \<Rightarrow> 'k sync_input \<Rightarrow> 'k touch_reader
    \<Rightarrow> 'k touch_reader \<times> 'k touch_output list" where
  "processSync rnd sorter sy r = (
     let (r1, es1) = applyPendingMapping rnd False (r\<lparr>tr_requestedMapping := fold id (sy_mapping sy) (tr_requestedMapping r)\<rparr>);
         (r2, es2) = checkGesture (sy_t1 sy) (sy_t2 sy) r1;
         ((r3, consumed), es3) = run (dispatch_slot rnd sorter (sy_zones sy)) [0..<MAX_SLOTS] (r2, replicate MAX_SLOTS False)
     in chain (r3, es1 @ es2 @ es3) (if tr_gestureActive r2 then suppress_touches rnd else forward_touches rnd consumed))"

section \<open>The thread\<close>

datatype 'k input_event =
    AbsSlot int
  | AbsTrackingId int
  | AbsPositionX int
  | AbsPositionY int
  | SynReport "'k sync_input"
  | OtherEvent

datatype 'k device_input =
    PollTimeout
  | PollInterrupted
  | PollFailed
  | PollUnavailable
  | PollNoData
  | ReadRetry
  | ReadFailed
  | ReadEvent "'k input_event"

definition update_slot :: "(touch_slot \<Rightarrow> touch_slot) \<Rightarrow> 'k touch_reader \<Rightarrow> 'k touch_reader" where
  "update_slot f r = r\<lparr>tr_slots := (tr_slots r)[tr_currentSlot r := (f (tr_slots r ! tr_currentSlot r))\<lparr>sl_dirty := True\<rparr>]\<rparr>"

fun handle_event :: "rounding \<Rightarrow> ('k touch_zone list \<Rightarrow> 'k touch_zone list) \<Rightarrow> 'k input_event \<Rightarrow> 'k touch_reader
    \<Rightarrow> 'k touch_reader \<times> 'k touch_output list" where
  "handle_event rnd sorter (AbsSlot v) r = (r\<lparr>tr_currentSlot := nat (max 0 (min v (int MAX_SLOTS - 1)))\<rparr>, [])"
| "handle_event rnd sorter (AbsTrackingId v) r = (update_slot (\<lambda>s. s\<lparr>sl_trackingId := v\<rparr>) r, [])"
| "handle_event rnd sorter (AbsPositionX v) r = (update_slot (\<lambda>s. s\<lparr>sl_x := v\<rparr>) r, [])"
| "handle_event rnd sorter (AbsPositionY v) r = (update_slot (\<lambda>s. s\<lparr>sl_y := v\<rparr>) r, [])"
| "handle_event rnd sorter (SynReport sy) r =
     (if tr_deviceGrabbed r then processSync rnd sorter sy r
      else chain (checkGesture (sy_t1 sy) (sy_t2 sy) r) (\<lambda>r. (save_slots r, [])))"
| "handle_event rnd sorter OtherEvent r = (r, [])"

text \<open>After an event, or without one, whether the device is still healthy.\<close>

fun device_healthy :: "'k device_input \<Rightarrow> bool" where
  "device_healthy PollFailed = False"
| "device_healthy PollUnavailable = False"
| "device_healthy ReadFailed = False"
| "device_healthy x = True"

fun axis_max :: "int option \<Rightarrow> int \<Rightarrow> int" where
  "axis_max None old = old"
| "axis_max (Some v) old = max 1 v"

definition queryAxisRanges :: "int option \<Rightarrow> int option \<Rightarrow> 'k touch_reader \<Rightarrow> 'k touch_reader" where
  "queryAxisRanges ax ay r = r\<lparr>tr_letterbox := (tr_letterbox r)\<lparr>
     lb_screenWidth := axis_max ax (lb_screenWidth (tr_letterbox r)),
     lb_screenHeight := axis_max ay (lb_screenHeight (tr_letterbox r))\<rparr>\<rparr>"

definition closeDevice :: "'k touch_reader \<Rightarrow> 'k touch_reader" where
  "closeDevice r = (if tr_fd r then r\<lparr>tr_fd := False, tr_deviceGrabbed := False\<rparr> else r)"

definition reader_opened :: "rounding \<Rightarrow> int option \<Rightarrow> int option \<Rightarrow> bool \<Rightarrow> 'k touch_reader
    \<Rightarrow> 'k touch_reader \<times> 'k touch_output list" where
  "reader_opened rnd ax ay grabOk r =
     chain (chain (applyPendingMapping rnd True (queryAxisRanges ax ay (r\<lparr>tr_fd := True\<rparr>)))
       (resetTouchState rnd)) (applyRequestedGrab rnd grabOk)"

definition reader_lost :: "rounding \<Rightarrow> 'k touch_reader \<Rightarrow> 'k touch_reader \<times> 'k touch_output list" where
  "reader_lost rnd r = resetTouchState rnd (closeDevice r)"

text \<open>One pass of the inner loop; a device that is no longer healthy is closed.\<close>

definition reader_pass :: "rounding \<Rightarrow> ('k touch_zone list \<Rightarrow> 'k touch_zone list) \<Rightarrow> bool \<Rightarrow> 'k device_input \<Rightarrow> 'k touch_reader
    \<Rightarrow> 'k touch_reader \<times> 'k touch_output list" where
  "reader_pass rnd sorter grabOk inp r =
     chain (chain (chain (applyPendingMapping rnd False r) (applyRequestedGrab rnd grabOk))
       (\<lambda>r. case inp of ReadEvent ev \<Rightarrow> handle_event rnd sorter ev r | _ \<Rightarrow> (r, [])))
       (\<lambda>r. if device_healthy inp then (r, []) else reader_lost rnd r)"

text \<open>
  The thread between two loop tests.  \<open>RdOpen\<close> and \<open>RdPass\<close> are taken by the thread when it has
  not been asked to stop, \<open>RdStop\<close> when it has; the others by the main thread.
\<close>

datatype 'k reader_op =
    RdOpen "int option" "int option" bool
  | RdPass bool "'k device_input"
  | RdStop
  | DoRequestStop
  | DoGrab
  | DoUngrab
  | DoSetNavbar bool int string
  | DoSetVideoMapping int int int int
  | DoSetDisplayDimensions int int
  | DoSetZones "'k touch_zone list"

fun reader_step :: "rounding \<Rightarrow> ('k touch_zone list \<Rightarrow> 'k touch_zone list) \<Rightarrow> 'k reader_op \<Rightarrow> 'k touch_reader
    \<Rightarrow> 'k touch_reader \<times> 'k touch_output list" where
  "reader_step rnd sorter (RdOpen ax ay ok) r =
     (if tr_stopRequested r \<or> tr_fd r then (r, []) else reader_opened rnd ax ay ok r)"
| "reader_step rnd sorter (RdPass ok inp) r =
     (if tr_stopRequested r \<or> \<not> tr_fd r then (r, []) else reader_pass rnd sorter ok inp r)"
| "reader_step rnd sorter RdStop r =
     (if tr_stopRequested r \<and> tr_fd r then reader_lost rnd r else (r, []))"
| "reader_step rnd sorter DoRequestStop r = (r\<lparr>tr_stopRequested := True\<rparr>, [])"
| "reader_step rnd sorter DoGrab r = (r\<lparr>tr_requestedGrab := True\<rparr>, [])"
| "reader_step rnd sorter DoUngrab r = (r\<lparr>tr_requestedGrab := False\<rparr>, [])"
| "reader_step rnd sorter (DoSetNavbar b t e) r = (r\<lparr>tr_requestedMapping := setNavbar b t e (tr_requestedMapping r)\<rparr>, [])"
| "reader_step rnd sorter (DoSetVideoMapping a b c d) r =
     (r\<lparr>tr_requestedMapping := setVideoMapping a b c d (tr_requestedMapping r)\<rparr>, [])"
| "reader_step rnd sorter (DoSetDisplayDimensions w h) r =
     (r\<lparr>tr_requestedMapping := setDisplayDimensions w h (tr_requestedMapping r)\<rparr>, [])"
| "reader_step rnd sorter (DoSetZones zs) r = (r\<lparr>tr_router := setZones sorter zs (tr_router r)\<rparr>, [])"

section \<open>The hand-over to the input channel\<close>

record touch_handler =
  th_debugTouches :: "touch_pointer list"
  th_debugOverlay :: bool
  th_contentWidth :: int
  th_contentHeight :: int
  th_handler :: bool

definition setContentDims :: "int \<Rightarrow> int \<Rightarrow> touch_handler \<Rightarrow> touch_handler \<times> bool" where
  "setContentDims w h t = (
     if th_contentWidth t \<noteq> w \<or> th_contentHeight t \<noteq> h
     then (t\<lparr>th_contentWidth := w, th_contentHeight := h\<rparr>, True) else (t, False))"

definition setDebugOverlay :: "bool \<Rightarrow> touch_handler \<Rightarrow> touch_handler \<times> bool" where
  "setDebugOverlay v t = (if th_debugOverlay t \<noteq> v then (t\<lparr>th_debugOverlay := v\<rparr>, True) else (t, False))"

text \<open>The touches queued for the debug overlay, if any, and the message of the input channel.\<close>

definition handler_sendTouchIndication :: "service_protos \<Rightarrow> u64 \<Rightarrow> input_handler \<Rightarrow> touch_pointer list \<Rightarrow> int \<Rightarrow> int
    \<Rightarrow> touch_handler \<Rightarrow> touch_pointer list option \<times> service_signal list" where
  "handler_sendTouchIndication p timestamp ih ps actionIndex action t = (
     if ps = [] then (None, [])
     else (if th_debugOverlay t then Some (if action = 1 then [] else ps) else None,
           if th_handler t then sendTouchIndication p ps actionIndex action timestamp ih else []))"

definition sendTouchEvent :: "service_protos \<Rightarrow> u64 \<Rightarrow> input_handler \<Rightarrow> int \<Rightarrow> int \<Rightarrow> int \<Rightarrow> touch_handler
    \<Rightarrow> touch_pointer list option \<times> service_signal list" where
  "sendTouchEvent p timestamp ih x y action =
     handler_sendTouchIndication p timestamp ih [\<lparr>pt_x = x, pt_y = y, pt_id = 0\<rparr>] 0 action"

end
