(* ===== verification/Touch_Stream.thy ===== *)
theory Touch_Stream
  imports Touch_Input
begin

text \<open>
  The touch stream the phone receives.  Android's rules for a stream of touch events are the
  automaton \<open>phone_step\<close>: a first finger goes down alone, every further event lists exactly the
  fingers that are down, one finger changes at a time, and the last one goes up alone.  The
  reader obeys them in every interleaving with the main thread, and leaves no finger down when
  it gives the device up.
\<close>

section \<open>The phone's view\<close>

fun phone_step :: "int list \<Rightarrow> touch_pointer list \<times> int \<times> int \<Rightarrow> int list option" where
  "phone_step act (ps, idx, action) = (
     let ids = map pt_id ps; k = ids ! nat idx
     in if idx < 0 \<or> int (length ids) \<le> idx \<or> \<not> distinct ids then None
        else if action = 0 then (if act = [] \<and> length ids = 1 then Some ids else None)
        else if action = 5 then (if act \<noteq> [] \<and> act = filter (\<lambda>j. j \<noteq> k) ids then Some ids else None)
        else if action = 2 then (if ids = act then Some act else None)
        else if action = 6 then (if ids = act \<and> length act \<ge> 2 then Some (filter (\<lambda>j. j \<noteq> k) act) else None)
        else if action = 1 then (if ids = act \<and> length act = 1 then Some [] else None)
        else None)"

primrec phone_run :: "int list \<Rightarrow> (touch_pointer list \<times> int \<times> int) list \<Rightarrow> int list option" where
  "phone_run act [] = Some act"
| "phone_run act (x # xs) = (case phone_step act x of None \<Rightarrow> None | Some act' \<Rightarrow> phone_run act' xs)"

fun indication :: "'k touch_output \<Rightarrow> (touch_pointer list \<times> int \<times> int) list" where
  "indication (TouchIndication ps idx action) = [(ps, idx, action)]"
| "indication x = []"

definition indications :: "'k touch_output list \<Rightarrow> (touch_pointer list \<times> int \<times> int) list" where
  "indications es = concat (map indication es)"

lemma indications_simps [simp]:
  "indications [] = []" "indications (e # es) = indication e @ indications es"
  "indications (es @ es') = indications es @ indications es'"
  by (simp_all add: indications_def)

lemma phone_run_append:
  "phone_run act (xs @ ys) = (case phone_run act xs of None \<Rightarrow> None | Some act' \<Rightarrow> phone_run act' ys)"
  by (induction xs arbitrary: act) (simp_all split: option.splits)

definition active_ids :: "bool list \<Rightarrow> int list" where
  "active_ids aa = map int (filter (\<lambda>i. aa ! i) [0..<MAX_SLOTS])"

text \<open>What is sent takes the phone from the fingers \<open>aa\<close> to the fingers \<open>aa'\<close>.\<close>

definition follows :: "bool list \<Rightarrow> 'k touch_output list \<Rightarrow> bool list \<Rightarrow> bool" where
  "follows aa es aa' \<longleftrightarrow> phone_run (active_ids aa) (indications es) = Some (active_ids aa')"

lemma follows_silent [simp]: "indications es = [] \<Longrightarrow> follows aa es aa"
  by (simp add: follows_def)

lemma follows_trans: "follows aa es aa' \<Longrightarrow> follows aa' es' aa'' \<Longrightarrow> follows aa (es @ es') aa''"
  by (simp add: follows_def phone_run_append)

section \<open>One boundary event\<close>

lemma active_ids_props: "distinct (active_ids aa)" "int i \<in> set (active_ids aa) \<longleftrightarrow> i < MAX_SLOTS \<and> aa ! i"
  by (auto simp: active_ids_def distinct_map)

lemma active_ids_clear:
  assumes "length aa = MAX_SLOTS"
  shows "active_ids (aa[i := False]) = filter (\<lambda>j. j \<noteq> int i) (active_ids aa)"
proof -
  have "filter (\<lambda>j. aa[i := False] ! j) [0..<MAX_SLOTS] = filter (\<lambda>j. aa ! j \<and> j \<noteq> i) [0..<MAX_SLOTS]"
    using assms by (intro filter_cong refl) (simp, metis nth_list_update_eq nth_list_update_neq)
  then show ?thesis by (simp add: active_ids_def filter_map o_def)
qed

lemma active_ids_none: "\<forall>i<MAX_SLOTS. \<not> aa ! i \<Longrightarrow> active_ids aa = []"
  by (simp add: active_ids_def)

lemma pointer_ids: "map pt_id (buildAaPointers rnd r) = active_ids (tr_aaActive r)"
  by (simp add: buildAaPointers_def active_ids_def Let_def)

lemma action_index_points:
  assumes "int i \<in> set (map pt_id ps)"
  shows "0 \<le> action_index i ps" "action_index i ps < int (length ps)" "map pt_id ps ! nat (action_index i ps) = int i"
proof -
  have "length (takeWhile (\<lambda>p. pt_id p \<noteq> int i) ps) < length ps"
    using assms by (induction ps) auto
  moreover from this have "pt_id (ps ! length (takeWhile (\<lambda>p. pt_id p \<noteq> int i) ps)) = int i"
    using nth_length_takeWhile [of "\<lambda>p. pt_id p \<noteq> int i" ps] by simp
  ultimately show "0 \<le> action_index i ps" "action_index i ps < int (length ps)"
      "map pt_id ps ! nat (action_index i ps) = int i"
    by (simp_all add: action_index_def)
qed

lemma boundary_phone_step:
  assumes "tr_handler r" "i < MAX_SLOTS" "tr_aaActive r ! i"
  shows "\<exists>ps idx. send_boundary rnd i single several r = [TouchIndication ps idx (if length ps = 1 then single else several)]
    \<and> map pt_id ps = active_ids (tr_aaActive r) \<and> 0 \<le> idx \<and> idx < int (length ps) \<and> map pt_id ps ! nat idx = int i"
proof -
  have "int i \<in> set (map pt_id (buildAaPointers rnd r))"
    unfolding pointer_ids using assms by (simp add: active_ids_props)
  from action_index_points [OF this] show ?thesis
    using assms(1) by (simp add: send_boundary_def Let_def pointer_ids)
qed

lemma filter_single: "distinct xs \<Longrightarrow> length xs = Suc 0 \<Longrightarrow> x \<in> set xs \<Longrightarrow> filter (\<lambda>j. j \<noteq> x) xs = []"
  by (cases xs) auto

lemma retire_follows:
  assumes "tr_handler r" "i < MAX_SLOTS" "length aa = MAX_SLOTS" "aa ! i"
  shows "follows aa (send_boundary rnd i 1 6 (r\<lparr>tr_aaActive := aa\<rparr>)) (aa[i := False])"
proof -
  obtain ps idx where s: "send_boundary rnd i 1 6 (r\<lparr>tr_aaActive := aa\<rparr>) = [TouchIndication ps idx (if length ps = 1 then 1 else 6)]"
      "map pt_id ps = active_ids aa" "0 \<le> idx" "idx < int (length ps)" "map pt_id ps ! nat idx = int i"
    using boundary_phone_step [of "r\<lparr>tr_aaActive := aa\<rparr>" i rnd 1 6] assms by auto
  have l: "length ps = length (active_ids aa)" by (metis length_map s(2))
  have i: "int i \<in> set (active_ids aa)" using assms by (simp add: active_ids_props)
  show ?thesis
    using s i l by (simp add: follows_def active_ids_clear assms Let_def active_ids_props filter_single)
qed

lemma admit_follows:
  assumes "tr_handler r" "i < MAX_SLOTS" "length aa = MAX_SLOTS" "\<not> aa ! i"
  shows "follows aa (send_boundary rnd i 0 5 (r\<lparr>tr_aaActive := aa[i := True]\<rparr>)) (aa[i := True])"
proof -
  let ?aa = "aa[i := True]"
  have clear: "aa = ?aa[i := False]" using assms(4) by (metis (full_types) list_update_id list_update_overwrite)
  have act: "active_ids aa = filter (\<lambda>j. j \<noteq> int i) (active_ids ?aa)"
    by (subst clear) (rule active_ids_clear, simp add: assms)
  obtain ps idx where s: "send_boundary rnd i 0 5 (r\<lparr>tr_aaActive := ?aa\<rparr>) = [TouchIndication ps idx (if length ps = 1 then 0 else 5)]"
      "map pt_id ps = active_ids ?aa" "0 \<le> idx" "idx < int (length ps)" "map pt_id ps ! nat idx = int i"
    using boundary_phone_step [of "r\<lparr>tr_aaActive := ?aa\<rparr>" i rnd 0 5] assms by auto
  have i: "int i \<in> set (active_ids ?aa)" using assms by (simp add: active_ids_props)
  have l: "length ps = length (active_ids ?aa)" by (metis length_map s(2))
  have several: "filter (\<lambda>j. j \<noteq> int i) (active_ids ?aa) \<noteq> []" if "length (active_ids ?aa) \<noteq> 1"
  proof
    assume "filter (\<lambda>j. j \<noteq> int i) (active_ids ?aa) = []"
    then have "set (active_ids ?aa) \<subseteq> {int i}" by (auto simp: filter_empty_conv)
    then have "card (set (active_ids ?aa)) \<le> 1" by (metis card.empty card_insert_disjoint card_mono empty_iff finite.emptyI finite.insertI One_nat_def)
    then have "length (active_ids ?aa) \<le> 1" using active_ids_props(1) by (metis distinct_card)
    moreover from i have "length (active_ids ?aa) > 0" by (cases "active_ids ?aa") auto
    ultimately show False using that by simp
  qed
  show ?thesis
    using s i l several
    by (simp add: follows_def act Let_def active_ids_props filter_single)
qed

section \<open>A loop over the slots\<close>

definition upto :: "(nat \<Rightarrow> bool) \<Rightarrow> bool \<Rightarrow> nat \<Rightarrow> bool list \<Rightarrow> bool list" where
  "upto P b n aa = map (\<lambda>i. if i < n \<and> P i then b else aa ! i) [0..<length aa]"

lemma upto_simps [simp]:
  "upto P b 0 aa = aa" "length (upto P b n aa) = length aa"
  "i < length aa \<Longrightarrow> upto P b n aa ! i = (if i < n \<and> P i then b else aa ! i)"
  by (simp_all add: upto_def map_nth)

lemma upto_Suc: "n < length aa \<Longrightarrow> upto P b (Suc n) aa = (if P n then (upto P b n aa)[n := b] else upto P b n aa)"
  by (rule nth_equalityI) (auto simp: nth_list_update less_Suc_eq)

lemma slot_loop:
  assumes st: "\<And>i r. st i r = (if P i r then (set_aaActive i b r, send i r) else (r, []))"
    and cong: "\<And>i r aa. aa ! i = tr_aaActive r ! i \<Longrightarrow> P i (r\<lparr>tr_aaActive := aa\<rparr>) = P i r"
    and step: "\<And>i aa. i < MAX_SLOTS \<Longrightarrow> length aa = MAX_SLOTS \<Longrightarrow> aa ! i = tr_aaActive r ! i \<Longrightarrow> P i r
      \<Longrightarrow> follows aa (send i (r\<lparr>tr_aaActive := aa\<rparr>)) (aa[i := b])"
    and len: "length (tr_aaActive r) = MAX_SLOTS" and n: "n \<le> MAX_SLOTS"
  shows "fst (run st [0..<n] r) = r\<lparr>tr_aaActive := upto (\<lambda>i. P i r) b n (tr_aaActive r)\<rparr>
    \<and> follows (tr_aaActive r) (snd (run st [0..<n] r)) (upto (\<lambda>i. P i r) b n (tr_aaActive r))"
  using n
proof (induction n)
  case 0
  then show ?case by simp
next
  case (Suc n)
  let ?aa = "upto (\<lambda>i. P i r) b n (tr_aaActive r)"
  let ?r = "r\<lparr>tr_aaActive := ?aa\<rparr>"
  from Suc have IH: "fst (run st [0..<n] r) = ?r" "follows (tr_aaActive r) (snd (run st [0..<n] r)) ?aa" by simp_all
  have same: "?aa ! n = tr_aaActive r ! n" using Suc.prems len by simp
  have "st n ?r = (if P n r then (set_aaActive n b ?r, send n ?r) else (?r, []))"
    by (simp add: st cong [OF same])
  moreover have "follows ?aa (send n ?r) (?aa[n := b])" if "P n r"
    using step [OF _ _ same that] Suc.prems len by simp
  ultimately show ?case
    using Suc.prems len IH by (auto simp: run_snoc upto_Suc set_aaActive_def intro: follows_trans)
qed

lemma releaseAaTouchStream_phone:
  assumes "tr_handler r" "length (tr_aaActive r) = MAX_SLOTS"
  shows "fst (releaseAaTouchStream rnd r) = r\<lparr>tr_aaActive := replicate MAX_SLOTS False\<rparr>"
    and "follows (tr_aaActive r) (snd (releaseAaTouchStream rnd r)) (replicate MAX_SLOTS False)"
proof -
  have none: "upto (\<lambda>i. tr_aaActive r ! i) False MAX_SLOTS (tr_aaActive r) = replicate MAX_SLOTS False"
    by (rule nth_equalityI) (simp_all add: assms)
  note loop = slot_loop [where P = "\<lambda>i r. tr_aaActive r ! i" and b = False and send = "\<lambda>i. send_boundary rnd i 1 6"
      and st = "\<lambda>i r. if tr_aaActive r ! i then retire_slot rnd i r else (r, [])" and r = r and n = MAX_SLOTS]
  have "fst (releaseAaTouchStream rnd r) = r\<lparr>tr_aaActive := upto (\<lambda>i. tr_aaActive r ! i) False MAX_SLOTS (tr_aaActive r)\<rparr>
    \<and> follows (tr_aaActive r) (snd (releaseAaTouchStream rnd r)) (upto (\<lambda>i. tr_aaActive r ! i) False MAX_SLOTS (tr_aaActive r))"
    unfolding releaseAaTouchStream_def
    by (rule loop) (simp_all add: retire_slot_def assms retire_follows)
  then show "fst (releaseAaTouchStream rnd r) = r\<lparr>tr_aaActive := replicate MAX_SLOTS False\<rparr>"
    "follows (tr_aaActive r) (snd (releaseAaTouchStream rnd r)) (replicate MAX_SLOTS False)"
    by (simp_all add: none)
qed

text \<open>The fingers the phone sees after a report without a gesture.\<close>

definition retired :: "bool list \<Rightarrow> 'k touch_reader \<Rightarrow> bool list" where
  "retired consumed r = upto (\<lambda>i. lifted r i \<and> \<not> consumed ! i \<and> tr_aaActive r ! i) False MAX_SLOTS (tr_aaActive r)"

definition admitted :: "bool list \<Rightarrow> 'k touch_reader \<Rightarrow> bool list" where
  "admitted consumed r = upto (\<lambda>i. pressed r i \<and> \<not> consumed ! i) True MAX_SLOTS (tr_aaActive r)"

lemma pressed_lifted_fields [simp]:
  "lifted (r\<lparr>tr_aaActive := aa\<rparr>) i = lifted r i" "pressed (r\<lparr>tr_aaActive := aa\<rparr>) i = pressed r i"
  by (simp_all add: lifted_def pressed_def)

lemma retire_lifted_phone:
  assumes "tr_handler r" "length (tr_aaActive r) = MAX_SLOTS"
  shows "fst (retire_lifted rnd consumed r) = r\<lparr>tr_aaActive := retired consumed r\<rparr>
    \<and> follows (tr_aaActive r) (snd (retire_lifted rnd consumed r)) (retired consumed r)"
  unfolding retire_lifted_def retired_def
  by (rule slot_loop [where P = "\<lambda>i r. lifted r i \<and> \<not> consumed ! i \<and> tr_aaActive r ! i" and send = "\<lambda>i. send_boundary rnd i 1 6"])
     (simp_all add: retire_slot_def assms retire_follows)

lemma admit_pressed_phone:
  assumes "tr_handler r" "length (tr_aaActive r) = MAX_SLOTS" "\<forall>i<MAX_SLOTS. pressed r i \<longrightarrow> \<not> tr_aaActive r ! i"
  shows "fst (admit_pressed rnd consumed r) = r\<lparr>tr_aaActive := admitted consumed r\<rparr>
    \<and> follows (tr_aaActive r) (snd (admit_pressed rnd consumed r)) (admitted consumed r)"
  unfolding admit_pressed_def admitted_def
  by (rule slot_loop [where P = "\<lambda>i r. pressed r i \<and> \<not> consumed ! i"
        and send = "\<lambda>i r. send_boundary rnd i 0 5 (set_aaActive i True r)"])
     (use assms in \<open>simp_all add: admit_slot_def Let_def set_aaActive_def admit_follows\<close>)

lemma send_move_phone:
  "fst (send_move rnd consumed b r) = r \<and> follows (tr_aaActive r) (snd (send_move rnd consumed b r)) (tr_aaActive r)"
  using pointer_ids [of rnd r] active_ids_props(1) [of "tr_aaActive r"]
  by (auto simp: send_move_def follows_def Let_def)

section \<open>The invariant of the reader\<close>

definition no_finger :: "bool list \<Rightarrow> bool" where
  "no_finger aa \<longleftrightarrow> (\<forall>i<MAX_SLOTS. \<not> aa ! i)"

lemma no_finger_replicate [simp]: "no_finger (replicate MAX_SLOTS False)"
  by (simp add: no_finger_def)

definition shape_ok :: "'k touch_reader \<Rightarrow> bool" where
  "shape_ok r \<longleftrightarrow> tr_handler r \<and> length (tr_slots r) = MAX_SLOTS \<and> length (tr_prevSlots r) = MAX_SLOTS
     \<and> length (tr_aaActive r) = MAX_SLOTS \<and> length (rt_claimedZone (tr_router r)) = MAX_SLOTS
     \<and> tr_currentSlot r < MAX_SLOTS \<and> (tr_deviceGrabbed r \<longrightarrow> tr_fd r)"

definition slots_ok :: "'k touch_reader \<Rightarrow> bool" where
  "slots_ok r \<longleftrightarrow> (\<forall>i<MAX_SLOTS. (tr_aaActive r ! i \<longrightarrow> sl_trackingId (tr_prevSlots r ! i) \<ge> 0)
     \<and> (\<not> sl_dirty (tr_slots r ! i) \<longrightarrow> sl_trackingId (tr_slots r ! i) = sl_trackingId (tr_prevSlots r ! i)))"

definition claims_ok :: "'k touch_reader \<Rightarrow> bool" where
  "claims_ok r \<longleftrightarrow> (\<forall>i<MAX_SLOTS. tr_aaActive r ! i \<longrightarrow> rt_claimedZone (tr_router r) ! i = [])"

definition owner_ok :: "'k touch_reader \<Rightarrow> bool" where
  "owner_ok r \<longleftrightarrow> (\<not> tr_deviceGrabbed r \<or> tr_gestureActive r \<longrightarrow> no_finger (tr_aaActive r))"

definition reader_ok :: "'k touch_reader \<Rightarrow> bool" where
  "reader_ok r \<longleftrightarrow> shape_ok r \<and> slots_ok r \<and> claims_ok r \<and> owner_ok r"

lemmas reader_ok_defs = reader_ok_def shape_ok_def slots_ok_def claims_ok_def owner_ok_def

lemma reader_ok_fields [simp]:
  "reader_ok (r\<lparr>tr_letterbox := a\<rparr>) = reader_ok r" "reader_ok (r\<lparr>tr_requestedMapping := m\<rparr>) = reader_ok r"
  "reader_ok (r\<lparr>tr_appliedMappingVersion := v\<rparr>) = reader_ok r" "reader_ok (r\<lparr>tr_stopRequested := b\<rparr>) = reader_ok r"
  "reader_ok (r\<lparr>tr_requestedGrab := b\<rparr>) = reader_ok r" "reader_ok (r\<lparr>tr_firstFingerTime := t\<rparr>) = reader_ok r"
  "reader_ok (r\<lparr>tr_gestureMaxFingers := n\<rparr>) = reader_ok r" "reader_ok (r\<lparr>tr_prevActiveCount := n\<rparr>) = reader_ok r"
  by (simp_all add: reader_ok_defs)

text \<open>An operation keeps the invariant and leads the phone along.\<close>

definition good :: "'k touch_reader \<Rightarrow> 'k touch_reader \<times> 'k touch_output list \<Rightarrow> bool" where
  "good r x \<longleftrightarrow> reader_ok (fst x) \<and> follows (tr_aaActive r) (snd x) (tr_aaActive (fst x))"

lemma good_silent: "reader_ok r' \<Longrightarrow> tr_aaActive r' = tr_aaActive r \<Longrightarrow> indications es = [] \<Longrightarrow> good r (r', es)"
  by (simp add: good_def)

lemma good_chain: "good r x \<Longrightarrow> (reader_ok (fst x) \<Longrightarrow> good (fst x) (f (fst x))) \<Longrightarrow> good r (chain x f)"
  by (auto simp: good_def chain_fst chain_snd intro: follows_trans)

lemma applyPendingMapping_good: "reader_ok r \<Longrightarrow> good r (applyPendingMapping rnd force r)"
  by (auto simp: applyPendingMapping_def Let_def intro!: good_silent)

lemma applyPendingMapping_same:
  "tr_deviceGrabbed (fst (applyPendingMapping rnd force r)) = tr_deviceGrabbed r"
  "tr_fd (fst (applyPendingMapping rnd force r)) = tr_fd r"
  by (simp_all add: applyPendingMapping_def Let_def)

lemma resetTouchState_good:
  assumes "shape_ok r"
  shows "good r (resetTouchState rnd r)" "no_finger (tr_aaActive (fst (resetTouchState rnd r)))"
    "tr_deviceGrabbed (fst (resetTouchState rnd r)) = tr_deviceGrabbed r" "tr_fd (fst (resetTouchState rnd r)) = tr_fd r"
  using releaseAaTouchStream_phone [of r rnd] assms
  by (auto simp: resetTouchState_def good_def reader_ok_defs resetClaims_def slot_new_def split: prod.splits)

lemma applyRequestedGrab_good: "reader_ok r \<Longrightarrow> good r (applyRequestedGrab rnd ok r)"
proof -
  assume r: "reader_ok r"
  show ?thesis
  proof (cases "tr_requestedGrab r = tr_deviceGrabbed r \<or> \<not> tr_fd r \<or> \<not> ok")
    case True
    with r show ?thesis by (auto simp: applyRequestedGrab_def Let_def intro: good_silent)
  next
    case False
    show ?thesis
    proof (cases "tr_requestedGrab r")
      case True
      with False r have "reader_ok (r\<lparr>tr_deviceGrabbed := True\<rparr>)" by (simp add: reader_ok_defs)
      with True False show ?thesis by (simp add: applyRequestedGrab_def Let_def good_silent)
    next
      case ungrab: False
      with r have "shape_ok (r\<lparr>tr_deviceGrabbed := False\<rparr>)" by (simp add: reader_ok_defs)
      from resetTouchState_good(1) [OF this] have "good r (resetTouchState rnd (r\<lparr>tr_deviceGrabbed := False\<rparr>))"
        by (simp add: good_def)
      with ungrab False show ?thesis by (simp add: applyRequestedGrab_def Let_def)
    qed
  qed
qed

section \<open>A report\<close>

text \<open>Between the gesture check and the treatment of the touches \<open>owner_ok\<close> may not hold yet.\<close>

definition sync_ok :: "'k touch_reader \<Rightarrow> bool" where
  "sync_ok r \<longleftrightarrow> shape_ok r \<and> slots_ok r \<and> claims_ok r"

lemma checkGesture_same:
  "tr_aaActive (fst (checkGesture t1 t2 r)) = tr_aaActive r" "tr_slots (fst (checkGesture t1 t2 r)) = tr_slots r"
  "tr_prevSlots (fst (checkGesture t1 t2 r)) = tr_prevSlots r" "tr_router (fst (checkGesture t1 t2 r)) = tr_router r"
  "tr_deviceGrabbed (fst (checkGesture t1 t2 r)) = tr_deviceGrabbed r" "tr_fd (fst (checkGesture t1 t2 r)) = tr_fd r"
  "tr_handler (fst (checkGesture t1 t2 r)) = tr_handler r" "tr_currentSlot (fst (checkGesture t1 t2 r)) = tr_currentSlot r"
  "indications (snd (checkGesture t1 t2 r)) = []"
  by (simp_all add: checkGesture_def Let_def)

lemma checkGesture_sync_ok: "reader_ok r \<Longrightarrow> sync_ok (fst (checkGesture t1 t2 r))"
  by (simp add: sync_ok_def reader_ok_defs checkGesture_same)

lemma save_slots_ok:
  assumes "sync_ok r" "\<forall>i<MAX_SLOTS. tr_aaActive r ! i \<longrightarrow> sl_trackingId (tr_slots r ! i) \<ge> 0"
  shows "sync_ok (save_slots r)"
  using assms by (auto simp: sync_ok_def shape_ok_def slots_ok_def claims_ok_def save_slots_def clear_dirty_def)

lemma ungrabbed_report_good:
  assumes r: "reader_ok r" and g: "\<not> tr_deviceGrabbed r"
  shows "good r (chain (checkGesture t1 t2 r) (\<lambda>r. (save_slots r, [])))"
proof -
  let ?r = "fst (checkGesture t1 t2 r)"
  have n: "no_finger (tr_aaActive r)" using r g by (simp add: reader_ok_def owner_ok_def)
  have "sync_ok (save_slots ?r)"
    by (rule save_slots_ok) (use checkGesture_sync_ok [OF r] n in \<open>simp_all add: no_finger_def checkGesture_same\<close>)
  then have "reader_ok (save_slots ?r)"
    using n by (simp add: sync_ok_def reader_ok_def owner_ok_def save_slots_def checkGesture_same)
  then show ?thesis
    by (simp add: good_def chain_fst chain_snd checkGesture_same save_slots_def)
qed

text \<open>A zone consumes a touch only of a finger the phone does not see.\<close>

definition dispatch_ok :: "nat \<Rightarrow> 'k touch_reader \<Rightarrow> bool list \<Rightarrow> bool" where
  "dispatch_ok n r consumed \<longleftrightarrow> sync_ok r \<and> length consumed = MAX_SLOTS
     \<and> (\<forall>i<MAX_SLOTS. consumed ! i \<longrightarrow> \<not> tr_aaActive r ! i)
     \<and> (\<forall>i<n. pressed r i \<and> rt_claimedZone (tr_router r) ! i \<noteq> [] \<longrightarrow> consumed ! i)"

lemma setZones_claims:
  "length (rt_claimedZone (setZones sorter zs r)) = length (rt_claimedZone r)"
  "i < length (rt_claimedZone r) \<Longrightarrow> rt_claimedZone r ! i = [] \<Longrightarrow> rt_claimedZone (setZones sorter zs r) ! i = []"
  by (simp_all add: setZones_def Let_def)

lemma fold_setZones_claims:
  "length (rt_claimedZone (fold (setZones sorter) zss r)) = length (rt_claimedZone r)"
  "i < length (rt_claimedZone r) \<Longrightarrow> rt_claimedZone r ! i = [] \<Longrightarrow> rt_claimedZone (fold (setZones sorter) zss r) ! i = []"
  by (induction zss arbitrary: r) (simp_all add: setZones_claims)

lemma dispatch_claims:
  assumes "i < MAX_SLOTS" "length (rt_claimedZone r) = MAX_SLOTS" "dispatch (int i) x y ev r = (r', c, es)"
  shows "length (rt_claimedZone r') = MAX_SLOTS" "j \<noteq> i \<Longrightarrow> rt_claimedZone r' ! j = rt_claimedZone r ! j"
    and "rt_claimedZone r' ! i \<noteq> [] \<Longrightarrow> c" "c \<Longrightarrow> rt_claimedZone r ! i = [] \<Longrightarrow> ev = TouchDown" "indications es = []"
  using assms by (auto simp: dispatch_def Let_def set_claim_def split: option.splits if_splits)

text \<open>The zone that gets a touch has the highest priority of those under it.\<close>

definition sorter_ok :: "('k touch_zone list \<Rightarrow> 'k touch_zone list) \<Rightarrow> bool" where
  "sorter_ok sorter \<longleftrightarrow> (\<forall>zs. set (sorter zs) = set zs \<and> sorted_wrt (\<lambda>a b. zn_priority a \<ge> zn_priority b) (sorter zs))"

lemma find_first_highest:
  "sorted_wrt (\<lambda>a b. zn_priority a \<ge> zn_priority b) zs \<Longrightarrow> find P zs = Some z
    \<Longrightarrow> z \<in> set zs \<and> P z \<and> (\<forall>z' \<in> set zs. P z' \<longrightarrow> zn_priority z' \<le> zn_priority z)"
  by (induction zs) (auto split: if_splits)

lemma set_zones: "rt_zones (set_claim i c r) = rt_zones r" "rt_zones (setZones sorter zs r) = sorter zs"
  by (simp_all add: set_claim_def setZones_def Let_def)

lemma dispatch_highest_priority:
  assumes "sorter_ok sorter" "i < MAX_SLOTS" "length (rt_claimedZone r) = MAX_SLOTS" "rt_claimedZone r ! i = []"
    and d: "dispatch (int i) x y TouchDown (setZones sorter zs r) = (r', c, es)"
  shows "c \<longleftrightarrow> (\<exists>z \<in> set zs. zone_contains x y z)"
    and "c \<Longrightarrow> \<exists>z \<in> set zs. zone_contains x y z \<and> (\<forall>z' \<in> set zs. zone_contains x y z' \<longrightarrow> zn_priority z' \<le> zn_priority z)
           \<and> es = [ZoneCall (zn_callback z) i x y TouchDown] \<and> rt_claimedZone r' ! i = zn_id z"
proof -
  have s: "set (sorter zs) = set zs" "sorted_wrt (\<lambda>a b. zn_priority a \<ge> zn_priority b) (sorter zs)"
    using assms(1) by (simp_all add: sorter_ok_def)
  have d': "(case find (zone_contains x y) (sorter zs) of
      Some z \<Rightarrow> (set_claim i (zn_id z) (set_claim i [] (setZones sorter zs r)), True, [ZoneCall (zn_callback z) i x y TouchDown])
    | None \<Rightarrow> (set_claim i [] (setZones sorter zs r), False, [])) = (r', c, es)"
    using d assms(2-4) by (simp add: dispatch_def Let_def setZones_claims set_zones)
  show "c \<longleftrightarrow> (\<exists>z \<in> set zs. zone_contains x y z)"
  proof (cases "find (zone_contains x y) (sorter zs)")
    case None
    with d' s(1) show ?thesis by (auto simp: find_None_iff)
  next
    case (Some z)
    with find_first_highest [OF s(2) Some] d' s(1) show ?thesis by auto
  qed
  show "\<exists>z \<in> set zs. zone_contains x y z \<and> (\<forall>z' \<in> set zs. zone_contains x y z' \<longrightarrow> zn_priority z' \<le> zn_priority z)
      \<and> es = [ZoneCall (zn_callback z) i x y TouchDown] \<and> rt_claimedZone r' ! i = zn_id z" if c
  proof (cases "find (zone_contains x y) (sorter zs)")
    case None
    with d' that show ?thesis by simp
  next
    case (Some z)
    with find_first_highest [OF s(2) Some] d' s(1) assms(2,3) show ?thesis
      by (auto simp: set_claim_def setZones_claims)
  qed
qed

lemma slot_event_down:
  assumes "slot_event prev cur = Some (ev, x, y)"
  shows "ev = TouchDown \<longleftrightarrow> \<not> sl_trackingId prev \<ge> 0"
  using assms by (auto simp: slot_event_def Let_def split: if_splits)

lemma pressed_event: "pressed r i \<Longrightarrow> slot_event (tr_prevSlots r ! i) (tr_slots r ! i) \<noteq> None"
  by (simp add: pressed_def slot_event_def)

lemma pressed_router [simp]: "pressed (r\<lparr>tr_router := rt\<rparr>) i = pressed r i"
  by (simp add: pressed_def)

lemma sync_ok_router:
  "sync_ok (r\<lparr>tr_router := rt\<rparr>) \<longleftrightarrow> shape_ok r \<and> slots_ok r \<and> length (rt_claimedZone rt) = MAX_SLOTS
     \<and> (\<forall>i<MAX_SLOTS. tr_aaActive r ! i \<longrightarrow> rt_claimedZone rt ! i = [])"
  if "length (rt_claimedZone (tr_router r)) = MAX_SLOTS"
  using that by (auto simp: sync_ok_def shape_ok_def slots_ok_def claims_ok_def)

lemma dispatch_slot_ok:
  assumes ok: "dispatch_ok i r consumed" and i: "i < MAX_SLOTS"
    and d: "dispatch_slot rnd sorter zones i (r, consumed) = ((r', consumed'), es)"
  shows "\<exists>rt. r' = r\<lparr>tr_router := rt\<rparr>" and "dispatch_ok (Suc i) r' consumed'" and "indications es = []"
proof -
  define rt where "rt = fold (setZones sorter) (zones i) (tr_router r)"
  have ok': "shape_ok r" "slots_ok r" "claims_ok r" "length consumed = MAX_SLOTS"
      "\<And>j. j < MAX_SLOTS \<Longrightarrow> consumed ! j \<Longrightarrow> \<not> tr_aaActive r ! j"
      "\<And>j. j < i \<Longrightarrow> pressed r j \<Longrightarrow> rt_claimedZone (tr_router r) ! j \<noteq> [] \<Longrightarrow> consumed ! j"
    using ok by (auto simp: dispatch_ok_def sync_ok_def)
  have len: "length (rt_claimedZone (tr_router r)) = MAX_SLOTS" using ok' by (simp add: shape_ok_def)
  have rt: "length (rt_claimedZone rt) = MAX_SLOTS"
      "\<And>j. j < MAX_SLOTS \<Longrightarrow> rt_claimedZone (tr_router r) ! j = [] \<Longrightarrow> rt_claimedZone rt ! j = []"
    using fold_setZones_claims [where r = "tr_router r" and zss = "zones i" and sorter = sorter] len by (simp_all add: rt_def)
  have free: "rt_claimedZone rt ! j = []" if "j < MAX_SLOTS" "tr_aaActive r ! j" for j
    using rt(2) ok'(3) that by (simp add: claims_ok_def)
  show "\<exists>rt. r' = r\<lparr>tr_router := rt\<rparr>" and "dispatch_ok (Suc i) r' consumed'" and "indications es = []"
  proof (atomize (full), cases "slot_event (tr_prevSlots r ! i) (tr_slots r ! i)")
    case None
    then have r': "r' = r\<lparr>tr_router := rt\<rparr>" "consumed' = consumed" "es = []"
      using d by (simp_all add: dispatch_slot_def Let_def rt_def)
    have "consumed ! j" if "j < Suc i" "pressed r j" "rt_claimedZone rt ! j \<noteq> []" for j
      using that ok'(6) [of j] rt(2) [of j] None pressed_event [of r j] i by (cases "j = i") auto
    then have "dispatch_ok (Suc i) r' consumed'"
      using ok' rt free by (auto simp: r' dispatch_ok_def sync_ok_router len)
    with r' show "(\<exists>rt. r' = r\<lparr>tr_router := rt\<rparr>) \<and> dispatch_ok (Suc i) r' consumed' \<and> indications es = []" by auto
  next
    case (Some e)
    obtain ev x y where e: "e = (ev, x, y)" by (cases e)
    obtain rt' c es' where dd: "dispatch (int i) (to_float rnd x) (to_float rnd y) ev rt = (rt', c, es')"
      by (cases "dispatch (int i) (to_float rnd x) (to_float rnd y) ev rt")
    have r': "r' = r\<lparr>tr_router := rt'\<rparr>" "consumed' = consumed[i := c]" "es = es'"
      using d Some e dd by (simp_all add: dispatch_slot_def Let_def rt_def)
    note dc = dispatch_claims [OF i rt(1) dd]
    have unseen: "\<not> tr_aaActive r ! i" if c
    proof
      assume a: "tr_aaActive r ! i"
      with dc(4) that free i have "ev = TouchDown" by blast
      with a slot_event_down [of _ _ ev x y] Some e ok'(2) i show False by (auto simp: slots_ok_def)
    qed
    have "rt_claimedZone rt' ! j = []" if "j < MAX_SLOTS" "tr_aaActive r ! j" for j
      using that dc(2,3) unseen free by (cases "j = i") auto
    then have "sync_ok r'" using ok' dc(1) by (simp add: r' sync_ok_router len)
    moreover have "consumed' ! j" if "j < Suc i" "pressed r j" "rt_claimedZone rt' ! j \<noteq> []" for j
      using that ok'(4) ok'(6) [of j] dc(2) [of j] dc(3) rt(2) [of j] i by (cases "j = i") (auto simp: r')
    moreover have "\<not> tr_aaActive r ! j" if "j < MAX_SLOTS" "consumed' ! j" for j
      using that ok'(4,5) unseen i by (cases "j = i") (auto simp: r')
    ultimately have "dispatch_ok (Suc i) r' consumed'" using ok'(4) by (simp add: r' dispatch_ok_def)
    with r' dc(5) show "(\<exists>rt. r' = r\<lparr>tr_router := rt\<rparr>) \<and> dispatch_ok (Suc i) r' consumed' \<and> indications es = []" by auto
  qed
qed

lemma dispatch_loop_ok:
  assumes "dispatch_ok 0 r consumed" "n \<le> MAX_SLOTS"
  shows "\<exists>rt consumed' es. run (dispatch_slot rnd sorter zones) [0..<n] (r, consumed) = ((r\<lparr>tr_router := rt\<rparr>, consumed'), es)
    \<and> dispatch_ok n (r\<lparr>tr_router := rt\<rparr>) consumed' \<and> indications es = []"
  using assms(2)
proof (induction n)
  case 0
  show ?case by (rule exI [of _ "tr_router r"]) (simp add: assms(1))
next
  case (Suc n)
  then obtain rt c es where IH: "run (dispatch_slot rnd sorter zones) [0..<n] (r, consumed) = ((r\<lparr>tr_router := rt\<rparr>, c), es)"
      "dispatch_ok n (r\<lparr>tr_router := rt\<rparr>) c" "indications es = []" by auto
  obtain r' c' es' where d: "dispatch_slot rnd sorter zones n (r\<lparr>tr_router := rt\<rparr>, c) = ((r', c'), es')"
    by (metis prod.exhaust)
  from dispatch_slot_ok [OF IH(2) _ d] Suc.prems have
    "\<exists>rt'. r' = r\<lparr>tr_router := rt'\<rparr>" "dispatch_ok (Suc n) r' c'" "indications es' = []" by auto
  moreover have "run (dispatch_slot rnd sorter zones) [0..<Suc n] (r, consumed) = ((r', c'), es @ es')"
    by (rule prod_eqI) (simp_all add: run_snoc IH(1) d)
  ultimately show ?case using IH(3) by auto
qed

lemma sync_ok_fingers:
  assumes "sync_ok r" "length aa = MAX_SLOTS"
    "\<forall>i<MAX_SLOTS. aa ! i \<longrightarrow> sl_trackingId (tr_slots r ! i) \<ge> 0 \<and> rt_claimedZone (tr_router r) ! i = []"
  shows "sync_ok (save_slots (r\<lparr>tr_aaActive := aa\<rparr>))"
  using assms by (auto simp: sync_ok_def shape_ok_def slots_ok_def claims_ok_def save_slots_def clear_dirty_def)

lemma suppress_touches_good:
  assumes "sync_ok r"
  shows "good r (suppress_touches rnd r)" "no_finger (tr_aaActive (fst (suppress_touches rnd r)))"
proof -
  have s: "shape_ok r" using assms by (simp add: sync_ok_def)
  note rel = releaseAaTouchStream_phone [of r rnd]
  have "sync_ok (save_slots (r\<lparr>tr_aaActive := replicate MAX_SLOTS False\<rparr>))"
    by (rule sync_ok_fingers [OF assms]) simp_all
  then show "good r (suppress_touches rnd r)" "no_finger (tr_aaActive (fst (suppress_touches rnd r)))"
    using rel s by (simp_all add: suppress_touches_def good_def chain_fst chain_snd shape_ok_def save_slots_def
        reader_ok_def owner_ok_def sync_ok_def)
qed

lemma forward_touches_good:
  assumes ok: "dispatch_ok MAX_SLOTS r consumed" and grab: "tr_deviceGrabbed r" "\<not> tr_gestureActive r"
  shows "good r (forward_touches rnd consumed r)"
    and "tr_aaActive (fst (forward_touches rnd consumed r)) = admitted consumed (r\<lparr>tr_aaActive := retired consumed r\<rparr>)"
proof -
  have s: "shape_ok r" "slots_ok r" "claims_ok r" "length consumed = MAX_SLOTS"
      "\<And>i. i < MAX_SLOTS \<Longrightarrow> consumed ! i \<Longrightarrow> \<not> tr_aaActive r ! i"
      "\<And>i. i < MAX_SLOTS \<Longrightarrow> pressed r i \<Longrightarrow> rt_claimedZone (tr_router r) ! i \<noteq> [] \<Longrightarrow> consumed ! i"
    using ok by (auto simp: dispatch_ok_def sync_ok_def)
  have h: "tr_handler r" "length (tr_aaActive r) = MAX_SLOTS" using s(1) by (simp_all add: shape_ok_def)
  define r1 where "r1 = r\<lparr>tr_aaActive := retired consumed r\<rparr>"
  define aa where "aa = admitted consumed r1"
  have len: "length (retired consumed r) = MAX_SLOTS" "length aa = MAX_SLOTS"
    by (simp_all add: retired_def aa_def admitted_def r1_def h)
  have r1: "fst (retire_lifted rnd consumed r) = r1" "follows (tr_aaActive r) (snd (retire_lifted rnd consumed r)) (retired consumed r)"
    using retire_lifted_phone [OF h] by (simp_all add: r1_def)
  have "\<forall>i<MAX_SLOTS. pressed r1 i \<longrightarrow> \<not> tr_aaActive r1 ! i"
    using s(2) h by (auto simp: r1_def pressed_def slots_ok_def retired_def)
  then have r2: "fst (admit_pressed rnd consumed r1) = r1\<lparr>tr_aaActive := aa\<rparr>"
      "follows (retired consumed r) (snd (admit_pressed rnd consumed r1)) aa"
    using admit_pressed_phone [of r1 rnd consumed] h len by (simp_all add: r1_def aa_def)
  have aa: "aa ! i \<longleftrightarrow> pressed r i \<and> \<not> consumed ! i \<or> tr_aaActive r ! i \<and> \<not> (lifted r i \<and> \<not> consumed ! i)" if "i < MAX_SLOTS" for i
    using that h len by (auto simp: aa_def admitted_def r1_def retired_def)
  have fingers: "sl_trackingId (tr_slots r ! i) \<ge> 0 \<and> rt_claimedZone (tr_router r) ! i = []" if "i < MAX_SLOTS" "aa ! i" for i
    using that aa [of i] s(2,3) s(5,6) [of i] by (auto simp: pressed_def lifted_def slots_ok_def claims_ok_def)
  have "sync_ok (save_slots (r\<lparr>tr_aaActive := aa\<rparr>))"
    by (rule sync_ok_fingers) (use ok len fingers in \<open>simp_all add: dispatch_ok_def\<close>)
  then have rok: "reader_ok (save_slots (r\<lparr>tr_aaActive := aa\<rparr>))"
    using grab by (simp add: sync_ok_def reader_ok_def owner_ok_def save_slots_def)
  note mv = send_move_phone [of rnd consumed "boundary consumed r" "r1\<lparr>tr_aaActive := aa\<rparr>"]
  show "good r (forward_touches rnd consumed r)"
    using r1 r2 rok mv follows_trans [OF follows_trans [OF r1(2) r2(2)]]
    by (simp add: forward_touches_def good_def chain_fst chain_snd r1_def save_slots_def)
  show "tr_aaActive (fst (forward_touches rnd consumed r)) = admitted consumed (r\<lparr>tr_aaActive := retired consumed r\<rparr>)"
    using r1 r2 mv by (simp add: forward_touches_def chain_fst r1_def save_slots_def aa_def)
qed

lemma dispatch_ok_start: "sync_ok r \<Longrightarrow> dispatch_ok 0 r (replicate MAX_SLOTS False)"
  by (simp add: dispatch_ok_def)

lemma processSync_good:
  assumes r: "reader_ok r" and g: "tr_deviceGrabbed r"
  shows "good r (processSync rnd sorter sy r)"
proof -
  define r0 where "r0 = r\<lparr>tr_requestedMapping := fold id (sy_mapping sy) (tr_requestedMapping r)\<rparr>"
  obtain r1 es1 where m: "applyPendingMapping rnd False r0 = (r1, es1)" by (metis prod.exhaust)
  have r1: "reader_ok r1" "tr_deviceGrabbed r1" "follows (tr_aaActive r) es1 (tr_aaActive r1)"
    using applyPendingMapping_good [of r0 rnd False] applyPendingMapping_same(1) [of rnd False r0] m r g
    by (simp_all add: good_def r0_def)
  obtain r2 es2 where c: "checkGesture (sy_t1 sy) (sy_t2 sy) r1 = (r2, es2)" by (metis prod.exhaust)
  note same = checkGesture_same [of "sy_t1 sy" "sy_t2 sy" r1, unfolded c fst_conv snd_conv]
  have r2: "sync_ok r2" using checkGesture_sync_ok [OF r1(1), of "sy_t1 sy" "sy_t2 sy"] c by simp
  obtain rt consumed es3 where d: "run (dispatch_slot rnd sorter (sy_zones sy)) [0..<MAX_SLOTS] (r2, replicate MAX_SLOTS False)
        = ((r2\<lparr>tr_router := rt\<rparr>, consumed), es3)"
      "dispatch_ok MAX_SLOTS (r2\<lparr>tr_router := rt\<rparr>) consumed" "indications es3 = []"
    using dispatch_loop_ok [OF dispatch_ok_start [OF r2] order_refl, of rnd sorter "sy_zones sy"] by blast
  let ?r3 = "r2\<lparr>tr_router := rt\<rparr>"
  have pre: "follows (tr_aaActive r) (es1 @ es2 @ es3) (tr_aaActive ?r3)"
    using r1(3) same d(3) by (simp add: follows_def)
  have "good ?r3 ((if tr_gestureActive r2 then suppress_touches rnd else forward_touches rnd consumed) ?r3)"
    using suppress_touches_good(1) [of ?r3 rnd] forward_touches_good(1) [OF d(2), of rnd] d(2) same r1(2)
    by (auto simp: dispatch_ok_def)
  with pre show ?thesis
    using m c d(1) follows_trans [OF pre] by (auto simp: processSync_def r0_def good_def chain_fst chain_snd Let_def)
qed

section \<open>The thread\<close>

lemma update_slot_ok: "reader_ok r \<Longrightarrow> (\<And>s. sl_dirty (f s) = sl_dirty s) \<Longrightarrow> reader_ok (update_slot f r)"
  by (auto simp: reader_ok_defs update_slot_def nth_list_update)

lemma handle_event_good: "reader_ok r \<Longrightarrow> good r (handle_event rnd sorter ev r)"
proof (cases ev)
  case (SynReport sy)
  assume "reader_ok r"
  then show ?thesis
    using SynReport processSync_good ungrabbed_report_good by (cases "tr_deviceGrabbed r") simp_all
qed (auto intro!: good_silent simp: update_slot_ok, simp_all add: reader_ok_defs update_slot_def MAX_SLOTS_def nat_less_iff)

lemma reader_lost_good:
  assumes "reader_ok r"
  shows "good r (reader_lost rnd r)" "no_finger (tr_aaActive (fst (reader_lost rnd r)))"
proof -
  have "shape_ok (closeDevice r)" using assms by (auto simp: reader_ok_def shape_ok_def closeDevice_def)
  from resetTouchState_good(1,2) [OF this, of rnd] show "good r (reader_lost rnd r)"
      "no_finger (tr_aaActive (fst (reader_lost rnd r)))"
    by (simp_all add: reader_lost_def good_def closeDevice_def split: if_splits)
qed

lemma reader_opened_good:
  assumes "reader_ok r" "\<not> tr_fd r"
  shows "good r (reader_opened rnd ax ay ok r)"
proof -
  let ?r = "queryAxisRanges ax ay (r\<lparr>tr_fd := True\<rparr>)"
  have "reader_ok ?r" "tr_aaActive ?r = tr_aaActive r"
    using assms by (auto simp: queryAxisRanges_def reader_ok_defs)
  then have "good r (applyPendingMapping rnd True ?r)"
    using applyPendingMapping_good [of ?r rnd True] by (simp add: good_def)
  then show ?thesis
    unfolding reader_opened_def
    by (intro good_chain) (simp_all add: resetTouchState_good(1) reader_ok_def applyRequestedGrab_good)
qed

lemma reader_pass_good: "reader_ok r \<Longrightarrow> good r (reader_pass rnd sorter ok inp r)"
  unfolding reader_pass_def
  by (intro good_chain applyPendingMapping_good applyRequestedGrab_good)
     (auto split: device_input.split intro: handle_event_good good_silent reader_lost_good(1))

lemma setZones_good: "reader_ok r \<Longrightarrow> good r (r\<lparr>tr_router := setZones sorter zs (tr_router r)\<rparr>, [])"
  by (rule good_silent) (simp_all add: reader_ok_defs setZones_claims)

lemma reader_step_good:
  assumes r: "reader_ok r"
  shows "good r (reader_step rnd sorter x r)"
proof (cases x)
  case (RdOpen ax ay ok)
  with r show ?thesis by (simp add: reader_opened_good good_silent)
next
  case (RdPass ok inp)
  with r show ?thesis by (simp add: reader_pass_good good_silent)
next
  case RdStop
  with r show ?thesis by (simp add: reader_lost_good(1) good_silent)
next
  case (DoSetZones zs)
  with r show ?thesis by (simp add: setZones_good)
qed (use r in \<open>simp_all add: good_silent\<close>)

lemma reader_new_ok: "reader_ok (reader_new True aaW aaH dispW dispH)"
  by (simp add: reader_ok_defs reader_new_def Let_def router_new_def MAX_SLOTS_def slot_new_def no_finger_def)

lemma reader_run_ok:
  "reader_ok (fst (run (reader_step rnd sorter) ops (reader_new True aaW aaH dispW dispH)))
    \<and> follows (replicate MAX_SLOTS False) (snd (run (reader_step rnd sorter) ops (reader_new True aaW aaH dispW dispH)))
        (tr_aaActive (fst (run (reader_step rnd sorter) ops (reader_new True aaW aaH dispW dispH))))"
proof (rule run_history_invariant [where I = "\<lambda>r h. reader_ok r \<and> follows (replicate MAX_SLOTS False) h (tr_aaActive r)"])
  show "reader_ok (reader_new True aaW aaH dispW dispH)
      \<and> follows (replicate MAX_SLOTS False) [] (tr_aaActive (reader_new True aaW aaH dispW dispH))"
    by (simp add: reader_new_ok) (simp add: reader_new_def Let_def)
next
  fix x and s :: "'a touch_reader" and h :: "'a touch_output list"
  assume "reader_ok s \<and> follows (replicate MAX_SLOTS False) h (tr_aaActive s)"
  then show "reader_ok (fst (reader_step rnd sorter x s)) \<and> follows (replicate MAX_SLOTS False)
      (h @ snd (reader_step rnd sorter x s)) (tr_aaActive (fst (reader_step rnd sorter x s)))"
    using reader_step_good [of s rnd sorter x] by (auto simp: good_def intro: follows_trans)
qed

text \<open>The fingers on the screen, in the last report and now.\<close>

definition fingers :: "touch_slot list \<Rightarrow> int list" where
  "fingers ss = map int (filter (\<lambda>i. sl_trackingId (ss ! i) \<ge> 0) [0..<MAX_SLOTS])"

lemma active_fingers: "active_ids aa = fingers ss \<longleftrightarrow> (\<forall>i<MAX_SLOTS. aa ! i \<longleftrightarrow> sl_trackingId (ss ! i) \<ge> 0)"
proof
  assume "active_ids aa = fingers ss"
  then have "set (active_ids aa) = set (fingers ss)" by simp
  then have "int i \<in> set (active_ids aa) \<longleftrightarrow> int i \<in> set (fingers ss)" for i by simp
  then show "\<forall>i<MAX_SLOTS. aa ! i \<longleftrightarrow> sl_trackingId (ss ! i) \<ge> 0"
    by (simp add: active_ids_def fingers_def image_iff) blast
qed (auto simp: active_ids_def fingers_def intro: filter_cong)

lemma dispatch_no_zones: "rt_zones rt = [] \<Longrightarrow> dispatch i x y ev rt = (rt', c, es) \<Longrightarrow> \<not> c \<and> rt_zones rt' = []"
  by (auto simp: dispatch_def Let_def set_claim_def split: if_splits)

lemma dispatch_loop_no_zones:
  assumes "rt_zones (tr_router r) = []"
  shows "\<exists>rt es. rt_zones rt = [] \<and> run (dispatch_slot rnd sorter (\<lambda>i. [])) xs (r, replicate MAX_SLOTS False)
    = ((r\<lparr>tr_router := rt\<rparr>, replicate MAX_SLOTS False), es)"
  using assms
proof (induction xs arbitrary: r)
  case Nil
  show ?case by (rule exI [of _ "tr_router r"]) (simp add: Nil)
next
  case (Cons i xs)
  have "\<exists>rt es. rt_zones rt = [] \<and> dispatch_slot rnd sorter (\<lambda>i. []) i (r, replicate MAX_SLOTS False)
      = ((r\<lparr>tr_router := rt\<rparr>, replicate MAX_SLOTS False), es)"
  proof (cases "slot_event (tr_prevSlots r ! i) (tr_slots r ! i)")
    case None
    with Cons.prems show ?thesis by (intro exI [of _ "tr_router r"] exI [of _ "[]"]) (simp add: dispatch_slot_def)
  next
    case (Some e)
    obtain ev x y where e: "e = (ev, x, y)" by (cases e)
    obtain rt c es where d: "dispatch (int i) (to_float rnd x) (to_float rnd y) ev (tr_router r) = (rt, c, es)"
      by (cases "dispatch (int i) (to_float rnd x) (to_float rnd y) ev (tr_router r)")
    have "(replicate MAX_SLOTS False)[i := False] = replicate MAX_SLOTS False"
      by (metis list_update_id list_update_beyond length_replicate not_less nth_replicate)
    with dispatch_no_zones [OF Cons.prems d] d Some e show ?thesis
      by (intro exI [of _ rt] exI [of _ es]) (simp add: dispatch_slot_def)
  qed
  then obtain rt es where st: "rt_zones rt = []" "dispatch_slot rnd sorter (\<lambda>i. []) i (r, replicate MAX_SLOTS False)
      = ((r\<lparr>tr_router := rt\<rparr>, replicate MAX_SLOTS False), es)" by blast
  from Cons.IH [of "r\<lparr>tr_router := rt\<rparr>"] st(1) obtain rt' es' where
    "rt_zones rt' = []" "run (dispatch_slot rnd sorter (\<lambda>i. [])) xs (r\<lparr>tr_router := rt\<rparr>, replicate MAX_SLOTS False)
      = ((r\<lparr>tr_router := rt'\<rparr>, replicate MAX_SLOTS False), es')" by auto
  with st show ?case by (intro exI [of _ rt'] exI [of _ "es @ es'"]) (simp add: run.simps(2))
qed

lemma unclaimed_report:
  assumes r: "reader_ok r" "tr_deviceGrabbed r" and z: "rt_zones (tr_router r) = []" "sy_zones sy = (\<lambda>i. [])"
    and seen: "active_ids (tr_aaActive r) = fingers (tr_prevSlots r)"
    and g: "\<not> tr_gestureActive (fst (processSync rnd sorter sy r))"
  shows "active_ids (tr_aaActive (fst (processSync rnd sorter sy r))) = fingers (tr_slots r)"
proof -
  define r0 where "r0 = r\<lparr>tr_requestedMapping := fold id (sy_mapping sy) (tr_requestedMapping r)\<rparr>"
  obtain r1 es1 where m: "applyPendingMapping rnd False r0 = (r1, es1)" by (metis prod.exhaust)
  have r1: "reader_ok r1" "tr_deviceGrabbed r1" "tr_router r1 = tr_router r" "tr_slots r1 = tr_slots r" "tr_prevSlots r1 = tr_prevSlots r"
      "tr_aaActive r1 = tr_aaActive r"
    using applyPendingMapping_good [of r0 rnd False] m r
    by (auto simp: good_def r0_def applyPendingMapping_def Let_def split: if_splits)
  obtain r2 es2 where c: "checkGesture (sy_t1 sy) (sy_t2 sy) r1 = (r2, es2)" by (metis prod.exhaust)
  note same = checkGesture_same [of "sy_t1 sy" "sy_t2 sy" r1, unfolded c fst_conv snd_conv]
  have r2: "sync_ok r2" using checkGesture_sync_ok [OF r1(1), of "sy_t1 sy" "sy_t2 sy"] c by simp
  let ?F = "replicate MAX_SLOTS False"
  obtain rt es3 where d: "run (dispatch_slot rnd sorter (sy_zones sy)) [0..<MAX_SLOTS] (r2, ?F) = ((r2\<lparr>tr_router := rt\<rparr>, ?F), es3)"
    using dispatch_loop_no_zones [of r2 rnd sorter "[0..<MAX_SLOTS]"] z same r1(3) by auto
  let ?r3 = "r2\<lparr>tr_router := rt\<rparr>"
  have ok: "dispatch_ok MAX_SLOTS ?r3 ?F"
    using dispatch_loop_ok [OF dispatch_ok_start [OF r2] order_refl, of rnd sorter "sy_zones sy"] d by auto
  have res: "fst (processSync rnd sorter sy r)
      = fst ((if tr_gestureActive r2 then suppress_touches rnd else forward_touches rnd ?F) ?r3)"
    using m c d by (simp add: processSync_def r0_def chain_fst Let_def)
  have "\<not> tr_gestureActive r2"
    using g releaseAaTouchStream_phone(1) [of ?r3 rnd] ok
    by (auto simp: res suppress_touches_def chain_fst save_slots_def dispatch_ok_def sync_ok_def shape_ok_def split: if_splits)
  with forward_touches_good(2) [OF ok, of rnd] r1(2) same
  have aa: "tr_aaActive (fst (processSync rnd sorter sy r)) = admitted ?F (?r3\<lparr>tr_aaActive := retired ?F ?r3\<rparr>)"
    by (simp add: res)
  have "length (tr_aaActive r) = MAX_SLOTS" using r(1) by (simp add: reader_ok_def shape_ok_def)
  then show ?thesis
    using seen r(1) unfolding aa active_fingers
    by (auto simp: admitted_def retired_def lifted_def pressed_def same r1 reader_ok_def slots_ok_def)
qed

section \<open>Coordinates\<close>

lemma clamp01_mono: "x \<le> y \<Longrightarrow> clamp01 x \<le> clamp01 y"
  by (simp add: clamp01_def)

lemma clamp01_range: "0 \<le> clamp01 x" "clamp01 x \<le> 1"
  by (simp_all add: clamp01_def)

lemma map_axis_ok:
  assumes rnd: "rnd_ok rnd" and n: "0 < n" "n \<le> 2 ^ 24" and w: "0 < w" "rnd w = w"
  shows "0 \<le> map_axis rnd x0 w (to_float rnd n) raw" "map_axis rnd x0 w (to_float rnd n) raw \<le> n"
    and "raw \<le> raw' \<Longrightarrow> map_axis rnd x0 w (to_float rnd n) raw \<le> map_axis rnd x0 w (to_float rnd n) raw'"
    and "to_float rnd raw \<le> x0 \<Longrightarrow> map_axis rnd x0 w (to_float rnd n) raw = 0"
    and "x0 + w \<le> to_float rnd raw \<Longrightarrow> map_axis rnd x0 w (to_float rnd n) raw = n"
proof -
  have v: "to_float rnd n = of_int n" unfolding to_float_def by (rule rnd_exact [OF rnd]) (use n in simp)
  define rel where "rel x = clamp01 (rnd (rnd (to_float rnd x - x0) / w))" for x
  have m: "map_axis rnd x0 w (to_float rnd n) x = trunc (rnd (rel x * of_int n))" for x
    by (simp add: map_axis_def rel_def v)
  have rel: "0 \<le> rel x * of_int n" "rel x * of_int n \<le> of_int n" for x
    using clamp01_range n by (simp_all add: rel_def mult_left_le_one_le)
  have lo: "0 \<le> rnd (rel x * of_int n)" for x using rnd_mono [OF rnd rel(1)] rnd_0_1 [OF rnd] by simp
  have hi: "rnd (rel x * of_int n) \<le> of_int n" for x
    using rnd_mono [OF rnd rel(2) [of x]] v by (simp add: to_float_def)
  have tr: "trunc (of_int n) = n" using n by (simp add: trunc_def)
  show "0 \<le> map_axis rnd x0 w (to_float rnd n) raw" using trunc_mono [OF order_refl lo [of raw]] by (simp add: m trunc_def)
  show "map_axis rnd x0 w (to_float rnd n) raw \<le> n" using trunc_mono [OF lo hi, of raw] by (simp add: m tr)
  show "map_axis rnd x0 w (to_float rnd n) raw \<le> map_axis rnd x0 w (to_float rnd n) raw'" if "raw \<le> raw'"
  proof -
    have "to_float rnd raw \<le> to_float rnd raw'" using that unfolding to_float_def by (intro rnd_mono [OF rnd]) simp
    then have "rel raw \<le> rel raw'"
      unfolding rel_def using w by (intro clamp01_mono rnd_mono [OF rnd] divide_right_mono) simp_all
    then have "rel raw * of_int n \<le> rel raw' * of_int n" using n by (intro mult_right_mono) simp_all
    then show ?thesis unfolding m by (intro trunc_mono lo rnd_mono [OF rnd])
  qed
  show "map_axis rnd x0 w (to_float rnd n) raw = 0" if "to_float rnd raw \<le> x0"
  proof -
    have "rnd (to_float rnd raw - x0) \<le> 0" using rnd_mono [OF rnd, of "to_float rnd raw - x0" 0] that rnd_0_1 [OF rnd] by simp
    then have "rnd (to_float rnd raw - x0) / w \<le> 0" using w by (simp add: divide_le_0_iff)
    then have "rnd (rnd (to_float rnd raw - x0) / w) \<le> 0" using rnd_mono [OF rnd] rnd_0_1 [OF rnd] by metis
    then have "rel raw = 0" by (simp add: rel_def clamp01_def)
    then show ?thesis by (simp add: m rnd_0_1 [OF rnd] trunc_def)
  qed
  show "map_axis rnd x0 w (to_float rnd n) raw = n" if "x0 + w \<le> to_float rnd raw"
  proof -
    have "w \<le> rnd (to_float rnd raw - x0)" using rnd_mono [OF rnd, of w "to_float rnd raw - x0"] that w by simp
    then have "1 \<le> rnd (to_float rnd raw - x0) / w" using w by simp
    then have "1 \<le> rnd (rnd (to_float rnd raw - x0) / w)" using rnd_mono [OF rnd] rnd_0_1 [OF rnd] by metis
    then have "rel raw = 1" by (simp add: rel_def clamp01_def)
    then show ?thesis unfolding m using v by (simp add: to_float_def tr)
  qed
qed

definition content_width :: "mapping_config \<Rightarrow> int" where
  "content_width m = (if mc_contentWidth m > 0 then mc_contentWidth m else mc_aaWidth m)"

definition content_height :: "mapping_config \<Rightarrow> int" where
  "content_height m = (if mc_contentHeight m > 0 then mc_contentHeight m else mc_aaHeight m)"

definition dimension_ok :: "int \<Rightarrow> bool" where
  "dimension_ok n \<longleftrightarrow> 0 < n \<and> n \<le> 16384"

lemma dimension_float: "rnd_ok rnd \<Longrightarrow> dimension_ok n \<Longrightarrow> to_float rnd n = of_int n"
  unfolding to_float_def dimension_ok_def by (rule rnd_exact) simp_all

lemma dimension_quotient:
  assumes "rnd_ok rnd" "1 \<le> a" "dimension_ok b"
  shows "1 / 2 ^ 14 \<le> rnd (a / of_int b)"
proof (rule rnd_lower [OF assms(1)])
  have "of_int b \<le> (16384 :: rat)" using assms(3) by (simp add: dimension_ok_def)
  then show "1 / 2 ^ 14 \<le> a / of_int b"
    using assms(2,3) by (intro frac_le) (simp_all add: dimension_ok_def)
qed simp

lemma aspect_range:
  assumes "rnd_ok rnd" "dimension_ok a" "dimension_ok b"
  shows "1 / 2 ^ 14 \<le> rnd (of_int a / of_int b)" "rnd (of_int a / of_int b) \<le> 2 ^ 14"
proof -
  have a: "1 \<le> (of_int a :: rat)" "(of_int a :: rat) \<le> 16384" "1 \<le> (of_int b :: rat)"
    using assms by (simp_all add: dimension_ok_def)
  show "1 / 2 ^ 14 \<le> rnd (of_int a / of_int b)" by (rule dimension_quotient [OF assms(1) a(1) assms(3)])
  have "(of_int a :: rat) / of_int b \<le> 16384 / 1" using a by (intro frac_le) simp_all
  then have "rnd (of_int a / of_int b) \<le> rnd (of_int 16384)" using rnd_mono [OF assms(1)] by simp
  then show "rnd (of_int a / of_int b) \<le> 2 ^ 14" by (simp add: rnd_exact [OF assms(1), of 16384, simplified])
qed

lemma video_area_positive:
  assumes rnd: "rnd_ok rnd" and d: "dimension_ok w" "dimension_ok h" and ca: "1 / 2 ^ 14 \<le> ca" "ca \<le> 2 ^ 14"
    and v: "video_area rnd x0 w y0 h ca = ((px, pw), (py, ph))"
  shows "1 / 2 ^ 14 \<le> pw" "1 / 2 ^ 14 \<le> ph"
proof -
  have wh: "1 \<le> (of_int w :: rat)" "1 \<le> (of_int h :: rat)" using d by (simp_all add: dimension_ok_def)
  have pos: "0 < ca" using ca(1) by (simp add: field_simps)
  have "1 / 2 ^ 14 \<le> rnd (of_int w / ca)"
  proof (rule rnd_lower [OF rnd])
    show "1 / 2 ^ 14 \<le> of_int w / ca" using frac_le [OF _ wh(1) pos ca(2)] wh by simp
  qed simp
  moreover have "1 / 2 ^ 14 \<le> rnd (of_int h * ca)"
  proof (rule rnd_lower [OF rnd])
    have "1 * ca \<le> of_int h * ca" using wh pos by (intro mult_right_mono) simp_all
    with ca(1) show "1 / 2 ^ 14 \<le> of_int h * ca" by (metis mult_1 order_trans)
  qed simp
  moreover have "1 / 2 ^ 14 \<le> (of_int w :: rat)" "1 / 2 ^ 14 \<le> (of_int h :: rat)" using wh by simp_all
  ultimately show "1 / 2 ^ 14 \<le> pw" "1 / 2 ^ 14 \<le> ph"
    using v dimension_float [OF rnd d(1)] dimension_float [OF rnd d(2)] by (auto simp: video_area_def Let_def split: if_splits)
qed

lemma rnd_product:
  assumes "rnd_ok rnd" "1 / 2 ^ 14 \<le> a" "1 / 2 ^ 14 \<le> b"
  shows "0 < rnd (a * b)"
proof -
  have "(1 / 2 ^ 14) * (1 / 2 ^ 14) \<le> a * b" using assms(2,3) by (intro mult_mono) simp_all
  then have "1 / 2 ^ 28 \<le> a * b" by simp
  from rnd_lower [OF assms(1) _ this] have "1 / 2 ^ 28 \<le> rnd (a * b)" by simp
  then show ?thesis by (simp add: field_simps)
qed

lemma effective_dimension:
  assumes "dimension_ok (mc_displayWidth m)" "dimension_ok (mc_displayHeight m)"
  shows "dimension_ok (max 1 (snd (effective_x m)))" "dimension_ok (max 1 (snd (effective_y m)))"
  using assms by (auto simp: effective_x_def effective_y_def dimension_ok_def)

lemma letterbox_ok:
  assumes rnd: "rnd_ok rnd" and m: "lb_config b = m"
    and d: "dimension_ok (mc_displayWidth m)" "dimension_ok (mc_displayHeight m)"
      "dimension_ok (content_width m)" "dimension_ok (content_height m)" "1 \<le> lb_screenWidth b" "1 \<le> lb_screenHeight b"
  shows "0 < lb_videoEvdevW (computeLetterbox rnd b)" "0 < lb_videoEvdevH (computeLetterbox rnd b)"
    "rnd (lb_videoEvdevW (computeLetterbox rnd b)) = lb_videoEvdevW (computeLetterbox rnd b)"
    "rnd (lb_videoEvdevH (computeLetterbox rnd b)) = lb_videoEvdevH (computeLetterbox rnd b)"
    "lb_visibleAAWidth (computeLetterbox rnd b) = to_float rnd (content_width m)"
    "lb_visibleAAHeight (computeLetterbox rnd b) = to_float rnd (content_height m)"
proof -
  obtain x0 w where x: "effective_x m = (x0, w)" by (metis prod.exhaust)
  obtain y0 h where y: "effective_y m = (y0, h)" by (metis prod.exhaust)
  define ca where "ca = rnd (to_float rnd (content_width m) / to_float rnd (content_height m))"
  obtain px pw py ph where v: "video_area rnd x0 (max 1 w) y0 (max 1 h) ca = ((px, pw), (py, ph))"
    by (metis prod.exhaust)
  have ca: "1 / 2 ^ 14 \<le> ca" "ca \<le> 2 ^ 14"
    using aspect_range [OF rnd d(3,4)] by (simp_all add: ca_def dimension_float [OF rnd] d)
  have wh: "dimension_ok (max 1 w)" "dimension_ok (max 1 h)"
    using effective_dimension [OF d(1,2)] by (simp_all add: x y)
  note area = video_area_positive [OF rnd wh ca v]
  have one: "1 \<le> to_float rnd n" if "1 \<le> n" for n
    using rnd_mono [OF rnd, of 1 "of_int n"] rnd_0_1(2) [OF rnd] that by (simp add: to_float_def)
  have mx: "max 1 (mc_displayWidth m) = mc_displayWidth m" "max 1 (mc_displayHeight m) = mc_displayHeight m"
    using d(1,2) by (simp_all add: dimension_ok_def)
  define perX where "perX = rnd (to_float rnd (lb_screenWidth b) / to_float rnd (mc_displayWidth m))"
  define perY where "perY = rnd (to_float rnd (lb_screenHeight b) / to_float rnd (mc_displayHeight m))"
  have per: "1 / 2 ^ 14 \<le> perX" "1 / 2 ^ 14 \<le> perY"
    unfolding perX_def perY_def dimension_float [OF rnd d(1)] dimension_float [OF rnd d(2)]
    using dimension_quotient [OF rnd one [OF d(5)] d(1)] dimension_quotient [OF rnd one [OF d(6)] d(2)] by simp_all
  have res: "lb_videoEvdevW (computeLetterbox rnd b) = rnd (pw * perX)" "lb_videoEvdevH (computeLetterbox rnd b) = rnd (ph * perY)"
    "lb_visibleAAWidth (computeLetterbox rnd b) = to_float rnd (content_width m)"
    "lb_visibleAAHeight (computeLetterbox rnd b) = to_float rnd (content_height m)"
    using v by (simp_all add: computeLetterbox_def Let_def m x y mx perX_def perY_def ca_def content_width_def content_height_def)
  show "0 < lb_videoEvdevW (computeLetterbox rnd b)" "0 < lb_videoEvdevH (computeLetterbox rnd b)"
    "rnd (lb_videoEvdevW (computeLetterbox rnd b)) = lb_videoEvdevW (computeLetterbox rnd b)"
    "rnd (lb_videoEvdevH (computeLetterbox rnd b)) = lb_videoEvdevH (computeLetterbox rnd b)"
    "lb_visibleAAWidth (computeLetterbox rnd b) = to_float rnd (content_width m)"
    "lb_visibleAAHeight (computeLetterbox rnd b) = to_float rnd (content_height m)"
    unfolding res using rnd_product [OF rnd] area per rnd_idem [OF rnd] by simp_all
qed

section \<open>What the phone receives\<close>

text \<open>
  C24. The touches sent to the phone are a well-formed touch stream in every run of the reader
  and the main thread, whatever the device delivers: fingers go down and up one at a time and
  every event lists exactly the fingers that are down. No finger stays down when the device is
  given back or lost or during a three-finger gesture, and none is sent that belongs to a zone
  of the user interface. Outside the zones and gestures the phone sees every finger: a report
  brings it from the fingers of the last report to those of the new one.
\<close>

theorem touch_stream_valid:
  fixes ops :: "'k reader_op list" and rnd :: rounding and sorter :: "'k touch_zone list \<Rightarrow> 'k touch_zone list"
    and aaW aaH dispW dispH :: int
  defines "out \<equiv> run (reader_step rnd sorter) ops (reader_new True aaW aaH dispW dispH)"
  defines "r \<equiv> fst out"
  shows "phone_run [] (indications (snd out)) = Some (active_ids (tr_aaActive r))
    \<and> (\<not> tr_deviceGrabbed r \<or> tr_gestureActive r \<longrightarrow> active_ids (tr_aaActive r) = [])
    \<and> (\<forall>i. int i \<in> set (active_ids (tr_aaActive r)) \<longrightarrow>
         sl_trackingId (tr_prevSlots r ! i) \<ge> 0 \<and> rt_claimedZone (tr_router r) ! i = [])
    \<and> (\<forall>sy. tr_deviceGrabbed r \<and> rt_zones (tr_router r) = [] \<and> sy_zones sy = (\<lambda>i. [])
         \<and> \<not> tr_gestureActive (fst (processSync rnd sorter sy r)) \<and> active_ids (tr_aaActive r) = fingers (tr_prevSlots r)
         \<longrightarrow> active_ids (tr_aaActive (fst (processSync rnd sorter sy r))) = fingers (tr_slots r))"
proof -
  have ok: "reader_ok r" and f: "follows (replicate MAX_SLOTS False) (snd out) (tr_aaActive r)"
    using reader_run_ok [of rnd sorter ops aaW aaH dispW dispH] by (simp_all add: out_def r_def)
  have start: "active_ids (replicate MAX_SLOTS False) = []" by (simp add: active_ids_def)
  have "phone_run [] (indications (snd out)) = Some (active_ids (tr_aaActive r))"
    using f by (simp add: follows_def start)
  moreover have "active_ids (tr_aaActive r) = []" if "\<not> tr_deviceGrabbed r \<or> tr_gestureActive r"
    using that ok by (simp add: reader_ok_def owner_ok_def no_finger_def active_ids_none)
  moreover have "sl_trackingId (tr_prevSlots r ! i) \<ge> 0 \<and> rt_claimedZone (tr_router r) ! i = []"
    if "int i \<in> set (active_ids (tr_aaActive r))" for i
    using that ok by (simp add: active_ids_props reader_ok_def slots_ok_def claims_ok_def)
  ultimately show ?thesis using unclaimed_report [OF ok] by blast
qed

text \<open>Two fingers go down and move, then the device disappears: five events, nothing left down.\<close>

definition example_report :: "unit sync_input" where
  "example_report = \<lparr>sy_t1 = 0, sy_t2 = 0, sy_mapping = [], sy_zones = (\<lambda>i. [])\<rparr>"

definition example_touch :: "unit reader_op list" where
  "example_touch = DoGrab # RdOpen (Some 4095) (Some 4095) True # map (RdPass True)
     [ReadEvent (AbsTrackingId 7), ReadEvent (AbsPositionX 2000), ReadEvent (AbsPositionY 1000),
      ReadEvent (SynReport example_report), ReadEvent (AbsSlot 1), ReadEvent (AbsTrackingId 8),
      ReadEvent (AbsPositionX 500), ReadEvent (AbsPositionY 500), ReadEvent (SynReport example_report),
      ReadEvent (AbsPositionX 600), ReadEvent (SynReport example_report), PollUnavailable]"

lemma example_touch_run:
  "tr_deviceGrabbed (fst (run (reader_step (\<lambda>x. x) (\<lambda>zs. zs)) example_touch (reader_new True 1280 720 1024 600))) = False"
  "map (\<lambda>(ps, idx, action). (idx, action)) (indications (snd (run (reader_step (\<lambda>x. x) (\<lambda>zs. zs)) example_touch (reader_new True 1280 720 1024 600))))
     = [(0, 0), (1, 5), (0, 2), (0, 6), (0, 1)]"
  by code_simp+

lemma touch_stream_valid_witness:
  "phone_run [] (indications (snd (run (reader_step (\<lambda>x. x) (\<lambda>zs. zs)) example_touch (reader_new True 1280 720 1024 600)))) = Some []
   \<and> length (indications (snd (run (reader_step (\<lambda>x. x) (\<lambda>zs. zs)) example_touch (reader_new True 1280 720 1024 600)))) = 5"
  using touch_stream_valid [where rnd = "\<lambda>x. x" and sorter = "\<lambda>zs. zs" and ops = example_touch and aaW = 1280 and aaH = 720
      and dispW = 1024 and dispH = 600]
    example_touch_run(1) arg_cong [OF example_touch_run(2), of length]
  by simp


definition example_letterbox :: letterbox where
  "example_letterbox = (tr_letterbox (reader_new True 1280 720 1024 600 :: unit touch_reader))
     \<lparr>lb_config := setVideoMapping 1280 720 1280 646 (setNavbar True 56 ''bottom'' (tr_requestedMapping (reader_new True 1280 720 1024 600 :: unit touch_reader)))\<rparr>"


end
