(* ===== verification/Media_Status.thy ===== *)
theory Media_Status
  imports Prelude
begin

text \<open>
  \<open>core/services/MediaStatusService.cpp\<close>: three sources of media, Bluetooth, the projected phone
  and the local player, and the choice of the one whose status is shown.  The code orders the
  sources by a counter that it stores with a source when it connects or starts to play; the
  specification \<open>spec_step\<close> has a list of the sources instead, the most recent one first.

  Signals are the second result of the operations.  The playback callbacks are opaque values.
\<close>

section \<open>State\<close>

datatype source_id = SrcBluetooth | SrcAndroidAuto | SrcMediaPlayer

definition all_sources :: "source_id list" where
  "all_sources = [SrcBluetooth, SrcAndroidAuto, SrcMediaPlayer]"

record source_state =
  sr_connected :: bool
  sr_playing :: bool
  sr_title :: string
  sr_artist :: string
  sr_album :: string
  sr_appName :: string
  sr_artUrl :: string
  sr_playbackState :: int
  sr_position :: int
  sr_duration :: int
  sr_seq :: nat

definition source_new :: source_state where
  "source_new = \<lparr>sr_connected = False, sr_playing = False, sr_title = [], sr_artist = [], sr_album = [], sr_appName = [],
     sr_artUrl = [], sr_playbackState = 0, sr_position = -1, sr_duration = 0, sr_seq = 0\<rparr>"

record media_status =
  ms_src :: "source_id \<Rightarrow> source_state"
  ms_active :: "source_id option"
  ms_seq :: nat

definition media_new :: media_status where
  "media_new = \<lparr>ms_src = (\<lambda>i. source_new), ms_active = None, ms_seq = 0\<rparr>"

datatype media_signal = MediaStatusChanged | ProgressChanged

section \<open>What is shown\<close>

definition active_source :: "media_status \<Rightarrow> source_state option" where
  "active_source m = map_option (ms_src m) (ms_active m)"

fun isPlayingState :: "source_id \<Rightarrow> int \<Rightarrow> bool" where
  "isPlayingState SrcBluetooth raw = (raw = 1)"
| "isPlayingState SrcAndroidAuto raw = (raw = 2)"
| "isPlayingState SrcMediaPlayer raw = (raw = 1)"

definition shown :: "'a \<Rightarrow> (source_state \<Rightarrow> 'a) \<Rightarrow> media_status \<Rightarrow> 'a" where
  "shown d f m = (case active_source m of None \<Rightarrow> d | Some s \<Rightarrow> f s)"

definition media_title :: "media_status \<Rightarrow> string" where "media_title = shown [] sr_title"
definition media_artist :: "media_status \<Rightarrow> string" where "media_artist = shown [] sr_artist"
definition media_album :: "media_status \<Rightarrow> string" where "media_album = shown [] sr_album"
definition media_playbackState :: "media_status \<Rightarrow> int" where "media_playbackState = shown 0 sr_playbackState"
definition media_isPlaying :: "media_status \<Rightarrow> bool" where "media_isPlaying = shown False sr_playing"
definition media_position :: "media_status \<Rightarrow> int" where "media_position = shown (-1) sr_position"
definition media_duration :: "media_status \<Rightarrow> int" where "media_duration = shown 0 sr_duration"
definition media_artUrl :: "media_status \<Rightarrow> string" where "media_artUrl = shown [] sr_artUrl"

definition media_hasPosition :: "media_status \<Rightarrow> bool" where
  "media_hasPosition = shown False (\<lambda>s. sr_position s \<ge> 0 \<and> sr_duration s > 0)"

definition media_source :: "media_status \<Rightarrow> string" where
  "media_source m = (case ms_active m of
     Some SrcAndroidAuto \<Rightarrow> ''AndroidAuto'' | Some SrcBluetooth \<Rightarrow> ''Bluetooth''
   | Some SrcMediaPlayer \<Rightarrow> ''MediaPlayer'' | None \<Rightarrow> [])"

definition media_appName :: "media_status \<Rightarrow> string" where
  "media_appName m = (if ms_active m = Some SrcAndroidAuto then sr_appName (ms_src m SrcAndroidAuto) else [])"

definition hasMedia :: "media_status \<Rightarrow> bool" where
  "hasMedia m \<longleftrightarrow> media_title m \<noteq> [] \<or> media_artist m \<noteq> []"

section \<open>The choice of the source\<close>

definition scan_sources :: "(source_state \<Rightarrow> bool) \<Rightarrow> media_status \<Rightarrow> source_id option" where
  "scan_sources P m = fst (foldl (\<lambda>(next, best) i.
     let s = ms_src m i in if P s \<and> sr_seq s \<ge> best then (Some i, sr_seq s) else (next, best)) (None, 0) all_sources)"

definition choose_source :: "media_status \<Rightarrow> source_id option" where
  "choose_source m = (case scan_sources (\<lambda>s. sr_connected s \<and> sr_playing s) m of
     Some i \<Rightarrow> Some i
   | None \<Rightarrow> (case ms_active m of
         Some a \<Rightarrow> if sr_connected (ms_src m a) then Some a else scan_sources sr_connected m
       | None \<Rightarrow> scan_sources sr_connected m))"

definition recompute :: "bool \<Rightarrow> media_status \<Rightarrow> media_status \<times> media_signal list" where
  "recompute emitEvenIfUnchanged m = (
     let next = choose_source m
     in (m\<lparr>ms_active := next\<rparr>,
         if next \<noteq> ms_active m \<or> emitEvenIfUnchanged then [MediaStatusChanged, ProgressChanged] else []))"

definition set_source :: "source_id \<Rightarrow> source_state \<Rightarrow> media_status \<Rightarrow> media_status" where
  "set_source i s m = m\<lparr>ms_src := (ms_src m)(i := s)\<rparr>"

definition clearSource :: "source_state \<Rightarrow> source_state" where
  "clearSource s = source_new\<lparr>sr_seq := sr_seq s\<rparr>"

section \<open>Operations\<close>

definition setConnected :: "source_id \<Rightarrow> bool \<Rightarrow> media_status \<Rightarrow> media_status \<times> media_signal list" where
  "setConnected i connected m = (
     let s = ms_src m i
     in if sr_connected s = connected then (m, [])
        else if connected
        then recompute True (set_source i ((clearSource s)\<lparr>sr_connected := True, sr_seq := Suc (ms_seq m)\<rparr>)
               (m\<lparr>ms_seq := Suc (ms_seq m)\<rparr>))
        else recompute True (set_source i ((clearSource s)\<lparr>sr_connected := False\<rparr>) m))"

definition applyPlaybackState :: "source_id \<Rightarrow> int \<Rightarrow> media_status \<Rightarrow> media_status \<times> media_signal list" where
  "applyPlaybackState i raw m = (
     let s = ms_src m i;
         s1 = s\<lparr>sr_playbackState := raw, sr_playing := sr_connected s \<and> isPlayingState i raw\<rparr>;
         started = sr_playing s1 \<and> \<not> sr_playing s;
         m1 = (if started then set_source i (s1\<lparr>sr_seq := Suc (ms_seq m)\<rparr>) (m\<lparr>ms_seq := Suc (ms_seq m)\<rparr>)
               else set_source i s1 m)
     in recompute (ms_active m1 = Some i) m1)"

definition signal_if_active :: "source_id \<Rightarrow> media_signal \<Rightarrow> media_status \<Rightarrow> media_signal list" where
  "signal_if_active i sig m = (if ms_active m = Some i then [sig] else [])"

definition updateMetadata :: "source_id \<Rightarrow> string \<Rightarrow> string \<Rightarrow> string \<Rightarrow> media_status \<Rightarrow> media_status \<times> media_signal list" where
  "updateMetadata i t a al m = (
     let m1 = set_source i ((ms_src m i)\<lparr>sr_title := t, sr_artist := a, sr_album := al\<rparr>) m
     in (m1, signal_if_active i MediaStatusChanged m1))"

definition updateAaPlaybackState :: "int \<Rightarrow> string \<Rightarrow> media_status \<Rightarrow> media_status \<times> media_signal list" where
  "updateAaPlaybackState raw app m =
     applyPlaybackState SrcAndroidAuto raw (set_source SrcAndroidAuto ((ms_src m SrcAndroidAuto)\<lparr>sr_appName := app\<rparr>) m)"

definition set_progress :: "source_id \<Rightarrow> int \<Rightarrow> int \<Rightarrow> media_status \<Rightarrow> media_status \<times> media_signal list" where
  "set_progress i pos dur m = (
     let m1 = set_source i ((ms_src m i)\<lparr>sr_position := pos, sr_duration := dur\<rparr>) m
     in (m1, signal_if_active i ProgressChanged m1))"

definition updateBtProgress :: "int \<Rightarrow> int \<Rightarrow> media_status \<Rightarrow> media_status \<times> media_signal list" where
  "updateBtProgress pos dur m = (
     let s = ms_src m SrcBluetooth
     in if sr_position s = pos \<and> sr_duration s = dur then (m, []) else set_progress SrcBluetooth pos dur m)"

definition updateBtSnapshot :: "string \<Rightarrow> string \<Rightarrow> string \<Rightarrow> int \<Rightarrow> int \<Rightarrow> int \<Rightarrow> media_status
    \<Rightarrow> media_status \<times> media_signal list" where
  "updateBtSnapshot t a al raw pos dur m =
     chain (chain (updateMetadata SrcBluetooth t a al m) (applyPlaybackState SrcBluetooth raw)) (updateBtProgress pos dur)"

definition updateMediaPlayerProgress :: "int \<Rightarrow> int \<Rightarrow> media_status \<Rightarrow> media_status \<times> media_signal list" where
  "updateMediaPlayerProgress = set_progress SrcMediaPlayer"

definition updateMediaPlayerArt :: "string \<Rightarrow> media_status \<Rightarrow> media_status \<times> media_signal list" where
  "updateMediaPlayerArt url m = (
     let m1 = set_source SrcMediaPlayer ((ms_src m SrcMediaPlayer)\<lparr>sr_artUrl := url\<rparr>) m
     in (m1, signal_if_active SrcMediaPlayer MediaStatusChanged m1))"

datatype media_op =
    SetConnected source_id bool
  | Metadata source_id string string string
  | AaPlaybackState int string
  | BtPlaybackState int
  | MpPlaybackState int
  | BtProgress int int
  | BtSnapshot string string string int int int
  | MpProgress int int
  | MpArt string

fun media_step :: "media_op \<Rightarrow> media_status \<Rightarrow> media_status \<times> media_signal list" where
  "media_step (SetConnected i b) m = setConnected i b m"
| "media_step (Metadata i t a al) m = updateMetadata i t a al m"
| "media_step (AaPlaybackState raw app) m = updateAaPlaybackState raw app m"
| "media_step (BtPlaybackState raw) m = applyPlaybackState SrcBluetooth raw m"
| "media_step (MpPlaybackState raw) m = applyPlaybackState SrcMediaPlayer raw m"
| "media_step (BtProgress pos dur) m = updateBtProgress pos dur m"
| "media_step (BtSnapshot t a al raw pos dur) m = updateBtSnapshot t a al raw pos dur m"
| "media_step (MpProgress pos dur) m = updateMediaPlayerProgress pos dur m"
| "media_step (MpArt url) m = updateMediaPlayerArt url m"

section \<open>Specification\<close>

record media_spec =
  sp_recent :: "source_id list"
  sp_connected :: "source_id \<Rightarrow> bool"
  sp_playing :: "source_id \<Rightarrow> bool"
  sp_shown :: "source_id option"

definition spec_new :: media_spec where
  "spec_new = \<lparr>sp_recent = [], sp_connected = (\<lambda>i. False), sp_playing = (\<lambda>i. False), sp_shown = None\<rparr>"

definition spec_choose :: "media_spec \<Rightarrow> media_spec" where
  "spec_choose s = s\<lparr>sp_shown := (case find (sp_playing s) (sp_recent s) of
     Some i \<Rightarrow> Some i
   | None \<Rightarrow> if \<exists>a. sp_shown s = Some a \<and> sp_connected s a then sp_shown s else find (sp_connected s) (sp_recent s))\<rparr>"

definition to_front :: "source_id \<Rightarrow> source_id list \<Rightarrow> source_id list" where
  "to_front i is = i # remove1 i is"

definition spec_connect :: "source_id \<Rightarrow> bool \<Rightarrow> media_spec \<Rightarrow> media_spec" where
  "spec_connect i b s = (
     if sp_connected s i = b then s
     else spec_choose (s\<lparr>sp_connected := (sp_connected s)(i := b), sp_playing := (sp_playing s)(i := False),
            sp_recent := (if b then to_front i (sp_recent s) else sp_recent s)\<rparr>))"

definition spec_play :: "source_id \<Rightarrow> bool \<Rightarrow> media_spec \<Rightarrow> media_spec" where
  "spec_play i p s = (
     let p' = (sp_connected s i \<and> p)
     in spec_choose (s\<lparr>sp_playing := (sp_playing s)(i := p'),
          sp_recent := (if p' \<and> \<not> sp_playing s i then to_front i (sp_recent s) else sp_recent s)\<rparr>))"

fun spec_step :: "media_op \<Rightarrow> media_spec \<Rightarrow> media_spec" where
  "spec_step (SetConnected i b) s = spec_connect i b s"
| "spec_step (AaPlaybackState raw app) s = spec_play SrcAndroidAuto (raw = 2) s"
| "spec_step (BtPlaybackState raw) s = spec_play SrcBluetooth (raw = 1) s"
| "spec_step (MpPlaybackState raw) s = spec_play SrcMediaPlayer (raw = 1) s"
| "spec_step (BtSnapshot t a al raw pos dur) s = spec_play SrcBluetooth (raw = 1) s"
| "spec_step _ s = s"

section \<open>The code implements the specification\<close>

abbreviation seq_of :: "media_status \<Rightarrow> source_id \<Rightarrow> nat" where
  "seq_of m i \<equiv> sr_seq (ms_src m i)"

definition recency :: "media_status \<Rightarrow> source_id list \<Rightarrow> bool" where
  "recency m is \<longleftrightarrow> sorted_wrt (\<lambda>a b. seq_of m a > seq_of m b) is \<and> set is = {i. seq_of m i > 0}
     \<and> (\<forall>i. seq_of m i \<le> ms_seq m)"

definition implements :: "media_status \<Rightarrow> media_spec \<Rightarrow> bool" where
  "implements m s \<longleftrightarrow> recency m (sp_recent s) \<and> ms_active m = sp_shown s
     \<and> (\<forall>i. sr_connected (ms_src m i) = sp_connected s i \<and> sr_playing (ms_src m i) = sp_playing s i
          \<and> (sp_connected s i \<longrightarrow> seq_of m i > 0) \<and> (sp_playing s i \<longrightarrow> sp_connected s i))"

lemma scan_sources_Some:
  "scan_sources P m = Some i \<Longrightarrow> P (ms_src m i) \<and> (\<forall>j. P (ms_src m j) \<longrightarrow> seq_of m j \<le> seq_of m i)"
  unfolding scan_sources_def all_sources_def
  by (auto simp: Let_def split: if_splits) (metis source_id.exhaust nat_le_linear order_trans le_cases)+

lemma scan_sources_None: "scan_sources P m = None \<Longrightarrow> \<not> P (ms_src m i)"
  unfolding scan_sources_def all_sources_def
  by (cases i) (auto simp: Let_def split: if_splits)

lemma find_recent_Some:
  "sorted_wrt (\<lambda>a b. seq_of m a > seq_of m b) is \<Longrightarrow> find P is = Some i
    \<Longrightarrow> i \<in> set is \<and> P i \<and> (\<forall>j \<in> set is. P j \<longrightarrow> j = i \<or> seq_of m j < seq_of m i)"
  by (induction "is") (auto split: if_splits)

lemma scan_is_find:
  assumes "recency m is" "\<And>i. P (ms_src m i) \<Longrightarrow> seq_of m i > 0"
  shows "scan_sources P m = find (\<lambda>i. P (ms_src m i)) is"
proof (cases "find (\<lambda>i. P (ms_src m i)) is")
  case None
  then have "\<not> P (ms_src m i)" for i using assms(1) assms(2) [of i] by (auto simp: find_None_iff recency_def)
  then have "scan_sources P m = None" using scan_sources_Some [of P m] by (cases "scan_sources P m") auto
  with None show ?thesis by simp
next
  case (Some i)
  from find_recent_Some [OF _ Some] assms(1) have i: "P (ms_src m i)"
      "\<And>j. j \<in> set is \<Longrightarrow> P (ms_src m j) \<Longrightarrow> j = i \<or> seq_of m j < seq_of m i" by (auto simp: recency_def)
  obtain j where j: "scan_sources P m = Some j" using scan_sources_None [of P m i] i(1) by (cases "scan_sources P m") auto
  from scan_sources_Some [OF this] have "P (ms_src m j)" "seq_of m i \<le> seq_of m j" using i(1) by auto
  moreover from this have "j \<in> set is" using assms by (auto simp: recency_def)
  ultimately have "j = i" using i(2) [of j] by auto
  with j Some show ?thesis by simp
qed

lemma choose_implements:
  assumes "recency m (sp_recent s)" "ms_active m = sp_shown s"
    "\<And>i. sr_connected (ms_src m i) = sp_connected s i \<and> sr_playing (ms_src m i) = sp_playing s i
          \<and> (sp_connected s i \<longrightarrow> seq_of m i > 0) \<and> (sp_playing s i \<longrightarrow> sp_connected s i)"
  shows "implements (fst (recompute b m)) (spec_choose s)"
proof -
  have p: "scan_sources (\<lambda>s. sr_connected s \<and> sr_playing s) m = find (sp_playing s) (sp_recent s)"
    by (subst scan_is_find [OF assms(1)]) (use assms(3) in \<open>auto intro!: arg_cong2 [where f = find]\<close>)
  have c: "scan_sources sr_connected m = find (sp_connected s) (sp_recent s)"
    by (subst scan_is_find [OF assms(1)]) (use assms(3) in \<open>auto intro!: arg_cong2 [where f = find]\<close>)
  have "choose_source m = sp_shown (spec_choose s)"
    using assms(2,3) by (auto simp: choose_source_def spec_choose_def p c split: option.splits)
  then show ?thesis
    using assms by (simp add: implements_def recompute_def Let_def recency_def) (simp add: spec_choose_def)
qed

lemma sorted_remove1: "sorted_wrt R xs \<Longrightarrow> sorted_wrt R (remove1 x xs)"
  by (induction xs) (auto dest: notin_set_remove1 in_set_remove1 [THEN iffD1, rotated] set_remove1_subset [THEN subsetD])

lemma recency_front:
  assumes r: "recency m is" and new: "seq_of m' i = Suc (ms_seq m)" "ms_seq m' = Suc (ms_seq m)"
    and old: "\<And>j. j \<noteq> i \<Longrightarrow> seq_of m' j = seq_of m j"
  shows "recency m' (to_front i is)"
proof -
  have d: "distinct is" using r by (auto simp: recency_def distinct_conv_nth sorted_wrt_iff_nth_less)
      (metis linorder_neqE_nat less_irrefl)
  then have "set (remove1 i is) = {j. seq_of m j > 0} - {i}" using r by (simp add: recency_def)
  moreover have "sorted_wrt (\<lambda>a b. seq_of m' a > seq_of m' b) (remove1 i is)"
  proof (rule sorted_wrt_mono_rel [rotated])
    show "sorted_wrt (\<lambda>a b. seq_of m a > seq_of m b) (remove1 i is)" using r by (simp add: recency_def sorted_remove1)
    show "seq_of m' a > seq_of m' b" if "a \<in> set (remove1 i is)" "b \<in> set (remove1 i is)" "seq_of m a > seq_of m b" for a b
      using that d by (simp add: old)
  qed
  moreover have "seq_of m j \<le> ms_seq m" for j using r by (simp add: recency_def)
  moreover have "seq_of m' j \<le> ms_seq m'" for j
    using r new old [of j] by (cases "j = i") (auto simp: recency_def intro: le_SucI)
  moreover have "seq_of m' j > 0 \<longleftrightarrow> j = i \<or> seq_of m j > 0" for j using new old [of j] by (cases "j = i") auto
  moreover have "\<forall>j \<in> set (remove1 i is). seq_of m' i > seq_of m' j"
    using calculation(1,3) new(1) old by (simp add: less_Suc_eq_le)
  ultimately show ?thesis by (auto simp: recency_def to_front_def)
qed

lemma recency_keep: "recency m is \<Longrightarrow> (\<And>j. seq_of m' j = seq_of m j) \<Longrightarrow> ms_seq m' = ms_seq m \<Longrightarrow> recency m' is"
  by (simp add: recency_def)

lemma seq_set_source: "ms_src (set_source i x m) j = (if j = i then x else ms_src m j)" "ms_seq (set_source i x m) = ms_seq m"
  "ms_active (set_source i x m) = ms_active m"
  by (simp_all add: set_source_def)

lemma implementsD:
  assumes "implements m s"
  shows "recency m (sp_recent s)" "ms_active m = sp_shown s" "sr_connected (ms_src m i) = sp_connected s i"
    "sr_playing (ms_src m i) = sp_playing s i" "sp_connected s i \<Longrightarrow> seq_of m i > 0" "sp_playing s i \<Longrightarrow> sp_connected s i"
  using assms by (simp_all add: implements_def)

lemma setConnected_implements:
  assumes i: "implements m s"
  shows "implements (fst (setConnected k b m)) (spec_connect k b s)"
proof (cases "sp_connected s k = b")
  case True
  with i show ?thesis by (simp add: setConnected_def spec_connect_def implementsD Let_def)
next
  case False
  note d = implementsD [OF i]
  show ?thesis
  proof (cases b)
    case True
    let ?m = "set_source k ((clearSource (ms_src m k))\<lparr>sr_connected := True, sr_seq := Suc (ms_seq m)\<rparr>) (m\<lparr>ms_seq := Suc (ms_seq m)\<rparr>)"
    have "recency ?m (to_front k (sp_recent s))"
      by (rule recency_front [OF d(1)]) (simp_all add: seq_set_source)
    then have "implements (fst (recompute True ?m)) (spec_choose (s\<lparr>sp_connected := (sp_connected s)(k := True),
        sp_playing := (sp_playing s)(k := False), sp_recent := to_front k (sp_recent s)\<rparr>))"
      by (intro choose_implements)
        (use d in \<open>auto simp: seq_set_source clearSource_def source_new_def\<close>)
    with True False show ?thesis by (simp add: setConnected_def spec_connect_def d Let_def)
  next
    case disc: False
    let ?m = "set_source k ((clearSource (ms_src m k))\<lparr>sr_connected := False\<rparr>) m"
    have "recency ?m (sp_recent s)"
      by (rule recency_keep [OF d(1)]) (simp_all add: seq_set_source clearSource_def)
    then have "implements (fst (recompute True ?m)) (spec_choose (s\<lparr>sp_connected := (sp_connected s)(k := False),
        sp_playing := (sp_playing s)(k := False)\<rparr>))"
      by (intro choose_implements) (use d in \<open>auto simp: seq_set_source clearSource_def source_new_def\<close>)
    with disc False show ?thesis by (simp add: setConnected_def spec_connect_def d Let_def)
  qed
qed

lemma applyPlaybackState_implements:
  assumes i: "implements m s"
  shows "implements (fst (applyPlaybackState k raw m)) (spec_play k (isPlayingState k raw) s)"
proof -
  note d = implementsD [OF i]
  let ?p = "sp_connected s k \<and> isPlayingState k raw"
  let ?s1 = "(ms_src m k)\<lparr>sr_playbackState := raw, sr_playing := ?p\<rparr>"
  show ?thesis
  proof (cases "?p \<and> \<not> sp_playing s k")
    case True
    let ?m = "set_source k (?s1\<lparr>sr_seq := Suc (ms_seq m)\<rparr>) (m\<lparr>ms_seq := Suc (ms_seq m)\<rparr>)"
    have "recency ?m (to_front k (sp_recent s))"
      by (rule recency_front [OF d(1)]) (simp_all add: seq_set_source)
    then have "implements (fst (recompute c ?m)) (spec_choose (s\<lparr>sp_playing := (sp_playing s)(k := ?p),
        sp_recent := to_front k (sp_recent s)\<rparr>))" for c
      by (intro choose_implements) (use d True in \<open>auto simp: seq_set_source\<close>)
    with True show ?thesis by (simp add: applyPlaybackState_def spec_play_def d Let_def)
  next
    case False
    let ?m = "set_source k ?s1 m"
    have "recency ?m (sp_recent s)"
      by (rule recency_keep [OF d(1)]) (simp_all add: seq_set_source)
    then have "implements (fst (recompute c ?m)) (spec_choose (s\<lparr>sp_playing := (sp_playing s)(k := ?p)\<rparr>))" for c
      by (intro choose_implements) (use d in \<open>auto simp: seq_set_source\<close>)
    with False show ?thesis by (auto simp: applyPlaybackState_def spec_play_def d Let_def)
  qed
qed

text \<open>Changes of what is shown only.\<close>

lemma implements_content:
  assumes "implements m s" "sr_connected x = sr_connected (ms_src m k)" "sr_playing x = sr_playing (ms_src m k)"
    "sr_seq x = seq_of m k"
  shows "implements (set_source k x m) s"
  using assms recency_keep [of m "sp_recent s" "set_source k x m"]
  by (auto simp: implements_def seq_set_source)

lemma updateMetadata_implements: "implements m s \<Longrightarrow> implements (fst (updateMetadata k t a al m)) s"
  by (simp add: updateMetadata_def Let_def implements_content)

lemma progress_implements: "implements m s \<Longrightarrow> implements (fst (set_progress k pos dur m)) s"
  by (simp add: set_progress_def Let_def implements_content)

lemma btProgress_implements: "implements m s \<Longrightarrow> implements (fst (updateBtProgress pos dur m)) s"
  by (simp add: updateBtProgress_def Let_def progress_implements)

lemma media_step_implements: "implements m s \<Longrightarrow> implements (fst (media_step x m)) (spec_step x s)"
proof (cases x)
  case (AaPlaybackState raw app)
  assume "implements m s"
  then have "implements (set_source SrcAndroidAuto ((ms_src m SrcAndroidAuto)\<lparr>sr_appName := app\<rparr>) m) s"
    by (simp add: implements_content)
  from applyPlaybackState_implements [OF this, of SrcAndroidAuto raw] AaPlaybackState show ?thesis
    by (simp add: updateAaPlaybackState_def)
next
  case (BtSnapshot t a al raw pos dur)
  assume "implements m s"
  from btProgress_implements [OF applyPlaybackState_implements [OF updateMetadata_implements [OF this], of SrcBluetooth raw]]
  show ?thesis by (simp add: BtSnapshot updateBtSnapshot_def chain_fst)
next
  case (BtPlaybackState raw)
  assume "implements m s"
  from applyPlaybackState_implements [OF this, of SrcBluetooth raw] BtPlaybackState show ?thesis by simp
next
  case (MpPlaybackState raw)
  assume "implements m s"
  from applyPlaybackState_implements [OF this, of SrcMediaPlayer raw] MpPlaybackState show ?thesis by simp
qed (simp_all add: setConnected_implements updateMetadata_implements btProgress_implements progress_implements
    updateMediaPlayerProgress_def updateMediaPlayerArt_def Let_def implements_content)

lemma media_new_implements: "implements media_new spec_new"
  by (simp add: implements_def recency_def media_new_def spec_new_def source_new_def)

lemma media_run_implements: "implements (fst (run media_step ops media_new)) (fold spec_step ops spec_new)"
proof (induction ops rule: rev_induct)
  case Nil
  show ?case by (simp add: media_new_implements)
next
  case (snoc x ops)
  then show ?case by (simp add: run_snoc media_step_implements)
qed

section \<open>Nothing changes silently\<close>

definition status_view :: "media_status \<Rightarrow> string \<times> string \<times> string \<times> int \<times> bool \<times> string \<times> string \<times> string" where
  "status_view m = (media_title m, media_artist m, media_album m, media_playbackState m, media_isPlaying m, media_source m,
     media_appName m, media_artUrl m)"

definition progress_view :: "media_status \<Rightarrow> int \<times> int" where
  "progress_view m = (media_position m, media_duration m)"

definition announced :: "media_status \<Rightarrow> media_status \<times> media_signal list \<Rightarrow> bool" where
  "announced m r \<longleftrightarrow> (status_view (fst r) \<noteq> status_view m \<longrightarrow> MediaStatusChanged \<in> set (snd r))
     \<and> (progress_view (fst r) \<noteq> progress_view m \<longrightarrow> ProgressChanged \<in> set (snd r))"

lemmas view_defs = status_view_def progress_view_def media_title_def media_artist_def media_album_def media_playbackState_def
  media_isPlaying_def media_position_def media_duration_def media_artUrl_def media_source_def media_appName_def shown_def
  active_source_def

lemma view_other: "ms_active m \<noteq> Some k \<Longrightarrow> status_view (set_source k x m) = status_view m \<and> progress_view (set_source k x m) = progress_view m"
  by (cases "ms_active m") (auto simp: view_defs seq_set_source)

lemma view_counter: "status_view (m\<lparr>ms_seq := n\<rparr>) = status_view m" "progress_view (m\<lparr>ms_seq := n\<rparr>) = progress_view m"
  by (simp_all add: view_defs)

lemma recompute_announced:
  "b \<or> status_view m1 = status_view m \<and> progress_view m1 = progress_view m \<Longrightarrow> announced m (recompute b m1)"
  by (auto simp: announced_def recompute_def Let_def)

lemma announced_refl [simp]: "announced m (m, [])"
  by (simp add: announced_def)

lemma setConnected_announced: "announced m (setConnected k b m)"
  by (auto simp: setConnected_def Let_def intro: recompute_announced)

lemma applyPlaybackState_announced: "announced m (applyPlaybackState k raw m)"
  using view_other [where k = k] by (auto simp: applyPlaybackState_def Let_def seq_set_source view_counter intro!: recompute_announced)

lemma content_announced:
  assumes "ms_active m = Some k \<Longrightarrow> progress_view (set_source k x m) = progress_view m \<or> sig = ProgressChanged"
    "ms_active m = Some k \<Longrightarrow> status_view (set_source k x m) = status_view m \<or> sig = MediaStatusChanged"
  shows "announced m (set_source k x m, signal_if_active k sig (set_source k x m))"
  using assms view_other [of m k x] by (auto simp: announced_def signal_if_active_def seq_set_source)

lemma announced_chain:
  assumes "announced m r" "announced (fst r) (f (fst r))"
  shows "announced m (chain r f)"
  using assms by (auto simp: announced_def chain_fst chain_snd)

lemma updateMetadata_announced: "announced m (updateMetadata k t a al m)"
  unfolding updateMetadata_def Let_def by (rule content_announced) (auto simp: view_defs seq_set_source)

lemma set_progress_announced: "announced m (set_progress k pos dur m)"
  unfolding set_progress_def Let_def by (rule content_announced) (auto simp: view_defs seq_set_source)

lemma btProgress_announced: "announced m (updateBtProgress pos dur m)"
  by (simp add: updateBtProgress_def Let_def set_progress_announced)

lemma media_step_announced: "announced m (media_step x m)"
proof (cases x)
  case (AaPlaybackState raw app)
  let ?m = "set_source SrcAndroidAuto ((ms_src m SrcAndroidAuto)\<lparr>sr_appName := app\<rparr>) m"
  show ?thesis
  proof (cases "ms_active m = Some SrcAndroidAuto")
    case True
    then show ?thesis
      using AaPlaybackState
      by (auto simp: updateAaPlaybackState_def applyPlaybackState_def Let_def seq_set_source intro!: recompute_announced)
  next
    case False
    from view_other [OF this] applyPlaybackState_announced [of ?m SrcAndroidAuto raw] AaPlaybackState show ?thesis
      by (simp add: updateAaPlaybackState_def announced_def)
  qed
next
  case (MpArt url)
  show ?thesis unfolding MpArt media_step.simps updateMediaPlayerArt_def Let_def
    by (rule content_announced) (auto simp: view_defs seq_set_source)
qed (simp_all add: setConnected_announced updateMetadata_announced applyPlaybackState_announced btProgress_announced
    set_progress_announced updateMediaPlayerProgress_def updateBtSnapshot_def announced_chain)

section \<open>The service\<close>

lemma spec_choose_simps [simp]:
  "sp_recent (spec_choose s) = sp_recent s" "sp_connected (spec_choose s) = sp_connected s" "sp_playing (spec_choose s) = sp_playing s"
  by (simp_all add: spec_choose_def)

definition spec_settled :: "media_spec \<Rightarrow> bool" where
  "spec_settled s \<longleftrightarrow> sp_shown s = sp_shown (spec_choose s)"

lemma spec_choose_settled: "spec_settled (spec_choose s)"
  by (auto simp: spec_settled_def spec_choose_def split: option.splits if_splits dest: find_Some_iff [THEN iffD1])

lemma spec_step_settled: "spec_settled s \<Longrightarrow> spec_settled (spec_step x s)"
  by (cases x) (simp_all add: spec_connect_def spec_play_def Let_def spec_choose_settled)

lemma spec_run_settled: "spec_settled (fold spec_step ops spec_new)"
proof (induction ops rule: rev_induct)
  case Nil
  show ?case by (simp add: spec_settled_def spec_new_def spec_choose_def)
qed (simp add: spec_step_settled)

lemma settled_shows:
  assumes i: "implements m s" and st: "spec_settled s"
  shows "(\<exists>k. sr_playing (ms_src m k)) \<longleftrightarrow> media_isPlaying m" "ms_active m = None \<longleftrightarrow> (\<forall>k. \<not> sr_connected (ms_src m k))"
proof -
  note d = implementsD [OF i]
  have r: "k \<in> set (sp_recent s)" if "sp_connected s k" for k using d(1,5) that by (simp add: recency_def)
  show "(\<exists>k. sr_playing (ms_src m k)) \<longleftrightarrow> media_isPlaying m"
  proof
    assume "\<exists>k. sr_playing (ms_src m k)"
    then obtain k where "sp_playing s k" "k \<in> set (sp_recent s)" using d(4,6) r by blast
    then obtain j where f: "find (sp_playing s) (sp_recent s) = Some j" by (metis find_None_iff not_Some_eq)
    have "sp_shown s = Some j" using st by (simp add: spec_settled_def spec_choose_def f)
    moreover have "sp_playing s j" using f by (auto simp: find_Some_iff)
    ultimately show "media_isPlaying m" using d(2,4) by (simp add: media_isPlaying_def shown_def active_source_def)
  qed (auto simp: media_isPlaying_def shown_def active_source_def split: option.splits)
  show "ms_active m = None \<longleftrightarrow> (\<forall>k. \<not> sr_connected (ms_src m k))"
  proof
    assume "ms_active m = None"
    then have "find (sp_connected s) (sp_recent s) = None"
      using st d(2) by (auto simp: spec_settled_def spec_choose_def split: option.splits if_splits)
    then show "\<forall>k. \<not> sr_connected (ms_src m k)" using r d(3) by (auto simp: find_None_iff)
  next
    assume n: "\<forall>k. \<not> sr_connected (ms_src m k)"
    then have c: "\<not> sp_connected s k" "\<not> sp_playing s k" for k using d(3,6) by auto
    then have "find (sp_playing s) (sp_recent s) = None" "find (sp_connected s) (sp_recent s) = None"
      by (simp_all add: find_None_iff)
    with st c d(2) show "ms_active m = None" by (simp add: spec_settled_def spec_choose_def)
  qed
qed

text \<open>
  C36. The media source that is shown is the one the arbitration rules prescribe, in every
  sequence of events: the source that started to play last among those playing; when nothing
  plays, the one shown before as long as it is connected, and otherwise the connected source
  that was active last. So music that plays is always shown as playing, nothing is shown
  exactly when no source is connected, and whenever what is shown changes, views are told.
\<close>

theorem media_shows_playing_source:
  "ms_active (fst (run media_step ops media_new)) = sp_shown (fold spec_step ops spec_new)
   \<and> (media_isPlaying (fst (run media_step ops media_new)) \<longleftrightarrow> (\<exists>k. sr_playing (ms_src (fst (run media_step ops media_new)) k)))
   \<and> (ms_active (fst (run media_step ops media_new)) = None
        \<longleftrightarrow> (\<forall>k. \<not> sr_connected (ms_src (fst (run media_step ops media_new)) k)))
   \<and> announced (fst (run media_step ops media_new)) (media_step x (fst (run media_step ops media_new)))"
  using implementsD(2) [OF media_run_implements] settled_shows [OF media_run_implements spec_run_settled] media_step_announced
  by blast

end
