(* ===== verification/Play_Queue.thy ===== *)
theory Play_Queue
  imports Prelude "HOL-Library.Multiset"
begin

text \<open>
  The play order of the local media player: \<open>plugins/media_player/PlayQueue.cpp\<close>, a snapshot of
  tracks with an order of traversal that may be shuffled, and \<open>PlaybackPolicy.cpp\<close>, what follows
  the end of a track.  The random generator is the parameter \<open>rand\<close>, of which only the
  documented range is used.  Operations return the signals they emit.
\<close>

section \<open>The queue\<close>

record 'r play_queue =
  pq_tracks :: "string list"
  pq_order :: "nat list"
  pq_orderPos :: int
  pq_currentIndex :: int
  pq_shuffle :: bool
  pq_repeatMode :: int
  pq_rng :: 'r

datatype queue_signal = CurrentChanged | QueueChanged | ShuffleChanged | RepeatModeChanged

definition RepeatOff :: int where "RepeatOff = 0"
definition RepeatAll :: int where "RepeatAll = 1"
definition RepeatOne :: int where "RepeatOne = 2"

definition queue_new :: "'r \<Rightarrow> 'r play_queue" where
  "queue_new r = \<lparr>pq_tracks = [], pq_order = [], pq_orderPos = -1, pq_currentIndex = -1, pq_shuffle = False,
     pq_repeatMode = RepeatOff, pq_rng = r\<rparr>"

text \<open>\<open>rand n r\<close> is \<open>QRandomGenerator::bounded(n)\<close>: a number below \<open>n\<close> and the generator after it.\<close>

type_synonym 'r random = "nat \<Rightarrow> 'r \<Rightarrow> nat \<times> 'r"

definition random_ok :: "'r random \<Rightarrow> bool" where
  "random_ok rand \<longleftrightarrow> (\<forall>n r. 0 < n \<longrightarrow> fst (rand n r) < n)"

definition swap_at :: "'a list \<Rightarrow> nat \<Rightarrow> nat \<Rightarrow> 'a list" where
  "swap_at xs i j = xs[i := xs ! j, j := xs ! i]"

text \<open>\<open>QVector::indexOf\<close>.\<close>

definition queue_indexOf :: "int \<Rightarrow> nat list \<Rightarrow> int" where
  "queue_indexOf c xs = (let k = length (takeWhile (\<lambda>x. int x \<noteq> c) xs) in if k < length xs then int k else -1)"

primrec shuffle_from :: "'r random \<Rightarrow> nat \<Rightarrow> nat list \<times> 'r \<Rightarrow> nat list \<times> 'r" where
  "shuffle_from rand 0 x = x"
| "shuffle_from rand (Suc i) x = (let (j, r) = rand (Suc (Suc i)) (snd x) in shuffle_from rand i (swap_at (fst x) (Suc i) j, r))"

definition rebuildOrder :: "'r random \<Rightarrow> 'r play_queue \<Rightarrow> 'r play_queue" where
  "rebuildOrder rand q = (
     let n = length (pq_tracks q);
         q1 = (if pq_shuffle q \<and> n > 1
           then let (xs, r) = shuffle_from rand (n - 1) ([0..<n], pq_rng q);
                    cur = queue_indexOf (pq_currentIndex q) xs
                in q\<lparr>pq_order := (if cur > 0 then swap_at xs 0 (nat cur) else xs), pq_orderPos := 0, pq_rng := r\<rparr>
           else q\<lparr>pq_order := [0..<n], pq_orderPos := max 0 (pq_currentIndex q)\<rparr>)
     in if pq_order q1 = [] then q1\<lparr>pq_orderPos := -1\<rparr> else q1)"

definition setTracks :: "'r random \<Rightarrow> string list \<Rightarrow> int \<Rightarrow> 'r play_queue \<Rightarrow> 'r play_queue \<times> queue_signal list" where
  "setTracks rand paths startIndex q =
     (rebuildOrder rand (q\<lparr>pq_tracks := paths, pq_currentIndex :=
        (if paths = [] then -1 else max 0 (min startIndex (int (length paths) - 1)))\<rparr>), [QueueChanged, CurrentChanged])"

definition clear_queue :: "'r play_queue \<Rightarrow> 'r play_queue \<times> queue_signal list" where
  "clear_queue q = (q\<lparr>pq_tracks := [], pq_order := [], pq_orderPos := -1, pq_currentIndex := -1\<rparr>, [QueueChanged, CurrentChanged])"

definition currentTrack :: "'r play_queue \<Rightarrow> string" where
  "currentTrack q = (if 0 \<le> pq_currentIndex q \<and> pq_currentIndex q < int (length (pq_tracks q))
     then pq_tracks q ! nat (pq_currentIndex q) else [])"

definition setShuffle :: "'r random \<Rightarrow> bool \<Rightarrow> 'r play_queue \<Rightarrow> 'r play_queue \<times> queue_signal list" where
  "setShuffle rand b q = (if pq_shuffle q = b then (q, []) else (rebuildOrder rand (q\<lparr>pq_shuffle := b\<rparr>), [ShuffleChanged]))"

definition setRepeatMode :: "int \<Rightarrow> 'r play_queue \<Rightarrow> 'r play_queue \<times> queue_signal list" where
  "setRepeatMode mode q = (if pq_repeatMode q = mode then (q, []) else (q\<lparr>pq_repeatMode := mode\<rparr>, [RepeatModeChanged]))"

definition setShuffleSeed :: "'r random \<Rightarrow> 'r \<Rightarrow> 'r play_queue \<Rightarrow> 'r play_queue \<times> queue_signal list" where
  "setShuffleSeed rand seed q = (let q1 = q\<lparr>pq_rng := seed\<rparr> in (if pq_shuffle q then rebuildOrder rand q1 else q1, []))"

definition queue_go_to :: "int \<Rightarrow> 'r play_queue \<Rightarrow> 'r play_queue" where
  "queue_go_to pos q = q\<lparr>pq_orderPos := pos, pq_currentIndex := int (pq_order q ! nat pos)\<rparr>"

definition advance :: "bool \<Rightarrow> 'r play_queue \<Rightarrow> 'r play_queue \<times> bool \<times> queue_signal list" where
  "advance manual q = (
     if pq_tracks q = [] then (q, False, [])
     else if pq_repeatMode q = RepeatOne \<and> \<not> manual then (q, True, [CurrentChanged])
     else if pq_orderPos q + 1 < int (length (pq_order q)) then (queue_go_to (pq_orderPos q + 1) q, True, [CurrentChanged])
     else if pq_repeatMode q = RepeatAll \<or> (pq_repeatMode q = RepeatOne \<and> manual) then (queue_go_to 0 q, True, [CurrentChanged])
     else (q, False, []))"

definition retreat :: "'r play_queue \<Rightarrow> 'r play_queue \<times> bool \<times> queue_signal list" where
  "retreat q = (
     if pq_tracks q = [] then (q, False, [])
     else if pq_orderPos q > 0 then (queue_go_to (pq_orderPos q - 1) q, True, [CurrentChanged])
     else if pq_repeatMode q = RepeatAll then (queue_go_to (int (length (pq_order q)) - 1) q, True, [CurrentChanged])
     else (q, False, []))"

definition jumpTo :: "int \<Rightarrow> 'r play_queue \<Rightarrow> 'r play_queue \<times> queue_signal list" where
  "jumpTo i q = (
     if i < 0 \<or> i \<ge> int (length (pq_tracks q)) then (q, [])
     else let pos = queue_indexOf i (pq_order q)
          in (q\<lparr>pq_currentIndex := i, pq_orderPos := (if pos < 0 then 0 else pos)\<rparr>, [CurrentChanged]))"

text \<open>The new index of each old one, \<open>None\<close> for a removed track.\<close>

fun old_to_new :: "(string \<Rightarrow> bool) \<Rightarrow> string list \<Rightarrow> nat \<Rightarrow> nat option list" where
  "old_to_new gone [] k = []"
| "old_to_new gone (t # ts) k = (if gone t then None # old_to_new gone ts k else Some k # old_to_new gone ts (Suc k))"

definition startsWith :: "string \<Rightarrow> string \<Rightarrow> bool" where
  "startsWith pre s = (take (length pre) s = pre)"

definition removeTracksUnder :: "string \<Rightarrow> 'r play_queue \<Rightarrow> 'r play_queue \<times> nat \<times> queue_signal list" where
  "removeTracksUnder pathPrefix q = (
     let gone = startsWith pathPrefix;
         newTracks = filter (\<lambda>t. \<not> gone t) (pq_tracks q);
         removed = length (filter gone (pq_tracks q));
         m = old_to_new gone (pq_tracks q) 0;
         cur = pq_currentIndex q;
         survives = (cur \<ge> 0 \<and> m ! nat cur \<noteq> None);
         successor = (if \<not> survives \<and> cur \<ge> 0 then find (\<lambda>e. m ! e \<noteq> None) (drop (nat (pq_orderPos q + 1)) (pq_order q)) else None);
         newOrder = List.map_filter (\<lambda>e. m ! e) (pq_order q);
         current = (if survives then int (the (m ! nat cur))
           else case successor of Some e \<Rightarrow> int (the (m ! e)) | None \<Rightarrow> int (hd newOrder))
     in if pq_tracks q = [] \<or> removed = 0 then (q, 0, [])
        else if newTracks = []
        then (q\<lparr>pq_tracks := newTracks, pq_order := newOrder, pq_currentIndex := -1, pq_orderPos := -1\<rparr>, removed, [QueueChanged, CurrentChanged])
        else (q\<lparr>pq_tracks := newTracks, pq_order := newOrder, pq_currentIndex := current,
                pq_orderPos := queue_indexOf current newOrder\<rparr>, removed, [QueueChanged, CurrentChanged]))"

datatype 'r queue_op =
    SetTracks "string list" int
  | ClearQueue
  | SetShuffle bool
  | SetRepeatMode int
  | SetShuffleSeed 'r
  | Advance bool
  | Retreat
  | JumpTo int
  | RemoveUnder string

fun queue_step :: "'r random \<Rightarrow> 'r queue_op \<Rightarrow> 'r play_queue \<Rightarrow> 'r play_queue \<times> queue_signal list" where
  "queue_step rand (SetTracks ps i) q = setTracks rand ps i q"
| "queue_step rand ClearQueue q = clear_queue q"
| "queue_step rand (SetShuffle b) q = setShuffle rand b q"
| "queue_step rand (SetRepeatMode m) q = setRepeatMode m q"
| "queue_step rand (SetShuffleSeed s) q = setShuffleSeed rand s q"
| "queue_step rand (Advance man) q = (case advance man q of (q', b, es) \<Rightarrow> (q', es))"
| "queue_step rand Retreat q = (case retreat q of (q', b, es) \<Rightarrow> (q', es))"
| "queue_step rand (JumpTo i) q = jumpTo i q"
| "queue_step rand (RemoveUnder p) q = (case removeTracksUnder p q of (q', n, es) \<Rightarrow> (q', es))"

section \<open>The policy at the end of a track\<close>

record playback_policy =
  pp_consecutiveErrors :: int
  pp_lastProgressMs :: int
  pp_restoring :: bool
  pp_shuttingDown :: bool

definition policy_new :: playback_policy where
  "policy_new = \<lparr>pp_consecutiveErrors = 0, pp_lastProgressMs = 0, pp_restoring = False, pp_shuttingDown = False\<rparr>"

datatype track_end_verdict = AdvanceVerdict | UnplayableVerdict
datatype unplayable_verdict = SkipNext | StopAndNotify | StayStopped

definition kMaxConsecutiveErrors :: int where "kMaxConsecutiveErrors = 3"
definition kMinAudibleMs :: int where "kMinAudibleMs = 500"

definition onTrackFinished :: "playback_policy \<Rightarrow> track_end_verdict" where
  "onTrackFinished p = (if pp_lastProgressMs p < kMinAudibleMs then UnplayableVerdict else AdvanceVerdict)"

definition onUnplayableEdge :: "playback_policy \<Rightarrow> playback_policy \<times> unplayable_verdict" where
  "onUnplayableEdge p = (
     if pp_restoring p then (p\<lparr>pp_restoring := False\<rparr>, StayStopped)
     else let p1 = p\<lparr>pp_consecutiveErrors := pp_consecutiveErrors p + 1\<rparr>
          in (p1, if pp_consecutiveErrors p1 \<ge> kMaxConsecutiveErrors then StopAndNotify else SkipNext))"

definition resetStrikes :: "playback_policy \<Rightarrow> playback_policy" where
  "resetStrikes p = p\<lparr>pp_consecutiveErrors := 0\<rparr>"

definition onProgress :: "int \<Rightarrow> playback_policy \<Rightarrow> playback_policy" where
  "onProgress pos p = (
     let p1 = p\<lparr>pp_lastProgressMs := max (pp_lastProgressMs p) pos\<rparr>
     in if pos > kMinAudibleMs then p1\<lparr>pp_consecutiveErrors := 0\<rparr> else p1)"

definition onTrackStarted :: "playback_policy \<Rightarrow> playback_policy" where
  "onTrackStarted p = p\<lparr>pp_lastProgressMs := 0\<rparr>"

definition onUserAction :: "playback_policy \<Rightarrow> playback_policy" where
  "onUserAction p = p\<lparr>pp_restoring := False\<rparr>"

definition onNewQueue :: "playback_policy \<Rightarrow> playback_policy" where
  "onNewQueue p = p\<lparr>pp_consecutiveErrors := 0\<rparr>"

definition onRestoreBegan :: "playback_policy \<Rightarrow> playback_policy" where
  "onRestoreBegan p = p\<lparr>pp_restoring := True\<rparr>"

definition onShutdownBegan :: "playback_policy \<Rightarrow> playback_policy" where
  "onShutdownBegan p = p\<lparr>pp_shuttingDown := True\<rparr>"

definition saveAllowed :: "playback_policy \<Rightarrow> bool" where
  "saveAllowed p \<longleftrightarrow> \<not> pp_restoring p \<and> \<not> pp_shuttingDown p"

section \<open>The invariant\<close>

definition queue_ok :: "'r play_queue \<Rightarrow> bool" where
  "queue_ok q \<longleftrightarrow> mset (pq_order q) = mset [0..<length (pq_tracks q)]
     \<and> (if pq_tracks q = [] then pq_orderPos q = -1 \<and> pq_currentIndex q = -1
        else 0 \<le> pq_orderPos q \<and> pq_orderPos q < int (length (pq_tracks q))
          \<and> pq_currentIndex q = int (pq_order q ! nat (pq_orderPos q)))"

lemma order_facts:
  assumes "mset xs = mset [0..<n]"
  shows "length xs = n" "distinct xs" "set xs = {..<n}"
proof -
  show "length xs = n" using arg_cong [OF assms, of size] by simp
  show "distinct xs" using mset_eq_imp_distinct_iff [OF assms] by simp
  show "set xs = {..<n}" using mset_eq_setD [OF assms] by (simp add: lessThan_atLeast0)
qed

lemma indexOf_nth:
  assumes "distinct xs" "k < length xs"
  shows "queue_indexOf (int (xs ! k)) xs = int k"
proof -
  have "takeWhile (\<lambda>x. int x \<noteq> int (xs ! k)) xs = take k xs"
    using assms by (intro takeWhile_eq_take_P_nth) (auto simp: nth_eq_iff_index_eq)
  then show ?thesis using assms by (simp add: queue_indexOf_def)
qed

lemma indexOf_in:
  assumes "distinct xs" "x \<in> set xs"
  shows "0 \<le> queue_indexOf (int x) xs" "queue_indexOf (int x) xs < int (length xs)" "xs ! nat (queue_indexOf (int x) xs) = x"
  using assms indexOf_nth [OF assms(1)] by (auto simp: in_set_conv_nth)

lemma mset_swap_at: "i < length xs \<Longrightarrow> j < length xs \<Longrightarrow> mset (swap_at xs i j) = mset xs"
  unfolding swap_at_def by (rule mset_swap)

lemma length_swap_at [simp]: "length (swap_at xs i j) = length xs"
  by (simp add: swap_at_def)

lemma shuffle_from_mset:
  assumes "random_ok rand" "i < length (fst x)"
  shows "mset (fst (shuffle_from rand i x)) = mset (fst x)"
  using assms(2)
proof (induction i arbitrary: x)
  case 0
  then show ?case by simp
next
  case (Suc i)
  obtain j r where j: "rand (Suc (Suc i)) (snd x) = (j, r)" by (metis prod.exhaust)
  then have "j < Suc (Suc i)" using assms(1) by (metis random_ok_def fst_conv zero_less_Suc)
  with Suc.prems Suc.IH [of "(swap_at (fst x) (Suc i) j, r)"] show ?case
    by (simp add: j mset_swap_at)
qed

lemma rebuildOrder_ok:
  assumes rand: "random_ok rand"
    and cur: "if pq_tracks q = [] then pq_currentIndex q = -1 else 0 \<le> pq_currentIndex q \<and> pq_currentIndex q < int (length (pq_tracks q))"
  shows "queue_ok (rebuildOrder rand q) \<and> pq_tracks (rebuildOrder rand q) = pq_tracks q
    \<and> pq_currentIndex (rebuildOrder rand q) = pq_currentIndex q"
proof (cases "pq_shuffle q \<and> length (pq_tracks q) > 1")
  case False
  then have "rebuildOrder rand q = q\<lparr>pq_order := [0..<length (pq_tracks q)],
      pq_orderPos := (if pq_tracks q = [] then -1 else max 0 (pq_currentIndex q))\<rparr>"
    by (auto simp: rebuildOrder_def Let_def)
  with cur show ?thesis by (cases "pq_tracks q = []") (auto simp: queue_ok_def nth_upt)
next
  case True
  define n where "n = length (pq_tracks q)"
  define xs where "xs = fst (shuffle_from rand (n - 1) ([0..<n], pq_rng q))"
  define r where "r = snd (shuffle_from rand (n - 1) ([0..<n], pq_rng q))"
  have n: "1 < n" "pq_tracks q \<noteq> []" using True by (auto simp: n_def)
  have m: "mset xs = mset [0..<n]" unfolding xs_def using shuffle_from_mset [OF rand, of "n - 1" "([0..<n], pq_rng q)"] n by simp
  note f = order_facts [OF m]
  define k where "k = queue_indexOf (pq_currentIndex q) xs"
  have c: "0 \<le> pq_currentIndex q" "pq_currentIndex q < int n" using cur n(2) by (simp_all add: n_def)
  then have "nat (pq_currentIndex q) \<in> set xs" unfolding f(3) by simp
  then have k: "0 \<le> k" "k < int n" "int (xs ! nat k) = pq_currentIndex q"
    using indexOf_in [OF f(2), of "nat (pq_currentIndex q)"] c f(1) by (simp_all add: k_def)
  have o: "mset (swap_at xs 0 (nat k)) = mset [0..<n]" using mset_swap_at [of 0 xs "nat k"] k n f(1) m by simp
  have hd: "swap_at xs 0 (nat k) ! 0 = xs ! nat k" using k n f(1) by (auto simp: swap_at_def nth_list_update)
  have nz: "xs \<noteq> []" "swap_at xs 0 j \<noteq> []" for j using f(1) n(1) length_swap_at [of xs 0 j] by (auto simp del: length_swap_at)
  have res: "rebuildOrder rand q = q\<lparr>pq_order := (if k > 0 then swap_at xs 0 (nat k) else xs), pq_orderPos := 0, pq_rng := r\<rparr>"
    using True n f(1) k_def xs_def r_def nz by (auto simp: rebuildOrder_def Let_def n_def split: prod.splits)
  show ?thesis unfolding res using m o hd k n f(1) by (cases "k = 0") (auto simp: queue_ok_def n_def)
qed

lemma queue_go_to_ok: "queue_ok q \<Longrightarrow> 0 \<le> pos \<Longrightarrow> pos < int (length (pq_tracks q)) \<Longrightarrow> queue_ok (queue_go_to pos q)"
  by (auto simp: queue_ok_def queue_go_to_def)

lemma queue_okD:
  assumes "queue_ok q"
  shows "length (pq_order q) = length (pq_tracks q)" "distinct (pq_order q)" "set (pq_order q) = {..<length (pq_tracks q)}"
    and "pq_tracks q \<noteq> [] \<Longrightarrow> 0 \<le> pq_orderPos q \<and> pq_orderPos q < int (length (pq_tracks q))
      \<and> pq_currentIndex q = int (pq_order q ! nat (pq_orderPos q))"
  using assms order_facts [of "pq_order q" "length (pq_tracks q)"] by (auto simp: queue_ok_def)

lemma current_in_range:
  assumes "queue_ok q" "pq_tracks q \<noteq> []"
  shows "0 \<le> pq_currentIndex q" "pq_currentIndex q < int (length (pq_tracks q))"
proof -
  note d = queue_okD [OF assms(1)]
  have "pq_order q ! nat (pq_orderPos q) \<in> set (pq_order q)" using d(1) d(4) [OF assms(2)] by (auto intro!: nth_mem)
  then show "0 \<le> pq_currentIndex q" "pq_currentIndex q < int (length (pq_tracks q))" using d(3) d(4) [OF assms(2)] by auto
qed

section \<open>Removal of tracks\<close>

lemma length_old_to_new [simp]: "length (old_to_new gone ts k) = length ts"
  by (induction gone ts k rule: old_to_new.induct) auto

lemma old_to_new_nth:
  "i < length ts \<Longrightarrow> old_to_new gone ts k ! i = (if gone (ts ! i) then None else Some (k + length (filter (\<lambda>t. \<not> gone t) (take i ts))))"
proof (induction gone ts k arbitrary: i rule: old_to_new.induct)
  case (2 gone t ts k)
  then show ?case by (cases i) auto
qed simp

lemma filter_nth_count: "i < length xs \<Longrightarrow> P (xs ! i) \<Longrightarrow> filter P xs ! length (filter P (take i xs)) = xs ! i
    \<and> length (filter P (take i xs)) < length (filter P xs)"
proof (induction xs arbitrary: i)
  case (Cons x xs)
  then show ?case by (cases i) auto
qed simp

lemma filter_take_mono:
  assumes "i < j" "j < length xs" "P (xs ! i)"
  shows "length (filter P (take i xs)) < length (filter P (take j xs))"
proof -
  have "take j xs = take i xs @ drop i (take j xs)" using append_take_drop_id [of i "take j xs"] assms by (simp add: min_def)
  moreover have "drop i (take j xs) = xs ! i # drop (Suc i) (take j xs)"
    using assms by (simp add: Cons_nth_drop_Suc [symmetric])
  ultimately show ?thesis using assms(3) by (metis add_less_cancel_left filter.simps(2) filter_append length_append length_greater_0_conv list.discI nat_add_left_cancel_less add_0_right)
qed

text \<open>The queue in the order of traversal.\<close>

definition play_list :: "'r play_queue \<Rightarrow> string list" where
  "play_list q = map (\<lambda>i. pq_tracks q ! i) (pq_order q)"

lemma play_list_mset: "queue_ok q \<Longrightarrow> mset (play_list q) = mset (pq_tracks q)"
  by (metis map_nth mset_map play_list_def queue_ok_def)

lemma map_filter_filter: "List.map_filter f xs = map (the \<circ> f) (filter (\<lambda>x. f x \<noteq> None) xs)"
  by (simp add: List.map_filter_def)

lemma remove_order:
  fixes q :: "'r play_queue" and gone :: "string \<Rightarrow> bool"
  assumes q: "queue_ok q"
  defines "m \<equiv> old_to_new gone (pq_tracks q) 0" and "ts \<equiv> filter (\<lambda>t. \<not> gone t) (pq_tracks q)"
  defines "o' \<equiv> List.map_filter (\<lambda>e. m ! e) (pq_order q)"
  shows "map (\<lambda>i. ts ! i) o' = filter (\<lambda>t. \<not> gone t) (play_list q)" "mset o' = mset [0..<length ts]"
proof -
  note d = queue_okD [OF q]
  have m: "m ! e = (if gone (pq_tracks q ! e) then None else Some (length (filter (\<lambda>t. \<not> gone t) (take e (pq_tracks q)))))"
    if "e \<in> set (pq_order q)" for e
    using that d(3) by (simp add: m_def old_to_new_nth)
  define S where "S = filter (\<lambda>e. \<not> gone (pq_tracks q ! e)) (pq_order q)"
  define f where "f e = length (filter (\<lambda>t. \<not> gone t) (take e (pq_tracks q)))" for e
  have o': "o' = map f S"
  proof -
    have "filter (\<lambda>e. m ! e \<noteq> None) (pq_order q) = S" unfolding S_def by (rule filter_cong) (auto simp: m)
    moreover have "the (m ! e) = f e" if "e \<in> set S" for e using that m [of e] by (auto simp: S_def f_def)
    ultimately show ?thesis by (simp add: o'_def map_filter_filter)
  qed
  have fS: "ts ! f e = pq_tracks q ! e \<and> f e < length ts" if "e \<in> set S" for e
    using that d(3) filter_nth_count [of e "pq_tracks q" "\<lambda>t. \<not> gone t"] by (auto simp: S_def f_def ts_def)
  have "map (\<lambda>i. ts ! i) o' = map (\<lambda>e. pq_tracks q ! e) S" using fS by (simp add: o' o_def)
  also have "\<dots> = filter (\<lambda>t. \<not> gone t) (play_list q)" by (simp add: S_def play_list_def filter_map o_def)
  finally show l: "map (\<lambda>i. ts ! i) o' = filter (\<lambda>t. \<not> gone t) (play_list q)" .
  have inj: "inj_on f (set S)"
  proof (rule linorder_inj_onI)
    fix a b assume ab: "a < b" "a \<in> set S" "b \<in> set S"
    then show "f a \<noteq> f b"
      using filter_take_mono [of a b "pq_tracks q" "\<lambda>t. \<not> gone t"] d(3) by (auto simp: S_def f_def)
  qed auto
  have dist: "distinct o'" using inj d(2) by (simp add: o' distinct_map S_def)
  have len: "length o' = length ts"
  proof -
    have "length o' = length (filter (\<lambda>t. \<not> gone t) (play_list q))" using arg_cong [OF l, of length] by simp
    also have "\<dots> = size (filter_mset (\<lambda>t. \<not> gone t) (mset (play_list q)))" by (metis mset_filter size_mset)
    also have "\<dots> = length ts" unfolding play_list_mset [OF q] ts_def by (metis mset_filter size_mset)
    finally show ?thesis .
  qed
  have "set o' = {..<length ts}"
  proof (rule card_subset_eq)
    show "set o' \<subseteq> {..<length ts}" using fS by (auto simp: o')
    show "card (set o') = card {..<length ts}" using distinct_card [OF dist] len by simp
  qed simp
  then have "set o' = set [0..<length ts]" by (simp add: lessThan_atLeast0)
  with dist show "mset o' = mset [0..<length ts]" by (metis distinct_upt set_eq_iff_mset_eq_distinct)
qed

text \<open>Where the queue stands after a removal that leaves some track.\<close>

lemma remove_current:
  fixes q :: "'r play_queue" and p :: string
  assumes q: "queue_ok q" and r: "removeTracksUnder p q = (q', k, es)"
    and rem: "filter (startsWith p) (pq_tracks q) \<noteq> []" "filter (\<lambda>t. \<not> startsWith p t) (pq_tracks q) \<noteq> []"
  defines "m \<equiv> old_to_new (startsWith p) (pq_tracks q) 0"
  defines "xs \<equiv> List.map_filter (\<lambda>e. m ! e) (pq_order q)"
  shows "\<exists>c \<in> set xs. q' = q\<lparr>pq_tracks := filter (\<lambda>t. \<not> startsWith p t) (pq_tracks q), pq_order := xs,
      pq_currentIndex := int c, pq_orderPos := queue_indexOf (int c) xs\<rparr>
    \<and> (m ! nat (pq_currentIndex q) \<noteq> None \<longrightarrow> m ! nat (pq_currentIndex q) = Some c)"
proof -
  have ne: "pq_tracks q \<noteq> []" using rem by auto
  note cur = current_in_range [OF q ne] and ro = remove_order(2) [OF q, of "startsWith p", folded m_def xs_def]
  define P where "P = find (\<lambda>e. m ! e \<noteq> None) (drop (nat (pq_orderPos q + 1)) (pq_order q))"
  define c where "c = (if m ! nat (pq_currentIndex q) \<noteq> None then the (m ! nat (pq_currentIndex q))
    else case P of Some e \<Rightarrow> the (m ! e) | None \<Rightarrow> hd xs)"
  have nz: "xs \<noteq> []" using order_facts(1) [OF ro] rem(2) by (auto simp: xs_def)
  have keep: "the (m ! e) \<in> set xs" if "e \<in> set (pq_order q)" "m ! e \<noteq> None" for e
    using that by (force simp: xs_def map_filter_filter)
  have "nat (pq_currentIndex q) \<in> set (pq_order q)" using queue_okD(3) [OF q] cur by auto
  moreover have "e \<in> set (pq_order q) \<and> m ! e \<noteq> None" if "P = Some e" for e
    using that unfolding P_def by (metis (mono_tags, lifting) find_Some_iff in_set_dropD nth_mem)
  ultimately have "c \<in> set xs" using keep nz by (auto simp: c_def split: option.splits)
  moreover have "q' = q\<lparr>pq_tracks := filter (\<lambda>t. \<not> startsWith p t) (pq_tracks q), pq_order := xs,
      pq_currentIndex := int c, pq_orderPos := queue_indexOf (int c) xs\<rparr>"
    using r rem ne cur by (auto simp: removeTracksUnder_def Let_def c_def P_def m_def [symmetric] xs_def [symmetric] split: option.splits if_splits)
  moreover have "m ! nat (pq_currentIndex q) \<noteq> None \<longrightarrow> m ! nat (pq_currentIndex q) = Some c" by (auto simp: c_def)
  ultimately show ?thesis by blast
qed

lemma remove_some:
  assumes q: "queue_ok q" and r: "removeTracksUnder p q = (q', k, es)"
    and rem: "filter (startsWith p) (pq_tracks q) \<noteq> []" "filter (\<lambda>t. \<not> startsWith p t) (pq_tracks q) \<noteq> []"
  shows "queue_ok q'" "\<not> startsWith p (currentTrack q) \<Longrightarrow> currentTrack q' = currentTrack q"
proof -
  define m where "m = old_to_new (startsWith p) (pq_tracks q) 0"
  define ts where "ts = filter (\<lambda>t. \<not> startsWith p t) (pq_tracks q)"
  define xs where "xs = List.map_filter (\<lambda>e. m ! e) (pq_order q)"
  obtain c where c: "c \<in> set xs" "q' = q\<lparr>pq_tracks := ts, pq_order := xs, pq_currentIndex := int c, pq_orderPos := queue_indexOf (int c) xs\<rparr>"
      "m ! nat (pq_currentIndex q) \<noteq> None \<longrightarrow> m ! nat (pq_currentIndex q) = Some c"
    using remove_current [OF q r rem, folded m_def, folded xs_def ts_def] by blast
  have o: "mset xs = mset [0..<length ts]" using remove_order(2) [OF q, of "startsWith p", folded m_def ts_def, folded xs_def] .
  note f = order_facts [OF o] and io = indexOf_in [OF order_facts(2) [OF o] c(1)]
  show "queue_ok q'" using rem(2) o f(1) io by (auto simp: queue_ok_def c(2) ts_def)
  have ne: "pq_tracks q \<noteq> []" using rem by auto
  have cur: "0 \<le> pq_currentIndex q" "nat (pq_currentIndex q) < length (pq_tracks q)" using current_in_range [OF q ne] by auto
  show "currentTrack q' = currentTrack q" if "\<not> startsWith p (currentTrack q)"
  proof -
    have g: "\<not> startsWith p (pq_tracks q ! nat (pq_currentIndex q))"
      using that current_in_range [OF q ne] by (simp add: currentTrack_def)
    then have "c = length (filter (\<lambda>t. \<not> startsWith p t) (take (nat (pq_currentIndex q)) (pq_tracks q)))"
      using c(3) cur by (simp add: m_def old_to_new_nth)
    then show ?thesis
      using filter_nth_count [OF cur(2), of "\<lambda>t. \<not> startsWith p t"] g cur by (auto simp: currentTrack_def c(2) ts_def)
  qed
qed

lemma remove_ok:
  assumes q: "queue_ok q" and r: "removeTracksUnder p q = (q', k, es)"
  shows "queue_ok q' \<and> pq_tracks q' = filter (\<lambda>t. \<not> startsWith p t) (pq_tracks q)
    \<and> play_list q' = filter (\<lambda>t. \<not> startsWith p t) (play_list q) \<and> k = length (filter (startsWith p) (pq_tracks q))
    \<and> (pq_tracks q' \<noteq> [] \<longrightarrow> \<not> startsWith p (currentTrack q) \<longrightarrow> currentTrack q' = currentTrack q)"
proof (cases "filter (startsWith p) (pq_tracks q) = []")
  case True
  then have "q' = q" "k = 0" using r by (auto simp: removeTracksUnder_def Let_def)
  moreover have "set (play_list q) = set (pq_tracks q)" using mset_eq_setD [OF play_list_mset [OF q]] .
  ultimately show ?thesis using q True by (simp add: filter_empty_conv)
next
  case rem: False
  have res: "pq_tracks q' = filter (\<lambda>t. \<not> startsWith p t) (pq_tracks q)"
      "pq_order q' = List.map_filter (\<lambda>e. old_to_new (startsWith p) (pq_tracks q) 0 ! e) (pq_order q)"
      "k = length (filter (startsWith p) (pq_tracks q))"
    using r rem by (auto simp: removeTracksUnder_def Let_def split: if_splits)
  then have pl: "play_list q' = filter (\<lambda>t. \<not> startsWith p t) (play_list q)"
    using remove_order(1) [OF q, of "startsWith p"] by (simp add: play_list_def)
  show ?thesis
  proof (cases "filter (\<lambda>t. \<not> startsWith p t) (pq_tracks q) = []")
    case True
    moreover have "pq_currentIndex q' = -1 \<and> pq_orderPos q' = -1"
      using r rem True by (auto simp: removeTracksUnder_def Let_def split: if_splits)
    moreover have "pq_order q' = []" using order_facts(1) [OF remove_order(2) [OF q, of "startsWith p"]] True res(2) by simp
    ultimately have "queue_ok q'" by (simp add: queue_ok_def res(1))
    with True res pl show ?thesis by simp
  next
    case False
    with remove_some [OF q r rem False] res pl show ?thesis by blast
  qed
qed

section \<open>Every operation keeps the invariant\<close>

lemma queue_ok_fields [simp]:
  "queue_ok (q\<lparr>pq_repeatMode := m\<rparr>) = queue_ok q" "queue_ok (q\<lparr>pq_rng := r\<rparr>) = queue_ok q"
  unfolding queue_ok_def by simp_all

lemma advance_ok:
  assumes "queue_ok q"
  shows "queue_ok (fst (advance man q))"
proof (cases "pq_tracks q = []")
  case False
  from queue_okD(4) [OF assms False] queue_okD(1) [OF assms] assms False show ?thesis
    by (simp add: advance_def queue_go_to_ok)
qed (simp add: advance_def assms)

lemma retreat_ok:
  assumes "queue_ok q"
  shows "queue_ok (fst (retreat q))"
proof (cases "pq_tracks q = []")
  case False
  from queue_okD(4) [OF assms False] queue_okD(1) [OF assms] assms False show ?thesis
    by (simp add: retreat_def queue_go_to_ok)
qed (simp add: retreat_def assms)

lemma jumpTo_ok:
  assumes q: "queue_ok q"
  shows "queue_ok (fst (jumpTo i q))"
proof (cases "i < 0 \<or> i \<ge> int (length (pq_tracks q))")
  case True
  with q show ?thesis by (auto simp: jumpTo_def)
next
  case False
  note d = queue_okD [OF q]
  have "nat i \<in> set (pq_order q)" unfolding d(3) using False by auto
  from indexOf_in [OF d(2) this] False d(1) have "0 \<le> queue_indexOf i (pq_order q)"
      "queue_indexOf i (pq_order q) < int (length (pq_tracks q))" "int (pq_order q ! nat (queue_indexOf i (pq_order q))) = i"
    by simp_all
  moreover have "pq_tracks q \<noteq> []" using False by auto
  moreover have "mset (pq_order q) = mset [0..<length (pq_tracks q)]" using q by (simp add: queue_ok_def)
  ultimately show ?thesis using False unfolding queue_ok_def by (simp add: jumpTo_def Let_def)
qed

lemma rebuild_ok:
  assumes "random_ok rand" "queue_ok q" "pq_tracks q' = pq_tracks q" "pq_currentIndex q' = pq_currentIndex q"
  shows "queue_ok (rebuildOrder rand q')"
proof -
  have "if pq_tracks q' = [] then pq_currentIndex q' = -1 else 0 \<le> pq_currentIndex q' \<and> pq_currentIndex q' < int (length (pq_tracks q'))"
    using assms current_in_range [OF assms(2)] by (auto simp: queue_ok_def)
  from rebuildOrder_ok [OF assms(1) this] show ?thesis by simp
qed

lemma queue_step_ok:
  assumes "random_ok rand" "queue_ok q"
  shows "queue_ok (fst (queue_step rand x q))"
proof (cases x)
  case (SetTracks ps i)
  have "queue_ok (rebuildOrder rand (q\<lparr>pq_tracks := ps, pq_currentIndex := (if ps = [] then -1 else max 0 (min i (int (length ps) - 1)))\<rparr>))"
    using rebuildOrder_ok [OF assms(1), of "q\<lparr>pq_tracks := ps, pq_currentIndex := (if ps = [] then -1 else max 0 (min i (int (length ps) - 1)))\<rparr>"]
    by (cases ps) auto
  with SetTracks show ?thesis by (simp add: setTracks_def)
next
  case ClearQueue
  then show ?thesis by (simp add: clear_queue_def queue_ok_def)
next
  case (SetShuffle b)
  with assms rebuild_ok [OF assms, of "q\<lparr>pq_shuffle := b\<rparr>"] show ?thesis by (simp add: setShuffle_def)
next
  case (SetRepeatMode m)
  with assms show ?thesis by (simp add: setRepeatMode_def)
next
  case (SetShuffleSeed s)
  with assms rebuild_ok [OF assms, of "q\<lparr>pq_rng := s\<rparr>"] show ?thesis by (simp add: setShuffleSeed_def Let_def)
next
  case (Advance man)
  with advance_ok [OF assms(2), of man] show ?thesis by (cases "advance man q") simp
next
  case Retreat
  with retreat_ok [OF assms(2)] show ?thesis by (cases "retreat q") simp
next
  case (JumpTo i)
  with jumpTo_ok [OF assms(2), of i] show ?thesis by simp
next
  case (RemoveUnder p)
  obtain q' k es where "removeTracksUnder p q = (q', k, es)" by (metis prod.exhaust)
  with RemoveUnder remove_ok [OF assms(2) this] show ?thesis by simp
qed

lemma queue_run_ok:
  assumes "random_ok rand"
  shows "queue_ok (fst (run (queue_step rand) ops (queue_new r)))"
proof (rule run_invariant)
  show "queue_ok (queue_new r)" by (simp add: queue_new_def queue_ok_def)
qed (rule queue_step_ok [OF assms])

section \<open>Traversal\<close>

lemma current_is_listed:
  assumes "queue_ok q" "pq_tracks q \<noteq> []"
  shows "currentTrack q = play_list q ! nat (pq_orderPos q)"
  using queue_okD(1,4) [OF assms(1)] current_in_range [OF assms] assms(2) by (auto simp: currentTrack_def play_list_def)

lemma next_position: "0 \<le> p \<Longrightarrow> p < n \<Longrightarrow> (p + 1) mod n = (if p + 1 < n then p + 1 else 0)" for p n :: int
  by (cases "p + 1 = n") auto

lemma advance_all:
  assumes "queue_ok q" "pq_tracks q \<noteq> []" "pq_repeatMode q = RepeatAll"
  shows "fst (advance man q) = queue_go_to ((pq_orderPos q + 1) mod int (length (pq_tracks q))) q" "fst (snd (advance man q))"
proof -
  note d = queue_okD(1,4) [OF assms(1)]
  have "(pq_orderPos q + 1) mod int (length (pq_tracks q)) = (if pq_orderPos q + 1 < int (length (pq_tracks q)) then pq_orderPos q + 1 else 0)"
    using d(2) [OF assms(2)] by (intro next_position) auto
  then show "fst (advance man q) = queue_go_to ((pq_orderPos q + 1) mod int (length (pq_tracks q))) q" "fst (snd (advance man q))"
    using assms d(1) by (simp_all add: advance_def RepeatAll_def RepeatOne_def)
qed

lemma advance_many:
  fixes q :: "'r play_queue" and man :: bool and k :: nat
  assumes "queue_ok q" "pq_tracks q \<noteq> []" "pq_repeatMode q = RepeatAll"
  defines "q' \<equiv> ((\<lambda>q. fst (advance man q)) ^^ k) q"
  shows "queue_ok q' \<and> pq_tracks q' = pq_tracks q \<and> pq_order q' = pq_order q \<and> pq_repeatMode q' = RepeatAll
    \<and> pq_orderPos q' = (pq_orderPos q + int k) mod int (length (pq_tracks q))"
  unfolding q'_def
proof (induction k)
  case 0
  show ?case using assms(1-3) queue_okD(4) [OF assms(1,2)] by simp
next
  case (Suc k)
  let ?q = "((\<lambda>q. fst (advance man q)) ^^ k) q"
  have "queue_ok ?q" "pq_tracks ?q \<noteq> []" "pq_repeatMode ?q = RepeatAll" using Suc.IH assms(2) by auto
  note step = advance_all(1) [OF this, of man] and ok = advance_ok [OF this(1), of man]
  show ?case using Suc.IH ok step by (simp add: queue_go_to_def mod_add_left_eq ac_simps mod_simps)
qed

lemma play_round:
  assumes "queue_ok q" "pq_tracks q \<noteq> []" "pq_repeatMode q = RepeatAll"
  shows "map (\<lambda>k. currentTrack (((\<lambda>q. fst (advance man q)) ^^ k) q)) [0..<length (pq_tracks q)] = rotate (nat (pq_orderPos q)) (play_list q)"
proof (rule nth_equalityI)
  note d = queue_okD [OF assms(1)]
  have len: "length (play_list q) = length (pq_tracks q)" by (simp add: play_list_def d(1))
  show "length (map (\<lambda>k. currentTrack (((\<lambda>q. fst (advance man q)) ^^ k) q)) [0..<length (pq_tracks q)])
      = length (rotate (nat (pq_orderPos q)) (play_list q))" by (simp add: len)
  fix k assume k: "k < length (map (\<lambda>k. currentTrack (((\<lambda>q. fst (advance man q)) ^^ k) q)) [0..<length (pq_tracks q)])"
  let ?q = "((\<lambda>q. fst (advance man q)) ^^ k) q"
  note m = advance_many [OF assms, where man = man and k = k]
  have "currentTrack ?q = play_list ?q ! nat (pq_orderPos ?q)" using m assms(2) by (intro current_is_listed) auto
  also have "play_list ?q = play_list q" using m by (simp add: play_list_def)
  also have "nat (pq_orderPos ?q) = (nat (pq_orderPos q) + k) mod length (pq_tracks q)"
    using m d(4) [OF assms(2)] by (simp add: nat_mod_distrib nat_add_distrib)
  finally show "map (\<lambda>k. currentTrack (((\<lambda>q. fst (advance man q)) ^^ k) q)) [0..<length (pq_tracks q)] ! k
      = rotate (nat (pq_orderPos q)) (play_list q) ! k"
    using k by (simp add: nth_rotate len add.commute)
qed

lemma retreat_advance:
  assumes "queue_ok q" "pq_tracks q \<noteq> []" "pq_repeatMode q = RepeatAll"
  shows "currentTrack (fst (retreat (fst (advance man q)))) = currentTrack q"
proof -
  note d = queue_okD(1,4) [OF assms(1)] and ok = advance_ok [OF assms(1), of man]
  have p: "(pq_orderPos q + 1) mod int (length (pq_tracks q)) = (if pq_orderPos q + 1 < int (length (pq_tracks q)) then pq_orderPos q + 1 else 0)"
    using d(2) [OF assms(2)] by (intro next_position) auto
  have last: "int (length (pq_tracks q)) - 1 = pq_orderPos q" if "\<not> pq_orderPos q + 1 < int (length (pq_tracks q))"
    using that d(2) [OF assms(2)] by simp
  have "fst (retreat (fst (advance man q))) = queue_go_to (pq_orderPos q) q"
  proof (cases "pq_orderPos q + 1 < int (length (pq_tracks q))")
    case True
    then have "fst (advance man q) = queue_go_to (pq_orderPos q + 1) q" by (simp only: advance_all(1) [OF assms] p if_True)
    with d(2) [OF assms(2)] assms(2) show ?thesis by (simp add: retreat_def queue_go_to_def)
  next
    case False
    then have "fst (advance man q) = queue_go_to 0 q" by (simp only: advance_all(1) [OF assms] p if_False)
    with last [OF False] d(1) assms(2,3) show ?thesis by (simp add: retreat_def queue_go_to_def)
  qed
  then show ?thesis using d(2) [OF assms(2)] by (simp add: queue_go_to_def currentTrack_def)
qed

text \<open>
  C14. The local player plays every track once per round, shuffled or not, after every sequence
  of operations: the order of traversal is a permutation of the tracks, a round under repeat
  goes through it from the current track on and comes back, and going back undoes going on.
  When a medium is removed exactly its tracks disappear, the rest keep their order of play, and
  a track that plays and is not on the medium goes on playing.
\<close>

theorem play_queue_rounds:
  fixes rand :: "'r random" and ops :: "'r queue_op list" and r :: 'r
  assumes "random_ok rand"
  defines "q \<equiv> fst (run (queue_step rand) ops (queue_new r))"
  shows "mset (play_list q) = mset (pq_tracks q)
    \<and> (pq_tracks q \<noteq> [] \<and> pq_repeatMode q = RepeatAll \<longrightarrow>
        map (\<lambda>k. currentTrack (((\<lambda>q. fst (advance man q)) ^^ k) q)) [0..<length (pq_tracks q)] = rotate (nat (pq_orderPos q)) (play_list q)
        \<and> currentTrack (fst (retreat (fst (advance man q)))) = currentTrack q)
    \<and> (\<forall>p q' k es. removeTracksUnder p q = (q', k, es) \<longrightarrow>
        pq_tracks q' = filter (\<lambda>t. \<not> startsWith p t) (pq_tracks q) \<and> play_list q' = filter (\<lambda>t. \<not> startsWith p t) (play_list q)
        \<and> k = length (filter (startsWith p) (pq_tracks q))
        \<and> (pq_tracks q' \<noteq> [] \<longrightarrow> \<not> startsWith p (currentTrack q) \<longrightarrow> currentTrack q' = currentTrack q))"
proof -
  have ok: "queue_ok q" unfolding q_def by (rule queue_run_ok [OF assms(1)])
  show ?thesis using play_list_mset [OF ok] play_round [OF ok] retreat_advance [OF ok] remove_ok [OF ok] by blast
qed

definition example_queue :: "nat queue_op list" where
  "example_queue = [SetTracks [''/a/1'', ''/b/2'', ''/a/3'', ''/b/4''] 1, SetRepeatMode 1, SetShuffle True, Advance False]"

definition example_random :: "nat random" where
  "example_random n r = (r mod n, r * 5 + 1)"

lemma play_queue_rounds_witness:
  "pq_tracks (fst (run (queue_step example_random) example_queue (queue_new 7))) = [''/a/1'', ''/b/2'', ''/a/3'', ''/b/4'']
   \<and> map (\<lambda>k. currentTrack (((\<lambda>q. fst (advance True q)) ^^ k) (fst (run (queue_step example_random) example_queue (queue_new 7))))) [0..<4]
     = rotate 1 (play_list (fst (run (queue_step example_random) example_queue (queue_new 7))))
   \<and> play_list (fst (removeTracksUnder ''/a/'' (fst (run (queue_step example_random) example_queue (queue_new 7))))) = [''/b/2'', ''/b/4'']"
proof -
  have ok: "random_ok example_random" by (simp add: random_ok_def example_random_def)
  have e: "pq_tracks (fst (run (queue_step example_random) example_queue (queue_new 7))) = [''/a/1'', ''/b/2'', ''/a/3'', ''/b/4'']"
    "pq_repeatMode (fst (run (queue_step example_random) example_queue (queue_new 7))) = RepeatAll"
    "nat (pq_orderPos (fst (run (queue_step example_random) example_queue (queue_new 7)))) = 1"
    "filter (\<lambda>t. \<not> startsWith ''/a/'' t) (play_list (fst (run (queue_step example_random) example_queue (queue_new 7)))) = [''/b/2'', ''/b/4'']"
    by code_simp+
  note all = play_queue_rounds [OF ok, of example_queue 7 True]
  obtain q' k es where q': "removeTracksUnder ''/a/'' (fst (run (queue_step example_random) example_queue (queue_new 7))) = (q', k, es)"
    by (metis prod.exhaust)
  have "play_list q' = [''/b/2'', ''/b/4'']" using all q' e(4) by metis
  with all e(1-3) q' show ?thesis by (simp add: eval_nat_numeral)
qed

end
