(* ===== verification/Call_State.thy ===== *)
theory Call_State
  imports Prelude
begin

text \<open>
  The state of the telephone call: \<open>core/services/PhoneStateService.cpp\<close> with the notifications it
  posts (\<open>NotificationService.cpp\<close>).  The service merges the events of the telephony client, of
  the audio link to the phone and of the Bluetooth daemon into one call state; when a call
  leaves its setup and it is not clear whether it was accepted or refused, it waits for a while
  (\<open>ps_inSettle\<close>).

  The telephony client is asked by messages it answers later, so its calls are outputs.
  Identifiers of notifications come from the parameter \<open>uuid\<close>; the properties of a Bluetooth
  device and the devices a scan finds are inputs.  A timer is true while it runs.  Subscribing
  to the bus, demarshalling and log messages are left out.
\<close>

section \<open>Notifications\<close>

record notification =
  nt_id :: string
  nt_kind :: string
  nt_message :: string
  nt_sourcePluginId :: string
  nt_priority :: int
  nt_ttlMs :: int

text \<open>A posted map: absent entries are \<open>None\<close>.\<close>

record notification_data =
  nd_kind :: string
  nd_message :: string
  nd_sourcePluginId :: string
  nd_priority :: "int option"
  nd_ttlMs :: "int option"

record notifier =
  no_list :: "notification list"
  no_timers :: "(string \<times> int) list"
  no_posted :: nat

datatype phone_output =
    NotificationAdded notification
  | NotificationRemoved string
  | CallStateChanged
  | CallDurationChanged
  | ConnectionChanged
  | TelephonyAvailableChanged
  | TelAnswer
  | TelHangupAll
  | TelDial string
  | TelSendTones string

definition make_notification :: "string \<Rightarrow> notification_data \<Rightarrow> notification" where
  "make_notification nid d = (
     let ttl = (case nd_ttlMs d of None \<Rightarrow> 0 | Some t \<Rightarrow> t)
     in \<lparr>nt_id = nid, nt_kind = nd_kind d, nt_message = nd_message d, nt_sourcePluginId = nd_sourcePluginId d,
         nt_priority = (case nd_priority d of None \<Rightarrow> 50 | Some p \<Rightarrow> p),
         nt_ttlMs = (if nd_kind d = ''toast'' \<and> ttl \<le> 0 then 5000 else ttl)\<rparr>)"

definition post :: "(nat \<Rightarrow> string) \<Rightarrow> notification_data \<Rightarrow> notifier \<Rightarrow> notifier \<times> string \<times> phone_output list" where
  "post uuid d n = (
     let x = make_notification (uuid (no_posted n)) d
     in (n\<lparr>no_list := no_list n @ [x], no_posted := Suc (no_posted n),
           no_timers := (if nt_ttlMs x > 0 then (nt_id x, nt_ttlMs x) # no_timers n else no_timers n)\<rparr>,
         nt_id x, [NotificationAdded x]))"

fun remove_first :: "string \<Rightarrow> notification list \<Rightarrow> notification list" where
  "remove_first i [] = []"
| "remove_first i (x # xs) = (if nt_id x = i then xs else x # remove_first i xs)"

definition dismiss :: "string \<Rightarrow> notifier \<Rightarrow> notifier \<times> phone_output list" where
  "dismiss i n = (if i \<in> set (map nt_id (no_list n)) then (n\<lparr>no_list := remove_first i (no_list n)\<rparr>, [NotificationRemoved i]) else (n, []))"

section \<open>State of the service\<close>

datatype call_state = CallIdle | CallRinging | CallActive | CallDialing | CallAlerting | CallHeld | CallWaiting

record phone_state =
  ps_callState :: call_state
  ps_callerNumber :: string
  ps_callerName :: string
  ps_callDuration :: int
  ps_phoneConnected :: bool
  ps_deviceName :: string
  ps_devicePath :: string
  ps_notificationId :: string
  ps_telephony :: bool
  ps_telephonyAvailable :: bool
  ps_scoRunning :: bool
  ps_inSettle :: bool
  ps_transportState :: string
  ps_callTimer :: bool
  ps_settleTimer :: bool
  ps_scoDebounceTimer :: bool
  ps_notifier :: "notifier option"

definition phone_new :: "notifier option \<Rightarrow> phone_state" where
  "phone_new n = \<lparr>ps_callState = CallIdle, ps_callerNumber = [], ps_callerName = [], ps_callDuration = 0, ps_phoneConnected = False,
     ps_deviceName = [], ps_devicePath = [], ps_notificationId = [], ps_telephony = False, ps_telephonyAvailable = False,
     ps_scoRunning = False, ps_inSettle = False, ps_transportState = [], ps_callTimer = False, ps_settleTimer = False,
     ps_scoDebounceTimer = False, ps_notifier = n\<rparr>"

type_synonym phone_result = "phone_state \<times> phone_output list"

definition inSetupState :: "phone_state \<Rightarrow> bool" where
  "inSetupState s \<longleftrightarrow> ps_callState s \<in> {CallRinging, CallDialing, CallAlerting}"

definition dismissCall :: "phone_state \<Rightarrow> phone_result" where
  "dismissCall s = (
     let (n, es) = (case ps_notifier s of None \<Rightarrow> (None, [])
           | Some n \<Rightarrow> (let (n', es) = dismiss (ps_notificationId s) n in (Some n', es)))
     in (s\<lparr>ps_notifier := n, ps_notificationId := []\<rparr>, es))"

definition postCall :: "(nat \<Rightarrow> string) \<Rightarrow> phone_state \<Rightarrow> phone_result" where
  "postCall uuid s = (case ps_notifier s of
     None \<Rightarrow> (s, [])
   | Some n \<Rightarrow>
       (let displayName = (if ps_callerName s = [] then ps_callerNumber s else ps_callerName s);
            (n', nid, es) = post uuid \<lparr>nd_kind = ''incoming_call'', nd_message = displayName,
              nd_sourcePluginId = ''org.openauto.phone'', nd_priority = Some 90, nd_ttlMs = None\<rparr> n
        in (s\<lparr>ps_notifier := Some n', ps_notificationId := nid\<rparr>, es)))"

definition setCallStateInternal :: "(nat \<Rightarrow> string) \<Rightarrow> call_state \<Rightarrow> phone_state \<Rightarrow> phone_result" where
  "setCallStateInternal uuid st s = (
     if st = ps_callState s then (s, [])
     else chain (chain (chain
       (s\<lparr>ps_callState := st, ps_callDuration := (if st = CallActive then 0 else ps_callDuration s),
          ps_callTimer := (st = CallActive)\<rparr>, [])
       (\<lambda>s. if st \<noteq> CallRinging \<and> ps_notificationId s \<noteq> [] then dismissCall s else (s, [])))
       (\<lambda>s. if st = CallRinging then postCall uuid s else (s, [])))
       (\<lambda>s. (s, [CallStateChanged])))"

definition clear_caller :: "phone_state \<Rightarrow> phone_state" where
  "clear_caller s = s\<lparr>ps_callerNumber := [], ps_callerName := []\<rparr>"

definition end_settle :: "phone_state \<Rightarrow> phone_state" where
  "end_settle s = s\<lparr>ps_inSettle := False, ps_settleTimer := False\<rparr>"

section \<open>Commands\<close>

definition real_mode :: "phone_state \<Rightarrow> bool" where
  "real_mode s \<longleftrightarrow> ps_telephony s \<and> ps_telephonyAvailable s"

definition phone_answer :: "(nat \<Rightarrow> string) \<Rightarrow> phone_state \<Rightarrow> phone_state \<times> phone_output list \<times> bool" where
  "phone_answer uuid s = (
     if ps_callState s \<noteq> CallRinging then (s, [], False)
     else if real_mode s then (s, [TelAnswer], True)
     else let (s', es) = setCallStateInternal uuid CallActive s in (s', es, True))"

definition phone_hangup :: "(nat \<Rightarrow> string) \<Rightarrow> phone_state \<Rightarrow> phone_state \<times> phone_output list \<times> bool" where
  "phone_hangup uuid s = (
     if ps_callState s = CallIdle then (s, [], False)
     else if real_mode s then (s, [TelHangupAll], True)
     else let (s', es) = setCallStateInternal uuid CallIdle (clear_caller s) in (s', es, True))"

definition phone_dial :: "(nat \<Rightarrow> string) \<Rightarrow> string \<Rightarrow> phone_state \<Rightarrow> phone_state \<times> phone_output list \<times> bool" where
  "phone_dial uuid number s = (
     if ps_callState s \<noteq> CallIdle \<or> number = [] then (s, [], False)
     else if real_mode s then (s, [TelDial number], True)
     else if \<not> ps_telephony s
     then let (s', es) = setCallStateInternal uuid CallDialing (s\<lparr>ps_callerNumber := number, ps_callerName := []\<rparr>) in (s', es, True)
     else (s, [], False))"

definition sendDtmf :: "string \<Rightarrow> phone_state \<Rightarrow> phone_state \<times> phone_output list \<times> bool" where
  "sendDtmf tones s = (
     if ps_callState s \<noteq> CallActive \<or> tones = [] then (s, [], False)
     else if real_mode s then (s, [TelSendTones tones], True)
     else (s, [], \<not> ps_telephony s))"

section \<open>Events\<close>

definition onSelectedGatewayBoundary :: "(nat \<Rightarrow> string) \<Rightarrow> phone_state \<Rightarrow> phone_result" where
  "onSelectedGatewayBoundary uuid s = (
     let metadataChanged = (ps_callerNumber s \<noteq> [] \<or> ps_callerName s \<noteq> []);
         stateUnchanged = (ps_callState s = CallIdle);
         s1 = clear_caller ((end_settle s)\<lparr>ps_scoDebounceTimer := False, ps_scoRunning := False, ps_transportState := []\<rparr>)
     in chain (setCallStateInternal uuid CallIdle s1)
          (\<lambda>s. (s, if stateUnchanged \<and> metadataChanged then [CallStateChanged] else [])))"

definition setup_state :: "string \<Rightarrow> call_state option" where
  "setup_state st = (if st = ''incoming'' then Some CallRinging else if st = ''dialing'' then Some CallDialing
     else if st = ''alerting'' then Some CallAlerting else None)"

definition onCallSetupStarted :: "(nat \<Rightarrow> string) \<Rightarrow> string \<Rightarrow> string \<Rightarrow> string \<Rightarrow> phone_state \<Rightarrow> phone_result" where
  "onCallSetupStarted uuid st line name s = (
     if ps_callState s = CallActive then (s, [])
     else case setup_state st of
       None \<Rightarrow> (s, [])
     | Some nextState \<Rightarrow>
         (let metadataChanged = (ps_callerNumber s \<noteq> line \<or> ps_callerName s \<noteq> name);
              stateUnchanged = (ps_callState s = nextState)
          in chain (setCallStateInternal uuid nextState ((end_settle s)\<lparr>ps_callerNumber := line, ps_callerName := name\<rparr>))
               (\<lambda>s. (s, if stateUnchanged \<and> metadataChanged then [CallStateChanged] else []))))"

definition onCallSetupChanged :: "(nat \<Rightarrow> string) \<Rightarrow> string \<Rightarrow> phone_state \<Rightarrow> phone_result" where
  "onCallSetupChanged uuid st s = (
     if \<not> inSetupState s then (s, [])
     else if st = ''alerting'' then setCallStateInternal uuid CallAlerting s
     else if st = ''active'' then setCallStateInternal uuid CallActive (end_settle s)
     else if st = ''disconnected'' then setCallStateInternal uuid CallIdle (clear_caller (end_settle s))
     else (s, []))"

definition onCallSetupEnded :: "(nat \<Rightarrow> string) \<Rightarrow> phone_state \<Rightarrow> phone_result" where
  "onCallSetupEnded uuid s = (
     if \<not> inSetupState s then (s, [])
     else if ps_scoRunning s then setCallStateInternal uuid CallActive s
     else (s\<lparr>ps_inSettle := True, ps_settleTimer := True\<rparr>, []))"

definition onSettleTimeout :: "(nat \<Rightarrow> string) \<Rightarrow> phone_state \<Rightarrow> phone_result" where
  "onSettleTimeout uuid s0 = (
     let s = s0\<lparr>ps_settleTimer := False\<rparr>
     in if \<not> ps_inSettle s then (s, [])
        else setCallStateInternal uuid CallIdle (clear_caller (s\<lparr>ps_inSettle := False\<rparr>)))"

definition onScoRunningChanged :: "(nat \<Rightarrow> string) \<Rightarrow> bool \<Rightarrow> phone_state \<Rightarrow> phone_result" where
  "onScoRunningChanged uuid running s0 = (
     let s = s0\<lparr>ps_scoRunning := running\<rparr>
     in if running
        then (if ps_inSettle s then setCallStateInternal uuid CallActive (end_settle (s\<lparr>ps_scoDebounceTimer := False\<rparr>))
              else (s\<lparr>ps_scoDebounceTimer := False\<rparr>, []))
        else (s\<lparr>ps_scoDebounceTimer := ps_callState s = CallActive \<or> ps_scoDebounceTimer s\<rparr>, []))"

definition onScoDebounceTimeout :: "(nat \<Rightarrow> string) \<Rightarrow> phone_state \<Rightarrow> phone_result" where
  "onScoDebounceTimeout uuid s0 = (
     let s = s0\<lparr>ps_scoDebounceTimer := False\<rparr>
     in if ps_callState s = CallActive \<and> \<not> ps_scoRunning s then setCallStateInternal uuid CallIdle (clear_caller s)
        else (s, []))"

definition end_call_without_sco :: "(nat \<Rightarrow> string) \<Rightarrow> phone_state \<Rightarrow> phone_result" where
  "end_call_without_sco uuid s = (
     if ps_callState s = CallActive \<and> \<not> ps_scoRunning s
     then setCallStateInternal uuid CallIdle (clear_caller (s\<lparr>ps_scoDebounceTimer := False\<rparr>)) else (s, []))"

definition onTransportStateChanged :: "(nat \<Rightarrow> string) \<Rightarrow> string \<Rightarrow> phone_state \<Rightarrow> phone_result" where
  "onTransportStateChanged uuid st s0 = (
     let s = s0\<lparr>ps_transportState := st\<rparr>
     in if st = ''active'' \<and> ps_inSettle s then setCallStateInternal uuid CallActive (end_settle s)
        else if st = ''idle'' then end_call_without_sco uuid s
        else (s, []))"

definition onTransportRemoved :: "(nat \<Rightarrow> string) \<Rightarrow> phone_state \<Rightarrow> phone_result" where
  "onTransportRemoved uuid s = end_call_without_sco uuid (s\<lparr>ps_transportState := []\<rparr>)"

definition onTelephonyAvailable :: "(nat \<Rightarrow> string) \<Rightarrow> bool \<Rightarrow> phone_state \<Rightarrow> phone_result" where
  "onTelephonyAvailable uuid available s = (
     if available = ps_telephonyAvailable s then (s, [])
     else chain (if \<not> available then onSelectedGatewayBoundary uuid (s\<lparr>ps_telephonyAvailable := available\<rparr>)
                 else (s\<lparr>ps_telephonyAvailable := available\<rparr>, []))
            (\<lambda>s. (s, [TelephonyAvailableChanged])))"

definition attachTelephony :: "(nat \<Rightarrow> string) \<Rightarrow> bool option \<Rightarrow> phone_state \<Rightarrow> phone_result" where
  "attachTelephony uuid client s = (case client of
     None \<Rightarrow> (s\<lparr>ps_telephony := False\<rparr>, [])
   | Some available \<Rightarrow> onTelephonyAvailable uuid available (s\<lparr>ps_telephony := True\<rparr>))"

definition setIncomingCall :: "(nat \<Rightarrow> string) \<Rightarrow> string \<Rightarrow> string \<Rightarrow> phone_state \<Rightarrow> phone_result" where
  "setIncomingCall uuid number name s = setCallStateInternal uuid CallRinging (s\<lparr>ps_callerNumber := number, ps_callerName := name\<rparr>)"

definition updateCallDuration :: "phone_state \<Rightarrow> phone_result" where
  "updateCallDuration s = (s\<lparr>ps_callDuration := ps_callDuration s + 1\<rparr>, [CallDurationChanged])"

section \<open>The Bluetooth device\<close>

record device_props =
  dp_connected :: bool
  dp_uuids :: "string list"
  dp_alias :: string

definition has_prefix :: "string \<Rightarrow> string \<Rightarrow> bool" where
  "has_prefix p s = (take (length p) s = p)"

definition adoptBluezDevice :: "string \<Rightarrow> device_props \<Rightarrow> phone_state \<Rightarrow> phone_result" where
  "adoptBluezDevice path d s = (
     let hasHfp = list_ex (\<lambda>u. has_prefix ''0000111e'' u \<or> has_prefix ''0000111f'' u) (dp_uuids d)
     in if ps_phoneConnected s then (s, [])
        else if dp_connected d \<and> hasHfp
        then (s\<lparr>ps_devicePath := path, ps_deviceName := dp_alias d, ps_phoneConnected := True\<rparr>, [ConnectionChanged])
        else (s, []))"

definition scanExistingDevices :: "(string \<times> device_props) list \<Rightarrow> phone_state \<Rightarrow> phone_result" where
  "scanExistingDevices = run (\<lambda>(path, d). adoptBluezDevice path d)"

definition forget_device :: "phone_state \<Rightarrow> phone_result" where
  "forget_device s = (s\<lparr>ps_phoneConnected := False, ps_deviceName := [], ps_devicePath := []\<rparr>, [ConnectionChanged])"

definition onInterfacesRemoved :: "(nat \<Rightarrow> string) \<Rightarrow> string \<Rightarrow> bool \<Rightarrow> phone_state \<Rightarrow> phone_result" where
  "onInterfacesRemoved uuid path device1 s = (
     if path = ps_devicePath s \<and> device1 then chain (forget_device s) (setCallStateInternal uuid CallIdle) else (s, []))"

definition onServiceUnregistered :: "(nat \<Rightarrow> string) \<Rightarrow> phone_state \<Rightarrow> phone_result" where
  "onServiceUnregistered uuid s =
     chain (if ps_phoneConnected s then forget_device s else (s, [])) (setCallStateInternal uuid CallIdle)"

text \<open>\<open>connected\<close> and \<open>uuids\<close>: the entries of the changed properties.\<close>

definition shouldRescanOnDeviceChange :: "bool \<Rightarrow> bool option \<Rightarrow> bool \<Rightarrow> bool" where
  "shouldRescanOnDeviceChange phoneConnected connected uuids \<longleftrightarrow> \<not> phoneConnected \<and> (connected = Some True \<or> uuids)"

definition onPropertiesChanged :: "(nat \<Rightarrow> string) \<Rightarrow> string \<Rightarrow> bool option \<Rightarrow> bool \<Rightarrow> (string \<times> device_props) list \<Rightarrow> phone_state
    \<Rightarrow> phone_result" where
  "onPropertiesChanged uuid path connected uuids found s =
     chain (if connected = Some False \<and> ps_phoneConnected s \<and> path = ps_devicePath s
            then chain (forget_device s) (setCallStateInternal uuid CallIdle) else (s, []))
       (\<lambda>s. if shouldRescanOnDeviceChange (ps_phoneConnected s) connected uuids then scanExistingDevices found s else (s, []))"

section \<open>All inputs\<close>

datatype phone_op =
    OpAnswer | OpHangup | OpDial string | OpDtmf string
  | EvBoundary
  | EvSetupStarted string string string
  | EvSetupChanged string
  | EvSetupEnded
  | EvSettleTimeout
  | EvSco bool
  | EvScoTimeout
  | EvTransport string
  | EvTransportRemoved
  | EvAvailable bool
  | EvAttach "bool option"
  | EvTick
  | EvDevice string device_props
  | EvDeviceRemoved string bool
  | EvBluezGone
  | EvDeviceChanged string "bool option" bool "(string \<times> device_props) list"
  | EvPost notification_data
  | EvDismiss string

definition with_notifier :: "(notifier \<Rightarrow> notifier \<times> phone_output list) \<Rightarrow> phone_state \<Rightarrow> phone_result" where
  "with_notifier f s = (case ps_notifier s of None \<Rightarrow> (s, [])
     | Some n \<Rightarrow> (let (n', es) = f n in (s\<lparr>ps_notifier := Some n'\<rparr>, es)))"

definition drop_result :: "phone_state \<times> phone_output list \<times> bool \<Rightarrow> phone_result" where
  "drop_result x = (fst x, fst (snd x))"

fun call_step :: "(nat \<Rightarrow> string) \<Rightarrow> phone_op \<Rightarrow> phone_state \<Rightarrow> phone_result" where
  "call_step uuid OpAnswer s = drop_result (phone_answer uuid s)"
| "call_step uuid OpHangup s = drop_result (phone_hangup uuid s)"
| "call_step uuid (OpDial n) s = drop_result (phone_dial uuid n s)"
| "call_step uuid (OpDtmf t) s = drop_result (sendDtmf t s)"
| "call_step uuid EvBoundary s = onSelectedGatewayBoundary uuid s"
| "call_step uuid (EvSetupStarted st l n) s = onCallSetupStarted uuid st l n s"
| "call_step uuid (EvSetupChanged st) s = onCallSetupChanged uuid st s"
| "call_step uuid EvSetupEnded s = onCallSetupEnded uuid s"
| "call_step uuid EvSettleTimeout s = (if ps_settleTimer s then onSettleTimeout uuid s else (s, []))"
| "call_step uuid (EvSco b) s = onScoRunningChanged uuid b s"
| "call_step uuid EvScoTimeout s = (if ps_scoDebounceTimer s then onScoDebounceTimeout uuid s else (s, []))"
| "call_step uuid (EvTransport st) s = onTransportStateChanged uuid st s"
| "call_step uuid EvTransportRemoved s = onTransportRemoved uuid s"
| "call_step uuid (EvAvailable b) s = onTelephonyAvailable uuid b s"
| "call_step uuid (EvAttach c) s = attachTelephony uuid c s"
| "call_step uuid EvTick s = (if ps_callTimer s then updateCallDuration s else (s, []))"
| "call_step uuid (EvDevice p d) s = adoptBluezDevice p d s"
| "call_step uuid (EvDeviceRemoved p b) s = onInterfacesRemoved uuid p b s"
| "call_step uuid EvBluezGone s = onServiceUnregistered uuid s"
| "call_step uuid (EvDeviceChanged p c u found) s = onPropertiesChanged uuid p c u found s"
| "call_step uuid (EvPost d) s = with_notifier (\<lambda>n. let (n', i, es) = post uuid d n in (n', es)) s"
| "call_step uuid (EvDismiss i) s = with_notifier (dismiss i) s"

section \<open>The invariant\<close>

definition uuid_ok :: "(nat \<Rightarrow> string) \<Rightarrow> bool" where
  "uuid_ok uuid \<longleftrightarrow> inj uuid \<and> (\<forall>k. uuid k \<noteq> [])"

definition call_kind :: string where
  "call_kind = ''incoming_call''"

definition notifier_ok :: "(nat \<Rightarrow> string) \<Rightarrow> bool \<Rightarrow> string \<Rightarrow> notifier \<Rightarrow> bool" where
  "notifier_ok uuid ringing nid n \<longleftrightarrow> (nid \<noteq> [] \<longleftrightarrow> ringing)
     \<and> distinct (map nt_id (no_list n)) \<and> (\<forall>x \<in> set (no_list n). \<exists>k < no_posted n. nt_id x = uuid k)
     \<and> (\<forall>x \<in> set (no_list n). nt_kind x = call_kind \<longrightarrow> ringing \<and> nt_id x = nid)"

definition notes_ok :: "(nat \<Rightarrow> string) \<Rightarrow> bool \<Rightarrow> string \<Rightarrow> notifier option \<Rightarrow> bool" where
  "notes_ok uuid ringing nid n = (case n of None \<Rightarrow> nid = [] | Some n \<Rightarrow> notifier_ok uuid ringing nid n)"

definition call_ok :: "(nat \<Rightarrow> string) \<Rightarrow> phone_state \<Rightarrow> bool" where
  "call_ok uuid s \<longleftrightarrow> ps_callTimer s = (ps_callState s = CallActive) \<and> ps_settleTimer s = ps_inSettle s
     \<and> ps_callState s \<noteq> CallHeld \<and> ps_callState s \<noteq> CallWaiting
     \<and> (\<not> ps_phoneConnected s \<longrightarrow> ps_deviceName s = [] \<and> ps_devicePath s = [])
     \<and> notes_ok uuid (ps_callState s = CallRinging) (ps_notificationId s) (ps_notifier s)"

lemma remove_first_filter: "distinct (map nt_id xs) \<Longrightarrow> remove_first i xs = filter (\<lambda>x. nt_id x \<noteq> i) xs"
proof (induction xs)
  case (Cons x xs)
  then have "\<forall>y \<in> set xs. nt_id y \<noteq> nt_id x" by (metis distinct.simps(2) image_eqI list.simps(9) set_map)
  then have "filter (\<lambda>y. nt_id y \<noteq> nt_id x) xs = xs" by simp
  with Cons show ?case by auto
qed simp

lemma dismiss_list:
  "distinct (map nt_id (no_list n)) \<Longrightarrow> no_list (fst (dismiss i n)) = filter (\<lambda>x. nt_id x \<noteq> i) (no_list n)"
  "no_posted (fst (dismiss i n)) = no_posted n"
  by (auto simp: dismiss_def remove_first_filter intro!: filter_True [symmetric]) (force simp: dismiss_def)?

lemma dismiss_notifier_ok:
  assumes "notifier_ok uuid r nid n"
  shows "notifier_ok uuid r nid (fst (dismiss i n))"
  using assms dismiss_list [where n = n and i = i] by (auto simp: notifier_ok_def distinct_map_filter)

lemma dismiss_call_ok:
  assumes "notifier_ok uuid r nid n"
  shows "notifier_ok uuid False [] (fst (dismiss nid n))"
  using assms dismiss_list [where n = n and i = nid] by (auto simp: notifier_ok_def distinct_map_filter)

lemma post_list:
  "no_list (fst (post uuid d n)) = no_list n @ [make_notification (uuid (no_posted n)) d]"
  "no_posted (fst (post uuid d n)) = Suc (no_posted n)" "fst (snd (post uuid d n)) = uuid (no_posted n)"
  "nt_id (make_notification i d) = i" "nt_kind (make_notification i d) = nd_kind d"
  by (simp_all add: post_def make_notification_def Let_def)

lemma fresh_id:
  assumes u: "uuid_ok uuid" and n: "notifier_ok uuid r nid n"
  shows "uuid (no_posted n) \<notin> nt_id ` set (no_list n)"
proof
  assume "uuid (no_posted n) \<in> nt_id ` set (no_list n)"
  then obtain k where "k < no_posted n" "uuid (no_posted n) = uuid k" using n unfolding notifier_ok_def by force
  with u show False by (simp add: uuid_ok_def inj_eq)
qed

lemma post_notifier_ok:
  assumes u: "uuid_ok uuid" and n: "notifier_ok uuid r nid n" and k: "nd_kind d \<noteq> call_kind"
  shows "notifier_ok uuid r nid (fst (post uuid d n))"
proof -
  note fresh_id [OF u n]
  with n k show ?thesis by (auto simp: notifier_ok_def post_list) (meson less_SucI)+
qed

lemma post_call_ok:
  assumes u: "uuid_ok uuid" and n: "notifier_ok uuid False nid n" and k: "nd_kind d = call_kind"
  shows "notifier_ok uuid True (fst (snd (post uuid d n))) (fst (post uuid d n))"
proof -
  note fresh_id [OF u n]
  with n k u show ?thesis by (auto simp: notifier_ok_def post_list uuid_ok_def) (meson less_SucI)+
qed

section \<open>Changes of the call state\<close>

text \<open>The fields the change of the call state leaves alone.\<close>

definition frame :: "phone_state \<Rightarrow> phone_state \<Rightarrow> bool" where
  "frame s s' \<longleftrightarrow> ps_callerNumber s' = ps_callerNumber s \<and> ps_callerName s' = ps_callerName s \<and> ps_phoneConnected s' = ps_phoneConnected s
     \<and> ps_deviceName s' = ps_deviceName s \<and> ps_devicePath s' = ps_devicePath s \<and> ps_inSettle s' = ps_inSettle s
     \<and> ps_settleTimer s' = ps_settleTimer s \<and> ps_scoRunning s' = ps_scoRunning s \<and> ps_telephony s' = ps_telephony s
     \<and> ps_telephonyAvailable s' = ps_telephonyAvailable s"

lemma dismissCall_facts:
  "frame s (fst (dismissCall s))" "ps_callState (fst (dismissCall s)) = ps_callState s" "ps_callTimer (fst (dismissCall s)) = ps_callTimer s"
  "ps_notificationId (fst (dismissCall s)) = []"
  "notes_ok uuid r (ps_notificationId s) (ps_notifier s) \<Longrightarrow> notes_ok uuid False [] (ps_notifier (fst (dismissCall s)))"
  using dismiss_call_ok [of uuid r "ps_notificationId s"]
  by (auto simp: dismissCall_def frame_def notes_ok_def Let_def split: option.splits prod.splits) (metis fst_conv)

lemma postCall_facts:
  "frame s (fst (postCall uuid s))" "ps_callState (fst (postCall uuid s)) = ps_callState s" "ps_callTimer (fst (postCall uuid s)) = ps_callTimer s"
  by (simp_all add: postCall_def frame_def Let_def split: option.splits prod.splits)

lemma postCall_notes:
  assumes "uuid_ok uuid" "notes_ok uuid False (ps_notificationId s) (ps_notifier s)"
  shows "notes_ok uuid True (ps_notificationId (fst (postCall uuid s))) (ps_notifier (fst (postCall uuid s)))"
proof (cases "ps_notifier s")
  case None
  with assms show ?thesis by (simp add: postCall_def notes_ok_def)
next
  case (Some n)
  define d where "d = \<lparr>nd_kind = ''incoming_call'', nd_message = (if ps_callerName s = [] then ps_callerNumber s else ps_callerName s),
    nd_sourcePluginId = ''org.openauto.phone'', nd_priority = Some 90, nd_ttlMs = None\<rparr>"
  obtain n' nid es where p: "post uuid d n = (n', nid, es)" by (metis prod.exhaust)
  have "notifier_ok uuid True nid n'"
    using post_call_ok [OF assms(1), of "ps_notificationId s" n d] assms(2) Some p by (simp add: notes_ok_def d_def call_kind_def)
  with Some p show ?thesis by (simp add: postCall_def Let_def d_def notes_ok_def)
qed

lemma setCallStateInternal_facts:
  assumes u: "uuid_ok uuid" and s: "call_ok uuid s" and st: "st \<noteq> CallHeld" "st \<noteq> CallWaiting"
  shows "call_ok uuid (fst (setCallStateInternal uuid st s)) \<and> ps_callState (fst (setCallStateInternal uuid st s)) = st
    \<and> frame s (fst (setCallStateInternal uuid st s)) \<and> (st \<noteq> ps_callState s \<longrightarrow> CallStateChanged \<in> set (snd (setCallStateInternal uuid st s)))"
proof (cases "st = ps_callState s")
  case True
  with s show ?thesis
    by (simp add: setCallStateInternal_def frame_def)
next
  case False
  define s1 where "s1 = s\<lparr>ps_callState := st, ps_callDuration := (if st = CallActive then 0 else ps_callDuration s), ps_callTimer := (st = CallActive)\<rparr>"
  define s2 where "s2 = (if st \<noteq> CallRinging \<and> ps_notificationId s1 \<noteq> [] then fst (dismissCall s1) else s1)"
  define s3 where "s3 = (if st = CallRinging then fst (postCall uuid s2) else s2)"
  have res: "fst (setCallStateInternal uuid st s) = s3" "CallStateChanged \<in> set (snd (setCallStateInternal uuid st s))"
    using False by (simp_all add: setCallStateInternal_def chain_fst chain_snd s3_def s2_def s1_def)
  have n1: "notes_ok uuid (ps_callState s = CallRinging) (ps_notificationId s1) (ps_notifier s1)" using s by (simp add: call_ok_def s1_def)
  have f2: "frame s s2" "ps_callState s2 = st" "ps_callTimer s2 = (st = CallActive)"
    using dismissCall_facts(1-3) [of s1] by (auto simp: s2_def s1_def frame_def)
  have n2: "notes_ok uuid False (ps_notificationId s2) (ps_notifier s2)"
  proof (cases "ps_notificationId s1 = []")
    case True
    then have "ps_callState s \<noteq> CallRinging \<or> ps_notifier s1 = None" using n1 by (auto simp: notes_ok_def notifier_ok_def split: option.splits)
    with True n1 show ?thesis by (auto simp: s2_def notes_ok_def split: option.splits)
  next
    case idn: False
    then have "ps_callState s = CallRinging" using n1 by (auto simp: notes_ok_def notifier_ok_def split: option.splits)
    with False have "st \<noteq> CallRinging" by simp
    with idn dismissCall_facts(4) [of s1] dismissCall_facts(5) [OF n1] show ?thesis by (simp add: s2_def)
  qed
  have "frame s s3" "ps_callState s3 = st" "ps_callTimer s3 = (st = CallActive)"
    using f2 postCall_facts(1-3) [where s = s2 and uuid = uuid] by (auto simp: s3_def frame_def)
  moreover have "notes_ok uuid (st = CallRinging) (ps_notificationId s3) (ps_notifier s3)"
    using n2 postCall_notes [OF u n2] by (simp add: s3_def)
  ultimately show ?thesis
    using s st res by (simp add: call_ok_def frame_def)
qed

section \<open>Steps\<close>

text \<open>Inputs that set the call state back while the service waits for the outcome of a call.\<close>

fun disturbs :: "phone_op \<Rightarrow> phone_state \<Rightarrow> bool" where
  "disturbs OpAnswer s = (\<not> real_mode s)"
| "disturbs OpHangup s = (\<not> real_mode s)"
| "disturbs (EvDeviceRemoved p b) s = (p = ps_devicePath s \<and> b)"
| "disturbs EvBluezGone s = True"
| "disturbs (EvDeviceChanged p c u found) s = (c = Some False \<and> ps_phoneConnected s \<and> p = ps_devicePath s)"
| "disturbs x s = False"

definition settle_ok :: "phone_state \<Rightarrow> bool" where
  "settle_ok s \<longleftrightarrow> (ps_inSettle s \<longrightarrow> inSetupState s \<and> \<not> ps_scoRunning s)"

definition call_view :: "phone_state \<Rightarrow> call_state \<times> string \<times> string" where
  "call_view s = (ps_callState s, ps_callerNumber s, ps_callerName s)"

text \<open>What a step guarantees, when the service does not wait or the input does not disturb it.\<close>

definition orderly :: "phone_state \<Rightarrow> phone_result \<Rightarrow> bool" where
  "orderly s r \<longleftrightarrow> settle_ok (fst r) \<and> (call_view (fst r) \<noteq> call_view s \<longrightarrow> CallStateChanged \<in> set (snd r))
     \<and> (ps_callState (fst r) = CallActive \<longrightarrow> ps_callState s = CallActive \<or> inSetupState s)"

definition valid_op :: "phone_op \<Rightarrow> bool" where
  "valid_op x = (case x of EvPost d \<Rightarrow> nd_kind d \<noteq> call_kind | _ \<Rightarrow> True)"

lemma call_ok_fields [simp]:
  "call_ok uuid (s\<lparr>ps_callerNumber := a\<rparr>) = call_ok uuid s" "call_ok uuid (s\<lparr>ps_callerName := a\<rparr>) = call_ok uuid s"
  "call_ok uuid (s\<lparr>ps_scoRunning := b\<rparr>) = call_ok uuid s" "call_ok uuid (s\<lparr>ps_scoDebounceTimer := b\<rparr>) = call_ok uuid s"
  "call_ok uuid (s\<lparr>ps_transportState := a\<rparr>) = call_ok uuid s" "call_ok uuid (s\<lparr>ps_telephony := b\<rparr>) = call_ok uuid s"
  "call_ok uuid (s\<lparr>ps_telephonyAvailable := b\<rparr>) = call_ok uuid s" "call_ok uuid (s\<lparr>ps_callDuration := n\<rparr>) = call_ok uuid s"
  "call_ok uuid (clear_caller s) = call_ok uuid s"
  by (simp_all add: call_ok_def clear_caller_def)

lemma end_settle_ok [simp]: "call_ok uuid s \<Longrightarrow> call_ok uuid (end_settle s)"
  by (simp add: call_ok_def end_settle_def)

lemma setCall_ok: "uuid_ok uuid \<Longrightarrow> call_ok uuid s \<Longrightarrow> st \<noteq> CallHeld \<Longrightarrow> st \<noteq> CallWaiting \<Longrightarrow> call_ok uuid (fst (setCallStateInternal uuid st s))"
  by (simp add: setCallStateInternal_facts)

lemma setCall_sel:
  assumes "uuid_ok uuid" "call_ok uuid s" "st \<noteq> CallHeld" "st \<noteq> CallWaiting"
  shows "ps_callState (fst (setCallStateInternal uuid st s)) = st" "ps_inSettle (fst (setCallStateInternal uuid st s)) = ps_inSettle s"
    "ps_callerNumber (fst (setCallStateInternal uuid st s)) = ps_callerNumber s" "ps_callerName (fst (setCallStateInternal uuid st s)) = ps_callerName s"
    "ps_phoneConnected (fst (setCallStateInternal uuid st s)) = ps_phoneConnected s"
    "ps_scoRunning (fst (setCallStateInternal uuid st s)) = ps_scoRunning s"
    "ps_callState s \<noteq> st \<Longrightarrow> CallStateChanged \<in> set (snd (setCallStateInternal uuid st s))"
  using setCallStateInternal_facts [OF assms] by (auto simp: frame_def)

lemmas view_simps = orderly_def settle_ok_def call_view_def inSetupState_def chain_fst chain_snd clear_caller_def end_settle_def

lemma adopt_facts:
  "call_ok uuid s \<Longrightarrow> call_ok uuid (fst (adoptBluezDevice p d s))" "call_view (fst (adoptBluezDevice p d s)) = call_view s"
  "ps_inSettle (fst (adoptBluezDevice p d s)) = ps_inSettle s" "ps_scoRunning (fst (adoptBluezDevice p d s)) = ps_scoRunning s"
  by (auto simp: adoptBluezDevice_def call_ok_def call_view_def Let_def)

lemma scan_facts:
  "call_ok uuid s \<Longrightarrow> call_ok uuid (fst (scanExistingDevices found s))"
  "call_view (fst (scanExistingDevices found s)) = call_view s \<and> ps_inSettle (fst (scanExistingDevices found s)) = ps_inSettle s
    \<and> ps_scoRunning (fst (scanExistingDevices found s)) = ps_scoRunning s"
proof -
  show "call_ok uuid s \<Longrightarrow> call_ok uuid (fst (scanExistingDevices found s))"
    unfolding scanExistingDevices_def by (rule run_invariant) (auto simp: adopt_facts)
  show "call_view (fst (scanExistingDevices found s)) = call_view s \<and> ps_inSettle (fst (scanExistingDevices found s)) = ps_inSettle s
    \<and> ps_scoRunning (fst (scanExistingDevices found s)) = ps_scoRunning s"
    unfolding scanExistingDevices_def
    by (rule run_invariant [where I = "\<lambda>s'. call_view s' = call_view s \<and> ps_inSettle s' = ps_inSettle s \<and> ps_scoRunning s' = ps_scoRunning s"]) (auto simp: adopt_facts)
qed

lemma forget_ok: "call_ok uuid s \<Longrightarrow> call_ok uuid (fst (forget_device s))"
  by (simp add: call_ok_def forget_device_def)

lemma command_steps:
  "call_step uuid OpAnswer s = (if ps_callState s \<noteq> CallRinging then (s, []) else if real_mode s then (s, [TelAnswer])
     else setCallStateInternal uuid CallActive s)"
  "call_step uuid OpHangup s = (if ps_callState s = CallIdle then (s, []) else if real_mode s then (s, [TelHangupAll])
     else setCallStateInternal uuid CallIdle (clear_caller s))"
  "call_step uuid (OpDial number) s = (if ps_callState s \<noteq> CallIdle \<or> number = [] then (s, []) else if real_mode s then (s, [TelDial number])
     else if \<not> ps_telephony s then setCallStateInternal uuid CallDialing (s\<lparr>ps_callerNumber := number, ps_callerName := []\<rparr>) else (s, []))"
  "call_step uuid (OpDtmf tones) s = (s, if ps_callState s = CallActive \<and> tones \<noteq> [] \<and> real_mode s then [TelSendTones tones] else [])"
  by (simp_all add: drop_result_def phone_answer_def phone_hangup_def phone_dial_def sendDtmf_def split: prod.splits)

lemma with_notifier_ok:
  assumes "call_ok uuid s" "\<And>r nid n. notifier_ok uuid r nid n \<Longrightarrow> notifier_ok uuid r nid (fst (f n))"
  shows "call_ok uuid (fst (with_notifier f s))"
proof (cases "ps_notifier s")
  case (Some n)
  obtain n' es where "f n = (n', es)" by (metis prod.exhaust)
  with assms(1) assms(2) [of _ _ n] Some show ?thesis by (auto simp: with_notifier_def call_ok_def notes_ok_def)
qed (simp add: with_notifier_def assms)

lemma call_step_ok:
  assumes u: "uuid_ok uuid" and s: "call_ok uuid s" and v: "valid_op x"
  shows "call_ok uuid (fst (call_step uuid x s))"
proof (cases x)
  case (EvPost d)
  then have "nd_kind d \<noteq> call_kind" using v by (simp add: valid_op_def)
  with post_notifier_ok [OF u] s EvPost show ?thesis by (auto intro!: with_notifier_ok split: prod.splits) (metis fst_conv)
next
  case (EvDismiss i)
  with s show ?thesis by (auto intro!: with_notifier_ok dismiss_notifier_ok)
next
  case EvSettleTimeout
  with s show ?thesis
    using setCall_ok [OF u, of "clear_caller (s\<lparr>ps_settleTimer := False, ps_inSettle := False\<rparr>)" CallIdle]
    by (auto simp: onSettleTimeout_def call_ok_def clear_caller_def)
next
  case EvSetupEnded
  with s show ?thesis by (auto simp: onCallSetupEnded_def setCall_ok [OF u]) (simp add: call_ok_def)
qed (use s in \<open>auto simp: command_steps onSelectedGatewayBoundary_def
    onCallSetupStarted_def onCallSetupChanged_def onScoRunningChanged_def onScoDebounceTimeout_def onTransportStateChanged_def
    onTransportRemoved_def end_call_without_sco_def onTelephonyAvailable_def attachTelephony_def updateCallDuration_def onInterfacesRemoved_def
    onServiceUnregistered_def onPropertiesChanged_def Let_def chain_fst setCall_ok [OF u] setup_state_def adopt_facts scan_facts forget_ok
    simp del: call_step.simps(1-4) split: option.splits\<close>)

text \<open>Each step is orderly; the inputs that only touch other parts first.\<close>

lemma orderly_same: "settle_ok s \<Longrightarrow> call_view (fst r) = call_view s \<Longrightarrow> ps_inSettle (fst r) = ps_inSettle s
    \<Longrightarrow> ps_scoRunning (fst r) = ps_scoRunning s \<Longrightarrow> orderly s r"
  by (auto simp: view_simps)

lemma orderly_set:
  assumes "uuid_ok uuid" "call_ok uuid s'" "st \<noteq> CallHeld" "st \<noteq> CallWaiting"
    and "ps_callState s' = ps_callState s" "ps_inSettle s' \<Longrightarrow> st \<in> {CallRinging, CallDialing, CallAlerting} \<and> \<not> ps_scoRunning s'"
    and "st = ps_callState s \<Longrightarrow> call_view s' = call_view s"
    and "st = CallActive \<Longrightarrow> ps_callState s = CallActive \<or> inSetupState s"
  shows "orderly s (setCallStateInternal uuid st s')"
  using setCall_sel [OF assms(1-4)] assms(5-8) by (auto simp: view_simps)

lemma boundary_orderly:
  assumes "uuid_ok uuid" "call_ok uuid s"
  shows "orderly s (onSelectedGatewayBoundary uuid s)"
proof -
  let ?s = "clear_caller ((end_settle s)\<lparr>ps_scoDebounceTimer := False, ps_scoRunning := False, ps_transportState := []\<rparr>)"
  have "call_ok uuid ?s" using assms(2) by simp
  from setCall_sel [OF assms(1) this, of CallIdle] show ?thesis
    by (auto simp: onSelectedGatewayBoundary_def view_simps Let_def)
qed

lemma setup_started_orderly:
  assumes "uuid_ok uuid" "call_ok uuid s" "settle_ok s"
  shows "orderly s (onCallSetupStarted uuid st line name s)"
proof (cases "ps_callState s = CallActive \<or> setup_state st = None")
  case True
  with assms(3) show ?thesis by (auto simp: onCallSetupStarted_def intro: orderly_same)
next
  case False
  then obtain n where n: "setup_state st = Some n" by auto
  then have k: "n \<in> {CallRinging, CallDialing, CallAlerting}" by (auto simp: setup_state_def split: if_splits)
  let ?s = "(end_settle s)\<lparr>ps_callerNumber := line, ps_callerName := name\<rparr>"
  have "call_ok uuid ?s" using assms(2) by simp
  from setCall_sel [OF assms(1) this, of n] k False n show ?thesis
    by (auto simp: onCallSetupStarted_def view_simps Let_def)
qed

lemma device_orderly:
  assumes "uuid_ok uuid" "call_ok uuid s" "settle_ok s" "\<not> ps_inSettle s"
  shows "orderly s (chain (forget_device s) (setCallStateInternal uuid CallIdle))"
    "orderly s (chain (s, []) (setCallStateInternal uuid CallIdle))"
proof -
  have f: "call_ok uuid (fst (forget_device s))" using assms(2) by (rule forget_ok)
  from setCall_sel [OF assms(1) f, of CallIdle] setCall_sel [OF assms(1,2), of CallIdle] assms(4)
  show "orderly s (chain (forget_device s) (setCallStateInternal uuid CallIdle))"
    "orderly s (chain (s, []) (setCallStateInternal uuid CallIdle))"
    by (auto simp: view_simps forget_device_def)
qed

lemma available_orderly:
  assumes "uuid_ok uuid" "call_ok uuid s" "settle_ok s"
  shows "orderly s (onTelephonyAvailable uuid b s)"
proof (cases "b = ps_telephonyAvailable s \<or> b")
  case True
  with assms(3) show ?thesis by (auto simp: onTelephonyAvailable_def view_simps)
next
  case False
  have "call_ok uuid (s\<lparr>ps_telephonyAvailable := b\<rparr>)" using assms(2) by simp
  from boundary_orderly [OF assms(1) this] False show ?thesis
    by (auto simp: onTelephonyAvailable_def orderly_def chain_fst chain_snd call_view_def inSetupState_def)
qed

lemma changed_orderly:
  assumes "uuid_ok uuid" "call_ok uuid s" "settle_ok s" "\<not> (ps_inSettle s \<and> disturbs (EvDeviceChanged p c u found) s)"
  shows "orderly s (onPropertiesChanged uuid p c u found s)"
proof -
  define r where "r = (if c = Some False \<and> ps_phoneConnected s \<and> p = ps_devicePath s
    then chain (forget_device s) (setCallStateInternal uuid CallIdle) else (s, []))"
  have "orderly s r" using assms(4) device_orderly(1) [OF assms(1-3)] assms(3) by (auto simp: r_def intro: orderly_same)
  then show ?thesis
    using scan_facts(2) [of found "fst r"]
    by (auto simp: onPropertiesChanged_def r_def [symmetric] orderly_def chain_fst chain_snd settle_ok_def call_view_def inSetupState_def)
qed

lemma helper_sel:
  "ps_callState (end_settle s) = ps_callState s" "\<not> ps_inSettle (end_settle s)" "ps_callState (clear_caller s) = ps_callState s"
  "ps_inSettle (clear_caller s) = ps_inSettle s" "call_view (end_settle s) = call_view s"
  by (simp_all add: end_settle_def clear_caller_def call_view_def)

lemma setup_changed_orderly:
  assumes u: "uuid_ok uuid" and s: "call_ok uuid s" and j: "settle_ok s"
  shows "orderly s (onCallSetupChanged uuid st s)"
proof (cases "inSetupState s")
  case True
  then have n: "ps_callState s \<noteq> CallActive" "ps_callState s \<noteq> CallIdle" by (auto simp: inSetupState_def)
  have "orderly s (setCallStateInternal uuid CallAlerting s)" by (rule orderly_set [OF u s]) (use j in \<open>simp_all add: settle_ok_def\<close>)
  moreover have "orderly s (setCallStateInternal uuid CallActive (end_settle s))"
    by (rule orderly_set [OF u end_settle_ok [OF s]]) (simp_all add: helper_sel True)
  moreover have "orderly s (setCallStateInternal uuid CallIdle (clear_caller (end_settle s)))"
    by (rule orderly_set [OF u]) (use s n in \<open>simp_all add: helper_sel\<close>)
  moreover have "orderly s (s, [])" using j by (simp add: orderly_same)
  ultimately show ?thesis using True by (simp add: onCallSetupChanged_def)
qed (simp add: onCallSetupChanged_def orderly_same j)

lemma ended_orderly:
  assumes "uuid_ok uuid" "call_ok uuid s" "settle_ok s"
  shows "orderly s (end_call_without_sco uuid (s\<lparr>ps_transportState := st\<rparr>))"
proof (cases "ps_callState s = CallActive \<and> \<not> ps_scoRunning s")
  case True
  have "orderly s (setCallStateInternal uuid CallIdle (clear_caller (s\<lparr>ps_transportState := st, ps_scoDebounceTimer := False\<rparr>)))"
    by (rule orderly_set [OF assms(1)]) (use assms True in \<open>simp_all add: helper_sel settle_ok_def inSetupState_def\<close>)
  then show ?thesis using True by (simp add: end_call_without_sco_def)
next
  case False
  then show ?thesis using assms(3) by (auto simp: end_call_without_sco_def orderly_same call_view_def)
qed

lemma transport_orderly:
  assumes "uuid_ok uuid" "call_ok uuid s" "settle_ok s"
  shows "orderly s (onTransportStateChanged uuid st s)"
proof -
  have "orderly s (setCallStateInternal uuid CallActive (end_settle (s\<lparr>ps_transportState := st\<rparr>)))" if "ps_inSettle s"
    by (rule orderly_set [OF assms(1)]) (use assms that in \<open>simp_all add: helper_sel end_settle_ok settle_ok_def inSetupState_def\<close>)
  moreover have "orderly s (s\<lparr>ps_transportState := st\<rparr>, [])" using assms(3) by (simp add: orderly_same call_view_def)
  ultimately show ?thesis using ended_orderly [OF assms, of st] by (auto simp: onTransportStateChanged_def Let_def)
qed

lemma call_step_orderly:
  assumes u: "uuid_ok uuid" and s: "call_ok uuid s" and j: "settle_ok s" and d: "\<not> (ps_inSettle s \<and> disturbs x s)"
  shows "orderly s (call_step uuid x s)"
proof (cases x)
  case OpAnswer
  with d s j show ?thesis
    by (auto simp: command_steps simp del: call_step.simps intro!: orderly_set [OF u] intro: orderly_same simp: inSetupState_def)
next
  case OpHangup
  with d s j show ?thesis
    by (auto simp: command_steps simp del: call_step.simps intro!: orderly_set [OF u] intro: orderly_same simp: clear_caller_def)
next
  case (OpDial n)
  with s j show ?thesis
    by (auto simp: command_steps settle_ok_def simp del: call_step.simps intro!: orderly_set [OF u] intro: orderly_same)
next
  case (OpDtmf t)
  with j show ?thesis by (auto simp: command_steps simp del: call_step.simps intro: orderly_same)
next
  case EvBoundary
  with s show ?thesis by (simp add: boundary_orderly [OF u])
next
  case (EvSetupStarted st l n)
  with s j show ?thesis by (simp add: setup_started_orderly [OF u])
next
  case (EvSetupChanged st)
  with s j show ?thesis by (simp add: setup_changed_orderly [OF u])
next
  case EvSetupEnded
  with s j show ?thesis
    by (auto simp: onCallSetupEnded_def inSetupState_def settle_ok_def intro!: orderly_set [OF u] intro: orderly_same) (auto simp: view_simps)
next
  case EvSettleTimeout
  let ?s = "clear_caller (s\<lparr>ps_settleTimer := False, ps_inSettle := False\<rparr>)"
  have "call_ok uuid ?s" using s by (simp add: call_ok_def clear_caller_def)
  then have "orderly s (setCallStateInternal uuid CallIdle ?s)" if "ps_inSettle s"
    using that j by (intro orderly_set [OF u]) (auto simp: clear_caller_def settle_ok_def inSetupState_def)
  with EvSettleTimeout s j show ?thesis by (auto simp: onSettleTimeout_def call_ok_def intro: orderly_same)
next
  case (EvSco b)
  with s j show ?thesis
    by (auto simp: onScoRunningChanged_def Let_def settle_ok_def intro!: orderly_set [OF u] intro: orderly_same)
       (auto simp: view_simps)
next
  case EvScoTimeout
  with s j show ?thesis
    by (auto simp: onScoDebounceTimeout_def Let_def intro!: orderly_set [OF u] intro: orderly_same)
       (auto simp: view_simps)
next
  case (EvTransport st)
  with s j show ?thesis by (simp add: transport_orderly [OF u])
next
  case EvTransportRemoved
  with s j show ?thesis by (simp add: onTransportRemoved_def ended_orderly [OF u])
next
  case (EvAvailable b)
  with s j show ?thesis by (simp add: available_orderly [OF u])
next
  case (EvAttach c)
  have "call_ok uuid (s\<lparr>ps_telephony := True\<rparr>)" "settle_ok (s\<lparr>ps_telephony := True\<rparr>)" using s j by (simp_all add: view_simps)
  from available_orderly [OF u this] EvAttach j show ?thesis
    by (cases c) (auto simp: attachTelephony_def orderly_def settle_ok_def call_view_def inSetupState_def)
next
  case (EvDeviceRemoved p b)
  with d s j device_orderly(1) [OF u s j] show ?thesis by (auto simp: onInterfacesRemoved_def intro: orderly_same)
next
  case EvBluezGone
  with d s j device_orderly [OF u s j] show ?thesis by (auto simp: onServiceUnregistered_def)
next
  case (EvDeviceChanged p c u' found)
  with d changed_orderly [OF u s j] show ?thesis by simp
next
  case (EvDevice p dev)
  with j show ?thesis by (simp add: orderly_same adopt_facts)
qed (use j in \<open>auto simp: updateCallDuration_def with_notifier_def call_view_def split: option.splits prod.splits intro!: orderly_same\<close>)

section \<open>The life of a call\<close>

fun calm :: "(nat \<Rightarrow> string) \<Rightarrow> phone_op list \<Rightarrow> phone_state \<Rightarrow> bool" where
  "calm uuid [] s = True"
| "calm uuid (x # xs) s = (\<not> (ps_inSettle s \<and> disturbs x s) \<and> calm uuid xs (fst (call_step uuid x s)))"

lemma call_run_ok:
  "uuid_ok uuid \<Longrightarrow> call_ok uuid s \<Longrightarrow> list_all valid_op ops \<Longrightarrow> call_ok uuid (fst (run (call_step uuid) ops s))"
  by (induction ops arbitrary: s) (simp_all add: run_Cons call_step_ok)

lemma call_run_settle:
  "uuid_ok uuid \<Longrightarrow> call_ok uuid s \<Longrightarrow> settle_ok s \<Longrightarrow> list_all valid_op ops \<Longrightarrow> calm uuid ops s
    \<Longrightarrow> settle_ok (fst (run (call_step uuid) ops s))"
proof (induction ops arbitrary: s)
  case (Cons x xs)
  from Cons.prems have "orderly s (call_step uuid x s)" "call_ok uuid (fst (call_step uuid x s))"
    by (simp_all add: call_step_orderly call_step_ok)
  with Cons show ?case by (simp add: run_Cons orderly_def)
qed simp

definition no_notes :: notifier where
  "no_notes = \<lparr>no_list = [], no_timers = [], no_posted = 0\<rparr>"

lemma phone_new_ok: "call_ok uuid (phone_new (Some no_notes))" "settle_ok (phone_new (Some no_notes))"
  by (simp_all add: call_ok_def phone_new_def notes_ok_def notifier_ok_def no_notes_def settle_ok_def)

text \<open>
  C15. The call state through every sequence of events from the phone, the audio link, the
  Bluetooth daemon, the timers and the user. The duration timer runs exactly during an active
  call and the settle timer exactly while the outcome of a call is awaited; the notification of
  an incoming call is shown only while the phone rings. With a phone attached, answering,
  hanging up, dialling and tones are requests that change nothing by themselves. As long as the
  phone does not disappear while the outcome of a call is awaited, a call becomes active only
  out of its setup, and views are told of every change of the state and the caller.
\<close>

theorem call_state_machine:
  fixes uuid :: "nat \<Rightarrow> string" and ops :: "phone_op list"
  assumes "uuid_ok uuid" "list_all valid_op ops"
  defines "s \<equiv> fst (run (call_step uuid) ops (phone_new (Some no_notes)))"
  shows "ps_callTimer s = (ps_callState s = CallActive) \<and> ps_settleTimer s = ps_inSettle s
    \<and> (\<forall>n. ps_notifier s = Some n \<longrightarrow> (\<forall>x \<in> set (no_list n). nt_kind x = call_kind \<longrightarrow> ps_callState s = CallRinging))
    \<and> (real_mode s \<longrightarrow> fst (phone_answer uuid s) = s \<and> fst (phone_hangup uuid s) = s \<and> fst (phone_dial uuid number s) = s)
    \<and> (calm uuid ops (phone_new (Some no_notes)) \<and> \<not> (ps_inSettle s \<and> disturbs x s) \<longrightarrow>
        (ps_callState (fst (call_step uuid x s)) = CallActive \<longrightarrow> ps_callState s = CallActive \<or> inSetupState s)
        \<and> (call_view (fst (call_step uuid x s)) \<noteq> call_view s \<longrightarrow> CallStateChanged \<in> set (snd (call_step uuid x s))))"
proof -
  have ok: "call_ok uuid s" unfolding s_def by (rule call_run_ok [OF assms(1) phone_new_ok(1) assms(2)])
  have "orderly s (call_step uuid x s)" if "calm uuid ops (phone_new (Some no_notes))" "\<not> (ps_inSettle s \<and> disturbs x s)"
    using call_step_orderly [OF assms(1) ok _ that(2)] call_run_settle [OF assms(1) phone_new_ok assms(2) that(1)] by (simp add: s_def)
  then show ?thesis
    using ok by (auto simp: call_ok_def notes_ok_def notifier_ok_def orderly_def phone_answer_def phone_hangup_def phone_dial_def)
qed

text \<open>A call that rings and is answered, and one that is refused.\<close>

definition example_uuid :: "nat \<Rightarrow> string" where
  "example_uuid n = replicate (Suc n) CHR ''x''"

definition example_call :: "phone_op list" where
  "example_call = [EvAttach (Some True), EvSetupStarted ''incoming'' ''123'' ''Ann'', OpAnswer, EvSetupEnded]"

lemma call_state_machine_witness:
  "ps_callState (fst (run (call_step example_uuid) example_call (phone_new (Some no_notes)))) = CallRinging
   \<and> CallStateChanged \<in> set (snd (call_step example_uuid (EvSco True) (fst (run (call_step example_uuid) example_call (phone_new (Some no_notes))))))"
proof -
  let ?s = "fst (run (call_step example_uuid) example_call (phone_new (Some no_notes)))"
  have u: "uuid_ok example_uuid" by (auto simp: uuid_ok_def example_uuid_def inj_def dest: arg_cong [of _ _ length])
  have e: "list_all valid_op example_call" "calm example_uuid example_call (phone_new (Some no_notes))"
    "ps_callState ?s = CallRinging" "disturbs (EvSco True) ?s = False"
    "call_view (fst (call_step example_uuid (EvSco True) ?s)) = (CallActive, ''123'', ''Ann'')" "call_view ?s = (CallRinging, ''123'', ''Ann'')"
    by code_simp+
  from call_state_machine [OF u e(1), of "''5''" "EvSco True"] e show ?thesis by simp
qed

text \<open>
  The condition is needed: when the device of a phone whose call is being settled disappears,
  the call is idle, but the audio link still brings it to life, with the old caller.
\<close>

lemma lost_phone_revives_call:
  "map (\<lambda>ops. call_view (fst (run (call_step example_uuid) ops (phone_new (Some no_notes)))))
     [[EvDevice ''/d'' \<lparr>dp_connected = True, dp_uuids = [''0000111f''], dp_alias = ''P''\<rparr>, EvSetupStarted ''incoming'' ''123'' ''Ann'', EvSetupEnded,
       EvDeviceRemoved ''/d'' True],
      [EvDevice ''/d'' \<lparr>dp_connected = True, dp_uuids = [''0000111f''], dp_alias = ''P''\<rparr>, EvSetupStarted ''incoming'' ''123'' ''Ann'', EvSetupEnded,
       EvDeviceRemoved ''/d'' True, EvSco True]]
   = [(CallIdle, ''123'', ''Ann''), (CallActive, ''123'', ''Ann'')]"
  by code_simp

end
