(* ===== verification/Spec2Isabelle.thy ===== *)
theory Spec2Isabelle
  imports Messenger_Lifecycle Session_Behaviour Service_Handlers Api_Framer Api_Session Dashboard_Invariant Data_Invariant
    Projection_Audio Touch_Stream Media_Status Play_Queue Call_State
begin

text \<open>
  OpenAuto Prodigy is a head unit for Android Auto: a Qt program that receives the phone's
  projected displays and audio over TCP, shows them beside its own home screen of widgets, and
  offers an API to external clients.  This development models the logic of the program in HOL,
  component by component, and proves what each component guarantees and how the components
  work together.

  \<^bold>\<open>The wire.\<close>  Below \<open>libs/prodigy-oaa-protocol\<close>, bytes from the transport pass the
  frame parser, the assembler and the TLS endpoint and become messages; messages pass the
  serializer and the TLS endpoint and become bytes.  \<open>Frame_Header\<close>, \<open>Circular_Buffer\<close>,
  \<open>Frame_Parser\<close>, \<open>Frame_Serializer\<close>, \<open>Frame_Assembler\<close>, \<open>Cryptor\<close> and \<open>Messenger\<close> model the
  files of the same names.  The ring buffer implements the queue contract \<open>byte_fifo\<close>; the
  parser refines the machine \<open>wire_step\<close> over plain byte lists and does not depend on how the
  stream is cut into reads; the assembler stays within its budgets.  \<open>Wire_Path\<close> composes
  serializer, parser and assembler over interleaved channels; \<open>Secure_Link\<close> joins two
  messengers over TLS; \<open>Messenger_Lifecycle\<close> shows what holds whatever the slots connected to
  the messenger do.

  \<^bold>\<open>The session.\<close>  \<open>Protocol_Policy\<close> (version negotiation), \<open>Control_Channel\<close> (channel 0) and
  \<open>Session\<close> (\<open>AASession.cpp\<close>) model the state machine above the messenger.
  \<open>Session_Invariants\<close> holds for reentrant slots, \<open>Session_Behaviour\<close> for the session alone: the
  edges of the state machine, the timers that guard every waiting state, the channels served.

  \<^bold>\<open>The channels.\<close>  \<open>AV_Handlers\<close> (audio and video playback, which implement the contract
  \<open>media_sink\<close>), \<open>Mic_Capture\<close> (the microphone channel, the bridge from the capture thread and
  the operations of the orchestrator that join them) and \<open>Service_Handlers\<close> (sensors, input,
  Bluetooth, WiFi, phone, media status, navigation; contract \<open>gated_channel\<close>).  \<open>Audio_Ring\<close> is
  the lock-free buffer between a channel and an audio stream, over 32-bit indices that wrap; it
  implements \<open>bounded_fifo\<close>.

  \<^bold>\<open>The displays and the connection.\<close>  \<open>Video_Decoder\<close> (\<open>VideoDecoder.cpp\<close>) has the decode
  thread as a program counter with one shared access per step; \<open>Video_Stream\<close> proves what the
  thread makes of a stream under every interleaving with its owner.  \<open>Display_Session\<close>
  (\<open>ProjectedDisplaySession.cpp\<close>, \<open>ProjectedDisplayConfig.cpp\<close>) owns a decoder;
  \<open>Display_Invariant\<close> shows that only frames of the running stream reach a view.
  \<open>Orchestrator\<close> (\<open>AndroidAutoOrchestrator.cpp\<close>, \<open>WirelessAaConfig.cpp\<close>) owns two displays,
  the microphone path, the audio streams and the one session; \<open>Orchestrator_Invariant\<close> is the
  life of a connection.

  \<^bold>\<open>Audio.\<close>  \<open>Audio_Service\<close> (\<open>AudioService.cpp\<close>, \<open>FocusGain.hpp\<close>) has the playback streams with
  their focus and gain, the callback that fills a period of output, the master volume and the
  capture streams.  \<open>Audio_Playback\<close> shows that the size of a ring is found, what a period of
  output holds and that every operation keeps the invariant of the streams.
  \<open>Projection_Audio\<close> joins the service to the orchestrator: the calls the orchestrator makes are
  carried out beside those of other clients, and the phone's streams hold the focus exactly while
  it plays on them.

  \<^bold>\<open>Touch.\<close>  \<open>Touch_Input\<close> models the path of a touch: the zones that claim fingers
  (\<open>TouchRouter.cpp\<close>, \<open>EvdevCoordBridge.cpp\<close>), the reader thread with its letterbox, gesture and
  grab (\<open>EvdevTouchReader.cpp\<close>) and the hand-over to the input channel (\<open>TouchHandler.hpp\<close>).
  Single precision is rational arithmetic with a rounding function \<open>rnd\<close>, of which \<open>rnd_ok\<close>
  (\<open>Single_Float\<close>) names what is used; sorting by priority is the parameter \<open>sorter\<close>.  \<open>Touch_Stream\<close> proves the
  mapping of coordinates and that the phone receives a well-formed stream of pointer events.

  \<^bold>\<open>Media and calls.\<close>  \<open>Media_Status\<close> (\<open>MediaStatusService.cpp\<close>) chooses the source that is
  shown and refines a specification that keeps the sources in the order of their activity;
  \<open>Play_Queue\<close> (\<open>PlayQueue.cpp\<close>, \<open>PlaybackPolicy.cpp\<close>) is the order in which the local player
  plays; \<open>Call_State\<close> (\<open>PhoneStateService.cpp\<close>, \<open>NotificationService.cpp\<close>) is the state machine of
  a telephone call over the events of telephony, audio link and Bluetooth daemon.

  \<^bold>\<open>The external API.\<close>  \<open>Api_Framer\<close> (framing), \<open>Api_Auth\<close> (paired clients, proofs, the pairing
  window) and \<open>Api_Session\<close> (a connection from hello to ready) model the files of
  \<open>core/api\<close> of these names; \<open>Data_Registry\<close> and \<open>Data_Invariant\<close> the registry into which API
  clients publish typed samples.

  \<^bold>\<open>The home screen.\<close>  \<open>Widget_Grid\<close> (\<open>WidgetGridModel.cpp\<close>) with \<open>Widget_Layout\<close> (the
  proportional remap) and \<open>Widget_Invariant\<close>; \<open>Dashboards\<close> (\<open>DashboardManager.cpp\<close> and the
  part of \<open>YamlConfig.cpp\<close> it stores its layouts with) and \<open>Dashboard_Invariant\<close>.

  \<^bold>\<open>Conventions.\<close>  An object's fields are a record; a method takes the record and returns it,
  with what it emits or calls in order.  Qt's direct connections are synchronous calls.  Where
  slots may call back into an object before an \<open>emit\<close> returns, they are an arbitrary function of
  its state (messenger, session, API session).  Third-party code is a parameter: protobuf,
  OpenSSL, PipeWire (its ring buffer helpers, buffers and results), FFmpeg, the equalizer's filters,
  the hash functions, number parsers, random numbers and clocks; a theorem that needs something of them names it as a hypothesis
  (\<open>spa_ok\<close>, the TLS record layer of \<open>Secure_Link\<close>).  Machine integers are words where
  they can wrap (frame sizes and budgets, ring indices, acknowledgement counters, API frame
  lengths); sizes of allocated memory, identifiers and generation numbers are natural numbers.

  \<^bold>\<open>Termination and bounds.\<close>  The parser loop terminates by \<open>parser_rank\<close>; loops that depend on
  a library or on slots (handshake, encryption, sending, packet parsing) are
  \<open>partial_function (option)\<close>, and what they need to return is proved or assumed of the library
  by name.  The remap tries at most 100 spill pages as the code does, enough for up to 101
  widgets.  The search for a fresh dashboard identifier and the search for the size of an audio
  ring are a \<open>while_option\<close> that is proved to end.

  \<^bold>\<open>Not modelled.\<close>  Code that only talks to the system (Bluetooth, audio devices, D-Bus, themes,
  weather, logging, the plugins' media back ends), generated protobuf code, the QML views and the models
  that mirror services for them, the protocol trace, the service discovery message, and the
  programs in other languages.  Floating point filters of the equalizer and pixel data are
  opaque.
\<close>

end
